(* ===== verification/Nachos_Prelude.thy ===== *)
theory Nachos_Prelude
  imports Main "HOL-Library.Word" "HOL-Library.Signed_Division" "HOL-Library.Monad_Syntax"
begin

text \<open>
  Shared vocabulary of the development.

  \<^item> The simulator stops when an \<open>ASSERT\<close> fails (\<open>Abort()\<close>), when it calls
    \<open>exit\<close>, and its behaviour is undefined when it reads or writes an array out of
    bounds or dereferences \<open>NULL\<close>. All of these are the value \<open>None\<close> of
    \<open>'a option\<close>; a call that returns is \<open>Some\<close> of its result. Error codes that the
    code returns to its caller are ordinary values.
  \<^item> \<open>g_cfg\<close>, the configuration object of \<open>utility/config.h\<close>, is the record
    \<open>config\<close> and the first argument of what reads it.
  \<^item> \<open>aget\<close> and \<open>aset\<close> are C array accesses with their bounds; \<open>foldM\<close> is a
    counted \<open>for\<close> loop.
  \<^item> \<open>le_bytes\<close> and \<open>le_word\<close> are the representation of an \<open>int\<close> in the
    memory of the (little endian) host, for the \<open>(char *)\<close> casts of the file system.
\<close>

unbundle bit_operations_syntax

named_theorems aget_simps \<open>bounds-checked array access\<close>
named_theorems cint_simps \<open>C integer division and rounding\<close>

type_synonym byte = "8 word"
type_synonym u32 = "32 word"

subsection \<open>Arrays\<close>

definition aget :: "'a list \<Rightarrow> int \<Rightarrow> 'a option" where
  "aget xs i = (if 0 \<le> i \<and> i < int (length xs) then Some (xs ! nat i) else None)"

definition aset :: "'a list \<Rightarrow> int \<Rightarrow> 'a \<Rightarrow> 'a list option" where
  "aset xs i v = (if 0 \<le> i \<and> i < int (length xs) then Some (xs[nat i := v]) else None)"

lemma aget_nat [aget_simps]: "n < length xs \<Longrightarrow> aget xs (int n) = Some (xs ! n)"
  by (simp add: aget_def)

lemma aget_Some [aget_simps]:
  "aget xs i = Some x \<longleftrightarrow> 0 \<le> i \<and> nat i < length xs \<and> x = xs ! nat i"
  by (auto simp: aget_def)

lemma aget_None: "aget xs i = None \<longleftrightarrow> i < 0 \<or> length xs \<le> nat i"
  by (auto simp: aget_def)

lemma aset_nat [aget_simps]: "n < length xs \<Longrightarrow> aset xs (int n) v = Some (xs[n := v])"
  by (simp add: aset_def)

lemma aset_Some [aget_simps]:
  "aset xs i v = Some ys \<longleftrightarrow> 0 \<le> i \<and> nat i < length xs \<and> ys = xs[nat i := v]"
  by (auto simp: aset_def)

lemma aset_length: "aset xs i v = Some ys \<Longrightarrow> length ys = length xs"
  by (auto simp: aset_def split: if_splits)

lemma aset_last: "n = int (length xs) \<Longrightarrow> aset (xs @ [a]) n v = Some (xs @ [v])"
  by (simp add: aset_def)

lemma aget_last: "n = int (length xs) \<Longrightarrow> aget (xs @ [a]) n = Some a"
  by (simp add: aget_def)

subsection \<open>Counted loops\<close>

primrec foldM :: "('a \<Rightarrow> 's \<Rightarrow> 's option) \<Rightarrow> 'a list \<Rightarrow> 's \<Rightarrow> 's option" where
  "foldM f [] s = Some s"
| "foldM f (x # xs) s = Option.bind (f x s) (foldM f xs)"

lemma foldM_Nil [simp]: "foldM f [] = Some"
  by (rule ext) simp

lemma foldM_append: "foldM f (xs @ ys) s = Option.bind (foldM f xs s) (foldM f ys)"
proof (induction xs arbitrary: s)
  case (Cons x xs)
  then show ?case by (cases "f x s") simp_all
qed simp

lemma foldM_snoc: "foldM f (xs @ [x]) s = Option.bind (foldM f xs s) (f x)"
  by (cases "foldM f xs s"; cases "f x (the (foldM f xs s))") (simp_all add: foldM_append)

text \<open>The loop rule: an invariant over the number of iterations done, each of which returns.\<close>

lemma foldM_upt_rule:
  assumes "I 0 s"
    and "\<And>i t. i < n \<Longrightarrow> I i t \<Longrightarrow> \<exists>t'. f i t = Some t' \<and> I (Suc i) t'"
  shows "\<exists>t. foldM f [0..<n] s = Some t \<and> I n t"
  using assms(2)
proof (induction n)
  case 0
  with assms(1) show ?case by simp
next
  case (Suc n)
  then obtain t where "foldM f [0..<n] s = Some t" "I n t" by (metis less_SucI)
  moreover from Suc.prems this obtain t' where "f n t = Some t'" "I (Suc n) t'" by blast
  ultimately show ?case by (simp add: foldM_append)
qed

text \<open>Partial correctness: an invariant kept by every iteration that returns.\<close>

lemma foldM_inv:
  assumes "foldM f xs s = Some t" and "I s"
    and "\<And>x s t. x \<in> set xs \<Longrightarrow> I s \<Longrightarrow> f x s = Some t \<Longrightarrow> I t"
  shows "I t"
  using assms
proof (induction xs arbitrary: s)
  case Nil
  then show ?case by simp
next
  case (Cons x xs)
  from Cons.prems(1) obtain u where u: "f x s = Some u" "foldM f xs u = Some t"
    by (auto split: bind_splits)
  from Cons.prems(3) [OF _ Cons.prems(2) u(1)] have "I u" by simp
  show ?case
    by (rule Cons.IH [OF u(2) \<open>I u\<close>]) (rule Cons.prems(3), simp_all)
qed

subsection \<open>Copying between arrays\<close>

text \<open>The loop \<open>for (i = 0; i < n; i++) dst[doff + i] = src[soff + i];\<close> and \<open>bcopy\<close>.\<close>

definition copy_loop :: "'a list \<Rightarrow> int \<Rightarrow> int \<Rightarrow> nat \<Rightarrow> 'a list \<Rightarrow> 'a list option" where
  "copy_loop src soff doff n =
     foldM (\<lambda>i dst. do { v \<leftarrow> aget src (soff + int i); aset dst (doff + int i) v }) [0..<n]"

lemma copy_loop_spec:
  assumes "s + n \<le> length src" "d + n \<le> length dst"
  shows "copy_loop src (int s) (int d) n dst = Some (take d dst @ take n (drop s src) @ drop (d + n) dst)"
  using assms
proof (induction n)
  case 0
  then show ?case by (simp add: copy_loop_def)
next
  case (Suc n)
  let ?r = "take d dst @ take n (drop s src) @ drop (d + n) dst"
  have "copy_loop src (int s) (int d) (Suc n) dst = aset ?r (int (d + n)) (src ! (s + n))"
    using Suc by (simp add: copy_loop_def foldM_append aget_def nat_add_distrib)
  moreover have "take (Suc n) (drop s src) = take n (drop s src) @ [src ! (s + n)]"
    using Suc.prems by (simp add: take_Suc_conv_app_nth)
  moreover have "drop (d + n) dst = dst ! (d + n) # drop (d + Suc n) dst"
    using Suc.prems by (simp add: Cons_nth_drop_Suc)
  ultimately show ?case
    using Suc.prems by (simp add: aset_def list_update_append nat_int_add del: drop_drop)
qed

subsection \<open>C integer division\<close>

text \<open>
  \<open>int\<close> division of C++ truncates towards zero: \<open>sdiv\<close> and \<open>smod\<close> of
  \<open>HOL-Library.Signed_Division\<close>. The macros are those of \<open>utility/utility.h\<close>.
\<close>

definition divRoundDown :: "int \<Rightarrow> int \<Rightarrow> int" where
  "divRoundDown n s = n sdiv s"

definition divRoundUp :: "int \<Rightarrow> int \<Rightarrow> int" where
  "divRoundUp n s = n sdiv s + (if n smod s > 0 then 1 else 0)"

lemma sdiv_nonneg [cint_simps]: "0 \<le> (a::int) \<Longrightarrow> 0 \<le> b \<Longrightarrow> a sdiv b = a div b"
  by (cases "a = 0"; cases "b = 0") (simp_all add: signed_divide_int_def)

lemma smod_nonneg [cint_simps]: "0 \<le> (a::int) \<Longrightarrow> 0 \<le> b \<Longrightarrow> a smod b = a mod b"
  by (cases "a = 0"; cases "b = 0") (simp_all add: signed_modulo_int_def)

lemma divRoundDown_nonneg [cint_simps]: "0 \<le> n \<Longrightarrow> 0 \<le> s \<Longrightarrow> divRoundDown n s = n div s"
  by (simp add: divRoundDown_def sdiv_nonneg)

lemma divRoundUp_nonneg: "0 \<le> n \<Longrightarrow> 0 < s \<Longrightarrow> divRoundUp n s = (n + s - 1) div s"
proof -
  assume n: "0 \<le> n" and s: "0 < s"
  let ?q = "n div s" and ?r = "n mod s"
  have nqr: "n = ?q * s + ?r" by simp
  have r: "0 \<le> ?r" "?r < s" using s by simp_all
  have "(n + s - 1) div s = (?q * s + (?r + s - 1)) div s"
    by (subst nqr) (simp add: algebra_simps)
  also have "\<dots> = ?q + (?r + s - 1) div s"
    using s by (simp add: div_mult_self3)
  also have "(?r + s - 1) div s = (if ?r > 0 then 1 else 0)"
  proof (cases "?r > 0")
    case True
    then have "(?r + s - 1) div s = (1 * s + (?r - 1)) div s" by (simp add: algebra_simps)
    also have "\<dots> = 1 + (?r - 1) div s" using s by (simp only: div_mult_self3)
    also have "(?r - 1) div s = 0" using True r by (simp add: div_pos_pos_trivial)
    finally show ?thesis using True by simp
  next
    case False
    then have "?r = 0" using r by simp
    then show ?thesis using s by (simp add: div_pos_pos_trivial)
  qed
  finally show ?thesis using n s by (simp add: divRoundUp_def cint_simps)
qed

lemma divRoundUp_neg: "n \<le> 0 \<Longrightarrow> - s < n \<Longrightarrow> 0 < s \<Longrightarrow> divRoundUp n s = 0"
proof -
  assume *: "n \<le> 0" "- s < n" "0 < s"
  then have "n sdiv s = 0" by (auto simp: signed_divide_int_def sgn_if div_pos_pos_trivial)
  moreover have "n smod s \<le> 0"
    using * by (cases "n = 0") (simp_all add: signed_modulo_int_def sgn_if mult_nonpos_nonneg)
  ultimately show ?thesis using * by (simp add: divRoundUp_def)
qed

lemma divRoundUp_bounds:
  assumes "0 \<le> n" "0 < s"
  shows "n \<le> divRoundUp n s * s" "divRoundUp n s * s < n + s" "0 \<le> divRoundUp n s"
proof -
  have e: "divRoundUp n s = (n + s - 1) div s" using assms by (rule divRoundUp_nonneg)
  have m: "(n + s - 1) div s * s + (n + s - 1) mod s = n + s - 1" by simp
  have r: "0 \<le> (n + s - 1) mod s" "(n + s - 1) mod s < s" using assms by simp_all
  show "n \<le> divRoundUp n s * s" unfolding e using m r by linarith
  show "divRoundUp n s * s < n + s" unfolding e using m r by linarith
  show "0 \<le> divRoundUp n s" using assms e by (simp add: pos_imp_zdiv_nonneg_iff)
qed

subsection \<open>The configuration object\<close>

text \<open>
  The fields of class \<open>Config\<close> that the modelled code reads. \<open>fresh\<close> is not a field
  of the class: it is the content of memory obtained from \<open>new\<close> or of a local array
  before it is written, which C++ leaves unspecified. Every theorem holds for every
  \<open>fresh\<close>.
\<close>

record config =
  PageSize :: int
  NumPhysPages :: int
  SectorSize :: int
  ProcessorFrequency :: int
  MaxFileNameSize :: int
  NumDirEntries :: int
  DirectoryFileSize :: int
  MaxVirtPages :: int
  UserStackSize :: int
  fresh :: "nat \<Rightarrow> int"

text \<open>A small configuration, for the concrete instances of the properties.\<close>

definition tiny_cfg :: config where
  "tiny_cfg = \<lparr>PageSize = 8, NumPhysPages = 2, SectorSize = 128, ProcessorFrequency = 100,
     MaxFileNameSize = 256, NumDirEntries = 3, DirectoryFileSize = 276, MaxVirtPages = 2,
     UserStackSize = 8, fresh = (\<lambda>_. 0)\<rparr>"

text \<open>The length of the arrays of characters (\<open>utility/config.h\<close>).\<close>

definition MAXSTRLEN :: nat where "MAXSTRLEN = 100"

text \<open>Disk geometry (\<open>machine/disk.h\<close>).\<close>

definition SECTORS_PER_TRACK :: int where "SECTORS_PER_TRACK = 32"
definition NUM_TRACKS :: int where "NUM_TRACKS = 64"
definition NUM_SECTORS :: int where "NUM_SECTORS = SECTORS_PER_TRACK * NUM_TRACKS"

lemma NUM_SECTORS_val [simp]: "NUM_SECTORS = 2048"
  by (simp add: NUM_SECTORS_def SECTORS_PER_TRACK_def NUM_TRACKS_def)

subsection \<open>Integers as bytes\<close>

definition le_bytes :: "u32 \<Rightarrow> byte list" where
  "le_bytes w = [ucast w, ucast (drop_bit 8 w), ucast (drop_bit 16 w), ucast (drop_bit 24 w)]"

definition le_word :: "byte \<Rightarrow> byte \<Rightarrow> byte \<Rightarrow> byte \<Rightarrow> u32" where
  "le_word a b c d = ucast a OR push_bit 8 (ucast b) OR push_bit 16 (ucast c) OR push_bit 24 (ucast d)"

lemma le_word_bytes:
  "le_word (ucast w) (ucast (drop_bit 8 w)) (ucast (drop_bit 16 w)) (ucast (drop_bit 24 w)) = w"
proof (rule bit_word_eqI)
  fix n
  assume "n < LENGTH(32)"
  then consider "n < 8" | "8 \<le> n" "n < 16" | "16 \<le> n" "n < 24" | "24 \<le> n" "n < 32"
    by fastforce
  then show "bit (le_word (ucast w) (ucast (drop_bit 8 w)) (ucast (drop_bit 16 w))
      (ucast (drop_bit 24 w))) n = bit w n"
    by cases (auto simp: le_word_def bit_simps)
qed

lemma byte_high_bits [simp]: "8 \<le> n \<Longrightarrow> \<not> bit (b :: byte) n"
  using bit_imp_le_length [of b n] by auto

lemma le_bytes_word: "le_bytes (le_word a b c d) = [a, b, c, d]"
  by (auto simp: le_word_def le_bytes_def bit_simps intro!: bit_word_eqI)

lemma length_le_bytes [simp]: "length (le_bytes w) = 4"
  by (simp add: le_bytes_def)

definition words_to_bytes :: "u32 list \<Rightarrow> byte list" where
  "words_to_bytes ws = concat (map le_bytes ws)"

fun bytes_to_words :: "byte list \<Rightarrow> u32 list" where
  "bytes_to_words (a # b # c # d # bs) = le_word a b c d # bytes_to_words bs"
| "bytes_to_words _ = []"

lemma words_to_bytes_Nil [simp]: "words_to_bytes [] = []"
  by (simp add: words_to_bytes_def)

lemma words_to_bytes_Cons [simp]: "words_to_bytes (w # ws) = le_bytes w @ words_to_bytes ws"
  by (simp add: words_to_bytes_def)

lemma length_words_to_bytes [simp]: "length (words_to_bytes ws) = 4 * length ws"
  by (induction ws) simp_all

lemma bytes_to_words_inverse [simp]: "bytes_to_words (words_to_bytes ws) = ws"
  by (induction ws) (simp_all add: le_bytes_def le_word_bytes)

lemma words_to_bytes_inverse:
  "length bs = 4 * n \<Longrightarrow> words_to_bytes (bytes_to_words bs) = bs"
proof (induction bs arbitrary: n rule: bytes_to_words.induct)
  case (1 a b c d bs)
  then show ?case by (cases n) (auto simp: le_bytes_word)
qed (simp_all, presburger+)

lemma length_bytes_to_words: "length bs = 4 * n \<Longrightarrow> length (bytes_to_words bs) = n"
proof (induction bs arbitrary: n rule: bytes_to_words.induct)
  case (1 a b c d bs)
  then show ?case by (cases n) auto
qed auto

text \<open>An array of C \<open>int\<close> as bytes: two's complement.\<close>

definition ints_to_bytes :: "int list \<Rightarrow> byte list" where
  "ints_to_bytes is = words_to_bytes (map word_of_int is)"

definition bytes_to_ints :: "byte list \<Rightarrow> int list" where
  "bytes_to_ints bs = map sint (bytes_to_words bs)"

definition int32 :: "int \<Rightarrow> bool" where
  "int32 i \<longleftrightarrow> - (2 ^ 31) \<le> i \<and> i < 2 ^ 31"

lemma int32_sint: "int32 (sint (w :: u32))"
  using sint_range_size [of w] by (auto simp: int32_def word_size)

lemma sint_word_of_int32 [simp]: "int32 i \<Longrightarrow> sint (word_of_int i :: u32) = i"
  by (simp add: int32_def sint_sbintrunc' signed_take_bit_int_eq_self)

lemma length_ints_to_bytes [simp]: "length (ints_to_bytes is) = 4 * length is"
  by (simp add: ints_to_bytes_def)

lemma length_bytes_to_ints: "length bs = 4 * n \<Longrightarrow> length (bytes_to_ints bs) = n"
  by (simp add: bytes_to_ints_def length_bytes_to_words)

lemma bytes_to_ints_inverse: "\<forall>i\<in>set is. int32 i \<Longrightarrow> bytes_to_ints (ints_to_bytes is) = is"
  by (simp add: bytes_to_ints_def ints_to_bytes_def map_idI)

lemma bytes_to_ints_range: "i \<in> set (bytes_to_ints bs) \<Longrightarrow> int32 i"
  by (auto simp: bytes_to_ints_def int32_sint)

subsection \<open>Decimal numbers\<close>

text \<open>\<open>sprintf\<close> with \<open>%d\<close>.\<close>

fun digits :: "nat \<Rightarrow> byte list" where
  "digits n = (if n < 10 then [48 + of_nat n] else digits (n div 10) @ [48 + of_nat (n mod 10)])"

declare digits.simps [simp del]

definition decimal :: "int \<Rightarrow> byte list" where
  "decimal i = (if i < 0 then 45 # digits (nat (- i)) else digits (nat i))"

end
