(* ===== verification/Nachos_BitMap.thy ===== *)
theory Nachos_BitMap
  imports Nachos_Prelude
begin

text \<open>
  Class \<open>BitMap\<close> of \<open>utility/bitmap.cc\<close>: an array of bits stored in 32-bit words,
  the allocator of disk sectors and of swap pages. Abstractly it is a finite set of
  marked numbers; the locale \<open>sector_allocator\<close> states that contract, the loop that
  allocates several sectors is verified against it once, and the class is its
  interpretation.
\<close>

definition BITS_IN_WORD :: int where "BITS_IN_WORD = 32"

record bitmap =
  numBits :: int
  numWords :: int
  bits :: "u32 list"

text \<open>The mask \<open>1 << (which % BITS_IN_WORD)\<close>.\<close>

definition bit_mask :: "int \<Rightarrow> u32" where
  "bit_mask which = push_bit (nat (which mod BITS_IN_WORD)) 1"

definition BitMap_Mark :: "bitmap \<Rightarrow> int \<Rightarrow> bitmap option" where
  "BitMap_Mark b which =
     (if 0 \<le> which \<and> which < numBits b
      then do { w \<leftarrow> aget (bits b) (which div BITS_IN_WORD);
                ws \<leftarrow> aset (bits b) (which div BITS_IN_WORD) (w OR bit_mask which);
                Some (b\<lparr>bits := ws\<rparr>) }
      else None)"

definition BitMap_Clear :: "bitmap \<Rightarrow> int \<Rightarrow> bitmap option" where
  "BitMap_Clear b which =
     (if 0 \<le> which \<and> which < numBits b
      then do { w \<leftarrow> aget (bits b) (which div BITS_IN_WORD);
                ws \<leftarrow> aset (bits b) (which div BITS_IN_WORD) (w AND NOT (bit_mask which));
                Some (b\<lparr>bits := ws\<rparr>) }
      else None)"

definition BitMap_Test :: "bitmap \<Rightarrow> int \<Rightarrow> bool option" where
  "BitMap_Test b which =
     (if 0 \<le> which \<and> which < numBits b
      then do { w \<leftarrow> aget (bits b) (which div BITS_IN_WORD);
                Some (w AND bit_mask which \<noteq> 0) }
      else None)"

text \<open>The constructor clears the \<open>numBits\<close> bits one by one; the array is fresh memory.\<close>

definition BitMap_new :: "config \<Rightarrow> int \<Rightarrow> bitmap option" where
  "BitMap_new cfg nitems =
     (let nw = divRoundUp nitems BITS_IN_WORD;
          b = \<lparr>numBits = nitems, numWords = nw,
               bits = map (\<lambda>i. word_of_int (fresh cfg i)) [0..<nat nw]\<rparr>
      in foldM (\<lambda>i b. BitMap_Clear b (int i)) [0..<nat nitems] b)"

text \<open>\<open>Find\<close>: the loop over \<open>i < numBits\<close>, as a recursion from \<open>i\<close>.\<close>

function BitMap_Find_from :: "bitmap \<Rightarrow> int \<Rightarrow> (int \<times> bitmap) option" where
  "BitMap_Find_from b i =
     (if i < numBits b
      then do { t \<leftarrow> BitMap_Test b i;
                if \<not> t then do { b' \<leftarrow> BitMap_Mark b i; Some (i, b') }
                else BitMap_Find_from b (i + 1) }
      else Some (- 1, b))"
  by pat_completeness auto
termination
  by (relation "measure (\<lambda>(b, i). nat (numBits b - i))") auto

declare BitMap_Find_from.simps [simp del]

definition BitMap_Find :: "bitmap \<Rightarrow> (int \<times> bitmap) option" where
  "BitMap_Find b = BitMap_Find_from b 0"

definition BitMap_NumClear :: "bitmap \<Rightarrow> int option" where
  "BitMap_NumClear b =
     foldM (\<lambda>i count. do { t \<leftarrow> BitMap_Test b (int i);
                           Some (if \<not> t then count + 1 else count) })
       [0..<nat (numBits b)] 0"

subsection \<open>Well-formed bitmaps and the set they represent\<close>

definition wf_bitmap :: "bitmap \<Rightarrow> bool" where
  "wf_bitmap b \<longleftrightarrow> 0 \<le> numBits b \<and> numWords b = divRoundUp (numBits b) BITS_IN_WORD
     \<and> int (length (bits b)) = numWords b"

definition marked :: "bitmap \<Rightarrow> int set" where
  "marked b = {i. 0 \<le> i \<and> i < numBits b \<and> bit (bits b ! nat (i div 32)) (nat (i mod 32))}"

lemma marked_bounds: "i \<in> marked b \<Longrightarrow> 0 \<le> i \<and> i < numBits b"
  by (simp add: marked_def)

lemma finite_marked [simp]: "finite (marked b)"
  by (rule finite_subset [of _ "{0..<numBits b}"]) (auto simp: marked_def)

lemma wf_bitmap_word:
  assumes "wf_bitmap b" "0 \<le> i" "i < numBits b"
  shows "0 \<le> i div 32" "nat (i div 32) < length (bits b)"
proof -
  have n: "numBits b \<le> numWords b * 32"
    using assms divRoundUp_bounds(1) [of "numBits b" BITS_IN_WORD]
    by (simp add: wf_bitmap_def BITS_IN_WORD_def)
  show "0 \<le> i div 32" using assms by simp
  have "i div 32 < numWords b" using n assms(3) by (simp add: div_less_iff_less_mult)
  then have "i div 32 < int (length (bits b))" using assms(1) by (simp add: wf_bitmap_def)
  then show "nat (i div 32) < length (bits b)" using assms(2) by (simp add: nat_less_iff)
qed

lemma word_and_mask: "(w :: u32) AND 2 ^ k \<noteq> 0 \<longleftrightarrow> bit w k"
  by (simp add: bit_iff_and_push_bit_not_eq_0)

lemma bit_or_mask: "k < 32 \<Longrightarrow> bit ((w :: u32) OR 2 ^ k) n \<longleftrightarrow> bit w n \<or> n = k"
  by (auto simp: bit_or_iff bit_exp_iff)

lemma bit_andnot_mask: "k < 32 \<Longrightarrow> bit ((w :: u32) AND NOT (2 ^ k)) n \<longleftrightarrow> bit w n \<and> n \<noteq> k"
  using bit_imp_le_length [of w n] by (auto simp: bit_and_iff bit_not_iff bit_exp_iff)

lemmas mask_bits = word_and_mask bit_or_mask bit_andnot_mask

lemma same_bit: "(i::int) div 32 = j div 32 \<Longrightarrow> i mod 32 = j mod 32 \<Longrightarrow> i = j"
  by (metis div_mult_mod_eq)

lemma BitMap_Test_correct:
  assumes "wf_bitmap b" "0 \<le> i" "i < numBits b"
  shows "BitMap_Test b i = Some (i \<in> marked b)"
  using assms wf_bitmap_word [OF assms]
  by (simp add: BitMap_Test_def aget_def BITS_IN_WORD_def bit_mask_def marked_def
      mask_bits)

text \<open>The effect of replacing the word that holds bit \<open>i\<close>.\<close>

lemma marked_update:
  assumes "wf_bitmap b" "0 \<le> i" "i < numBits b"
    and flip: "\<And>n. n < 32 \<Longrightarrow>
      bit w n \<longleftrightarrow> (if n = nat (i mod 32) then v else bit (bits b ! nat (i div 32)) n)"
  shows "marked (b\<lparr>bits := (bits b)[nat (i div 32) := w]\<rparr>)
    = (if v then insert i (marked b) else marked b - {i})" (is "marked ?b = ?rhs")
proof (rule set_eqI)
  fix j
  note wd = wf_bitmap_word [OF assms(1-3)]
  have iff: "nat (j mod 32) = nat (i mod 32) \<longleftrightarrow> j mod 32 = i mod 32"
    by (simp add: eq_nat_nat_iff)
  consider "0 \<le> j" "j < numBits b" "j div 32 = i div 32" | "0 \<le> j" "j div 32 \<noteq> i div 32"
    | "\<not> (0 \<le> j \<and> j < numBits b)" by blast
  then show "j \<in> marked ?b \<longleftrightarrow> j \<in> ?rhs"
  proof cases
    case 1
    have b: "bit w (nat (j mod 32)) \<longleftrightarrow>
        (if nat (j mod 32) = nat (i mod 32) then v else bit (bits b ! nat (i div 32)) (nat (j mod 32)))"
      by (rule flip) simp
    show ?thesis
    proof (cases "j = i")
      case True
      show ?thesis using b wd assms(2,3) unfolding True by (simp add: marked_def)
    next
      case False
      then have "j mod 32 \<noteq> i mod 32" using 1(3) same_bit by blast
      then have "bit w (nat (j mod 32)) \<longleftrightarrow> bit (bits b ! nat (i div 32)) (nat (j mod 32))"
        using b by (simp add: iff)
      then show ?thesis using False 1 wd by (simp add: marked_def)
    qed
  next
    case 2
    then have "nat (j div 32) \<noteq> nat (i div 32)" "j \<noteq> i"
      using wd by (auto simp: eq_nat_nat_iff)
    then show ?thesis by (simp add: marked_def)
  next
    case 3
    then show ?thesis using assms(2,3) by (auto simp: marked_def)
  qed
qed

lemma BitMap_Mark_correct:
  assumes "wf_bitmap b" "0 \<le> i" "i < numBits b"
  shows "\<exists>b'. BitMap_Mark b i = Some b' \<and> wf_bitmap b' \<and> numBits b' = numBits b
    \<and> marked b' = insert i (marked b)"
proof -
  let ?k = "nat (i div 32)"
  let ?b = "b\<lparr>bits := (bits b)[?k := bits b ! ?k OR bit_mask i]\<rparr>"
  note w = wf_bitmap_word [OF assms]
  have "BitMap_Mark b i = Some ?b"
    using assms w by (simp add: BitMap_Mark_def aget_def aset_def BITS_IN_WORD_def)
  moreover have "marked ?b = insert i (marked b)"
    using marked_update [OF assms, of "bits b ! ?k OR bit_mask i" True]
    by (simp add: bit_mask_def BITS_IN_WORD_def bit_or_mask)
  ultimately show ?thesis using assms(1) by (simp add: wf_bitmap_def)
qed

lemma BitMap_Clear_correct:
  assumes "wf_bitmap b" "0 \<le> i" "i < numBits b"
  shows "\<exists>b'. BitMap_Clear b i = Some b' \<and> wf_bitmap b' \<and> numBits b' = numBits b
    \<and> marked b' = marked b - {i}"
proof -
  let ?k = "nat (i div 32)"
  let ?b = "b\<lparr>bits := (bits b)[?k := bits b ! ?k AND NOT (bit_mask i)]\<rparr>"
  note w = wf_bitmap_word [OF assms]
  have "BitMap_Clear b i = Some ?b"
    using assms w by (simp add: BitMap_Clear_def aget_def aset_def BITS_IN_WORD_def)
  moreover have "marked ?b = marked b - {i}"
    using marked_update [OF assms, of "bits b ! ?k AND NOT (bit_mask i)" False]
    by (simp add: bit_mask_def BITS_IN_WORD_def bit_andnot_mask)
  ultimately show ?thesis using assms(1) by (simp add: wf_bitmap_def)
qed

subsection \<open>Searching and counting\<close>

definition free_bits :: "bitmap \<Rightarrow> int set" where
  "free_bits b = {0..<numBits b} - marked b"

lemma finite_free_bits [simp]: "finite (free_bits b)"
  by (simp add: free_bits_def)

lemma BitMap_Find_from_correct:
  assumes "wf_bitmap b" "0 \<le> i" "\<forall>j. 0 \<le> j \<and> j < i \<longrightarrow> j \<in> marked b"
  shows "if free_bits b = {} then BitMap_Find_from b i = Some (- 1, b)
    else \<exists>b'. BitMap_Find_from b i = Some (Min (free_bits b), b') \<and> wf_bitmap b'
      \<and> numBits b' = numBits b \<and> marked b' = insert (Min (free_bits b)) (marked b)"
  using assms
proof (induction b i rule: BitMap_Find_from.induct)
  case (1 b i)
  show ?case
  proof (cases "i < numBits b")
    case False
    then have "free_bits b = {}" using "1.prems" by (auto simp: free_bits_def)
    then show ?thesis using False by (simp add: BitMap_Find_from.simps)
  next
    case True
    have t: "BitMap_Test b i = Some (i \<in> marked b)"
      using "1.prems" True by (simp add: BitMap_Test_correct)
    show ?thesis
    proof (cases "i \<in> marked b")
      case m: True
      have "BitMap_Find_from b i = BitMap_Find_from b (i + 1)"
        using True t m by (simp add: BitMap_Find_from.simps [of b i])
      moreover have "\<forall>j. 0 \<le> j \<and> j < i + 1 \<longrightarrow> j \<in> marked b"
        using "1.prems" m by (metis less_le zle_iff_zadd zless_add1_eq)
      ultimately show ?thesis
        using "1.IH" [OF True t] m "1.prems" by simp
    next
      case m: False
      then have i: "i \<in> free_bits b" using True "1.prems" by (simp add: free_bits_def)
      have "Min (free_bits b) = i"
        using i "1.prems"(3) by (intro Min_eqI) (auto simp: free_bits_def not_less [symmetric])
      moreover obtain b' where "BitMap_Mark b i = Some b'" "wf_bitmap b'" "numBits b' = numBits b"
        "marked b' = insert i (marked b)"
        using BitMap_Mark_correct "1.prems" True by blast
      ultimately show ?thesis using i True t m by (auto simp: BitMap_Find_from.simps [of b i])
    qed
  qed
qed

lemma BitMap_Find_correct:
  assumes "wf_bitmap b"
  shows "if free_bits b = {} then BitMap_Find b = Some (- 1, b)
    else \<exists>b'. BitMap_Find b = Some (Min (free_bits b), b') \<and> wf_bitmap b'
      \<and> numBits b' = numBits b \<and> marked b' = insert (Min (free_bits b)) (marked b)"
  unfolding BitMap_Find_def by (rule BitMap_Find_from_correct [OF assms]) auto

lemma BitMap_NumClear_correct:
  assumes "wf_bitmap b"
  shows "BitMap_NumClear b = Some (int (card (free_bits b)))"
proof -
  let ?f = "\<lambda>i count. do { t \<leftarrow> BitMap_Test b (int i); Some (if \<not> t then count + 1 else count) }"
  let ?F = "\<lambda>n. {0..<int n} - marked b"
  have "n \<le> nat (numBits b) \<Longrightarrow> foldM ?f [0..<n] 0 = Some (int (card (?F n)))" for n
  proof (induction n)
    case (Suc n)
    have eq: "?F (Suc n) = (if int n \<in> marked b then ?F n else insert (int n) (?F n))"
      by (auto simp: less_le)
    have "BitMap_Test b (int n) = Some (int n \<in> marked b)"
      using Suc.prems assms by (intro BitMap_Test_correct) auto
    moreover have "foldM ?f [0..<n] 0 = Some (int (card (?F n)))" using Suc by simp
    ultimately show ?case unfolding eq by (simp add: foldM_append)
  qed simp
  from this [of "nat (numBits b)"] show ?thesis
    using assms by (simp add: BitMap_NumClear_def free_bits_def wf_bitmap_def)
qed

lemma BitMap_new_correct:
  assumes "0 \<le> n"
  shows "\<exists>b. BitMap_new cfg n = Some b \<and> wf_bitmap b \<and> numBits b = n \<and> marked b = {}"
proof -
  let ?b = "\<lparr>numBits = n, numWords = divRoundUp n BITS_IN_WORD,
    bits = map (\<lambda>i. word_of_int (fresh cfg i)) [0..<nat (divRoundUp n BITS_IN_WORD)]\<rparr>"
  let ?I = "\<lambda>k b. wf_bitmap b \<and> numBits b = n \<and> marked b \<inter> {0..<int k} = {}"
  have "\<exists>t. foldM (\<lambda>i b. BitMap_Clear b (int i)) [0..<nat n] ?b = Some t \<and> ?I (nat n) t"
  proof (rule foldM_upt_rule [where I = ?I])
    show "?I 0 ?b" using assms divRoundUp_bounds(3) [of n BITS_IN_WORD]
      by (simp add: wf_bitmap_def BITS_IN_WORD_def)
    show "\<exists>t'. BitMap_Clear t (int i) = Some t' \<and> ?I (Suc i) t'" if h: "i < nat n" "?I i t" for i t
    proof -
      from h have "int i < numBits t" using assms by (auto simp: zless_nat_eq_int_zless)
      then obtain t' where "BitMap_Clear t (int i) = Some t'" "wf_bitmap t'" "numBits t' = n"
        "marked t' = marked t - {int i}"
        using BitMap_Clear_correct [of t "int i"] h assms by auto
      moreover from this h have "marked t' \<inter> {0..<int (Suc i)} = {}"
        by (auto simp: zless_add1_eq)
      ultimately show ?thesis by blast
    qed
  qed
  then obtain b where b: "BitMap_new cfg n = Some b" "?I (nat n) b"
    by (auto simp: BitMap_new_def Let_def)
  moreover have "marked b \<subseteq> {0..<int (nat n)}"
    using b(2) assms by (auto simp: marked_def)
  then have "marked b = {}" using b(2) by blast
  ultimately show ?thesis by blast
qed

subsection \<open>The contract, and the loops that rely on it\<close>

text \<open>
  The loops \<open>for (i = 0; i < n; i++) table[off + i] = freeMap->Find();\<close> and
  \<open>for (...) { ASSERT(freeMap->Test(x)); freeMap->Clear(x); }\<close> of \<open>filehdr.cc\<close>, over
  any implementation of the bitmap.
\<close>

definition fill_from ::
  "('b \<Rightarrow> (int \<times> 'b) option) \<Rightarrow> int \<Rightarrow> nat \<Rightarrow> int list \<times> 'b \<Rightarrow> (int list \<times> 'b) option" where
  "fill_from next_free off n =
     foldM (\<lambda>i (arr, b). do { (s, b') \<leftarrow> next_free b; arr' \<leftarrow> aset arr (off + int i) s; Some (arr', b') })
       [0..<n]"

definition release_all ::
  "('b \<Rightarrow> int \<Rightarrow> bool option) \<Rightarrow> ('b \<Rightarrow> int \<Rightarrow> 'b option) \<Rightarrow> int list \<Rightarrow> 'b \<Rightarrow> 'b option" where
  "release_all test clear =
     foldM (\<lambda>x b. do { t \<leftarrow> test b x; if t then clear b x else None })"

locale sector_allocator =
  fixes test :: "'b \<Rightarrow> int \<Rightarrow> bool option"
    and mark :: "'b \<Rightarrow> int \<Rightarrow> 'b option"
    and clear :: "'b \<Rightarrow> int \<Rightarrow> 'b option"
    and next_free :: "'b \<Rightarrow> (int \<times> 'b) option"
    and num_clear :: "'b \<Rightarrow> int option"
    and invar :: "'b \<Rightarrow> bool"
    and total :: "'b \<Rightarrow> int"
    and used :: "'b \<Rightarrow> int set"
  assumes used_bounds: "invar b \<Longrightarrow> i \<in> used b \<Longrightarrow> 0 \<le> i \<and> i < total b"
    and test_spec: "invar b \<Longrightarrow> 0 \<le> i \<Longrightarrow> i < total b \<Longrightarrow> test b i = Some (i \<in> used b)"
    and test_bad: "\<not> (0 \<le> i \<and> i < total b) \<Longrightarrow> test b i = None"
    and mark_spec: "invar b \<Longrightarrow> 0 \<le> i \<Longrightarrow> i < total b \<Longrightarrow>
      \<exists>b'. mark b i = Some b' \<and> invar b' \<and> total b' = total b \<and> used b' = insert i (used b)"
    and clear_spec: "invar b \<Longrightarrow> 0 \<le> i \<Longrightarrow> i < total b \<Longrightarrow>
      \<exists>b'. clear b i = Some b' \<and> invar b' \<and> total b' = total b \<and> used b' = used b - {i}"
    and find_spec: "invar b \<Longrightarrow> {0..<total b} - used b \<noteq> {} \<Longrightarrow>
      \<exists>b'. next_free b = Some (Min ({0..<total b} - used b), b') \<and> invar b' \<and> total b' = total b
        \<and> used b' = insert (Min ({0..<total b} - used b)) (used b)"
    and find_full: "invar b \<Longrightarrow> {0..<total b} - used b = {} \<Longrightarrow> next_free b = Some (- 1, b)"
    and num_clear_spec: "invar b \<Longrightarrow> num_clear b = Some (int (card ({0..<total b} - used b)))"
begin

text \<open>
  The allocation loop finds as many distinct free sectors as there are iterations, when
  the count said that there are enough, and touches nothing else of the table.
\<close>

lemma fill_from_spec:
  assumes "invar b" "int n \<le> int (card ({0..<total b} - used b))"
    and "0 \<le> off" "nat off + n \<le> length arr"
  shows "\<exists>xs b'. fill_from next_free off n (arr, b)
      = Some (take (nat off) arr @ xs @ drop (nat off + n) arr, b')
    \<and> length xs = n \<and> distinct xs \<and> set xs \<subseteq> {0..<total b} - used b
    \<and> invar b' \<and> total b' = total b \<and> used b' = used b \<union> set xs"
  using assms(2,4)
proof (induction n)
  case 0
  then show ?case using assms(1) by (simp add: fill_from_def)
next
  case (Suc n)
  then obtain xs b' where *: "fill_from next_free off n (arr, b)
      = Some (take (nat off) arr @ xs @ drop (nat off + n) arr, b')"
    "length xs = n" "distinct xs" "set xs \<subseteq> {0..<total b} - used b"
    "invar b'" "total b' = total b" "used b' = used b \<union> set xs"
    by auto
  let ?free = "{0..<total b'} - used b'"
  have "?free = ({0..<total b} - used b) - set xs" using * by auto
  then have "card ?free = card ({0..<total b} - used b) - n"
    using * by (simp add: card_Diff_subset distinct_card)
  then have ne: "?free \<noteq> {}" using Suc.prems by (metis card.empty diff_is_0_eq not_less_eq_eq of_nat_le_iff)
  then obtain b'' where f: "next_free b' = Some (Min ?free, b'')" "invar b''" "total b'' = total b'"
    "used b'' = insert (Min ?free) (used b')"
    using find_spec *(5) by blast
  have m: "Min ?free \<in> ?free" using ne by (intro Min_in) auto
  let ?ys = "xs @ [Min ?free]"
  have len: "nat off \<le> length arr" "nat off + n < length arr" using Suc.prems by auto
  have drop: "drop (nat off + n) arr = arr ! (nat off + n) # drop (nat off + Suc n) arr"
    using len by (simp add: Cons_nth_drop_Suc)
  have "aset (take (nat off) arr @ xs @ drop (nat off + n) arr) (off + int n) (Min ?free)
      = Some (take (nat off) arr @ ?ys @ drop (nat off + Suc n) arr)"
    using len *(2) assms(3) unfolding drop
    by (simp add: aset_def nat_add_distrib list_update_append)
  then have "fill_from next_free off (Suc n) (arr, b)
      = Some (take (nat off) arr @ ?ys @ drop (nat off + Suc n) arr, b'')"
    using *(1) f(1) by (simp add: fill_from_def foldM_append)
  moreover have "distinct ?ys" "set ?ys \<subseteq> {0..<total b} - used b" using * m by auto
  moreover have "used b'' = used b \<union> set ?ys" using * f by auto
  ultimately show ?case using * f by (intro exI [of _ ?ys] exI [of _ b'']) auto
qed

text \<open>The release loop clears exactly the given sectors when they are marked and distinct.\<close>

lemma release_all_spec:
  assumes "invar b" "distinct xs" "set xs \<subseteq> used b"
  shows "\<exists>b'. release_all test clear xs b = Some b' \<and> invar b' \<and> total b' = total b
    \<and> used b' = used b - set xs"
  using assms
proof (induction xs arbitrary: b)
  case Nil
  then show ?case by (simp add: release_all_def)
next
  case (Cons x xs)
  then have x: "x \<in> used b" "0 \<le> x" "x < total b" using used_bounds by auto
  then obtain b1 where b1: "clear b x = Some b1" "invar b1" "total b1 = total b" "used b1 = used b - {x}"
    using clear_spec Cons.prems by blast
  with Cons.prems have "set xs \<subseteq> used b1" by auto
  with Cons.IH [OF b1(2)] Cons.prems obtain b' where "release_all test clear xs b1 = Some b'"
    "invar b'" "total b' = total b1" "used b' = used b1 - set xs"
    by auto
  with b1 x show ?case
    using test_spec Cons.prems(1) by (intro exI [of _ b']) (auto simp: release_all_def)
qed

text \<open>A sector that is not marked, or is listed twice, trips the \<open>ASSERT\<close>.\<close>

lemma release_all_unmarked:
  assumes "invar b" "x \<notin> used b"
  shows "release_all test clear (x # xs) b = None"
  using test_spec [OF assms(1)] test_bad assms(2)
  by (cases "0 \<le> x \<and> x < total b") (auto simp: release_all_def)

end

interpretation bm: sector_allocator
  BitMap_Test BitMap_Mark BitMap_Clear BitMap_Find BitMap_NumClear wf_bitmap numBits marked
proof unfold_locales
  fix b :: bitmap and i :: int
  show "BitMap_Test b i = None" if "\<not> (0 \<le> i \<and> i < numBits b)"
    using that by (auto simp: BitMap_Test_def)
  assume w: "wf_bitmap b"
  show "0 \<le> i \<and> i < numBits b" if "i \<in> marked b" using that by (rule marked_bounds)
  show "BitMap_NumClear b = Some (int (card ({0..<numBits b} - marked b)))"
    using BitMap_NumClear_correct [OF w] by (simp add: free_bits_def)
  show "BitMap_Find b = Some (- 1, b)" if "{0..<numBits b} - marked b = {}"
    using BitMap_Find_correct [OF w] that by (simp add: free_bits_def)
  show "\<exists>b'. BitMap_Find b = Some (Min ({0..<numBits b} - marked b), b') \<and> wf_bitmap b'
      \<and> numBits b' = numBits b \<and> marked b' = insert (Min ({0..<numBits b} - marked b)) (marked b)"
    if "{0..<numBits b} - marked b \<noteq> {}"
    using BitMap_Find_correct [OF w] that by (simp add: free_bits_def)
qed (simp_all add: BitMap_Test_correct BitMap_Mark_correct BitMap_Clear_correct)

end
