(* ===== verification/Nachos_Decode.thy ===== *)
theory Nachos_Decode
  imports Nachos_Prelude
begin

text \<open>
  Decoding of the MIPS instructions: the operation codes and tables of
  \<open>machine/mipssim.h\<close> and \<open>Instruction::Decode\<close> of \<open>machine/mipssim.cc\<close>. The
  register fields, five bits of the word kept in an \<open>int8_t\<close>, are natural numbers.
\<close>

definition OP_ADD :: nat where [simp]: "OP_ADD = 1"
definition OP_ADDI :: nat where [simp]: "OP_ADDI = 2"
definition OP_ADDIU :: nat where [simp]: "OP_ADDIU = 3"
definition OP_ADDU :: nat where [simp]: "OP_ADDU = 4"
definition OP_AND :: nat where [simp]: "OP_AND = 5"
definition OP_ANDI :: nat where [simp]: "OP_ANDI = 6"
definition OP_BEQ :: nat where [simp]: "OP_BEQ = 7"
definition OP_BGEZ :: nat where [simp]: "OP_BGEZ = 8"
definition OP_BGEZAL :: nat where [simp]: "OP_BGEZAL = 9"
definition OP_BGTZ :: nat where [simp]: "OP_BGTZ = 10"
definition OP_BLEZ :: nat where [simp]: "OP_BLEZ = 11"
definition OP_BLTZ :: nat where [simp]: "OP_BLTZ = 12"
definition OP_BLTZAL :: nat where [simp]: "OP_BLTZAL = 13"
definition OP_BNE :: nat where [simp]: "OP_BNE = 14"
definition OP_DIV :: nat where [simp]: "OP_DIV = 16"
definition OP_DIVU :: nat where [simp]: "OP_DIVU = 17"
definition OP_J :: nat where [simp]: "OP_J = 18"
definition OP_JAL :: nat where [simp]: "OP_JAL = 19"
definition OP_JALR :: nat where [simp]: "OP_JALR = 20"
definition OP_JR :: nat where [simp]: "OP_JR = 21"
definition OP_LB :: nat where [simp]: "OP_LB = 22"
definition OP_LBU :: nat where [simp]: "OP_LBU = 23"
definition OP_LH :: nat where [simp]: "OP_LH = 24"
definition OP_LHU :: nat where [simp]: "OP_LHU = 25"
definition OP_LUI :: nat where [simp]: "OP_LUI = 26"
definition OP_LW :: nat where [simp]: "OP_LW = 27"
definition OP_LWL :: nat where [simp]: "OP_LWL = 28"
definition OP_LWR :: nat where [simp]: "OP_LWR = 29"
definition OP_MFHI :: nat where [simp]: "OP_MFHI = 31"
definition OP_MFLO :: nat where [simp]: "OP_MFLO = 32"
definition OP_MTHI :: nat where [simp]: "OP_MTHI = 34"
definition OP_MTLO :: nat where [simp]: "OP_MTLO = 35"
definition OP_MULT :: nat where [simp]: "OP_MULT = 36"
definition OP_MULTU :: nat where [simp]: "OP_MULTU = 37"
definition OP_NOR :: nat where [simp]: "OP_NOR = 38"
definition OP_OR :: nat where [simp]: "OP_OR = 39"
definition OP_ORI :: nat where [simp]: "OP_ORI = 40"
definition OP_RFE :: nat where [simp]: "OP_RFE = 41"
definition OP_SB :: nat where [simp]: "OP_SB = 42"
definition OP_SH :: nat where [simp]: "OP_SH = 43"
definition OP_SLL :: nat where [simp]: "OP_SLL = 44"
definition OP_SLLV :: nat where [simp]: "OP_SLLV = 45"
definition OP_SLT :: nat where [simp]: "OP_SLT = 46"
definition OP_SLTI :: nat where [simp]: "OP_SLTI = 47"
definition OP_SLTIU :: nat where [simp]: "OP_SLTIU = 48"
definition OP_SLTU :: nat where [simp]: "OP_SLTU = 49"
definition OP_SRA :: nat where [simp]: "OP_SRA = 50"
definition OP_SRAV :: nat where [simp]: "OP_SRAV = 51"
definition OP_SRL :: nat where [simp]: "OP_SRL = 52"
definition OP_SRLV :: nat where [simp]: "OP_SRLV = 53"
definition OP_SUB :: nat where [simp]: "OP_SUB = 54"
definition OP_SUBU :: nat where [simp]: "OP_SUBU = 55"
definition OP_SW :: nat where [simp]: "OP_SW = 56"
definition OP_SWL :: nat where [simp]: "OP_SWL = 57"
definition OP_SWR :: nat where [simp]: "OP_SWR = 58"
definition OP_XOR :: nat where [simp]: "OP_XOR = 59"
definition OP_XORI :: nat where [simp]: "OP_XORI = 60"
definition OP_SYSCALL :: nat where [simp]: "OP_SYSCALL = 61"
definition OP_LWC1 :: nat where [simp]: "OP_LWC1 = 62"
definition OP_LDC1 :: nat where [simp]: "OP_LDC1 = 63"
definition OP_SWC1 :: nat where [simp]: "OP_SWC1 = 64"
definition OP_SDC1 :: nat where [simp]: "OP_SDC1 = 65"
definition OP_ABS_S :: nat where [simp]: "OP_ABS_S = 66"
definition OP_ABS_D :: nat where [simp]: "OP_ABS_D = 67"
definition OP_ADD_S :: nat where [simp]: "OP_ADD_S = 68"
definition OP_ADD_D :: nat where [simp]: "OP_ADD_D = 69"
definition OP_DIV_S :: nat where [simp]: "OP_DIV_S = 70"
definition OP_DIV_D :: nat where [simp]: "OP_DIV_D = 71"
definition OP_MUL_S :: nat where [simp]: "OP_MUL_S = 72"
definition OP_MUL_D :: nat where [simp]: "OP_MUL_D = 73"
definition OP_NEG_S :: nat where [simp]: "OP_NEG_S = 74"
definition OP_NEG_D :: nat where [simp]: "OP_NEG_D = 75"
definition OP_SUB_S :: nat where [simp]: "OP_SUB_S = 76"
definition OP_SUB_D :: nat where [simp]: "OP_SUB_D = 77"
definition OP_CVT_S_D :: nat where [simp]: "OP_CVT_S_D = 78"
definition OP_CVT_S_W :: nat where [simp]: "OP_CVT_S_W = 79"
definition OP_CVT_W_S :: nat where [simp]: "OP_CVT_W_S = 80"
definition OP_CVT_W_D :: nat where [simp]: "OP_CVT_W_D = 81"
definition OP_CVT_D_S :: nat where [simp]: "OP_CVT_D_S = 82"
definition OP_CVT_D_W :: nat where [simp]: "OP_CVT_D_W = 83"
definition OP_CEIL_W_S :: nat where [simp]: "OP_CEIL_W_S = 84"
definition OP_CEIL_W_D :: nat where [simp]: "OP_CEIL_W_D = 85"
definition OP_FLOOR_W_S :: nat where [simp]: "OP_FLOOR_W_S = 86"
definition OP_FLOOR_W_D :: nat where [simp]: "OP_FLOOR_W_D = 87"
definition OP_ROUND_W_S :: nat where [simp]: "OP_ROUND_W_S = 88"
definition OP_ROUND_W_D :: nat where [simp]: "OP_ROUND_W_D = 89"
definition OP_TRUNC_W_S :: nat where [simp]: "OP_TRUNC_W_S = 90"
definition OP_TRUNC_W_D :: nat where [simp]: "OP_TRUNC_W_D = 91"
definition OP_MOV_S :: nat where [simp]: "OP_MOV_S = 92"
definition OP_MOV_D :: nat where [simp]: "OP_MOV_D = 93"
definition OP_BC1F :: nat where [simp]: "OP_BC1F = 94"
definition OP_BC1T :: nat where [simp]: "OP_BC1T = 95"
definition OP_BC1FL :: nat where [simp]: "OP_BC1FL = 96"
definition OP_BC1TL :: nat where [simp]: "OP_BC1TL = 97"
definition OP_SQRT_S :: nat where [simp]: "OP_SQRT_S = 98"
definition OP_SQRT_D :: nat where [simp]: "OP_SQRT_D = 99"
definition OP_C_F_S :: nat where [simp]: "OP_C_F_S = 100"
definition OP_C_UN_S :: nat where [simp]: "OP_C_UN_S = 101"
definition OP_C_EQ_S :: nat where [simp]: "OP_C_EQ_S = 102"
definition OP_C_UEQ_S :: nat where [simp]: "OP_C_UEQ_S = 103"
definition OP_C_OLT_S :: nat where [simp]: "OP_C_OLT_S = 104"
definition OP_C_ULT_S :: nat where [simp]: "OP_C_ULT_S = 105"
definition OP_C_OLE_S :: nat where [simp]: "OP_C_OLE_S = 106"
definition OP_C_ULE_S :: nat where [simp]: "OP_C_ULE_S = 107"
definition OP_C_SF_S :: nat where [simp]: "OP_C_SF_S = 108"
definition OP_C_NGLE_S :: nat where [simp]: "OP_C_NGLE_S = 109"
definition OP_C_SEQ_S :: nat where [simp]: "OP_C_SEQ_S = 110"
definition OP_C_NGL_S :: nat where [simp]: "OP_C_NGL_S = 111"
definition OP_C_LT_S :: nat where [simp]: "OP_C_LT_S = 112"
definition OP_C_NGE_S :: nat where [simp]: "OP_C_NGE_S = 113"
definition OP_C_LE_S :: nat where [simp]: "OP_C_LE_S = 114"
definition OP_C_NGT_S :: nat where [simp]: "OP_C_NGT_S = 115"
definition OP_C_F_D :: nat where [simp]: "OP_C_F_D = 116"
definition OP_C_UN_D :: nat where [simp]: "OP_C_UN_D = 117"
definition OP_C_EQ_D :: nat where [simp]: "OP_C_EQ_D = 118"
definition OP_C_UEQ_D :: nat where [simp]: "OP_C_UEQ_D = 119"
definition OP_C_OLT_D :: nat where [simp]: "OP_C_OLT_D = 120"
definition OP_C_ULT_D :: nat where [simp]: "OP_C_ULT_D = 121"
definition OP_C_OLE_D :: nat where [simp]: "OP_C_OLE_D = 122"
definition OP_C_ULE_D :: nat where [simp]: "OP_C_ULE_D = 123"
definition OP_C_SF_D :: nat where [simp]: "OP_C_SF_D = 124"
definition OP_C_NGLE_D :: nat where [simp]: "OP_C_NGLE_D = 125"
definition OP_C_SEQ_D :: nat where [simp]: "OP_C_SEQ_D = 126"
definition OP_C_NGL_D :: nat where [simp]: "OP_C_NGL_D = 127"
definition OP_C_LT_D :: nat where [simp]: "OP_C_LT_D = 128"
definition OP_C_NGE_D :: nat where [simp]: "OP_C_NGE_D = 129"
definition OP_C_LE_D :: nat where [simp]: "OP_C_LE_D = 130"
definition OP_C_NGT_D :: nat where [simp]: "OP_C_NGT_D = 131"
definition OP_MFC1 :: nat where [simp]: "OP_MFC1 = 132"
definition OP_CFC1 :: nat where [simp]: "OP_CFC1 = 133"
definition OP_MTC1 :: nat where [simp]: "OP_MTC1 = 134"
definition OP_CTC1 :: nat where [simp]: "OP_CTC1 = 135"
definition OP_UNIMP :: nat where [simp]: "OP_UNIMP = 136"
definition OP_RES :: nat where [simp]: "OP_RES = 137"
definition MaxOpcode :: nat where [simp]: "MaxOpcode = 137"
definition R31 :: nat where [simp]: "R31 = 31"
definition SPECIAL :: nat where [simp]: "SPECIAL = 140"
definition BCOND :: nat where [simp]: "BCOND = 141"
definition COP1 :: nat where [simp]: "COP1 = 142"
definition IFMT :: nat where [simp]: "IFMT = 1"
definition JFMT :: nat where [simp]: "JFMT = 2"
definition RFMT :: nat where [simp]: "RFMT = 3"

text \<open>Entries of type \<open>OpInfo\<close>: operation code and format.\<close>

definition opTable :: "(nat \<times> nat) list" where
  "opTable = [
     (SPECIAL, RFMT), (BCOND, IFMT), (OP_J, JFMT), (OP_JAL, JFMT),
     (OP_BEQ, IFMT), (OP_BNE, IFMT), (OP_BLEZ, IFMT), (OP_BGTZ, IFMT),
     (OP_ADDI, IFMT), (OP_ADDIU, IFMT), (OP_SLTI, IFMT), (OP_SLTIU, IFMT),
     (OP_ANDI, IFMT), (OP_ORI, IFMT), (OP_XORI, IFMT), (OP_LUI, IFMT),
     (OP_UNIMP, IFMT), (COP1, IFMT), (OP_UNIMP, IFMT), (OP_UNIMP, IFMT),
     (OP_RES, IFMT), (OP_RES, IFMT), (OP_RES, IFMT), (OP_RES, IFMT),
     (OP_RES, IFMT), (OP_RES, IFMT), (OP_RES, IFMT), (OP_RES, IFMT),
     (OP_RES, IFMT), (OP_RES, IFMT), (OP_RES, IFMT), (OP_RES, IFMT),
     (OP_LB, IFMT), (OP_LH, IFMT), (OP_LWL, IFMT), (OP_LW, IFMT),
     (OP_LBU, IFMT), (OP_LHU, IFMT), (OP_LWR, IFMT), (OP_RES, IFMT),
     (OP_SB, IFMT), (OP_SH, IFMT), (OP_SWL, IFMT), (OP_SW, IFMT),
     (OP_RES, IFMT), (OP_RES, IFMT), (OP_SWR, IFMT), (OP_RES, IFMT),
     (OP_UNIMP, IFMT), (OP_LWC1, IFMT), (OP_UNIMP, IFMT), (OP_UNIMP, IFMT),
     (OP_RES, IFMT), (OP_LDC1, IFMT), (OP_RES, IFMT), (OP_RES, IFMT),
     (OP_UNIMP, IFMT), (OP_SWC1, IFMT), (OP_UNIMP, IFMT), (OP_UNIMP, IFMT),
     (OP_RES, IFMT), (OP_SDC1, IFMT), (OP_RES, IFMT), (OP_RES, IFMT)]"

definition specialTable :: "nat list" where
  "specialTable = [
     OP_SLL, OP_RES, OP_SRL, OP_SRA, OP_SLLV,
     OP_RES, OP_SRLV, OP_SRAV, OP_JR, OP_JALR,
     OP_RES, OP_RES, OP_SYSCALL, OP_UNIMP, OP_RES,
     OP_RES, OP_MFHI, OP_MTHI, OP_MFLO, OP_MTLO,
     OP_RES, OP_RES, OP_RES, OP_RES, OP_MULT,
     OP_MULTU, OP_DIV, OP_DIVU, OP_RES, OP_RES,
     OP_RES, OP_RES, OP_ADD, OP_ADDU, OP_SUB,
     OP_SUBU, OP_AND, OP_OR, OP_XOR, OP_NOR,
     OP_RES, OP_RES, OP_SLT, OP_SLTU, OP_RES,
     OP_RES, OP_RES, OP_RES, OP_RES, OP_RES,
     OP_RES, OP_RES, OP_RES, OP_RES, OP_RES,
     OP_RES, OP_RES, OP_RES, OP_RES, OP_RES,
     OP_RES, OP_RES, OP_RES, OP_RES]"

definition cop1STable :: "nat list" where
  "cop1STable = [
     OP_ADD_S, OP_SUB_S, OP_MUL_S, OP_DIV_S, OP_SQRT_S,
     OP_ABS_S, OP_MOV_S, OP_NEG_S, OP_RES, OP_RES,
     OP_RES, OP_RES, OP_ROUND_W_S, OP_TRUNC_W_S, OP_CEIL_W_S,
     OP_FLOOR_W_S, OP_RES, OP_UNIMP, OP_UNIMP, OP_UNIMP,
     OP_RES, OP_RES, OP_RES, OP_RES, OP_RES,
     OP_RES, OP_RES, OP_RES, OP_RES, OP_RES,
     OP_RES, OP_RES, OP_RES, OP_CVT_D_S, OP_RES,
     OP_RES, OP_CVT_W_S, OP_RES, OP_RES, OP_RES,
     OP_RES, OP_RES, OP_RES, OP_RES, OP_RES,
     OP_RES, OP_RES, OP_RES, OP_C_F_S, OP_C_UN_S,
     OP_C_EQ_S, OP_C_UEQ_S, OP_C_OLT_S, OP_C_ULT_S, OP_C_OLE_S,
     OP_C_ULE_S, OP_C_SF_S, OP_C_NGLE_S, OP_C_SEQ_S, OP_C_NGL_S,
     OP_C_LT_S, OP_C_NGE_S, OP_C_LE_S, OP_C_NGT_S]"

definition cop1DTable :: "nat list" where
  "cop1DTable = [
     OP_ADD_D, OP_SUB_D, OP_MUL_D, OP_DIV_D, OP_SQRT_D,
     OP_ABS_D, OP_MOV_D, OP_NEG_D, OP_RES, OP_RES,
     OP_RES, OP_RES, OP_ROUND_W_D, OP_TRUNC_W_D, OP_CEIL_W_D,
     OP_FLOOR_W_D, OP_RES, OP_UNIMP, OP_UNIMP, OP_UNIMP,
     OP_RES, OP_RES, OP_RES, OP_RES, OP_RES,
     OP_RES, OP_RES, OP_RES, OP_RES, OP_RES,
     OP_RES, OP_RES, OP_CVT_S_D, OP_RES, OP_RES,
     OP_RES, OP_CVT_W_D, OP_RES, OP_RES, OP_RES,
     OP_RES, OP_RES, OP_RES, OP_RES, OP_RES,
     OP_RES, OP_RES, OP_RES, OP_C_F_D, OP_C_UN_D,
     OP_C_EQ_D, OP_C_UEQ_D, OP_C_OLT_D, OP_C_ULT_D, OP_C_OLE_D,
     OP_C_ULE_D, OP_C_SF_D, OP_C_NGLE_D, OP_C_SEQ_D, OP_C_NGL_D,
     OP_C_LT_D, OP_C_NGE_D, OP_C_LE_D, OP_C_NGT_D]"

record Instruction =
  bin_value :: u32
  opCode :: nat
  rs :: nat
  rt :: nat
  rd :: nat
  fs :: nat
  ft :: nat
  fd :: nat
  extra :: u32

definition SIGN_BIT :: u32 where "SIGN_BIT = 0x80000000"

definition IndexToAddr :: "u32 \<Rightarrow> u32" where
  "IndexToAddr x = push_bit 2 x"

definition field :: "u32 \<Rightarrow> nat \<Rightarrow> u32 \<Rightarrow> nat" where
  "field v n msk = unat (drop_bit n v AND msk)"

definition Decode_extra :: "nat \<Rightarrow> u32 \<Rightarrow> u32" where
  "Decode_extra format v =
     (if format = IFMT
      then (let e = v AND 0xffff in if e AND 0x8000 \<noteq> 0 then e OR 0xffff0000 else e)
      else if format = RFMT then drop_bit 6 v AND 0x1f
      else v AND 0x3ffffff)"

definition Decode_bcond :: "u32 \<Rightarrow> nat" where
  "Decode_bcond v =
     (let i = v AND 0x1f0000 in
      if i = 0 then OP_BLTZ
      else if i = 0x10000 then OP_BGEZ
      else if i = 0x100000 then OP_BLTZAL
      else if i = 0x110000 then OP_BGEZAL
      else OP_UNIMP)"

definition Decode_cop1 :: "u32 \<Rightarrow> nat \<Rightarrow> nat \<Rightarrow> nat" where
  "Decode_cop1 v s t =
     (if s = 0x10 then cop1STable ! field v 0 0x3f
      else if s = 0x11 then cop1DTable ! field v 0 0x3f
      else if s = 0x08 \<and> t = 0x00 then OP_BC1F
      else if s = 0x08 \<and> t = 0x01 then OP_BC1T
      else if s = 0x00 then OP_MFC1
      else if s = 0x02 then OP_CFC1
      else if s = 0x04 then OP_MTC1
      else if s = 0x06 then OP_CTC1
      else if s = 0x14
      then (let i = v AND 0x3f in
            if i = 0x20 then OP_CVT_S_W else if i = 0x21 then OP_CVT_D_W else OP_UNIMP)
      else OP_UNIMP)"

definition Decode :: "u32 \<Rightarrow> Instruction" where
  "Decode v =
     (let s = field v 21 0x1f; t = field v 16 0x1f;
          (op0, format) = opTable ! field v 26 0x3f;
          op = (if op0 = SPECIAL then specialTable ! field v 0 0x3f
                else if op0 = BCOND then Decode_bcond v
                else if op0 = COP1 then Decode_cop1 v s t
                else op0)
      in \<lparr>bin_value = v, opCode = op, rs = s, rt = t, rd = field v 11 0x1f,
          fs = field v 11 0x1f, ft = field v 16 0x1f, fd = field v 6 0x1f,
          extra = Decode_extra format v\<rparr>)"

text \<open>For the debug print of an instruction: the operand a type stands for.\<close>

datatype RegType = NONE | RS | RT | RD | FS | FT | FD | EXTRA

definition TypeToReg :: "RegType \<Rightarrow> Instruction \<Rightarrow> int" where
  "TypeToReg reg instr =
     (case reg of RS \<Rightarrow> int (rs instr) | RT \<Rightarrow> int (rt instr) | RD \<Rightarrow> int (rd instr)
      | FS \<Rightarrow> int (fs instr) | FT \<Rightarrow> int (ft instr) | FD \<Rightarrow> int (fd instr)
      | EXTRA \<Rightarrow> sint (extra instr) | NONE \<Rightarrow> - 1)"

subsection \<open>What decoding yields\<close>

lemma field_less: "field v n msk \<le> unat msk"
  by (simp add: field_def word_and_le1 flip: word_le_nat_alt)

lemma field_5 [simp]: "field v n 0x1f < 32"
  using field_less [of v n "0x1f"] by simp

lemma field_6 [simp]: "field v n 0x3f < 64"
  using field_less [of v n "0x3f"] by simp

lemma Decode_fields [simp]:
  "rs (Decode v) < 32" "rt (Decode v) < 32" "rd (Decode v) < 32"
  "fs (Decode v) < 32" "ft (Decode v) < 32" "fd (Decode v) < 32"
  by (simp_all add: Decode_def Let_def split_beta)

text \<open>The codes with a \<open>case\<close> in \<open>OneInstruction\<close>.\<close>

definition executable :: "nat \<Rightarrow> bool" where
  "executable op \<longleftrightarrow> 1 \<le> op \<and> op \<le> MaxOpcode \<and> op \<noteq> 15 \<and> op \<noteq> 30 \<and> op \<noteq> 33 \<and> op \<noteq> OP_RFE"

lemma list_all_nth: "list_all P xs \<Longrightarrow> n < length xs \<Longrightarrow> P (xs ! n)"
  by (simp add: list_all_length)

lemma tables_executable:
  "list_all executable specialTable" "list_all executable cop1STable"
  "list_all executable cop1DTable"
  "list_all (\<lambda>(op, f). executable op \<or> op \<in> {SPECIAL, BCOND, COP1}) opTable"
  by (simp_all add: executable_def specialTable_def cop1STable_def cop1DTable_def opTable_def)

lemma tables_length [simp]:
  "length specialTable = 64" "length cop1STable = 64" "length cop1DTable = 64"
  "length opTable = 64"
  by (simp_all add: specialTable_def cop1STable_def cop1DTable_def opTable_def)

text \<open>
  Every 32-bit word decodes to an operation code for which \<open>OneInstruction\<close> has a
  case: a user program, whatever its bytes, cannot reach the \<open>ASSERT(false)\<close> of the
  default branch of the interpreter.
\<close>
theorem decode_always_executable: "executable (opCode (Decode v))"
proof -
  have nth: "executable (specialTable ! field v 0 0x3f)" "executable (cop1STable ! field v 0 0x3f)"
    "executable (cop1DTable ! field v 0 0x3f)"
    by (simp_all add: list_all_nth [OF tables_executable(1)] list_all_nth [OF tables_executable(2)]
        list_all_nth [OF tables_executable(3)])
  have b: "executable (Decode_bcond v)"
    by (simp add: Decode_bcond_def executable_def Let_def)
  have c: "executable (Decode_cop1 v s t)" for s t
    using nth by (simp add: Decode_cop1_def Let_def) (simp add: executable_def)
  have "case opTable ! field v 26 0x3f of (op, f) \<Rightarrow> executable op \<or> op \<in> {SPECIAL, BCOND, COP1}"
    using tables_executable(4) by (rule list_all_nth) simp
  then show ?thesis
    using nth b c by (auto simp: Decode_def Let_def split: prod.splits)
qed

end
