(* ===== verification/Nachos_Stats.thy ===== *)
theory Nachos_Stats
  imports Nachos_Prelude
begin

text \<open>
  Simulated time and the per-process counters (\<open>utility/stats.h\<close>, \<open>utility/stats.cc\<close>).
  A counter update of a process that also advances the global clock acts on the pair
  of both records, as the methods of \<open>ProcessStat\<close> act on \<open>g_stats\<close>.
\<close>

record Statistics =
  totalTicks :: nat
  idleTicks :: nat

record ProcessStat =
  systemTicks :: nat
  userTicks :: nat
  numInstruction :: nat
  numDiskReads :: nat
  numDiskWrites :: nat
  numConsoleCharsRead :: nat
  numConsoleCharsWritten :: nat
  numMemoryAccess :: nat
  numPageFaults :: nat

definition USER_TICK :: nat where "USER_TICK = 1"
definition SYSTEM_TICK :: nat where "SYSTEM_TICK = 1"
definition MEMORY_TICKS :: nat where "MEMORY_TICKS = 10"
definition ROTATION_TIME :: int where "ROTATION_TIME = 1000"
definition SEEK_TIME :: int where "SEEK_TIME = 1000"
definition CONSOLE_TIME :: int where "CONSOLE_TIME = 1000"

text \<open>The macro \<open>nano_to_cycles\<close> of \<open>utility/utility.h\<close>.\<close>

definition nano_to_cycles :: "int \<Rightarrow> int \<Rightarrow> int" where
  "nano_to_cycles nano frequency = (nano * frequency) sdiv 1000"

definition cycle_to_sec :: "nat \<Rightarrow> nat \<Rightarrow> nat" where
  "cycle_to_sec cycle frequency = (cycle div frequency) div 1000000"

definition cycle_to_nano :: "nat \<Rightarrow> nat \<Rightarrow> nat" where
  "cycle_to_nano cycle frequency = (1000 * cycle div frequency) mod 1000000000"

definition Statistics_new :: Statistics where
  "Statistics_new = \<lparr>totalTicks = 0, idleTicks = 0\<rparr>"

definition ProcessStat_new :: ProcessStat where
  "ProcessStat_new = \<lparr>systemTicks = 0, userTicks = 0, numInstruction = 0, numDiskReads = 0,
     numDiskWrites = 0, numConsoleCharsRead = 0, numConsoleCharsWritten = 0,
     numMemoryAccess = 0, numPageFaults = 0\<rparr>"

definition incrTotalTicks :: "nat \<Rightarrow> Statistics \<Rightarrow> Statistics" where
  "incrTotalTicks val g = g\<lparr>totalTicks := totalTicks g + val\<rparr>"

definition setTotalTicks :: "nat \<Rightarrow> Statistics \<Rightarrow> Statistics" where
  "setTotalTicks val g = g\<lparr>totalTicks := val\<rparr>"

definition incrIdleTicks :: "nat \<Rightarrow> Statistics \<Rightarrow> Statistics" where
  "incrIdleTicks val g = g\<lparr>idleTicks := idleTicks g + val\<rparr>"

definition incrSystemTicks :: "nat \<Rightarrow> ProcessStat \<times> Statistics \<Rightarrow> ProcessStat \<times> Statistics" where
  "incrSystemTicks val = (\<lambda>(p, g). (p\<lparr>systemTicks := systemTicks p + val\<rparr>, incrTotalTicks val g))"

definition incrUserTicks :: "nat \<Rightarrow> ProcessStat \<times> Statistics \<Rightarrow> ProcessStat \<times> Statistics" where
  "incrUserTicks val = (\<lambda>(p, g). (p\<lparr>userTicks := userTicks p + val\<rparr>, incrTotalTicks val g))"

definition incrMemoryAccess :: "ProcessStat \<times> Statistics \<Rightarrow> ProcessStat \<times> Statistics" where
  "incrMemoryAccess = (\<lambda>(p, g).
     (p\<lparr>numMemoryAccess := numMemoryAccess p + 1, userTicks := userTicks p + MEMORY_TICKS\<rparr>,
      incrTotalTicks MEMORY_TICKS g))"

definition incrPageFault :: "ProcessStat \<Rightarrow> ProcessStat" where
  "incrPageFault p = p\<lparr>numPageFaults := numPageFaults p + 1\<rparr>"

definition incrNumInstruction :: "ProcessStat \<Rightarrow> ProcessStat" where
  "incrNumInstruction p = p\<lparr>numInstruction := numInstruction p + 1\<rparr>"

definition incrNumDiskReads :: "ProcessStat \<Rightarrow> ProcessStat" where
  "incrNumDiskReads p = p\<lparr>numDiskReads := numDiskReads p + 1\<rparr>"

definition incrNumDiskWrites :: "ProcessStat \<Rightarrow> ProcessStat" where
  "incrNumDiskWrites p = p\<lparr>numDiskWrites := numDiskWrites p + 1\<rparr>"

definition incrNumCharRead :: "ProcessStat \<Rightarrow> ProcessStat" where
  "incrNumCharRead p = p\<lparr>numConsoleCharsRead := numConsoleCharsRead p + 1\<rparr>"

definition incrNumCharWritten :: "ProcessStat \<Rightarrow> ProcessStat" where
  "incrNumCharWritten p = p\<lparr>numConsoleCharsWritten := numConsoleCharsWritten p + 1\<rparr>"

text \<open>
  The clock is the sum of what the processes and the idle loop account for: each
  operation adds the same amount to the process and to the clock.
\<close>

definition process_ticks :: "ProcessStat \<Rightarrow> nat" where
  "process_ticks p = systemTicks p + userTicks p"

lemma ticks_conserved:
  "op \<in> {incrSystemTicks v, incrUserTicks v, incrMemoryAccess} \<Longrightarrow> op (p, g) = (p', g') \<Longrightarrow>
   process_ticks p' - process_ticks p = totalTicks g' - totalTicks g
   \<and> process_ticks p \<le> process_ticks p' \<and> idleTicks g' = idleTicks g"
  by (auto simp: incrSystemTicks_def incrUserTicks_def incrMemoryAccess_def incrTotalTicks_def
      process_ticks_def)

end
