(* ===== verification/Nachos_TranslationTable.thy ===== *)
theory Nachos_TranslationTable
  imports Nachos_Prelude
begin

text \<open>
  The linear page table of an address space (\<open>machine/translationtable.cc\<close>). Every
  accessor asserts that the virtual page is in the table: outside it the result is
  \<open>None\<close>.
\<close>

record PageTableEntry =
  valid :: bool
  bitU :: bool
  bitM :: bool
  readAllowed :: bool
  writeAllowed :: bool
  physicalPage :: int
  swap :: bool
  addrDisk :: int
  io :: bool

record TranslationTable =
  maxNumPages :: int
  pageTable :: "PageTableEntry list"

text \<open>
  The constructor of an entry. It does not initialise \<open>physicalPage\<close> and \<open>io\<close>: both
  come from fresh memory.
\<close>

definition PageTableEntry_new :: "config \<Rightarrow> nat \<Rightarrow> PageTableEntry" where
  "PageTableEntry_new cfg i = \<lparr>valid = False, bitU = False, bitM = False, readAllowed = False,
     writeAllowed = False, physicalPage = fresh cfg i, swap = False, addrDisk = - 1,
     io = (fresh cfg i \<noteq> 0)\<rparr>"

definition TranslationTable_new :: "config \<Rightarrow> TranslationTable" where
  "TranslationTable_new cfg = \<lparr>maxNumPages = MaxVirtPages cfg,
     pageTable = map (PageTableEntry_new cfg) [0..<nat (MaxVirtPages cfg)]\<rparr>"

definition getMaxNumPages :: "TranslationTable \<Rightarrow> int" where
  "getMaxNumPages tt = maxNumPages tt"

text \<open>The common shape of the accessors: the bound check, then the entry.\<close>

definition pte_get :: "(PageTableEntry \<Rightarrow> 'a) \<Rightarrow> TranslationTable \<Rightarrow> int \<Rightarrow> 'a option" where
  "pte_get f tt vp =
     (if 0 \<le> vp \<and> vp < maxNumPages tt then map_option f (aget (pageTable tt) vp) else None)"

definition pte_set ::
  "(PageTableEntry \<Rightarrow> PageTableEntry) \<Rightarrow> TranslationTable \<Rightarrow> int \<Rightarrow> TranslationTable option" where
  "pte_set f tt vp =
     (if 0 \<le> vp \<and> vp < maxNumPages tt
      then do { e \<leftarrow> aget (pageTable tt) vp;
                t \<leftarrow> aset (pageTable tt) vp (f e);
                Some (tt\<lparr>pageTable := t\<rparr>) }
      else None)"

definition setPhysicalPage :: "TranslationTable \<Rightarrow> int \<Rightarrow> int \<Rightarrow> TranslationTable option" where
  "setPhysicalPage tt vp pp = pte_set (\<lambda>e. e\<lparr>physicalPage := pp\<rparr>) tt vp"

definition getPhysicalPage :: "TranslationTable \<Rightarrow> int \<Rightarrow> int option" where
  "getPhysicalPage tt vp = pte_get physicalPage tt vp"

definition setAddrDisk :: "TranslationTable \<Rightarrow> int \<Rightarrow> int \<Rightarrow> TranslationTable option" where
  "setAddrDisk tt vp ad = pte_set (\<lambda>e. e\<lparr>addrDisk := ad\<rparr>) tt vp"

definition getAddrDisk :: "TranslationTable \<Rightarrow> int \<Rightarrow> int option" where
  "getAddrDisk tt vp = pte_get addrDisk tt vp"

definition setBitIo :: "TranslationTable \<Rightarrow> int \<Rightarrow> TranslationTable option" where
  "setBitIo tt vp = pte_set (\<lambda>e. e\<lparr>io := True\<rparr>) tt vp"

definition clearBitIo :: "TranslationTable \<Rightarrow> int \<Rightarrow> TranslationTable option" where
  "clearBitIo tt vp = pte_set (\<lambda>e. e\<lparr>io := False\<rparr>) tt vp"

definition getBitIo :: "TranslationTable \<Rightarrow> int \<Rightarrow> bool option" where
  "getBitIo tt vp = pte_get io tt vp"

definition setBitSwap :: "TranslationTable \<Rightarrow> int \<Rightarrow> TranslationTable option" where
  "setBitSwap tt vp = pte_set (\<lambda>e. e\<lparr>swap := True\<rparr>) tt vp"

definition clearBitSwap :: "TranslationTable \<Rightarrow> int \<Rightarrow> TranslationTable option" where
  "clearBitSwap tt vp = pte_set (\<lambda>e. e\<lparr>swap := False\<rparr>) tt vp"

definition getBitSwap :: "TranslationTable \<Rightarrow> int \<Rightarrow> bool option" where
  "getBitSwap tt vp = pte_get swap tt vp"

definition setBitReadAllowed :: "TranslationTable \<Rightarrow> int \<Rightarrow> TranslationTable option" where
  "setBitReadAllowed tt vp = pte_set (\<lambda>e. e\<lparr>readAllowed := True\<rparr>) tt vp"

definition clearBitReadAllowed :: "TranslationTable \<Rightarrow> int \<Rightarrow> TranslationTable option" where
  "clearBitReadAllowed tt vp = pte_set (\<lambda>e. e\<lparr>readAllowed := False\<rparr>) tt vp"

definition getBitReadAllowed :: "TranslationTable \<Rightarrow> int \<Rightarrow> bool option" where
  "getBitReadAllowed tt vp = pte_get readAllowed tt vp"

definition setBitWriteAllowed :: "TranslationTable \<Rightarrow> int \<Rightarrow> TranslationTable option" where
  "setBitWriteAllowed tt vp = pte_set (\<lambda>e. e\<lparr>writeAllowed := True\<rparr>) tt vp"

definition clearBitWriteAllowed :: "TranslationTable \<Rightarrow> int \<Rightarrow> TranslationTable option" where
  "clearBitWriteAllowed tt vp = pte_set (\<lambda>e. e\<lparr>writeAllowed := False\<rparr>) tt vp"

definition getBitWriteAllowed :: "TranslationTable \<Rightarrow> int \<Rightarrow> bool option" where
  "getBitWriteAllowed tt vp = pte_get writeAllowed tt vp"

definition setBitU :: "TranslationTable \<Rightarrow> int \<Rightarrow> TranslationTable option" where
  "setBitU tt vp = pte_set (\<lambda>e. e\<lparr>bitU := True\<rparr>) tt vp"

definition clearBitU :: "TranslationTable \<Rightarrow> int \<Rightarrow> TranslationTable option" where
  "clearBitU tt vp = pte_set (\<lambda>e. e\<lparr>bitU := False\<rparr>) tt vp"

definition getBitU :: "TranslationTable \<Rightarrow> int \<Rightarrow> bool option" where
  "getBitU tt vp = pte_get bitU tt vp"

definition setBitM :: "TranslationTable \<Rightarrow> int \<Rightarrow> TranslationTable option" where
  "setBitM tt vp = pte_set (\<lambda>e. e\<lparr>bitM := True\<rparr>) tt vp"

definition clearBitM :: "TranslationTable \<Rightarrow> int \<Rightarrow> TranslationTable option" where
  "clearBitM tt vp = pte_set (\<lambda>e. e\<lparr>bitM := False\<rparr>) tt vp"

definition getBitM :: "TranslationTable \<Rightarrow> int \<Rightarrow> bool option" where
  "getBitM tt vp = pte_get bitM tt vp"

definition setBitValid :: "TranslationTable \<Rightarrow> int \<Rightarrow> TranslationTable option" where
  "setBitValid tt vp = pte_set (\<lambda>e. e\<lparr>valid := True\<rparr>) tt vp"

definition clearBitValid :: "TranslationTable \<Rightarrow> int \<Rightarrow> TranslationTable option" where
  "clearBitValid tt vp = pte_set (\<lambda>e. e\<lparr>valid := False\<rparr>) tt vp"

definition getBitValid :: "TranslationTable \<Rightarrow> int \<Rightarrow> bool option" where
  "getBitValid tt vp = pte_get valid tt vp"

lemmas tt_setters = setPhysicalPage_def setAddrDisk_def setBitIo_def clearBitIo_def
  setBitSwap_def clearBitSwap_def setBitReadAllowed_def clearBitReadAllowed_def
  setBitWriteAllowed_def clearBitWriteAllowed_def setBitU_def clearBitU_def
  setBitM_def clearBitM_def setBitValid_def clearBitValid_def

lemmas tt_getters = getPhysicalPage_def getAddrDisk_def getBitIo_def getBitSwap_def
  getBitReadAllowed_def getBitWriteAllowed_def getBitU_def getBitM_def
  getBitValid_def

subsection \<open>Well-formed tables\<close>

definition wf_table :: "TranslationTable \<Rightarrow> bool" where
  "wf_table tt \<longleftrightarrow> maxNumPages tt = int (length (pageTable tt))"

definition entry :: "TranslationTable \<Rightarrow> int \<Rightarrow> PageTableEntry" where
  "entry tt vp = pageTable tt ! nat vp"

definition in_table :: "TranslationTable \<Rightarrow> int \<Rightarrow> bool" where
  "in_table tt vp \<longleftrightarrow> 0 \<le> vp \<and> vp < maxNumPages tt"

definition upd_entry ::
  "(PageTableEntry \<Rightarrow> PageTableEntry) \<Rightarrow> TranslationTable \<Rightarrow> int \<Rightarrow> TranslationTable" where
  "upd_entry f tt vp = tt\<lparr>pageTable := (pageTable tt)[nat vp := f (entry tt vp)]\<rparr>"

lemma wf_table_new [simp]: "0 \<le> MaxVirtPages cfg \<Longrightarrow> wf_table (TranslationTable_new cfg)"
  by (simp add: wf_table_def TranslationTable_new_def)

lemma pte_get_in: "wf_table tt \<Longrightarrow> in_table tt vp \<Longrightarrow> pte_get f tt vp = Some (f (entry tt vp))"
  by (simp add: pte_get_def wf_table_def in_table_def aget_def entry_def)

lemma pte_set_in: "wf_table tt \<Longrightarrow> in_table tt vp \<Longrightarrow> pte_set f tt vp = Some (upd_entry f tt vp)"
  by (simp add: pte_set_def wf_table_def in_table_def aget_def aset_def entry_def upd_entry_def)

lemma pte_out: "\<not> in_table tt vp \<Longrightarrow> pte_get f tt vp = None \<and> pte_set g tt vp = None"
  by (auto simp: pte_get_def pte_set_def in_table_def)

lemma upd_entry_frame [simp]:
  "maxNumPages (upd_entry f tt vp) = maxNumPages tt"
  "wf_table (upd_entry f tt vp) = wf_table tt"
  "in_table (upd_entry f tt vp) = in_table tt"
  by (auto simp: upd_entry_def wf_table_def in_table_def fun_eq_iff)

lemma entry_upd_same [simp]:
  "wf_table tt \<Longrightarrow> in_table tt vp \<Longrightarrow> entry (upd_entry f tt vp) vp = f (entry tt vp)"
  by (simp add: upd_entry_def entry_def wf_table_def in_table_def nat_less_iff)

lemma entry_upd_other [simp]:
  "in_table tt vp \<Longrightarrow> in_table tt vq \<Longrightarrow> vp \<noteq> vq \<Longrightarrow> entry (upd_entry f tt vp) vq = entry tt vq"
  by (simp add: upd_entry_def entry_def in_table_def eq_nat_nat_iff)

lemma upd_entry_upd [simp]:
  "wf_table tt \<Longrightarrow> in_table tt vp \<Longrightarrow>
   upd_entry g (upd_entry f tt vp) vp = upd_entry (\<lambda>e. g (f e)) tt vp"
  by (simp add: upd_entry_def entry_def wf_table_def in_table_def nat_less_iff)

lemma pte_set_Some:
  "wf_table tt \<Longrightarrow> pte_set f tt vp = Some tt' \<longleftrightarrow> in_table tt vp \<and> tt' = upd_entry f tt vp"
  using pte_set_in [of tt vp f] pte_out [of tt vp physicalPage f] by (cases "in_table tt vp") auto

end
