(* ===== verification/Nachos_Machine.thy ===== *)
theory Nachos_Machine
  imports Nachos_Stats Nachos_TranslationTable
begin

text \<open>
  The simulated processor and its memory: class \<open>Machine\<close> of \<open>machine/machine.cc\<close>.

  The record holds the fields of the class that user code can observe, the two
  endianess globals of \<open>kernel/system.cc\<close>, and what the processor reads of its
  surroundings: the page tables (objects of the heap, named by a number, because the
  kernel changes a table while the MMU points to it), the table the MMU points to, the
  counters of the processes, and the process of the current thread. It is extensible:
  the kernel adds its own state, and \<open>ExceptionHandler\<close>, which \<open>RaiseException\<close>
  calls, is a function argument \<open>hnd\<close> here. Registers are 32-bit words; signed
  overflow wraps around as on the hosts the simulator runs on.
\<close>

datatype ExceptionType = NO_EXCEPTION | SYSCALL_EXCEPTION | PAGEFAULT_EXCEPTION
  | READONLY_EXCEPTION | BUSERROR_EXCEPTION | ADDRESSERROR_EXCEPTION | OVERFLOW_EXCEPTION
  | ILLEGALINSTR_EXCEPTION | NUM_EXCEPTION_TYPES

datatype MachineStatus = IDLE_MODE | SYSTEM_MODE | USER_MODE

datatype Endianess = IS_BIG_ENDIAN | IS_LITTLE_ENDIAN

definition STACK_REG :: nat where [simp]: "STACK_REG = 29"
definition RETADDR_REG :: nat where [simp]: "RETADDR_REG = 31"
definition NUM_GP_REGS :: nat where [simp]: "NUM_GP_REGS = 32"
definition HI_REG :: nat where [simp]: "HI_REG = 32"
definition LO_REG :: nat where [simp]: "LO_REG = 33"
definition PC_REG :: nat where [simp]: "PC_REG = 34"
definition NEXTPC_REG :: nat where [simp]: "NEXTPC_REG = 35"
definition PREVPC_REG :: nat where [simp]: "PREVPC_REG = 36"
definition LOAD_REG :: nat where [simp]: "LOAD_REG = 37"
definition LOADVALUE_REG :: nat where [simp]: "LOADVALUE_REG = 38"
definition BADVADDR_REG :: nat where [simp]: "BADVADDR_REG = 39"
definition NUM_INT_REGS :: nat where [simp]: "NUM_INT_REGS = 40"
definition NUM_FP_REGS :: nat where [simp]: "NUM_FP_REGS = 32"

record machine =
  int_registers :: "u32 list"
  float_registers :: "u32 list"
  cc :: byte
  mainMemory :: "byte list"
  status :: MachineStatus
  host_endianess :: Endianess
  mips_endianess :: Endianess
  tables :: "nat \<Rightarrow> TranslationTable option"
  mmu_table :: "nat option"
  process_stat :: "nat \<Rightarrow> ProcessStat"
  current_process :: nat
  g_stats :: Statistics

type_synonym 'a handler = "ExceptionType \<Rightarrow> u32 \<Rightarrow> 'a machine_scheme \<Rightarrow> 'a machine_scheme option"

subsection \<open>Byte order\<close>

text \<open>
  \<open>CheckEndian\<close> stores the bytes 1, 2, 3, 4 and reads them back as a word of the host.
\<close>

definition CheckEndian :: "(byte \<Rightarrow> byte \<Rightarrow> byte \<Rightarrow> byte \<Rightarrow> u32) \<Rightarrow> Endianess \<Rightarrow> Endianess" where
  "CheckEndian host_word old =
     (let intword = host_word 1 2 3 4 in
      if intword = 0x01020304 then IS_BIG_ENDIAN
      else if intword = 0x04030201 then IS_LITTLE_ENDIAN else old)"

definition WordToHost :: "'a machine_scheme \<Rightarrow> u32 \<Rightarrow> u32" where
  "WordToHost m word =
     (if host_endianess m = mips_endianess m then word
      else (drop_bit 24 word AND 0x000000ff) OR (drop_bit 8 word AND 0x0000ff00)
        OR (push_bit 8 word AND 0x00ff0000) OR (push_bit 24 word AND 0xff000000))"

definition ShortToHost :: "'a machine_scheme \<Rightarrow> 16 word \<Rightarrow> 16 word" where
  "ShortToHost m shortword =
     (if host_endianess m = mips_endianess m then shortword
      else (push_bit 8 shortword AND 0xff00) OR (drop_bit 8 shortword AND 0x00ff))"

definition WordToMachine :: "'a machine_scheme \<Rightarrow> u32 \<Rightarrow> u32" where
  "WordToMachine m word = WordToHost m word"

definition ShortToMachine :: "'a machine_scheme \<Rightarrow> 16 word \<Rightarrow> 16 word" where
  "ShortToMachine m shortword = ShortToHost m shortword"

subsection \<open>Construction\<close>

text \<open>
  The processor part of the constructor. The condition code is not initialised. The
  devices it creates are modelled with their own files.
\<close>

definition Machine_new :: "config \<Rightarrow> machine" where
  "Machine_new cfg =
     \<lparr>int_registers = replicate NUM_INT_REGS 0,
      float_registers = replicate NUM_FP_REGS 0,
      cc = word_of_int (fresh cfg 0),
      mainMemory = replicate (nat (NumPhysPages cfg * PageSize cfg)) 0,
      status = SYSTEM_MODE,
      host_endianess = CheckEndian le_word IS_BIG_ENDIAN,
      mips_endianess = IS_BIG_ENDIAN,
      tables = (\<lambda>_. None), mmu_table = None,
      process_stat = (\<lambda>_. ProcessStat_new), current_process = 0, g_stats = Statistics_new\<rparr>"

subsection \<open>Registers\<close>

definition ReadIntRegister :: "int \<Rightarrow> 'a machine_scheme \<Rightarrow> u32 option" where
  "ReadIntRegister num m =
     (if 0 \<le> num \<and> num < int NUM_INT_REGS then aget (int_registers m) num else None)"

definition WriteIntRegister :: "int \<Rightarrow> u32 \<Rightarrow> 'a machine_scheme \<Rightarrow> 'a machine_scheme option" where
  "WriteIntRegister num value m =
     (if 0 \<le> num \<and> num < int NUM_INT_REGS
      then do { r \<leftarrow> aset (int_registers m) num value; Some (m\<lparr>int_registers := r\<rparr>) } else None)"

definition ReadFPRegister :: "int \<Rightarrow> 'a machine_scheme \<Rightarrow> u32 option" where
  "ReadFPRegister num m =
     (if 0 \<le> num \<and> num < int NUM_FP_REGS then aget (float_registers m) num else None)"

definition WriteFPRegister :: "int \<Rightarrow> u32 \<Rightarrow> 'a machine_scheme \<Rightarrow> 'a machine_scheme option" where
  "WriteFPRegister num value m =
     (if 0 \<le> num \<and> num < int NUM_FP_REGS
      then do { r \<leftarrow> aset (float_registers m) num value; Some (m\<lparr>float_registers := r\<rparr>) } else None)"

definition ReadCC :: "'a machine_scheme \<Rightarrow> byte" where
  "ReadCC m = cc m"

definition WriteCC :: "byte \<Rightarrow> 'a machine_scheme \<Rightarrow> 'a machine_scheme" where
  "WriteCC val m = m\<lparr>cc := val\<rparr>"

text \<open>
  Direct accesses of the simulator, whose index is a field of a decoded instruction
  (below 32) or one of the constants above: always inside the array.
\<close>

definition R :: "'a machine_scheme \<Rightarrow> nat \<Rightarrow> u32" where
  "R m i = int_registers m ! i"

definition setR :: "nat \<Rightarrow> u32 \<Rightarrow> 'a machine_scheme \<Rightarrow> 'a machine_scheme" where
  "setR i v m = m\<lparr>int_registers := (int_registers m)[i := v]\<rparr>"

definition DelayedLoad :: "nat \<Rightarrow> u32 \<Rightarrow> 'a machine_scheme \<Rightarrow> 'a machine_scheme option" where
  "DelayedLoad nextReg nextValue m = do {
     r \<leftarrow> aset (int_registers m) (sint (R m LOAD_REG)) (R m LOADVALUE_REG);
     Some (setR 0 0 (setR LOADVALUE_REG nextValue (setR LOAD_REG (of_nat nextReg)
       (m\<lparr>int_registers := r\<rparr>)))) }"

text \<open>Every value of the enumeration is at most \<open>EXCEPTION_NUMBER\<close> but the last.\<close>

definition RaiseException ::
  "'a handler \<Rightarrow> ExceptionType \<Rightarrow> u32 \<Rightarrow> 'a machine_scheme \<Rightarrow> 'a machine_scheme option" where
  "RaiseException hnd which badVAddr m =
     (if which \<noteq> NUM_EXCEPTION_TYPES
      then do {
        m1 \<leftarrow> DelayedLoad 0 0 (setR BADVADDR_REG badVAddr m);
        m2 \<leftarrow> hnd which badVAddr (m1\<lparr>status := SYSTEM_MODE\<rparr>);
        Some (m2\<lparr>status := USER_MODE\<rparr>) }
      else None)"

subsection \<open>The well-formed processor\<close>

definition wf_cpu :: "'a machine_scheme \<Rightarrow> bool" where
  "wf_cpu m \<longleftrightarrow> length (int_registers m) = 40 \<and> length (float_registers m) = 32
     \<and> unat (R m LOAD_REG) < 32"

lemma R_setR [simp]:
  "i < length (int_registers m) \<Longrightarrow> R (setR i v m) i = v"
  "i \<noteq> j \<Longrightarrow> R (setR i v m) j = R m j"
  by (simp_all add: R_def setR_def)

lemma setR_frame [simp]:
  "length (int_registers (setR i v m)) = length (int_registers m)"
  "float_registers (setR i v m) = float_registers m"
  "mainMemory (setR i v m) = mainMemory m"
  "tables (setR i v m) = tables m"
  "mmu_table (setR i v m) = mmu_table m"
  "cc (setR i v m) = cc m"
  "status (setR i v m) = status m"
  "machine.more (setR i v m) = machine.more m"
  by (simp_all add: setR_def)

lemma R_upd [simp]:
  "R (m\<lparr>int_registers := r\<rparr>) i = r ! i"
  "R (m\<lparr>float_registers := fr\<rparr>) i = R m i"
  "R (m\<lparr>cc := c\<rparr>) i = R m i"
  "R (m\<lparr>mainMemory := mem\<rparr>) i = R m i"
  "R (m\<lparr>status := st\<rparr>) i = R m i"
  "R (m\<lparr>tables := tb\<rparr>) i = R m i"
  "R (m\<lparr>mmu_table := mt\<rparr>) i = R m i"
  "R (m\<lparr>process_stat := ps\<rparr>) i = R m i"
  "R (m\<lparr>g_stats := gs\<rparr>) i = R m i"
  by (simp_all add: R_def)

lemma wf_cpu_upd [simp]:
  "wf_cpu (m\<lparr>cc := c\<rparr>) = wf_cpu m"
  "wf_cpu (m\<lparr>mainMemory := mem\<rparr>) = wf_cpu m"
  "wf_cpu (m\<lparr>status := st\<rparr>) = wf_cpu m"
  "wf_cpu (m\<lparr>tables := tb\<rparr>) = wf_cpu m"
  "wf_cpu (m\<lparr>mmu_table := mt\<rparr>) = wf_cpu m"
  "wf_cpu (m\<lparr>process_stat := ps\<rparr>) = wf_cpu m"
  "wf_cpu (m\<lparr>g_stats := gs\<rparr>) = wf_cpu m"
  by (simp_all add: wf_cpu_def)

lemma wf_cpu_setR [simp]: "i \<noteq> LOAD_REG \<Longrightarrow> wf_cpu (setR i v m) = wf_cpu m"
  by (simp add: wf_cpu_def)

lemma wf_cpu_setF [simp]:
  "length fr = length (float_registers m) \<Longrightarrow> wf_cpu (m\<lparr>float_registers := fr\<rparr>) = wf_cpu m"
  by (simp add: wf_cpu_def)

lemma wf_cpu_new [simp]: "wf_cpu (Machine_new cfg)"
  by (simp add: wf_cpu_def Machine_new_def R_def)

lemma uint_less_of_unat: "unat (w :: u32) < numeral n \<Longrightarrow> uint w < numeral n"
  unfolding uint_nat by (simp only: of_nat_less_numeral_iff)

lemma sint_small: "unat (w :: u32) < 2 ^ 31 \<Longrightarrow> sint w = int (unat w)"
proof -
  assume "unat w < 2 ^ 31"
  then have "signed_take_bit 31 (int (unat w)) = int (unat w)"
    by (intro signed_take_bit_int_eq_self) (simp_all add: uint_less_of_unat order.trans [OF _ uint_ge_0])
  then show ?thesis by (simp add: sint_uint)
qed

lemma sint_nonneg_uint: "0 \<le> sint (w :: u32) \<Longrightarrow> sint w = uint w"
proof -
  assume "0 \<le> sint w"
  moreover have "sint w < 2 ^ 31" using sint_lt [of w] by simp
  ultimately have "take_bit 32 (sint w) = sint w" by (simp add: take_bit_int_eq_self)
  moreover have "uint w = take_bit 32 (sint w)" using uint_sint [of w] by simp
  ultimately show ?thesis by simp
qed

text \<open>
  A delayed load always succeeds on a well-formed processor, lands in the register the
  previous load named, and leaves register 0 null.
\<close>

lemma DelayedLoad_correct:
  assumes "wf_cpu m" "n < 32"
  shows "\<exists>m'. DelayedLoad n v m = Some m' \<and> wf_cpu m' \<and> R m' 0 = 0
    \<and> R m' LOAD_REG = of_nat n \<and> R m' LOADVALUE_REG = v
    \<and> (\<forall>i. i \<noteq> 0 \<and> i \<noteq> LOAD_REG \<and> i \<noteq> LOADVALUE_REG \<longrightarrow>
         R m' i = (if i = unat (R m LOAD_REG) then R m LOADVALUE_REG else R m i))
    \<and> float_registers m' = float_registers m \<and> mainMemory m' = mainMemory m
    \<and> tables m' = tables m \<and> mmu_table m' = mmu_table m"
proof -
  from assms have s: "sint (R m LOAD_REG) = int (unat (R m LOAD_REG))"
    by (simp add: wf_cpu_def sint_small)
  from assms have l: "unat (R m LOAD_REG) < 32" "length (int_registers m) = 40"
    by (simp_all add: wf_cpu_def)
  then have u: "uint (R m 37) < 40" by (intro uint_less_of_unat) simp
  let ?r = "(int_registers m)[unat (R m LOAD_REG) := R m LOADVALUE_REG]"
  have d: "DelayedLoad n v m = Some (setR 0 0 (setR LOADVALUE_REG v (setR LOAD_REG (of_nat n)
     (m\<lparr>int_registers := ?r\<rparr>))))"
    using l u s [simplified] by (simp add: DelayedLoad_def aset_def)
  show ?thesis
    unfolding d using assms l
    by (simp add: wf_cpu_def R_def setR_def unat_of_nat nth_list_update)
qed

end
