(* ===== verification/Nachos_MMU.thy ===== *)
theory Nachos_MMU
  imports Nachos_Machine
begin

text \<open>
  The memory management unit (\<open>machine/mmu.cc\<close>): translation of a virtual address through
  the linear page table, and the two memory accesses. An out-parameter of the code is a
  component of the result: \<open>Translate\<close> gives the exception and, when it has written
  it, the physical address; \<open>ReadMem\<close> gives \<open>Some\<close> of the value where the code
  returns \<open>true\<close> and \<open>None\<close> inside the result where it returns \<open>false\<close>.
\<close>

definition mmu_get ::
  "(TranslationTable \<Rightarrow> int \<Rightarrow> 'b option) \<Rightarrow> int \<Rightarrow> 'a machine_scheme \<Rightarrow> 'b option" where
  "mmu_get f vpn m = do { a \<leftarrow> mmu_table m; t \<leftarrow> tables m a; f t vpn }"

definition mmu_set ::
  "(TranslationTable \<Rightarrow> int \<Rightarrow> TranslationTable option) \<Rightarrow> int \<Rightarrow> 'a machine_scheme
   \<Rightarrow> 'a machine_scheme option" where
  "mmu_set f vpn m = do {
     a \<leftarrow> mmu_table m; t \<leftarrow> tables m a; t' \<leftarrow> f t vpn;
     Some (m\<lparr>tables := (tables m)(a \<mapsto> t')\<rparr>) }"

text \<open>The counters of the process of the current thread.\<close>

definition stat_MemoryAccess :: "'a machine_scheme \<Rightarrow> 'a machine_scheme" where
  "stat_MemoryAccess m =
     (let (p, g) = incrMemoryAccess (process_stat m (current_process m), g_stats m)
      in m\<lparr>process_stat := (process_stat m)(current_process m := p), g_stats := g\<rparr>)"

definition stat_PageFault :: "'a machine_scheme \<Rightarrow> 'a machine_scheme" where
  "stat_PageFault m = m\<lparr>process_stat := (process_stat m)
     (current_process m := incrPageFault (process_stat m (current_process m)))\<rparr>"

definition stat_NumInstruction :: "'a machine_scheme \<Rightarrow> 'a machine_scheme" where
  "stat_NumInstruction m = m\<lparr>process_stat := (process_stat m)
     (current_process m := incrNumInstruction (process_stat m (current_process m)))\<rparr>"

text \<open>The page fault part: nothing when the page is in memory, otherwise the handler.\<close>

definition Translate_fault ::
  "'a handler \<Rightarrow> u32 \<Rightarrow> int \<Rightarrow> 'a machine_scheme \<Rightarrow> 'a machine_scheme option" where
  "Translate_fault hnd virtAddr vpn m = do {
     present \<leftarrow> mmu_get getBitValid vpn m;
     if present then Some m
     else do {
       m1 \<leftarrow> RaiseException hnd PAGEFAULT_EXCEPTION virtAddr (stat_PageFault m);
       now \<leftarrow> mmu_get getBitValid vpn m1;
       if now then Some m1 else None } }"

definition Translate ::
  "config \<Rightarrow> 'a handler \<Rightarrow> u32 \<Rightarrow> nat \<Rightarrow> bool \<Rightarrow> 'a machine_scheme
   \<Rightarrow> (ExceptionType \<times> int option \<times> 'a machine_scheme) option" where
  "Translate cfg hnd virtAddr sz writing m =
     (if (sz = 4 \<and> virtAddr AND 0x3 \<noteq> 0) \<or> (sz = 2 \<and> virtAddr AND 0x1 \<noteq> 0) then None
      else do {
        let vpn = sint virtAddr sdiv PageSize cfg;
        let offset = sint virtAddr smod PageSize cfg;
        a \<leftarrow> mmu_table m;
        t \<leftarrow> tables m a;
        if getMaxNumPages t \<le> vpn then Some (ADDRESSERROR_EXCEPTION, None, m)
        else do {
          r \<leftarrow> mmu_get getBitReadAllowed vpn m;
          w \<leftarrow> mmu_get getBitWriteAllowed vpn m;
          if \<not> r \<and> \<not> w then Some (ADDRESSERROR_EXCEPTION, None, m)
          else if writing \<and> \<not> w then Some (READONLY_EXCEPTION, None, m)
          else do {
            m1 \<leftarrow> Translate_fault hnd virtAddr vpn m;
            pp \<leftarrow> mmu_get getPhysicalPage vpn m1;
            if pp < 0 \<or> NumPhysPages cfg \<le> pp then Some (BUSERROR_EXCEPTION, None, m1)
            else do {
              m2 \<leftarrow> (if writing then mmu_set setBitM vpn m1 else Some m1);
              m3 \<leftarrow> mmu_set setBitU vpn m2;
              let m4 = stat_MemoryAccess m3;
              pp' \<leftarrow> mmu_get getPhysicalPage vpn m4;
              Some (NO_EXCEPTION, Some (pp' * PageSize cfg + offset), m4) } } } })"

text \<open>Accesses to the bytes of the main memory, in the order of the host.\<close>

definition load_half :: "byte list \<Rightarrow> int \<Rightarrow> 16 word option" where
  "load_half mem a = do {
     b0 \<leftarrow> aget mem a; b1 \<leftarrow> aget mem (a + 1); Some (ucast b0 OR push_bit 8 (ucast b1)) }"

definition load_word :: "byte list \<Rightarrow> int \<Rightarrow> u32 option" where
  "load_word mem a = do {
     b0 \<leftarrow> aget mem a; b1 \<leftarrow> aget mem (a + 1); b2 \<leftarrow> aget mem (a + 2); b3 \<leftarrow> aget mem (a + 3);
     Some (le_word b0 b1 b2 b3) }"

definition store_half :: "byte list \<Rightarrow> int \<Rightarrow> 16 word \<Rightarrow> byte list option" where
  "store_half mem a v = do {
     m1 \<leftarrow> aset mem a (ucast v); aset m1 (a + 1) (ucast (drop_bit 8 v)) }"

definition store_word :: "byte list \<Rightarrow> int \<Rightarrow> u32 \<Rightarrow> byte list option" where
  "store_word mem a v = do {
     m1 \<leftarrow> aset mem a (ucast v); m2 \<leftarrow> aset m1 (a + 1) (ucast (drop_bit 8 v));
     m3 \<leftarrow> aset m2 (a + 2) (ucast (drop_bit 16 v)); aset m3 (a + 3) (ucast (drop_bit 24 v)) }"

text \<open>
  The two translations of an access and the assertion that compares them. The second one
  may raise exceptions of its own; when it leaves \<open>physAddrEnd\<close> unwritten the code
  compares an uninitialised variable.
\<close>

definition Translate_twice ::
  "config \<Rightarrow> 'a handler \<Rightarrow> u32 \<Rightarrow> nat \<Rightarrow> bool \<Rightarrow> 'a machine_scheme
   \<Rightarrow> (ExceptionType \<times> int option \<times> 'a machine_scheme) option" where
  "Translate_twice cfg hnd va sz writing m = do {
     (exc, physAddr, m1) \<leftarrow> Translate cfg hnd va sz writing (stat_MemoryAccess m);
     (_, physAddrEnd, m2) \<leftarrow> Translate cfg hnd va sz writing m1;
     if exc = NO_EXCEPTION \<and> physAddr \<noteq> physAddrEnd then None else Some (exc, physAddr, m2) }"

text \<open>
  The two \<open>switch\<close> statements on the size. A byte is sign extended by its assignment
  to an \<open>int\<close>, a half word is not.
\<close>

definition load_value :: "'a machine_scheme \<Rightarrow> nat \<Rightarrow> int \<Rightarrow> u32 option" where
  "load_value m sz a =
     (if sz = 1 then do { b \<leftarrow> aget (mainMemory m) a; Some (scast b) }
      else if sz = 2 then do { h \<leftarrow> load_half (mainMemory m) a; Some (ucast (ShortToHost m h)) }
      else if sz = 4 then do { w \<leftarrow> load_word (mainMemory m) a; Some (WordToHost m w) }
      else None)"

definition store_value :: "'a machine_scheme \<Rightarrow> nat \<Rightarrow> int \<Rightarrow> u32 \<Rightarrow> byte list option" where
  "store_value m sz a value =
     (if sz = 1 then aset (mainMemory m) a (ucast (value AND 0xff))
      else if sz = 2 then store_half (mainMemory m) a (ShortToMachine m (ucast (value AND 0xffff)))
      else if sz = 4 then store_word (mainMemory m) a (WordToMachine m value)
      else None)"

definition ReadMem ::
  "config \<Rightarrow> 'a handler \<Rightarrow> u32 \<Rightarrow> nat \<Rightarrow> 'a machine_scheme
   \<Rightarrow> (u32 option \<times> 'a machine_scheme) option" where
  "ReadMem cfg hnd virtAddr sz m = do {
     (exc, pa, m1) \<leftarrow> Translate_twice cfg hnd virtAddr sz False m;
     if exc \<noteq> NO_EXCEPTION
     then do { m2 \<leftarrow> RaiseException hnd exc virtAddr m1; Some (None, m2) }
     else do { a \<leftarrow> pa; v \<leftarrow> load_value m1 sz a; Some (Some v, m1) } }"

definition WriteMem ::
  "config \<Rightarrow> 'a handler \<Rightarrow> u32 \<Rightarrow> nat \<Rightarrow> u32 \<Rightarrow> 'a machine_scheme
   \<Rightarrow> (bool \<times> 'a machine_scheme) option" where
  "WriteMem cfg hnd addr sz value m = do {
     (exc, pa, m1) \<leftarrow> Translate_twice cfg hnd addr sz True m;
     if exc \<noteq> NO_EXCEPTION
     then do { m2 \<leftarrow> RaiseException hnd exc addr m1; Some (False, m2) }
     else do { a \<leftarrow> pa; mem \<leftarrow> store_value m1 sz a value; Some (True, m1\<lparr>mainMemory := mem\<rparr>) } }"

subsection \<open>What a permitted access does\<close>

text \<open>
  \<open>page_of\<close> and \<open>mapped cfg m va t pp\<close>: the page of the address is in the table
  \<open>t\<close> that the MMU points to, present in the frame \<open>pp\<close> of the memory.
\<close>

definition page_of :: "config \<Rightarrow> u32 \<Rightarrow> int" where
  "page_of cfg va = sint va sdiv PageSize cfg"

definition offset_of :: "config \<Rightarrow> u32 \<Rightarrow> int" where
  "offset_of cfg va = sint va smod PageSize cfg"

definition aligned :: "nat \<Rightarrow> u32 \<Rightarrow> bool" where
  "aligned sz va \<longleftrightarrow> (sz = 1 \<or> sz = 2 \<and> va AND 1 = 0 \<or> sz = 4 \<and> va AND 3 = 0)"

definition mapped :: "config \<Rightarrow> 'a machine_scheme \<Rightarrow> u32 \<Rightarrow> nat \<Rightarrow> TranslationTable \<Rightarrow> bool" where
  "mapped cfg m va a t \<longleftrightarrow> mmu_table m = Some a \<and> tables m a = Some t \<and> wf_table t
     \<and> in_table t (page_of cfg va)
     \<and> (readAllowed (entry t (page_of cfg va)) \<or> writeAllowed (entry t (page_of cfg va)))
     \<and> valid (entry t (page_of cfg va))
     \<and> 0 \<le> physicalPage (entry t (page_of cfg va))
     \<and> physicalPage (entry t (page_of cfg va)) < NumPhysPages cfg"

definition phys_addr :: "config \<Rightarrow> TranslationTable \<Rightarrow> u32 \<Rightarrow> int" where
  "phys_addr cfg t va = physicalPage (entry t (page_of cfg va)) * PageSize cfg + offset_of cfg va"

definition touch :: "bool \<Rightarrow> PageTableEntry \<Rightarrow> PageTableEntry" where
  "touch writing e = e\<lparr>bitM := (bitM e \<or> writing), bitU := True\<rparr>"

lemma mmu_get_in [simp]:
  "mmu_table m = Some a \<Longrightarrow> tables m a = Some t \<Longrightarrow> mmu_get f vpn m = f t vpn"
  by (simp add: mmu_get_def)

lemma stat_frame [simp]:
  "mmu_table (stat_MemoryAccess m) = mmu_table m" "tables (stat_MemoryAccess m) = tables m"
  "mainMemory (stat_MemoryAccess m) = mainMemory m"
  "int_registers (stat_MemoryAccess m) = int_registers m"
  "float_registers (stat_MemoryAccess m) = float_registers m"
  "host_endianess (stat_MemoryAccess m) = host_endianess m"
  "mips_endianess (stat_MemoryAccess m) = mips_endianess m"
  "R (stat_MemoryAccess m) i = R m i"
  "wf_cpu (stat_MemoryAccess m) = wf_cpu m"
  by (simp_all add: stat_MemoryAccess_def split_beta)

lemma mapped_stat [simp]: "mapped cfg (stat_MemoryAccess m) va a t = mapped cfg m va a t"
  by (simp add: mapped_def)

lemma Translate_ok:
  assumes m: "mapped cfg m va a t" and al: "aligned sz va"
    and w: "writing \<longrightarrow> writeAllowed (entry t (page_of cfg va))"
  shows "Translate cfg hnd va sz writing m =
    Some (NO_EXCEPTION, Some (phys_addr cfg t va),
      stat_MemoryAccess (m\<lparr>tables := (tables m)(a \<mapsto> upd_entry (touch writing) t (page_of cfg va))\<rparr>))"
proof -
  note [simp] = tt_getters tt_setters pte_get_in pte_set_in
  from m have *: "mmu_table m = Some a" "tables m a = Some t" "wf_table t"
    "in_table t (page_of cfg va)"
    "readAllowed (entry t (page_of cfg va)) \<or> writeAllowed (entry t (page_of cfg va))"
    "valid (entry t (page_of cfg va))"
    "0 \<le> physicalPage (entry t (page_of cfg va))"
    "physicalPage (entry t (page_of cfg va)) < NumPhysPages cfg"
    by (simp_all add: mapped_def)
  then have lt: "\<not> getMaxNumPages t \<le> page_of cfg va"
    by (simp add: in_table_def getMaxNumPages_def)
  have na: "\<not> ((sz = 4 \<and> va AND 3 \<noteq> 0) \<or> (sz = 2 \<and> va AND 1 \<noteq> 0))"
    using al by (auto simp: aligned_def)
  have tu: "touch True = (\<lambda>e. e\<lparr>bitM := True, bitU := True\<rparr>)"
    "touch False = (\<lambda>e. e\<lparr>bitU := True\<rparr>)"
    by (simp_all add: touch_def fun_eq_iff)
  show ?thesis
    unfolding Translate_def Let_def
    unfolding page_of_def [symmetric] offset_of_def [symmetric]
    using * lt na w
    by (cases writing) (auto simp: Translate_fault_def mmu_set_def phys_addr_def tu cong: if_cong)
qed

lemma stat_upd_tables [simp]:
  "stat_MemoryAccess (m\<lparr>tables := x\<rparr>) = (stat_MemoryAccess m)\<lparr>tables := x\<rparr>"
  by (simp add: stat_MemoryAccess_def split_beta)

lemma touch_twice [simp]: "touch w (touch w e) = touch w e"
  by (simp add: touch_def)

lemma touch_fields [simp]:
  "readAllowed (touch w e) = readAllowed e" "writeAllowed (touch w e) = writeAllowed e"
  "valid (touch w e) = valid e" "physicalPage (touch w e) = physicalPage e"
  by (simp_all add: touch_def)

text \<open>The state after the two translations of one access: three accesses are counted.\<close>

definition accessed ::
  "config \<Rightarrow> bool \<Rightarrow> u32 \<Rightarrow> nat \<Rightarrow> TranslationTable \<Rightarrow> 'a machine_scheme \<Rightarrow> 'a machine_scheme" where
  "accessed cfg writing va a t m =
     (stat_MemoryAccess (stat_MemoryAccess (stat_MemoryAccess m)))
       \<lparr>tables := (tables m)(a \<mapsto> upd_entry (touch writing) t (page_of cfg va))\<rparr>"

lemma accessed_frame [simp]:
  "mainMemory (accessed cfg w va a t m) = mainMemory m"
  "mmu_table (accessed cfg w va a t m) = mmu_table m"
  "int_registers (accessed cfg w va a t m) = int_registers m"
  "host_endianess (accessed cfg w va a t m) = host_endianess m"
  "mips_endianess (accessed cfg w va a t m) = mips_endianess m"
  "tables (accessed cfg w va a t m) = (tables m)(a \<mapsto> upd_entry (touch w) t (page_of cfg va))"
  by (simp_all add: accessed_def)

lemma mapped_accessed:
  "mapped cfg m va a t \<Longrightarrow>
   mapped cfg (accessed cfg w va a t m) va a (upd_entry (touch w) t (page_of cfg va))
   \<and> phys_addr cfg (upd_entry (touch w) t (page_of cfg va)) va = phys_addr cfg t va
   \<and> writeAllowed (entry (upd_entry (touch w) t (page_of cfg va)) (page_of cfg va))
     = writeAllowed (entry t (page_of cfg va))"
  by (simp add: mapped_def phys_addr_def)

lemma Translate_twice_ok:
  assumes m: "mapped cfg m va a t" and al: "aligned sz va"
    and w: "writing \<longrightarrow> writeAllowed (entry t (page_of cfg va))"
  shows "Translate_twice cfg hnd va sz writing m =
    Some (NO_EXCEPTION, Some (phys_addr cfg t va), accessed cfg writing va a t m)"
proof -
  let ?t = "upd_entry (touch writing) t (page_of cfg va)"
  let ?m = "(stat_MemoryAccess (stat_MemoryAccess m))\<lparr>tables := (tables m)(a \<mapsto> ?t)\<rparr>"
  have 1: "Translate cfg hnd va sz writing (stat_MemoryAccess m) =
      Some (NO_EXCEPTION, Some (phys_addr cfg t va), ?m)"
    using Translate_ok [of cfg "stat_MemoryAccess m" va a t sz writing hnd] assms by simp
  have wf: "wf_table t" "in_table t (page_of cfg va)" using m by (simp_all add: mapped_def)
  have 2: "mapped cfg ?m va a ?t" "phys_addr cfg ?t va = phys_addr cfg t va"
    "writing \<longrightarrow> writeAllowed (entry ?t (page_of cfg va))"
    using m w by (simp_all add: mapped_def phys_addr_def)
  have 3: "Translate cfg hnd va sz writing ?m =
      Some (NO_EXCEPTION, Some (phys_addr cfg t va), accessed cfg writing va a t m)"
    using Translate_ok [OF 2(1) al 2(3)] wf by (simp add: 2(2) accessed_def)
  show ?thesis by (simp add: Translate_twice_def 1 3)
qed

text \<open>An aligned access of a positive address stays inside its frame.\<close>

lemma and_mask_mod: "va AND 1 = 0 \<longleftrightarrow> uint (va :: u32) mod 2 = 0" "va AND 3 = 0 \<longleftrightarrow> uint va mod 4 = 0"
proof -
  have m: "va AND mask n = 0 \<longleftrightarrow> uint va mod 2 ^ n = 0" if "n < 32" for n
  proof -
    have "va AND mask n = 0 \<longleftrightarrow> uint (take_bit n va) = 0"
      by (simp only: take_bit_eq_mask uint_0_iff)
    also have "uint (take_bit n va) = uint va mod 2 ^ n"
      by (simp only: unsigned_take_bit_eq) (simp only: take_bit_eq_mod)
    finally show ?thesis .
  qed
  have m1: "(1 :: u32) = mask 1" and m3: "(3 :: u32) = mask 2"
    by (simp_all add: mask_eq_exp_minus_1)
  show "va AND 1 = 0 \<longleftrightarrow> uint va mod 2 = 0" using m [of 1] unfolding m1 by simp
  show "va AND 3 = 0 \<longleftrightarrow> uint va mod 4 = 0" using m [of 2] unfolding m3 by simp
qed

lemma aligned_room:
  "(x :: int) mod 2 = 0 \<Longrightarrow> x < 4 * k \<Longrightarrow> x + 2 \<le> 4 * k"
  "(x :: int) mod 4 = 0 \<Longrightarrow> x < 4 * k \<Longrightarrow> x + 4 \<le> 4 * k"
  by presburger+

lemma phys_addr_bounds:
  assumes m: "mapped cfg m va a t" and al: "aligned sz va" and pos: "0 \<le> sint va"
    and ps: "0 < PageSize cfg" "4 dvd PageSize cfg"
  shows "physicalPage (entry t (page_of cfg va)) * PageSize cfg \<le> phys_addr cfg t va"
    and "phys_addr cfg t va + int sz
         \<le> (physicalPage (entry t (page_of cfg va)) + 1) * PageSize cfg"
    and "0 \<le> phys_addr cfg t va" "phys_addr cfg t va + int sz \<le> NumPhysPages cfg * PageSize cfg"
proof -
  let ?P = "PageSize cfg" and ?f = "physicalPage (entry t (page_of cfg va))"
  have u: "sint va = uint va"
    using pos by (rule sint_nonneg_uint)
  have o: "offset_of cfg va = uint va mod ?P"
    using pos ps by (simp add: offset_of_def smod_nonneg u)
  then have r: "0 \<le> offset_of cfg va" "offset_of cfg va < ?P" using ps by simp_all
  obtain k where k: "?P = 4 * k" using ps(2) by (elim dvdE)
  have "offset_of cfg va + int sz \<le> ?P"
  proof -
    have "sz = 1 \<or> sz = 2 \<and> uint va mod 2 = 0 \<or> sz = 4 \<and> uint va mod 4 = 0"
      using al by (simp add: aligned_def and_mask_mod)
    moreover have "offset_of cfg va mod 2 = uint va mod 2" "offset_of cfg va mod 4 = uint va mod 4"
      unfolding o using ps(2) dvd_trans [of 2 4 "?P"] by (simp_all add: mod_mod_cancel)
    ultimately show ?thesis using r aligned_room [of "offset_of cfg va" k] unfolding k by auto
  qed
  then show b: "phys_addr cfg t va + int sz \<le> (?f + 1) * ?P" by (simp add: phys_addr_def algebra_simps)
  show "?f * ?P \<le> phys_addr cfg t va" using r by (simp add: phys_addr_def)
  have f: "0 \<le> ?f" "?f + 1 \<le> NumPhysPages cfg" using m by (simp_all add: mapped_def)
  show "0 \<le> phys_addr cfg t va" using f r ps by (simp add: phys_addr_def)
  have "(?f + 1) * ?P \<le> NumPhysPages cfg * ?P" using f ps by (intro mult_right_mono) simp_all
  with b show "phys_addr cfg t va + int sz \<le> NumPhysPages cfg * ?P" by simp
qed

subsection \<open>Loads and stores\<close>

lemma swap_word_twice:
  "(drop_bit 24 w AND 0x000000ff) OR (drop_bit 8 w AND 0x0000ff00)
   OR (push_bit 8 w AND 0x00ff0000) OR (push_bit 24 w AND 0xff000000)
   = le_word (ucast (drop_bit 24 w)) (ucast (drop_bit 16 w)) (ucast (drop_bit 8 w)) (ucast (w :: u32))"
proof (rule bit_word_eqI)
  have c: "(0x000000ff :: u32) = mask 8" "(0x0000ff00 :: u32) = push_bit 8 (mask 8)"
    "(0x00ff0000 :: u32) = push_bit 16 (mask 8)" "(0xff000000 :: u32) = push_bit 24 (mask 8)"
    by (simp_all add: mask_eq_exp_minus_1 push_bit_eq_mult)
  fix n
  assume "n < LENGTH(32)"
  then consider "n < 8" | "8 \<le> n" "n < 16" | "16 \<le> n" "n < 24" | "24 \<le> n" "n < 32"
    by fastforce
  then show "bit ((drop_bit 24 w AND 0x000000ff) OR (drop_bit 8 w AND 0x0000ff00)
     OR (push_bit 8 w AND 0x00ff0000) OR (push_bit 24 w AND 0xff000000)) n =
     bit (le_word (ucast (drop_bit 24 w)) (ucast (drop_bit 16 w)) (ucast (drop_bit 8 w)) (ucast w)) n"
    unfolding c by cases (auto simp: le_word_def bit_simps)
qed

lemma store_word_load:
  assumes "0 \<le> a" "a + 4 \<le> int (length mem)"
  shows "\<exists>mem'. store_word mem a v = Some mem' \<and> length mem' = length mem \<and> load_word mem' a = Some v
    \<and> (\<forall>i. int i < a \<or> a + 4 \<le> int i \<longrightarrow> mem' ! i = mem ! i)"
proof -
  obtain n where n: "a = int n" using assms(1) by (metis nonneg_int_cases)
  have "nat (int n + 1) = n + 1" "nat (int n + 2) = n + 2" "nat (int n + 3) = n + 3" by simp_all
  then show ?thesis
    using assms(2) unfolding n
    by (auto simp: store_word_def load_word_def aset_def aget_def nth_list_update le_word_bytes)
qed

lemma store_half_load:
  assumes "0 \<le> a" "a + 2 \<le> int (length mem)"
  shows "\<exists>mem'. store_half mem a v = Some mem' \<and> length mem' = length mem \<and> load_half mem' a = Some v
    \<and> (\<forall>i. int i < a \<or> a + 2 \<le> int i \<longrightarrow> mem' ! i = mem ! i)"
proof -
  obtain n where n: "a = int n" using assms(1) by (metis nonneg_int_cases)
  have b: "ucast (ucast v :: byte) OR push_bit 8 (ucast (ucast (drop_bit 8 v) :: byte) :: 16 word) = v"
  proof (rule bit_word_eqI)
    fix k
    assume "k < LENGTH(16)"
    then consider "k < 8" | "8 \<le> k" "k < 16" by fastforce
    then show "bit (ucast (ucast v :: byte) OR push_bit 8 (ucast (ucast (drop_bit 8 v) :: byte) :: 16 word)) k = bit v k"
      by cases (auto simp: bit_simps)
  qed
  have "nat (int n + 1) = n + 1" by simp
  then show ?thesis
    using assms(2) b unfolding n
    by (auto simp: store_half_def load_half_def aset_def aget_def nth_list_update)
qed

text \<open>Converting to the order of the program and back is the identity.\<close>

lemma WordToHost_Machine [simp]: "WordToHost m (WordToMachine m' w) = w"
  if "host_endianess m = host_endianess m'" "mips_endianess m = mips_endianess m'"
  using that
  by (simp add: WordToMachine_def WordToHost_def swap_word_twice
      le_bytes_word [unfolded le_bytes_def, simplified] le_word_bytes)

lemma ShortToHost_Machine [simp]: "ShortToHost m (ShortToMachine m' w) = w"
  if "host_endianess m = host_endianess m'" "mips_endianess m = mips_endianess m'"
proof -
  have c: "(0xff00 :: 16 word) = push_bit 8 (mask 8)" "(0x00ff :: 16 word) = mask 8"
    by (simp_all add: mask_eq_exp_minus_1 push_bit_eq_mult)
  show ?thesis
    using that unfolding ShortToMachine_def ShortToHost_def c
    by (auto simp: bit_simps intro!: bit_word_eqI)
qed

text \<open>The value an access of \<open>sz\<close> bytes reads back after \<open>v\<close> was stored.\<close>

definition truncated :: "nat \<Rightarrow> u32 \<Rightarrow> u32" where
  "truncated sz v = (if sz = 1 then scast (ucast v :: byte) else if sz = 2 then v AND 0xffff else v)"

lemma ucast_and_mask:
  "(ucast (v AND 0xff) :: byte) = ucast (v :: u32)" "(ucast (v AND 0xffff) :: 16 word) = ucast v"
  "(ucast (ucast v :: 16 word) :: u32) = v AND 0xffff"
proof -
  have c: "(0xff :: u32) = mask 8" "(0xffff :: u32) = mask 16"
    by (simp_all add: mask_eq_exp_minus_1)
  show "(ucast (v AND 0xff) :: byte) = ucast (v :: u32)" "(ucast (v AND 0xffff) :: 16 word) = ucast v"
    "(ucast (ucast v :: 16 word) :: u32) = v AND 0xffff"
    unfolding c by (auto simp: bit_simps intro!: bit_word_eqI)
qed

lemma store_value_load:
  fixes m :: "'a machine_scheme"
  assumes "sz \<in> {1, 2, 4}" "0 \<le> a" "a + int sz \<le> int (length (mainMemory m))"
  shows "\<exists>mem. store_value m sz a v = Some mem \<and> length mem = length (mainMemory m)
    \<and> (\<forall>i. int i < a \<or> a + int sz \<le> int i \<longrightarrow> mem ! i = mainMemory m ! i)
    \<and> (\<forall>m' :: 'a machine_scheme. mainMemory m' = mem \<and> host_endianess m' = host_endianess m
         \<and> mips_endianess m' = mips_endianess m \<longrightarrow> load_value m' sz a = Some (truncated sz v))"
proof -
  consider "sz = 1" | "sz = 2" | "sz = 4" using assms(1) by blast
  then show ?thesis
  proof cases
    case 1
    with assms show ?thesis
      by (auto simp: store_value_def load_value_def aset_def aget_def truncated_def
          ucast_and_mask nth_list_update)
  next
    case 2
    with assms store_half_load [of a "mainMemory m" "ShortToMachine m (ucast (v AND 0xffff))"]
    show ?thesis
      by (auto simp: store_value_def load_value_def truncated_def ucast_and_mask)
  next
    case 3
    with assms store_word_load [of a "mainMemory m" "WordToMachine m v"]
    show ?thesis by (auto simp: store_value_def load_value_def truncated_def)
  qed
qed

text \<open>The configuration and the memory fit together.\<close>

definition wf_memory :: "config \<Rightarrow> 'a machine_scheme \<Rightarrow> bool" where
  "wf_memory cfg m \<longleftrightarrow> 0 < PageSize cfg \<and> 4 dvd PageSize cfg \<and> 0 \<le> NumPhysPages cfg
     \<and> int (length (mainMemory m)) = NumPhysPages cfg * PageSize cfg"

lemma WriteMem_ok:
  fixes m :: "'a machine_scheme"
  assumes "wf_memory cfg m" "mapped cfg m va a t" "aligned sz va" "0 \<le> sint va"
    "writeAllowed (entry t (page_of cfg va))"
  shows "\<exists>mem. WriteMem cfg hnd va sz v m = Some (True, (accessed cfg True va a t m)\<lparr>mainMemory := mem\<rparr>)
    \<and> length mem = length (mainMemory m)
    \<and> (\<forall>i. int i < phys_addr cfg t va \<or> phys_addr cfg t va + int sz \<le> int i
         \<longrightarrow> mem ! i = mainMemory m ! i)
    \<and> (\<forall>m' :: 'a machine_scheme. mainMemory m' = mem \<and> host_endianess m' = host_endianess m
         \<and> mips_endianess m' = mips_endianess m
         \<longrightarrow> load_value m' sz (phys_addr cfg t va) = Some (truncated sz v))"
proof -
  have sz: "sz \<in> {1, 2, 4}" using assms(3) by (auto simp: aligned_def)
  note b = phys_addr_bounds [OF assms(2,3,4)]
  have "phys_addr cfg t va + int sz \<le> int (length (mainMemory (accessed cfg True va a t m)))"
    "0 \<le> phys_addr cfg t va"
    using b assms(1) by (simp_all add: wf_memory_def)
  from store_value_load [OF sz this(2,1), of v] show ?thesis
    using Translate_twice_ok [OF assms(2,3), of True hnd] assms(5)
    by (auto simp: WriteMem_def)
qed

lemma ReadMem_ok:
  assumes "mapped cfg m va a t" "aligned sz va"
  shows "ReadMem cfg hnd va sz m =
    map_option (\<lambda>v. (Some v, accessed cfg False va a t m))
      (load_value (accessed cfg False va a t m) sz (phys_addr cfg t va))"
  using Translate_twice_ok [OF assms, of False hnd]
  by (cases "load_value (accessed cfg False va a t m) sz (phys_addr cfg t va)")
    (simp_all add: ReadMem_def)

subsection \<open>Properties of the memory accesses\<close>

text \<open>
  C8. A store of 1, 2 or 4 bytes to a present, writable page succeeds; a load of the same
  address and size then returns the stored value, sign extended from a byte and zero
  extended from a half word, whatever the byte orders of the host and of the program.
  Every other byte of the memory is as before, the page is marked used and modified, and
  no other entry of the table changes.
\<close>
theorem memory_write_read:
  fixes m :: "'a machine_scheme"
  assumes "wf_memory cfg m" "mapped cfg m va a t" "aligned sz va" "0 \<le> sint va"
    and "writeAllowed (entry t (page_of cfg va))"
  shows "\<exists>m1 m2 u. WriteMem cfg hnd va sz v m = Some (True, m1)
    \<and> ReadMem cfg hnd va sz m1 = Some (Some (truncated sz v), m2)
    \<and> (\<forall>i. int i < phys_addr cfg t va \<or> phys_addr cfg t va + int sz \<le> int i
         \<longrightarrow> mainMemory m2 ! i = mainMemory m ! i)
    \<and> tables m2 a = Some u \<and> bitM (entry u (page_of cfg va)) \<and> bitU (entry u (page_of cfg va))
    \<and> (\<forall>vp. in_table t vp \<and> vp \<noteq> page_of cfg va \<longrightarrow> entry u vp = entry t vp)"
proof -
  let ?u = "upd_entry (touch True) t (page_of cfg va)"
  let ?u2 = "upd_entry (touch False) ?u (page_of cfg va)"
  have t: "wf_table t" "in_table t (page_of cfg va)" using assms(2) by (simp_all add: mapped_def)
  obtain mem where w: "WriteMem cfg hnd va sz v m
      = Some (True, (accessed cfg True va a t m)\<lparr>mainMemory := mem\<rparr>)"
    and fr: "\<forall>i. int i < phys_addr cfg t va \<or> phys_addr cfg t va + int sz \<le> int i
         \<longrightarrow> mem ! i = mainMemory m ! i"
    and ld: "\<forall>m' :: 'a machine_scheme. mainMemory m' = mem \<and> host_endianess m' = host_endianess m
         \<and> mips_endianess m' = mips_endianess m
         \<longrightarrow> load_value m' sz (phys_addr cfg t va) = Some (truncated sz v)"
    using WriteMem_ok [OF assms] by blast
  let ?m1 = "(accessed cfg True va a t m)\<lparr>mainMemory := mem\<rparr>"
  have mp: "mapped cfg ?m1 va a ?u" "phys_addr cfg ?u va = phys_addr cfg t va"
    using assms(2) by (simp_all add: mapped_def phys_addr_def)
  have r: "ReadMem cfg hnd va sz ?m1 = Some (Some (truncated sz v), accessed cfg False va a ?u ?m1)"
  proof -
    have "load_value (accessed cfg False va a ?u ?m1) sz (phys_addr cfg t va) = Some (truncated sz v)"
      by (rule ld [rule_format]) simp
    then show ?thesis using ReadMem_ok [OF mp(1) assms(3)] by (simp add: mp(2))
  qed
  show ?thesis
    by (intro exI [of _ ?m1] exI [of _ "accessed cfg False va a ?u ?m1"] exI [of _ ?u2])
      (use w r fr t in \<open>auto simp: touch_def\<close>)
qed

text \<open>A machine of two frames whose page 1 is in frame 0, and a handler that stops.\<close>

definition tiny_entry :: "int \<Rightarrow> bool \<Rightarrow> PageTableEntry" where
  "tiny_entry f w = \<lparr>valid = True, bitU = False, bitM = False, readAllowed = True,
     writeAllowed = w, physicalPage = f, swap = False, addrDisk = - 1, io = False\<rparr>"

definition tiny_machine :: machine where
  "tiny_machine = (Machine_new tiny_cfg)\<lparr>mmu_table := Some 0,
     tables := [0 \<mapsto> \<lparr>maxNumPages = 2, pageTable = [tiny_entry 1 False, tiny_entry 0 True]\<rparr>]\<rparr>"

definition stop_handler :: "'a handler" where "stop_handler exc va m = None"

lemma tiny_wf: "wf_memory tiny_cfg tiny_machine"
  by (simp add: wf_memory_def tiny_machine_def Machine_new_def tiny_cfg_def)

lemma tiny_mapped:
  "mapped tiny_cfg tiny_machine 8 0 \<lparr>maxNumPages = 2, pageTable = [tiny_entry 1 False, tiny_entry 0 True]\<rparr>"
  "mapped tiny_cfg tiny_machine 0 0 \<lparr>maxNumPages = 2, pageTable = [tiny_entry 1 False, tiny_entry 0 True]\<rparr>"
  by (simp_all add: mapped_def tiny_machine_def page_of_def tiny_cfg_def cint_simps wf_table_def
      in_table_def entry_def tiny_entry_def)

theorem memory_write_read_witness:
  "\<exists>m1 m2. WriteMem tiny_cfg stop_handler 8 4 0x12345678 tiny_machine = Some (True, m1)
    \<and> ReadMem tiny_cfg stop_handler 8 4 m1 = Some (Some 0x12345678, m2)"
proof -
  have "aligned 4 8" "0 \<le> sint (8 :: u32)" by (simp_all add: aligned_def)
  moreover have "writeAllowed (entry \<lparr>maxNumPages = 2, pageTable = [tiny_entry 1 False, tiny_entry 0 True]\<rparr>
      (page_of tiny_cfg 8))"
    by (simp add: entry_def page_of_def tiny_cfg_def cint_simps tiny_entry_def)
  ultimately show ?thesis
    using memory_write_read [OF tiny_wf tiny_mapped(1), where sz = 4 and hnd = stop_handler and v = "0x12345678"]
    by (auto simp: truncated_def)
qed

text \<open>
  C35. A store to a mapped page that is not writable changes no byte of the memory and no
  page table entry: the code counts the access and raises \<open>READONLY_EXCEPTION\<close>, before
  it looks at whether the page is present.
\<close>
theorem write_protected:
  assumes "mmu_table m = Some a" "tables m a = Some t" "wf_table t" "in_table t (page_of cfg va)"
    and "aligned sz va" "readAllowed (entry t (page_of cfg va))"
    and "\<not> writeAllowed (entry t (page_of cfg va))"
  shows "WriteMem cfg hnd va sz v m =
    map_option (\<lambda>m'. (False, m'))
      (RaiseException hnd READONLY_EXCEPTION va (stat_MemoryAccess m))"
proof -
  have na: "\<not> ((sz = 4 \<and> va AND 3 \<noteq> 0) \<or> (sz = 2 \<and> va AND 1 \<noteq> 0))"
    using assms(5) by (auto simp: aligned_def)
  have lt: "\<not> getMaxNumPages t \<le> page_of cfg va"
    using assms(4) by (simp add: in_table_def getMaxNumPages_def)
  have T: "Translate cfg hnd va sz True m' = Some (READONLY_EXCEPTION, None, m')"
    if "mmu_table m' = Some a" "tables m' a = Some t" for m'
    unfolding Translate_def Let_def
    unfolding page_of_def [symmetric]
    using na lt assms(3,4,6,7) that by (simp add: tt_getters pte_get_in)
  have "Translate_twice cfg hnd va sz True m = Some (READONLY_EXCEPTION, None, stat_MemoryAccess m)"
    using assms(1,2) by (simp add: Translate_twice_def T)
  then show ?thesis
    by (cases "RaiseException hnd READONLY_EXCEPTION va (stat_MemoryAccess m)")
      (simp_all add: WriteMem_def)
qed

theorem write_protected_witness:
  "WriteMem tiny_cfg stop_handler 4 4 1 tiny_machine =
    map_option (\<lambda>m'. (False, m'))
      (RaiseException stop_handler READONLY_EXCEPTION 4 (stat_MemoryAccess tiny_machine))"
  by (rule write_protected [of _ 0 "\<lparr>maxNumPages = 2, pageTable = [tiny_entry 1 False, tiny_entry 0 True]\<rparr>"])
    (simp_all add: tiny_machine_def page_of_def tiny_cfg_def cint_simps wf_table_def
      in_table_def entry_def tiny_entry_def aligned_def)

text \<open>
  The check of the virtual page number has no lower bound, and C division truncates
  towards zero: an access to a negative address above \<open>- PageSize\<close> is translated with
  the entry of page 0 and a negative offset. When page 0 is mapped to a frame \<open>pp\<close>, the
  access succeeds at a physical address below that frame, which belongs to another page.
\<close>
theorem negative_address_leaves_frame:
  assumes "mmu_table m = Some a" "tables m a = Some t" "wf_table t" "in_table t 0"
    and "readAllowed (entry t 0)" "valid (entry t 0)"
    and "physicalPage (entry t 0) = pp" "0 \<le> pp" "pp < NumPhysPages cfg"
    and "- PageSize cfg < sint va" "sint va < 0" "aligned sz va"
  shows "\<exists>m'. Translate cfg hnd va sz False m = Some (NO_EXCEPTION, Some (pp * PageSize cfg + sint va), m')
    \<and> pp * PageSize cfg + sint va < pp * PageSize cfg"
proof -
  have p: "page_of cfg va = 0"
    using assms(10,11) by (auto simp: page_of_def signed_divide_int_def sgn_if div_pos_pos_trivial)
  have o: "offset_of cfg va = sint va"
    using assms(10,11) by (auto simp: offset_of_def signed_modulo_int_def sgn_if mod_pos_pos_trivial)
  have "mapped cfg m va a t" using assms p by (simp add: mapped_def)
  from Translate_ok [OF this assms(12), of False hnd] show ?thesis
    using assms by (simp add: phys_addr_def p o)
qed

theorem negative_address_leaves_frame_witness:
  "\<exists>m'. Translate tiny_cfg stop_handler (- 4) 4 False tiny_machine = Some (NO_EXCEPTION, Some 4, m')"
proof -
  have "aligned 4 (- 4)" by (simp add: aligned_def)
  with negative_address_leaves_frame [where m = tiny_machine and a = 0 and pp = 1
      and t = "\<lparr>maxNumPages = 2, pageTable = [tiny_entry 1 False, tiny_entry 0 True]\<rparr>"
      and cfg = tiny_cfg and va = "- 4" and sz = 4 and hnd = stop_handler]
  show ?thesis
    by (simp add: tiny_machine_def tiny_cfg_def wf_table_def in_table_def entry_def tiny_entry_def)
qed

end
