(* ===== verification/Nachos_Mult.thy ===== *)
theory Nachos_Mult
  imports Nachos_Machine
begin

text \<open>
  The routine \<open>Mult\<close> of \<open>machine/mipssim.cc\<close>, which computes the 64-bit product of
  two registers by shifts and additions of 32-bit halves, and its correctness.
\<close>

text \<open>
  The loop of \<open>Mult\<close> over the bits of \<open>a\<close>, with its early exit: \<open>a\<close> is an \<open>int\<close>,
  so its shift is arithmetic; \<open>bLo\<close>, \<open>bHi\<close>, \<open>lo\<close> and \<open>hi\<close> are unsigned.
\<close>

fun Mult_loop :: "nat \<Rightarrow> u32 \<Rightarrow> u32 \<Rightarrow> u32 \<Rightarrow> u32 \<Rightarrow> u32 \<Rightarrow> u32 \<times> u32" where
  "Mult_loop 0 a bLo bHi lo hi = (hi, lo)"
| "Mult_loop (Suc n) a bLo bHi lo hi =
     (let add = (a AND 1 \<noteq> 0);
          lo' = (if add then lo + bLo else lo);
          hi' = (if add then (if lo' < bLo then hi + 1 else hi) + bHi else hi)
      in if add \<and> a AND 0xfffffffe = 0 then (hi', lo')
         else Mult_loop n (signed_drop_bit 1 a) (push_bit 1 bLo)
           (if bLo AND 0x80000000 \<noteq> 0 then push_bit 1 bHi OR 1 else push_bit 1 bHi) lo' hi')"

definition Mult :: "u32 \<Rightarrow> u32 \<Rightarrow> bool \<Rightarrow> u32 \<times> u32" where
  "Mult a b signedArith =
     (if a = 0 \<or> b = 0 then (0, 0)
      else
        let na = (signedArith \<and> sint a < 0); nb = (signedArith \<and> sint b < 0);
            negative = (na \<noteq> nb);
            a' = (if na then - a else a); b' = (if nb then - b else b);
            (hi, lo) = Mult_loop 32 a' b' 0 0 0
        in if negative
           then (let hi1 = NOT hi; lo1 = NOT lo + 1 in (if lo1 = 0 then hi1 + 1 else hi1, lo1))
           else (hi, lo))"

subsection \<open>Correctness of the multiplication\<close>

text \<open>The pair of 32-bit halves as a number of 64 bits.\<close>

definition pair64 :: "u32 \<Rightarrow> u32 \<Rightarrow> int" where
  "pair64 hi lo = uint hi * 2 ^ 32 + uint lo"

lemma uint_u32_bounds: "0 \<le> uint (x :: u32)" "uint x < 4294967296"
  using uint_bounded [of x] by simp_all

lemma uint_plus_wrap: "\<exists>k. uint (x + y) = uint x + uint y - k * 2 ^ 32" for x y :: u32
proof -
  have "uint (x + y) = (uint x + uint y) mod 2 ^ 32" by (simp add: uint_word_ariths)
  then have "uint (x + y) = uint x + uint y - (uint x + uint y) div 2 ^ 32 * 2 ^ 32"
    by (simp only: minus_div_mult_eq_mod)
  then show ?thesis by blast
qed

lemma uint_plus_carry:
  "uint (x + y) = uint x + uint y - (if x + y < y then 1 else 0) * 2 ^ 32" for x y :: u32
proof -
  note b = uint_u32_bounds [of x] uint_u32_bounds [of y] uint_u32_bounds [of "x + y"]
  obtain k where k: "uint (x + y) = uint x + uint y - k * 2 ^ 32" using uint_plus_wrap by blast
  note k' = k [simplified]
  have "k < 2" using b k' by linarith
  moreover have "- 1 < k" using b k' by linarith
  ultimately consider "k = 0" | "k = 1" by linarith
  then show ?thesis
  proof cases
    case 1
    then have "\<not> x + y < y" unfolding word_less_def using b k' by linarith
    then show ?thesis using 1 k by (simp only: if_False)
  next
    case 2
    then have "x + y < y" unfolding word_less_def using b k' by linarith
    then show ?thesis using 2 k by (simp only: if_True)
  qed
qed

lemma mod_shift: "(a - k * 2 ^ 32) * 2 ^ 32 + c = (a * 2 ^ 32 + c) - k * (2 ^ 64 :: int)"
  by (simp add: algebra_simps)

lemma pair64_add:
  "pair64 ((if lo + bLo < bLo then hi + 1 else hi) + bHi) (lo + bLo) mod 2 ^ 64
   = (pair64 hi lo + pair64 bHi bLo) mod 2 ^ 64"
proof -
  let ?c = "if lo + bLo < bLo then 1 else (0 :: u32)"
  obtain k where k: "uint (hi + ?c) = uint hi + uint ?c - k * 2 ^ 32"
    using uint_plus_wrap by blast
  obtain l where l: "uint (hi + ?c + bHi) = uint (hi + ?c) + uint bHi - l * 2 ^ 32"
    using uint_plus_wrap by blast
  have "(if lo + bLo < bLo then hi + 1 else hi) = hi + ?c" by simp
  then have "pair64 ((if lo + bLo < bLo then hi + 1 else hi) + bHi) (lo + bLo)
      = (uint hi + uint ?c + uint bHi - (k + l) * 2 ^ 32) * 2 ^ 32 + uint (lo + bLo)"
    using k l by (simp add: pair64_def algebra_simps)
  also have "\<dots> = ((uint hi + uint ?c + uint bHi) * 2 ^ 32 + uint (lo + bLo)) - (k + l) * 2 ^ 64"
    by (rule mod_shift)
  also have "(uint hi + uint ?c + uint bHi) * 2 ^ 32 + uint (lo + bLo) = pair64 hi lo + pair64 bHi bLo"
    unfolding pair64_def uint_plus_carry [of lo bLo] by (auto simp: algebra_simps)
  finally show ?thesis
    by (simp only: mod_diff_right_eq [symmetric, of _ "(k + l) * 2 ^ 64"] mod_mult_self2_is_0 diff_0_right)
qed

lemma sign_bit_iff: "(x :: u32) AND 0x80000000 \<noteq> 0 \<longleftrightarrow> 2 ^ 31 \<le> uint x"
proof -
  have m: "(0x80000000 :: u32) = 2 ^ 31" by simp
  have "x AND 0x80000000 \<noteq> 0 \<longleftrightarrow> bit x 31"
    by (simp only: m and_exp_eq_0_iff_not_bit not_not)
  also have "\<dots> \<longleftrightarrow> odd (uint x div 2 ^ 31)"
  proof -
    have "bit x 31 \<longleftrightarrow> bit (uint x) 31" by (simp add: bit_uint_iff)
    then show ?thesis by (simp only: bit_iff_odd)
  qed
  also have "\<dots> \<longleftrightarrow> 2 ^ 31 \<le> uint x"
  proof (cases "2 ^ 31 \<le> uint x")
    case True
    then have "uint x div 2 ^ 31 = (uint x - 2 ^ 31) div 2 ^ 31 + 1" by (intro div_pos_geq) simp_all
    also have "(uint x - 2 ^ 31) div 2 ^ 31 = 0"
      using True uint_u32_bounds [of x] by (intro div_pos_pos_trivial) simp_all
    finally show ?thesis using True by simp
  next
    case False
    then have "uint x div 2 ^ 31 = 0"
      using uint_u32_bounds [of x] by (intro div_pos_pos_trivial) simp_all
    then show ?thesis using False by simp
  qed
  finally show ?thesis .
qed

lemma double_carry: "(x :: u32) AND 0x80000000 \<noteq> 0 \<longleftrightarrow> x + x < x"
proof -
  have "2 ^ 31 \<le> uint x \<longleftrightarrow> uint (x + x) < uint x"
    using uint_plus_carry [of x x] uint_u32_bounds [of x] uint_u32_bounds [of "x + x"]
    by (cases "x + x < x") (simp_all only: if_True if_False, simp_all)
  then show ?thesis unfolding sign_bit_iff word_less_def .
qed

lemma push_or_one: "push_bit 1 x OR 1 = x + 1 + (x :: u32)"
proof -
  have "push_bit 1 x + 1 = push_bit 1 x OR 1"
    by (rule disjunctive_add) (auto simp only: bit_push_bit_iff bit_1_iff)
  then show ?thesis by (simp add: push_bit_eq_mult mult.commute)
qed

lemma pair64_double:
  "pair64 (if bLo AND 0x80000000 \<noteq> 0 then push_bit 1 bHi OR 1 else push_bit 1 bHi) (push_bit 1 bLo)
     mod 2 ^ 64 = 2 * pair64 bHi bLo mod 2 ^ 64"
proof -
  have p: "push_bit 1 x = x + x" for x :: u32 by (simp add: push_bit_eq_mult)
  show ?thesis
    using pair64_add [of bLo bLo bHi bHi]
    unfolding double_carry push_or_one unfolding p
    by (simp only: if_distrib [of "\<lambda>h. h + bHi"] mult_2)
qed

lemma mod_linear: "(x + k * y) mod m = (x mod m + k * (y mod m)) mod (m :: int)"
proof -
  have "(x + k * y) mod m = (x mod m + (k * y) mod m) mod m" by (rule mod_add_eq [symmetric])
  also have "(k * y) mod m = (k * (y mod m)) mod m" by (rule mod_mult_right_eq [symmetric])
  also have "(x mod m + (k * (y mod m)) mod m) mod m = (x mod m + k * (y mod m)) mod m"
    by (rule mod_add_right_eq)
  finally show ?thesis .
qed

lemma Mult_loop_correct:
  "Mult_loop n a bLo bHi lo hi = (h, l) \<Longrightarrow>
   pair64 h l mod 2 ^ 64 = (pair64 hi lo + take_bit n (sint a) * pair64 bHi bLo) mod 2 ^ 64"
proof (induction n arbitrary: a bLo bHi lo hi)
  case 0
  then show ?case by simp
next
  case (Suc n)
  let ?add = "a AND 1 \<noteq> 0"
  define lo' where "lo' = (if ?add then lo + bLo else lo)"
  define hi' where "hi' = (if ?add then (if lo' < bLo then hi + 1 else hi) + bHi else hi)"
  define bh where "bh = (if bLo AND 0x80000000 \<noteq> 0 then push_bit 1 bHi OR 1 else push_bit 1 bHi)"
  have od: "?add \<longleftrightarrow> odd (sint a)"
  proof -
    have "?add \<longleftrightarrow> bit a 0" by (simp add: and_one_eq odd_iff_mod_2_eq_one bit_0)
    also have "\<dots> \<longleftrightarrow> bit (sint a) 0" by (simp add: bit_sint_iff)
    finally show ?thesis by (simp only: bit_0)
  qed
  have sum: "pair64 hi' lo' mod 2 ^ 64 = (pair64 hi lo + (sint a mod 2) * pair64 bHi bLo) mod 2 ^ 64"
  proof (cases ?add)
    case True
    then show ?thesis
      using od pair64_add [of lo bLo hi bHi] by (simp add: hi'_def lo'_def odd_iff_mod_2_eq_one)
  next
    case False
    then have "sint a mod 2 = 0" using od by (simp add: even_iff_mod_2_eq_zero)
    then show ?thesis using False by (simp add: hi'_def lo'_def)
  qed
  have eq: "Mult_loop (Suc n) a bLo bHi lo hi =
     (if ?add \<and> a AND 0xfffffffe = 0 then (hi', lo')
      else Mult_loop n (signed_drop_bit 1 a) (push_bit 1 bLo) bh lo' hi')"
    by (simp add: Let_def lo'_def hi'_def bh_def)
  show ?case
  proof (cases "?add \<and> a AND 0xfffffffe = 0")
    case True
    have "a = (a AND 1) OR (a AND NOT 1)" by (simp flip: bit.conj_disj_distrib)
    also have "NOT 1 = (0xfffffffe :: u32)" by simp
    finally have "a = 1" using True by (simp add: and_one_eq mod2_eq_if split: if_splits)
    moreover have "(hi', lo') = (h, l)"
      using Suc.prems True by (simp only: eq simp_thms if_True)
    ultimately show ?thesis using sum by simp
  next
    case False
    then have "Mult_loop n (signed_drop_bit 1 a) (push_bit 1 bLo) bh lo' hi' = (h, l)"
      using Suc.prems by (simp only: eq if_False)
    from Suc.IH [OF this]
    have "pair64 h l mod 2 ^ 64
      = (pair64 hi' lo' + take_bit n (sint a div 2) * pair64 bh (push_bit 1 bLo)) mod 2 ^ 64"
      by (simp add: sint_signed_drop_bit_eq drop_bit_Suc)
    also have "\<dots> = (pair64 hi' lo' mod 2 ^ 64
        + take_bit n (sint a div 2) * (pair64 bh (push_bit 1 bLo) mod 2 ^ 64)) mod 2 ^ 64"
      by (rule mod_linear)
    also have "\<dots> = ((pair64 hi lo + (sint a mod 2) * pair64 bHi bLo) mod 2 ^ 64
        + take_bit n (sint a div 2) * (2 * pair64 bHi bLo mod 2 ^ 64)) mod 2 ^ 64"
      unfolding bh_def pair64_double sum ..
    also have "\<dots> = ((pair64 hi lo + (sint a mod 2) * pair64 bHi bLo)
        + take_bit n (sint a div 2) * (2 * pair64 bHi bLo)) mod 2 ^ 64"
      by (rule mod_linear [symmetric])
    also have "(pair64 hi lo + (sint a mod 2) * pair64 bHi bLo)
        + take_bit n (sint a div 2) * (2 * pair64 bHi bLo)
      = pair64 hi lo + take_bit (Suc n) (sint a) * pair64 bHi bLo"
      by (simp add: take_bit_Suc algebra_simps)
    finally show ?thesis .
  qed
qed

lemma pair64_range: "0 \<le> pair64 hi lo" "pair64 hi lo < 2 ^ 64"
  using uint_u32_bounds [of hi] uint_u32_bounds [of lo] by (simp_all add: pair64_def)

text \<open>The complement of the pair, with its carry, is the negation.\<close>

lemma uint_NOT: "uint (NOT x) = 2 ^ 32 - 1 - uint x" for x :: u32
proof -
  obtain k where k: "uint (- 1 - x + x) = uint (- 1 - x) + uint x - k * 2 ^ 32"
    using uint_plus_wrap by blast
  have "uint (- 1 :: u32) = 2 ^ 32 - 1"
    by (simp add: unsigned_minus_1_eq_mask mask_eq_exp_minus_1)
  then have "2 ^ 32 - 1 = uint (- 1 - x) + uint x - k * 2 ^ 32" using k by simp
  then have e: "4294967295 = uint (- 1 - x) + uint x - k * 4294967296" by simp
  note b = uint_u32_bounds [of x] uint_u32_bounds [of "- 1 - x"]
  have "k < 1" using e b by linarith
  moreover have "- 1 < k" using e b by linarith
  ultimately have "k = 0" by simp
  moreover have "NOT x = - 1 - x" by (simp add: not_eq_complement)
  ultimately show ?thesis using e by simp
qed

lemma pair64_negate:
  "pair64 (if NOT lo + 1 = 0 then NOT hi + 1 else NOT hi) (NOT lo + 1) mod 2 ^ 64
   = (- pair64 hi lo) mod 2 ^ 64"
proof -
  have c: "NOT lo + 1 < 1 \<longleftrightarrow> NOT lo + 1 = 0" by (simp add: word_less_nat_alt unat_eq_0)
  let ?c = "if NOT lo + 1 = 0 then 1 else (0 :: u32)"
  have l: "uint (NOT lo + 1) = uint (NOT lo) + 1 - uint ?c * 2 ^ 32"
    using uint_plus_carry [of "NOT lo" 1] unfolding c by (cases "NOT lo + 1 = 0") simp_all
  obtain k where k: "uint (NOT hi + ?c) = uint (NOT hi) + uint ?c - k * 2 ^ 32"
    using uint_plus_wrap by blast
  have "(if NOT lo + 1 = 0 then NOT hi + 1 else NOT hi) = NOT hi + ?c" by simp
  then have "pair64 (if NOT lo + 1 = 0 then NOT hi + 1 else NOT hi) (NOT lo + 1)
      = - pair64 hi lo + (1 - k) * 2 ^ 64"
    unfolding pair64_def by (simp only: l k uint_NOT) (simp add: algebra_simps)
  then show ?thesis by (simp only: mod_mult_self1)
qed

lemma pair64_cong: "pair64 h l mod 2 ^ 64 = x mod 2 ^ 64 \<Longrightarrow> pair64 h l = x mod 2 ^ 64"
  using pair64_range [of h l] by simp

lemma uint_abs:
  "uint (if sint x < 0 then - x else x) = \<bar>sint x\<bar>" for x :: u32
proof (cases "sint x < 0")
  case True
  have r: "- (2 ^ 31) \<le> sint x" using int32_sint [of x] by (simp add: int32_def)
  have "uint (- x) = (- sint x) mod 2 ^ 32"
  proof -
    have "uint (- x) = (- uint x) mod 2 ^ 32" by (simp add: uint_word_ariths)
    also have "uint x = sint x mod 2 ^ 32" using uint_sint [of x] by (simp add: take_bit_eq_mod)
    finally show ?thesis by (simp only: mod_minus_eq)
  qed
  also have "\<dots> = - sint x" using True r by (intro mod_pos_pos_trivial) simp_all
  finally show ?thesis using True by simp
next
  case False
  then show ?thesis using sint_nonneg_uint [of x] by simp
qed

text \<open>
  C10. The 32-step shift-and-add loop of \<open>Mult\<close>, with its early exit, its arithmetic shift
  of an unsigned operand and its negation of the result, computes the exact 64-bit
  product: of the signed operands for \<open>MULT\<close>, of the unsigned ones for \<open>MULTU\<close>.
\<close>
theorem mult_is_64bit_product:
  "(case Mult a b signedArith of (hi, lo) \<Rightarrow> pair64 hi lo)
   = (if signedArith then sint a * sint b else uint a * uint b) mod 2 ^ 64"
proof (cases "a = 0 \<or> b = 0")
  case True
  then show ?thesis by (auto simp: Mult_def pair64_def)
next
  case False
  define na where "na \<longleftrightarrow> signedArith \<and> sint a < 0"
  define nb where "nb \<longleftrightarrow> signedArith \<and> sint b < 0"
  define a' where "a' = (if na then - a else a)"
  define b' where "b' = (if nb then - b else b)"
  obtain h l where hl: "Mult_loop 32 a' b' 0 0 0 = (h, l)" by (cases "Mult_loop 32 a' b' 0 0 0")
  have "take_bit 32 (sint a') = uint a'" using uint_sint [of a'] by simp
  with Mult_loop_correct [OF hl] have p: "pair64 h l mod 2 ^ 64 = (uint a' * uint b') mod 2 ^ 64"
    by (simp add: pair64_def)
  have ab: "uint a' = (if signedArith then \<bar>sint a\<bar> else uint a)"
    "uint b' = (if signedArith then \<bar>sint b\<bar> else uint b)"
    using uint_abs [of a] uint_abs [of b] by (simp_all add: a'_def b'_def na_def nb_def)
  have M: "Mult a b signedArith = (if na \<noteq> nb
      then (if NOT l + 1 = 0 then NOT h + 1 else NOT h, NOT l + 1) else (h, l))"
    unfolding Mult_def Let_def na_def [symmetric] nb_def [symmetric]
    unfolding a'_def [symmetric] b'_def [symmetric] hl using False by simp
  have prod: "(if signedArith then sint a * sint b else uint a * uint b)
      = (if na \<noteq> nb then - (uint a' * uint b') else uint a' * uint b')"
    unfolding ab by (auto simp: na_def nb_def abs_if)
  show ?thesis
  proof (cases "na \<noteq> nb")
    case True
    have "pair64 (if NOT l + 1 = 0 then NOT h + 1 else NOT h) (NOT l + 1) mod 2 ^ 64
        = (- pair64 h l) mod 2 ^ 64" by (rule pair64_negate)
    also have "\<dots> = (- (uint a' * uint b')) mod 2 ^ 64" by (rule Euclidean_Rings.mod_minus_cong [OF p])
    finally show ?thesis
      unfolding prod M using True by (simp only: not_False_eq_True if_True prod.case) (rule pair64_cong)
  next
    case F: False
    show ?thesis
      unfolding prod M using F pair64_cong [OF p] by (simp only: if_False not_True_eq_False simp_thms prod.case)
  qed
qed

end
