(* ===== verification/Nachos_Mips.thy ===== *)
theory Nachos_Mips
  imports Nachos_Decode Nachos_MMU Nachos_Mult
begin

text \<open>
  The instruction interpreter, \<open>Machine::OneInstruction\<close> of \<open>machine/mipssim.cc\<close>.
  Its \<open>switch\<close> is split along its order into groups of cases; each group takes the
  rest of the switch as its last argument, and \<open>execute\<close> chains them. The result of
  the switch is \<open>Goes_on pcAfter nextLoadReg nextLoadValue m\<close> when control reaches
  the code after it, and \<open>Returned m\<close> for a \<open>return 0\<close> inside it, after an exception.

  Floating point arithmetic is that of the host: the record \<open>fpu\<close> stands for the
  operators of the C++ types \<open>float\<close> and \<open>double\<close> on their bit patterns.
\<close>

record fpu =
  f_abs :: "u32 \<Rightarrow> u32"
  f_neg :: "u32 \<Rightarrow> u32"
  f_sqrt :: "u32 \<Rightarrow> u32"
  f_add :: "u32 \<Rightarrow> u32 \<Rightarrow> u32"
  f_sub :: "u32 \<Rightarrow> u32 \<Rightarrow> u32"
  f_mul :: "u32 \<Rightarrow> u32 \<Rightarrow> u32"
  f_div :: "u32 \<Rightarrow> u32 \<Rightarrow> u32"
  f_eq :: "u32 \<Rightarrow> u32 \<Rightarrow> bool"
  f_lt :: "u32 \<Rightarrow> u32 \<Rightarrow> bool"
  f_le :: "u32 \<Rightarrow> u32 \<Rightarrow> bool"
  d_abs :: "64 word \<Rightarrow> 64 word"
  d_neg :: "64 word \<Rightarrow> 64 word"
  d_sqrt :: "64 word \<Rightarrow> 64 word"
  d_add :: "64 word \<Rightarrow> 64 word \<Rightarrow> 64 word"
  d_sub :: "64 word \<Rightarrow> 64 word \<Rightarrow> 64 word"
  d_mul :: "64 word \<Rightarrow> 64 word \<Rightarrow> 64 word"
  d_div :: "64 word \<Rightarrow> 64 word \<Rightarrow> 64 word"
  d_eq :: "64 word \<Rightarrow> 64 word \<Rightarrow> bool"
  d_lt :: "64 word \<Rightarrow> 64 word \<Rightarrow> bool"
  d_le :: "64 word \<Rightarrow> 64 word \<Rightarrow> bool"
  f_of_d :: "64 word \<Rightarrow> u32"
  d_of_f :: "u32 \<Rightarrow> 64 word"
  f_of_w :: "u32 \<Rightarrow> u32"
  w_of_f :: "u32 \<Rightarrow> u32"
  d_of_w :: "u32 \<Rightarrow> 64 word"
  w_of_d :: "64 word \<Rightarrow> u32"

datatype 'm step = Goes_on u32 nat u32 'm | Returned 'm

type_synonym 'a exec = "'a machine_scheme step option"

subsection \<open>Double precision registers\<close>

definition get_double :: "'a machine_scheme \<Rightarrow> nat \<Rightarrow> 64 word option" where
  "get_double m reg =
     (if reg + 1 < NUM_FP_REGS
      then do {
        x \<leftarrow> aget (float_registers m) (int reg);
        y \<leftarrow> aget (float_registers m) (int (reg + 1));
        let (vint0, vint1) = (if host_endianess m = IS_BIG_ENDIAN then (y, x) else (x, y));
        Some (word_cat vint1 vint0) }
      else None)"

definition set_double :: "nat \<Rightarrow> 64 word \<Rightarrow> 'a machine_scheme \<Rightarrow> 'a machine_scheme option" where
  "set_double reg val m =
     (if reg + 1 < NUM_FP_REGS
      then do {
        let vint0 = ucast val; let vint1 = ucast (drop_bit 32 val);
        let (x, y) = (if host_endianess m = IS_BIG_ENDIAN then (vint1, vint0) else (vint0, vint1));
        r \<leftarrow> aset (float_registers m) (int reg) x;
        r' \<leftarrow> aset r (int (reg + 1)) y;
        Some (m\<lparr>float_registers := r'\<rparr>) }
      else None)"

subsection \<open>The ends of a case\<close>

definition sign_set :: "u32 \<Rightarrow> bool" where
  "sign_set x \<longleftrightarrow> x AND SIGN_BIT \<noteq> 0"

definition step_to :: "u32 \<Rightarrow> 'a machine_scheme \<Rightarrow> 'a exec" where
  "step_to pcAfter m = Some (Goes_on pcAfter 0 0 m)"

definition step_load :: "u32 \<Rightarrow> nat \<Rightarrow> u32 \<Rightarrow> 'a machine_scheme \<Rightarrow> 'a exec" where
  "step_load pcAfter reg v m = Some (Goes_on pcAfter reg v m)"

definition step_raise ::
  "'a handler \<Rightarrow> ExceptionType \<Rightarrow> u32 \<Rightarrow> 'a machine_scheme \<Rightarrow> 'a exec" where
  "step_raise hnd exc va m = map_option Returned (RaiseException hnd exc va m)"

definition read_then ::
  "config \<Rightarrow> 'a handler \<Rightarrow> u32 \<Rightarrow> nat \<Rightarrow> 'a machine_scheme
   \<Rightarrow> (u32 \<Rightarrow> 'a machine_scheme \<Rightarrow> 'a exec) \<Rightarrow> 'a exec" where
  "read_then cfg hnd va sz m f = do {
     (r, m1) \<leftarrow> ReadMem cfg hnd va sz m;
     case r of None \<Rightarrow> Some (Returned m1) | Some v \<Rightarrow> f v m1 }"

definition write_then ::
  "config \<Rightarrow> 'a handler \<Rightarrow> u32 \<Rightarrow> nat \<Rightarrow> u32 \<Rightarrow> 'a machine_scheme
   \<Rightarrow> ('a machine_scheme \<Rightarrow> 'a exec) \<Rightarrow> 'a exec" where
  "write_then cfg hnd va sz v m f = do {
     (done, m1) \<leftarrow> WriteMem cfg hnd va sz v m;
     if done then f m1 else Some (Returned m1) }"

subsection \<open>The cases, in the order of the switch\<close>

definition exec_add :: "'a handler \<Rightarrow> Instruction \<Rightarrow> u32 \<Rightarrow> 'a machine_scheme \<Rightarrow> 'a exec \<Rightarrow> 'a exec" where
  "exec_add hnd i pcAfter m rest =
     (let op = opCode i; a = R m (rs i); b = R m (rt i) in
      if op = OP_ADD then
        (let sum = a + b in
         if \<not> sign_set (a XOR b) \<and> sign_set (a XOR sum) then step_raise hnd OVERFLOW_EXCEPTION 0 m
         else step_to pcAfter (setR (rd i) sum m))
      else if op = OP_ADDI then
        (let sum = a + extra i in
         if \<not> sign_set (a XOR extra i) \<and> sign_set (extra i XOR sum)
         then step_raise hnd OVERFLOW_EXCEPTION 0 m
         else step_to pcAfter (setR (rt i) sum m))
      else if op = OP_ADDIU then step_to pcAfter (setR (rt i) (a + extra i) m)
      else if op = OP_ADDU then step_to pcAfter (setR (rd i) (a + b) m)
      else if op = OP_AND then step_to pcAfter (setR (rd i) (a AND b) m)
      else if op = OP_ANDI then step_to pcAfter (setR (rt i) (a AND (extra i AND 0xffff)) m)
      else rest)"

text \<open>\<open>BGEZAL\<close> and \<open>BLTZAL\<close> fall through after they have written the return address.\<close>

definition exec_branch :: "Instruction \<Rightarrow> u32 \<Rightarrow> 'a machine_scheme \<Rightarrow> 'a exec \<Rightarrow> 'a exec" where
  "exec_branch i pcAfter m rest =
     (let op = opCode i; a = R m (rs i); b = R m (rt i);
          target = R m NEXTPC_REG + IndexToAddr (extra i);
          linked = setR R31 (R m NEXTPC_REG + 4) m in
      if op = OP_BEQ then step_to (if a = b then target else pcAfter) m
      else if op = OP_BGEZAL then
        step_to (if \<not> sign_set (R linked (rs i)) then target else pcAfter) linked
      else if op = OP_BGEZ then step_to (if \<not> sign_set a then target else pcAfter) m
      else if op = OP_BGTZ then step_to (if sint a > 0 then target else pcAfter) m
      else if op = OP_BLEZ then step_to (if sint a \<le> 0 then target else pcAfter) m
      else if op = OP_BLTZAL then
        step_to (if sign_set (R linked (rs i)) then target else pcAfter) linked
      else if op = OP_BLTZ then step_to (if sign_set a then target else pcAfter) m
      else if op = OP_BNE then step_to (if a \<noteq> b then target else pcAfter) m
      else rest)"

text \<open>The quotient of the smallest \<open>int\<close> by -1 does not fit and stops the host.\<close>

definition exec_div :: "Instruction \<Rightarrow> u32 \<Rightarrow> 'a machine_scheme \<Rightarrow> 'a exec \<Rightarrow> 'a exec" where
  "exec_div i pcAfter m rest =
     (let op = opCode i; a = R m (rs i); b = R m (rt i);
          hilo = (\<lambda>h l. step_to pcAfter (setR HI_REG h (setR LO_REG l m))) in
      if op = OP_DIV then
        (if b = 0 then hilo 0 0
         else if a = 0x80000000 \<and> b = - 1 then None
         else hilo (word_of_int (sint a smod sint b)) (word_of_int (sint a sdiv sint b)))
      else if op = OP_DIVU then
        (if b = 0 then hilo 0 0 else hilo (a mod b) (a div b))
      else rest)"

definition exec_jump :: "Instruction \<Rightarrow> u32 \<Rightarrow> 'a machine_scheme \<Rightarrow> 'a exec \<Rightarrow> 'a exec" where
  "exec_jump i pcAfter m rest =
     (let op = opCode i; link = R m NEXTPC_REG + 4;
          target = (pcAfter AND 0xf0000000) OR IndexToAddr (extra i) in
      if op = OP_JAL then step_to target (setR R31 link m)
      else if op = OP_J then step_to target m
      else if op = OP_JALR then
        (let m1 = setR (rd i) link m in step_to (R m1 (rs i)) m1)
      else if op = OP_JR then step_to (R m (rs i)) m
      else rest)"

definition exec_load ::
  "config \<Rightarrow> 'a handler \<Rightarrow> Instruction \<Rightarrow> u32 \<Rightarrow> 'a machine_scheme \<Rightarrow> 'a exec \<Rightarrow> 'a exec" where
  "exec_load cfg hnd i pcAfter m rest =
     (let op = opCode i; tmp = R m (rs i) + extra i in
      if op = OP_LB \<or> op = OP_LBU then
        read_then cfg hnd tmp 1 m (\<lambda>v m1.
          step_load pcAfter (rt i)
            (if v AND 0x80 \<noteq> 0 \<and> op = OP_LB then v OR 0xffffff00 else v AND 0xff) m1)
      else if op = OP_LH \<or> op = OP_LHU then
        (if tmp AND 0x1 \<noteq> 0 then step_raise hnd ADDRESSERROR_EXCEPTION tmp m
         else read_then cfg hnd tmp 2 m (\<lambda>v m1.
           step_load pcAfter (rt i)
             (if v AND 0x8000 \<noteq> 0 \<and> op = OP_LH then v OR 0xffff0000 else v AND 0xffff) m1))
      else if op = OP_LUI then step_to pcAfter (setR (rt i) (push_bit 16 (extra i)) m)
      else if op = OP_LW then
        (if tmp AND 0x3 \<noteq> 0 then step_raise hnd ADDRESSERROR_EXCEPTION tmp m
         else read_then cfg hnd tmp 4 m (\<lambda>v m1. step_load pcAfter (rt i) v m1))
      else rest)"

text \<open>
  The unaligned loads. They ask \<open>ReadMem\<close> for four bytes at the unaligned address
  itself. The register they merge into is the one a pending load is about to write.
\<close>

definition merge_old :: "Instruction \<Rightarrow> 'a machine_scheme \<Rightarrow> u32" where
  "merge_old i m = (if R m LOAD_REG = of_nat (rt i) then R m LOADVALUE_REG else R m (rt i))"

definition exec_lwl_lwr ::
  "config \<Rightarrow> 'a handler \<Rightarrow> Instruction \<Rightarrow> u32 \<Rightarrow> 'a machine_scheme \<Rightarrow> 'a exec \<Rightarrow> 'a exec" where
  "exec_lwl_lwr cfg hnd i pcAfter m rest =
     (let op = opCode i; tmp = R m (rs i) + extra i; k = tmp AND 0x3 in
      if op = OP_LWL then
        read_then cfg hnd tmp 4 m (\<lambda>v m1.
          let old = merge_old i m1 in
          step_load pcAfter (rt i)
            (if k = 0 then v
             else if k = 1 then (old AND 0xff) OR push_bit 8 v
             else if k = 2 then (old AND 0xffff) OR push_bit 16 v
             else (old AND 0xffffff) OR push_bit 24 v) m1)
      else if op = OP_LWR then
        read_then cfg hnd tmp 4 m (\<lambda>v m1.
          let old = merge_old i m1 in
          step_load pcAfter (rt i)
            (if k = 0 then (old AND 0xffffff00) OR (signed_drop_bit 24 v AND 0xff)
             else if k = 1 then (old AND 0xffff0000) OR (signed_drop_bit 16 v AND 0xffff)
             else if k = 2 then (old AND 0xff000000) OR (signed_drop_bit 8 v AND 0xffffff)
             else v) m1)
      else rest)"

definition exec_move :: "Instruction \<Rightarrow> u32 \<Rightarrow> 'a machine_scheme \<Rightarrow> 'a exec \<Rightarrow> 'a exec" where
  "exec_move i pcAfter m rest =
     (let op = opCode i; a = R m (rs i); b = R m (rt i);
          mult = (\<lambda>s. let (h, l) = Mult a b s in step_to pcAfter (setR LO_REG l (setR HI_REG h m))) in
      if op = OP_MFHI then step_to pcAfter (setR (rd i) (R m HI_REG) m)
      else if op = OP_MFLO then step_to pcAfter (setR (rd i) (R m LO_REG) m)
      else if op = OP_MTHI then step_to pcAfter (setR HI_REG a m)
      else if op = OP_MTLO then step_to pcAfter (setR LO_REG a m)
      else if op = OP_MULT then mult True
      else if op = OP_MULTU then mult False
      else if op = OP_NOR then step_to pcAfter (setR (rd i) (NOT (a OR b)) m)
      else if op = OP_OR then step_to pcAfter (setR (rd i) (a OR a) m)
      else if op = OP_ORI then step_to pcAfter (setR (rt i) (a OR (extra i AND 0xffff)) m)
      else rest)"

definition exec_store_shift ::
  "config \<Rightarrow> 'a handler \<Rightarrow> Instruction \<Rightarrow> u32 \<Rightarrow> 'a machine_scheme \<Rightarrow> 'a exec \<Rightarrow> 'a exec" where
  "exec_store_shift cfg hnd i pcAfter m rest =
     (let op = opCode i; a = R m (rs i); b = R m (rt i) in
      if op = OP_SB then write_then cfg hnd (a + extra i) 1 b m (step_to pcAfter)
      else if op = OP_SH then write_then cfg hnd (a + extra i) 2 b m (step_to pcAfter)
      else if op = OP_SLL then step_to pcAfter (setR (rd i) (push_bit (unat (extra i)) b) m)
      else if op = OP_SLLV then step_to pcAfter (setR (rd i) (push_bit (unat (a AND 0x1f)) b) m)
      else rest)"

text \<open>The right shifts all act on an \<open>int\<close>: \<open>SRL\<close> and \<open>SRLV\<close> too are arithmetic.\<close>

definition exec_set_shift :: "Instruction \<Rightarrow> u32 \<Rightarrow> 'a machine_scheme \<Rightarrow> 'a exec \<Rightarrow> 'a exec" where
  "exec_set_shift i pcAfter m rest =
     (let op = opCode i; a = R m (rs i); b = R m (rt i) in
      if op = OP_SLT then step_to pcAfter (setR (rd i) (if sint a < sint b then 1 else 0) m)
      else if op = OP_SLTI then
        step_to pcAfter (setR (rt i) (if sint a < sint (extra i) then 1 else 0) m)
      else if op = OP_SLTIU then step_to pcAfter (setR (rt i) (if a < extra i then 1 else 0) m)
      else if op = OP_SLTU then step_to pcAfter (setR (rd i) (if a < b then 1 else 0) m)
      else if op = OP_SRA then
        step_to pcAfter (setR (rd i) (signed_drop_bit (unat (extra i)) b) m)
      else if op = OP_SRAV then
        step_to pcAfter (setR (rd i) (signed_drop_bit (unat (a AND 0x1f)) b) m)
      else if op = OP_SRL then
        step_to pcAfter (setR (rd i) (signed_drop_bit (unat (extra i)) b) m)
      else if op = OP_SRLV then
        step_to pcAfter (setR (rd i) (signed_drop_bit (unat (a AND 0x1f)) b) m)
      else rest)"

definition exec_sub_store ::
  "config \<Rightarrow> 'a handler \<Rightarrow> Instruction \<Rightarrow> u32 \<Rightarrow> 'a machine_scheme \<Rightarrow> 'a exec \<Rightarrow> 'a exec" where
  "exec_sub_store cfg hnd i pcAfter m rest =
     (let op = opCode i; a = R m (rs i); b = R m (rt i);
          tmp = a + extra i; k = tmp AND 0x3; word = tmp AND NOT 0x3 in
      if op = OP_SUB then
        (let diff = a - b in
         if sign_set (a XOR b) \<and> sign_set (a XOR diff) then step_raise hnd OVERFLOW_EXCEPTION 0 m
         else step_to pcAfter (setR (rd i) diff m))
      else if op = OP_SUBU then step_to pcAfter (setR (rd i) (a - b) m)
      else if op = OP_SW then write_then cfg hnd tmp 4 b m (step_to pcAfter)
      else if op = OP_SWL then
        read_then cfg hnd word 4 m (\<lambda>v m1.
          let b = R m1 (rt i) in
          write_then cfg hnd word 4
            (if k = 0 then b
             else if k = 1 then (v AND 0xff000000) OR (signed_drop_bit 8 b AND 0xffffff)
             else if k = 2 then (v AND 0xffff0000) OR (signed_drop_bit 16 b AND 0xffff)
             else (v AND 0xffffff00) OR (signed_drop_bit 24 b AND 0xff)) m1 (step_to pcAfter))
      else if op = OP_SWR then
        read_then cfg hnd word 4 m (\<lambda>v m1.
          let b = R m1 (rt i) in
          write_then cfg hnd word 4
            (if k = 0 then (v AND 0xffffff) OR push_bit 24 b
             else if k = 1 then (v AND 0xffff) OR push_bit 16 b
             else if k = 2 then (v AND 0xff) OR push_bit 8 b
             else b) m1 (step_to pcAfter))
      else if op = OP_SYSCALL then step_raise hnd SYSCALL_EXCEPTION 0 m
      else if op = OP_XOR then step_to pcAfter (setR (rd i) (a XOR b) m)
      else if op = OP_XORI then step_to pcAfter (setR (rt i) (a XOR (extra i AND 0xffff)) m)
      else rest)"

subsection \<open>Floating point cases\<close>

text \<open>
  An index \<open>ft\<close>, \<open>fs\<close> or \<open>fd\<close> is below 32; the code also uses the next one, which
  may be outside the array (\<open>None\<close>).
\<close>

definition F :: "'a machine_scheme \<Rightarrow> nat \<Rightarrow> u32" where
  "F m i = float_registers m ! i"

definition setF :: "nat \<Rightarrow> u32 \<Rightarrow> 'a machine_scheme \<Rightarrow> 'a machine_scheme" where
  "setF i v m = m\<lparr>float_registers := (float_registers m)[i := v]\<rparr>"

definition set_next :: "nat \<Rightarrow> u32 \<Rightarrow> 'a machine_scheme \<Rightarrow> 'a machine_scheme option" where
  "set_next i v m = do {
     r \<leftarrow> aset (float_registers m) (int (i + 1)) v; Some (m\<lparr>float_registers := r\<rparr>) }"

definition get_next :: "'a machine_scheme \<Rightarrow> nat \<Rightarrow> u32 option" where
  "get_next m i = aget (float_registers m) (int (i + 1))"

definition exec_fp_move ::
  "config \<Rightarrow> 'a handler \<Rightarrow> Instruction \<Rightarrow> u32 \<Rightarrow> 'a machine_scheme \<Rightarrow> 'a exec \<Rightarrow> 'a exec" where
  "exec_fp_move cfg hnd i pcAfter m rest =
     (let op = opCode i; tmp = R m (rs i) + extra i in
      if op = OP_LWC1 then
        (if tmp AND 0x3 \<noteq> 0 then step_raise hnd ADDRESSERROR_EXCEPTION tmp m
         else read_then cfg hnd tmp 4 m (\<lambda>v m1. step_to pcAfter (setF (ft i) v m1)))
      else if op = OP_LDC1 then
        (if tmp AND 0x7 \<noteq> 0 then step_raise hnd ADDRESSERROR_EXCEPTION tmp m
         else read_then cfg hnd tmp 4 m (\<lambda>v m1.
           read_then cfg hnd (tmp + 4) 4 (setF (ft i) v m1) (\<lambda>v' m2. do {
             m3 \<leftarrow> set_next (ft i) v' m2; step_to pcAfter m3 })))
      else if op = OP_SWC1 then write_then cfg hnd tmp 4 (F m (ft i)) m (step_to pcAfter)
      else if op = OP_SDC1 then
        write_then cfg hnd tmp 4 (F m (ft i)) m (\<lambda>m1. do {
          v \<leftarrow> get_next m1 (ft i);
          write_then cfg hnd (R m1 (rs i) + extra i + 4) 4 v m1 (step_to pcAfter) })
      else if op = OP_MOV_S then step_to pcAfter (setF (fd i) (F m (fs i)) m)
      else if op = OP_MOV_D then do {
        let m1 = setF (fd i) (F m (fs i)) m;
        v \<leftarrow> get_next m1 (fs i);
        m2 \<leftarrow> set_next (fd i) v m1;
        step_to pcAfter m2 }
      else if op = OP_MFC1 then step_to pcAfter (setR (rt i) (F m (fs i)) m)
      else if op = OP_CFC1 then step_to pcAfter (setR (rt i) (F m (fs i)) m)
      else if op = OP_MTC1 then step_to pcAfter (setF (fs i) (R m (rt i)) m)
      else if op = OP_CTC1 then step_to pcAfter (setF (fs i) (R m (rt i)) m)
      else rest)"

text \<open>The shapes of a double precision operation with one and two operands.\<close>

definition double1 ::
  "(64 word \<Rightarrow> 64 word) \<Rightarrow> Instruction \<Rightarrow> u32 \<Rightarrow> 'a machine_scheme \<Rightarrow> 'a exec" where
  "double1 f i pcAfter m = do {
     d1 \<leftarrow> get_double m (fs i); m1 \<leftarrow> set_double (fd i) (f d1) m; step_to pcAfter m1 }"

definition double2 ::
  "(64 word \<Rightarrow> 64 word \<Rightarrow> 64 word) \<Rightarrow> Instruction \<Rightarrow> u32 \<Rightarrow> 'a machine_scheme \<Rightarrow> 'a exec" where
  "double2 f i pcAfter m = do {
     d1 \<leftarrow> get_double m (fs i); d2 \<leftarrow> get_double m (ft i);
     m1 \<leftarrow> set_double (fd i) (f d1 d2) m; step_to pcAfter m1 }"

definition exec_fp_arith ::
  "fpu \<Rightarrow> 'a handler \<Rightarrow> Instruction \<Rightarrow> u32 \<Rightarrow> 'a machine_scheme \<Rightarrow> 'a exec \<Rightarrow> 'a exec" where
  "exec_fp_arith h hnd i pcAfter m rest =
     (let op = opCode i; f1 = F m (fs i); f2 = F m (ft i);
          single = (\<lambda>v. step_to pcAfter (setF (fd i) v m)) in
      if op = OP_ABS_S then single (f_abs h f1)
      else if op = OP_ABS_D then double1 (d_abs h) i pcAfter m
      else if op = OP_ADD_S then single (f_add h f1 f2)
      else if op = OP_ADD_D then double2 (d_add h) i pcAfter m
      else if op = OP_DIV_S then single (f_div h f1 f2)
      else if op = OP_DIV_D then double2 (d_div h) i pcAfter m
      else if op = OP_MUL_S then single (f_mul h f1 f2)
      else if op = OP_MUL_D then double2 (d_mul h) i pcAfter m
      else if op = OP_NEG_S then single (f_neg h f1)
      else if op = OP_NEG_D then double1 (d_neg h) i pcAfter m
      else if op = OP_SUB_S then single (f_sub h f1 f2)
      else if op = OP_SUB_D then double2 (d_sub h) i pcAfter m
      else if op = OP_SQRT_S then
        (if f_lt h f1 0 then step_raise hnd OVERFLOW_EXCEPTION 0 m else single (f_sqrt h f1))
      else if op = OP_SQRT_D then do {
        d1 \<leftarrow> get_double m (fs i);
        if d_lt h d1 0 then step_raise hnd OVERFLOW_EXCEPTION 0 m
        else do { m1 \<leftarrow> set_double (fd i) (d_sqrt h d1) m; step_to pcAfter m1 } }
      else rest)"

definition exec_fp_convert ::
  "fpu \<Rightarrow> Instruction \<Rightarrow> u32 \<Rightarrow> 'a machine_scheme \<Rightarrow> 'a exec \<Rightarrow> 'a exec" where
  "exec_fp_convert h i pcAfter m rest =
     (let op = opCode i; f1 = F m (fs i);
          single = (\<lambda>v. step_to pcAfter (setF (fd i) v m));
          double = (\<lambda>v. do { m1 \<leftarrow> set_double (fd i) v m; step_to pcAfter m1 }) in
      if op = OP_CVT_S_D then do { d1 \<leftarrow> get_double m (fs i); single (f_of_d h d1) }
      else if op = OP_CVT_D_S then double (d_of_f h f1)
      else if op = OP_CVT_S_W then single (f_of_w h f1)
      else if op = OP_CVT_W_S then single (w_of_f h f1)
      else if op = OP_CVT_D_W then double (d_of_w h f1)
      else if op = OP_CVT_W_D then do { d1 \<leftarrow> get_double m (fs i); single (w_of_d h d1) }
      else rest)"

definition double_compare ::
  "(64 word \<Rightarrow> 64 word \<Rightarrow> bool) \<Rightarrow> Instruction \<Rightarrow> u32 \<Rightarrow> 'a machine_scheme \<Rightarrow> 'a exec" where
  "double_compare p i pcAfter m = do {
     d1 \<leftarrow> get_double m (fs i); d2 \<leftarrow> get_double m (ft i);
     step_to pcAfter (m\<lparr>cc := (if p d1 d2 then 1 else 0)\<rparr>) }"

definition exec_fp_compare ::
  "fpu \<Rightarrow> Instruction \<Rightarrow> u32 \<Rightarrow> 'a machine_scheme \<Rightarrow> 'a exec \<Rightarrow> 'a exec" where
  "exec_fp_compare h i pcAfter m rest =
     (let op = opCode i; f1 = F m (fs i); f2 = F m (ft i);
          target = R m NEXTPC_REG + IndexToAddr (extra i);
          compare = (\<lambda>p. step_to pcAfter (m\<lparr>cc := (if p f1 f2 then 1 else 0)\<rparr>)) in
      if op \<in> {OP_C_SF_S, OP_C_F_S, OP_C_F_D, OP_C_SF_D} then step_to pcAfter (m\<lparr>cc := 0\<rparr>)
      else if op \<in> {OP_C_EQ_S, OP_C_UEQ_S, OP_C_SEQ_S, OP_C_NGL_S} then compare (f_eq h)
      else if op \<in> {OP_C_OLT_S, OP_C_ULT_S, OP_C_LT_S, OP_C_NGE_S} then compare (f_lt h)
      else if op \<in> {OP_C_OLE_S, OP_C_ULE_S, OP_C_LE_S, OP_C_NGT_S} then compare (f_le h)
      else if op \<in> {OP_C_EQ_D, OP_C_UEQ_D, OP_C_SEQ_D, OP_C_NGL_D}
        then double_compare (d_eq h) i pcAfter m
      else if op \<in> {OP_C_OLT_D, OP_C_ULT_D, OP_C_LT_D, OP_C_NGE_D}
        then double_compare (d_lt h) i pcAfter m
      else if op \<in> {OP_C_OLE_D, OP_C_ULE_D, OP_C_LE_D, OP_C_NGT_D}
        then double_compare (d_le h) i pcAfter m
      else if op = OP_BC1F then step_to (if cc m = 0 then target else pcAfter) m
      else if op = OP_BC1T then step_to (if cc m = 1 then target else pcAfter) m
      else rest)"

text \<open>Unimplemented and reserved operations; any other code is the \<open>ASSERT(false)\<close>.\<close>

definition exec_reserved :: "'a handler \<Rightarrow> Instruction \<Rightarrow> 'a machine_scheme \<Rightarrow> 'a exec" where
  "exec_reserved hnd i m =
     (if opCode i \<in> {OP_C_UN_S, OP_C_UN_D, OP_C_NGLE_S, OP_C_NGLE_D, OP_BC1FL, OP_BC1TL,
          OP_CEIL_W_S, OP_CEIL_W_D, OP_FLOOR_W_S, OP_FLOOR_W_D, OP_ROUND_W_S, OP_ROUND_W_D,
          OP_TRUNC_W_S, OP_TRUNC_W_D, OP_UNIMP, OP_RES}
      then step_raise hnd ILLEGALINSTR_EXCEPTION (R m PC_REG) m
      else None)"

definition execute ::
  "config \<Rightarrow> fpu \<Rightarrow> 'a handler \<Rightarrow> Instruction \<Rightarrow> u32 \<Rightarrow> 'a machine_scheme \<Rightarrow> 'a exec" where
  "execute cfg h hnd i pcAfter m =
     exec_add hnd i pcAfter m
    (exec_branch i pcAfter m
    (exec_div i pcAfter m
    (exec_jump i pcAfter m
    (exec_load cfg hnd i pcAfter m
    (exec_lwl_lwr cfg hnd i pcAfter m
    (exec_move i pcAfter m
    (exec_store_shift cfg hnd i pcAfter m
    (exec_set_shift i pcAfter m
    (exec_sub_store cfg hnd i pcAfter m
    (exec_fp_move cfg hnd i pcAfter m
    (exec_fp_arith h hnd i pcAfter m
    (exec_fp_convert h i pcAfter m
    (exec_fp_compare h i pcAfter m
    (exec_reserved hnd i m))))))))))))))"

text \<open>
  The code after the switch: the delayed load, and the program counters, which advance
  through \<open>NEXTPC_REG\<close> so that the instruction after a branch is executed.
\<close>

definition finish ::
  "u32 \<Rightarrow> nat \<Rightarrow> u32 \<Rightarrow> 'a machine_scheme \<Rightarrow> 'a machine_scheme option" where
  "finish pcAfter nextLoadReg nextLoadValue m = do {
     m1 \<leftarrow> DelayedLoad nextLoadReg nextLoadValue m;
     let m2 = setR PREVPC_REG (R m1 PC_REG) m1;
     let m3 = setR PC_REG (R m2 NEXTPC_REG) m2;
     Some (setR NEXTPC_REG pcAfter m3) }"

text \<open>The result is the execution time, 0 after an exception, and the machine.\<close>

definition OneInstruction ::
  "config \<Rightarrow> fpu \<Rightarrow> 'a handler \<Rightarrow> 'a machine_scheme \<Rightarrow> (nat \<times> 'a machine_scheme) option" where
  "OneInstruction cfg h hnd m = do {
     (fetched, m1) \<leftarrow> ReadMem cfg hnd (R m PC_REG) 4 m;
     case fetched of
       None \<Rightarrow> Some (0, m1)
     | Some raw \<Rightarrow>
         (let m2 = stat_NumInstruction m1; i = Decode raw in do {
            s \<leftarrow> execute cfg h hnd i (R m2 NEXTPC_REG + 4) m2;
            case s of
              Returned m3 \<Rightarrow> Some (0, m3)
            | Goes_on pcAfter reg v m3 \<Rightarrow> do {
                m4 \<leftarrow> finish pcAfter reg v m3; Some (USER_TICK, m4) } }) }"

text \<open>
  One turn of the endless loop of \<open>Machine::Run\<close>, without the debugger. \<open>tick\<close> is
  \<open>Interrupt::OneTick\<close>. \<open>Run\<close> itself gives the loop as many turns as its argument.
\<close>

definition Run_turn ::
  "config \<Rightarrow> fpu \<Rightarrow> 'a handler \<Rightarrow> (nat \<Rightarrow> 'a machine_scheme \<Rightarrow> 'a machine_scheme option)
   \<Rightarrow> 'a machine_scheme \<Rightarrow> 'a machine_scheme option" where
  "Run_turn cfg h hnd tick m = do {
     (tps, m1) \<leftarrow> OneInstruction cfg h hnd m;
     tick tps (m1\<lparr>status := USER_MODE\<rparr>) }"

fun Run_turns ::
  "config \<Rightarrow> fpu \<Rightarrow> 'a handler \<Rightarrow> (nat \<Rightarrow> 'a machine_scheme \<Rightarrow> 'a machine_scheme option)
   \<Rightarrow> nat \<Rightarrow> 'a machine_scheme \<Rightarrow> 'a machine_scheme option" where
  "Run_turns cfg h hnd tick 0 m = Some m"
| "Run_turns cfg h hnd tick (Suc n) m = do {
     m1 \<leftarrow> Run_turn cfg h hnd tick m; Run_turns cfg h hnd tick n m1 }"

definition Run ::
  "config \<Rightarrow> fpu \<Rightarrow> 'a handler \<Rightarrow> (nat \<Rightarrow> 'a machine_scheme \<Rightarrow> 'a machine_scheme option)
   \<Rightarrow> nat \<Rightarrow> 'a machine_scheme \<Rightarrow> 'a machine_scheme option" where
  "Run cfg h hnd tick n m = Run_turns cfg h hnd tick n (m\<lparr>status := USER_MODE\<rparr>)"

end
