(* ===== verification/Nachos_MipsProps.thy ===== *)
theory Nachos_MipsProps
  imports Nachos_Mips
begin

text \<open>
  Properties of the instruction interpreter: the invariant of the processor through
  every case of the switch, overflow detection, delay slots, and the places where the
  interpreter is not a MIPS.
\<close>

subsection \<open>The invariant of the processor\<close>

text \<open>
  Well-formed, and register 0 is null. A kernel keeps it when its exception handler does.
\<close>

definition cpu_inv :: "'a machine_scheme \<Rightarrow> bool" where
  "cpu_inv m \<longleftrightarrow> wf_cpu m \<and> R m 0 = 0"

definition handler_ok :: "'a handler \<Rightarrow> bool" where
  "handler_ok hnd \<longleftrightarrow> (\<forall>exc va m m'. cpu_inv m \<and> hnd exc va m = Some m' \<longrightarrow> cpu_inv m')"

lemma cpu_inv_upd [simp]:
  "cpu_inv (m\<lparr>cc := c\<rparr>) = cpu_inv m"
  "cpu_inv (m\<lparr>mainMemory := mem\<rparr>) = cpu_inv m"
  "cpu_inv (m\<lparr>status := st\<rparr>) = cpu_inv m"
  "cpu_inv (m\<lparr>tables := tb\<rparr>) = cpu_inv m"
  "cpu_inv (m\<lparr>mmu_table := mt\<rparr>) = cpu_inv m"
  "cpu_inv (m\<lparr>process_stat := ps\<rparr>) = cpu_inv m"
  "cpu_inv (m\<lparr>g_stats := gs\<rparr>) = cpu_inv m"
  "cpu_inv (stat_MemoryAccess m) = cpu_inv m"
  "cpu_inv (stat_PageFault m) = cpu_inv m"
  "cpu_inv (stat_NumInstruction m) = cpu_inv m"
  by (simp_all add: cpu_inv_def stat_PageFault_def stat_NumInstruction_def)

lemma handler_okD: "hnd exc va m = Some m' \<Longrightarrow> handler_ok hnd \<Longrightarrow> cpu_inv m \<Longrightarrow> cpu_inv m'"
  unfolding handler_ok_def by blast

lemma RaiseException_inv:
  assumes "RaiseException hnd exc va m = Some m'" "handler_ok hnd" "wf_cpu m"
  shows "cpu_inv m'"
proof -
  obtain m1 where m1: "DelayedLoad 0 0 (setR BADVADDR_REG va m) = Some m1" "wf_cpu m1" "R m1 0 = 0"
    using DelayedLoad_correct [of "setR BADVADDR_REG va m" 0 0] assms(3) by auto
  then have "cpu_inv m1" by (simp add: cpu_inv_def)
  then show ?thesis
    using assms(1,2) m1(1)
    by (auto simp: RaiseException_def split: if_splits bind_splits dest: handler_okD)
qed

lemma cpu_inv_wf: "cpu_inv m \<Longrightarrow> wf_cpu m"
  by (simp add: cpu_inv_def)

lemma mmu_set_inv: "mmu_set f vpn m = Some m' \<Longrightarrow> cpu_inv m' = cpu_inv m"
  by (auto simp: mmu_set_def split: bind_splits)

lemma Translate_fault_inv:
  "Translate_fault hnd va vpn m = Some m' \<Longrightarrow> handler_ok hnd \<Longrightarrow> cpu_inv m \<Longrightarrow> cpu_inv m'"
  by (auto simp: Translate_fault_def cpu_inv_wf split: bind_splits if_splits
      dest!: RaiseException_inv)

lemma Translate_inv:
  "Translate cfg hnd va sz w m = Some (exc, pa, m') \<Longrightarrow> handler_ok hnd \<Longrightarrow> cpu_inv m \<Longrightarrow> cpu_inv m'"
  by (auto simp: Translate_def Let_def mmu_set_inv split: bind_splits if_splits
      dest!: Translate_fault_inv)

lemma Translate_twice_inv:
  "Translate_twice cfg hnd va sz w m = Some (exc, pa, m') \<Longrightarrow> handler_ok hnd \<Longrightarrow> cpu_inv m
   \<Longrightarrow> cpu_inv m'"
  by (auto simp: Translate_twice_def split: bind_splits if_splits prod.splits dest!: Translate_inv)

lemma ReadMem_inv:
  "ReadMem cfg hnd va sz m = Some (r, m') \<Longrightarrow> handler_ok hnd \<Longrightarrow> cpu_inv m \<Longrightarrow> cpu_inv m'"
  by (auto simp: ReadMem_def split: bind_splits if_splits
      dest!: Translate_twice_inv RaiseException_inv intro: cpu_inv_wf)

lemma WriteMem_inv:
  "WriteMem cfg hnd va sz v m = Some (r, m') \<Longrightarrow> handler_ok hnd \<Longrightarrow> cpu_inv m \<Longrightarrow> cpu_inv m'"
  by (auto simp: WriteMem_def split: bind_splits if_splits
      dest!: Translate_twice_inv RaiseException_inv intro: cpu_inv_wf)

subsection \<open>Every case keeps the processor well-formed\<close>

definition step_ok :: "'a exec \<Rightarrow> bool" where
  "step_ok s = (case s of None \<Rightarrow> True | Some (Returned m) \<Rightarrow> cpu_inv m
     | Some (Goes_on pc reg v m) \<Rightarrow> wf_cpu m \<and> reg < 32)"

definition instr_ok :: "Instruction \<Rightarrow> bool" where
  "instr_ok i \<longleftrightarrow> rs i < 32 \<and> rt i < 32 \<and> rd i < 32 \<and> fs i < 32 \<and> ft i < 32 \<and> fd i < 32"

lemma step_ok_None [simp]: "step_ok None"
  by (simp add: step_ok_def)

lemma step_to_ok [intro!]: "wf_cpu m \<Longrightarrow> step_ok (step_to pc m)"
  by (simp add: step_ok_def step_to_def)

lemma step_load_ok [intro!]: "wf_cpu m \<Longrightarrow> r < 32 \<Longrightarrow> step_ok (step_load pc r v m)"
  by (simp add: step_ok_def step_load_def)

lemma step_raise_ok [intro!]: "handler_ok hnd \<Longrightarrow> wf_cpu m \<Longrightarrow> step_ok (step_raise hnd exc va m)"
  by (auto simp: step_ok_def step_raise_def split: option.splits dest: RaiseException_inv)

lemma read_then_ok [intro!]:
  "handler_ok hnd \<Longrightarrow> cpu_inv m \<Longrightarrow> (\<And>v m'. cpu_inv m' \<Longrightarrow> step_ok (f v m')) \<Longrightarrow>
   step_ok (read_then cfg hnd va sz m f)"
  by (auto simp: read_then_def step_ok_def [of "Some (Returned _)"] split: bind_splits option.splits
      dest!: ReadMem_inv)

lemma write_then_ok [intro!]:
  "handler_ok hnd \<Longrightarrow> cpu_inv m \<Longrightarrow> (\<And>m'. cpu_inv m' \<Longrightarrow> step_ok (f m')) \<Longrightarrow>
   step_ok (write_then cfg hnd va sz v m f)"
  by (auto simp: write_then_def step_ok_def [of "Some (Returned _)"] split: bind_splits
      dest!: WriteMem_inv)

lemma wf_cpu_floats [simp]:
  "wf_cpu (setF i v m) = wf_cpu m" "cpu_inv (setF i v m) = cpu_inv m"
  by (simp_all add: setF_def cpu_inv_def)

lemma set_next_inv: "set_next i v m = Some m' \<Longrightarrow> cpu_inv m' = cpu_inv m \<and> wf_cpu m' = wf_cpu m"
  by (auto simp: set_next_def cpu_inv_def dest: aset_length split: bind_splits)

lemma set_double_wf: "set_double i v m = Some m' \<Longrightarrow> wf_cpu m \<Longrightarrow> wf_cpu m'"
  by (auto simp: set_double_def Let_def dest!: aset_length split: bind_splits if_splits prod.splits)

lemma double_ok:
  "wf_cpu m \<Longrightarrow> step_ok (double1 f i pc m)"
  "wf_cpu m \<Longrightarrow> step_ok (double2 g i pc m)"
  "wf_cpu m \<Longrightarrow> step_ok (double_compare p i pc m)"
  by (auto simp: double1_def double2_def double_compare_def split: bind_splits dest: set_double_wf)

lemma bind_step_ok: "(\<And>x. o' = Some x \<Longrightarrow> step_ok (f x)) \<Longrightarrow> step_ok (Option.bind o' f)"
  by (cases o') simp_all

lemmas case_simps = cpu_inv_wf instr_ok_def Let_def split_beta

lemma exec_add_ok:
  "handler_ok hnd \<Longrightarrow> instr_ok i \<Longrightarrow> cpu_inv m \<Longrightarrow> step_ok rest \<Longrightarrow> step_ok (exec_add hnd i pc m rest)"
  unfolding exec_add_def by (auto simp: case_simps intro!: bind_step_ok double_ok dest: set_next_inv set_double_wf)

lemma exec_branch_ok:
  "handler_ok hnd \<Longrightarrow> instr_ok i \<Longrightarrow> cpu_inv m \<Longrightarrow> step_ok rest \<Longrightarrow> step_ok (exec_branch i pc m rest)"
  unfolding exec_branch_def by (auto simp: case_simps intro!: bind_step_ok double_ok dest: set_next_inv set_double_wf)

lemma exec_div_ok:
  "handler_ok hnd \<Longrightarrow> instr_ok i \<Longrightarrow> cpu_inv m \<Longrightarrow> step_ok rest \<Longrightarrow> step_ok (exec_div i pc m rest)"
  unfolding exec_div_def by (auto simp: case_simps intro!: bind_step_ok double_ok dest: set_next_inv set_double_wf)

lemma exec_jump_ok:
  "handler_ok hnd \<Longrightarrow> instr_ok i \<Longrightarrow> cpu_inv m \<Longrightarrow> step_ok rest \<Longrightarrow> step_ok (exec_jump i pc m rest)"
  unfolding exec_jump_def by (auto simp: case_simps intro!: bind_step_ok double_ok dest: set_next_inv set_double_wf)

lemma exec_load_ok:
  "handler_ok hnd \<Longrightarrow> instr_ok i \<Longrightarrow> cpu_inv m \<Longrightarrow> step_ok rest \<Longrightarrow> step_ok (exec_load cfg hnd i pc m rest)"
  unfolding exec_load_def by (auto simp: case_simps intro!: bind_step_ok double_ok dest: set_next_inv set_double_wf)

lemma exec_lwl_lwr_ok:
  "handler_ok hnd \<Longrightarrow> instr_ok i \<Longrightarrow> cpu_inv m \<Longrightarrow> step_ok rest \<Longrightarrow> step_ok (exec_lwl_lwr cfg hnd i pc m rest)"
  unfolding exec_lwl_lwr_def by (auto simp: case_simps intro!: bind_step_ok double_ok dest: set_next_inv set_double_wf)

lemma exec_move_ok:
  "handler_ok hnd \<Longrightarrow> instr_ok i \<Longrightarrow> cpu_inv m \<Longrightarrow> step_ok rest \<Longrightarrow> step_ok (exec_move i pc m rest)"
  unfolding exec_move_def by (auto simp: case_simps intro!: bind_step_ok double_ok dest: set_next_inv set_double_wf)

lemma exec_store_shift_ok:
  "handler_ok hnd \<Longrightarrow> instr_ok i \<Longrightarrow> cpu_inv m \<Longrightarrow> step_ok rest \<Longrightarrow> step_ok (exec_store_shift cfg hnd i pc m rest)"
  unfolding exec_store_shift_def by (auto simp: case_simps intro!: bind_step_ok double_ok dest: set_next_inv set_double_wf)

lemma exec_set_shift_ok:
  "handler_ok hnd \<Longrightarrow> instr_ok i \<Longrightarrow> cpu_inv m \<Longrightarrow> step_ok rest \<Longrightarrow> step_ok (exec_set_shift i pc m rest)"
  unfolding exec_set_shift_def by (auto simp: case_simps intro!: bind_step_ok double_ok dest: set_next_inv set_double_wf)

lemma exec_sub_store_ok:
  "handler_ok hnd \<Longrightarrow> instr_ok i \<Longrightarrow> cpu_inv m \<Longrightarrow> step_ok rest \<Longrightarrow> step_ok (exec_sub_store cfg hnd i pc m rest)"
  unfolding exec_sub_store_def by (auto simp: case_simps intro!: bind_step_ok double_ok dest: set_next_inv set_double_wf)

lemma exec_fp_move_ok:
  "handler_ok hnd \<Longrightarrow> instr_ok i \<Longrightarrow> cpu_inv m \<Longrightarrow> step_ok rest \<Longrightarrow> step_ok (exec_fp_move cfg hnd i pc m rest)"
  unfolding exec_fp_move_def by (auto simp: case_simps intro!: bind_step_ok double_ok dest: set_next_inv set_double_wf)

lemma exec_fp_arith_ok:
  "handler_ok hnd \<Longrightarrow> instr_ok i \<Longrightarrow> cpu_inv m \<Longrightarrow> step_ok rest \<Longrightarrow> step_ok (exec_fp_arith h hnd i pc m rest)"
  unfolding exec_fp_arith_def
  by (auto simp: case_simps intro!: bind_step_ok double_ok) (metis set_double_wf cpu_inv_wf)

lemma exec_fp_convert_ok:
  "handler_ok hnd \<Longrightarrow> instr_ok i \<Longrightarrow> cpu_inv m \<Longrightarrow> step_ok rest \<Longrightarrow> step_ok (exec_fp_convert h i pc m rest)"
  unfolding exec_fp_convert_def by (auto simp: case_simps intro!: bind_step_ok double_ok dest: set_next_inv set_double_wf)

lemma exec_fp_compare_ok:
  "handler_ok hnd \<Longrightarrow> instr_ok i \<Longrightarrow> cpu_inv m \<Longrightarrow> step_ok rest \<Longrightarrow> step_ok (exec_fp_compare h i pc m rest)"
  unfolding exec_fp_compare_def by (auto simp: case_simps intro!: bind_step_ok double_ok dest: set_next_inv set_double_wf)

lemma exec_reserved_ok: "handler_ok hnd \<Longrightarrow> cpu_inv m \<Longrightarrow> step_ok (exec_reserved hnd i m)"
  unfolding exec_reserved_def by (auto simp: case_simps intro!: bind_step_ok double_ok dest: set_next_inv set_double_wf)

lemmas exec_ok = exec_add_ok exec_branch_ok exec_div_ok exec_jump_ok exec_load_ok exec_lwl_lwr_ok
  exec_move_ok exec_store_shift_ok exec_set_shift_ok exec_sub_store_ok exec_fp_move_ok
  exec_fp_arith_ok exec_fp_convert_ok exec_fp_compare_ok exec_reserved_ok

lemma execute_ok:
  "handler_ok hnd \<Longrightarrow> instr_ok i \<Longrightarrow> cpu_inv m \<Longrightarrow> step_ok (execute cfg h hnd i pc m)"
  unfolding execute_def by (intro exec_ok)

lemma finish_inv:
  assumes "wf_cpu m" "reg < 32"
  shows "\<exists>m'. finish pc reg v m = Some m' \<and> cpu_inv m'"
proof -
  obtain m1 where "DelayedLoad reg v m = Some m1" "wf_cpu m1" "R m1 0 = 0"
    using DelayedLoad_correct [OF assms] by auto
  then show ?thesis by (simp add: finish_def Let_def cpu_inv_def)
qed

lemma finish_invD: "finish pc reg v m = Some m' \<Longrightarrow> wf_cpu m \<Longrightarrow> reg < 32 \<Longrightarrow> cpu_inv m'"
  using finish_inv [of m reg pc v] by auto


subsection \<open>Arithmetic and its overflow test\<close>

lemma sign_set_iff: "sign_set x \<longleftrightarrow> sint x < 0"
proof -
  have "sign_set x \<longleftrightarrow> 2 ^ 31 \<le> uint x"
    unfolding sign_set_def SIGN_BIT_def by (rule sign_bit_iff)
  also have "\<dots> \<longleftrightarrow> sint x < 0"
  proof
    assume *: "2 ^ 31 \<le> uint x"
    show "sint x < 0"
    proof (rule ccontr)
      assume "\<not> sint x < 0"
      then have "sint x = uint x" by (simp add: sint_nonneg_uint)
      then show False using * int32_sint [of x] by (simp add: int32_def)
    qed
  next
    assume "sint x < 0"
    moreover have "\<not> 2 ^ 31 \<le> uint x \<Longrightarrow> sint x = int (unat x)"
    proof (rule sint_small)
      assume "\<not> 2 ^ 31 \<le> uint x"
      then have "int (unat x) < int (2 ^ 31)" unfolding uint_nat by simp
      then show "unat x < 2 ^ 31" by (simp only: of_nat_less_iff)
    qed
    ultimately show "2 ^ 31 \<le> uint x" by fastforce
  qed
  finally show ?thesis .
qed

lemma sign_set_xor: "sign_set (x XOR y) \<longleftrightarrow> (sint x < 0) \<noteq> (sint y < 0)"
proof -
  have m: "SIGN_BIT = 2 ^ 31" by (simp add: SIGN_BIT_def)
  have b: "sign_set z \<longleftrightarrow> bit z 31" for z
    by (simp only: sign_set_def m and_exp_eq_0_iff_not_bit not_not)
  show ?thesis by (simp only: sign_set_iff [symmetric] b bit_xor_iff)
qed

lemma sint_wrap: "\<exists>k. sint (a + b) = sint a + sint b + k * 2 ^ 32"
  "\<exists>k. sint (a - b) = sint a - sint b + k * 2 ^ 32" for a b :: u32
proof -
  have w: "\<exists>k. sint (word_of_int z :: u32) = z + k * 2 ^ 32" for z
  proof -
    have "take_bit 32 (sint (word_of_int z :: u32)) = take_bit 32 z"
      using uint_sint [of "word_of_int z :: u32"] by (simp add: uint_word_of_int take_bit_eq_mod)
    then obtain k where "sint (word_of_int z :: u32) = z + 2 ^ 32 * k"
      unfolding take_bit_eq_mod by (metis mod_eqE)
    then show ?thesis by (metis mult.commute)
  qed
  have "a + b = word_of_int (sint a + sint b)" "a - b = word_of_int (sint a - sint b)" by simp_all
  then show "\<exists>k. sint (a + b) = sint a + sint b + k * 2 ^ 32"
    "\<exists>k. sint (a - b) = sint a - sint b + k * 2 ^ 32"
    using w by metis+
qed

lemma add_overflow_test:
  "(\<not> sign_set (a XOR b) \<and> sign_set (a XOR (a + b))) \<longleftrightarrow> \<not> int32 (sint a + sint b)" for a b :: u32
proof -
  obtain k where k: "sint (a + b) = sint a + sint b + k * 4294967296" using sint_wrap(1) by fastforce
  have r: "- 2147483648 \<le> sint a" "sint a < 2147483648" "- 2147483648 \<le> sint b"
    "sint b < 2147483648" "- 2147483648 \<le> sint (a + b)" "sint (a + b) < 2147483648"
    using int32_sint [of a] int32_sint [of b] int32_sint [of "a + b"] by (simp_all add: int32_def)
  have "k < 2" "- 2 < k" using k r by linarith+
  then consider "k = 0" | "k = 1" | "k = - 1" by linarith
  then show ?thesis
    unfolding sign_set_xor int32_def using k r by cases auto
qed

lemma sub_overflow_test:
  "(sign_set (a XOR b) \<and> sign_set (a XOR (a - b))) \<longleftrightarrow> \<not> int32 (sint a - sint b)" for a b :: u32
proof -
  obtain k where k: "sint (a - b) = sint a - sint b + k * 4294967296" using sint_wrap(2) by fastforce
  have r: "- 2147483648 \<le> sint a" "sint a < 2147483648" "- 2147483648 \<le> sint b"
    "sint b < 2147483648" "- 2147483648 \<le> sint (a - b)" "sint (a - b) < 2147483648"
    using int32_sint [of a] int32_sint [of b] int32_sint [of "a - b"] by (simp_all add: int32_def)
  have "k < 2" "- 2 < k" using k r by linarith+
  then consider "k = 0" | "k = 1" | "k = - 1" by linarith
  then show ?thesis
    unfolding sign_set_xor int32_def using k r by cases auto
qed

text \<open>
  C33. The sign tests of \<open>ADD\<close>, \<open>ADDI\<close> and \<open>SUB\<close> raise the overflow exception exactly
  when the mathematical result does not fit in 32 bits, and otherwise the destination
  register receives the exact result.
\<close>
theorem add_sub_overflow_exact:
  "exec_add hnd (i\<lparr>opCode := OP_ADD\<rparr>) pc m rest =
     (let s = sint (R m (rs i)) + sint (R m (rt i)) in
      if int32 s then step_to pc (setR (rd i) (word_of_int s) m)
      else step_raise hnd OVERFLOW_EXCEPTION 0 m)
   \<and> exec_add hnd (i\<lparr>opCode := OP_ADDI\<rparr>) pc m rest =
     (let s = sint (R m (rs i)) + sint (extra i) in
      if int32 s then step_to pc (setR (rt i) (word_of_int s) m)
      else step_raise hnd OVERFLOW_EXCEPTION 0 m)
   \<and> exec_sub_store cfg hnd (i\<lparr>opCode := OP_SUB\<rparr>) pc m rest =
     (let s = sint (R m (rs i)) - sint (R m (rt i)) in
      if int32 s then step_to pc (setR (rd i) (word_of_int s) m)
      else step_raise hnd OVERFLOW_EXCEPTION 0 m)"
proof (intro conjI)
  note add = add_overflow_test [of "R m (rs i)" "R m (rt i)"]
  note addi = add_overflow_test [of "extra i" "R m (rs i)"]
  note sub = sub_overflow_test [of "R m (rs i)" "R m (rt i)"]
  show "exec_add hnd (i\<lparr>opCode := OP_ADD\<rparr>) pc m rest =
     (let s = sint (R m (rs i)) + sint (R m (rt i)) in
      if int32 s then step_to pc (setR (rd i) (word_of_int s) m)
      else step_raise hnd OVERFLOW_EXCEPTION 0 m)"
    using add by (simp add: exec_add_def Let_def)
  show "exec_add hnd (i\<lparr>opCode := OP_ADDI\<rparr>) pc m rest =
     (let s = sint (R m (rs i)) + sint (extra i) in
      if int32 s then step_to pc (setR (rt i) (word_of_int s) m)
      else step_raise hnd OVERFLOW_EXCEPTION 0 m)"
    using addi by (simp add: exec_add_def Let_def ac_simps)
  show "exec_sub_store cfg hnd (i\<lparr>opCode := OP_SUB\<rparr>) pc m rest =
     (let s = sint (R m (rs i)) - sint (R m (rt i)) in
      if int32 s then step_to pc (setR (rd i) (word_of_int s) m)
      else step_raise hnd OVERFLOW_EXCEPTION 0 m)"
    using sub by (simp add: exec_sub_store_def Let_def)
qed

subsection \<open>Delay slots\<close>

lemma finish_correct:
  assumes "wf_cpu m" "r < 32"
  shows "\<exists>m'. finish pc r v m = Some m' \<and> wf_cpu m' \<and> R m' 0 = 0
    \<and> R m' PC_REG = R m NEXTPC_REG \<and> R m' NEXTPC_REG = pc \<and> R m' PREVPC_REG = R m PC_REG
    \<and> R m' LOAD_REG = of_nat r \<and> R m' LOADVALUE_REG = v
    \<and> (\<forall>i. 0 < i \<and> i < 32 \<longrightarrow>
         R m' i = (if i = unat (R m LOAD_REG) then R m LOADVALUE_REG else R m i))"
proof -
  obtain m1 where m1: "DelayedLoad r v m = Some m1" "wf_cpu m1" "R m1 0 = 0"
    "R m1 LOAD_REG = of_nat r" "R m1 LOADVALUE_REG = v"
    and reg: "\<forall>i. i \<noteq> 0 \<and> i \<noteq> LOAD_REG \<and> i \<noteq> LOADVALUE_REG \<longrightarrow>
         R m1 i = (if i = unat (R m LOAD_REG) then R m LOADVALUE_REG else R m i)"
    using DelayedLoad_correct [OF assms, of v] by auto
  have l: "unat (R m 37) < 32" using assms(1) by (simp add: wf_cpu_def)
  have "R m1 34 = R m 34" "R m1 35 = R m 35" using reg l by auto
  moreover have "length (int_registers m1) = 40" using m1(2) by (simp add: wf_cpu_def)
  ultimately show ?thesis
    using m1 reg by (simp add: finish_def Let_def)
qed


lemma R_new [simp]: "i < 40 \<Longrightarrow> R (Machine_new cfg) i = 0"
  by (simp add: Machine_new_def R_def)

lemma cpu_inv_new [simp]: "cpu_inv (Machine_new cfg)"
  by (simp add: cpu_inv_def)


text \<open>The zero word is \<open>SLL r0, r0, 0\<close>; the tiny machine executes it at address 0.\<close>

lemma tiny_fetch:
  "\<exists>m1. ReadMem tiny_cfg hnd 0 4 tiny_machine = Some (Some 0, m1) \<and> cpu_inv m1"
proof -
  let ?t = "\<lparr>maxNumPages = 2, pageTable = [tiny_entry 1 False, tiny_entry 0 True]\<rparr>"
  let ?m = "accessed tiny_cfg False 0 0 ?t tiny_machine"
  have p: "phys_addr tiny_cfg ?t 0 = 8"
    by (simp add: phys_addr_def page_of_def offset_of_def tiny_cfg_def cint_simps entry_def
        tiny_entry_def)
  have mem: "mainMemory ?m = replicate 16 0"
    by (simp add: tiny_machine_def Machine_new_def tiny_cfg_def)
  have "load_value ?m 4 8 = Some 0"
    unfolding load_value_def load_word_def mem
    by (simp add: aget_def le_word_def WordToHost_def)
  then have "ReadMem tiny_cfg hnd 0 4 tiny_machine = Some (Some 0, ?m)"
    using ReadMem_ok [OF tiny_mapped(2), of 4 hnd] by (simp add: p aligned_def)
  moreover have "cpu_inv ?m"
    by (simp add: accessed_def tiny_machine_def)
  ultimately show ?thesis by blast
qed

lemma Decode_zero: "opCode (Decode 0) = OP_SLL" "rd (Decode 0) = 0"
  by (simp_all add: Decode_def field_def opTable_def specialTable_def Let_def)


subsection \<open>Deviations from the MIPS instruction set\<close>

text \<open>
  \<open>OR\<close> ignores its second operand: the destination receives a copy of the first.
\<close>
theorem or_copies_first_operand:
  "exec_move (i\<lparr>opCode := OP_OR\<rparr>) pc m rest = step_to pc (setR (rd i) (R m (rs i)) m)"
  by (simp add: exec_move_def Let_def)

text \<open>
  The logical right shift \<open>SRL\<close> is computed on a signed variable and is therefore the
  same function as the arithmetic shift \<open>SRA\<close>: the vacated bits are copies of the sign.
\<close>
theorem srl_is_sra:
  "exec_set_shift (i\<lparr>opCode := OP_SRL\<rparr>) pc m rest = exec_set_shift (i\<lparr>opCode := OP_SRA\<rparr>) pc m rest
   \<and> exec_set_shift (i\<lparr>opCode := OP_SRL\<rparr>) pc m rest
     = step_to pc (setR (rd i) (word_of_int (sint (R m (rt i)) div 2 ^ unat (extra i))) m)"
proof -
  have "signed_drop_bit n x = word_of_int (sint x div 2 ^ n)" for n and x :: u32
  proof -
    have "sint (signed_drop_bit n x) = sint x div 2 ^ n"
      by (simp only: sint_signed_drop_bit_eq) (simp only: drop_bit_eq_div)
    moreover have "word_of_int (sint (signed_drop_bit n x)) = signed_drop_bit n x" by simp
    ultimately show ?thesis by (simp only:)
  qed
  then show ?thesis by (simp add: exec_set_shift_def Let_def)
qed

end
