(* ===== verification/Nachos_Disk.thy ===== *)
theory Nachos_Disk
  imports Nachos_Stats
begin

text \<open>
  The simulated disk (\<open>machine/disk.cc\<close>) and its driver (\<open>drivers/drvDisk.cc\<close>).

  \<open>content\<close> is the UNIX file behind the magic number: one list of bytes per sector. A
  request transfers the data at once, marks the disk active and computes when the
  interrupt will come; \<open>HandleInterrupt\<close> is that interrupt. Simulated time is an
  argument. The driver waits for the interrupt before it returns, so what the file
  system sees are the synchronous \<open>ReadSector\<close> and \<open>WriteSector\<close> on the contents
  alone: the last section shows that the driver implements them.
\<close>

record disk =
  content :: "byte list list"
  active :: bool
  lastSector :: int
  bufferInit :: int

definition Disk_new :: "byte list list \<Rightarrow> disk" where
  "Disk_new img = \<lparr>content = img, active = False, lastSector = 0, bufferInit = 0\<rparr>"

text \<open>One rotation step and one track step in cycles of the processor.\<close>

definition rot_cycles :: "config \<Rightarrow> int" where
  "rot_cycles cfg = nano_to_cycles ROTATION_TIME (ProcessorFrequency cfg)"

definition seek_cycles :: "config \<Rightarrow> int" where
  "seek_cycles cfg = nano_to_cycles SEEK_TIME (ProcessorFrequency cfg)"

text \<open>The seek time and, the out-parameter, the rotation until the next sector boundary.\<close>

definition TimeToSeek :: "config \<Rightarrow> int \<Rightarrow> disk \<Rightarrow> int \<Rightarrow> int \<times> int" where
  "TimeToSeek cfg now d newSector =
     (let newTrack = newSector sdiv SECTORS_PER_TRACK;
          oldTrack = lastSector d sdiv SECTORS_PER_TRACK;
          seek = \<bar>newTrack - oldTrack\<bar> * seek_cycles cfg;
          over = (now + seek) smod rot_cycles cfg
      in (seek, if over > 0 then rot_cycles cfg - over else 0))"

definition ModuloDiff :: "int \<Rightarrow> int \<Rightarrow> int" where
  "ModuloDiff to from =
     (let toOffset = to smod SECTORS_PER_TRACK; fromOffset = from smod SECTORS_PER_TRACK
      in (toOffset - fromOffset + SECTORS_PER_TRACK) smod SECTORS_PER_TRACK)"

text \<open>The subtraction from \<open>timeAfter\<close> is on unsigned 64-bit numbers.\<close>

definition ComputeLatency :: "config \<Rightarrow> int \<Rightarrow> disk \<Rightarrow> int \<Rightarrow> bool \<Rightarrow> int" where
  "ComputeLatency cfg now d newSector writing =
     (let (seek, rotation) = TimeToSeek cfg now d newSector;
          timeAfter = now + seek + rotation;
          rot_time = rot_cycles cfg
      in if \<not> writing \<and> seek = 0
            \<and> ((timeAfter - bufferInit d) mod 2 ^ 64) sdiv rot_time
              > ModuloDiff newSector (bufferInit d sdiv rot_time)
         then rot_time
         else seek + (rotation + ModuloDiff newSector (timeAfter sdiv rot_time) * rot_time) + rot_time)"

definition UpdateLast :: "config \<Rightarrow> int \<Rightarrow> int \<Rightarrow> disk \<Rightarrow> disk" where
  "UpdateLast cfg now newSector d =
     (let (seek, rotate) = TimeToSeek cfg now d newSector;
          d1 = (if seek \<noteq> 0 then d\<lparr>bufferInit := now + seek + rotate\<rparr> else d)
      in d1\<lparr>lastSector := newSector\<rparr>)"

text \<open>
  A request gives the time until its interrupt. The counters of the process are updated
  by the caller's model.
\<close>

definition ReadRequest :: "config \<Rightarrow> int \<Rightarrow> int \<Rightarrow> disk \<Rightarrow> (byte list \<times> int \<times> disk) option" where
  "ReadRequest cfg now s d =
     (let ticks = ComputeLatency cfg now d s False in
      if active d then None
      else if 0 \<le> s \<and> s < NUM_SECTORS then do {
        data \<leftarrow> aget (content d) s;
        Some (data, ticks, UpdateLast cfg now s (d\<lparr>active := True\<rparr>)) }
      else None)"

definition WriteRequest :: "config \<Rightarrow> int \<Rightarrow> int \<Rightarrow> byte list \<Rightarrow> disk \<Rightarrow> (int \<times> disk) option" where
  "WriteRequest cfg now s data d =
     (let ticks = ComputeLatency cfg now d s True in
      if active d then None
      else if 0 \<le> s \<and> s < NUM_SECTORS then do {
        c \<leftarrow> aset (content d) s data;
        Some (ticks, UpdateLast cfg now s (d\<lparr>content := c, active := True\<rparr>)) }
      else None)"

definition HandleInterrupt :: "disk \<Rightarrow> disk" where
  "HandleInterrupt d = d\<lparr>active := False\<rparr>"

subsection \<open>The driver\<close>

text \<open>
  The driver's lock admits one request at a time, and \<open>P\<close> returns when the interrupt
  of the request has called \<open>V\<close>: between the request and the return lies exactly one
  \<open>HandleInterrupt\<close>.
\<close>

definition Driver_ReadSector :: "config \<Rightarrow> int \<Rightarrow> int \<Rightarrow> disk \<Rightarrow> (byte list \<times> disk) option" where
  "Driver_ReadSector cfg now s d = do {
     (data, _, d1) \<leftarrow> ReadRequest cfg now s d; Some (data, HandleInterrupt d1) }"

definition Driver_WriteSector :: "config \<Rightarrow> int \<Rightarrow> int \<Rightarrow> byte list \<Rightarrow> disk \<Rightarrow> disk option" where
  "Driver_WriteSector cfg now s data d = do {
     (_, d1) \<leftarrow> WriteRequest cfg now s data d; Some (HandleInterrupt d1) }"

text \<open>What the file system relies on: the driver as a function on the contents.\<close>

definition ReadSector :: "int \<Rightarrow> byte list list \<Rightarrow> byte list option" where
  "ReadSector s c = (if 0 \<le> s \<and> s < NUM_SECTORS then aget c s else None)"

definition WriteSector :: "int \<Rightarrow> byte list \<Rightarrow> byte list list \<Rightarrow> byte list list option" where
  "WriteSector s data c = (if 0 \<le> s \<and> s < NUM_SECTORS then aset c s data else None)"

subsection \<open>The driver implements synchronous sectors\<close>

lemma UpdateLast_frame [simp]:
  "content (UpdateLast cfg now s d) = content d" "active (UpdateLast cfg now s d) = active d"
  "lastSector (UpdateLast cfg now s d) = s"
  by (simp_all add: UpdateLast_def Let_def split_beta)

text \<open>
  From an idle disk, the driver's read and write are the abstract operations on the
  contents, fail exactly when they do, and leave the disk idle: no sequence of calls can
  meet the assertion that only one request is active.
\<close>
theorem driver_refines_sectors:
  assumes "\<not> active d"
  shows "map_option (\<lambda>(data, d'). (data, content d', active d')) (Driver_ReadSector cfg now s d)
       = map_option (\<lambda>data. (data, content d, False)) (ReadSector s (content d))
    \<and> map_option (\<lambda>d'. (content d', active d')) (Driver_WriteSector cfg now s b d)
       = map_option (\<lambda>c. (c, False)) (WriteSector s b (content d))"
  using assms
  by (cases "aget (content d) s"; cases "aset (content d) s b")
    (auto simp: Driver_ReadSector_def Driver_WriteSector_def ReadRequest_def WriteRequest_def
      ReadSector_def WriteSector_def HandleInterrupt_def Let_def)

theorem driver_refines_sectors_witness:
  "map_option fst (Driver_ReadSector tiny_cfg 5 1 (Disk_new [[7], [8]])) = Some [8]"
proof -
  have "\<not> active (Disk_new [[7], [8]])" by (simp add: Disk_new_def)
  from driver_refines_sectors [OF this, of tiny_cfg 5 1 "[]"]
  show ?thesis
    by (cases "Driver_ReadSector tiny_cfg 5 1 (Disk_new [[7], [8]])")
      (auto simp: Disk_new_def ReadSector_def aget_def)
qed

subsection \<open>Latency\<close>

lemma ModuloDiff_bounds:
  "0 \<le> to \<Longrightarrow> 0 \<le> from \<Longrightarrow> 0 \<le> ModuloDiff to from \<and> ModuloDiff to from < SECTORS_PER_TRACK
   \<and> (from + ModuloDiff to from) mod SECTORS_PER_TRACK = to mod SECTORS_PER_TRACK"
proof -
  assume "0 \<le> to" "0 \<le> from"
  then have "ModuloDiff to from = (to mod 32 - from mod 32 + 32) mod 32"
    by (simp add: ModuloDiff_def SECTORS_PER_TRACK_def smod_nonneg)
  then show ?thesis by (simp add: SECTORS_PER_TRACK_def mod_simps)
qed

text \<open>
  A request on an existing sector takes at least one sector rotation and at most the
  seek over all tracks, two partial rotations and a full turn of the track; when it does
  not come from the track buffer, its transfer starts on a sector boundary at which the
  requested sector passes under the head.
\<close>
theorem latency_bounds:
  assumes "0 \<le> s" "s < NUM_SECTORS" "0 \<le> lastSector d" "lastSector d < NUM_SECTORS"
    and "0 \<le> now" "0 < rot_cycles cfg" "0 \<le> seek_cycles cfg"
  shows "rot_cycles cfg \<le> ComputeLatency cfg now d s writing
    \<and> ComputeLatency cfg now d s writing \<le> 63 * seek_cycles cfg + 33 * rot_cycles cfg
    \<and> (writing \<longrightarrow>
        (now + ComputeLatency cfg now d s writing) mod rot_cycles cfg = 0
        \<and> ((now + ComputeLatency cfg now d s writing) div rot_cycles cfg - 1) mod SECTORS_PER_TRACK
          = s mod SECTORS_PER_TRACK)"
proof -
  let ?r = "rot_cycles cfg"
  define seek where "seek = \<bar>s div 32 - lastSector d div 32\<bar> * seek_cycles cfg"
  define over where "over = (now + seek) mod ?r"
  define rotation where "rotation = (if over > 0 then ?r - over else 0)"
  define k where "k = ModuloDiff s ((now + seek + rotation) div ?r)"
  have seek0: "0 \<le> seek" using assms by (simp add: seek_def)
  have o: "0 \<le> over" "over < ?r" using assms by (simp_all add: over_def)
  have TTS: "TimeToSeek cfg now d s = (seek, rotation)"
    using assms seek0
    by (simp add: TimeToSeek_def Let_def seek_def rotation_def over_def SECTORS_PER_TRACK_def
        cint_simps)
  have "s div 32 \<le> 63" "0 \<le> s div 32" "lastSector d div 32 \<le> 63" "0 \<le> lastSector d div 32"
    using assms by simp_all
  then have "\<bar>s div 32 - lastSector d div 32\<bar> \<le> 63" by linarith
  then have seek1: "seek \<le> 63 * seek_cycles cfg"
    unfolding seek_def using assms(7) by (intro mult_right_mono)
  have rot: "0 \<le> rotation" "rotation < ?r" using o by (auto simp: rotation_def)
  have start: "(now + seek + rotation) mod ?r = 0"
  proof (cases "over > 0")
    case True
    then have "(now + seek + rotation) mod ?r = (over + rotation) mod ?r"
      by (simp add: over_def mod_simps)
    then show ?thesis using True by (simp add: rotation_def)
  next
    case False
    then show ?thesis using o by (simp add: rotation_def over_def)
  qed
  have nn: "0 \<le> (now + seek + rotation) div ?r"
    using assms seek0 rot by (simp add: pos_imp_zdiv_nonneg_iff)
  note md = ModuloDiff_bounds [OF assms(1) nn]
  have k: "0 \<le> k" "k \<le> 31" using md by (simp_all add: k_def SECTORS_PER_TRACK_def)
  have full: "ComputeLatency cfg now d s writing = ?r
      \<or> ComputeLatency cfg now d s writing = seek + (rotation + k * ?r) + ?r"
    using assms seek0 rot by (simp add: ComputeLatency_def TTS Let_def k_def cint_simps)
  have k1: "0 \<le> k * ?r" "k * ?r \<le> 31 * ?r" using k assms(6) by (simp_all add: mult_right_mono)
  have wr: "ComputeLatency cfg now d s True = seek + (rotation + k * ?r) + ?r"
    using assms seek0 rot by (simp add: ComputeLatency_def TTS Let_def k_def cint_simps)
  obtain q where q: "now + seek + rotation = ?r * q" using start by (metis dvd_eq_mod_eq_0 dvdE)
  then have e: "now + (seek + (rotation + k * ?r) + ?r) = ?r * (q + k + 1)"
    by (simp add: algebra_simps)
  have kq: "k = ModuloDiff s q" using q assms(6) by (simp add: k_def)
  have al: "(now + ComputeLatency cfg now d s True) mod ?r = 0"
    "((now + ComputeLatency cfg now d s True) div ?r - 1) mod SECTORS_PER_TRACK
      = s mod SECTORS_PER_TRACK"
    unfolding wr e using assms(6) md q by (simp_all add: kq)
  have "?r \<le> ComputeLatency cfg now d s writing"
    "ComputeLatency cfg now d s writing \<le> 63 * seek_cycles cfg + 33 * ?r"
    using full k1 seek0 seek1 rot assms(6,7) by linarith+
  then show ?thesis using al by (cases writing) auto
qed

theorem latency_bounds_witness:
  "ComputeLatency tiny_cfg 10 (Disk_new []) 70 True \<le> 63 * 100 + 33 * 100"
proof -
  have r: "rot_cycles tiny_cfg = 100" "seek_cycles tiny_cfg = 100"
    by (simp_all add: rot_cycles_def seek_cycles_def nano_to_cycles_def tiny_cfg_def
        ROTATION_TIME_def SEEK_TIME_def cint_simps)
  show ?thesis
    using latency_bounds [of 70 "Disk_new []" 10 tiny_cfg True] by (simp add: r Disk_new_def)
qed

end
