(* ===== verification/Nachos_FileHdr.thy ===== *)
theory Nachos_FileHdr
  imports Nachos_BitMap Nachos_Disk
begin

text \<open>
  File headers (\<open>filesys/filehdr.cc\<close>): the table of the sectors of a file, kept in
  memory while the file is open and stored on disk in a first header sector and up to
  \<open>MAX_HEADER_SECTORS\<close> chained ones. \<open>dataSectors\<close> is \<open>[]\<close> for the \<open>NULL\<close>
  pointer of a header that has neither been allocated nor fetched.
\<close>

definition MAX_HEADER_SECTORS :: int where "MAX_HEADER_SECTORS = 32"

definition DatasInFirstSector :: "config \<Rightarrow> int" where
  "DatasInFirstSector cfg = (SectorSize cfg - 20) div 4"

definition DatasInSector :: "config \<Rightarrow> int" where
  "DatasInSector cfg = (SectorSize cfg - 4) div 4"

definition MAX_DATA_SECTORS :: "config \<Rightarrow> int" where
  "MAX_DATA_SECTORS cfg = (MAX_HEADER_SECTORS - 1) * DatasInSector cfg + DatasInFirstSector cfg"

definition MAX_FILE_LENGTH :: "config \<Rightarrow> int" where
  "MAX_FILE_LENGTH cfg = MAX_DATA_SECTORS cfg * SectorSize cfg"

text \<open>The index of the link to the next header sector in a sector image.\<close>

definition next_link :: "config \<Rightarrow> int" where
  "next_link cfg = SectorSize cfg div 4 - 1"

record FileHeader =
  isdir :: int
  numBytes :: int
  numSectors :: int
  numHeaderSectors :: int
  headerSectors :: "int list"
  dataSectors :: "int list"

text \<open>The constructor sets only the pointer.\<close>

definition FileHeader_new :: "config \<Rightarrow> FileHeader" where
  "FileHeader_new cfg = \<lparr>isdir = fresh cfg 0, numBytes = fresh cfg 1, numSectors = fresh cfg 2,
     numHeaderSectors = fresh cfg 3, headerSectors = map (fresh cfg) [0..<nat MAX_HEADER_SECTORS],
     dataSectors = []\<rparr>"

definition new_table :: "config \<Rightarrow> int list" where
  "new_table cfg = map (fresh cfg) [0..<nat (MAX_DATA_SECTORS cfg)]"

definition Allocate :: "config \<Rightarrow> bitmap \<Rightarrow> int \<Rightarrow> FileHeader \<Rightarrow> (bool \<times> bitmap \<times> FileHeader) option" where
  "Allocate cfg freeMap fileSize h = do {
     let h = h\<lparr>numBytes := fileSize\<rparr>;
     if fileSize \<le> MAX_FILE_LENGTH cfg then do {
       let ns = divRoundUp fileSize (SectorSize cfg);
       let nh = divRoundUp (ns - DatasInFirstSector cfg) (DatasInSector cfg);
       let h = h\<lparr>numSectors := ns, numHeaderSectors := nh\<rparr>;
       clear \<leftarrow> BitMap_NumClear freeMap;
       if clear < ns + nh then Some (False, freeMap, h)
       else do {
         (hs, b1) \<leftarrow> fill_from BitMap_Find 0 (nat nh) (headerSectors h, freeMap);
         (ds, b2) \<leftarrow> fill_from BitMap_Find 0 (nat ns) (new_table cfg, b1);
         Some (True, b2, h\<lparr>headerSectors := hs, dataSectors := ds\<rparr>) } }
     else None }"

text \<open>The number of new header sectors is computed from the old number of data sectors.\<close>

definition reAllocate ::
  "config \<Rightarrow> bitmap \<Rightarrow> int \<Rightarrow> int \<Rightarrow> FileHeader \<Rightarrow> (bool \<times> bitmap \<times> FileHeader) option" where
  "reAllocate cfg freeMap oldFileSize newFileSize h = do {
     let newns = divRoundUp newFileSize (SectorSize cfg) - numSectors h;
     let h = h\<lparr>numBytes := newFileSize\<rparr>;
     let newnh = divRoundUp (numSectors h - DatasInFirstSector cfg) (DatasInSector cfg)
                 - numHeaderSectors h;
     if newFileSize \<le> MAX_FILE_LENGTH cfg then do {
       clear \<leftarrow> BitMap_NumClear freeMap;
       if clear < newns + newnh then Some (False, freeMap, h)
       else do {
         (hs, b1) \<leftarrow> fill_from BitMap_Find (numHeaderSectors h) (nat newnh) (headerSectors h, freeMap);
         (ds, b2) \<leftarrow> fill_from BitMap_Find (numSectors h) (nat newns) (dataSectors h, b1);
         Some (True, b2, h\<lparr>headerSectors := hs, dataSectors := ds,
           numSectors := numSectors h + newns, numHeaderSectors := numHeaderSectors h + newnh\<rparr>) } }
     else None }"

text \<open>The loops read \<open>numSectors\<close> and \<open>numHeaderSectors\<close> elements of the tables.\<close>

definition elements :: "int list \<Rightarrow> int \<Rightarrow> int list option" where
  "elements xs n = (if nat n \<le> length xs then Some (take (nat n) xs) else None)"

definition Deallocate :: "bitmap \<Rightarrow> FileHeader \<Rightarrow> bitmap option" where
  "Deallocate freeMap h = do {
     ds \<leftarrow> elements (dataSectors h) (numSectors h);
     b1 \<leftarrow> release_all BitMap_Test BitMap_Clear ds freeMap;
     hs \<leftarrow> elements (headerSectors h) (numHeaderSectors h);
     release_all BitMap_Test BitMap_Clear hs b1 }"

text \<open>
  One turn of the second loop of \<open>FetchFrom\<close> and of \<open>WriteBack\<close>: the chained header
  sector number \<open>i\<close>.
\<close>

definition fetch_chained ::
  "config \<Rightarrow> int \<Rightarrow> byte list list \<Rightarrow> nat \<Rightarrow> int list \<times> int list \<Rightarrow> (int list \<times> int list) option" where
  "fetch_chained cfg nh d i = (\<lambda>(hs, ds). do {
     s \<leftarrow> aget hs (int i);
     b \<leftarrow> ReadSector s d;
     let img = bytes_to_ints b;
     ds' \<leftarrow> copy_loop img 0 (DatasInFirstSector cfg + int i * DatasInSector cfg)
             (nat (DatasInSector cfg)) ds;
     hs' \<leftarrow> (if int i + 1 < nh
            then do { nx \<leftarrow> aget img (next_link cfg); aset hs (int i + 1) nx } else Some hs);
     Some (hs', ds') })"

definition FetchFrom :: "config \<Rightarrow> int \<Rightarrow> byte list list \<Rightarrow> FileHeader \<Rightarrow> FileHeader option" where
  "FetchFrom cfg sector d h = do {
     b \<leftarrow> ReadSector sector d;
     let img = bytes_to_ints b;
     isd \<leftarrow> aget img 0; nb \<leftarrow> aget img 1; ns \<leftarrow> aget img 2; nh \<leftarrow> aget img 3;
     if nh \<le> MAX_HEADER_SECTORS then do {
       nx \<leftarrow> aget img (next_link cfg);
       hs \<leftarrow> aset (headerSectors h) 0 nx;
       ds \<leftarrow> copy_loop img 4 0 (nat (DatasInSector cfg - 4)) (new_table cfg);
       (hs', ds') \<leftarrow> foldM (fetch_chained cfg nh d) [0..<nat nh] (hs, ds);
       Some \<lparr>isdir = isd, numBytes = nb, numSectors = ns, numHeaderSectors = nh,
         headerSectors = hs', dataSectors = ds'\<rparr> }
     else None }"

text \<open>
  \<open>WriteBack\<close> declares its sector image one \<open>int\<close> too short (\<open>DatasInSector\<close>
  elements) and then uses \<open>SectorSize\<close> bytes of it; the model gives the image the size
  that the code uses.
\<close>

definition blank_image :: "config \<Rightarrow> int list" where
  "blank_image cfg = replicate (nat (SectorSize cfg div 4)) 0"

definition write_chained ::
  "config \<Rightarrow> FileHeader \<Rightarrow> nat \<Rightarrow> byte list list \<Rightarrow> byte list list option" where
  "write_chained cfg h i d = do {
     img \<leftarrow> copy_loop (dataSectors h) (DatasInFirstSector cfg + int i * DatasInSector cfg) 0
             (nat (DatasInSector cfg)) (blank_image cfg);
     nx \<leftarrow> (if int i + 1 < numHeaderSectors h then aget (headerSectors h) (int i + 1) else Some 0);
     img' \<leftarrow> aset img (next_link cfg) nx;
     s \<leftarrow> aget (headerSectors h) (int i);
     WriteSector s (ints_to_bytes img') d }"

definition WriteBack :: "config \<Rightarrow> int \<Rightarrow> FileHeader \<Rightarrow> byte list list \<Rightarrow> byte list list option" where
  "WriteBack cfg sector h d = do {
     i0 \<leftarrow> aset (blank_image cfg) 0 (isdir h);
     i1 \<leftarrow> aset i0 1 (numBytes h);
     i2 \<leftarrow> aset i1 2 (numSectors h);
     i3 \<leftarrow> aset i2 3 (numHeaderSectors h);
     i4 \<leftarrow> copy_loop (dataSectors h) 0 4 (nat (DatasInSector cfg - 4)) i3;
     nx \<leftarrow> aget (headerSectors h) 0;
     img \<leftarrow> aset i4 (next_link cfg) nx;
     d1 \<leftarrow> WriteSector sector (ints_to_bytes img) d;
     foldM (write_chained cfg h) [0..<nat (numHeaderSectors h)] d1 }"

definition ByteToSector :: "config \<Rightarrow> FileHeader \<Rightarrow> int \<Rightarrow> int option" where
  "ByteToSector cfg h offset = aget (dataSectors h) (offset sdiv SectorSize cfg)"

definition FileLength :: "FileHeader \<Rightarrow> int" where
  "FileLength h = numBytes h"

definition ChangeFileLength :: "config \<Rightarrow> int \<Rightarrow> FileHeader \<Rightarrow> FileHeader option" where
  "ChangeFileLength cfg newsize h =
     (if newsize \<le> MAX_FILE_LENGTH cfg then Some (h\<lparr>numBytes := newsize\<rparr>) else None)"

definition MaxFileLength :: "config \<Rightarrow> FileHeader \<Rightarrow> int" where
  "MaxFileLength cfg h = numSectors h * SectorSize cfg"

definition IsDir :: "FileHeader \<Rightarrow> bool" where
  "IsDir h \<longleftrightarrow> isdir h = 1"

definition SetFile :: "FileHeader \<Rightarrow> FileHeader" where
  "SetFile h = h\<lparr>isdir := 0\<rparr>"

definition SetDir :: "FileHeader \<Rightarrow> FileHeader" where
  "SetDir h = h\<lparr>isdir := 1\<rparr>"

subsection \<open>Allocation\<close>

definition sector_ok :: "config \<Rightarrow> bool" where
  "sector_ok cfg \<longleftrightarrow> 24 \<le> SectorSize cfg \<and> 4 dvd SectorSize cfg"

text \<open>The sectors that a header names: its chained headers, then its data.\<close>

definition own_sectors :: "FileHeader \<Rightarrow> int list" where
  "own_sectors h = take (nat (numHeaderSectors h)) (headerSectors h)
     @ take (nat (numSectors h)) (dataSectors h)"

definition data_count :: "config \<Rightarrow> int \<Rightarrow> int" where
  "data_count cfg sz = divRoundUp sz (SectorSize cfg)"

definition header_count :: "config \<Rightarrow> int \<Rightarrow> int" where
  "header_count cfg sz = divRoundUp (data_count cfg sz - DatasInFirstSector cfg) (DatasInSector cfg)"

lemma sector_ok_counts:
  assumes "sector_ok cfg"
  shows "0 < SectorSize cfg" "4 < DatasInSector cfg" "DatasInFirstSector cfg = DatasInSector cfg - 4"
    "next_link cfg = DatasInSector cfg" "SectorSize cfg = 4 * (DatasInSector cfg + 1)"
    "1 \<le> DatasInFirstSector cfg"
proof -
  obtain k where "SectorSize cfg = 4 * k" using assms by (auto simp: sector_ok_def elim: dvdE)
  moreover have "6 \<le> k" using assms calculation by (simp add: sector_ok_def)
  moreover have "4 * k - 20 = 4 * (k - 5)" "4 * k - 4 = 4 * (k - 1)" by simp_all
  then have "(4 * k - 20) div 4 = k - 5" "(4 * k - 4) div 4 = k - 1"
    by (simp_all only: nonzero_mult_div_cancel_left)
  ultimately show "0 < SectorSize cfg" "4 < DatasInSector cfg"
    "DatasInFirstSector cfg = DatasInSector cfg - 4" "next_link cfg = DatasInSector cfg"
    "SectorSize cfg = 4 * (DatasInSector cfg + 1)" "1 \<le> DatasInFirstSector cfg"
    by (simp_all add: DatasInFirstSector_def DatasInSector_def next_link_def)
qed

lemma count_bounds:
  assumes "sector_ok cfg" "0 \<le> sz" "sz \<le> MAX_FILE_LENGTH cfg"
  shows "0 \<le> data_count cfg sz" "data_count cfg sz \<le> MAX_DATA_SECTORS cfg"
    "0 \<le> header_count cfg sz" "header_count cfg sz \<le> 31"
    "data_count cfg sz \<le> DatasInFirstSector cfg + header_count cfg sz * DatasInSector cfg"
    "sz \<le> data_count cfg sz * SectorSize cfg"
proof -
  note s = sector_ok_counts [OF assms(1)]
  let ?n = "data_count cfg sz" and ?S = "SectorSize cfg" and ?D = "DatasInSector cfg"
  note dn = divRoundUp_bounds [OF assms(2) s(1)]
  show 0: "0 \<le> ?n" and "sz \<le> ?n * ?S" using dn by (simp_all add: data_count_def)
  have "?n * ?S < sz + ?S" using dn by (simp add: data_count_def)
  also have "\<dots> \<le> (MAX_DATA_SECTORS cfg + 1) * ?S"
    using assms(3) by (simp add: MAX_FILE_LENGTH_def algebra_simps)
  finally have "?n < MAX_DATA_SECTORS cfg + 1" using s(1) by (simp only: mult_less_cancel_right)
  then show 1: "?n \<le> MAX_DATA_SECTORS cfg" by simp
  show "0 \<le> header_count cfg sz" "header_count cfg sz \<le> 31"
    "?n \<le> DatasInFirstSector cfg + header_count cfg sz * ?D"
  proof -
    consider "?n \<le> DatasInFirstSector cfg" | "DatasInFirstSector cfg < ?n" by linarith
    then have "0 \<le> header_count cfg sz \<and> header_count cfg sz \<le> 31
      \<and> ?n \<le> DatasInFirstSector cfg + header_count cfg sz * ?D"
    proof cases
      case 1
      then have "header_count cfg sz = 0"
        using 0 s by (auto simp: header_count_def intro!: divRoundUp_neg)
      then show ?thesis using 1 by simp
    next
      case 2
      then have n0: "0 \<le> ?n - DatasInFirstSector cfg" by simp
      have d0: "0 < ?D" using s by simp
      note h = divRoundUp_bounds [OF n0 d0]
      have "header_count cfg sz * ?D < ?n - DatasInFirstSector cfg + ?D"
        using h by (simp add: header_count_def)
      also have "\<dots> \<le> 32 * ?D" using 1 by (simp add: MAX_DATA_SECTORS_def MAX_HEADER_SECTORS_def)
      finally have "header_count cfg sz < 32" using d0 by (simp only: mult_less_cancel_right)
      then show ?thesis using h by (simp add: header_count_def)
    qed
    then show "0 \<le> header_count cfg sz" "header_count cfg sz \<le> 31"
      "?n \<le> DatasInFirstSector cfg + header_count cfg sz * ?D" by simp_all
  qed
qed

lemma take_fill: "length xs = n \<Longrightarrow> take n (xs @ ys) = xs"
  by simp

lemma Allocate_correct:
  assumes "wf_bitmap fm" "sector_ok cfg" "0 \<le> sz" "sz \<le> MAX_FILE_LENGTH cfg"
    and "length (headerSectors h) = 32"
  shows "if int (card (free_bits fm)) < data_count cfg sz + header_count cfg sz
    then \<exists>h'. Allocate cfg fm sz h = Some (False, fm, h')
    else \<exists>fm' h'. Allocate cfg fm sz h = Some (True, fm', h')
      \<and> numBytes h' = sz \<and> numSectors h' = data_count cfg sz \<and> numHeaderSectors h' = header_count cfg sz
      \<and> isdir h' = isdir h \<and> length (headerSectors h') = 32
      \<and> int (length (dataSectors h')) = MAX_DATA_SECTORS cfg
      \<and> distinct (own_sectors h') \<and> set (own_sectors h') \<subseteq> free_bits fm
      \<and> set (headerSectors h') \<subseteq> set (own_sectors h') \<union> set (headerSectors h)
      \<and> set (dataSectors h') \<subseteq> set (own_sectors h') \<union> set (new_table cfg)
      \<and> wf_bitmap fm' \<and> numBits fm' = numBits fm \<and> marked fm' = marked fm \<union> set (own_sectors h')"
proof -
  note c = count_bounds [OF assms(2-4)]
  let ?ns = "data_count cfg sz" and ?nh = "header_count cfg sz"
  let ?h = "h\<lparr>numBytes := sz, numSectors := ?ns, numHeaderSectors := ?nh\<rparr>"
  have nc: "BitMap_NumClear fm = Some (int (card (free_bits fm)))"
    using BitMap_NumClear_correct [OF assms(1)] .
  show ?thesis
  proof (cases "int (card (free_bits fm)) < ?ns + ?nh")
    case True
    then show ?thesis
      using nc assms(4)
      by (simp add: Allocate_def Let_def data_count_def [symmetric] header_count_def [symmetric])
  next
    case False
    have nt: "int (length (new_table cfg)) = MAX_DATA_SECTORS cfg"
      using c by (simp add: new_table_def)
    have n1: "int (nat ?nh) \<le> int (card ({0..<numBits fm} - marked fm))"
      using False c by (simp add: free_bits_def)
    have l1: "nat ?nh \<le> 32" using c by linarith
    obtain hs b1 where 1: "fill_from BitMap_Find 0 (nat ?nh) (headerSectors h, fm)
        = Some (hs @ drop (nat ?nh) (headerSectors h), b1)"
      "length hs = nat ?nh" "distinct hs" "set hs \<subseteq> free_bits fm" "wf_bitmap b1"
      "numBits b1 = numBits fm" "marked b1 = marked fm \<union> set hs"
      using bm.fill_from_spec [OF assms(1) n1, of 0 "headerSectors h"] assms(5) l1
      by (auto simp: free_bits_def)
    have f1: "free_bits b1 = free_bits fm - set hs" using 1 by (auto simp: free_bits_def)
    have "card (free_bits b1) = card (free_bits fm) - nat ?nh"
      unfolding f1 using 1 by (simp add: card_Diff_subset distinct_card)
    then have n2: "int (nat ?ns) \<le> int (card ({0..<numBits b1} - marked b1))"
      using False c by (simp add: free_bits_def)
    have l2: "nat ?ns \<le> length (new_table cfg)" using nt c by linarith
    obtain ds b2 where 2: "fill_from BitMap_Find 0 (nat ?ns) (new_table cfg, b1)
        = Some (ds @ drop (nat ?ns) (new_table cfg), b2)"
      "length ds = nat ?ns" "distinct ds" "set ds \<subseteq> free_bits b1" "wf_bitmap b2"
      "numBits b2 = numBits b1" "marked b2 = marked b1 \<union> set ds"
      using bm.fill_from_spec [OF 1(5) n2, of 0 "new_table cfg"] l2
      by (auto simp: free_bits_def)
    let ?h' = "?h\<lparr>headerSectors := hs @ drop (nat ?nh) (headerSectors h),
        dataSectors := ds @ drop (nat ?ns) (new_table cfg)\<rparr>"
    have A: "Allocate cfg fm sz h = Some (True, b2, ?h')"
      using False nc assms(4) 1(1) 2(1)
      by (simp add: Allocate_def Let_def data_count_def [symmetric] header_count_def [symmetric])
    have own: "own_sectors ?h' = hs @ ds"
      using 1(2) 2(2) by (simp add: own_sectors_def)
    have "length (headerSectors ?h') = 32" "int (length (dataSectors ?h')) = MAX_DATA_SECTORS cfg"
      using assms(5) c 1(2) 2(2) nt by auto
    moreover have "distinct (hs @ ds)" "set (hs @ ds) \<subseteq> free_bits fm"
      using 1 2 f1 by auto
    moreover have "set (headerSectors ?h') \<subseteq> set (own_sectors ?h') \<union> set (headerSectors h)"
      "set (dataSectors ?h') \<subseteq> set (own_sectors ?h') \<union> set (new_table cfg)"
      unfolding own by (auto dest: in_set_dropD)
    ultimately show ?thesis
      using False A 1(6,7) 2(5-7) by (simp add: own Un_assoc)
  qed
qed

lemma Deallocate_correct:
  assumes "wf_bitmap fm" "distinct (own_sectors h)" "set (own_sectors h) \<subseteq> marked fm"
    and "nat (numSectors h) \<le> length (dataSectors h)"
    and "nat (numHeaderSectors h) \<le> length (headerSectors h)"
  shows "\<exists>fm'. Deallocate fm h = Some fm' \<and> wf_bitmap fm' \<and> numBits fm' = numBits fm
    \<and> marked fm' = marked fm - set (own_sectors h)"
proof -
  let ?ds = "take (nat (numSectors h)) (dataSectors h)"
  let ?hs = "take (nat (numHeaderSectors h)) (headerSectors h)"
  have own: "own_sectors h = ?hs @ ?ds" by (simp add: own_sectors_def)
  have d: "distinct ?ds" "set ?ds \<subseteq> marked fm" "distinct ?hs" "set ?hs \<subseteq> marked fm - set ?ds"
    using assms(2,3) unfolding own by auto
  obtain b1 where 1: "release_all BitMap_Test BitMap_Clear ?ds fm = Some b1" "wf_bitmap b1"
    "numBits b1 = numBits fm" "marked b1 = marked fm - set ?ds"
    using bm.release_all_spec [OF assms(1) d(1,2)] by auto
  obtain b2 where 2: "release_all BitMap_Test BitMap_Clear ?hs b1 = Some b2" "wf_bitmap b2"
    "numBits b2 = numBits b1" "marked b2 = marked b1 - set ?hs"
    using bm.release_all_spec [OF 1(2) d(3)] d(4) 1(4) by auto
  have "Deallocate fm h = Some b2"
    using 1(1) 2(1) assms(4,5) by (simp add: Deallocate_def elements_def)
  moreover have "marked b2 = marked fm - set (own_sectors h)" unfolding own using 1(4) 2(4) by auto
  ultimately show ?thesis using 1 2 by auto
qed

text \<open>
  C32. Allocating a file of a legal size either reports that the disk is too full, which
  happens exactly when fewer sectors are free than its data and chained headers need, and
  leaves the map alone; or it marks exactly that many distinct, previously free sectors,
  enough for all bytes of the file. Deallocating the resulting header restores the map.
\<close>
theorem allocate_deallocate:
  assumes "wf_bitmap fm" "sector_ok cfg" "0 \<le> sz" "sz \<le> MAX_FILE_LENGTH cfg"
    and "length (headerSectors h) = 32"
  shows "(if int (card (free_bits fm)) < data_count cfg sz + header_count cfg sz
    then \<exists>h'. Allocate cfg fm sz h = Some (False, fm, h')
    else \<exists>fm' h' fm''. Allocate cfg fm sz h = Some (True, fm', h')
      \<and> distinct (own_sectors h') \<and> set (own_sectors h') \<inter> marked fm = {}
      \<and> marked fm' = marked fm \<union> set (own_sectors h')
      \<and> int (length (own_sectors h')) = data_count cfg sz + header_count cfg sz
      \<and> sz \<le> MaxFileLength cfg h'
      \<and> Deallocate fm' h' = Some fm'' \<and> marked fm'' = marked fm)"
proof (cases "int (card (free_bits fm)) < data_count cfg sz + header_count cfg sz")
  case True
  then show ?thesis using Allocate_correct [OF assms] by simp
next
  case False
  note c = count_bounds [OF assms(2-4)]
  obtain fm' h' where A: "Allocate cfg fm sz h = Some (True, fm', h')"
    and h': "numSectors h' = data_count cfg sz" "numHeaderSectors h' = header_count cfg sz"
      "length (headerSectors h') = 32" "int (length (dataSectors h')) = MAX_DATA_SECTORS cfg"
      "distinct (own_sectors h')" "set (own_sectors h') \<subseteq> free_bits fm"
      "wf_bitmap fm'" "marked fm' = marked fm \<union> set (own_sectors h')"
    using Allocate_correct [OF assms] False by auto
  have len: "nat (numSectors h') \<le> length (dataSectors h')"
    "nat (numHeaderSectors h') \<le> length (headerSectors h')"
    using h' c by auto
  obtain fm'' where D: "Deallocate fm' h' = Some fm''" "marked fm'' = marked fm' - set (own_sectors h')"
    using Deallocate_correct [OF h'(7,5) _ len] h'(8) by auto
  have dis: "set (own_sectors h') \<inter> marked fm = {}" using h'(6) by (auto simp: free_bits_def)
  have "int (length (own_sectors h')) = data_count cfg sz + header_count cfg sz"
    using len h'(1,2) c by (simp add: own_sectors_def min_def)
  moreover have "marked fm'' = marked fm" using D h'(8) dis by auto
  moreover have "sz \<le> MaxFileLength cfg h'" using c h'(1) by (simp add: MaxFileLength_def)
  ultimately show ?thesis using False A h' D dis by auto
qed

subsection \<open>The header on disk\<close>

definition first_image :: "config \<Rightarrow> FileHeader \<Rightarrow> int list" where
  "first_image cfg h = [isdir h, numBytes h, numSectors h, numHeaderSectors h]
     @ take (nat (DatasInFirstSector cfg)) (dataSectors h) @ [headerSectors h ! 0]"

definition chain_image :: "config \<Rightarrow> FileHeader \<Rightarrow> nat \<Rightarrow> int list" where
  "chain_image cfg h i =
     take (nat (DatasInSector cfg))
       (drop (nat (DatasInFirstSector cfg) + i * nat (DatasInSector cfg)) (dataSectors h))
     @ [if int i + 1 < numHeaderSectors h then headerSectors h ! (i + 1) else 0]"

definition wf_header :: "config \<Rightarrow> FileHeader \<Rightarrow> bool" where
  "wf_header cfg h \<longleftrightarrow> 0 \<le> numHeaderSectors h \<and> numHeaderSectors h \<le> 31
     \<and> length (headerSectors h) = 32 \<and> int (length (dataSectors h)) = MAX_DATA_SECTORS cfg
     \<and> int32 (isdir h) \<and> int32 (numBytes h) \<and> int32 (numSectors h)
     \<and> (\<forall>x \<in> set (headerSectors h) \<union> set (dataSectors h). int32 x)"

definition wf_sectors :: "config \<Rightarrow> byte list list \<Rightarrow> bool" where
  "wf_sectors cfg d \<longleftrightarrow> length d = 2048 \<and> (\<forall>s \<in> set d. int (length s) = SectorSize cfg)"

lemma WriteSector_ok:
  assumes "wf_sectors cfg d" "0 \<le> s" "s < 2048" "int (length b) = SectorSize cfg"
  shows "WriteSector s b d = Some (d[nat s := b])" "wf_sectors cfg (d[nat s := b])"
  using assms set_update_subset_insert [of d "nat s" b]
  by (auto simp: WriteSector_def aset_def wf_sectors_def)

lemma ReadSector_ok:
  assumes "wf_sectors cfg d" "0 \<le> s" "s < 2048"
  shows "ReadSector s d = Some (d ! nat s)" "int (length (d ! nat s)) = SectorSize cfg"
  using assms by (auto simp: ReadSector_def aget_def wf_sectors_def)

text \<open>The sizes as natural numbers: \<open>D + 1\<close> integers per sector, \<open>D - 4\<close> in the first.\<close>

lemma sector_sizes:
  assumes "sector_ok cfg"
  obtains D where "4 < D" "DatasInSector cfg = int D" "DatasInFirstSector cfg = int (D - 4)"
    "next_link cfg = int D" "SectorSize cfg = int (4 * (D + 1))" "SectorSize cfg div 4 = int (D + 1)"
    "MAX_DATA_SECTORS cfg = int (31 * D + (D - 4))"
proof
  note s = sector_ok_counts [OF assms]
  let ?D = "nat (DatasInSector cfg)"
  have D: "DatasInSector cfg = int ?D" using s by simp
  show "4 < ?D" using s by simp
  then show "DatasInSector cfg = int ?D" "DatasInFirstSector cfg = int (?D - 4)"
    "next_link cfg = int ?D" using s by simp_all
  show SS: "SectorSize cfg = int (4 * (?D + 1))" using s D by simp
  then have "SectorSize cfg div 4 = int (4 * (?D + 1)) div int 4" by simp
  also have "\<dots> = int (?D + 1)" by (simp only: zdiv_int [symmetric]) simp
  finally show "SectorSize cfg div 4 = int (?D + 1)" .
  show "MAX_DATA_SECTORS cfg = int (31 * ?D + (?D - 4))"
    using s by (simp add: MAX_DATA_SECTORS_def MAX_HEADER_SECTORS_def)
qed

lemma chain_room:
  fixes D :: nat
  assumes "int i < n" "n \<le> 31" "4 < D" "int (length ds) = int (31 * D + (D - 4))"
  shows "(D - 4) + i * D + D \<le> length ds"
proof -
  have "i \<le> 30" using assms by linarith
  then have "(i + 1) * D \<le> 31 * D" by (intro mult_right_mono) simp_all
  moreover have "length ds = 31 * D + (D - 4)" using assms(4) by (simp only: of_nat_eq_iff)
  ultimately show ?thesis by (simp only: add_mult_distrib)
qed

lemma write_chained_eq:
  assumes "sector_ok cfg" "wf_header cfg h" "int i < numHeaderSectors h"
  shows "write_chained cfg h i d =
    WriteSector (headerSectors h ! i) (ints_to_bytes (chain_image cfg h i)) d"
    and "int (length (ints_to_bytes (chain_image cfg h i))) = SectorSize cfg"
    and "\<forall>x \<in> set (chain_image cfg h i). int32 x"
proof -
  obtain D where D: "4 < D" "DatasInSector cfg = int D" "DatasInFirstSector cfg = int (D - 4)"
    "next_link cfg = int D" "SectorSize cfg = int (4 * (D + 1))" "SectorSize cfg div 4 = int (D + 1)"
    "MAX_DATA_SECTORS cfg = int (31 * D + (D - 4))"
    by (rule sector_sizes [OF assms(1)])
  have room: "(D - 4) + i * D + D \<le> length (dataSectors h)"
    using assms(2,3) D by (intro chain_room) (auto simp: wf_header_def)
  have i: "i < 31" "length (headerSectors h) = 32" using assms(2,3) by (auto simp: wf_header_def)
  let ?img = "take D (drop ((D - 4) + i * D) (dataSectors h))"
  have len: "length ?img = D" using room by simp
  have off: "DatasInFirstSector cfg + int i * DatasInSector cfg = int ((D - 4) + i * D)"
    using D by simp
  have "copy_loop (dataSectors h) (int ((D - 4) + i * D)) (int 0) D (replicate (Suc D) 0)
      = Some (?img @ [0])"
    using room by (subst copy_loop_spec) (simp_all del: replicate_Suc, simp)
  then have c: "copy_loop (dataSectors h) (DatasInFirstSector cfg + int i * DatasInSector cfg) 0
      (nat (DatasInSector cfg)) (blank_image cfg) = Some (?img @ [0])"
    using D(2,3) by (simp add: blank_image_def D(6) nat_add_distrib del: replicate_Suc)
  have l: "aset (?img @ [0]) (next_link cfg) v = Some (?img @ [v])" for v
    using len D by (intro aset_last) simp
  have img: "chain_image cfg h i =
      ?img @ [if int i + 1 < numHeaderSectors h then headerSectors h ! (i + 1) else 0]"
    by (simp add: chain_image_def D(2,3))
  have nx: "(if int i + 1 < numHeaderSectors h then aget (headerSectors h) (int i + 1) else Some 0)
     = Some (if int i + 1 < numHeaderSectors h then headerSectors h ! (i + 1) else 0)"
    using i by (simp add: aget_def nat_add_distrib)
  show "write_chained cfg h i d =
      WriteSector (headerSectors h ! i) (ints_to_bytes (chain_image cfg h i)) d"
    unfolding write_chained_def c nx img using i by (simp add: l aget_def Let_def)
  show "int (length (ints_to_bytes (chain_image cfg h i))) = SectorSize cfg"
    using len D by (simp add: img)
  show "\<forall>x \<in> set (chain_image cfg h i). int32 x"
    unfolding img using assms(2) i
    by (auto simp: wf_header_def int32_def [of 0] dest!: in_set_takeD in_set_dropD)
qed

lemma WriteBack_eq:
  assumes "sector_ok cfg" "wf_header cfg h"
  shows "WriteBack cfg sector h d =
    Option.bind (WriteSector sector (ints_to_bytes (first_image cfg h)) d)
      (foldM (write_chained cfg h) [0..<nat (numHeaderSectors h)])"
    and "int (length (ints_to_bytes (first_image cfg h))) = SectorSize cfg"
    and "\<forall>x \<in> set (first_image cfg h). int32 x"
proof -
  obtain D where D: "4 < D" "DatasInSector cfg = int D" "DatasInFirstSector cfg = int (D - 4)"
    "next_link cfg = int D" "SectorSize cfg = int (4 * (D + 1))" "SectorSize cfg div 4 = int (D + 1)"
    "MAX_DATA_SECTORS cfg = int (31 * D + (D - 4))"
    by (rule sector_sizes [OF assms(1)])
  have w: "length (headerSectors h) = 32" "D - 4 \<le> length (dataSectors h)"
    "0 \<le> numHeaderSectors h" "numHeaderSectors h \<le> 31"
    using assms(2) D by (auto simp: wf_header_def)
  let ?ds = "take (D - 4) (dataSectors h)"
  let ?f = "[isdir h, numBytes h, numSectors h, numHeaderSectors h]"
  obtain k where k: "D = k + 4" using D(1) by (metis add.commute le_add_diff_inverse less_imp_le_nat)
  have len: "length ?ds = k" using w k by simp
  have bl: "blank_image cfg = 0 # 0 # 0 # 0 # replicate (k + 1) 0"
    unfolding blank_image_def D(6) nat_int by (simp add: k numeral_eq_Suc)
  have "copy_loop (dataSectors h) (int 0) (int 4) k (?f @ replicate (k + 1) 0)
      = Some (?f @ take k (dataSectors h) @ [0])"
    using w k by (subst copy_loop_spec) (simp_all add: drop_Cons')
  then have c: "copy_loop (dataSectors h) 0 4 (nat (DatasInSector cfg - 4))
      (?f @ replicate (k + 1) 0) = Some (?f @ ?ds @ [0])"
    using D(2) k by simp
  have l: "aset (?f @ ?ds @ [0]) (next_link cfg) v = Some (?f @ ?ds @ [v])" for v
    using aset_last [of "next_link cfg" "?f @ ?ds" 0 v] len D(4) k by simp
  have img: "first_image cfg h = ?f @ ?ds @ [headerSectors h ! 0]"
    by (simp add: first_image_def D(3))
  have i3: "do { i0 \<leftarrow> aset (blank_image cfg) 0 (isdir h); i1 \<leftarrow> aset i0 1 (numBytes h);
      i2 \<leftarrow> aset i1 2 (numSectors h); aset i2 3 (numHeaderSectors h) } = Some (?f @ replicate (k + 1) 0)"
    by (simp add: bl aset_def numeral_eq_Suc)
  have "WriteBack cfg sector h d = do {
      i3 \<leftarrow> do { i0 \<leftarrow> aset (blank_image cfg) 0 (isdir h); i1 \<leftarrow> aset i0 1 (numBytes h);
        i2 \<leftarrow> aset i1 2 (numSectors h); aset i2 3 (numHeaderSectors h) };
      i4 \<leftarrow> copy_loop (dataSectors h) 0 4 (nat (DatasInSector cfg - 4)) i3;
      nx \<leftarrow> aget (headerSectors h) 0; img \<leftarrow> aset i4 (next_link cfg) nx;
      d1 \<leftarrow> WriteSector sector (ints_to_bytes img) d;
      foldM (write_chained cfg h) [0..<nat (numHeaderSectors h)] d1 }"
    by (simp add: WriteBack_def)
  then show "WriteBack cfg sector h d =
    Option.bind (WriteSector sector (ints_to_bytes (first_image cfg h)) d)
      (foldM (write_chained cfg h) [0..<nat (numHeaderSectors h)])"
    unfolding i3 img using w by (simp only: bind.bind_lunit c l) (simp add: aget_def l)
  show "int (length (ints_to_bytes (first_image cfg h))) = SectorSize cfg"
    using len D k by (simp add: img)
  show "\<forall>x \<in> set (first_image cfg h). int32 x"
    unfolding img using assms(2) w
    by (auto simp: wf_header_def int32_def [of "numHeaderSectors h"] dest!: in_set_takeD)
qed

text \<open>The sectors of the header itself, and what it means that a disk stores a header.\<close>

definition chain :: "FileHeader \<Rightarrow> int list" where
  "chain h = take (nat (numHeaderSectors h)) (headerSectors h)"

definition header_at :: "config \<Rightarrow> int \<Rightarrow> FileHeader \<Rightarrow> byte list list \<Rightarrow> bool" where
  "header_at cfg sector h d \<longleftrightarrow>
     d ! nat sector = ints_to_bytes (first_image cfg h)
     \<and> (\<forall>i < nat (numHeaderSectors h).
          d ! nat (headerSectors h ! i) = ints_to_bytes (chain_image cfg h i))"

lemma chain_nth:
  "wf_header cfg h \<Longrightarrow> i < nat (numHeaderSectors h) \<Longrightarrow> chain h ! i = headerSectors h ! i \<and> i < length (chain h)"
  by (auto simp: chain_def wf_header_def)

lemma WriteBack_ok:
  assumes "sector_ok cfg" "wf_header cfg h" "wf_sectors cfg d" "0 \<le> sector" "sector < 2048"
    and "distinct (sector # chain h)" "set (chain h) \<subseteq> {0..<2048}"
  shows "\<exists>d'. WriteBack cfg sector h d = Some d' \<and> wf_sectors cfg d' \<and> header_at cfg sector h d'
    \<and> (\<forall>s. s \<noteq> nat sector \<and> s \<notin> nat ` set (chain h) \<longrightarrow> d' ! s = d ! s)"
proof -
  let ?n = "nat (numHeaderSectors h)" and ?hs = "headerSectors h"
  note W = WriteBack_eq [OF assms(1,2)]
  let ?d1 = "d[nat sector := ints_to_bytes (first_image cfg h)]"
  have d1: "WriteSector sector (ints_to_bytes (first_image cfg h)) d = Some ?d1" "wf_sectors cfg ?d1"
    using WriteSector_ok [OF assms(3-5) W(2)] by simp_all
  have len: "length ?d1 = 2048" using d1(2) by (simp add: wf_sectors_def)
  have mem: "?hs ! i \<in> set (chain h)" if "i < ?n" for i
    using chain_nth [OF assms(2) that] by (metis nth_mem)
  then have rng: "0 \<le> ?hs ! i" "?hs ! i < 2048" "?hs ! i \<noteq> sector" if "i < ?n" for i
    using that assms(6,7) by (fastforce)+
  have inj: "nat (?hs ! i) \<noteq> nat (?hs ! j)" if "i < ?n" "j < ?n" "i \<noteq> j" for i j
  proof -
    have "chain h ! i \<noteq> chain h ! j"
      using that assms(6) chain_nth [OF assms(2), of i] chain_nth [OF assms(2), of j]
      by (metis distinct.simps(2) nth_eq_iff_index_eq)
    then show ?thesis using that rng chain_nth [OF assms(2)] by (simp add: eq_nat_nat_iff)
  qed
  let ?I = "\<lambda>k d'. wf_sectors cfg d'
     \<and> (\<forall>i < k. d' ! nat (?hs ! i) = ints_to_bytes (chain_image cfg h i))
     \<and> (\<forall>s. s \<notin> nat ` set (chain h) \<longrightarrow> d' ! s = ?d1 ! s)"
  have "\<exists>t. foldM (write_chained cfg h) [0..<?n] ?d1 = Some t \<and> ?I ?n t"
  proof (rule foldM_upt_rule [where I = ?I])
    show "?I 0 ?d1" using d1(2) by simp
  next
    fix i t
    assume i: "i < ?n" and I: "?I i t"
    have ii: "int i < numHeaderSectors h" using i by linarith
    note wc = write_chained_eq [OF assms(1,2) ii]
    let ?t' = "t[nat (?hs ! i) := ints_to_bytes (chain_image cfg h i)]"
    have t': "WriteSector (?hs ! i) (ints_to_bytes (chain_image cfg h i)) t = Some ?t'" "wf_sectors cfg ?t'"
      using WriteSector_ok [of cfg t "?hs ! i"] I rng [OF i] wc(2) by simp_all
    have lt: "nat (?hs ! i) < length t" using I rng [OF i] by (simp add: wf_sectors_def nat_less_iff)
    have "?t' ! nat (?hs ! j) = ints_to_bytes (chain_image cfg h j)" if "j < Suc i" for j
      using that I lt inj [of i j] i by (cases "j = i") auto
    moreover have "?t' ! s = ?d1 ! s" if "s \<notin> nat ` set (chain h)" for s
    proof -
      have "nat (?hs ! i) \<noteq> s" using that mem [OF i] by blast
      then show ?thesis using I that by simp
    qed
    ultimately show "\<exists>t'. write_chained cfg h i t = Some t' \<and> ?I (Suc i) t'"
      using t' wc(1) by auto
  qed
  then obtain t where t: "foldM (write_chained cfg h) [0..<?n] ?d1 = Some t" "?I ?n t" by blast
  have nin: "nat sector \<notin> nat ` set (chain h)"
    using assms(4,6,7) by (auto simp: eq_nat_nat_iff)
  then have "t ! nat sector = ?d1 ! nat sector" using t(2) by blast
  then have "t ! nat sector = ints_to_bytes (first_image cfg h)"
    using assms(4,5) len by (simp add: nat_less_iff)
  then have "header_at cfg sector h t" using t(2) by (simp add: header_at_def)
  moreover have "\<forall>s. s \<noteq> nat sector \<and> s \<notin> nat ` set (chain h) \<longrightarrow> t ! s = d ! s"
    using t(2) by simp
  ultimately show ?thesis using t W(1) d1(1) by auto
qed

text \<open>Two headers with the same fields and the same tables, as far as these are in use.\<close>

definition same_header :: "config \<Rightarrow> FileHeader \<Rightarrow> FileHeader \<Rightarrow> bool" where
  "same_header cfg h h' \<longleftrightarrow> isdir h' = isdir h \<and> numBytes h' = numBytes h
     \<and> numSectors h' = numSectors h \<and> numHeaderSectors h' = numHeaderSectors h
     \<and> chain h' = chain h
     \<and> (let n = nat (DatasInFirstSector cfg + numHeaderSectors h * DatasInSector cfg)
        in take n (dataSectors h') = take n (dataSectors h))"

lemma fetch_chained_step:
  assumes "sector_ok cfg" "wf_header cfg h" "wf_sectors cfg d" "int i < numHeaderSectors h"
    and "set (chain h) \<subseteq> {0..<2048}" "header_at cfg sector h d"
    and "DatasInSector cfg = int D" "DatasInFirstSector cfg = int (D - 4)" "4 < D"
    and "length hs = 32" "hs ! i = headerSectors h ! i" "length ds = length (dataSectors h)"
    and "take ((D - 4) + i * D) ds = take ((D - 4) + i * D) (dataSectors h)"
  shows "\<exists>hs' ds'. fetch_chained cfg (numHeaderSectors h) d i (hs, ds) = Some (hs', ds')
    \<and> length hs' = 32 \<and> take (Suc i) hs' = take (Suc i) hs
    \<and> (int (Suc i) < numHeaderSectors h \<longrightarrow> hs' ! Suc i = headerSectors h ! Suc i)
    \<and> length ds' = length (dataSectors h)
    \<and> take ((D - 4) + Suc i * D) ds' = take ((D - 4) + Suc i * D) (dataSectors h)"
proof -
  let ?off = "(D - 4) + i * D" and ?img = "chain_image cfg h i"
  have i: "i < 31" using assms(2,4) by (simp add: wf_header_def)
  have room: "?off + D \<le> length (dataSectors h)"
  proof -
    have "int (length (dataSectors h)) = int (31 * D + (D - 4))"
      using assms(1,2,7,8) by (simp add: wf_header_def MAX_DATA_SECTORS_def MAX_HEADER_SECTORS_def)
    then show ?thesis using assms(2,4,9) by (intro chain_room) (auto simp: wf_header_def)
  qed
  have ci: "?img = take D (drop ?off (dataSectors h))
      @ [if int i + 1 < numHeaderSectors h then headerSectors h ! (i + 1) else 0]"
    by (simp add: chain_image_def assms(7,8))
  have len: "length (take D (drop ?off (dataSectors h))) = D" using room by simp
  have "headerSectors h ! i \<in> set (chain h)"
    using chain_nth [OF assms(2), of i] assms(4) by (metis nth_mem zless_nat_eq_int_zless)
  then have s: "0 \<le> headerSectors h ! i" "headerSectors h ! i < 2048" using assms(5) by auto
  have rd: "ReadSector (headerSectors h ! i) d = Some (ints_to_bytes ?img)"
    using ReadSector_ok(1) [OF assms(3) s] assms(4,6) by (simp add: header_at_def)
  have img: "bytes_to_ints (ints_to_bytes ?img) = ?img"
    using write_chained_eq(3) [OF assms(1,2,4)] by (rule bytes_to_ints_inverse)
  let ?ds' = "take ?off ds @ take D (drop ?off (dataSectors h)) @ drop (?off + D) ds"
  have "copy_loop ?img (int 0) (int ?off) D ds = Some ?ds'"
    using room len assms(12) by (subst copy_loop_spec) (simp_all add: ci)
  then have cp: "copy_loop ?img 0 (DatasInFirstSector cfg + int i * DatasInSector cfg)
      (nat (DatasInSector cfg)) ds = Some ?ds'"
    by (simp add: assms(7,8))
  have nl: "next_link cfg = int D" using sector_ok_counts(4) [OF assms(1)] assms(7) by simp
  have nx: "aget ?img (next_link cfg) = Some (headerSectors h ! (i + 1))"
    if "int i + 1 < numHeaderSectors h"
    using that len unfolding ci nl by (simp add: aget_def nth_append)
  define hs' where "hs' = (if int i + 1 < numHeaderSectors h
     then hs[Suc i := headerSectors h ! Suc i] else hs)"
  have as: "aset hs (int i + 1) v = Some (hs[Suc i := v])" for v
    using i assms(10) by (simp add: aset_def nat_add_distrib)
  have "fetch_chained cfg (numHeaderSectors h) d i (hs, ds) = Some (hs', ?ds')"
    using i assms(10,11) rd nx
    by (simp add: fetch_chained_def aget_def img cp as hs'_def)
  moreover have "take (?off + D) ?ds' = take (?off + D) (dataSectors h)"
  proof -
    have "take (?off + D) ?ds' = take ?off ds @ take D (drop ?off (dataSectors h))"
      using room assms(12) len by simp
    also have "\<dots> = take (?off + D) (dataSectors h)"
      unfolding assms(13) by (rule take_add [symmetric])
    finally show ?thesis .
  qed
  then have "take ((D - 4) + Suc i * D) ?ds' = take ((D - 4) + Suc i * D) (dataSectors h)"
    by (simp only: mult_Suc add.assoc add.commute [of D])
  moreover have "length ?ds' = length (dataSectors h)" using room assms(12) by simp
  moreover have "length hs' = 32" "take (Suc i) hs' = take (Suc i) hs"
    "int (Suc i) < numHeaderSectors h \<longrightarrow> hs' ! Suc i = headerSectors h ! Suc i"
    using i assms(10) by (auto simp: hs'_def)
  ultimately show ?thesis by blast
qed

lemma FetchFrom_ok:
  assumes "sector_ok cfg" "wf_header cfg h" "wf_sectors cfg d" "0 \<le> sector" "sector < 2048"
    and "set (chain h) \<subseteq> {0..<2048}" "header_at cfg sector h d" "length (headerSectors h0) = 32"
  shows "\<exists>h'. FetchFrom cfg sector d h0 = Some h' \<and> same_header cfg h h'
    \<and> length (headerSectors h') = 32 \<and> int (length (dataSectors h')) = MAX_DATA_SECTORS cfg"
proof -
  obtain D where D: "4 < D" "DatasInSector cfg = int D" "DatasInFirstSector cfg = int (D - 4)"
    "next_link cfg = int D" "SectorSize cfg = int (4 * (D + 1))" "SectorSize cfg div 4 = int (D + 1)"
    "MAX_DATA_SECTORS cfg = int (31 * D + (D - 4))"
    by (rule sector_sizes [OF assms(1)])
  let ?n = "nat (numHeaderSectors h)" and ?F = "D - 4"
  have w: "length (headerSectors h) = 32" "0 \<le> numHeaderSectors h" "numHeaderSectors h \<le> 31"
    "length (dataSectors h) = 31 * D + ?F"
    using assms(2) D(7) by (auto simp: wf_header_def)
  let ?ds = "take ?F (dataSectors h)"
  let ?img = "first_image cfg h"
  have rd: "ReadSector sector d = Some (ints_to_bytes ?img)"
    using ReadSector_ok(1) [OF assms(3-5)] assms(7) by (simp add: header_at_def)
  have img: "bytes_to_ints (ints_to_bytes ?img) = ?img"
    using WriteBack_eq(3) [OF assms(1,2)] by (rule bytes_to_ints_inverse)
  have fi: "?img = [isdir h, numBytes h, numSectors h, numHeaderSectors h] @ ?ds @ [headerSectors h ! 0]"
    by (simp add: first_image_def D(3))
  have len: "length ?ds = ?F" using w by simp
  have hd4: "aget ?img 0 = Some (isdir h)" "aget ?img 1 = Some (numBytes h)"
    "aget ?img 2 = Some (numSectors h)" "aget ?img 3 = Some (numHeaderSectors h)"
    by (simp_all add: fi aget_def)
  have nx: "aget ?img (next_link cfg) = Some (headerSectors h ! 0)"
    unfolding fi D(4) append_assoc [symmetric]
    by (rule aget_last) (use len D(1) in \<open>simp del: length_take\<close>)
  have nt: "length (new_table cfg) = 31 * D + ?F" by (simp add: new_table_def D(7))
  have c0: "copy_loop ?img (int 4) (int 0) ?F (new_table cfg) = Some (?ds @ drop ?F (new_table cfg))"
    using nt len by (subst copy_loop_spec) (simp_all add: fi)
  have cp: "copy_loop ?img 4 0 (nat (DatasInSector cfg - 4)) (new_table cfg)
      = Some (?ds @ drop ?F (new_table cfg))"
  proof -
    have "nat (DatasInSector cfg - 4) = ?F" using D(2) by arith
    then show ?thesis using c0 by simp
  qed
  let ?hs0 = "(headerSectors h0)[0 := headerSectors h ! 0]"
  let ?ds0 = "?ds @ drop ?F (new_table cfg)"
  let ?I = "\<lambda>k (hs, ds). length hs = 32 \<and> length ds = length (dataSectors h)
     \<and> take k hs = take k (headerSectors h) \<and> (int k < numHeaderSectors h \<longrightarrow> hs ! k = headerSectors h ! k)
     \<and> take (?F + k * D) ds = take (?F + k * D) (dataSectors h)"
  have "\<exists>t. foldM (fetch_chained cfg (numHeaderSectors h) d) [0..<?n] (?hs0, ?ds0) = Some t \<and> ?I ?n t"
  proof (rule foldM_upt_rule [where I = ?I])
    show "?I 0 (?hs0, ?ds0)" using assms(8) len w nt by simp
  next
    fix i t
    assume i: "i < ?n" and I: "?I i t"
    obtain hs ds where t: "t = (hs, ds)" by (cases t)
    have ii: "int i < numHeaderSectors h" using i by linarith
    obtain hs' ds' where "fetch_chained cfg (numHeaderSectors h) d i (hs, ds) = Some (hs', ds')"
      "length hs' = 32" "take (Suc i) hs' = take (Suc i) hs"
      "int (Suc i) < numHeaderSectors h \<longrightarrow> hs' ! Suc i = headerSectors h ! Suc i"
      "length ds' = length (dataSectors h)"
      "take (?F + Suc i * D) ds' = take (?F + Suc i * D) (dataSectors h)"
      using fetch_chained_step [OF assms(1,2,3) ii assms(6,7) D(2,3,1), of hs ds] I t ii by auto
    moreover have "take (Suc i) hs = take (Suc i) (headerSectors h)"
      using I t ii w i by (simp add: take_Suc_conv_app_nth)
    ultimately show "\<exists>t'. fetch_chained cfg (numHeaderSectors h) d i t = Some t' \<and> ?I (Suc i) t'"
      unfolding t by auto
  qed
  then obtain hs ds where f: "foldM (fetch_chained cfg (numHeaderSectors h) d) [0..<?n] (?hs0, ?ds0)
      = Some (hs, ds)" and I: "?I ?n (hs, ds)"
    by auto
  let ?h' = "\<lparr>isdir = isdir h, numBytes = numBytes h, numSectors = numSectors h,
     numHeaderSectors = numHeaderSectors h, headerSectors = hs, dataSectors = ds\<rparr>"
  have as: "aset (headerSectors h0) 0 (headerSectors h ! 0) = Some ?hs0"
    using assms(8) by (simp add: aset_def)
  have F: "FetchFrom cfg sector d h0 = Some ?h'"
    using w by (simp add: FetchFrom_def rd img hd4 nx cp as f MAX_HEADER_SECTORS_def)
  have n: "nat (DatasInFirstSector cfg + numHeaderSectors h * DatasInSector cfg) = ?F + ?n * D"
    using w unfolding D(2,3) by (simp add: nat_add_distrib nat_mult_distrib)
  have "same_header cfg h ?h'"
    using I by (simp add: same_header_def chain_def n)
  then show ?thesis using F I w D(7) by auto
qed

text \<open>
  C11. Writing a header to disk and fetching it again gives back every field, the chained
  header sectors and all data sectors they can name, for files with and without chained
  headers, into a header object with any old contents; no other sector of the disk is
  touched.
\<close>
theorem header_roundtrip:
  assumes "sector_ok cfg" "wf_header cfg h" "wf_sectors cfg d" "0 \<le> sector" "sector < 2048"
    and "distinct (sector # chain h)" "set (chain h) \<subseteq> {0..<2048}" "length (headerSectors h0) = 32"
  shows "\<exists>d' h'. WriteBack cfg sector h d = Some d' \<and> FetchFrom cfg sector d' h0 = Some h'
    \<and> same_header cfg h h'
    \<and> (\<forall>s. s \<noteq> nat sector \<and> s \<notin> nat ` set (chain h) \<longrightarrow> d' ! s = d ! s)"
proof -
  obtain d' where d': "WriteBack cfg sector h d = Some d'" "wf_sectors cfg d'" "header_at cfg sector h d'"
    "\<forall>s. s \<noteq> nat sector \<and> s \<notin> nat ` set (chain h) \<longrightarrow> d' ! s = d ! s"
    using WriteBack_ok [OF assms(1-7)] by blast
  then show ?thesis
    using FetchFrom_ok [OF assms(1,2) d'(2) assms(4,5,7) d'(3) assms(8)] by blast
qed

subsection \<open>Growing a file\<close>

text \<open>
  \<open>reAllocate\<close> computes the chained header sectors of the grown file from the number
  of data sectors it had before. A file that fitted in its first header sector and grows
  beyond it gets its data sectors but no chained header: the sectors after the first
  \<open>DatasInFirstSector\<close> are allocated and lost when the header is written back.
\<close>
theorem reallocate_forgets_headers:
  assumes "wf_bitmap fm" "sector_ok cfg" "newsz \<le> MAX_FILE_LENGTH cfg"
    and "numHeaderSectors h = 0" "0 \<le> numSectors h" "numSectors h \<le> DatasInFirstSector cfg"
    and "int (length (dataSectors h)) = MAX_DATA_SECTORS cfg"
    and "DatasInFirstSector cfg * SectorSize cfg < newsz"
    and "data_count cfg newsz - numSectors h \<le> int (card (free_bits fm))"
  shows "\<exists>fm' h'. reAllocate cfg fm oldsz newsz h = Some (True, fm', h')
    \<and> numSectors h' = data_count cfg newsz \<and> DatasInFirstSector cfg < numSectors h'
    \<and> numHeaderSectors h' = 0 \<and> 0 < header_count cfg newsz"
proof -
  note s = sector_ok_counts [OF assms(2)]
  have "0 \<le> DatasInFirstSector cfg * SectorSize cfg"
    using s(1,6) by (intro mult_nonneg_nonneg) simp_all
  then have n0: "0 \<le> newsz" using assms(8) by linarith
  note c = count_bounds [OF assms(2) n0 assms(3)]
  have gt: "DatasInFirstSector cfg < data_count cfg newsz"
  proof (rule ccontr)
    assume "\<not> ?thesis"
    then have "data_count cfg newsz * SectorSize cfg \<le> DatasInFirstSector cfg * SectorSize cfg"
      using s(1) by (intro mult_right_mono) simp_all
    then show False using c(6) assms(8) by simp
  qed
  have hc: "0 < header_count cfg newsz" using c(3,5) gt by (cases "header_count cfg newsz = 0") auto
  have nh: "divRoundUp (numSectors h - DatasInFirstSector cfg) (DatasInSector cfg) = 0"
    using assms(5,6) s by (intro divRoundUp_neg) simp_all
  let ?k = "nat (data_count cfg newsz - numSectors h)"
  have k: "int ?k \<le> int (card ({0..<numBits fm} - marked fm))"
    using assms(6,9) gt by (simp add: free_bits_def)
  have room: "nat (numSectors h) + ?k \<le> length (dataSectors h)"
    using assms(5,7) gt assms(6) c(2) by linarith
  obtain ds b where ds: "fill_from BitMap_Find (numSectors h) ?k (dataSectors h, fm) = Some (ds, b)"
    using bm.fill_from_spec [OF assms(1) k assms(5) room] by blast
  have nc: "BitMap_NumClear fm = Some (int (card (free_bits fm)))"
    using BitMap_NumClear_correct [OF assms(1)] .
  have nohdr: "fill_from BitMap_Find 0 0 (headerSectors h, fm) = Some (headerSectors h, fm)"
    by (simp add: fill_from_def)
  have "reAllocate cfg fm oldsz newsz h = Some (True, b, h\<lparr>numBytes := newsz, dataSectors := ds,
      numSectors := data_count cfg newsz\<rparr>)"
    using assms(3,4,9) nc nohdr ds
    by (simp add: reAllocate_def Let_def nh data_count_def [symmetric])
  then show ?thesis using gt hc assms(4) by simp
qed

text \<open>
  When the disk is too full for the growth, \<open>reAllocate\<close> returns \<open>false\<close> without
  allocating anything, but has already set the length of the file: the header then claims
  more bytes than its sectors hold.
\<close>
theorem reallocate_failure_sets_length:
  assumes "reAllocate cfg fm oldsz newsz h = Some (False, fm', h')"
  shows "fm' = fm \<and> h' = h\<lparr>numBytes := newsz\<rparr>
    \<and> (0 < SectorSize cfg \<and> 0 \<le> newsz \<and> MaxFileLength cfg h < newsz \<longrightarrow> MaxFileLength cfg h' < FileLength h')"
  using assms
  by (auto simp: reAllocate_def Let_def MaxFileLength_def FileLength_def
      split: bind_splits if_splits prod.splits)

text \<open>Instances: 128-byte sectors (27 numbers in the first header sector) and small maps.\<close>

definition map32 :: bitmap where
  "map32 = \<lparr>numBits = 32, numWords = 1, bits = [0]\<rparr>"

definition full_map :: bitmap where
  "full_map = \<lparr>numBits = 1, numWords = 1, bits = [1]\<rparr>"

definition empty_header :: FileHeader where
  "empty_header = \<lparr>isdir = 0, numBytes = 0, numSectors = 0, numHeaderSectors = 0,
     headerSectors = replicate 32 0, dataSectors = new_table tiny_cfg\<rparr>"

lemma tiny_sectors [simp]:
  "sector_ok tiny_cfg" "SectorSize tiny_cfg = 128" "DatasInFirstSector tiny_cfg = 27"
  "DatasInSector tiny_cfg = 31" "MAX_DATA_SECTORS tiny_cfg = 988" "MAX_FILE_LENGTH tiny_cfg = 126464"
  by (simp_all add: sector_ok_def tiny_cfg_def DatasInFirstSector_def DatasInSector_def
      MAX_DATA_SECTORS_def MAX_FILE_LENGTH_def MAX_HEADER_SECTORS_def)

lemma map32_free: "wf_bitmap map32" "free_bits map32 = {0..<32}" "marked map32 = {}"
proof -
  show m: "marked map32 = {}" by (auto simp: marked_def map32_def)
  show "wf_bitmap map32"
    by (simp add: wf_bitmap_def map32_def divRoundUp_def BITS_IN_WORD_def cint_simps)
  show "free_bits map32 = {0..<32}" unfolding free_bits_def m by (simp add: map32_def)
qed

theorem allocate_deallocate_witness:
  "\<exists>fm' h' fm''. Allocate tiny_cfg map32 300 empty_header = Some (True, fm', h')
    \<and> length (own_sectors h') = 3 \<and> Deallocate fm' h' = Some fm'' \<and> marked fm'' = {}"
proof -
  have c: "data_count tiny_cfg 300 = 3"
    by (simp add: data_count_def divRoundUp_def cint_simps)
  have h: "header_count tiny_cfg 300 = 0"
    unfolding header_count_def c by (intro divRoundUp_neg) simp_all
  show ?thesis
    using allocate_deallocate [OF map32_free(1), of tiny_cfg 300 empty_header]
    by (auto simp: c h map32_free empty_header_def)
qed

theorem header_roundtrip_witness:
  "\<exists>d' h'. WriteBack tiny_cfg 5 empty_header (replicate 2048 (replicate 128 0)) = Some d'
    \<and> FetchFrom tiny_cfg 5 d' empty_header = Some h' \<and> same_header tiny_cfg empty_header h'"
proof -
  have "wf_header tiny_cfg empty_header"
    by (auto simp: wf_header_def empty_header_def new_table_def int32_def) (simp_all add: tiny_cfg_def)
  moreover have "wf_sectors tiny_cfg (replicate 2048 (replicate 128 0))"
    by (simp add: wf_sectors_def)
  moreover have "chain empty_header = []" by (simp add: chain_def empty_header_def)
  moreover have "length (headerSectors empty_header) = 32" by (simp add: empty_header_def)
  ultimately show ?thesis
    using header_roundtrip [of tiny_cfg empty_header "replicate 2048 (replicate 128 0)" 5 empty_header]
    by auto
qed

theorem reallocate_forgets_headers_witness:
  "\<exists>fm' h'. reAllocate tiny_cfg map32 0 (28 * 128) empty_header = Some (True, fm', h')
    \<and> numSectors h' = 28 \<and> numHeaderSectors h' = 0"
proof -
  have c: "data_count tiny_cfg (28 * 128) = 28"
    by (simp add: data_count_def divRoundUp_def cint_simps)
  have "int (length (dataSectors empty_header)) = MAX_DATA_SECTORS tiny_cfg"
    "numHeaderSectors empty_header = 0" "numSectors empty_header = 0"
    by (simp_all add: empty_header_def new_table_def)
  then show ?thesis
    using reallocate_forgets_headers [OF map32_free(1), of tiny_cfg "28 * 128" empty_header 0] c
    by (auto simp: map32_free)
qed

theorem reallocate_failure_sets_length_witness:
  "\<exists>h'. reAllocate tiny_cfg full_map 0 128 empty_header = Some (False, full_map, h')
    \<and> MaxFileLength tiny_cfg h' < FileLength h'"
proof -
  have w: "wf_bitmap full_map"
    by (simp add: wf_bitmap_def full_map_def divRoundUp_def BITS_IN_WORD_def cint_simps)
  have "free_bits full_map = {}" by (auto simp: free_bits_def marked_def full_map_def)
  then have nc: "BitMap_NumClear full_map = Some 0" using BitMap_NumClear_correct [OF w] by simp
  have d: "divRoundUp 128 128 = 1" "divRoundUp (- 27) 31 = 0"
    by (simp add: divRoundUp_def cint_simps) (rule divRoundUp_neg, simp_all)
  have r: "reAllocate tiny_cfg full_map 0 128 empty_header
      = Some (False, full_map, empty_header\<lparr>numBytes := 128\<rparr>)"
    by (simp add: reAllocate_def nc d empty_header_def)
  show ?thesis
    using reallocate_failure_sets_length [OF r] r by (simp add: MaxFileLength_def empty_header_def)
qed

end
