(* ===== verification/Nachos_OpenFile.thy ===== *)
theory Nachos_OpenFile
  imports Nachos_FileHdr
begin

text \<open>
  Open files (\<open>filesys/openfile.cc\<close>): reading and writing any range of bytes over whole
  sectors. A transfer buffer is the list of the bytes read or written.

  \<open>WriteAt\<close> on a file that must grow reads the map of free sectors from its file, and
  writes it back with a nested \<open>WriteAt\<close>. The map file has a fixed size, so the nested
  call does not grow it: it is \<open>WriteAt_plain\<close>, which has no value when it would have
  to. \<open>filesystem\<close> is the state that these calls share, \<open>g_file_system\<close> and the disk.
\<close>

record OpenFile =
  hdr :: FileHeader
  seekPosition :: int
  fSector :: int
  fname :: "byte list"

record filesystem =
  sectors :: "byte list list"
  freeMapFile :: OpenFile
  directoryFile :: OpenFile
  createLock :: bool

definition OpenFile_new :: "config \<Rightarrow> int \<Rightarrow> byte list list \<Rightarrow> OpenFile option" where
  "OpenFile_new cfg sector d = do {
     h \<leftarrow> FetchFrom cfg sector d (FileHeader_new cfg);
     Some \<lparr>hdr = h, seekPosition = 0, fSector = sector,
       fname = map (\<lambda>i. word_of_int (fresh cfg i)) [0..<nat (MaxFileNameSize cfg)]\<rparr> }"

definition Seek :: "int \<Rightarrow> OpenFile \<Rightarrow> OpenFile" where
  "Seek position f = f\<lparr>seekPosition := position\<rparr>"

text \<open>A part of a buffer, and \<open>bcopy\<close> into one; outside the buffer there is no value.\<close>

definition bufpart :: "byte list \<Rightarrow> int \<Rightarrow> int \<Rightarrow> byte list option" where
  "bufpart buf off n =
     (if 0 \<le> off \<and> 0 \<le> n \<and> off + n \<le> int (length buf)
      then Some (take (nat n) (drop (nat off) buf)) else None)"

definition blit :: "byte list \<Rightarrow> int \<Rightarrow> byte list \<Rightarrow> byte list option" where
  "blit buf off bs =
     (if 0 \<le> off \<and> off + int (length bs) \<le> int (length buf)
      then Some (take (nat off) buf @ bs @ drop (nat off + length bs) buf) else None)"

definition read_range :: "config \<Rightarrow> FileHeader \<Rightarrow> int \<Rightarrow> nat \<Rightarrow> byte list list \<Rightarrow> byte list option" where
  "read_range cfg h firstSector n d =
     foldM (\<lambda>k buf. do {
       s \<leftarrow> ByteToSector cfg h ((firstSector + int k) * SectorSize cfg);
       b \<leftarrow> ReadSector s d;
       Some (buf @ b) }) [0..<n] []"

definition ReadAt :: "config \<Rightarrow> FileHeader \<Rightarrow> int \<Rightarrow> int \<Rightarrow> byte list list \<Rightarrow> byte list option" where
  "ReadAt cfg h count position d =
     (let fileLength = FileLength h in
      if count \<le> 0 \<or> fileLength \<le> position then Some []
      else let n = (if fileLength < position + count then fileLength - position else count);
               firstSector = divRoundDown position (SectorSize cfg);
               lastSector = divRoundDown (position + n - 1) (SectorSize cfg);
               nsec = 1 + lastSector - firstSector
           in do {
             buf \<leftarrow> read_range cfg h firstSector (nat nsec) d;
             bufpart buf (position - firstSector * SectorSize cfg) n })"

text \<open>\<open>Read\<close>: the bytes, and the file with its position advanced.\<close>

definition Read :: "config \<Rightarrow> int \<Rightarrow> OpenFile \<Rightarrow> byte list list \<Rightarrow> (byte list \<times> OpenFile) option" where
  "Read cfg count f d = do {
     bs \<leftarrow> ReadAt cfg (hdr f) count (seekPosition f) d;
     Some (bs, f\<lparr>seekPosition := seekPosition f + int (length bs)\<rparr>) }"

text \<open>
  The last part of \<open>WriteAt\<close>: read the partial sectors at the ends, merge the bytes,
  write all sectors. The buffer is a local array with unspecified contents.
\<close>

definition write_sectors ::
  "config \<Rightarrow> FileHeader \<Rightarrow> int \<Rightarrow> nat \<Rightarrow> byte list \<Rightarrow> byte list list \<Rightarrow> byte list list option" where
  "write_sectors cfg h firstSector n buf =
     foldM (\<lambda>k d. do {
       s \<leftarrow> ByteToSector cfg h ((firstSector + int k) * SectorSize cfg);
       b \<leftarrow> bufpart buf (int k * SectorSize cfg) (SectorSize cfg);
       WriteSector s b d }) [0..<n]"

definition write_range ::
  "config \<Rightarrow> FileHeader \<Rightarrow> byte list \<Rightarrow> int \<Rightarrow> int \<Rightarrow> byte list list \<Rightarrow> byte list list option" where
  "write_range cfg h from count position d =
     (let S = SectorSize cfg;
          firstSector = divRoundDown position S;
          lastSector = divRoundDown (position + count - 1) S;
          nsec = 1 + lastSector - firstSector;
          buf = map (\<lambda>i. word_of_int (fresh cfg i)) [0..<nat (nsec * S)];
          firstAligned = (position = firstSector * S);
          lastAligned = (position + count = (lastSector + 1) * S)
      in do {
        buf1 \<leftarrow> (if \<not> firstAligned
                then do { b \<leftarrow> ReadAt cfg h S (firstSector * S) d; blit buf 0 b } else Some buf);
        buf2 \<leftarrow> (if \<not> lastAligned \<and> (firstSector \<noteq> lastSector \<or> firstAligned)
                then do { b \<leftarrow> ReadAt cfg h S (lastSector * S) d; blit buf1 ((lastSector - firstSector) * S) b }
                else Some buf1);
        bs \<leftarrow> bufpart from 0 count;
        buf3 \<leftarrow> blit buf2 (position - firstSector * S) bs;
        write_sectors cfg h firstSector (nat nsec) buf3 d })"

text \<open>
  The whole of \<open>WriteAt\<close> around a way to grow the file. The results are the number of
  bytes written, the header in memory, and the state.
\<close>

definition WriteAt_with ::
  "config \<Rightarrow> (int \<Rightarrow> OpenFile \<Rightarrow> filesystem \<Rightarrow> (bool \<times> FileHeader \<times> filesystem) option)
   \<Rightarrow> byte list \<Rightarrow> int \<Rightarrow> int \<Rightarrow> OpenFile \<Rightarrow> filesystem \<Rightarrow> (int \<times> OpenFile \<times> filesystem) option" where
  "WriteAt_with cfg grow from count position f fs =
     (let fileLength = FileLength (hdr f); maxFileLength = MaxFileLength cfg (hdr f) in
      if count \<le> 0 \<or> fileLength < position then Some (0, f, fs)
      else do {
        (n, h, fs1) \<leftarrow>
          (if maxFileLength < position + count
           then do { (grown, h, fs1) \<leftarrow> grow (position + count) f fs;
                     Some (if grown then count else fileLength - position, h, fs1) }
           else if fileLength < position + count
           then do { h \<leftarrow> ChangeFileLength cfg (position + count) (hdr f); Some (count, h, fs) }
           else Some (count, hdr f, fs));
        d \<leftarrow> write_range cfg h from n position (sectors fs1);
        Some (n, f\<lparr>hdr := h\<rparr>, fs1\<lparr>sectors := d\<rparr>) })"

definition WriteAt_plain ::
  "config \<Rightarrow> byte list \<Rightarrow> int \<Rightarrow> int \<Rightarrow> OpenFile \<Rightarrow> filesystem \<Rightarrow> (int \<times> OpenFile \<times> filesystem) option" where
  "WriteAt_plain cfg = WriteAt_with cfg (\<lambda>_ _ _. None)"

text \<open>\<open>BitMap::FetchFrom\<close> and \<open>BitMap::WriteBack\<close>: the words of the map as bytes.\<close>

definition BitMap_FetchFrom :: "config \<Rightarrow> FileHeader \<Rightarrow> byte list list \<Rightarrow> bitmap \<Rightarrow> bitmap option" where
  "BitMap_FetchFrom cfg h d b = do {
     bs \<leftarrow> ReadAt cfg h (numWords b * 4) 0 d;
     m \<leftarrow> blit (words_to_bytes (bits b)) 0 bs;
     Some (b\<lparr>bits := bytes_to_words m\<rparr>) }"

definition BitMap_bytes :: "bitmap \<Rightarrow> byte list" where
  "BitMap_bytes b = words_to_bytes (bits b)"

text \<open>The branch of \<open>WriteAt\<close> that allocates new sectors.\<close>

definition grow_file ::
  "config \<Rightarrow> int \<Rightarrow> OpenFile \<Rightarrow> filesystem \<Rightarrow> (bool \<times> FileHeader \<times> filesystem) option" where
  "grow_file cfg newsize f fs = do {
     b0 \<leftarrow> BitMap_new cfg NUM_SECTORS;
     freeMap \<leftarrow> BitMap_FetchFrom cfg (hdr (freeMapFile fs)) (sectors fs) b0;
     (ok, freeMap', h) \<leftarrow> reAllocate cfg freeMap (FileLength (hdr f)) newsize (hdr f);
     if \<not> ok then Some (False, h, fs)
     else do {
       d1 \<leftarrow> WriteBack cfg (fSector f) h (sectors fs);
       (_, mf, fs2) \<leftarrow> WriteAt_plain cfg (BitMap_bytes freeMap') (numWords freeMap' * 4) 0
                        (freeMapFile fs) (fs\<lparr>sectors := d1\<rparr>);
       Some (True, h, fs2\<lparr>freeMapFile := mf\<rparr>) } }"

definition WriteAt ::
  "config \<Rightarrow> byte list \<Rightarrow> int \<Rightarrow> int \<Rightarrow> OpenFile \<Rightarrow> filesystem \<Rightarrow> (int \<times> OpenFile \<times> filesystem) option" where
  "WriteAt cfg = WriteAt_with cfg (grow_file cfg)"

definition Write ::
  "config \<Rightarrow> byte list \<Rightarrow> int \<Rightarrow> OpenFile \<Rightarrow> filesystem \<Rightarrow> (int \<times> OpenFile \<times> filesystem) option" where
  "Write cfg from count f fs = do {
     (result, f', fs') \<leftarrow> WriteAt cfg from count (seekPosition f) f fs;
     Some (result, f'\<lparr>seekPosition := seekPosition f' + result\<rparr>, fs') }"

definition OpenFile_Length :: "OpenFile \<Rightarrow> int" where
  "OpenFile_Length f = FileLength (hdr f)"

definition GetFileHeader :: "OpenFile \<Rightarrow> FileHeader" where
  "GetFileHeader f = hdr f"

definition OpenFile_IsDir :: "OpenFile \<Rightarrow> bool" where
  "OpenFile_IsDir f = IsDir (hdr f)"

definition GetName :: "OpenFile \<Rightarrow> byte list" where
  "GetName f = fname f"

text \<open>\<open>strcpy\<close> into the name buffer of \<open>MaxFileNameSize\<close> bytes.\<close>

definition SetName :: "config \<Rightarrow> byte list \<Rightarrow> OpenFile \<Rightarrow> OpenFile option" where
  "SetName cfg newname f =
     (if int (length newname) < MaxFileNameSize cfg
      then do { b \<leftarrow> blit (fname f) 0 (newname @ [0]); Some (f\<lparr>fname := b\<rparr>) } else None)"

subsection \<open>Blocks of equal length\<close>

definition blocks :: "nat \<Rightarrow> byte list list \<Rightarrow> bool" where
  "blocks S L \<longleftrightarrow> (\<forall>b \<in> set L. length b = S)"

lemma blocks_simps [simp]:
  "blocks S []" "blocks S (b # L) \<longleftrightarrow> length b = S \<and> blocks S L"
  "blocks S (L @ M) \<longleftrightarrow> blocks S L \<and> blocks S M"
  by (auto simp: blocks_def)

lemma blocks_take_drop: "blocks S L \<Longrightarrow> blocks S (take k L) \<and> blocks S (drop k L)"
  by (auto simp: blocks_def dest: in_set_takeD in_set_dropD)

lemma length_concat_blocks: "blocks S L \<Longrightarrow> length (concat L) = length L * S"
  by (induction L) auto

lemma take_concat_blocks: "blocks S L \<Longrightarrow> take (k * S) (concat L) = concat (take k L)"
proof (induction L arbitrary: k)
  case (Cons b L)
  then show ?case by (cases k) auto
qed simp

lemma drop_concat_blocks: "blocks S L \<Longrightarrow> drop (k * S) (concat L) = concat (drop k L)"
proof (induction L arbitrary: k)
  case (Cons b L)
  then show ?case by (cases k) auto
qed simp

text \<open>Cutting a buffer into blocks.\<close>

lemma concat_cut: "length buf = n * S \<Longrightarrow> concat (map (\<lambda>k. take S (drop (k * S) buf)) [0..<n]) = buf"
proof (induction n arbitrary: buf)
  case (Suc n)
  let ?init = "take (n * S) buf"
  have init: "length ?init = n * S" using Suc.prems by simp
  have "take S (drop (k * S) buf) = take S (drop (k * S) ?init)" if "k < n" for k
  proof -
    have "k * S + S \<le> n * S" using that by (metis Suc_leI mult.commute mult_Suc_right mult_le_mono1 add.commute)
    then show ?thesis by (simp add: drop_take min_def)
  qed
  then have "concat (map (\<lambda>k. take S (drop (k * S) buf)) [0..<n]) = ?init"
    using Suc.IH [OF init] by (metis (no_types, lifting) atLeastLessThan_iff map_eq_conv set_upt)
  moreover have "take S (drop (n * S) buf) = drop (n * S) buf" using Suc.prems by simp
  ultimately show ?case by simp
qed simp

lemma bufpart_nat: "a + n \<le> length buf \<Longrightarrow> bufpart buf (int a) (int n) = Some (take n (drop a buf))"
  by (simp add: bufpart_def)

lemma blit_nat: "a + length bs \<le> length buf \<Longrightarrow>
  blit buf (int a) bs = Some (take a buf @ bs @ drop (a + length bs) buf)"
  by (simp add: blit_def)

subsection \<open>The contents of a file\<close>

text \<open>The sectors of a file in order, their bytes, and the bytes up to its length.\<close>

definition data_list :: "FileHeader \<Rightarrow> int list" where
  "data_list h = take (nat (numSectors h)) (dataSectors h)"

definition file_blocks :: "FileHeader \<Rightarrow> byte list list \<Rightarrow> byte list list" where
  "file_blocks h d = map (\<lambda>s. d ! nat s) (data_list h)"

definition raw_bytes :: "FileHeader \<Rightarrow> byte list list \<Rightarrow> byte list" where
  "raw_bytes h d = concat (file_blocks h d)"

definition file_bytes :: "FileHeader \<Rightarrow> byte list list \<Rightarrow> byte list" where
  "file_bytes h d = take (nat (numBytes h)) (raw_bytes h d)"

definition wf_file :: "config \<Rightarrow> FileHeader \<Rightarrow> byte list list \<Rightarrow> bool" where
  "wf_file cfg h d \<longleftrightarrow> 0 < SectorSize cfg \<and> wf_sectors cfg d
     \<and> 0 \<le> numBytes h \<and> numBytes h \<le> numSectors h * SectorSize cfg
     \<and> nat (numSectors h) \<le> length (dataSectors h)
     \<and> distinct (data_list h) \<and> set (data_list h) \<subseteq> {0..<2048}"

lemma wf_file_blocks:
  assumes "wf_file cfg h d"
  shows "blocks (nat (SectorSize cfg)) (file_blocks h d)" "length (file_blocks h d) = nat (numSectors h)"
    "length (raw_bytes h d) = nat (numSectors h) * nat (SectorSize cfg)"
    "nat (numBytes h) \<le> length (raw_bytes h d)" "0 \<le> numSectors h"
proof -
  show l: "length (file_blocks h d) = nat (numSectors h)"
    using assms by (simp add: wf_file_def file_blocks_def data_list_def)
  show b: "blocks (nat (SectorSize cfg)) (file_blocks h d)"
  proof -
    have "length (d ! nat s) = nat (SectorSize cfg)" if "s \<in> set (data_list h)" for s
    proof -
      have "0 \<le> s" "s < 2048" using that assms by (auto simp: wf_file_def)
      then have "int (length (d ! nat s)) = SectorSize cfg"
        using assms by (intro ReadSector_ok(2) [of cfg d s]) (simp_all add: wf_file_def)
      then show ?thesis by simp
    qed
    then show ?thesis by (auto simp: blocks_def file_blocks_def)
  qed
  show r: "length (raw_bytes h d) = nat (numSectors h) * nat (SectorSize cfg)"
    unfolding raw_bytes_def length_concat_blocks [OF b] l ..
  have "0 \<le> numSectors h * SectorSize cfg" "0 < SectorSize cfg"
    using assms by (auto simp: wf_file_def)
  then show n: "0 \<le> numSectors h" by (simp add: zero_le_mult_iff)
  have "nat (numBytes h) \<le> nat (numSectors h * SectorSize cfg)"
    using assms by (intro nat_mono) (simp add: wf_file_def)
  then show "nat (numBytes h) \<le> length (raw_bytes h d)"
    unfolding r using n by (simp add: nat_mult_distrib)
qed

lemma ByteToSector_nth:
  assumes "0 < S" "SectorSize cfg = int S" "k < length (dataSectors h)"
  shows "ByteToSector cfg h (int k * int S) = Some (dataSectors h ! k)"
proof -
  have "(int k * int S) sdiv int S = int k"
    using assms(1) by (simp add: sdiv_nonneg)
  then show ?thesis using assms by (simp add: ByteToSector_def aget_nat)
qed

lemma read_range_ok:
  assumes "wf_file cfg h d" "fi + n \<le> nat (numSectors h)"
  shows "read_range cfg h (int fi) n d = Some (concat (take n (drop fi (file_blocks h d))))"
  using assms(2)
proof (induction n)
  case 0
  then show ?case by (simp add: read_range_def)
next
  case (Suc n)
  define S where "S = nat (SectorSize cfg)"
  have S: "0 < S" "SectorSize cfg = int S" using assms(1) by (simp_all add: wf_file_def S_def)
  have k: "fi + n < length (data_list h)" "fi + n < length (dataSectors h)"
    using Suc.prems assms(1) by (auto simp: wf_file_def data_list_def)
  let ?s = "data_list h ! (fi + n)"
  have "?s \<in> set (data_list h)" using k by (intro nth_mem)
  then have rng: "0 \<le> ?s" "?s < 2048" using assms(1) by (auto simp: wf_file_def)
  have s: "dataSectors h ! (fi + n) = ?s" using k by (simp add: data_list_def)
  have "ByteToSector cfg h ((int fi + int n) * SectorSize cfg) = Some ?s"
    using ByteToSector_nth [OF S k(2)] S(2) s by simp
  moreover have "ReadSector ?s d = Some (d ! nat ?s)"
    using assms(1) rng by (intro ReadSector_ok(1) [of cfg]) (simp_all add: wf_file_def)
  moreover have "read_range cfg h (int fi) n d = Some (concat (take n (drop fi (file_blocks h d))))"
    using Suc by simp
  moreover have "take (Suc n) (drop fi (file_blocks h d))
      = take n (drop fi (file_blocks h d)) @ [d ! nat ?s]"
    using k by (simp add: file_blocks_def take_Suc_conv_app_nth)
  ultimately show ?case by (simp add: read_range_def foldM_append)
qed

lemma concat_range:
  "blocks S L \<Longrightarrow> concat (take n (drop fi L)) = take (n * S) (drop (fi * S) (concat L))"
  by (simp add: drop_concat_blocks take_concat_blocks blocks_take_drop)

text \<open>The sector range of \<open>n > 0\<close> bytes at \<open>pos\<close>, in natural numbers.\<close>

lemma sector_range:
  fixes S n pos :: nat
  assumes "0 < S" "0 < n"
  defines "fi \<equiv> pos div S" and "la \<equiv> (pos + n - 1) div S"
  shows "divRoundDown (int pos) (int S) = int fi"
    "divRoundDown (int pos + int n - 1) (int S) = int la"
    "fi \<le> la" "fi * S \<le> pos" "pos < fi * S + S"
    "pos + n \<le> (la + 1) * S" "la * S < pos + n"
proof -
  have e: "int pos + int n - 1 = int (pos + n - 1)" using assms(2) by simp
  show "divRoundDown (int pos) (int S) = int fi"
    by (simp add: divRoundDown_nonneg fi_def zdiv_int)
  show "divRoundDown (int pos + int n - 1) (int S) = int la"
    unfolding e by (simp add: divRoundDown_nonneg la_def zdiv_int)
  show "fi \<le> la" unfolding fi_def la_def using assms(2) by (intro div_le_mono) simp
  show "fi * S \<le> pos" by (simp add: fi_def)
  show "pos < fi * S + S"
    using assms(1) by (simp add: fi_def) (metis add.commute dividend_less_times_div mult.commute)
  have "pos + n - 1 < la * S + S"
    using assms(1) by (simp add: la_def) (metis add.commute dividend_less_times_div mult.commute)
  then show "pos + n \<le> (la + 1) * S" using assms(2) by simp
  have "la * S \<le> pos + n - 1" by (simp add: la_def)
  then show "la * S < pos + n" using assms(2) by simp
qed

lemma last_sector_bound:
  "0 < S \<Longrightarrow> pos + n \<le> m * S \<Longrightarrow> 0 < n \<Longrightarrow> (pos + n - 1) div S < m" for S :: nat
  by (simp add: less_mult_imp_div_less)

lemma ReadAt_bytes:
  assumes "wf_file cfg h d" "0 \<le> pos"
  shows "ReadAt cfg h n pos d = Some (take (nat n) (drop (nat pos) (file_bytes h d)))"
proof (cases "n \<le> 0 \<or> numBytes h \<le> pos")
  case True
  then have "take (nat n) (drop (nat pos) (file_bytes h d)) = []"
    by (auto simp: file_bytes_def)
  then show ?thesis using True by (simp add: ReadAt_def FileLength_def Let_def)
next
  case False
  note w = wf_file_blocks [OF assms(1)]
  define S where "S = nat (SectorSize cfg)"
  define p where "p = nat pos"
  have p: "pos = int p" using assms(2) by (simp add: p_def)
  obtain q where q: "n = int q" "0 < q" using False by (metis nat_0_less_mult_iff nonneg_int_cases not_le of_nat_0_less_iff order_less_imp_le)
  obtain b where b: "numBytes h = int b" "p < b"
    using False assms(1) p by (metis nonneg_int_cases not_le of_nat_less_iff wf_file_def)
  define m where "m = (if b < p + q then b - p else q)"
  have S: "0 < S" "SectorSize cfg = int S" using assms(1) by (simp_all add: wf_file_def S_def)
  have m: "0 < m" "(if numBytes h < pos + n then numBytes h - pos else n) = int m"
    using q b by (auto simp: m_def p)
  have pm: "p + m \<le> nat (numBytes h)" "m = min (nat n) (nat (numBytes h) - p)"
    using q b by (auto simp: m_def min_def)
  define fi where "fi = p div S"
  define la where "la = (p + m - 1) div S"
  note r = sector_range [OF S(1) m(1), of p, folded fi_def la_def]
  have in_raw: "p + m \<le> nat (numSectors h) * S" using pm w(3,4) by (simp add: S_def)
  have lst: "la < nat (numSectors h)"
    unfolding la_def using last_sector_bound [OF S(1) in_raw m(1)] .
  let ?k = "Suc (la - fi)"
  have k: "nat (1 + int la - int fi) = ?k" using r(3) by simp
  have fk: "fi + ?k \<le> nat (numSectors h)" using lst r(3) by simp
  have rr: "read_range cfg h (int fi) ?k d = Some (take (?k * S) (drop (fi * S) (raw_bytes h d)))"
    unfolding read_range_ok [OF assms(1) fk] raw_bytes_def
    using concat_range [OF w(1)] by (simp add: S_def)
  have kS: "fi * S + ?k * S = (la + 1) * S"
    using r(3) by (simp add: add_mult_distrib [symmetric])
  have off: "int p - int fi * int S = int (p - fi * S)" using r(4) by (simp add: of_nat_diff)
  have le: "(fi + ?k) * S \<le> nat (numSectors h) * S" using fk by (rule mult_le_mono1)
  have len: "length (take (?k * S) (drop (fi * S) (raw_bytes h d))) = ?k * S"
  proof -
    have "fi * S + ?k * S \<le> length (raw_bytes h d)"
      using le w(3) by (simp only: S_def add_mult_distrib)
    then have "?k * S \<le> length (raw_bytes h d) - fi * S" by linarith
    then show ?thesis unfolding length_take length_drop by (rule min_absorb2)
  qed
  have inb: "(p - fi * S) + m \<le> ?k * S" using r(4,6) kS by linarith
  have sl: "bufpart (take (?k * S) (drop (fi * S) (raw_bytes h d))) (int (p - fi * S)) (int m)
      = Some (take m (drop p (raw_bytes h d)))"
  proof -
    have "take m (drop (p - fi * S) (take (?k * S) (drop (fi * S) (raw_bytes h d))))
        = take m (drop p (raw_bytes h d))"
      using inb r(4) by (simp add: drop_take min_def)
    moreover have "(p - fi * S) + m \<le> length (take (?k * S) (drop (fi * S) (raw_bytes h d)))"
      unfolding len by (rule inb)
    ultimately show ?thesis by (simp only: bufpart_nat)
  qed
  have "take m (drop p (raw_bytes h d)) = take (nat n) (drop p (file_bytes h d))"
    unfolding file_bytes_def pm(2) drop_take take_take by (simp add: min.commute)
  moreover have "ReadAt cfg h n pos d = do {
      buf \<leftarrow> read_range cfg h (divRoundDown pos (SectorSize cfg))
        (nat (1 + divRoundDown (pos + int m - 1) (SectorSize cfg) - divRoundDown pos (SectorSize cfg))) d;
      bufpart buf (pos - divRoundDown pos (SectorSize cfg) * SectorSize cfg) (int m) }"
    unfolding ReadAt_def Let_def FileLength_def m(2) using False by simp
  ultimately show ?thesis
    using rr sl by (simp add: p S(2) r(1,2) k off)
qed

subsection \<open>Writing\<close>

lemma write_sectors_ok:
  assumes "wf_file cfg h d" "fi + n \<le> nat (numSectors h)"
    and "length buf = n * nat (SectorSize cfg)"
  shows "\<exists>d'. write_sectors cfg h (int fi) n buf d = Some d' \<and> wf_sectors cfg d'
    \<and> raw_bytes h d' = take (fi * nat (SectorSize cfg)) (raw_bytes h d) @ buf
        @ drop ((fi + n) * nat (SectorSize cfg)) (raw_bytes h d)
    \<and> (\<forall>s. s \<notin> nat ` set (data_list h) \<longrightarrow> d' ! s = d ! s)"
proof -
  define S where "S = nat (SectorSize cfg)"
  have S: "0 < S" "SectorSize cfg = int S" using assms(1) by (simp_all add: wf_file_def S_def)
  note w = wf_file_blocks [OF assms(1)]
  let ?L = "file_blocks h d" and ?ds = "data_list h"
  let ?b = "\<lambda>k. take S (drop (k * S) buf)"
  have dl: "length ?ds = nat (numSectors h)" "nat (numSectors h) \<le> length (dataSectors h)"
    "distinct ?ds" "set ?ds \<subseteq> {0..<2048}"
    using assms(1) by (simp_all add: wf_file_def data_list_def)
  let ?I = "\<lambda>i t. wf_sectors cfg t \<and> file_blocks h t = take fi ?L @ map ?b [0..<i] @ drop (fi + i) ?L
     \<and> (\<forall>s. s \<notin> nat ` set ?ds \<longrightarrow> t ! s = d ! s)"
  have "\<exists>t. write_sectors cfg h (int fi) n buf d = Some t \<and> ?I n t"
    unfolding write_sectors_def
  proof (rule foldM_upt_rule [where I = ?I])
    show "?I 0 d" using assms(1) by (simp add: wf_file_def)
  next
    fix i t
    assume i: "i < n" and I: "?I i t"
    let ?j = "fi + i"
    have j: "?j < length ?ds" "?j < length (dataSectors h)" using i assms(2) dl by auto
    let ?s = "?ds ! ?j"
    have mem: "?s \<in> set ?ds" using j by (intro nth_mem)
    then have rng: "0 \<le> ?s" "?s < 2048" using dl(4) by auto
    have bs: "ByteToSector cfg h ((int fi + int i) * SectorSize cfg) = Some ?s"
      using ByteToSector_nth [OF S j(2)] S(2) j by (simp add: data_list_def)
    have room: "i * S + S \<le> length buf"
      using i assms(3) by (metis S_def Suc_leI add.commute mult_Suc mult_le_mono1)
    then have sl: "bufpart buf (int i * SectorSize cfg) (SectorSize cfg) = Some (?b i)"
      using bufpart_nat [of "i * S" S buf] by (simp add: S(2))
    let ?t' = "t[nat ?s := ?b i]"
    have lb: "int (length (?b i)) = SectorSize cfg" using room S(2) by simp
    have ws: "WriteSector ?s (?b i) t = Some ?t'" "wf_sectors cfg ?t'"
      using WriteSector_ok [OF _ rng lb, of t] I by simp_all
    have lt: "nat ?s < length t" using I rng by (simp add: wf_sectors_def nat_less_iff)
    have fb: "file_blocks h ?t' = (file_blocks h t)[?j := ?b i]"
    proof (rule nth_equalityI)
      fix k
      assume "k < length (file_blocks h ?t')"
      then have k: "k < length ?ds" by (simp add: file_blocks_def)
      have "nat (?ds ! k) = nat ?s \<longleftrightarrow> k = ?j"
      proof
        assume eq: "nat (?ds ! k) = nat ?s"
        have "?ds ! k \<in> set ?ds" using k by (intro nth_mem)
        then have "0 \<le> ?ds ! k" using dl(4) by auto
        then have "?ds ! k = ?s" using eq rng by (simp add: eq_nat_nat_iff)
        then show "k = ?j" using dl(3) k j by (simp add: nth_eq_iff_index_eq)
      qed simp
      then show "file_blocks h ?t' ! k = (file_blocks h t)[?j := ?b i] ! k"
        using k j lt by (auto simp: file_blocks_def nth_list_update)
    qed (simp add: file_blocks_def)
    have "drop ?j ?L = ?L ! ?j # drop (fi + Suc i) ?L"
      using j dl(1) w(2) by (simp add: Cons_nth_drop_Suc)
    moreover have "length (take fi ?L @ map ?b [0..<i]) = ?j" using j w(2) dl(1) by simp
    ultimately have "(take fi ?L @ map ?b [0..<i] @ drop ?j ?L)[?j := ?b i]
        = take fi ?L @ map ?b [0..<Suc i] @ drop (fi + Suc i) ?L"
      by (simp add: list_update_append)
    then have "file_blocks h ?t' = take fi ?L @ map ?b [0..<Suc i] @ drop (fi + Suc i) ?L"
      using fb I by simp
    moreover have "\<forall>s. s \<notin> nat ` set ?ds \<longrightarrow> ?t' ! s = d ! s"
    proof (intro allI impI)
      fix s
      assume s: "s \<notin> nat ` set ?ds"
      then have "nat ?s \<noteq> s" using mem by blast
      then show "?t' ! s = d ! s" using I s by simp
    qed
    ultimately show "\<exists>t'. do { s \<leftarrow> ByteToSector cfg h ((int fi + int i) * SectorSize cfg);
        b \<leftarrow> bufpart buf (int i * SectorSize cfg) (SectorSize cfg); WriteSector s b t } = Some t'
        \<and> ?I (Suc i) t'"
      using bs sl ws by auto
  qed
  then obtain t where t: "write_sectors cfg h (int fi) n buf d = Some t" "?I n t" by blast
  have "raw_bytes h t = concat (take fi ?L) @ concat (map ?b [0..<n]) @ concat (drop (fi + n) ?L)"
    using t(2) by (simp add: raw_bytes_def)
  also have "\<dots> = take (fi * S) (raw_bytes h d) @ buf @ drop ((fi + n) * S) (raw_bytes h d)"
    using w(1) assms(3)
    by (simp add: raw_bytes_def take_concat_blocks drop_concat_blocks concat_cut S_def)
  finally show ?thesis using t by (auto simp: S_def)
qed

lemma splice_nth:
  assumes "a + length b \<le> length buf"
  shows "(take a buf @ b @ drop (a + length b) buf) ! j
    = (if a \<le> j \<and> j < a + length b then b ! (j - a) else buf ! j)"
proof -
  have a: "length (take a buf) = a" using assms by simp
  consider "j < a" | "a \<le> j" "j < a + length b" | "a + length b \<le> j" by linarith
  then show ?thesis
  proof cases
    case 2
    then have "j - a < length b" by linarith
    then show ?thesis using 2 a by (simp add: nth_append)
  next
    case 3
    then have "j = a + (length b + (j - a - length b))" by simp
    then have "(take a buf @ b @ drop (a + length b) buf) ! j
        = drop (a + length b) buf ! (j - a - length b)"
      by (metis a length_append nth_append_length_plus append_assoc add.assoc)
    then show ?thesis using 3 assms by simp
  qed (use a in \<open>simp_all add: nth_append\<close>)
qed

text \<open>Reading a sector of the file into its place in the buffer of \<open>WriteAt\<close>.\<close>

lemma read_into_buffer:
  assumes "wf_file cfg h d" "SectorSize cfg = int S" "length buf = m * S" "fi \<le> k" "k < fi + m"
  shows "\<exists>b buf'. ReadAt cfg h (int S) (int k * int S) d = Some b
    \<and> blit buf (int (k - fi) * int S) b = Some buf' \<and> length buf' = m * S
    \<and> (\<forall>j < m * S. buf' ! j =
         (if (k - fi) * S \<le> j \<and> j < (k - fi) * S + S \<and> fi * S + j < nat (numBytes h)
          then raw_bytes h d ! (fi * S + j) else buf ! j))"
proof -
  let ?b = "take S (drop (k * S) (file_bytes h d))"
  have lenFB: "length (file_bytes h d) = nat (numBytes h)"
    using wf_file_blocks(4) [OF assms(1)] by (simp add: file_bytes_def)
  have r: "ReadAt cfg h (int S) (int k * int S) d = Some ?b"
    using ReadAt_bytes [OF assms(1), of "int k * int S" "int S"]
    by (simp add: nat_mult_distrib)
  have lb: "length ?b = min (nat (numBytes h) - k * S) S" using lenFB by (simp add: min.commute)
  have "Suc (k - fi) \<le> m" using assms(4,5) by linarith
  then have ks: "(k - fi) * S + S \<le> m * S" by (metis add.commute mult_Suc mult_le_mono1)
  then have room: "(k - fi) * S + length ?b \<le> length buf" using lb assms(3) by linarith
  let ?buf' = "take ((k - fi) * S) buf @ ?b @ drop ((k - fi) * S + length ?b) buf"
  have bl: "blit buf (int (k - fi) * int S) ?b = Some ?buf'"
    using blit_nat [OF room] by simp
  have kf: "fi * S + (k - fi) * S = k * S"
    using assms(4) by (metis add_mult_distrib le_add_diff_inverse)
  have "?buf' ! j = (if (k - fi) * S \<le> j \<and> j < (k - fi) * S + S \<and> fi * S + j < nat (numBytes h)
          then raw_bytes h d ! (fi * S + j) else buf ! j)" if j: "j < m * S" for j
  proof (cases "(k - fi) * S \<le> j \<and> j < (k - fi) * S + length ?b")
    case True
    then have "?buf' ! j = ?b ! (j - (k - fi) * S)"
      unfolding splice_nth [OF room] by simp
    also have "\<dots> = file_bytes h d ! (k * S + (j - (k - fi) * S))"
    proof -
      have "j - (k - fi) * S < S" "k * S \<le> length (file_bytes h d)" using True lb lenFB by linarith+
      then show ?thesis by (simp only: nth_take nth_drop)
    qed
    also have "k * S + (j - (k - fi) * S) = fi * S + j" using True kf by linarith
    finally have "?buf' ! j = file_bytes h d ! (fi * S + j)" .
    moreover have "fi * S + j < nat (numBytes h)" using True lb kf by linarith
    moreover have "file_bytes h d ! (fi * S + j) = raw_bytes h d ! (fi * S + j)"
      unfolding file_bytes_def using calculation(2) by (rule nth_take)
    moreover have "j < (k - fi) * S + S" using True lb by linarith
    ultimately show ?thesis using True by (simp only: simp_thms if_True)
  next
    case False
    then have "?buf' ! j = buf ! j" unfolding splice_nth [OF room] by (simp only: if_False)
    moreover have "\<not> ((k - fi) * S \<le> j \<and> j < (k - fi) * S + S \<and> fi * S + j < nat (numBytes h))"
      using False lb kf by linarith
    ultimately show ?thesis by (simp only: if_False)
  qed
  moreover have "length ?buf' = m * S" using room assms(3) by simp
  ultimately show ?thesis using r bl by blast
qed

text \<open>The bytes of the partial sectors that \<open>WriteAt\<close> must keep are in its buffer.\<close>

lemma first_sector_kept:
  assumes "wf_file cfg h d" "SectorSize cfg = int S" "length buf = m * S" "0 < m" "0 < S"
  shows "\<exists>buf1. (if \<not> al
      then do { b \<leftarrow> ReadAt cfg h (int S) (int fi * int S) d; blit buf 0 b } else Some buf) = Some buf1
    \<and> length buf1 = m * S
    \<and> (\<not> al \<longrightarrow> (\<forall>j < S. fi * S + j < nat (numBytes h) \<longrightarrow> buf1 ! j = raw_bytes h d ! (fi * S + j)))"
proof (cases al)
  case False
  have Sm: "S \<le> m * S" using assms(4) by simp
  obtain b buf' where b: "ReadAt cfg h (int S) (int fi * int S) d = Some b"
    "blit buf (int (fi - fi) * int S) b = Some buf'" "length buf' = m * S"
    "\<forall>j < m * S. buf' ! j = (if (fi - fi) * S \<le> j \<and> j < (fi - fi) * S + S \<and> fi * S + j < nat (numBytes h)
          then raw_bytes h d ! (fi * S + j) else buf ! j)"
    using read_into_buffer [OF assms(1,2,3) order_refl, of fi] assms(4) by auto
  then have "buf' ! j = raw_bytes h d ! (fi * S + j)" if "j < S" "fi * S + j < nat (numBytes h)" for j
    using that Sm by (simp add: less_le_trans)
  then show ?thesis using b False by simp
qed (use assms in simp)

lemma last_sector_kept:
  assumes "wf_file cfg h d" "SectorSize cfg = int S" "length buf = m * S" "fi \<le> la" "m = Suc (la - fi)"
  shows "\<exists>buf2. (if rd
      then do { b \<leftarrow> ReadAt cfg h (int S) (int la * int S) d; blit buf (int (la - fi) * int S) b }
      else Some buf) = Some buf2
    \<and> length buf2 = m * S
    \<and> (\<forall>j < m * S. fi * S + j < nat (numBytes h) \<longrightarrow>
         (rd \<and> (la - fi) * S \<le> j) \<or> buf ! j = raw_bytes h d ! (fi * S + j) \<longrightarrow>
         buf2 ! j = raw_bytes h d ! (fi * S + j))"
proof (cases rd)
  case True
  have "la < fi + m" using assms(4,5) by simp
  then obtain b buf' where b: "ReadAt cfg h (int S) (int la * int S) d = Some b"
    "blit buf (int (la - fi) * int S) b = Some buf'" "length buf' = m * S"
    "\<forall>j < m * S. buf' ! j = (if (la - fi) * S \<le> j \<and> j < (la - fi) * S + S \<and> fi * S + j < nat (numBytes h)
          then raw_bytes h d ! (fi * S + j) else buf ! j)"
    using read_into_buffer [OF assms(1,2,3,4)] by blast
  have "m * S = (la - fi) * S + S" using assms(5) by simp
  then show ?thesis using b True by auto
qed (use assms in simp)

lemma splice_twice:
  assumes "p + length bs \<le> B" "B \<le> length raw" "a \<le> p" "p + length bs \<le> a + length buf"
    and "a + length buf \<le> length raw"
    and kept: "\<And>j. j < length buf \<Longrightarrow> a + j < B \<Longrightarrow> a + j < p \<or> p + length bs \<le> a + j \<Longrightarrow>
      buf ! j = raw ! (a + j)"
  shows "take B (take a raw @ (take (p - a) buf @ bs @ drop ((p - a) + length bs) buf)
      @ drop (a + length buf) raw)
    = take p (take B raw) @ bs @ drop (p + length bs) (take B raw)" (is "take B ?l = ?r")
proof (rule nth_equalityI)
  let ?buf3 = "take (p - a) buf @ bs @ drop ((p - a) + length bs) buf"
  have in3: "(p - a) + length bs \<le> length buf" using assms(3,4) by linarith
  then have l3: "length ?buf3 = length buf" by simp
  have inr: "a + length ?buf3 \<le> length raw" using l3 assms(5) by simp
  have "length ?l = length raw" using l3 assms(5) by simp
  then have "length (take B ?l) = B" using assms(2) by (simp only: length_take min_absorb2)
  moreover have "length ?r = B" using assms(1,2) by simp
  ultimately show len: "length (take B ?l) = length ?r" by (simp only:)
  fix i
  assume "i < length (take B ?l)"
  then have i: "i < B" by (simp only: length_take min_less_iff_conj)
  have inB: "p + length bs \<le> length (take B raw)" using assms(1,2) by simp
  have rhs: "?r ! i = (if p \<le> i \<and> i < p + length bs then bs ! (i - p) else raw ! i)"
    unfolding splice_nth [OF inB] using i by simp
  have "take B ?l ! i = ?l ! i" using i by (rule nth_take)
  also have "\<dots> = (if a \<le> i \<and> i < a + length buf then ?buf3 ! (i - a) else raw ! i)"
    using splice_nth [OF inr, of i] by (simp only: l3)
  also have "\<dots> = ?r ! i"
  proof (cases "a \<le> i \<and> i < a + length buf")
    case True
    have "?buf3 ! (i - a) = (if p - a \<le> i - a \<and> i - a < p - a + length bs
        then bs ! (i - a - (p - a)) else buf ! (i - a))"
      by (rule splice_nth [OF in3])
    also have "\<dots> = (if p \<le> i \<and> i < p + length bs then bs ! (i - p) else buf ! (i - a))"
    proof -
      have "p - a \<le> i - a \<longleftrightarrow> p \<le> i" "i - a < p - a + length bs \<longleftrightarrow> i < p + length bs"
        "i - a - (p - a) = i - p"
        using True assms(3) by linarith+
      then show ?thesis by (simp only:)
    qed
    also have "\<dots> = (if p \<le> i \<and> i < p + length bs then bs ! (i - p) else raw ! i)"
    proof (cases "p \<le> i \<and> i < p + length bs")
      case False
      then have "buf ! (i - a) = raw ! (a + (i - a))"
        using True i by (intro kept) linarith+
      then show ?thesis unfolding if_not_P [OF False] using True by simp
    qed simp
    finally show ?thesis using True rhs by simp
  next
    case False
    then have "\<not> (p \<le> i \<and> i < p + length bs)" using assms(3,4) by linarith
    then show ?thesis unfolding rhs using False by (simp only: if_False)
  qed
  finally show "take B ?l ! i = ?r ! i" .
qed

lemma write_range_ok:
  assumes "wf_file cfg h d" "0 < n" "p + n \<le> nat (numBytes h)" "n \<le> length from"
  shows "\<exists>d'. write_range cfg h from (int n) (int p) d = Some d' \<and> wf_sectors cfg d'
    \<and> file_bytes h d' = take p (file_bytes h d) @ take n from @ drop (p + n) (file_bytes h d)
    \<and> (\<forall>s. s \<notin> nat ` set (data_list h) \<longrightarrow> d' ! s = d ! s)"
proof -
  note w = wf_file_blocks [OF assms(1)]
  define S where "S = nat (SectorSize cfg)"
  have S: "0 < S" "SectorSize cfg = int S" using assms(1) by (simp_all add: wf_file_def S_def)
  define fi where "fi = p div S"
  define la where "la = (p + n - 1) div S"
  note r = sector_range [OF S(1) assms(2), of p, folded fi_def la_def]
  define m where "m = Suc (la - fi)"
  let ?raw = "raw_bytes h d"
  have lr: "length ?raw = nat (numSectors h) * S" using w(3) by (simp add: S_def)
  have nb: "nat (numBytes h) \<le> nat (numSectors h) * S" using w(4) lr by simp
  have lst: "la < nat (numSectors h)"
    unfolding la_def using last_sector_bound [OF S(1) _ assms(2)] assms(3) nb by simp
  have fm: "fi + m = Suc la" "fi + m \<le> nat (numSectors h)" using r(3) lst by (simp_all add: m_def)
  have mS: "fi * S + m * S = (la + 1) * S" by (metis fm(1) Suc_eq_plus1 add_mult_distrib)
  define buf where "buf = map (\<lambda>i. word_of_int (fresh cfg i) :: byte) [0..<m * S]"
  have nsec: "1 + int la - int fi = int m" using r(3) by (simp add: m_def)
  have lb: "length buf = m * S" by (simp add: buf_def)
  define al where "al = (int p = int fi * int S)"
  have al: "al \<longleftrightarrow> p = fi * S" unfolding al_def by (metis of_nat_eq_iff of_nat_mult)
  define rd where "rd = (\<not> (int p + int n = (int la + 1) * int S) \<and> (int fi \<noteq> int la \<or> al))"
  have "(int la + 1) * int S = int ((la + 1) * S)" by (simp only: of_nat_mult of_nat_add of_nat_1)
  then have rd: "rd \<longleftrightarrow> p + n \<noteq> (la + 1) * S \<and> (fi \<noteq> la \<or> al)"
    unfolding rd_def by (metis of_nat_add of_nat_eq_iff)
  obtain buf1 where b1: "(if \<not> al then do { b \<leftarrow> ReadAt cfg h (int S) (int fi * int S) d; blit buf 0 b }
      else Some buf) = Some buf1" "length buf1 = m * S"
    "\<not> al \<longrightarrow> (\<forall>j < S. fi * S + j < nat (numBytes h) \<longrightarrow> buf1 ! j = ?raw ! (fi * S + j))"
    using first_sector_kept [OF assms(1) S(2) lb _ S(1), of al fi] by (auto simp: m_def)
  obtain buf2 where b2: "(if rd then do { b \<leftarrow> ReadAt cfg h (int S) (int la * int S) d;
      blit buf1 (int (la - fi) * int S) b } else Some buf1) = Some buf2" "length buf2 = m * S"
    "\<forall>j < m * S. fi * S + j < nat (numBytes h) \<longrightarrow>
       (rd \<and> (la - fi) * S \<le> j) \<or> buf1 ! j = ?raw ! (fi * S + j) \<longrightarrow> buf2 ! j = ?raw ! (fi * S + j)"
    using last_sector_kept [OF assms(1) S(2) b1(2) r(3) m_def, of rd] by blast
  have kept: "buf2 ! j = ?raw ! (fi * S + j)"
    if j: "j < m * S" "fi * S + j < nat (numBytes h)" "fi * S + j < p \<or> p + n \<le> fi * S + j" for j
  proof (cases "fi * S + j < p")
    case True
    then have "\<not> al" "j < S" using al r(5) by linarith+
    then show ?thesis using b1(3) b2(3) j by blast
  next
    case False
    then have hi: "p + n \<le> fi * S + j" using j(3) by blast
    have la: "(la - fi) * S \<le> j"
      using hi r(7) by (simp add: diff_mult_distrib)
    have "p + n \<noteq> (la + 1) * S" using hi j(1) mS by linarith
    then consider "rd" | "fi = la" "\<not> al" using rd by blast
    then show ?thesis
    proof cases
      case 1
      then show ?thesis using b2(3) j(1,2) la by blast
    next
      case 2
      then have "j < S" using j(1) by (simp add: m_def)
      then show ?thesis using 2 b1(3) b2(3) j(1,2) by blast
    qed
  qed
  have room: "(p - fi * S) + length (take n from) \<le> length buf2"
    using b2(2) assms(4) r(4,6) mS by simp
  define buf3 where "buf3 = take (p - fi * S) buf2 @ take n from @
    drop ((p - fi * S) + length (take n from)) buf2"
  have b3: "blit buf2 (int p - int fi * int S) (take n from) = Some buf3"
    using blit_nat [OF room] r(4) by (simp add: buf3_def of_nat_diff)
  have b3': "length buf3 = m * nat (SectorSize cfg)" using room b2(2) S(2) by (simp add: buf3_def)
  have bp: "bufpart from 0 (int n) = Some (take n from)"
    using bufpart_nat [of 0 n "from"] assms(4) by simp
  obtain d' where d': "write_sectors cfg h (int fi) m buf3 d = Some d'" "wf_sectors cfg d'"
    "raw_bytes h d' = take (fi * S) ?raw @ buf3 @ drop ((fi + m) * S) ?raw"
    "\<forall>s. s \<notin> nat ` set (data_list h) \<longrightarrow> d' ! s = d ! s"
    using write_sectors_ok [OF assms(1) fm(2) b3'] by (auto simp: S_def)
  have wr: "write_range cfg h from (int n) (int p) d = Some d'"
  proof -
    have o: "int la - int fi = int (la - fi)" using r(3) by (simp add: of_nat_diff)
    have bf: "map (\<lambda>i. word_of_int (fresh cfg i) :: byte) [0..<nat (int m * int S)] = buf"
      by (simp add: buf_def nat_mult_distrib)
    show ?thesis
      unfolding write_range_def Let_def S(2) r(1,2) nsec bf o al_def [symmetric] rd_def [symmetric]
      by (simp only: b1(1) b2(1) bp b3 d'(1) Option.bind.bind_lunit nat_int)
  qed
  have ln: "length (take n from) = n" using assms(4) by simp
  have "file_bytes h d' = take p (file_bytes h d) @ take n from @ drop (p + length (take n from)) (file_bytes h d)"
  proof -
    have e: "(fi + m) * S = fi * S + length buf2" using b2(2) by (simp add: add_mult_distrib)
    show ?thesis
      unfolding file_bytes_def d'(3) buf3_def e
    proof (rule splice_twice)
      show "p + length (take n from) \<le> nat (numBytes h)" using assms(3) ln by simp
      show "nat (numBytes h) \<le> length ?raw" using nb lr by simp
      show "fi * S \<le> p" by (rule r(4))
      show "p + length (take n from) \<le> fi * S + length buf2" using r(6) mS ln b2(2) by simp
      show "fi * S + length buf2 \<le> length ?raw" unfolding lr e [symmetric] using fm(2) by (rule mult_le_mono1)
    qed (use kept b2(2) ln in simp)
  qed
  then have fb: "file_bytes h d' = take p (file_bytes h d) @ take n from @ drop (p + n) (file_bytes h d)"
    by (simp only: ln)
  show ?thesis using wr d' fb by blast
qed

subsection \<open>Properties of open files\<close>

lemma wf_file_extend:
  assumes "wf_file cfg h d" "0 \<le> n" "n \<le> MaxFileLength cfg h"
  shows "wf_file cfg (h\<lparr>numBytes := n\<rparr>) d" "raw_bytes (h\<lparr>numBytes := n\<rparr>) d = raw_bytes h d"
    "data_list (h\<lparr>numBytes := n\<rparr>) = data_list h"
  using assms by (simp_all add: wf_file_def data_list_def raw_bytes_def file_blocks_def MaxFileLength_def)

lemma file_bytes_extend:
  assumes "nat (numBytes h) \<le> n" "p \<le> nat (numBytes h)" "p + k = n"
  shows "take p (file_bytes (h\<lparr>numBytes := int n\<rparr>) d) = take p (file_bytes h d)"
    "drop (p + k) (file_bytes (h\<lparr>numBytes := int n\<rparr>) d) = []"
    "drop (p + k) (file_bytes h d) = []"
  using assms by (simp_all add: file_bytes_def raw_bytes_def file_blocks_def data_list_def min_def)

lemma WriteAt_with_in_place:
  assumes "wf_file cfg (hdr f) (sectors fs)" "0 \<le> p" "p \<le> numBytes (hdr f)" "0 < n"
    and "p + n \<le> MaxFileLength cfg (hdr f)" "p + n \<le> MAX_FILE_LENGTH cfg" "n \<le> int (length from)"
  shows "\<exists>f' fs'. WriteAt_with cfg grow from n p f fs = Some (n, f', fs')
    \<and> f' = f\<lparr>hdr := (hdr f)\<lparr>numBytes := max (numBytes (hdr f)) (p + n)\<rparr>\<rparr>
    \<and> fs' = fs\<lparr>sectors := sectors fs'\<rparr> \<and> wf_file cfg (hdr f') (sectors fs')
    \<and> file_bytes (hdr f') (sectors fs') = take (nat p) (file_bytes (hdr f) (sectors fs))
        @ take (nat n) from @ drop (nat (p + n)) (file_bytes (hdr f) (sectors fs))
    \<and> (\<forall>s. s \<notin> nat ` set (data_list (hdr f)) \<longrightarrow> sectors fs' ! s = sectors fs ! s)"
proof -
  let ?h = "(hdr f)\<lparr>numBytes := max (numBytes (hdr f)) (p + n)\<rparr>"
  obtain a k where a: "p = int a" "n = int k" "0 < k"
    using assms(2,4) by (metis less_imp_le of_nat_0_less_iff zero_le_imp_eq_int)
  have nb: "0 \<le> numBytes (hdr f)" "numBytes (hdr f) \<le> MaxFileLength cfg (hdr f)"
    using assms(1) by (simp_all add: wf_file_def MaxFileLength_def)
  note x = wf_file_extend [OF assms(1), of "max (numBytes (hdr f)) (p + n)"]
  have wf: "wf_file cfg ?h (sectors fs)" using x(1) nb assms(5) by simp
  have dl: "data_list ?h = data_list (hdr f)" using x(3) nb assms(5) by simp
  have in_file: "a + k \<le> nat (numBytes ?h)" "k \<le> length from" using a assms(7) by (simp_all add: le_nat_iff)
  obtain d' where d': "write_range cfg ?h from n p (sectors fs) = Some d'" "wf_sectors cfg d'"
    "file_bytes ?h d' = take a (file_bytes ?h (sectors fs)) @ take k from @ drop (a + k) (file_bytes ?h (sectors fs))"
    "\<forall>s. s \<notin> nat ` set (data_list ?h) \<longrightarrow> d' ! s = sectors fs ! s"
    using write_range_ok [OF wf a(3) in_file] unfolding a(1,2) by blast
  have bytes: "file_bytes ?h d' = take a (file_bytes (hdr f) (sectors fs)) @ take k from
      @ drop (a + k) (file_bytes (hdr f) (sectors fs))"
  proof (cases "numBytes (hdr f) < p + n")
    case True
    then have m: "?h = (hdr f)\<lparr>numBytes := int (a + k)\<rparr>" using a by (simp add: max_def)
    have "nat (numBytes (hdr f)) \<le> a + k" "a \<le> nat (numBytes (hdr f))" using True a nb assms(3) by linarith+
    from file_bytes_extend [OF this refl, of "sectors fs"] show ?thesis
      unfolding m using d'(3) [unfolded m] by (simp only:)
  next
    case False
    then have "?h = hdr f" by (simp add: max_def)
    then show ?thesis using d'(3) by (simp only:)
  qed
  have wf': "wf_file cfg ?h d'" using wf d'(2) by (simp add: wf_file_def)
  have "WriteAt_with cfg grow from n p f fs = Some (n, f\<lparr>hdr := ?h\<rparr>, fs\<lparr>sectors := d'\<rparr>)"
  proof (cases "numBytes (hdr f) < p + n")
    case True
    then have m: "max (numBytes (hdr f)) (p + n) = p + n" by simp
    show ?thesis
      using True assms(3-6) d'(1)
      by (simp add: WriteAt_with_def Let_def FileLength_def ChangeFileLength_def m)
  next
    case False
    then have m: "?h = hdr f" by (simp add: max_def)
    show ?thesis
      using False assms(3-6) d'(1) unfolding m
      by (simp add: WriteAt_with_def Let_def FileLength_def)
  qed
  then show ?thesis using wf' bytes d'(4) a dl by (auto simp: nat_add_distrib)
qed

text \<open>
  Sequential reading. \<open>Read\<close> returns the bytes of the file from its position, as many
  as were asked for and the file still has, and moves the position past them; at the end of
  the file it returns nothing and does not move.
\<close>
theorem read_sequential:
  assumes "wf_file cfg (hdr f) d" "0 \<le> seekPosition f"
  shows "\<exists>bs f'. Read cfg n f d = Some (bs, f')
    \<and> bs = take (nat n) (drop (nat (seekPosition f)) (file_bytes (hdr f) d))
    \<and> f' = f\<lparr>seekPosition := seekPosition f + int (length bs)\<rparr>
    \<and> int (length bs) = max 0 (min n (FileLength (hdr f) - seekPosition f))"
proof -
  have l: "length (file_bytes (hdr f) d) = nat (numBytes (hdr f))"
    using wf_file_blocks(4) [OF assms(1)] by (simp add: file_bytes_def)
  have "0 \<le> numBytes (hdr f)" using assms(1) by (simp add: wf_file_def)
  then show ?thesis
    using ReadAt_bytes [OF assms] assms(2) l
    by (auto simp: Read_def FileLength_def min_def max_def)
qed

text \<open>
  C4. Writing within the sectors of a file. \<open>WriteAt\<close> replaces exactly the bytes
  \<open>position .. position + numBytes - 1\<close>, whatever their alignment to sectors: the bytes of
  the file before and after the range survive the read-modify-write of the partial sectors at
  its ends; the file becomes longer when the range ends past it; no other sector of the
  disk changes, and every later \<open>ReadAt\<close> sees the new contents.
\<close>
theorem write_in_place:
  assumes "wf_file cfg (hdr f) (sectors fs)" "0 \<le> p" "p \<le> FileLength (hdr f)" "0 < n"
    and "p + n \<le> MaxFileLength cfg (hdr f)" "p + n \<le> MAX_FILE_LENGTH cfg" "n \<le> int (length from)"
  shows "\<exists>f' fs'. WriteAt cfg from n p f fs = Some (n, f', fs')
    \<and> (\<forall>m q. 0 \<le> q \<longrightarrow> ReadAt cfg (hdr f') m q (sectors fs') = Some (take (nat m) (drop (nat q)
         (take (nat p) (file_bytes (hdr f) (sectors fs)) @ take (nat n) from
          @ drop (nat (p + n)) (file_bytes (hdr f) (sectors fs))))))
    \<and> FileLength (hdr f') = max (FileLength (hdr f)) (p + n)
    \<and> (\<forall>s. s \<notin> nat ` set (data_list (hdr f)) \<longrightarrow> sectors fs' ! s = sectors fs ! s)
    \<and> fs' = fs\<lparr>sectors := sectors fs'\<rparr>"
proof -
  obtain f' fs' where w: "WriteAt cfg from n p f fs = Some (n, f', fs')"
    "f' = f\<lparr>hdr := (hdr f)\<lparr>numBytes := max (numBytes (hdr f)) (p + n)\<rparr>\<rparr>"
    "fs' = fs\<lparr>sectors := sectors fs'\<rparr>" "wf_file cfg (hdr f') (sectors fs')"
    "file_bytes (hdr f') (sectors fs') = take (nat p) (file_bytes (hdr f) (sectors fs))
        @ take (nat n) from @ drop (nat (p + n)) (file_bytes (hdr f) (sectors fs))"
    "\<forall>s. s \<notin> nat ` set (data_list (hdr f)) \<longrightarrow> sectors fs' ! s = sectors fs ! s"
    using WriteAt_with_in_place [OF assms(1,2) _ assms(4-7), of "grow_file cfg"] assms(3)
    unfolding WriteAt_def FileLength_def by blast
  have "FileLength (hdr f') = max (FileLength (hdr f)) (p + n)" by (simp add: w(2) FileLength_def)
  moreover have "\<forall>m q. 0 \<le> q \<longrightarrow> ReadAt cfg (hdr f') m q (sectors fs') = Some (take (nat m) (drop (nat q)
         (take (nat p) (file_bytes (hdr f) (sectors fs)) @ take (nat n) from
          @ drop (nat (p + n)) (file_bytes (hdr f) (sectors fs)))))"
    using ReadAt_bytes [OF w(4)] unfolding w(5) by blast
  ultimately show ?thesis using w(1,3,6) by blast
qed

text \<open>
  A write that cannot grow the file is truncated to the old length, but the header in
  memory already says the new length: the file then claims more bytes than its sectors hold.
\<close>
theorem failed_growth_keeps_wrong_length:
  assumes "grow_file cfg (p + n) f fs = Some (False, h, fs1)"
    and "0 < n" "p \<le> FileLength (hdr f)" "MaxFileLength cfg (hdr f) < p + n"
    and "WriteAt cfg from n p f fs = Some (r, f', fs')"
  shows "r = FileLength (hdr f) - p \<and> FileLength (hdr f') = p + n
    \<and> MaxFileLength cfg (hdr f') < FileLength (hdr f')"
proof -
  obtain fm fm' where r: "reAllocate cfg fm (FileLength (hdr f)) (p + n) (hdr f) = Some (False, fm', h)"
    using assms(1) by (auto simp: grow_file_def split: bind_splits if_splits prod.splits)
  then have h: "h = (hdr f)\<lparr>numBytes := p + n\<rparr>"
    by (auto simp: reAllocate_def Let_def split: bind_splits if_splits prod.splits)
  have "WriteAt cfg from n p f fs = do {
      d \<leftarrow> write_range cfg h from (FileLength (hdr f) - p) p (sectors fs1);
      Some (FileLength (hdr f) - p, f\<lparr>hdr := h\<rparr>, fs1\<lparr>sectors := d\<rparr>) }"
    using assms(1-4) by (simp add: WriteAt_def WriteAt_with_def Let_def)
  then have "r = FileLength (hdr f) - p" "hdr f' = h"
    using assms(5) by (auto split: bind_splits)
  then show ?thesis using assms(4) by (simp add: h FileLength_def MaxFileLength_def)
qed

text \<open>
  The map of free sectors on disk. Writing a bitmap into a file long enough for it and
  fetching it back gives the same bitmap, whatever was in the bitmap object before.
\<close>
theorem free_map_roundtrip:
  assumes "wf_file cfg (hdr f) (sectors fs)" "wf_bitmap b" "0 < numBits b"
    and "numWords b * 4 \<le> FileLength (hdr f)" "FileLength (hdr f) \<le> MAX_FILE_LENGTH cfg"
    and "numBits b0 = numBits b" "wf_bitmap b0"
  shows "\<exists>f' fs'. WriteAt cfg (BitMap_bytes b) (numWords b * 4) 0 f fs = Some (numWords b * 4, f', fs')
    \<and> BitMap_FetchFrom cfg (hdr f') (sectors fs') b0 = Some b"
proof -
  let ?n = "numWords b * 4"
  have len: "int (length (bits b)) = numWords b" "int (length (bits b0)) = numWords b" "numWords b0 = numWords b"
    using assms(2,6,7) by (simp_all add: wf_bitmap_def)
  have "0 < numWords b"
  proof (rule ccontr)
    assume "\<not> ?thesis"
    then have "numWords b = 0" using len(1) by linarith
    then show False
      using assms(2,3) divRoundUp_bounds(1) [of "numBits b" BITS_IN_WORD]
      by (simp add: wf_bitmap_def BITS_IN_WORD_def)
  qed
  then have n: "0 < ?n" by simp
  have "FileLength (hdr f) \<le> MaxFileLength cfg (hdr f)"
    using assms(1) by (simp add: wf_file_def FileLength_def MaxFileLength_def)
  then have fits: "0 + ?n \<le> MaxFileLength cfg (hdr f)" "0 + ?n \<le> MAX_FILE_LENGTH cfg"
    using assms(4,5) by simp_all
  have bl: "int (length (BitMap_bytes b)) = ?n" using len by (simp add: BitMap_bytes_def)
  obtain f' fs' where w: "WriteAt cfg (BitMap_bytes b) ?n 0 f fs = Some (?n, f', fs')"
    "wf_file cfg (hdr f') (sectors fs')"
    "file_bytes (hdr f') (sectors fs') = take (nat 0) (file_bytes (hdr f) (sectors fs))
        @ take (nat ?n) (BitMap_bytes b) @ drop (nat (0 + ?n)) (file_bytes (hdr f) (sectors fs))"
    using WriteAt_with_in_place [OF assms(1) order_refl _ n fits, of "BitMap_bytes b" "grow_file cfg"]
      n assms(4) bl unfolding WriteAt_def FileLength_def by auto
  have nl: "nat ?n = length (BitMap_bytes b)" using bl by linarith
  have "ReadAt cfg (hdr f') ?n 0 (sectors fs') = Some (BitMap_bytes b)"
    using ReadAt_bytes [OF w(2) order_refl, of ?n] unfolding w(3) nl by simp
  moreover have "blit (words_to_bytes (bits b0)) 0 (BitMap_bytes b) = Some (BitMap_bytes b)"
    using len by (simp add: blit_def BitMap_bytes_def)
  ultimately have "BitMap_FetchFrom cfg (hdr f') (sectors fs') b0 = Some (b0\<lparr>bits := bits b\<rparr>)"
    by (simp add: BitMap_FetchFrom_def len(3) BitMap_bytes_def)
  moreover have "b0\<lparr>bits := bits b\<rparr> = b" using assms(6) len(3) by simp
  ultimately show ?thesis using w(1) by simp
qed

subsection \<open>Instances\<close>

text \<open>
  A disk of 128-byte sectors, where sectors 1 and 2 hold a map with every sector marked and
  sector 5 holds a file of 128 bytes.
\<close>

definition tiny_hdr :: "int \<Rightarrow> int list \<Rightarrow> FileHeader" where
  "tiny_hdr len ss = \<lparr>isdir = 0, numBytes = len, numSectors = int (length ss), numHeaderSectors = 0,
     headerSectors = replicate 32 0, dataSectors = ss\<rparr>"

definition tiny_file :: "int \<Rightarrow> int list \<Rightarrow> OpenFile" where
  "tiny_file len ss = \<lparr>hdr = tiny_hdr len ss, seekPosition = 2, fSector = 4, fname = []\<rparr>"

definition tiny_fs :: filesystem where
  "tiny_fs = \<lparr>sectors = (replicate 2048 (replicate 128 0))[1 := replicate 128 255, 2 := replicate 128 255],
     freeMapFile = tiny_file 256 [1, 2], directoryFile = tiny_file 0 [], createLock = False\<rparr>"

lemma tiny_fs_sectors: "length (sectors tiny_fs) = 2048" "s \<in> set (sectors tiny_fs) \<Longrightarrow> length s = 128"
proof -
  show "length (sectors tiny_fs) = 2048"
    unfolding tiny_fs_def filesystem.simps length_list_update by (rule length_replicate)
  let ?R = "replicate 2048 (replicate 128 (0 :: byte))" and ?x = "replicate 128 (255 :: byte)"
  have "set (?R[1 := ?x, 2 := ?x]) \<subseteq> insert ?x (insert ?x (set ?R))"
    by (rule order_trans [OF set_update_subset_insert insert_mono [OF set_update_subset_insert]])
  moreover assume "s \<in> set (sectors tiny_fs)"
  ultimately have "s \<in> insert ?x (insert ?x (set ?R))"
    unfolding tiny_fs_def filesystem.simps by blast
  then show "length s = 128" by auto
qed

lemma tiny_file_wf:
  assumes "0 \<le> len" "len \<le> int (length ss) * 128" "distinct ss" "set ss \<subseteq> {0..<2048}"
  shows "wf_file tiny_cfg (tiny_hdr len ss) (sectors tiny_fs)"
  using assms tiny_fs_sectors by (auto simp: wf_file_def wf_sectors_def tiny_hdr_def data_list_def)

lemma tiny_hdr_simps [simp]:
  "hdr (tiny_file len ss) = tiny_hdr len ss" "numBytes (tiny_hdr len ss) = len"
  "FileLength (tiny_hdr len ss) = len" "seekPosition (tiny_file len ss) = 2"
  "MaxFileLength tiny_cfg (tiny_hdr len ss) = int (length ss) * 128"
  by (simp_all add: tiny_file_def tiny_hdr_def FileLength_def MaxFileLength_def)

theorem read_sequential_witness:
  "\<exists>bs f'. Read tiny_cfg 100 (tiny_file 10 [5]) (sectors tiny_fs) = Some (bs, f')
    \<and> length bs = 8 \<and> seekPosition f' = 10"
proof -
  have "wf_file tiny_cfg (hdr (tiny_file 10 [5])) (sectors tiny_fs)" using tiny_file_wf by simp
  from read_sequential [OF this, of 100] show ?thesis by fastforce
qed

theorem write_in_place_witness:
  "\<exists>f' fs'. WriteAt tiny_cfg [1, 2, 3, 4] 4 8 (tiny_file 10 [5]) tiny_fs = Some (4, f', fs')
    \<and> ReadAt tiny_cfg (hdr f') 4 8 (sectors fs') = Some [1, 2, 3, 4] \<and> FileLength (hdr f') = 12"
proof -
  have w: "wf_file tiny_cfg (hdr (tiny_file 10 [5])) (sectors tiny_fs)" using tiny_file_wf by simp
  have l: "length (file_bytes (hdr (tiny_file 10 [5])) (sectors tiny_fs)) = 10"
    using wf_file_blocks(4) [OF w] by (simp add: file_bytes_def)
  obtain f' fs' where x: "WriteAt tiny_cfg [1, 2, 3, 4] 4 8 (tiny_file 10 [5]) tiny_fs = Some (4, f', fs')"
    "\<forall>m q. 0 \<le> q \<longrightarrow> ReadAt tiny_cfg (hdr f') m q (sectors fs') = Some (take (nat m) (drop (nat q)
         (take (nat 8) (file_bytes (hdr (tiny_file 10 [5])) (sectors tiny_fs)) @ take (nat 4) [1, 2, 3, 4]
          @ drop (nat (8 + 4)) (file_bytes (hdr (tiny_file 10 [5])) (sectors tiny_fs)))))"
    "FileLength (hdr f') = max 10 (8 + 4)"
    using write_in_place [OF w, of 8 4 "[1, 2, 3, 4]"] by auto
  have "ReadAt tiny_cfg (hdr f') 4 8 (sectors fs') = Some [1, 2, 3, 4]" using x(2) l by simp
  then show ?thesis using x(1,3) by simp
qed

lemma tiny_map_full:
  assumes "wf_bitmap b0" "numBits b0 = 2048"
  shows "\<exists>b. BitMap_FetchFrom tiny_cfg (hdr (freeMapFile tiny_fs)) (sectors tiny_fs) b0 = Some b
    \<and> wf_bitmap b \<and> free_bits b = {}"
proof -
  have w: "wf_file tiny_cfg (tiny_hdr 256 [1, 2]) (sectors tiny_fs)" using tiny_file_wf by simp
  have nw: "numWords b0 = 64" "length (bits b0) = 64"
    using assms by (simp_all add: wf_bitmap_def divRoundUp_def BITS_IN_WORD_def cint_simps)
  have ones: "replicate 256 255 = words_to_bytes (replicate 64 (- 1))"
  proof -
    have "le_word 255 255 255 255 = - 1" by (simp add: le_word_def)
    then have b: "le_bytes (- 1) = [255, 255, 255, 255]" using le_bytes_word by metis
    have "words_to_bytes (replicate n (- 1)) = replicate (4 * n) 255" for n
      by (induction n) (simp_all add: b numeral_eq_Suc)
    from this [of 64] show ?thesis by simp
  qed
  have "sectors tiny_fs ! 1 = replicate 128 255" "sectors tiny_fs ! 2 = replicate 128 255"
    unfolding tiny_fs_def filesystem.simps
    by (simp_all add: nth_list_update)
  then have "file_bytes (tiny_hdr 256 [1, 2]) (sectors tiny_fs) = take 256 (replicate 128 255 @ replicate 128 255)"
    by (simp add: file_bytes_def raw_bytes_def file_blocks_def data_list_def tiny_hdr_def)
  also have "\<dots> = replicate 256 255" by (simp add: replicate_add [symmetric])
  finally have fb: "file_bytes (tiny_hdr 256 [1, 2]) (sectors tiny_fs) = words_to_bytes (replicate 64 (- 1))"
    unfolding ones .
  have r: "ReadAt tiny_cfg (tiny_hdr 256 [1, 2]) 256 0 (sectors tiny_fs) = Some (words_to_bytes (replicate 64 (- 1)))"
    using ReadAt_bytes [OF w, of 0 256] unfolding fb by simp
  let ?b = "b0\<lparr>bits := replicate 64 (- 1)\<rparr>"
  have "blit (words_to_bytes (bits b0)) 0 (words_to_bytes (replicate 64 (- 1))) = Some (words_to_bytes (replicate 64 (- 1)))"
    using nw by (simp add: blit_def)
  then have "BitMap_FetchFrom tiny_cfg (hdr (freeMapFile tiny_fs)) (sectors tiny_fs) b0 = Some ?b"
    using r nw by (simp add: BitMap_FetchFrom_def tiny_fs_def)
  moreover have "wf_bitmap ?b" using assms(1) nw by (simp add: wf_bitmap_def)
  moreover have "free_bits ?b = {}"
    using assms(2) by (auto simp: free_bits_def marked_def)
  ultimately show ?thesis by blast
qed

theorem failed_growth_keeps_wrong_length_witness:
  "\<exists>f' fs'. WriteAt tiny_cfg [7] 1 128 (tiny_file 128 [5]) tiny_fs = Some (0, f', fs')
    \<and> FileLength (hdr f') = 129 \<and> MaxFileLength tiny_cfg (hdr f') < 129"
proof -
  obtain b0 where b0: "BitMap_new tiny_cfg 2048 = Some b0" "wf_bitmap b0" "numBits b0 = 2048"
    using BitMap_new_correct [of 2048 tiny_cfg] by auto
  obtain b where b: "BitMap_FetchFrom tiny_cfg (hdr (freeMapFile tiny_fs)) (sectors tiny_fs) b0 = Some b"
    "wf_bitmap b" "free_bits b = {}" using tiny_map_full [OF b0(2,3)] by blast
  have nc: "BitMap_NumClear b = Some 0" using BitMap_NumClear_correct [OF b(2)] b(3) by simp
  have "divRoundUp 129 128 = 2" "divRoundUp (- 26) 31 = 0"
    by (simp add: divRoundUp_def cint_simps) (rule divRoundUp_neg, simp_all)
  then have "reAllocate tiny_cfg b 128 129 (tiny_hdr 128 [5]) = Some (False, b, (tiny_hdr 128 [5])\<lparr>numBytes := 129\<rparr>)"
    by (simp add: reAllocate_def nc tiny_hdr_def)
  then have g: "grow_file tiny_cfg (128 + 1) (tiny_file 128 [5]) tiny_fs
      = Some (False, (tiny_hdr 128 [5])\<lparr>numBytes := 129\<rparr>, tiny_fs)"
    using b0(1) b(1) by (simp add: grow_file_def)
  have "divRoundDown 128 128 = 1" "divRoundDown 127 128 = 0" by (simp_all add: divRoundDown_def cint_simps)
  then have wr: "write_range tiny_cfg h [7] 0 128 d = Some d" for h d
    by (simp add: write_range_def Let_def bufpart_def blit_def write_sectors_def)
  have "WriteAt tiny_cfg [7] 1 128 (tiny_file 128 [5]) tiny_fs
      = Some (0, (tiny_file 128 [5])\<lparr>hdr := (tiny_hdr 128 [5])\<lparr>numBytes := 129\<rparr>\<rparr>, tiny_fs)"
    using g by (simp add: WriteAt_def WriteAt_with_def Let_def wr)
  from failed_growth_keeps_wrong_length [OF g _ _ _ this] this show ?thesis by simp
qed

theorem free_map_roundtrip_witness:
  "\<exists>f' fs'. WriteAt tiny_cfg (BitMap_bytes (map32\<lparr>bits := [5]\<rparr>)) 4 0 (tiny_file 10 [5]) tiny_fs = Some (4, f', fs')
    \<and> BitMap_FetchFrom tiny_cfg (hdr f') (sectors fs') map32 = Some (map32\<lparr>bits := [5]\<rparr>)"
proof -
  have w: "wf_file tiny_cfg (hdr (tiny_file 10 [5])) (sectors tiny_fs)" using tiny_file_wf by simp
  have m: "wf_bitmap (map32\<lparr>bits := [5]\<rparr>)" "wf_bitmap map32" "numWords (map32\<lparr>bits := [5]\<rparr>) = 1"
    "numBits (map32\<lparr>bits := [5]\<rparr>) = 32" "numBits map32 = 32"
    using map32_free(1) by (simp_all add: wf_bitmap_def map32_def)
  show ?thesis
    using free_map_roundtrip [OF w m(1), of map32] m by simp
qed

end
