(* ===== verification/Nachos_Directory.thy ===== *)
theory Nachos_Directory
  imports Nachos_OpenFile
begin

text \<open>
  Directories (\<open>filesys/directory.cc\<close>): a table of entries of a fixed size, kept as the
  contents of a file. Names are C strings: in memory a buffer of bytes, whose string is
  what comes before its first zero; names are compared and stored up to
  \<open>FILENAMEMAXLEN\<close> bytes.

  The locale \<open>name_table\<close> is what the file system relies on: a directory is a finite
  map from names to sectors. The class is its interpretation.
\<close>

text \<open>The error codes of \<open>kernel/msgerror.h\<close>.\<close>

datatype ErrorCode =
    NoError
  | IncError
  | OpenFileError
  | ExecFileFormatError
  | OutOfMemory
  | OutOfDisk
  | AlreadyInDirectory
  | InexistFileError
  | InexistDirectoryError
  | NoSpaceInDirectory
  | NotAFile
  | NotADirectory
  | DirectoryNotEmpty
  | InvalidSemaphoreId
  | InvalidLockId
  | InvalidConditionId
  | InvalidFileId
  | InvalidThreadId
  | NoACIA

definition FILENAMEMAXLEN :: nat where "FILENAMEMAXLEN = 80"

subsection \<open>C strings\<close>

definition cstring :: "byte list \<Rightarrow> byte list" where
  "cstring buf = takeWhile (\<lambda>c. c \<noteq> 0) buf"

text \<open>\<open>strncmp(a, b, n) == 0\<close> and \<open>strncpy(dst, src, n)\<close>.\<close>

fun strneq :: "nat \<Rightarrow> byte list \<Rightarrow> byte list \<Rightarrow> bool" where
  "strneq 0 a b = True"
| "strneq (Suc n) a b =
     (let x = (case a of [] \<Rightarrow> 0 | c # _ \<Rightarrow> c); y = (case b of [] \<Rightarrow> 0 | c # _ \<Rightarrow> c)
      in if x \<noteq> y then False else if x = 0 then True else strneq n (tl a) (tl b))"

definition strncpy :: "byte list \<Rightarrow> byte list \<Rightarrow> nat \<Rightarrow> byte list" where
  "strncpy dst src n = take n (cstring src @ replicate n 0) @ drop n dst"

subsection \<open>The table\<close>

record DirectoryEntry =
  inUse :: bool
  esector :: int
  ename :: "byte list"

type_synonym Directory = "DirectoryEntry list"

definition Directory_new :: "config \<Rightarrow> int \<Rightarrow> Directory" where
  "Directory_new cfg sz = map (\<lambda>i. \<lparr>inUse = False, esector = sint (word_of_int (fresh cfg i) :: u32),
     ename = map (\<lambda>j. word_of_int (fresh cfg j)) [0..<FILENAMEMAXLEN + 1]\<rparr>) [0..<nat sz]"

text \<open>
  An entry in memory: the flag, three bytes of padding, the sector, the name buffer and
  three more bytes of padding. \<open>table_bytes\<close> is the \<open>(char *)\<close> view of the table.
\<close>

definition entry_size :: nat where "entry_size = 92"

definition entry_bytes :: "DirectoryEntry \<Rightarrow> byte list" where
  "entry_bytes e = (if inUse e then 1 else 0) # [0, 0, 0] @ le_bytes (word_of_int (esector e))
     @ ename e @ [0, 0, 0]"

definition entry_of :: "byte list \<Rightarrow> DirectoryEntry" where
  "entry_of b = \<lparr>inUse = (b ! 0 \<noteq> 0), esector = sint (le_word (b ! 4) (b ! 5) (b ! 6) (b ! 7)),
     ename = take (FILENAMEMAXLEN + 1) (drop 8 b)\<rparr>"

definition table_bytes :: "Directory \<Rightarrow> byte list" where
  "table_bytes dir = concat (map entry_bytes dir)"

definition table_of :: "nat \<Rightarrow> byte list \<Rightarrow> Directory" where
  "table_of n bs = map (\<lambda>i. entry_of (take entry_size (drop (i * entry_size) bs))) [0..<n]"

definition Directory_FetchFrom ::
  "config \<Rightarrow> FileHeader \<Rightarrow> byte list list \<Rightarrow> Directory \<Rightarrow> Directory option" where
  "Directory_FetchFrom cfg h d dir = do {
     bs \<leftarrow> ReadAt cfg h (int (length dir * entry_size)) 0 d;
     m \<leftarrow> blit (table_bytes dir) 0 bs;
     Some (table_of (length dir) m) }"

definition Directory_WriteBack ::
  "config \<Rightarrow> Directory \<Rightarrow> OpenFile \<Rightarrow> filesystem \<Rightarrow> (OpenFile \<times> filesystem) option" where
  "Directory_WriteBack cfg dir f fs = do {
     (_, f', fs') \<leftarrow> WriteAt cfg (table_bytes dir) (int (length dir * entry_size)) 0 f fs;
     Some (f', fs') }"

fun FindIndex_from :: "Directory \<Rightarrow> byte list \<Rightarrow> int \<Rightarrow> int" where
  "FindIndex_from [] nm i = - 1"
| "FindIndex_from (e # es) nm i =
     (if inUse e \<and> strneq FILENAMEMAXLEN (ename e) nm then i else FindIndex_from es nm (i + 1))"

definition FindIndex :: "Directory \<Rightarrow> byte list \<Rightarrow> int" where
  "FindIndex dir nm = FindIndex_from dir nm 0"

definition Directory_Find :: "Directory \<Rightarrow> byte list \<Rightarrow> int" where
  "Directory_Find dir nm =
     (let i = FindIndex dir nm in if i \<noteq> - 1 then esector (dir ! nat i) else - 1)"

text \<open>The loop of \<open>Add\<close> fills the first unused entry.\<close>

fun add_entry :: "Directory \<Rightarrow> byte list \<Rightarrow> int \<Rightarrow> ErrorCode \<times> Directory" where
  "add_entry [] nm newSector = (NoSpaceInDirectory, [])"
| "add_entry (e # es) nm newSector =
     (if \<not> inUse e
      then (NoError, \<lparr>inUse = True, esector = newSector,
              ename = strncpy (ename e) nm FILENAMEMAXLEN\<rparr> # es)
      else let (r, es') = add_entry es nm newSector in (r, e # es'))"

definition Directory_Add :: "byte list \<Rightarrow> int \<Rightarrow> Directory \<Rightarrow> ErrorCode \<times> Directory" where
  "Directory_Add nm newSector dir =
     (if FindIndex dir nm \<noteq> - 1 then (AlreadyInDirectory, dir) else add_entry dir nm newSector)"

definition Directory_Remove :: "byte list \<Rightarrow> Directory \<Rightarrow> ErrorCode \<times> Directory" where
  "Directory_Remove nm dir =
     (let i = FindIndex dir nm in
      if i = - 1 then (InexistDirectoryError, dir)
      else (NoError, dir[nat i := (dir ! nat i)\<lparr>inUse := False\<rparr>]))"

fun Directory_empty :: "Directory \<Rightarrow> bool" where
  "Directory_empty [] = True"
| "Directory_empty (e # es) = (if inUse e then False else Directory_empty es)"

subsection \<open>Names as keys\<close>

text \<open>What a comparison sees of a name.\<close>

definition key :: "byte list \<Rightarrow> byte list" where
  "key nm = take FILENAMEMAXLEN (cstring nm)"

lemma cstring_simps [simp]:
  "cstring [] = []" "cstring (c # cs) = (if c = 0 then [] else c # cstring cs)"
  by (simp_all add: cstring_def)

lemma cstring_nonzero: "0 \<notin> set (cstring nm)"
  by (auto simp: cstring_def dest: set_takeWhileD)

lemma cstring_id: "0 \<notin> set nm \<Longrightarrow> cstring nm = nm"
  by (auto simp: cstring_def)

lemma strneq_keys: "strneq n a b \<longleftrightarrow> take n (cstring a) = take n (cstring b)"
proof (induction n a b rule: strneq.induct)
  case (2 n a b)
  then show ?case by (cases a; cases b) (auto simp: Let_def)
qed simp

lemma cstring_append_zero: "0 \<notin> set s \<Longrightarrow> cstring (s @ 0 # r) = s"
  by (induction s) auto

lemma cstring_take: "cstring (take n s) = take n (cstring s)"
proof (induction s arbitrary: n)
  case (Cons c s)
  then show ?case by (cases n) auto
qed simp

lemma key_strncpy: "length dst = FILENAMEMAXLEN + 1 \<Longrightarrow> key (strncpy dst nm FILENAMEMAXLEN) = key nm"
proof -
  let ?s = "cstring nm" and ?n = FILENAMEMAXLEN
  have "cstring (?s @ replicate ?n 0) = ?s"
    using cstring_append_zero [OF cstring_nonzero, of nm "replicate 79 0"]
    by (simp add: FILENAMEMAXLEN_def numeral_eq_Suc)
  then have "take ?n (cstring (take ?n (?s @ replicate ?n 0))) = take ?n ?s"
    by (simp only: cstring_take take_take min.idem)
  moreover have "take ?n (cstring (take ?n x @ y)) = take ?n (cstring (take ?n x))"
    if "?n \<le> length x" for x y :: "byte list"
    using cstring_take [of ?n "take ?n x @ y"] cstring_take [of ?n "take ?n x"] that by simp
  from this [of "?s @ replicate ?n 0" "drop ?n dst"]
  have "take ?n (cstring (take ?n (?s @ replicate ?n 0) @ drop ?n dst))
      = take ?n (cstring (take ?n (?s @ replicate ?n 0)))" by simp
  ultimately show ?thesis by (simp only: key_def strncpy_def)
qed

lemma length_strncpy: "length dst = n + k \<Longrightarrow> length (strncpy dst nm n) = n + k"
  by (simp add: strncpy_def)

lemma strneq_key: "strneq FILENAMEMAXLEN a b \<longleftrightarrow> key a = key b"
  by (simp add: strneq_keys key_def)

subsection \<open>A directory as a finite map\<close>

definition dir_map :: "Directory \<Rightarrow> byte list \<Rightarrow> int option" where
  "dir_map dir = map_of (map (\<lambda>e. (key (ename e), esector e)) (filter inUse dir))"

definition wf_entry :: "DirectoryEntry \<Rightarrow> bool" where
  "wf_entry e \<longleftrightarrow> length (ename e) = FILENAMEMAXLEN + 1 \<and> int32 (esector e)
     \<and> (inUse e \<longrightarrow> 0 \<le> esector e)"

definition wf_dir :: "Directory \<Rightarrow> bool" where
  "wf_dir dir \<longleftrightarrow> (\<forall>e\<in>set dir. wf_entry e)
     \<and> distinct (map (\<lambda>e. key (ename e)) (filter inUse dir))"

lemma dir_map_simps [simp]:
  "dir_map [] = Map.empty"
  "dir_map (e # es) = (if inUse e then (dir_map es)(key (ename e) \<mapsto> esector e) else dir_map es)"
  by (simp_all add: dir_map_def)

lemma dom_dir_map: "dom (dir_map dir) = (\<lambda>e. key (ename e)) ` {e \<in> set dir. inUse e}"
  by (induction dir) auto

lemma wf_dir_simps [simp]:
  "wf_dir []"
  "wf_dir (e # es) \<longleftrightarrow> wf_entry e \<and> wf_dir es \<and> (inUse e \<longrightarrow> key (ename e) \<notin> dom (dir_map es))"
  unfolding dom_dir_map by (auto simp: wf_dir_def)

lemma FindIndex_from_correct:
  "case dir_map dir (key nm) of
     None \<Rightarrow> FindIndex_from dir nm i = - 1
   | Some s \<Rightarrow> \<exists>k < length dir. FindIndex_from dir nm i = i + int k \<and> inUse (dir ! k)
       \<and> key (ename (dir ! k)) = key nm \<and> esector (dir ! k) = s"
proof (induction dir arbitrary: i)
  case (Cons e es)
  show ?case
  proof (cases "inUse e \<and> key (ename e) = key nm")
    case True
    then show ?thesis by (auto simp: strneq_key intro: exI [of _ 0])
  next
    case False
    then have f: "FindIndex_from (e # es) nm i = FindIndex_from es nm (i + 1)"
      "dir_map (e # es) (key nm) = dir_map es (key nm)"
      by (auto simp: strneq_key)
    show ?thesis
    proof (cases "dir_map es (key nm)")
      case None
      then show ?thesis using Cons.IH [of "i + 1"] unfolding f by simp
    next
      case (Some s)
      then obtain k where "k < length es" "FindIndex_from es nm (i + 1) = i + 1 + int k"
        "inUse (es ! k)" "key (ename (es ! k)) = key nm" "esector (es ! k) = s"
        using Cons.IH [of "i + 1"] by auto
      then show ?thesis unfolding f Some by (auto intro!: exI [of _ "Suc k"])
    qed
  qed
qed simp

lemma FindIndex_None: "FindIndex dir nm = - 1 \<longleftrightarrow> dir_map dir (key nm) = None"
  using FindIndex_from_correct [of dir nm 0] by (auto simp: FindIndex_def split: option.splits)

lemma Directory_Find_correct:
  "Directory_Find dir nm = (case dir_map dir (key nm) of None \<Rightarrow> - 1 | Some s \<Rightarrow> s)"
  using FindIndex_from_correct [of dir nm 0]
  by (auto simp: Directory_Find_def FindIndex_def Let_def split: option.splits)

lemma add_entry_correct:
  assumes "wf_dir dir" "dir_map dir (key nm) = None" "0 \<le> s" "int32 s"
  shows "if \<forall>e\<in>set dir. inUse e then add_entry dir nm s = (NoSpaceInDirectory, dir)
    else \<exists>dir'. add_entry dir nm s = (NoError, dir') \<and> wf_dir dir' \<and> length dir' = length dir
      \<and> dir_map dir' = (dir_map dir)(key nm \<mapsto> s)"
  using assms
proof (induction dir)
  case (Cons e es)
  show ?case
  proof (cases "inUse e")
    case False
    then have "length (strncpy (ename e) nm FILENAMEMAXLEN) = FILENAMEMAXLEN + 1"
      using Cons.prems by (intro length_strncpy) (simp add: wf_entry_def)
    then show ?thesis
      using False Cons.prems by (auto simp: wf_entry_def key_strncpy)
  next
    case True
    then have ne: "key nm \<noteq> key (ename e)" "dir_map es (key nm) = None" "wf_dir es"
      using Cons.prems by (auto split: if_splits)
    show ?thesis
    proof (cases "\<forall>e\<in>set es. inUse e")
      case all: True
      then show ?thesis using Cons.IH ne Cons.prems(3,4) True by simp
    next
      case False
      then obtain dir' where "add_entry es nm s = (NoError, dir')" "wf_dir dir'" "length dir' = length es"
        "dir_map dir' = (dir_map es)(key nm \<mapsto> s)"
        using Cons.IH [OF ne(3,2) Cons.prems(3,4)] unfolding if_not_P [OF False] by blast
      then show ?thesis
        using True False ne Cons.prems(1) by (auto simp: fun_upd_twist)
    qed
  qed
qed simp

lemma clear_entry_correct:
  assumes "wf_dir dir" "k < length dir" "inUse (dir ! k)"
  shows "wf_dir (dir[k := (dir ! k)\<lparr>inUse := False\<rparr>])"
    "dir_map (dir[k := (dir ! k)\<lparr>inUse := False\<rparr>]) = (dir_map dir)(key (ename (dir ! k)) := None)"
proof -
  have "wf_dir (dir[k := (dir ! k)\<lparr>inUse := False\<rparr>]) \<and>
    dir_map (dir[k := (dir ! k)\<lparr>inUse := False\<rparr>]) = (dir_map dir)(key (ename (dir ! k)) := None)"
    using assms
  proof (induction dir arbitrary: k)
    case (Cons e es)
    show ?case
    proof (cases k)
      case 0
      then show ?thesis using Cons.prems by (auto simp: wf_entry_def fun_upd_idem_iff)
    next
      case (Suc j)
      then have IH: "wf_dir (es[j := (es ! j)\<lparr>inUse := False\<rparr>])"
        "dir_map (es[j := (es ! j)\<lparr>inUse := False\<rparr>]) = (dir_map es)(key (ename (es ! j)) := None)"
        using Cons.IH [of j] Cons.prems by auto
      have "es ! j \<in> set es" using Suc Cons.prems by simp
      then have "key (ename (es ! j)) \<in> dom (dir_map es)"
        using Suc Cons.prems(3) unfolding dom_dir_map by auto
      then have "inUse e \<longrightarrow> key (ename e) \<noteq> key (ename (es ! j))"
        using Cons.prems(1) by (metis wf_dir_simps(2))
      then show ?thesis using Suc IH Cons.prems(1) by (auto simp: fun_upd_twist)
    qed
  qed simp
  then show "wf_dir (dir[k := (dir ! k)\<lparr>inUse := False\<rparr>])"
    "dir_map (dir[k := (dir ! k)\<lparr>inUse := False\<rparr>]) = (dir_map dir)(key (ename (dir ! k)) := None)"
    by simp_all
qed

subsection \<open>The interface of a directory\<close>

text \<open>
  \<open>abs\<close> is the map that a directory stands for, \<open>nkey\<close> the part of a name that
  counts, \<open>room\<close> says that an entry is free, \<open>okay\<close> which sectors may be stored.
\<close>

locale name_table =
  fixes lookup :: "'d \<Rightarrow> byte list \<Rightarrow> int"
    and add :: "byte list \<Rightarrow> int \<Rightarrow> 'd \<Rightarrow> ErrorCode \<times> 'd"
    and remove :: "byte list \<Rightarrow> 'd \<Rightarrow> ErrorCode \<times> 'd"
    and is_empty :: "'d \<Rightarrow> bool"
    and inv :: "'d \<Rightarrow> bool"
    and abs :: "'d \<Rightarrow> byte list \<Rightarrow> int option"
    and nkey :: "byte list \<Rightarrow> byte list"
    and room :: "'d \<Rightarrow> bool"
    and okay :: "int \<Rightarrow> bool"
  assumes lookup_spec: "lookup d nm = (case abs d (nkey nm) of None \<Rightarrow> - 1 | Some s \<Rightarrow> s)"
    and stored: "inv d \<Longrightarrow> abs d k = Some s \<Longrightarrow> okay s"
    and okay_nonneg: "okay s \<Longrightarrow> 0 \<le> s"
    and add_present: "abs d (nkey nm) \<noteq> None \<Longrightarrow> add nm s d = (AlreadyInDirectory, d)"
    and add_full: "inv d \<Longrightarrow> okay s \<Longrightarrow> abs d (nkey nm) = None \<Longrightarrow> \<not> room d \<Longrightarrow>
      add nm s d = (NoSpaceInDirectory, d)"
    and add_new: "inv d \<Longrightarrow> okay s \<Longrightarrow> abs d (nkey nm) = None \<Longrightarrow> room d \<Longrightarrow>
      \<exists>d'. add nm s d = (NoError, d') \<and> inv d' \<and> abs d' = (abs d)(nkey nm \<mapsto> s)"
    and remove_absent: "abs d (nkey nm) = None \<Longrightarrow> remove nm d = (InexistDirectoryError, d)"
    and remove_present: "inv d \<Longrightarrow> abs d (nkey nm) = Some s \<Longrightarrow>
      \<exists>d'. remove nm d = (NoError, d') \<and> inv d' \<and> room d' \<and> abs d' = (abs d)(nkey nm := None)"
    and empty_spec: "is_empty d \<longleftrightarrow> abs d = Map.empty"
begin

lemma lookup_absent: "inv d \<Longrightarrow> lookup d nm = - 1 \<longleftrightarrow> abs d (nkey nm) = None"
  using stored [of d "nkey nm"] okay_nonneg by (fastforce simp: lookup_spec split: option.splits)

text \<open>Every case of \<open>add\<close> at once; what fails leaves the table as it is.\<close>

lemma add_cases:
  assumes "inv d" "okay s"
  shows "(add nm s d = (AlreadyInDirectory, d) \<and> lookup d nm \<noteq> - 1)
    \<or> (add nm s d = (NoSpaceInDirectory, d) \<and> lookup d nm = - 1 \<and> \<not> room d)
    \<or> (\<exists>d'. add nm s d = (NoError, d') \<and> inv d' \<and> lookup d nm = - 1
        \<and> (\<forall>other. lookup d' other = (if nkey other = nkey nm then s else lookup d other)))"
proof (cases "abs d (nkey nm)")
  case None
  then have l: "lookup d nm = - 1" by (simp add: lookup_spec)
  show ?thesis
  proof (cases "room d")
    case True
    then obtain d' where "add nm s d = (NoError, d')" "inv d'" "abs d' = (abs d)(nkey nm \<mapsto> s)"
      using add_new [OF assms None] by blast
    then show ?thesis using l by (simp add: lookup_spec)
  qed (use add_full [OF assms None] l in simp)
next
  case (Some t)
  then have "lookup d nm \<noteq> - 1" using lookup_absent [OF assms(1)] by simp
  then show ?thesis using add_present [of d nm s] Some by simp
qed

lemma remove_cases:
  assumes "inv d"
  shows "(remove nm d = (InexistDirectoryError, d) \<and> lookup d nm = - 1)
    \<or> (\<exists>d'. remove nm d = (NoError, d') \<and> inv d' \<and> lookup d nm \<noteq> - 1
        \<and> (\<forall>other. lookup d' other = (if nkey other = nkey nm then - 1 else lookup d other)))"
proof (cases "abs d (nkey nm)")
  case None
  then show ?thesis using remove_absent [of d nm] by (simp add: lookup_spec)
next
  case (Some s)
  then obtain d' where "remove nm d = (NoError, d')" "inv d'" "abs d' = (abs d)(nkey nm := None)"
    using remove_present [OF assms Some] by blast
  moreover have "lookup d nm \<noteq> - 1" using lookup_absent [OF assms] Some by simp
  ultimately show ?thesis by (simp add: lookup_spec)
qed

text \<open>Adding a name and removing it again gives back every lookup.\<close>

lemma add_remove:
  assumes "inv d" "okay s" "add nm s d = (NoError, d')"
  shows "\<exists>d''. remove nm d' = (NoError, d'') \<and> inv d'' \<and> (\<forall>other. lookup d'' other = lookup d other)"
proof -
  from add_cases [OF assms(1,2), of nm] assms(3)
  have d': "inv d'" "lookup d nm = - 1"
    "\<forall>other. lookup d' other = (if nkey other = nkey nm then s else lookup d other)" by auto
  have "lookup d' nm \<noteq> - 1" using d'(3) okay_nonneg [OF assms(2)] by simp
  then obtain d'' where d'': "remove nm d' = (NoError, d'')" "inv d''"
    "\<forall>other. lookup d'' other = (if nkey other = nkey nm then - 1 else lookup d' other)"
    using remove_cases [OF d'(1), of nm] by auto
  have "lookup d'' other = lookup d other" for other
  proof (cases "nkey other = nkey nm")
    case True
    then have "lookup d other = lookup d nm" by (simp add: lookup_spec)
    then show ?thesis using True d''(3) d'(2) by simp
  qed (simp add: d''(3) d'(3))
  then show ?thesis using d'' by blast
qed

end

definition sector_number :: "int \<Rightarrow> bool" where
  "sector_number s \<longleftrightarrow> 0 \<le> s \<and> int32 s"

lemma Directory_empty_correct: "Directory_empty dir \<longleftrightarrow> dir_map dir = Map.empty"
proof -
  have "Directory_empty dir \<longleftrightarrow> (\<forall>e\<in>set dir. \<not> inUse e)" by (induction dir) auto
  also have "\<dots> \<longleftrightarrow> dom (dir_map dir) = {}" unfolding dom_dir_map by auto
  finally show ?thesis by simp
qed

lemma Directory_Remove_correct:
  assumes "wf_dir dir" "dir_map dir (key nm) = Some s"
  shows "\<exists>dir'. Directory_Remove nm dir = (NoError, dir') \<and> wf_dir dir'
    \<and> length dir' = length dir \<and> (\<exists>e\<in>set dir'. \<not> inUse e)
    \<and> dir_map dir' = (dir_map dir)(key nm := None)"
proof -
  obtain k where k: "k < length dir" "FindIndex dir nm = int k" "inUse (dir ! k)"
    "key (ename (dir ! k)) = key nm"
    using FindIndex_from_correct [of dir nm 0] assms(2) by (auto simp: FindIndex_def)
  let ?dir = "dir[k := (dir ! k)\<lparr>inUse := False\<rparr>]"
  have "Directory_Remove nm dir = (NoError, ?dir)" using k by (simp add: Directory_Remove_def Let_def)
  moreover have "\<exists>e\<in>set ?dir. \<not> inUse e"
    using k(1) by (intro bexI [of _ "(dir ! k)\<lparr>inUse := False\<rparr>"]) (simp_all add: set_update_memI)
  ultimately show ?thesis
    using clear_entry_correct [OF assms(1) k(1,3)] k(4) by auto
qed

interpretation dir: name_table Directory_Find Directory_Add Directory_Remove Directory_empty
  wf_dir dir_map key "\<lambda>d. \<exists>e\<in>set d. \<not> inUse e" sector_number
proof unfold_locales
  fix d nm k s
  show "Directory_Find d nm = (case dir_map d (key nm) of None \<Rightarrow> - 1 | Some s \<Rightarrow> s)"
    by (rule Directory_Find_correct)
  show "sector_number s" if "wf_dir d" "dir_map d k = Some s"
  proof -
    have "\<exists>e\<in>set d. inUse e \<and> esector e = s"
      using that(2) by (auto simp: dir_map_def dest!: map_of_SomeD)
    then show ?thesis using that(1) by (auto simp: wf_dir_def wf_entry_def sector_number_def)
  qed
  show "0 \<le> s" if "sector_number s" using that by (simp add: sector_number_def)
  show "Directory_Add nm s d = (AlreadyInDirectory, d)" if "dir_map d (key nm) \<noteq> None"
    using that by (simp add: Directory_Add_def FindIndex_None)
  show "Directory_Add nm s d = (NoSpaceInDirectory, d)"
    if "wf_dir d" "sector_number s" "dir_map d (key nm) = None" "\<not> (\<exists>e\<in>set d. \<not> inUse e)"
    using that add_entry_correct [of d nm s]
    by (simp add: Directory_Add_def FindIndex_None sector_number_def)
  show "\<exists>d'. Directory_Add nm s d = (NoError, d') \<and> wf_dir d' \<and> dir_map d' = (dir_map d)(key nm \<mapsto> s)"
    if "wf_dir d" "sector_number s" "dir_map d (key nm) = None" "\<exists>e\<in>set d. \<not> inUse e"
    using that add_entry_correct [of d nm s]
    by (auto simp: Directory_Add_def FindIndex_None sector_number_def split: if_splits)
  show "Directory_Remove nm d = (InexistDirectoryError, d)" if "dir_map d (key nm) = None"
    using that by (simp add: Directory_Remove_def FindIndex_None Let_def)
  show "\<exists>d'. Directory_Remove nm d = (NoError, d') \<and> wf_dir d' \<and> (\<exists>e\<in>set d'. \<not> inUse e)
      \<and> dir_map d' = (dir_map d)(key nm := None)"
    if "wf_dir d" "dir_map d (key nm) = Some s"
    using Directory_Remove_correct [OF that] by blast
  show "Directory_empty d \<longleftrightarrow> dir_map d = Map.empty" by (rule Directory_empty_correct)
qed

subsection \<open>Directories on disk\<close>

lemma length_entry_bytes: "wf_entry e \<Longrightarrow> length (entry_bytes e) = entry_size"
  by (simp add: entry_bytes_def wf_entry_def FILENAMEMAXLEN_def entry_size_def)

lemma entry_roundtrip: "wf_entry e \<Longrightarrow> entry_of (entry_bytes e) = e"
  by (simp add: entry_of_def entry_bytes_def wf_entry_def FILENAMEMAXLEN_def le_bytes_def
      le_word_bytes)

lemma length_table_bytes: "\<forall>e\<in>set dir. wf_entry e \<Longrightarrow> length (table_bytes dir) = length dir * entry_size"
  by (induction dir) (simp_all add: table_bytes_def length_entry_bytes)

lemma table_roundtrip: "\<forall>e\<in>set dir. wf_entry e \<Longrightarrow> table_of (length dir) (table_bytes dir) = dir"
proof (induction dir)
  case (Cons e es)
  then have l: "length (entry_bytes e) = entry_size" "wf_entry e" by (simp_all add: length_entry_bytes)
  have "table_of (Suc n) (entry_bytes e @ bs) = entry_of (entry_bytes e) # table_of n bs" for n bs
    unfolding table_of_def upt_conv_Cons [OF zero_less_Suc] map_Suc_upt [symmetric]
    using l(1) by simp
  then show ?case using Cons l by (simp add: table_bytes_def entry_roundtrip)
qed (simp add: table_of_def)

lemma Directory_new_wf: "\<forall>e\<in>set (Directory_new cfg n). wf_entry e" "wf_dir (Directory_new cfg n)"
  "length (Directory_new cfg n) = nat n" "dir_map (Directory_new cfg n) = Map.empty"
proof -
  show w: "\<forall>e\<in>set (Directory_new cfg n). wf_entry e"
    by (auto simp: Directory_new_def wf_entry_def int32_sint)
  have u: "filter inUse (Directory_new cfg n) = []"
    by (auto simp: Directory_new_def filter_empty_conv)
  show "wf_dir (Directory_new cfg n)" using w by (simp add: wf_dir_def u)
  show "length (Directory_new cfg n) = nat n" by (simp add: Directory_new_def)
  show "dir_map (Directory_new cfg n) = Map.empty" by (simp add: dir_map_def u)
qed

text \<open>A file large enough for the table gives it back, whatever the object held before.\<close>

lemma Directory_FetchFrom_ok:
  assumes "wf_file cfg h d" "\<forall>e\<in>set dir0. wf_entry e" "\<forall>e\<in>set dir. wf_entry e"
    and "length dir0 = length dir"
    and "take (length dir * entry_size) (file_bytes h d) = table_bytes dir"
  shows "Directory_FetchFrom cfg h d dir0 = Some dir"
proof -
  have "ReadAt cfg h (int (length dir * entry_size)) 0 d = Some (table_bytes dir)"
    using ReadAt_bytes [OF assms(1) order_refl, of "int (length dir * entry_size)"] assms(5)
    unfolding nat_int by simp
  moreover have "blit (table_bytes dir0) 0 (table_bytes dir) = Some (table_bytes dir)"
    using assms(2-4) by (simp add: blit_def length_table_bytes)
  ultimately show ?thesis
    using assms(3,4) by (simp add: Directory_FetchFrom_def table_roundtrip)
qed

lemma Directory_WriteBack_ok:
  assumes "wf_file cfg (hdr f) (sectors fs)" "\<forall>e\<in>set dir. wf_entry e" "dir \<noteq> []"
    and "int (length dir * entry_size) \<le> numBytes (hdr f)" "numBytes (hdr f) \<le> MAX_FILE_LENGTH cfg"
  shows "\<exists>fs'. Directory_WriteBack cfg dir f fs = Some (f, fs')
    \<and> fs' = fs\<lparr>sectors := sectors fs'\<rparr> \<and> wf_file cfg (hdr f) (sectors fs')
    \<and> file_bytes (hdr f) (sectors fs') = table_bytes dir
        @ drop (length dir * entry_size) (file_bytes (hdr f) (sectors fs))
    \<and> (\<forall>s. s \<notin> nat ` set (data_list (hdr f)) \<longrightarrow> sectors fs' ! s = sectors fs ! s)"
proof -
  let ?n = "int (length dir * entry_size)"
  have n: "0 < ?n" using assms(3) by (simp add: entry_size_def)
  have m: "numBytes (hdr f) \<le> MaxFileLength cfg (hdr f)"
    using assms(1) by (simp add: wf_file_def MaxFileLength_def)
  have fits: "0 + ?n \<le> MaxFileLength cfg (hdr f)" "0 + ?n \<le> MAX_FILE_LENGTH cfg"
    "?n \<le> int (length (table_bytes dir))"
    using m assms(4,5) length_table_bytes [OF assms(2)] by linarith+
  have z: "0 \<le> numBytes (hdr f)" using assms(1) by (simp add: wf_file_def)
  obtain f' fs' where w: "WriteAt_with cfg (grow_file cfg) (table_bytes dir) ?n 0 f fs = Some (?n, f', fs')"
    "f' = f\<lparr>hdr := (hdr f)\<lparr>numBytes := max (numBytes (hdr f)) (0 + ?n)\<rparr>\<rparr>"
    "fs' = fs\<lparr>sectors := sectors fs'\<rparr>" "wf_file cfg (hdr f') (sectors fs')"
    "file_bytes (hdr f') (sectors fs') = take (nat 0) (file_bytes (hdr f) (sectors fs))
        @ take (nat ?n) (table_bytes dir) @ drop (nat (0 + ?n)) (file_bytes (hdr f) (sectors fs))"
    "\<forall>s. s \<notin> nat ` set (data_list (hdr f)) \<longrightarrow> sectors fs' ! s = sectors fs ! s"
    using WriteAt_with_in_place [OF assms(1) order_refl z n fits, of "grow_file cfg"] by blast
  have "f' = f" using w(2) assms(4) by (simp add: max_def)
  moreover have "nat ?n = length (table_bytes dir)"
    unfolding length_table_bytes [OF assms(2)] by (rule nat_int)
  ultimately show ?thesis
    using w by (simp add: Directory_WriteBack_def WriteAt_def length_table_bytes [OF assms(2)])
qed

subsection \<open>Properties\<close>

text \<open>
  Adding and removing names. \<open>Add\<close> either reports that the name is there, or that
  every entry is used, and then leaves the table alone; or it makes \<open>Find\<close> return the new
  sector for this name and what it returned before for every other. \<open>Remove\<close> after a
  successful \<open>Add\<close> succeeds and gives back every lookup.
\<close>
theorem directory_add_remove:
  assumes "wf_dir d" "0 \<le> s" "int32 s"
  shows "(Directory_Add nm s d = (AlreadyInDirectory, d) \<and> Directory_Find d nm \<noteq> - 1)
    \<or> (Directory_Add nm s d = (NoSpaceInDirectory, d) \<and> Directory_Find d nm = - 1 \<and> (\<forall>e\<in>set d. inUse e))
    \<or> (\<exists>d' d''. Directory_Add nm s d = (NoError, d') \<and> wf_dir d' \<and> Directory_Find d nm = - 1
        \<and> (\<forall>other. Directory_Find d' other = (if key other = key nm then s else Directory_Find d other))
        \<and> Directory_Remove nm d' = (NoError, d'') \<and> wf_dir d''
        \<and> (\<forall>other. Directory_Find d'' other = Directory_Find d other))"
proof -
  have s: "sector_number s" using assms(2,3) by (simp add: sector_number_def)
  show ?thesis
    using dir.add_cases [OF assms(1) s, of nm] dir.add_remove [OF assms(1) s, of nm] by auto
qed

text \<open>
  Directories on disk. A directory written to its file is what a fetch gives back, when
  the file has room for the table; and a directory is empty exactly when no name can be
  found in it.
\<close>
theorem directory_roundtrip:
  assumes "wf_file cfg (hdr f) (sectors fs)" "wf_dir dir" "dir \<noteq> []"
    and "int (length dir * entry_size) \<le> FileLength (hdr f)" "FileLength (hdr f) \<le> MAX_FILE_LENGTH cfg"
  shows "\<exists>fs'. Directory_WriteBack cfg dir f fs = Some (f, fs')
    \<and> Directory_FetchFrom cfg (hdr f) (sectors fs') (Directory_new cfg (int (length dir))) = Some dir
    \<and> (Directory_empty dir \<longleftrightarrow> (\<forall>nm. Directory_Find dir nm = - 1))"
proof -
  have e: "\<forall>e\<in>set dir. wf_entry e" using assms(2) by (simp add: wf_dir_def)
  obtain fs' where w: "Directory_WriteBack cfg dir f fs = Some (f, fs')"
    "wf_file cfg (hdr f) (sectors fs')"
    "file_bytes (hdr f) (sectors fs') = table_bytes dir @ drop (length dir * entry_size) (file_bytes (hdr f) (sectors fs))"
    using Directory_WriteBack_ok [OF assms(1) e assms(3)] assms(4,5) by (auto simp: FileLength_def)
  have "take (length dir * entry_size) (file_bytes (hdr f) (sectors fs')) = table_bytes dir"
    using w(3) length_table_bytes [OF e] by simp
  then have f: "Directory_FetchFrom cfg (hdr f) (sectors fs') (Directory_new cfg (int (length dir))) = Some dir"
    using Directory_new_wf [of cfg "int (length dir)"] by (intro Directory_FetchFrom_ok [OF w(2) _ e]) simp_all
  have "Directory_empty dir \<longleftrightarrow> (\<forall>nm. Directory_Find dir nm = - 1)"
  proof
    assume "Directory_empty dir"
    then show "\<forall>nm. Directory_Find dir nm = - 1" by (simp add: dir.empty_spec dir.lookup_spec)
  next
    assume none: "\<forall>nm. Directory_Find dir nm = - 1"
    have "\<not> inUse e" if "e \<in> set dir" for e
    proof
      assume "inUse e"
      then have "dir_map dir (key (ename e)) \<noteq> None" using that dom_dir_map [of dir] by blast
      then show False using none dir.lookup_absent [OF assms(2)] by simp
    qed
    then show "Directory_empty dir" by (induction dir) simp_all
  qed
  then show ?thesis using w(1) f by blast
qed

text \<open>
  Names longer than \<open>FILENAMEMAXLEN\<close> bytes are cut: two names that agree on their
  first 80 bytes are the same entry, so the second cannot be created and is found as the first.
\<close>
theorem long_names_collide:
  assumes "wf_dir d" "0 \<le> s" "int32 s" "Directory_Add nm s d = (NoError, d')"
    and "take 80 (cstring other) = take 80 (cstring nm)"
  shows "Directory_Find d' other = s \<and> (\<forall>t. Directory_Add other t d' = (AlreadyInDirectory, d'))"
proof -
  have s: "sector_number s" using assms(2,3) by (simp add: sector_number_def)
  have k: "key other = key nm" using assms(5) by (simp add: key_def FILENAMEMAXLEN_def)
  have d': "wf_dir d'" "Directory_Find d' other = s"
    using dir.add_cases [OF assms(1) s, of nm] assms(4) k by auto
  then have "dir_map d' (key other) \<noteq> None" using assms(2) dir.lookup_absent [OF d'(1), of other] by auto
  then show ?thesis using d'(2) dir.add_present by blast
qed

subsection \<open>Instances\<close>

definition tiny_dir :: Directory where
  "tiny_dir = Directory_new tiny_cfg 3"

lemma tiny_dir_facts: "wf_dir tiny_dir" "dir_map tiny_dir = Map.empty" "length tiny_dir = 3"
  "\<exists>e\<in>set tiny_dir. \<not> inUse e"
proof -
  show "wf_dir tiny_dir" "dir_map tiny_dir = Map.empty" and l: "length tiny_dir = 3"
    using Directory_new_wf [of tiny_cfg 3] by (simp_all add: tiny_dir_def)
  have "tiny_dir ! 0 \<in> set tiny_dir" using l by (intro nth_mem) simp
  moreover have "\<not> inUse e" if "e \<in> set tiny_dir" for e
    using that by (auto simp: tiny_dir_def Directory_new_def)
  ultimately show "\<exists>e\<in>set tiny_dir. \<not> inUse e" by blast
qed

theorem directory_add_remove_witness:
  "\<exists>d'. Directory_Add [97] 5 tiny_dir = (NoError, d') \<and> Directory_Find d' [97] = 5
    \<and> Directory_Find d' [98] = - 1"
proof -
  note e = tiny_dir_facts(1,2,4)
  from e(2) have l: "Directory_Find tiny_dir other = - 1" for other by (simp add: dir.lookup_spec)
  have k: "key [98] \<noteq> key [97]" by (simp add: key_def FILENAMEMAXLEN_def)
  show ?thesis
    using directory_add_remove [OF e(1), of 5 "[97]"] e(3) l k by (auto simp: int32_def)
qed

theorem directory_roundtrip_witness:
  "\<exists>fs'. Directory_WriteBack tiny_cfg tiny_dir (tiny_file 276 [5, 6, 7]) tiny_fs = Some (tiny_file 276 [5, 6, 7], fs')
    \<and> Directory_FetchFrom tiny_cfg (tiny_hdr 276 [5, 6, 7]) (sectors fs') tiny_dir = Some tiny_dir"
proof -
  note e = tiny_dir_facts(1,3)
  have w: "wf_file tiny_cfg (hdr (tiny_file 276 [5, 6, 7])) (sectors tiny_fs)" using tiny_file_wf by simp
  have "tiny_dir \<noteq> []" using e(2) by auto
  then show ?thesis
    using directory_roundtrip [OF w e(1)] e(2) by (auto simp: entry_size_def tiny_dir_def)
qed

theorem long_names_collide_witness:
  "\<exists>d'. Directory_Add (replicate 80 97) 5 tiny_dir = (NoError, d')
    \<and> Directory_Find d' (replicate 81 97) = 5"
proof -
  note e = tiny_dir_facts(1,2,4)
  have s: "sector_number 5" by (simp add: sector_number_def int32_def)
  obtain d' where d': "Directory_Add (replicate 80 97) 5 tiny_dir = (NoError, d')"
    using dir.add_new [OF e(1) s _ e(3)] e(2) by auto
  have "cstring (replicate n 97) = replicate n 97" for n by (intro cstring_id) simp
  then have "take 80 (cstring (replicate 81 97)) = take 80 (cstring (replicate 80 97))" by simp
  then show ?thesis using long_names_collide [OF e(1) _ _ d'] d' by (auto simp: int32_def)
qed

end
