(* ===== verification/Nachos_FileSys.thy ===== *)
theory Nachos_FileSys
  imports Nachos_Directory
begin

text \<open>
  The file system (\<open>filesys/filesys.cc\<close>): path names, the format of a new disk, and the
  operations on files and directories. The state is \<open>filesystem\<close>: the sectors of the
  disk, the two files that stay open, and the lock \<open>createLock\<close> of the table of open
  files. A path is a C string without its terminating zero.

  Each operation is one handler with the early returns of the code; the result is an error
  code and the new state. \<open>Print\<close> and \<open>List\<close> only print.
\<close>

definition FreeMapSector :: int where "FreeMapSector = 0"
definition DirectorySector :: int where "DirectorySector = 1"
definition FreeMapFileSize :: int where "FreeMapFileSize = NUM_SECTORS div 8"

definition slash :: byte where "slash = 47"

text \<open>
  \<open>decompname\<close>: whether there is a directory in the path, its name, and what is left.
  The code moves the rest onto the start of the same buffer.
\<close>

definition decompname :: "byte list \<Rightarrow> bool \<times> byte list \<times> byte list" where
  "decompname orig_path =
     (let path = dropWhile (\<lambda>c. c = slash) orig_path;
          head = takeWhile (\<lambda>c. c \<noteq> slash) path;
          rest = dropWhile (\<lambda>c. c \<noteq> slash) path
      in if rest = [] then (False, head, path) else (True, head, rest))"

lemma decompname_shorter: "decompname p = (True, h, t) \<Longrightarrow> length t < length p"
proof -
  assume d: "decompname p = (True, h, t)"
  let ?q = "dropWhile (\<lambda>c. c = slash) p"
  have t: "t = dropWhile (\<lambda>c. c \<noteq> slash) ?q" "t \<noteq> []"
    using d unfolding decompname_def Let_def
    by (simp_all only: prod.inject simp_thms split: if_splits)
  have "length ?q \<le> length p" by (rule length_dropWhile_le)
  moreover have "length t < length ?q"
  proof (cases ?q)
    case Nil
    have "t = []" unfolding t(1) Nil by simp
    then show ?thesis using t(2) by simp
  next
    case (Cons c q)
    then have "c \<noteq> slash" using hd_dropWhile [of "\<lambda>c. c = slash" p] by simp
    then have "t = dropWhile (\<lambda>c. c \<noteq> slash) q" using t(1) Cons by simp
    then show ?thesis using Cons length_dropWhile_le [of "\<lambda>c. c \<noteq> slash" q] by simp
  qed
  ultimately show ?thesis by simp
qed

text \<open>An open file and the directory in it: the constructors and \<open>FetchFrom\<close>.\<close>

definition fetch_dir :: "config \<Rightarrow> int \<Rightarrow> filesystem \<Rightarrow> (OpenFile \<times> Directory) option" where
  "fetch_dir cfg sector fs = do {
     f \<leftarrow> OpenFile_new cfg sector (sectors fs);
     dir \<leftarrow> Directory_FetchFrom cfg (hdr f) (sectors fs) (Directory_new cfg (NumDirEntries cfg));
     Some (f, dir) }"

text \<open>The loop of \<open>FindDir\<close>; the name buffer holds what is left of the path.\<close>

function FindDir_loop ::
  "config \<Rightarrow> filesystem \<Rightarrow> byte list \<Rightarrow> Directory \<Rightarrow> int \<Rightarrow> (int \<times> byte list) option" where
  "FindDir_loop cfg fs name directory sector =
     (case decompname name of
        (False, head, tail) \<Rightarrow> Some (sector, tail)
      | (True, head, tail) \<Rightarrow>
          (let s = Directory_Find directory head in
           if s < 0 then Some (- 1, tail)
           else do {
             f \<leftarrow> OpenFile_new cfg s (sectors fs);
             if IsDir (GetFileHeader f)
             then do { directory' \<leftarrow> Directory_FetchFrom cfg (hdr f) (sectors fs) directory;
                       FindDir_loop cfg fs tail directory' s }
             else Some (- 1, tail) }))"
  by pat_completeness auto
termination
  by (relation "measure (\<lambda>(cfg, fs, name, directory, sector). length name)")
     (auto intro: decompname_shorter [OF sym])

declare FindDir_loop.simps [simp del]

definition FindDir :: "config \<Rightarrow> byte list \<Rightarrow> filesystem \<Rightarrow> (int \<times> byte list) option" where
  "FindDir cfg name fs = do {
     directory \<leftarrow> Directory_FetchFrom cfg (hdr (directoryFile fs)) (sectors fs)
                   (Directory_new cfg (NumDirEntries cfg));
     FindDir_loop cfg fs name directory DirectorySector }"

text \<open>\<open>strcpy\<close> of a path into a local buffer of \<open>MaxFileNameSize\<close> bytes.\<close>

definition copy_name :: "config \<Rightarrow> byte list \<Rightarrow> byte list option" where
  "copy_name cfg name = (if int (length name) < MaxFileNameSize cfg then Some name else None)"

text \<open>\<open>createLock\<close>: a call that finds it held waits, and has no value here.\<close>

definition Acquire_create :: "filesystem \<Rightarrow> filesystem option" where
  "Acquire_create fs = (if createLock fs then None else Some (fs\<lparr>createLock := True\<rparr>))"

definition Release_create :: "filesystem \<Rightarrow> filesystem" where
  "Release_create fs = fs\<lparr>createLock := False\<rparr>"

definition fetch_map :: "config \<Rightarrow> filesystem \<Rightarrow> bitmap option" where
  "fetch_map cfg fs = do {
     b \<leftarrow> BitMap_new cfg NUM_SECTORS;
     BitMap_FetchFrom cfg (hdr (freeMapFile fs)) (sectors fs) b }"

definition flush_map :: "config \<Rightarrow> bitmap \<Rightarrow> filesystem \<Rightarrow> filesystem option" where
  "flush_map cfg b fs = do {
     (_, f, fs') \<leftarrow> WriteAt cfg (BitMap_bytes b) (numWords b * 4) 0 (freeMapFile fs) fs;
     Some (fs'\<lparr>freeMapFile := f\<rparr>) }"

subsection \<open>Formatting and opening a disk\<close>

definition mount :: "config \<Rightarrow> byte list list \<Rightarrow> filesystem option" where
  "mount cfg d = do {
     m \<leftarrow> OpenFile_new cfg FreeMapSector d;
     r \<leftarrow> OpenFile_new cfg DirectorySector d;
     Some \<lparr>sectors = d, freeMapFile = m, directoryFile = r, createLock = False\<rparr> }"

definition FileSystem_new :: "config \<Rightarrow> bool \<Rightarrow> byte list list \<Rightarrow> filesystem option" where
  "FileSystem_new cfg format d =
     (if format then do {
        b0 \<leftarrow> BitMap_new cfg NUM_SECTORS;
        b1 \<leftarrow> BitMap_Mark b0 FreeMapSector;
        b2 \<leftarrow> BitMap_Mark b1 DirectorySector;
        (ok1, b3, mapHdr) \<leftarrow> Allocate cfg b2 FreeMapFileSize (FileHeader_new cfg);
        (ok2, b4, dirHdr) \<leftarrow> (if ok1 then Allocate cfg b3 (DirectoryFileSize cfg) (FileHeader_new cfg) else None);
        if \<not> ok2 then None
        else do {
          d1 \<leftarrow> WriteBack cfg FreeMapSector mapHdr d;
          d2 \<leftarrow> WriteBack cfg DirectorySector (SetDir dirHdr) d1;
          fs \<leftarrow> mount cfg d2;
          fs1 \<leftarrow> flush_map cfg b4 fs;
          (f, fs2) \<leftarrow> Directory_WriteBack cfg (Directory_new cfg (NumDirEntries cfg)) (directoryFile fs1) fs1;
          Some (fs2\<lparr>directoryFile := f\<rparr>) } }
      else mount cfg d)"

subsection \<open>Files\<close>

definition Create :: "config \<Rightarrow> byte list \<Rightarrow> int \<Rightarrow> filesystem \<Rightarrow> (ErrorCode \<times> filesystem) option" where
  "Create cfg name initialSize fs0 = do {
     fs \<leftarrow> Acquire_create fs0;
     dirname \<leftarrow> copy_name cfg name;
     (dirsector, dirname) \<leftarrow> FindDir cfg dirname fs;
     if dirsector = - 1 then Some (InexistFileError, Release_create fs)
     else do {
       (dirfile, directory) \<leftarrow> fetch_dir cfg dirsector fs;
       if Directory_Find directory dirname \<noteq> - 1 then Some (AlreadyInDirectory, Release_create fs)
       else do {
         freeMap0 \<leftarrow> fetch_map cfg fs;
         (sector, freeMap) \<leftarrow> BitMap_Find freeMap0;
         if sector = - 1 then Some (OutOfDisk, Release_create fs)
         else (let (add_result, directory') = Directory_Add dirname sector directory in
           if add_result \<noteq> NoError then Some (add_result, Release_create fs)
           else do {
             (ok, freeMap', h) \<leftarrow> Allocate cfg freeMap initialSize (SetFile (FileHeader_new cfg));
             if \<not> ok then Some (OutOfDisk, Release_create fs)
             else do {
               d \<leftarrow> WriteBack cfg sector h (sectors fs);
               (_, fs1) \<leftarrow> Directory_WriteBack cfg directory' dirfile (fs\<lparr>sectors := d\<rparr>);
               fs2 \<leftarrow> flush_map cfg freeMap' fs1;
               Some (NoError, Release_create fs2) } }) } } }"

text \<open>\<open>NULL\<close> is the inner \<open>None\<close>.\<close>

definition FileSystem_Open :: "config \<Rightarrow> byte list \<Rightarrow> filesystem \<Rightarrow> OpenFile option option" where
  "FileSystem_Open cfg name fs = do {
     dirname \<leftarrow> copy_name cfg name;
     (dirsector, dirname) \<leftarrow> FindDir cfg dirname fs;
     if dirsector = - 1 then Some None
     else do {
       (dirfile, directory) \<leftarrow> fetch_dir cfg dirsector fs;
       let sector = Directory_Find directory dirname;
       if sector \<ge> 0 then do {
         f \<leftarrow> OpenFile_new cfg sector (sectors fs);
         f \<leftarrow> SetName cfg name f;
         if OpenFile_IsDir f then Some None else Some (Some f) }
       else Some None } }"

definition FileSystem_Remove :: "config \<Rightarrow> byte list \<Rightarrow> filesystem \<Rightarrow> (ErrorCode \<times> filesystem) option" where
  "FileSystem_Remove cfg name fs = do {
     dirname \<leftarrow> copy_name cfg name;
     (dirsector, dirname) \<leftarrow> FindDir cfg dirname fs;
     if dirsector = - 1 then Some (InexistDirectoryError, fs)
     else do {
       (dirfile, directory) \<leftarrow> fetch_dir cfg dirsector fs;
       let sector = Directory_Find directory dirname;
       if sector = - 1 then Some (InexistFileError, fs)
       else do {
         fileHdr \<leftarrow> FetchFrom cfg sector (sectors fs) (FileHeader_new cfg);
         if IsDir fileHdr then Some (NotAFile, fs)
         else do {
           freeMap \<leftarrow> fetch_map cfg fs;
           freeMap1 \<leftarrow> Deallocate freeMap fileHdr;
           freeMap2 \<leftarrow> BitMap_Clear freeMap1 sector;
           let (_, directory') = Directory_Remove dirname directory;
           fs1 \<leftarrow> flush_map cfg freeMap2 fs;
           (_, fs2) \<leftarrow> Directory_WriteBack cfg directory' dirfile fs1;
           Some (NoError, fs2) } } } }"

subsection \<open>Directories\<close>

definition Mkdir :: "config \<Rightarrow> byte list \<Rightarrow> filesystem \<Rightarrow> (ErrorCode \<times> filesystem) option" where
  "Mkdir cfg dirname fs = do {
     name \<leftarrow> copy_name cfg dirname;
     (parentsect, name) \<leftarrow> FindDir cfg name fs;
     if parentsect < 0 then Some (InexistDirectoryError, fs)
     else do {
       (parentdirfile, parentdir) \<leftarrow> fetch_dir cfg parentsect fs;
       if Directory_Find parentdir name \<ge> 0 then Some (AlreadyInDirectory, fs)
       else do {
         freeMap0 \<leftarrow> fetch_map cfg fs;
         (hdr_sect, freeMap) \<leftarrow> BitMap_Find freeMap0;
         if hdr_sect < 0 then Some (OutOfDisk, fs)
         else do {
           (ok, freeMap', h) \<leftarrow> Allocate cfg freeMap (DirectoryFileSize cfg) (FileHeader_new cfg);
           if \<not> ok then Some (OutOfDisk, fs)
           else (let (add_result, parentdir') = Directory_Add name hdr_sect parentdir in
             if add_result \<noteq> NoError then Some (add_result, fs)
             else do {
               d \<leftarrow> WriteBack cfg hdr_sect (SetDir h) (sectors fs);
               newdirfile \<leftarrow> OpenFile_new cfg hdr_sect d;
               (_, fs1) \<leftarrow> Directory_WriteBack cfg (Directory_new cfg (NumDirEntries cfg)) newdirfile
                             (fs\<lparr>sectors := d\<rparr>);
               (_, fs2) \<leftarrow> Directory_WriteBack cfg parentdir' parentdirfile fs1;
               fs3 \<leftarrow> flush_map cfg freeMap' fs2;
               Some (NoError, fs3) }) } } } }"

definition Rmdir :: "config \<Rightarrow> byte list \<Rightarrow> filesystem \<Rightarrow> (ErrorCode \<times> filesystem) option" where
  "Rmdir cfg dirname fs = do {
     name \<leftarrow> copy_name cfg dirname;
     (parentsect, name) \<leftarrow> FindDir cfg name fs;
     if parentsect < 0 then Some (InexistDirectoryError, fs)
     else do {
       (parentdirfile, parentdir) \<leftarrow> fetch_dir cfg parentsect fs;
       let thedirsect = Directory_Find parentdir name;
       if thedirsect < 0 then Some (InexistDirectoryError, fs)
       else do {
         thedirheader \<leftarrow> FetchFrom cfg thedirsect (sectors fs) (FileHeader_new cfg);
         if \<not> IsDir thedirheader then Some (NotADirectory, fs)
         else do {
           (thedirfile, thedir) \<leftarrow> fetch_dir cfg thedirsect fs;
           if \<not> Directory_empty thedir then Some (DirectoryNotEmpty, fs)
           else do {
             freeMap \<leftarrow> fetch_map cfg fs;
             freeMap1 \<leftarrow> Deallocate freeMap thedirheader;
             freeMap2 \<leftarrow> BitMap_Clear freeMap1 thedirsect;
             let (_, parentdir') = Directory_Remove name parentdir;
             fs1 \<leftarrow> flush_map cfg freeMap2 fs;
             (_, fs2) \<leftarrow> Directory_WriteBack cfg parentdir' parentdirfile fs1;
             Some (NoError, fs2) } } } } }"

subsection \<open>Path names\<close>

text \<open>
  The specification of a path: the parts between slashes. The last part is the name of the
  file, the others, when they are not empty, are the directories that lead to it.
\<close>

primrec split_path :: "byte list \<Rightarrow> byte list list" where
  "split_path [] = [[]]"
| "split_path (c # cs) =
     (if c = slash then [] # split_path cs else (c # hd (split_path cs)) # tl (split_path cs))"

definition path_dirs :: "byte list \<Rightarrow> byte list list" where
  "path_dirs p = filter (\<lambda>x. x \<noteq> []) (butlast (split_path p))"

definition path_base :: "byte list \<Rightarrow> byte list" where
  "path_base p = last (split_path p)"

lemma split_path_nonempty [simp]: "split_path p \<noteq> []"
  by (cases p) simp_all

lemma path_slash [simp]: "path_dirs (slash # p) = path_dirs p" "path_base (slash # p) = path_base p"
  by (simp_all add: path_dirs_def path_base_def)

lemma path_leading: "path_dirs (dropWhile (\<lambda>c. c = slash) p) = path_dirs p"
  "path_base (dropWhile (\<lambda>c. c = slash) p) = path_base p"
  by (induction p) simp_all

lemma split_no_slash: "slash \<notin> set p \<Longrightarrow> split_path p = [p]"
  by (induction p) auto

lemma split_at_slash: "slash \<notin> set h \<Longrightarrow> split_path (h @ slash # t) = h # split_path t"
  by (induction h) auto

lemma decompname_path:
  assumes "decompname p = (go, h, t)"
  shows "if go then path_dirs p = h # path_dirs t \<and> path_base p = path_base t
    else path_dirs p = [] \<and> path_base p = t"
proof -
  let ?q = "dropWhile (\<lambda>c. c = slash) p"
  let ?h = "takeWhile (\<lambda>c. c \<noteq> slash) ?q" and ?r = "dropWhile (\<lambda>c. c \<noteq> slash) ?q"
  have q: "?q = ?h @ ?r" by simp
  have ns: "slash \<notin> set ?h" by (auto dest: set_takeWhileD)
  show ?thesis
  proof (cases "?r = []")
    case True
    have "(False, ?h, ?q) = (go, h, t)"
      using assms unfolding decompname_def Let_def if_P [OF True] .
    then have d: "\<not> go" "t = ?q" by (simp_all only: prod.inject simp_thms)
    have "slash \<notin> set ?q" using ns q True by (metis append_Nil2)
    then have "split_path ?q = [?q]" by (rule split_no_slash)
    then have "path_dirs ?q = []" "path_base ?q = ?q" by (simp_all only: path_dirs_def path_base_def) simp_all
    then show ?thesis using d path_leading [of p] by simp
  next
    case False
    have "(True, ?h, ?r) = (go, h, t)"
      using assms unfolding decompname_def Let_def if_not_P [OF False] .
    then have d: "go" "h = ?h" "t = ?r" by (simp_all only: prod.inject simp_thms)
    obtain r where r: "?r = slash # r"
      using False by (metis (mono_tags, lifting) hd_dropWhile list.collapse)
    have "?h \<noteq> []"
    proof
      assume "?h = []"
      then have "?q = slash # r" using q r by (metis append_Nil)
      then show False using hd_dropWhile [of "\<lambda>c. c = slash" p] by (metis list.distinct(1) list.sel(1))
    qed
    moreover have "split_path ?q = ?h # split_path r" using q r split_at_slash [OF ns] by metis
    ultimately have "path_dirs ?q = ?h # path_dirs r" "path_base ?q = path_base r"
      by (simp_all only: path_dirs_def path_base_def) simp_all
    then show ?thesis using d r path_leading [of p] by simp
  qed
qed

text \<open>Following a list of directory names.\<close>

primrec walk :: "config \<Rightarrow> filesystem \<Rightarrow> byte list list \<Rightarrow> Directory \<Rightarrow> int \<Rightarrow> int option" where
  "walk cfg fs [] dir sector = Some sector"
| "walk cfg fs (nm # nms) dir sector =
     (let s = Directory_Find dir nm in
      if s < 0 then Some (- 1)
      else do {
        f \<leftarrow> OpenFile_new cfg s (sectors fs);
        if IsDir (hdr f)
        then do { dir' \<leftarrow> Directory_FetchFrom cfg (hdr f) (sectors fs) dir; walk cfg fs nms dir' s }
        else Some (- 1) })"

lemma FindDir_loop_walk:
  "map_option fst (FindDir_loop cfg fs p dir s) = walk cfg fs (path_dirs p) dir s
   \<and> (\<forall>r rest. FindDir_loop cfg fs p dir s = Some (r, rest) \<longrightarrow> r \<noteq> - 1 \<longrightarrow> rest = path_base p)"
proof (induction cfg fs p dir s rule: FindDir_loop.induct)
  case (1 cfg fs p dir s)
  obtain go h t where d: "decompname p = (go, h, t)" by (metis prod_cases3)
  show ?case
  proof (cases go)
    case False
    then show ?thesis
      using d decompname_path [OF d] by (simp add: FindDir_loop.simps [of _ _ p])
  next
    case True
    have pd: "path_dirs p = h # path_dirs t" "path_base p = path_base t"
      using decompname_path [OF d] True by simp_all
    let ?s = "Directory_Find dir h"
    show ?thesis
    proof (cases "?s < 0")
      case True
      then show ?thesis using d \<open>go\<close> pd by (simp add: FindDir_loop.simps [of _ _ p] Let_def)
    next
      case found: False
      show ?thesis
      proof (cases "OpenFile_new cfg ?s (sectors fs)")
        case None
        then show ?thesis using d \<open>go\<close> pd found by (simp add: FindDir_loop.simps [of _ _ p] Let_def)
      next
        case (Some f)
        show ?thesis
        proof (cases "IsDir (hdr f)")
          case False
          then show ?thesis using d \<open>go\<close> pd found Some
            by (simp add: FindDir_loop.simps [of _ _ p] Let_def GetFileHeader_def)
        next
          case isdir: True
          show ?thesis
          proof (cases "Directory_FetchFrom cfg (hdr f) (sectors fs) dir")
            case None
            then show ?thesis using d \<open>go\<close> pd found Some isdir
              by (simp add: FindDir_loop.simps [of _ _ p] Let_def GetFileHeader_def)
          next
            case dir': (Some dir')
            have step: "FindDir_loop cfg fs p dir s = FindDir_loop cfg fs t dir' ?s"
              using d \<open>go\<close> found Some isdir dir'
              by (subst FindDir_loop.simps) (simp add: Let_def GetFileHeader_def)
            show ?thesis
              unfolding step pd
              using "1.IH" d \<open>go\<close> found Some isdir dir'
              by (simp add: Let_def GetFileHeader_def)
          qed
        qed
      qed
    qed
  qed
qed

text \<open>
  C12. Path resolution. \<open>FindDir\<close> returns for every path (it terminates), and finds what
  following the directory names of the path one by one from the root finds: the sector of
  the last directory, or \<open>-1\<close> when a name is missing or is not a directory. On success the
  name buffer holds the last part of the path.
\<close>
theorem FindDir_follows_path:
  "map_option fst (FindDir cfg p fs) =
     (do { root \<leftarrow> Directory_FetchFrom cfg (hdr (directoryFile fs)) (sectors fs)
                    (Directory_new cfg (NumDirEntries cfg));
           walk cfg fs (path_dirs p) root DirectorySector })
   \<and> (case FindDir cfg p fs of Some (r, rest) \<Rightarrow> r = - 1 \<or> rest = path_base p | None \<Rightarrow> True)"
proof (cases "Directory_FetchFrom cfg (hdr (directoryFile fs)) (sectors fs) (Directory_new cfg (NumDirEntries cfg))")
  case (Some root)
  then have f: "FindDir cfg p fs = FindDir_loop cfg fs p root DirectorySector" by (simp add: FindDir_def)
  have w: "map_option fst (FindDir_loop cfg fs p root DirectorySector) = walk cfg fs (path_dirs p) root DirectorySector"
    "\<forall>r rest. FindDir_loop cfg fs p root DirectorySector = Some (r, rest) \<longrightarrow> r \<noteq> - 1 \<longrightarrow> rest = path_base p"
    using FindDir_loop_walk by blast+
  then show ?thesis unfolding f using Some by (auto split: option.splits)
qed (simp add: FindDir_def)

subsection \<open>Failures change nothing\<close>

lemma Release_Acquire: "Acquire_create fs = Some fs1 \<Longrightarrow> Release_create fs1 = fs"
  by (auto simp: Acquire_create_def Release_create_def split: if_splits)

lemma bind_Some_cases:
  "Option.bind x f = Some y \<Longrightarrow> (\<And>a. x = Some a \<Longrightarrow> f a = Some y \<Longrightarrow> P) \<Longrightarrow> P"
  by (cases x) simp_all

text \<open>
  C15. The operations are all or nothing. When \<open>Create\<close>, \<open>Remove\<close>, \<open>Mkdir\<close> or
  \<open>Rmdir\<close> report an error, whatever it is, the disk and the open files are as before the
  call: the changed map and directory in memory were dropped. \<open>Create\<close> gives its lock
  back in every case.
\<close>
theorem failed_calls_change_nothing:
  "(Create cfg p n fs = Some (r, fs') \<longrightarrow> \<not> createLock fs' \<and> (r \<noteq> NoError \<longrightarrow> fs' = fs))
   \<and> (FileSystem_Remove cfg p fs = Some (r, fs') \<longrightarrow> r \<noteq> NoError \<longrightarrow> fs' = fs)
   \<and> (Mkdir cfg p fs = Some (r, fs') \<longrightarrow> r \<noteq> NoError \<longrightarrow> fs' = fs)
   \<and> (Rmdir cfg p fs = Some (r, fs') \<longrightarrow> r \<noteq> NoError \<longrightarrow> fs' = fs)"
proof (intro conjI impI)
  assume c: "Create cfg p n fs = Some (r, fs')"
  show "\<not> createLock fs'"
    using c unfolding Create_def Let_def
    by (elim bind_Some_cases)
       (auto simp: Release_create_def Let_def elim!: bind_Some_cases split: if_splits prod.splits)
  assume "r \<noteq> NoError"
  then show "fs' = fs"
    using c unfolding Create_def Let_def
    by (elim bind_Some_cases)
       (auto simp: Release_Acquire Let_def elim!: bind_Some_cases split: if_splits prod.splits)
next
  assume "FileSystem_Remove cfg p fs = Some (r, fs')" "r \<noteq> NoError"
  then show "fs' = fs"
    by (auto simp: FileSystem_Remove_def Let_def elim!: bind_Some_cases split: if_splits prod.splits)
next
  assume "Mkdir cfg p fs = Some (r, fs')" "r \<noteq> NoError"
  then show "fs' = fs"
    by (auto simp: Mkdir_def Let_def elim!: bind_Some_cases split: if_splits prod.splits)
next
  assume "Rmdir cfg p fs = Some (r, fs')" "r \<noteq> NoError"
  then show "fs' = fs"
    by (auto simp: Rmdir_def Let_def elim!: bind_Some_cases split: if_splits prod.splits)
qed

subsection \<open>Files and directories stored on the disk\<close>

definition stored_file :: "config \<Rightarrow> byte list list \<Rightarrow> int \<Rightarrow> FileHeader \<Rightarrow> bool" where
  "stored_file cfg d sector h \<longleftrightarrow> wf_header cfg h \<and> header_at cfg sector h d
     \<and> 0 \<le> sector \<and> sector < 2048 \<and> set (chain h) \<subseteq> {0..<2048} \<and> wf_file cfg h d
     \<and> numSectors h \<le> DatasInFirstSector cfg + numHeaderSectors h * DatasInSector cfg"

text \<open>The sectors that a stored file occupies.\<close>

definition file_sectors :: "int \<Rightarrow> FileHeader \<Rightarrow> int set" where
  "file_sectors sector h = insert sector (set (own_sectors h))"

lemma own_sectors_parts: "own_sectors h = chain h @ data_list h"
  by (simp add: own_sectors_def chain_def data_list_def)

text \<open>Two headers that stand for the same file.\<close>

definition same_file :: "FileHeader \<Rightarrow> FileHeader \<Rightarrow> bool" where
  "same_file h h' \<longleftrightarrow> isdir h' = isdir h \<and> numBytes h' = numBytes h \<and> numSectors h' = numSectors h
     \<and> data_list h' = data_list h"

lemma same_file_bytes: "same_file h h' \<Longrightarrow> file_bytes h' d = file_bytes h d"
  by (simp add: same_file_def file_bytes_def raw_bytes_def file_blocks_def)

lemma stored_file_fetch:
  assumes "sector_ok cfg" "stored_file cfg d sector h" "length (headerSectors h0) = 32"
  shows "\<exists>h'. FetchFrom cfg sector d h0 = Some h' \<and> same_header cfg h h' \<and> same_file h h' \<and> wf_file cfg h' d"
proof -
  note s = sector_ok_counts [OF assms(1)]
  have st: "wf_header cfg h" "header_at cfg sector h d" "0 \<le> sector" "sector < 2048"
    "set (chain h) \<subseteq> {0..<2048}" "wf_file cfg h d"
    "numSectors h \<le> DatasInFirstSector cfg + numHeaderSectors h * DatasInSector cfg"
    using assms(2) by (simp_all add: stored_file_def)
  have wd: "wf_sectors cfg d" using st(6) by (simp add: wf_file_def)
  obtain h' where h': "FetchFrom cfg sector d h0 = Some h'" "same_header cfg h h'"
    "int (length (dataSectors h')) = MAX_DATA_SECTORS cfg"
    using FetchFrom_ok [OF assms(1) st(1) wd st(3,4,5,2) assms(3)] by blast
  let ?n = "nat (DatasInFirstSector cfg + numHeaderSectors h * DatasInSector cfg)"
  have eq: "take ?n (dataSectors h') = take ?n (dataSectors h)" "numSectors h' = numSectors h"
    "numBytes h' = numBytes h" "isdir h' = isdir h"
    using h'(2) by (simp_all add: same_header_def Let_def)
  have "nat (numSectors h) \<le> ?n" using st(7) by (rule nat_mono)
  then have "take (nat (numSectors h)) (dataSectors h') = take (nat (numSectors h)) (dataSectors h)"
    using eq(1) by (metis min.absorb1 take_take)
  then have sf: "same_file h h'" using eq by (simp add: same_file_def data_list_def)
  have "length (dataSectors h') = length (dataSectors h)"
    using h'(3) st(1) by (simp add: wf_header_def)
  then have "wf_file cfg h' d" using st(6) sf by (auto simp: wf_file_def same_file_def)
  then show ?thesis using h' sf by blast
qed

lemma stored_file_open:
  assumes "sector_ok cfg" "stored_file cfg d sector h"
  shows "\<exists>f. OpenFile_new cfg sector d = Some f \<and> same_file h (hdr f) \<and> wf_file cfg (hdr f) d"
proof -
  have "length (headerSectors (FileHeader_new cfg)) = 32"
    by (simp add: FileHeader_new_def MAX_HEADER_SECTORS_def)
  from stored_file_fetch [OF assms this] show ?thesis by (auto simp: OpenFile_new_def)
qed

lemma stored_file_frame:
  assumes "stored_file cfg d sector h" "wf_sectors cfg d'"
    and "d' ! nat sector = d ! nat sector" "\<And>s. s \<in> set (chain h) \<Longrightarrow> d' ! nat s = d ! nat s"
  shows "stored_file cfg d' sector h"
proof -
  have w: "wf_header cfg h" using assms(1) by (simp add: stored_file_def)
  have "headerSectors h ! i \<in> set (chain h)" if "i < nat (numHeaderSectors h)" for i
    using chain_nth [OF w that] by (metis nth_mem)
  then have "header_at cfg sector h d'"
    using assms(1,3,4) by (simp add: stored_file_def header_at_def)
  then show ?thesis using assms(1,2) by (simp add: stored_file_def wf_file_def)
qed

definition stored_dir :: "config \<Rightarrow> byte list list \<Rightarrow> int \<Rightarrow> FileHeader \<Rightarrow> Directory \<Rightarrow> bool" where
  "stored_dir cfg d sector h dir \<longleftrightarrow> stored_file cfg d sector h \<and> wf_dir dir \<and> dir \<noteq> []
     \<and> length dir = nat (NumDirEntries cfg)
     \<and> int (length dir * entry_size) \<le> numBytes h \<and> numBytes h \<le> MAX_FILE_LENGTH cfg
     \<and> take (length dir * entry_size) (file_bytes h d) = table_bytes dir"

lemma stored_dir_fetch:
  assumes "sector_ok cfg" "stored_dir cfg (sectors fs) sector h dir"
  shows "\<exists>f. fetch_dir cfg sector fs = Some (f, dir) \<and> same_file h (hdr f) \<and> wf_file cfg (hdr f) (sectors fs)"
proof -
  have st: "stored_file cfg (sectors fs) sector h" "wf_dir dir" "length dir = nat (NumDirEntries cfg)"
    "take (length dir * entry_size) (file_bytes h (sectors fs)) = table_bytes dir"
    using assms(2) unfolding stored_dir_def by blast+
  obtain f where f: "OpenFile_new cfg sector (sectors fs) = Some f" "same_file h (hdr f)"
    "wf_file cfg (hdr f) (sectors fs)"
    using stored_file_open [OF assms(1) st(1)] by blast
  have "Directory_FetchFrom cfg (hdr f) (sectors fs) (Directory_new cfg (NumDirEntries cfg)) = Some dir"
    using Directory_new_wf [of cfg "NumDirEntries cfg"] st(2-4) same_file_bytes [OF f(2)]
    by (intro Directory_FetchFrom_ok [OF f(3)]) (simp_all add: wf_dir_def)
  then show ?thesis using f by (simp add: fetch_dir_def)
qed

text \<open>The root directory is found through its open file, which the file system keeps.\<close>

definition root_open :: "config \<Rightarrow> filesystem \<Rightarrow> FileHeader \<Rightarrow> bool" where
  "root_open cfg fs r \<longleftrightarrow> same_file r (hdr (directoryFile fs)) \<and> wf_file cfg (hdr (directoryFile fs)) (sectors fs)"

lemma FindDir_root:
  assumes "root_open cfg fs r" "stored_dir cfg (sectors fs) 1 r dir" "slash \<notin> set p"
  shows "FindDir cfg p fs = Some (1, p)"
proof -
  have st: "wf_dir dir" "length dir = nat (NumDirEntries cfg)"
    "take (length dir * entry_size) (file_bytes r (sectors fs)) = table_bytes dir"
    using assms(2) unfolding stored_dir_def by blast+
  have r: "same_file r (hdr (directoryFile fs))" "wf_file cfg (hdr (directoryFile fs)) (sectors fs)"
    using assms(1) by (simp_all add: root_open_def)
  have fd: "Directory_FetchFrom cfg (hdr (directoryFile fs)) (sectors fs) (Directory_new cfg (NumDirEntries cfg)) = Some dir"
    using Directory_new_wf [of cfg "NumDirEntries cfg"] st same_file_bytes [OF r(1)]
    by (intro Directory_FetchFrom_ok [OF r(2)]) (simp_all add: wf_dir_def)
  have "dropWhile (\<lambda>c. c = slash) p = p" using assms(3) by (cases p) auto
  moreover have "dropWhile (\<lambda>c. c \<noteq> slash) p = []" using assms(3) by auto
  ultimately have "decompname p = (False, takeWhile (\<lambda>c. c \<noteq> slash) p, p)" by (simp add: decompname_def Let_def)
  then show ?thesis using fd by (simp add: FindDir_def FindDir_loop.simps [of _ _ p] DirectorySector_def)
qed

text \<open>Writing a directory back into its file, seen through the header on disk.\<close>

lemma stored_dir_update:
  assumes "sector_ok cfg" "stored_file cfg (sectors fs) sector h" "same_file h (hdr f)" "wf_file cfg (hdr f) (sectors fs)"
    and "wf_dir dir" "dir \<noteq> []" "length dir = nat (NumDirEntries cfg)"
    and "int (length dir * entry_size) \<le> numBytes h" "numBytes h \<le> MAX_FILE_LENGTH cfg"
    and "distinct (sector # own_sectors h)"
  shows "\<exists>fs'. Directory_WriteBack cfg dir f fs = Some (f, fs') \<and> fs' = fs\<lparr>sectors := sectors fs'\<rparr>
    \<and> stored_dir cfg (sectors fs') sector h dir
    \<and> (\<forall>s. s \<notin> nat ` set (data_list h) \<longrightarrow> sectors fs' ! s = sectors fs ! s)"
proof -
  have e: "\<forall>e\<in>set dir. wf_entry e" using assms(5) by (simp add: wf_dir_def)
  have sf: "numBytes (hdr f) = numBytes h" "data_list (hdr f) = data_list h"
    using assms(3) by (simp_all add: same_file_def)
  obtain fs' where w: "Directory_WriteBack cfg dir f fs = Some (f, fs')" "fs' = fs\<lparr>sectors := sectors fs'\<rparr>"
    "wf_file cfg (hdr f) (sectors fs')"
    "file_bytes (hdr f) (sectors fs') = table_bytes dir @ drop (length dir * entry_size) (file_bytes (hdr f) (sectors fs))"
    "\<forall>s. s \<notin> nat ` set (data_list (hdr f)) \<longrightarrow> sectors fs' ! s = sectors fs ! s"
    using Directory_WriteBack_ok [OF assms(4) e assms(6)] assms(8,9) unfolding sf(1) by blast
  have pos: "\<forall>s \<in> set (data_list h). 0 \<le> s" using assms(2) by (auto simp: stored_file_def wf_file_def)
  have other: "sectors fs' ! nat t = sectors fs ! nat t" if "0 \<le> t" "t \<notin> set (data_list h)" for t
  proof -
    have "nat t \<notin> nat ` set (data_list h)"
    proof
      assume "nat t \<in> nat ` set (data_list h)"
      then obtain s where "s \<in> set (data_list h)" "nat t = nat s" by blast
      then show False using that pos by (metis nat_0_le)
    qed
    then show ?thesis using w(5) sf(2) by simp
  qed
  have c0: "\<forall>s \<in> set (chain h). 0 \<le> s" "0 \<le> sector" using assms(2) by (auto simp: stored_file_def)
  have dj: "sector \<notin> set (data_list h)" "set (chain h) \<inter> set (data_list h) = {}"
    using assms(10) by (auto simp: own_sectors_parts)
  have "stored_file cfg (sectors fs') sector h"
  proof (rule stored_file_frame [OF assms(2)])
    show "wf_sectors cfg (sectors fs')" using w(3) by (simp add: wf_file_def)
    show "sectors fs' ! nat sector = sectors fs ! nat sector" using other c0(2) dj(1) by blast
    show "sectors fs' ! nat s = sectors fs ! nat s" if "s \<in> set (chain h)" for s
      using other that c0(1) dj(2) by blast
  qed
  moreover have "take (length dir * entry_size) (file_bytes h (sectors fs')) = table_bytes dir"
    using w(4) same_file_bytes [OF assms(3), of "sectors fs'"] length_table_bytes [OF e] by simp
  ultimately have "stored_dir cfg (sectors fs') sector h dir"
    using assms by (simp add: stored_dir_def)
  then show ?thesis using w(1,2,5) sf(2) by auto
qed

text \<open>The map of free sectors in its file.\<close>

definition stored_map :: "config \<Rightarrow> filesystem \<Rightarrow> bitmap \<Rightarrow> bool" where
  "stored_map cfg fs b \<longleftrightarrow> wf_file cfg (hdr (freeMapFile fs)) (sectors fs)
     \<and> 256 \<le> numBytes (hdr (freeMapFile fs)) \<and> numBytes (hdr (freeMapFile fs)) \<le> MAX_FILE_LENGTH cfg
     \<and> take 256 (file_bytes (hdr (freeMapFile fs)) (sectors fs)) = BitMap_bytes b
     \<and> wf_bitmap b \<and> numBits b = 2048"

lemma map_words: "wf_bitmap b \<Longrightarrow> numBits b = 2048 \<Longrightarrow>
    numWords b = 64 \<and> length (bits b) = 64 \<and> length (BitMap_bytes b) = 256"
  by (simp add: wf_bitmap_def divRoundUp_def BITS_IN_WORD_def cint_simps BitMap_bytes_def)

lemma stored_map_fetch:
  assumes "stored_map cfg fs b"
  shows "fetch_map cfg fs = Some b"
proof -
  have st: "wf_file cfg (hdr (freeMapFile fs)) (sectors fs)"
    "take 256 (file_bytes (hdr (freeMapFile fs)) (sectors fs)) = BitMap_bytes b" "wf_bitmap b" "numBits b = 2048"
    using assms by (simp_all add: stored_map_def)
  obtain b0 where b0: "BitMap_new cfg 2048 = Some b0" "wf_bitmap b0" "numBits b0 = 2048"
    using BitMap_new_correct [of 2048 cfg] by auto
  note w0 = map_words [OF b0(2,3)] and w = map_words [OF st(3,4)]
  have "ReadAt cfg (hdr (freeMapFile fs)) 256 0 (sectors fs) = Some (BitMap_bytes b)"
    using ReadAt_bytes [OF st(1) order_refl, of 256] st(2) by simp
  moreover have "blit (words_to_bytes (bits b0)) 0 (BitMap_bytes b) = Some (BitMap_bytes b)"
    using w0 w by (simp add: blit_def)
  ultimately have "BitMap_FetchFrom cfg (hdr (freeMapFile fs)) (sectors fs) b0 = Some (b0\<lparr>bits := bits b\<rparr>)"
    using w0 by (simp add: BitMap_FetchFrom_def BitMap_bytes_def)
  moreover have "b0\<lparr>bits := bits b\<rparr> = b" using w0 w b0(3) st(4) by simp
  ultimately show ?thesis using b0(1) by (simp add: fetch_map_def)
qed

lemma stored_map_flush:
  assumes "wf_file cfg (hdr (freeMapFile fs)) (sectors fs)" "256 \<le> numBytes (hdr (freeMapFile fs))"
    and "numBytes (hdr (freeMapFile fs)) \<le> MAX_FILE_LENGTH cfg" "wf_bitmap b" "numBits b = 2048"
  shows "\<exists>fs'. flush_map cfg b fs = Some fs' \<and> fs' = fs\<lparr>sectors := sectors fs'\<rparr> \<and> stored_map cfg fs' b
    \<and> (\<forall>s. s \<notin> nat ` set (data_list (hdr (freeMapFile fs))) \<longrightarrow> sectors fs' ! s = sectors fs ! s)"
proof -
  let ?f = "freeMapFile fs"
  note w = map_words [OF assms(4,5)]
  have m: "numBytes (hdr ?f) \<le> MaxFileLength cfg (hdr ?f)" "0 \<le> numBytes (hdr ?f)"
    using assms(1,2) by (simp_all add: wf_file_def MaxFileLength_def)
  have fits: "(0::int) < 256" "0 + 256 \<le> MaxFileLength cfg (hdr ?f)" "0 + 256 \<le> MAX_FILE_LENGTH cfg"
    "256 \<le> int (length (BitMap_bytes b))"
    using m assms(2,3) w by linarith+
  obtain f' fs' where x: "WriteAt_with cfg (grow_file cfg) (BitMap_bytes b) 256 0 ?f fs = Some (256, f', fs')"
    "f' = ?f\<lparr>hdr := (hdr ?f)\<lparr>numBytes := max (numBytes (hdr ?f)) (0 + 256)\<rparr>\<rparr>"
    "fs' = fs\<lparr>sectors := sectors fs'\<rparr>" "wf_file cfg (hdr f') (sectors fs')"
    "file_bytes (hdr f') (sectors fs') = take (nat 0) (file_bytes (hdr ?f) (sectors fs))
        @ take (nat 256) (BitMap_bytes b) @ drop (nat (0 + 256)) (file_bytes (hdr ?f) (sectors fs))"
    "\<forall>s. s \<notin> nat ` set (data_list (hdr ?f)) \<longrightarrow> sectors fs' ! s = sectors fs ! s"
    using WriteAt_with_in_place [OF assms(1) order_refl m(2) fits, of "grow_file cfg"] by blast
  have f': "f' = ?f" using x(2) assms(2) by (simp add: max_def)
  have ff: "freeMapFile fs' = ?f" by (subst x(3)) simp
  then have "flush_map cfg b fs = Some fs'"
    using x(1) w f' by (simp add: flush_map_def WriteAt_def)
  moreover have "stored_map cfg fs' b"
    using x(4,5) w assms(2-5) unfolding f' by (simp add: stored_map_def ff)
  ultimately show ?thesis using x(3,6) by blast
qed

subsection \<open>Creating a file\<close>

lemma FindDir_loop_lock: "FindDir_loop cfg (fs\<lparr>createLock := l\<rparr>) p dir s = FindDir_loop cfg fs p dir s"
proof (induction cfg fs p dir s rule: FindDir_loop.induct)
  case (1 cfg fs p dir s)
  show ?case
    unfolding FindDir_loop.simps [of cfg "fs\<lparr>createLock := l\<rparr>" p dir s]
      FindDir_loop.simps [of cfg fs p dir s]
    using "1.IH" by (auto simp: Let_def split: prod.splits bool.splits intro!: bind_option_cong)
qed

lemma FindDir_lock: "FindDir cfg p (fs\<lparr>createLock := l\<rparr>) = FindDir cfg p fs"
  by (simp add: FindDir_def FindDir_loop_lock)

lemma fetch_lock: "fetch_dir cfg s (fs\<lparr>createLock := l\<rparr>) = fetch_dir cfg s fs"
  "fetch_map cfg (fs\<lparr>createLock := l\<rparr>) = fetch_map cfg fs"
  "stored_map cfg (fs\<lparr>createLock := l\<rparr>) b = stored_map cfg fs b"
  by (simp_all add: fetch_dir_def fetch_map_def stored_map_def)

text \<open>Memory holds 32-bit numbers, and file lengths fit in one.\<close>

definition ints_ok :: "config \<Rightarrow> bool" where
  "ints_ok cfg \<longleftrightarrow> (\<forall>i. int32 (fresh cfg i)) \<and> MAX_FILE_LENGTH cfg < 2 ^ 31"

text \<open>A header made by \<open>Allocate\<close> can be written.\<close>

lemma allocated_header:
  assumes "sector_ok cfg" "ints_ok cfg" "0 \<le> n" "n \<le> MAX_FILE_LENGTH cfg"
    and "numBytes h = n" "numSectors h = data_count cfg n" "numHeaderSectors h = header_count cfg n"
    and "int32 (isdir h)" "length (headerSectors h) = 32" "int (length (dataSectors h)) = MAX_DATA_SECTORS cfg"
    and "set (headerSectors h) \<subseteq> set (own_sectors h) \<union> set (map (fresh cfg) [0..<32])"
    and "set (dataSectors h) \<subseteq> set (own_sectors h) \<union> set (new_table cfg)"
    and "set (own_sectors h) \<subseteq> {0..<2048}" "distinct (own_sectors h)" "wf_sectors cfg d"
  shows "wf_header cfg h" "wf_file cfg h d"
    "numSectors h \<le> DatasInFirstSector cfg + numHeaderSectors h * DatasInSector cfg"
    "distinct (chain h)" "set (chain h) \<subseteq> {0..<2048}"
proof -
  note c = count_bounds [OF assms(1,3,4)] and s = sector_ok_counts [OF assms(1)]
  have small: "int32 x" if "x \<in> {0..<2048}" for x using that by (auto simp: int32_def)
  have ns: "data_count cfg n < 2 ^ 31"
  proof -
    have "MAX_DATA_SECTORS cfg * 1 \<le> MAX_DATA_SECTORS cfg * SectorSize cfg"
      using c(1,2) s(1) by (intro mult_left_mono) simp_all
    then show ?thesis using c(2) assms(2) by (simp add: ints_ok_def MAX_FILE_LENGTH_def)
  qed
  have el: "int32 x" if "x \<in> set (headerSectors h) \<union> set (dataSectors h)" for x
  proof -
    have "x \<in> set (own_sectors h) \<or> (\<exists>i. x = fresh cfg i)"
      using that assms(11,12) by (auto simp: new_table_def)
    then show ?thesis using assms(2,13) small by (auto simp: ints_ok_def)
  qed
  have "int32 n" "int32 (data_count cfg n)"
    using assms(2-4) c(1) ns by (simp_all add: int32_def ints_ok_def)
  then show "wf_header cfg h"
    using assms(5-10) c(3,4) el by (simp add: wf_header_def)
  have dl: "distinct (data_list h)" "set (data_list h) \<subseteq> {0..<2048}"
    using assms(13,14) by (auto simp: own_sectors_parts)
  then show "wf_file cfg h d"
    using assms(3,5,6,10,15) c(2,6) s(1) by (simp add: wf_file_def)
  show "numSectors h \<le> DatasInFirstSector cfg + numHeaderSectors h * DatasInSector cfg"
    using assms(6,7) c(5) by simp
  show "distinct (chain h)" "set (chain h) \<subseteq> {0..<2048}"
    using assms(13,14) by (auto simp: own_sectors_parts)
qed

text \<open>
  What a disk must satisfy around the directory in which a file is created: the map of free
  sectors and the directory are stored, the map marks every sector of both, and they do
  not overlap.
\<close>

definition create_ready :: "config \<Rightarrow> filesystem \<Rightarrow> bitmap \<Rightarrow> int \<Rightarrow> FileHeader \<Rightarrow> Directory \<Rightarrow> bool" where
  "create_ready cfg fs b ds dh dir \<longleftrightarrow> sector_ok cfg \<and> ints_ok cfg
     \<and> stored_map cfg fs b \<and> stored_dir cfg (sectors fs) ds dh dir
     \<and> distinct (ds # own_sectors dh) \<and> file_sectors ds dh \<subseteq> marked b
     \<and> set (data_list (hdr (freeMapFile fs))) \<subseteq> marked b
     \<and> file_sectors ds dh \<inter> set (data_list (hdr (freeMapFile fs))) = {}"

lemma create_ready_lock: "create_ready cfg (fs\<lparr>createLock := l\<rparr>) b ds dh dir = create_ready cfg fs b ds dh dir"
  by (simp add: create_ready_def fetch_lock)

text \<open>Sectors outside a set of sector numbers.\<close>

lemma nat_notin: "0 \<le> t \<Longrightarrow> \<forall>s\<in>A. (0::int) \<le> s \<Longrightarrow> t \<notin> A \<Longrightarrow> nat t \<notin> nat ` A"
  by (metis (no_types, lifting) imageE nat_0_le)

lemma marked_range: "numBits b = 2048 \<Longrightarrow> marked b \<subseteq> {0..<2048}"
  by (auto simp: marked_def)

text \<open>
  The three writes of \<open>Create\<close> together: the new header, the directory, the map. The new
  file has its own, previously free sectors.
\<close>

lemma create_writes:
  assumes "create_ready cfg fs b ds dh dir" "same_file dh (hdr f)" "wf_file cfg (hdr f) (sectors fs)"
    and "wf_dir dir'" "length dir' = length dir"
    and "wf_header cfg h" "wf_file cfg h (sectors fs)"
    and "numSectors h \<le> DatasInFirstSector cfg + numHeaderSectors h * DatasInSector cfg"
    and "distinct (sec # own_sectors h)" "file_sectors sec h \<subseteq> {0..<2048} - marked b"
    and "wf_bitmap b'" "numBits b' = 2048"
  shows "\<exists>d fs1 fs2. WriteBack cfg sec h (sectors fs) = Some d
    \<and> Directory_WriteBack cfg dir' f (fs\<lparr>sectors := d\<rparr>) = Some (f, fs1)
    \<and> flush_map cfg b' fs1 = Some fs2 \<and> fs2 = fs\<lparr>sectors := sectors fs2\<rparr>
    \<and> stored_map cfg fs2 b' \<and> stored_dir cfg (sectors fs2) ds dh dir' \<and> stored_file cfg (sectors fs2) sec h
    \<and> (\<forall>t \<in> marked b - file_sectors ds dh - set (data_list (hdr (freeMapFile fs))).
         sectors fs2 ! nat t = sectors fs ! nat t)"
proof -
  let ?m = "hdr (freeMapFile fs)" and ?D = "\<lambda>h. set (data_list h)"
  have r: "sector_ok cfg" "stored_map cfg fs b" "stored_dir cfg (sectors fs) ds dh dir"
    "distinct (ds # own_sectors dh)" "file_sectors ds dh \<subseteq> marked b" "?D ?m \<subseteq> marked b"
    "file_sectors ds dh \<inter> ?D ?m = {}"
    using assms(1) by (simp_all add: create_ready_def)
  have mb: "marked b \<subseteq> {0..<2048}" using r(2) by (intro marked_range) (simp add: stored_map_def)
  have fs_parts: "file_sectors s x = insert s (set (chain x) \<union> ?D x)" for s x
    by (auto simp: file_sectors_def own_sectors_parts)
  have wd: "wf_sectors cfg (sectors fs)" using assms(7) by (simp add: wf_file_def)
  have sec: "0 \<le> sec" "sec < 2048" "distinct (sec # chain h)" "set (chain h) \<subseteq> {0..<2048}"
    using assms(9,10) by (auto simp: fs_parts own_sectors_parts)
  obtain d where d: "WriteBack cfg sec h (sectors fs) = Some d" "wf_sectors cfg d" "header_at cfg sec h d"
    "\<forall>s. s \<noteq> nat sec \<and> s \<notin> nat ` set (chain h) \<longrightarrow> d ! s = sectors fs ! s"
    using WriteBack_ok [OF r(1) assms(6) wd sec] by blast
  have d_old: "d ! nat t = sectors fs ! nat t" if "t \<in> marked b" for t
  proof -
    have "t \<notin> insert sec (set (chain h))" using that assms(10) by (auto simp: fs_parts)
    moreover have "0 \<le> t" "\<forall>s \<in> insert sec (set (chain h)). 0 \<le> s" using that mb sec by auto
    ultimately have "nat t \<notin> nat ` insert sec (set (chain h))" by (intro nat_notin)
    then show ?thesis using d(4) by simp
  qed
  let ?fs = "fs\<lparr>sectors := d\<rparr>"
  have sd: "stored_file cfg (sectors fs) ds dh" "dir \<noteq> []" "length dir = nat (NumDirEntries cfg)"
    "int (length dir * entry_size) \<le> numBytes dh" "numBytes dh \<le> MAX_FILE_LENGTH cfg"
    using r(3) unfolding stored_dir_def by blast+
  have s1: "stored_file cfg (sectors ?fs) ds dh"
    using r(5) d(2) d_old by (intro stored_file_frame [OF sd(1)]) (auto simp: fs_parts)
  have wf1: "wf_file cfg (hdr f) (sectors ?fs)" using assms(3) d(2) by (simp add: wf_file_def)
  have dir': "dir' \<noteq> []" "length dir' = nat (NumDirEntries cfg)" "int (length dir' * entry_size) \<le> numBytes dh"
    using assms(5) sd(2-4) by auto
  obtain fs1 where 1: "Directory_WriteBack cfg dir' f ?fs = Some (f, fs1)" "fs1 = ?fs\<lparr>sectors := sectors fs1\<rparr>"
    "stored_dir cfg (sectors fs1) ds dh dir'" "\<forall>s. s \<notin> nat ` ?D dh \<longrightarrow> sectors fs1 ! s = d ! s"
    using stored_dir_update [OF r(1) s1 assms(2) wf1 assms(4) dir' sd(5) r(4)] by auto
  have m1: "freeMapFile fs1 = freeMapFile fs" by (subst 1(2)) simp
  have w1: "wf_sectors cfg (sectors fs1)" using 1(3) by (simp add: stored_dir_def stored_file_def wf_file_def)
  have map1: "wf_file cfg (hdr (freeMapFile fs1)) (sectors fs1)" "256 \<le> numBytes (hdr (freeMapFile fs1))"
    "numBytes (hdr (freeMapFile fs1)) \<le> MAX_FILE_LENGTH cfg"
    using r(2) w1 by (simp_all add: stored_map_def m1 wf_file_def)
  obtain fs2 where 2: "flush_map cfg b' fs1 = Some fs2" "fs2 = fs1\<lparr>sectors := sectors fs2\<rparr>"
    "stored_map cfg fs2 b'" "\<forall>s. s \<notin> nat ` ?D ?m \<longrightarrow> sectors fs2 ! s = sectors fs1 ! s"
    using stored_map_flush [OF map1 assms(11,12)] unfolding m1 by blast
  have w2: "wf_sectors cfg (sectors fs2)" using 2(3) by (simp add: stored_map_def wf_file_def)
  have nn: "\<forall>s \<in> ?D dh. 0 \<le> s" "\<forall>s \<in> ?D ?m. 0 \<le> s" using r(5,6) mb by (auto simp: fs_parts)
  have keep: "sectors fs2 ! nat t = d ! nat t" if "0 \<le> t" "t \<notin> ?D dh" "t \<notin> ?D ?m" for t
    using 2(4) 1(4) nat_notin [OF that(1) nn(1) that(2)] nat_notin [OF that(1) nn(2) that(3)] by metis
  have keep1: "sectors fs2 ! nat t = sectors fs1 ! nat t" if "0 \<le> t" "t \<notin> ?D ?m" for t
    using 2(4) nat_notin [OF that(1) nn(2) that(2)] by metis
  have new: "0 \<le> t \<and> t \<notin> ?D dh \<and> t \<notin> ?D ?m" if "t \<in> file_sectors sec h" for t
    using that assms(10) r(5,6) by (auto simp: fs_parts)
  have "stored_file cfg d sec h"
    using assms(6-8) d(2,3) sec by (simp add: stored_file_def wf_file_def)
  then have f2: "stored_file cfg (sectors fs2) sec h"
    using w2 new keep by (elim stored_file_frame) (auto simp: fs_parts)
  have hd_nn: "0 \<le> t \<and> t \<notin> ?D ?m" if "t \<in> file_sectors ds dh" for t
    using that r(5,7) mb by (auto simp: fs_parts)
  have sf1: "stored_file cfg (sectors fs1) ds dh" using 1(3) by (simp add: stored_dir_def)
  have sf2: "stored_file cfg (sectors fs2) ds dh"
    using w2 hd_nn keep1 by (intro stored_file_frame [OF sf1]) (auto simp: fs_parts)
  have fb: "file_bytes dh (sectors fs2) = file_bytes dh (sectors fs1)"
    using hd_nn keep1 by (auto simp: file_bytes_def raw_bytes_def file_blocks_def fs_parts intro!: arg_cong [of _ _ "\<lambda>x. take _ (concat x)"])
  then have d2: "stored_dir cfg (sectors fs2) ds dh dir'"
    using 1(3) sf2 unfolding stored_dir_def fb by blast
  have "fs2 = fs\<lparr>sectors := sectors fs2\<rparr>"
    using 2(2) 1(2) by (metis filesystem.surjective filesystem.update_convs(1))
  moreover have "\<forall>t \<in> marked b - file_sectors ds dh - ?D ?m. sectors fs2 ! nat t = sectors fs ! nat t"
  proof
    fix t
    assume t: "t \<in> marked b - file_sectors ds dh - ?D ?m"
    then have "0 \<le> t" "t \<notin> ?D dh" "t \<notin> ?D ?m" using mb by (auto simp: fs_parts)
    then show "sectors fs2 ! nat t = sectors fs ! nat t" using keep d_old t by simp
  qed
  ultimately show ?thesis using d(1) 1(1) 2(1,3) d2 f2 by blast
qed

lemma FileHeader_new_table: "headerSectors (SetFile (FileHeader_new cfg)) = map (fresh cfg) [0..<32]"
  "headerSectors (FileHeader_new cfg) = map (fresh cfg) [0..<32]"
  by (simp_all add: FileHeader_new_def SetFile_def MAX_HEADER_SECTORS_def)

text \<open>Taking the header sector and the rest of a file from the map.\<close>

lemma find_and_allocate:
  assumes "sector_ok cfg" "ints_ok cfg" "wf_bitmap b" "numBits b = 2048" "0 \<le> n" "n \<le> MAX_FILE_LENGTH cfg"
    and "1 + data_count cfg n + header_count cfg n \<le> int (card (free_bits b))"
    and "headerSectors h0 = map (fresh cfg) [0..<32]" "int32 (isdir h0)" "wf_sectors cfg d"
  shows "\<exists>s b1 b2 h. BitMap_Find b = Some (s, b1) \<and> s \<noteq> - 1 \<and> 0 \<le> s \<and> s < 2048
    \<and> Allocate cfg b1 n h0 = Some (True, b2, h) \<and> numBytes h = n \<and> isdir h = isdir h0
    \<and> wf_header cfg h \<and> wf_file cfg h d
    \<and> numSectors h \<le> DatasInFirstSector cfg + numHeaderSectors h * DatasInSector cfg
    \<and> distinct (s # own_sectors h) \<and> file_sectors s h \<subseteq> {0..<2048} - marked b
    \<and> wf_bitmap b2 \<and> numBits b2 = 2048 \<and> marked b2 = marked b \<union> file_sectors s h"
proof -
  note c = count_bounds [OF assms(1,5,6)]
  have ne: "free_bits b \<noteq> {}" using assms(7) c(1,3) by auto
  obtain b1 where b1: "BitMap_Find b = Some (Min (free_bits b), b1)" "wf_bitmap b1" "numBits b1 = 2048"
    "marked b1 = insert (Min (free_bits b)) (marked b)"
    using BitMap_Find_correct [OF assms(3)] ne assms(4) by auto
  let ?s = "Min (free_bits b)"
  have s: "?s \<in> free_bits b" using ne by (intro Min_in) simp_all
  have f1: "free_bits b1 = free_bits b - {?s}" using b1(3,4) assms(4) by (auto simp: free_bits_def)
  then have "card (free_bits b1) = card (free_bits b) - 1" using s by simp
  then have room: "\<not> int (card (free_bits b1)) < data_count cfg n + header_count cfg n"
    using assms(7) by linarith
  have l32: "length (headerSectors h0) = 32" using assms(8) by simp
  obtain b2 h where h: "Allocate cfg b1 n h0 = Some (True, b2, h)" "numBytes h = n"
    "numSectors h = data_count cfg n" "numHeaderSectors h = header_count cfg n" "isdir h = isdir h0"
    "length (headerSectors h) = 32" "int (length (dataSectors h)) = MAX_DATA_SECTORS cfg"
    "distinct (own_sectors h)" "set (own_sectors h) \<subseteq> free_bits b1"
    "set (headerSectors h) \<subseteq> set (own_sectors h) \<union> set (headerSectors h0)"
    "set (dataSectors h) \<subseteq> set (own_sectors h) \<union> set (new_table cfg)"
    "wf_bitmap b2" "numBits b2 = numBits b1" "marked b2 = marked b1 \<union> set (own_sectors h)"
    using Allocate_correct [OF b1(2) assms(1,5,6) l32] unfolding if_not_P [OF room] by blast
  have own: "set (own_sectors h) \<subseteq> {0..<2048}" using h(9) f1 assms(4) by (auto simp: free_bits_def)
  have i: "int32 (isdir h)" "set (headerSectors h) \<subseteq> set (own_sectors h) \<union> set (map (fresh cfg) [0..<32])"
    using h(5,10) assms(8,9) by simp_all
  note a = allocated_header [OF assms(1,2,5,6) h(2-4) i(1) h(6,7) i(2) h(11) own h(8) assms(10)]
  have "?s \<notin> set (own_sectors h)" using h(9) f1 by auto
  moreover have "file_sectors ?s h \<subseteq> {0..<2048} - marked b"
    using s h(9) f1 assms(4) by (auto simp: file_sectors_def free_bits_def)
  moreover have "0 \<le> ?s" "?s < 2048" using s assms(4) by (simp_all add: free_bits_def)
  moreover have "marked b2 = marked b \<union> file_sectors ?s h"
    using h(14) b1(4) by (auto simp: file_sectors_def)
  ultimately show ?thesis
    using b1(1,3) h(1,2,5,8,12,13) a by (intro exI [of _ ?s] exI [of _ b1] exI [of _ b2] exI [of _ h]) simp
qed

lemma create_correct:
  assumes "create_ready cfg fs b ds dh dir" "\<not> createLock fs" "FindDir cfg p fs = Some (ds, base)"
    and "int (length p) < MaxFileNameSize cfg" "0 \<le> n" "n \<le> MAX_FILE_LENGTH cfg"
    and "Directory_Find dir base = - 1" "\<exists>e\<in>set dir. \<not> inUse e"
    and "1 + data_count cfg n + header_count cfg n \<le> int (card (free_bits b))"
  shows "\<exists>fs' b' dir' s h. Create cfg p n fs = Some (NoError, fs')
    \<and> create_ready cfg fs' b' ds dh dir'
    \<and> (\<forall>nm. Directory_Find dir' nm = (if key nm = key base then s else Directory_Find dir nm))
    \<and> stored_file cfg (sectors fs') s h \<and> numBytes h = n \<and> isdir h = 0
    \<and> file_sectors s h \<inter> marked b = {} \<and> marked b' = marked b \<union> file_sectors s h
    \<and> (\<forall>t \<in> marked b - file_sectors ds dh - set (data_list (hdr (freeMapFile fs))).
         sectors fs' ! nat t = sectors fs ! nat t)
    \<and> distinct (s # own_sectors h) \<and> fs' = fs\<lparr>sectors := sectors fs'\<rparr>"
proof -
  have r: "sector_ok cfg" "ints_ok cfg" "stored_map cfg fs b"
    "stored_dir cfg (sectors fs) ds dh dir" "wf_bitmap b" "numBits b = 2048" "wf_dir dir"
    using assms(1) by (auto simp: create_ready_def stored_map_def stored_dir_def)
  have ds: "ds \<noteq> - 1" using r(4) by (auto simp: stored_dir_def stored_file_def)
  let ?fs = "fs\<lparr>createLock := True\<rparr>"
  have ready: "create_ready cfg ?fs b ds dh dir" using assms(1) by (simp add: create_ready_lock)
  obtain f where f: "fetch_dir cfg ds fs = Some (f, dir)" "same_file dh (hdr f)" "wf_file cfg (hdr f) (sectors ?fs)"
    using stored_dir_fetch [OF r(1,4)] by auto
  have wd: "wf_sectors cfg (sectors ?fs)" using f(3) by (simp add: wf_file_def)
  have fd: "isdir (SetFile (FileHeader_new cfg)) = 0" by (simp add: SetFile_def)
  then have i0: "int32 (isdir (SetFile (FileHeader_new cfg)))" by (simp add: int32_def)
  obtain s b1 b2 h where h: "BitMap_Find b = Some (s, b1)" "s \<noteq> - 1" "0 \<le> s" "s < 2048"
    "Allocate cfg b1 n (SetFile (FileHeader_new cfg)) = Some (True, b2, h)" "numBytes h = n" "isdir h = 0"
    "wf_header cfg h" "wf_file cfg h (sectors ?fs)"
    "numSectors h \<le> DatasInFirstSector cfg + numHeaderSectors h * DatasInSector cfg"
    "distinct (s # own_sectors h)" "file_sectors s h \<subseteq> {0..<2048} - marked b"
    "wf_bitmap b2" "numBits b2 = 2048" "marked b2 = marked b \<union> file_sectors s h"
    using find_and_allocate [OF r(1,2,5,6) assms(5,6,9) FileHeader_new_table(1) i0 wd] unfolding fd by blast
  have sn: "sector_number s" using h(3,4) by (simp add: sector_number_def int32_def)
  have none: "dir_map dir (key base) = None" using assms(7) dir.lookup_absent [OF r(7)] by blast
  have nf: "\<not> (\<forall>e\<in>set dir. inUse e)" using assms(8) by blast
  have s32: "int32 s" using sn by (simp add: sector_number_def)
  obtain dir' where dir': "Directory_Add base s dir = (NoError, dir')" "wf_dir dir'" "length dir' = length dir"
    "dir_map dir' = (dir_map dir)(key base \<mapsto> s)"
    using add_entry_correct [OF r(7) none h(3) s32] none unfolding if_not_P [OF nf]
    by (auto simp: Directory_Add_def FindIndex_None)
  have look: "Directory_Find dir' nm = (if key nm = key base then s else Directory_Find dir nm)" for nm
    by (simp add: dir.lookup_spec dir'(4))
  obtain d fs1 fs2 where w: "WriteBack cfg s h (sectors ?fs) = Some d"
    "Directory_WriteBack cfg dir' f (?fs\<lparr>sectors := d\<rparr>) = Some (f, fs1)" "flush_map cfg b2 fs1 = Some fs2"
    "fs2 = ?fs\<lparr>sectors := sectors fs2\<rparr>" "stored_map cfg fs2 b2" "stored_dir cfg (sectors fs2) ds dh dir'"
    "stored_file cfg (sectors fs2) s h"
    "\<forall>t \<in> marked b - file_sectors ds dh - set (data_list (hdr (freeMapFile ?fs))).
         sectors fs2 ! nat t = sectors ?fs ! nat t"
    using create_writes [OF ready f(2,3) dir'(2,3) h(8,9,10,11,12,13,14)] by blast
  have C: "Create cfg p n fs = Some (NoError, Release_create fs2)"
    using assms(2-4,7) ds f(1) stored_map_fetch [OF r(3)] h(1,2,5) dir'(1) w(1-3)
    by (simp add: Create_def Acquire_create_def copy_name_def FindDir_lock fetch_lock)
  have mf: "freeMapFile fs2 = freeMapFile fs" by (subst w(4)) simp
  have R: "create_ready cfg (Release_create fs2) b2 ds dh dir'"
    using assms(1) w(5,6) h(15) unfolding Release_create_def create_ready_lock
    by (auto simp: create_ready_def mf)
  have S: "sectors (Release_create fs2) = sectors fs2" by (simp add: Release_create_def)
  have "file_sectors s h \<inter> marked b = {}" using h(12) by blast
  moreover have "\<forall>t \<in> marked b - file_sectors ds dh - set (data_list (hdr (freeMapFile fs))).
      sectors (Release_create fs2) ! nat t = sectors fs ! nat t" using w(8) by (simp add: S)
  moreover have "Release_create fs2 = fs\<lparr>sectors := sectors (Release_create fs2)\<rparr>"
    unfolding S Release_create_def using assms(2) by (subst w(4)) simp
  ultimately show ?thesis
    using C R look w(7) h(6,7,11,15) unfolding S [symmetric] by blast
qed

text \<open>
  C1. Creating a file. On a disk whose map of free sectors and whose directory are stored
  consistently, with a free directory entry and enough free sectors, \<open>Create\<close> succeeds.
  Afterwards the directory on disk finds the new file and every old one; the new file has
  its length and is not a directory; its sectors, the header included, were free before and
  are exactly what the map on disk gained; no sector of any other file has changed; the
  disk is again consistent for the next call.
\<close>
theorem create_file:
  assumes "create_ready cfg fs b ds dh dir" "\<not> createLock fs" "FindDir cfg p fs = Some (ds, base)"
    and "int (length p) < MaxFileNameSize cfg" "0 \<le> n" "n \<le> MAX_FILE_LENGTH cfg"
    and "Directory_Find dir base = - 1" "\<exists>e\<in>set dir. \<not> inUse e"
    and "1 + data_count cfg n + header_count cfg n \<le> int (card (free_bits b))"
  shows "\<exists>fs' b' dir' s h. Create cfg p n fs = Some (NoError, fs')
    \<and> create_ready cfg fs' b' ds dh dir'
    \<and> (\<forall>nm. Directory_Find dir' nm = (if key nm = key base then s else Directory_Find dir nm))
    \<and> stored_file cfg (sectors fs') s h \<and> numBytes h = n \<and> isdir h = 0
    \<and> file_sectors s h \<inter> marked b = {} \<and> marked b' = marked b \<union> file_sectors s h
    \<and> (\<forall>t \<in> marked b - file_sectors ds dh - set (data_list (hdr (freeMapFile fs))).
         sectors fs' ! nat t = sectors fs ! nat t)"
  using create_correct [OF assms] by blast

subsection \<open>Formatting a disk\<close>

lemma file_bytes_frame:
  "(\<And>s. s \<in> set (data_list h) \<Longrightarrow> d' ! nat s = d ! nat s) \<Longrightarrow> file_bytes h d' = file_bytes h d"
  by (auto simp: file_bytes_def raw_bytes_def file_blocks_def intro!: arg_cong [of _ _ "\<lambda>x. take _ (concat x)"])

lemma unchanged_outside:
  assumes "\<forall>s. s \<notin> nat ` A \<longrightarrow> d' ! s = d ! s" "A \<subseteq> {0..}" "0 \<le> t" "t \<notin> A"
  shows "d' ! nat t = d ! nat t"
  using assms nat_notin [OF assms(3) _ assms(4)] by auto

lemma marked_new:
  assumes "0 \<le> n"
  shows "\<exists>b0. BitMap_new cfg n = Some b0 \<and> wf_bitmap b0 \<and> numBits b0 = n \<and> marked b0 = {}"
  using BitMap_new_correct [OF assms] by blast

lemma format_map:
  "\<exists>b0 b1 b2. BitMap_new cfg 2048 = Some b0 \<and> BitMap_Mark b0 0 = Some b1 \<and> BitMap_Mark b1 1 = Some b2
    \<and> wf_bitmap b2 \<and> numBits b2 = 2048 \<and> marked b2 = {0, 1} \<and> card (free_bits b2) = 2046"
proof -
  obtain b0 where b0: "BitMap_new cfg 2048 = Some b0" "wf_bitmap b0" "numBits b0 = 2048" "marked b0 = {}"
    using marked_new [of 2048] by auto
  obtain b1 where b1: "BitMap_Mark b0 0 = Some b1" "wf_bitmap b1" "numBits b1 = 2048" "marked b1 = {0}"
    using BitMap_Mark_correct [OF b0(2), of 0] b0 by auto
  obtain b2 where b2: "BitMap_Mark b1 1 = Some b2" "wf_bitmap b2" "numBits b2 = 2048" "marked b2 = {0, 1}"
    using BitMap_Mark_correct [OF b1(2), of 1] b1 by auto
  have "{0..<2048} - {0, 1} = {2..<(2048::int)}" by fastforce
  then have "card (free_bits b2) = 2046" by (simp add: free_bits_def b2)
  then show ?thesis using b0(1) b1(1) b2 by blast
qed

lemma SetDir_simps [simp]: "own_sectors (SetDir h) = own_sectors h" "data_list (SetDir h) = data_list h"
  "chain (SetDir h) = chain h" "numBytes (SetDir h) = numBytes h" "isdir (SetDir h) = 1"
  "numSectors (SetDir h) = numSectors h" "numHeaderSectors (SetDir h) = numHeaderSectors h"
  "headerSectors (SetDir h) = headerSectors h" "dataSectors (SetDir h) = dataSectors h"
  by (simp_all add: SetDir_def own_sectors_def data_list_def chain_def)

text \<open>\<open>Allocate\<close> on a new header, with everything that the later steps need.\<close>

lemma allocate_new:
  assumes "sector_ok cfg" "ints_ok cfg" "wf_bitmap b" "numBits b = 2048" "0 \<le> n" "n \<le> MAX_FILE_LENGTH cfg"
    and "data_count cfg n + header_count cfg n \<le> int (card (free_bits b))" "wf_sectors cfg d"
  shows "\<exists>b' h. Allocate cfg b n (FileHeader_new cfg) = Some (True, b', h) \<and> numBytes h = n
    \<and> (\<forall>g \<in> {h, SetDir h}. wf_header cfg g \<and> wf_file cfg g d
         \<and> numSectors g \<le> DatasInFirstSector cfg + numHeaderSectors g * DatasInSector cfg)
    \<and> distinct (own_sectors h) \<and> set (own_sectors h) \<subseteq> free_bits b
    \<and> wf_bitmap b' \<and> numBits b' = 2048 \<and> marked b' = marked b \<union> set (own_sectors h)
    \<and> int (card (free_bits b)) \<le> int (card (free_bits b')) + (data_count cfg n + header_count cfg n)"
proof -
  note c = count_bounds [OF assms(1,5,6)]
  have room: "\<not> int (card (free_bits b)) < data_count cfg n + header_count cfg n" using assms(7) by simp
  have l32: "length (headerSectors (FileHeader_new cfg)) = 32" by (simp add: FileHeader_new_table)
  obtain b2 h where h: "Allocate cfg b n (FileHeader_new cfg) = Some (True, b2, h)" "numBytes h = n"
    "numSectors h = data_count cfg n" "numHeaderSectors h = header_count cfg n" "isdir h = isdir (FileHeader_new cfg)"
    "length (headerSectors h) = 32" "int (length (dataSectors h)) = MAX_DATA_SECTORS cfg"
    "distinct (own_sectors h)" "set (own_sectors h) \<subseteq> free_bits b"
    "set (headerSectors h) \<subseteq> set (own_sectors h) \<union> set (headerSectors (FileHeader_new cfg))"
    "set (dataSectors h) \<subseteq> set (own_sectors h) \<union> set (new_table cfg)"
    "wf_bitmap b2" "numBits b2 = numBits b" "marked b2 = marked b \<union> set (own_sectors h)"
    using Allocate_correct [OF assms(3,1,5,6) l32] unfolding if_not_P [OF room] by blast
  have own: "set (own_sectors h) \<subseteq> {0..<2048}" using h(9) assms(4) by (auto simp: free_bits_def)
  have i: "int32 (isdir h)" "int32 (isdir (SetDir h))"
    "set (headerSectors h) \<subseteq> set (own_sectors h) \<union> set (map (fresh cfg) [0..<32])"
    using h(5,10) assms(2) by (simp_all add: FileHeader_new_table) (simp_all add: ints_ok_def FileHeader_new_def int32_def)
  note a = allocated_header [OF assms(1,2,5,6) h(2-4) i(1) h(6,7) i(3) h(11) own h(8) assms(8)]
  have g: "wf_header cfg g \<and> wf_file cfg g d
      \<and> numSectors g \<le> DatasInFirstSector cfg + numHeaderSectors g * DatasInSector cfg"
    if "g \<in> {h, SetDir h}" for g
    using that a i(2) by (auto simp: wf_header_def wf_file_def)
  have "free_bits b2 = free_bits b - set (own_sectors h)" using h(13,14) by (auto simp: free_bits_def)
  then have "card (free_bits b) - card (set (own_sectors h)) \<le> card (free_bits b2)"
    using diff_card_le_card_Diff [of "set (own_sectors h)" "free_bits b"] by simp
  moreover have "card (set (own_sectors h)) \<le> nat (numHeaderSectors h) + nat (numSectors h)"
  proof (rule order_trans [OF card_length])
    show "length (own_sectors h) \<le> nat (numHeaderSectors h) + nat (numSectors h)"
      unfolding own_sectors_def length_append length_take by (intro add_mono min.cobounded2)
  qed
  ultimately have "int (card (free_bits b)) \<le> int (card (free_bits b2)) + (data_count cfg n + header_count cfg n)"
    using h(3,4) c(1,3) by linarith
  then show ?thesis using h(1,2,8,9,12,13,14) g assms(4) by (intro exI [of _ b2] exI [of _ h]) simp
qed

text \<open>Both headers on disk, then the two files mounted.\<close>

lemma format_headers:
  assumes "sector_ok cfg" "wf_sectors cfg d"
    and "wf_header cfg m" "wf_file cfg m d" "numSectors m \<le> DatasInFirstSector cfg + numHeaderSectors m * DatasInSector cfg"
    and "wf_header cfg r" "wf_file cfg r d" "numSectors r \<le> DatasInFirstSector cfg + numHeaderSectors r * DatasInSector cfg"
    and "distinct (0 # 1 # own_sectors m @ own_sectors r)" "set (own_sectors m @ own_sectors r) \<subseteq> {0..<2048}"
  shows "\<exists>d1 d2. WriteBack cfg 0 m d = Some d1 \<and> WriteBack cfg 1 r d1 = Some d2
    \<and> stored_file cfg d2 0 m \<and> stored_file cfg d2 1 r"
proof -
  have dm: "distinct (0 # chain m)" "set (chain m) \<subseteq> {0..<2048}" and dr: "distinct (1 # chain r)" "set (chain r) \<subseteq> {0..<2048}"
    using assms(9,10) by (auto simp: own_sectors_parts)
  obtain d1 where d1: "WriteBack cfg 0 m d = Some d1" "wf_sectors cfg d1" "header_at cfg 0 m d1"
    using WriteBack_ok [OF assms(1,3,2) _ _ dm] by auto
  have r2: "(0::int) \<le> 1" "(1::int) < 2048" by simp_all
  obtain d2 where d2: "WriteBack cfg 1 r d1 = Some d2" "wf_sectors cfg d2" "header_at cfg 1 r d2"
    "\<forall>s. s \<noteq> nat 1 \<and> s \<notin> nat ` set (chain r) \<longrightarrow> d2 ! s = d1 ! s"
    using WriteBack_ok [OF assms(1,6) d1(2) r2 dr] by blast
  have s0: "stored_file cfg d1 0 m"
    using d1 dm assms(3-5) by (simp add: stored_file_def wf_file_def)
  have keep: "d2 ! nat t = d1 ! nat t" if "t \<in> insert 0 (set (chain m))" for t
  proof (rule unchanged_outside [where A = "insert 1 (set (chain r))"])
    show "\<forall>s. s \<notin> nat ` insert 1 (set (chain r)) \<longrightarrow> d2 ! s = d1 ! s"
      using d2(4) unfolding image_insert by blast
    show "insert 1 (set (chain r)) \<subseteq> {0..}" "0 \<le> t" using dr(2) dm(2) that by auto
    show "t \<notin> insert 1 (set (chain r))" using that assms(9) by (auto simp: own_sectors_parts)
  qed
  have "stored_file cfg d2 0 m"
  proof (rule stored_file_frame [OF s0 d2(2)])
    show "d2 ! nat 0 = d1 ! nat 0" by (rule keep) simp
    show "d2 ! nat s = d1 ! nat s" if "s \<in> set (chain m)" for s using that by (intro keep) simp
  qed
  moreover have "stored_file cfg d2 1 r"
    using d2 dr assms(6-8) by (simp add: stored_file_def wf_file_def)
  ultimately show ?thesis using d1(1) d2(1) by blast
qed

lemma dir_data_frame:
  assumes "stored_map cfg fs b" "fs' = fs\<lparr>sectors := sectors fs'\<rparr>" "wf_sectors cfg (sectors fs')"
    and "\<And>t. t \<in> set (data_list (hdr (freeMapFile fs))) \<Longrightarrow> sectors fs' ! nat t = sectors fs ! nat t"
  shows "stored_map cfg fs' b"
proof -
  have m: "freeMapFile fs' = freeMapFile fs" by (subst assms(2)) simp
  show ?thesis
    using assms(1,3) file_bytes_frame [OF assms(4)] by (simp add: stored_map_def m wf_file_def)
qed

lemma format_ok:
  assumes "sector_ok cfg" "ints_ok cfg" "wf_sectors cfg d" "0 < NumDirEntries cfg"
    and "DirectoryFileSize cfg = NumDirEntries cfg * int entry_size" "DirectoryFileSize cfg \<le> MAX_FILE_LENGTH cfg"
    and "256 \<le> MAX_FILE_LENGTH cfg"
    and "data_count cfg 256 + header_count cfg 256 + data_count cfg (DirectoryFileSize cfg)
      + header_count cfg (DirectoryFileSize cfg) \<le> 2046"
  shows "\<exists>fs b r. FileSystem_new cfg True d = Some fs \<and> \<not> createLock fs
    \<and> create_ready cfg fs b 1 r (Directory_new cfg (NumDirEntries cfg)) \<and> isdir r = 1
    \<and> 2046 - (data_count cfg 256 + header_count cfg 256 + data_count cfg (DirectoryFileSize cfg)
        + header_count cfg (DirectoryFileSize cfg)) \<le> int (card (free_bits b))
    \<and> root_open cfg fs r"
proof -
  let ?N = "DirectoryFileSize cfg"
  have N: "0 \<le> ?N" using assms(4,5) by simp
  have nn: "0 \<le> data_count cfg 256 + header_count cfg 256" "0 \<le> data_count cfg ?N + header_count cfg ?N"
    using count_bounds(1,3) [OF assms(1) _ assms(7)] count_bounds(1,3) [OF assms(1) N assms(6)] by auto
  obtain b0 b1 b2 where b: "BitMap_new cfg 2048 = Some b0" "BitMap_Mark b0 0 = Some b1" "BitMap_Mark b1 1 = Some b2"
    "wf_bitmap b2" "numBits b2 = 2048" "marked b2 = {0, 1}" "card (free_bits b2) = 2046"
    using format_map by blast
  have "data_count cfg 256 + header_count cfg 256 \<le> int (card (free_bits b2))" using b(7) nn assms(8) by simp
  from allocate_new [OF assms(1,2) b(4,5) _ assms(7) this assms(3)]
  obtain b3 m where m: "Allocate cfg b2 256 (FileHeader_new cfg) = Some (True, b3, m)" "numBytes m = 256"
    "wf_header cfg m" "wf_file cfg m d" "numSectors m \<le> DatasInFirstSector cfg + numHeaderSectors m * DatasInSector cfg"
    "distinct (own_sectors m)" "set (own_sectors m) \<subseteq> free_bits b2" "wf_bitmap b3" "numBits b3 = 2048"
    "marked b3 = marked b2 \<union> set (own_sectors m)"
    "2046 \<le> int (card (free_bits b3)) + (data_count cfg 256 + header_count cfg 256)"
    using b(7) by auto
  have "data_count cfg ?N + header_count cfg ?N \<le> int (card (free_bits b3))" using m(11) assms(8) by linarith
  from allocate_new [OF assms(1,2) m(8,9) N assms(6) this assms(3)]
  obtain b4 h where h: "Allocate cfg b3 ?N (FileHeader_new cfg) = Some (True, b4, h)" "numBytes h = ?N"
    "wf_header cfg (SetDir h)" "wf_file cfg (SetDir h) d"
    "numSectors (SetDir h) \<le> DatasInFirstSector cfg + numHeaderSectors (SetDir h) * DatasInSector cfg"
    "distinct (own_sectors h)" "set (own_sectors h) \<subseteq> free_bits b3" "wf_bitmap b4" "numBits b4 = 2048"
    "marked b4 = marked b3 \<union> set (own_sectors h)"
    "int (card (free_bits b3)) \<le> int (card (free_bits b4)) + (data_count cfg ?N + header_count cfg ?N)"
    by auto
  let ?r = "SetDir h"
  have own: "distinct (0 # 1 # own_sectors m @ own_sectors ?r)" "set (own_sectors m @ own_sectors ?r) \<subseteq> {0..<2048}"
    using m(6,7,9,10) h(6,7) b(5,6) by (auto simp: free_bits_def)
  have mk: "marked b4 = {0, 1} \<union> set (own_sectors m) \<union> set (own_sectors h)" using h(10) m(10) b(6) by auto
  obtain d1 d2 where d: "WriteBack cfg 0 m d = Some d1" "WriteBack cfg 1 ?r d1 = Some d2"
    "stored_file cfg d2 0 m" "stored_file cfg d2 1 ?r"
    using format_headers [OF assms(1,3) m(3-5) h(3-5) own] by blast
  obtain fm where fm: "OpenFile_new cfg 0 d2 = Some fm" "same_file m (hdr fm)" "wf_file cfg (hdr fm) d2"
    using stored_file_open [OF assms(1) d(3)] by blast
  obtain fr where fr: "OpenFile_new cfg 1 d2 = Some fr" "same_file ?r (hdr fr)" "wf_file cfg (hdr fr) d2"
    using stored_file_open [OF assms(1) d(4)] by blast
  let ?fs = "\<lparr>sectors = d2, freeMapFile = fm, directoryFile = fr, createLock = False\<rparr>"
  have mt: "mount cfg d2 = Some ?fs" using fm(1) fr(1) by (simp add: mount_def FreeMapSector_def DirectorySector_def)
  have fmh: "numBytes (hdr fm) = 256" "data_list (hdr fm) = data_list m"
    using fm(2) m(2) by (simp_all add: same_file_def)
  obtain fs1 where 1: "flush_map cfg b4 ?fs = Some fs1" "fs1 = ?fs\<lparr>sectors := sectors fs1\<rparr>" "stored_map cfg fs1 b4"
    "\<forall>s. s \<notin> nat ` set (data_list m) \<longrightarrow> sectors fs1 ! s = d2 ! s"
    using stored_map_flush [of cfg ?fs b4] fm(3) fmh assms(7) h(8,9) by auto
  have eq1: "freeMapFile fs1 = fm" "directoryFile fs1 = fr" "createLock fs1 = False" by (subst 1(2), simp)+
  have w1: "wf_sectors cfg (sectors fs1)" using 1(3) by (simp add: stored_map_def wf_file_def)
  have dm: "set (data_list m) \<subseteq> {0..}" "set (data_list h) \<subseteq> {0..}" using own(2) by (auto simp: own_sectors_parts)
  have keep1: "sectors fs1 ! nat t = d2 ! nat t" if "t \<in> insert 1 (set (own_sectors h))" for t
    using own that by (intro unchanged_outside [OF 1(4) dm(1)]) (auto simp: own_sectors_parts)
  have s1: "stored_file cfg (sectors fs1) 1 ?r"
  proof (rule stored_file_frame [OF d(4) w1])
    show "sectors fs1 ! nat 1 = d2 ! nat 1" by (rule keep1) simp
    show "sectors fs1 ! nat s = d2 ! nat s" if "s \<in> set (chain ?r)" for s
      using that by (intro keep1) (simp add: own_sectors_parts)
  qed
  let ?dir = "Directory_new cfg (NumDirEntries cfg)"
  note dn = Directory_new_wf [of cfg "NumDirEntries cfg"]
  have dl: "?dir \<noteq> []" "length ?dir = nat (NumDirEntries cfg)" "int (length ?dir * entry_size) \<le> numBytes ?r"
    "numBytes ?r \<le> MAX_FILE_LENGTH cfg"
    using dn(3) assms(4-6) h(2) by auto
  have frw: "wf_file cfg (hdr fr) (sectors fs1)" using fr(3) w1 by (simp add: wf_file_def)
  have dist: "distinct (1 # own_sectors ?r)" using own(1) by simp
  obtain fs2 where 2: "Directory_WriteBack cfg ?dir fr fs1 = Some (fr, fs2)" "fs2 = fs1\<lparr>sectors := sectors fs2\<rparr>"
    "stored_dir cfg (sectors fs2) 1 ?r ?dir" "\<forall>s. s \<notin> nat ` set (data_list h) \<longrightarrow> sectors fs2 ! s = sectors fs1 ! s"
    using stored_dir_update [OF assms(1) s1 fr(2) frw dn(2) dl dist] by auto
  have eq2: "freeMapFile fs2 = fm" "directoryFile fs2 = fr" "createLock fs2 = False" using eq1 by (subst 2(2), simp)+
  have sm: "stored_map cfg fs2 b4"
  proof (rule dir_data_frame [OF 1(3) 2(2)])
    show "wf_sectors cfg (sectors fs2)" using 2(3) by (simp add: stored_dir_def stored_file_def wf_file_def)
    show "sectors fs2 ! nat t = sectors fs1 ! nat t" if "t \<in> set (data_list (hdr (freeMapFile fs1)))" for t
      using that own dm fmh(2) eq1(1) by (intro unchanged_outside [OF 2(4) dm(2)]) (auto simp: own_sectors_parts)
  qed
  have new: "FileSystem_new cfg True d = Some fs2"
  proof -
    have "fs2\<lparr>directoryFile := fr\<rparr> = fs2" using eq2(2) by simp
    then show ?thesis
      using b(1-3) m(1) h(1) d(1,2) mt 1(1) 2(1) eq1(2)
      by (simp add: FileSystem_new_def FreeMapSector_def DirectorySector_def FreeMapFileSize_def)
  qed
  have ready: "create_ready cfg fs2 b4 1 ?r ?dir"
    using assms(1,2) sm 2(3) dist own(1) mk fmh(2) eq2(1)
    by (auto simp: create_ready_def file_sectors_def own_sectors_parts)
  have look: "root_open cfg fs2 ?r"
    using fr(2,3) 2(3) eq2(2) by (simp add: root_open_def stored_dir_def stored_file_def wf_file_def)
  have "2046 - (data_count cfg 256 + header_count cfg 256 + data_count cfg ?N + header_count cfg ?N)
      \<le> int (card (free_bits b4))" using m(11) h(11) by linarith
  then show ?thesis using new ready eq2(3) look by (intro exI [of _ fs2] exI [of _ b4] exI [of _ ?r]) simp
qed

text \<open>
  C29. Formatting. On any disk of 2048 sectors the constructor succeeds, if the map and the
  root directory fit, and leaves a consistent file system: the map on disk marks the two
  fixed sectors and the sectors of the two files, the root directory is stored in sector 1
  and is empty, and every name without a slash resolves to it.
\<close>
theorem format_ready:
  assumes "sector_ok cfg" "ints_ok cfg" "wf_sectors cfg d" "0 < NumDirEntries cfg"
    and "DirectoryFileSize cfg = NumDirEntries cfg * int entry_size" "DirectoryFileSize cfg \<le> MAX_FILE_LENGTH cfg"
    and "256 \<le> MAX_FILE_LENGTH cfg"
    and "data_count cfg 256 + header_count cfg 256 + data_count cfg (DirectoryFileSize cfg)
      + header_count cfg (DirectoryFileSize cfg) \<le> 2046"
  shows "\<exists>fs b r. FileSystem_new cfg True d = Some fs \<and> \<not> createLock fs
    \<and> create_ready cfg fs b 1 r (Directory_new cfg (NumDirEntries cfg)) \<and> isdir r = 1
    \<and> 2046 - (data_count cfg 256 + header_count cfg 256 + data_count cfg (DirectoryFileSize cfg)
        + header_count cfg (DirectoryFileSize cfg)) \<le> int (card (free_bits b))
    \<and> (\<forall>p. slash \<notin> set p \<longrightarrow> FindDir cfg p fs = Some (1, p))"
proof -
  obtain fs b r where f: "FileSystem_new cfg True d = Some fs" "\<not> createLock fs"
    "create_ready cfg fs b 1 r (Directory_new cfg (NumDirEntries cfg))" "isdir r = 1"
    "2046 - (data_count cfg 256 + header_count cfg 256 + data_count cfg (DirectoryFileSize cfg)
        + header_count cfg (DirectoryFileSize cfg)) \<le> int (card (free_bits b))" "root_open cfg fs r"
    using format_ok [OF assms] by blast
  have "stored_dir cfg (sectors fs) 1 r (Directory_new cfg (NumDirEntries cfg))" using f(3) by (simp add: create_ready_def)
  then show ?thesis using f FindDir_root [OF f(6)] by blast
qed

subsection \<open>Instances\<close>

lemma tiny_counts: "sector_ok tiny_cfg" "ints_ok tiny_cfg" "NumDirEntries tiny_cfg = 3"
  "DirectoryFileSize tiny_cfg = 276" "data_count tiny_cfg 256 = 2" "data_count tiny_cfg 276 = 3"
  "header_count tiny_cfg 256 = 0" "header_count tiny_cfg 276 = 0"
  "data_count tiny_cfg 300 = 3" "header_count tiny_cfg 300 = 0"
proof -
  show "sector_ok tiny_cfg" by simp
  show "ints_ok tiny_cfg" unfolding ints_ok_def by (simp add: int32_def) (simp add: tiny_cfg_def)
  show "NumDirEntries tiny_cfg = 3" "DirectoryFileSize tiny_cfg = 276" by (simp_all add: tiny_cfg_def)
  show d: "data_count tiny_cfg 256 = 2" "data_count tiny_cfg 276 = 3" "data_count tiny_cfg 300 = 3"
    by (simp_all add: data_count_def divRoundUp_def cint_simps)
  show "header_count tiny_cfg 256 = 0" "header_count tiny_cfg 276 = 0" "header_count tiny_cfg 300 = 0"
    unfolding header_count_def d by (intro divRoundUp_neg; simp)+
qed

definition blank_disk :: "byte list list" where
  "blank_disk = replicate 2048 (replicate 128 0)"

theorem format_ready_witness:
  "\<exists>fs. FileSystem_new tiny_cfg True blank_disk = Some fs \<and> FindDir tiny_cfg [97] fs = Some (1, [97])"
proof -
  have w: "wf_sectors tiny_cfg blank_disk" by (simp add: wf_sectors_def blank_disk_def)
  have "slash \<notin> set [97]" by (simp add: slash_def)
  then show ?thesis
    using format_ready [OF tiny_counts(1,2) w] by (auto simp: tiny_counts entry_size_def)
qed

text \<open>A formatted tiny disk.\<close>

lemma tiny_formatted:
  "\<exists>fs b r. FileSystem_new tiny_cfg True blank_disk = Some fs \<and> \<not> createLock fs
    \<and> create_ready tiny_cfg fs b 1 r tiny_dir \<and> 2041 \<le> int (card (free_bits b))
    \<and> root_open tiny_cfg fs r"
proof -
  have w: "wf_sectors tiny_cfg blank_disk" by (simp add: wf_sectors_def blank_disk_def)
  have h: "0 < NumDirEntries tiny_cfg" "DirectoryFileSize tiny_cfg = NumDirEntries tiny_cfg * int entry_size"
    "DirectoryFileSize tiny_cfg \<le> MAX_FILE_LENGTH tiny_cfg" "256 \<le> MAX_FILE_LENGTH tiny_cfg"
    "data_count tiny_cfg 256 + header_count tiny_cfg 256 + data_count tiny_cfg (DirectoryFileSize tiny_cfg)
      + header_count tiny_cfg (DirectoryFileSize tiny_cfg) \<le> 2046"
    by (simp_all add: tiny_counts entry_size_def)
  obtain fs b r where "FileSystem_new tiny_cfg True blank_disk = Some fs" "\<not> createLock fs"
    "create_ready tiny_cfg fs b 1 r (Directory_new tiny_cfg (NumDirEntries tiny_cfg))"
    "2046 - (data_count tiny_cfg 256 + header_count tiny_cfg 256 + data_count tiny_cfg (DirectoryFileSize tiny_cfg)
        + header_count tiny_cfg (DirectoryFileSize tiny_cfg)) \<le> int (card (free_bits b))"
    "root_open tiny_cfg fs r"
    using format_ok [OF tiny_counts(1,2) w h] by blast
  then show ?thesis unfolding tiny_counts tiny_dir_def by (intro exI [of _ fs] exI [of _ b] exI [of _ r]) simp
qed

theorem create_file_witness:
  "\<exists>fs fs' dir'. FileSystem_new tiny_cfg True blank_disk = Some fs
    \<and> Create tiny_cfg [97] 300 fs = Some (NoError, fs') \<and> Directory_Find dir' [97] \<noteq> - 1
    \<and> (\<exists>r. stored_dir tiny_cfg (sectors fs') 1 r dir')"
proof -
  obtain fs b r where f: "FileSystem_new tiny_cfg True blank_disk = Some fs" "\<not> createLock fs"
    "create_ready tiny_cfg fs b 1 r tiny_dir" "2041 \<le> int (card (free_bits b))"
    "root_open tiny_cfg fs r"
    using tiny_formatted by blast
  have "stored_dir tiny_cfg (sectors fs) 1 r tiny_dir" "slash \<notin> set [97]" using f(3) by (simp_all add: create_ready_def slash_def)
  then have p: "FindDir tiny_cfg [97] fs = Some (1, [97])" using FindDir_root [OF f(5)] by blast
  have l: "int (length [97 :: byte]) < MaxFileNameSize tiny_cfg" by (simp add: tiny_cfg_def)
  have none: "Directory_Find tiny_dir [97] = - 1" using tiny_dir_facts(2) by (simp add: dir.lookup_spec)
  have room: "1 + data_count tiny_cfg 300 + header_count tiny_cfg 300 \<le> int (card (free_bits b))"
    using f(4) by (simp add: tiny_counts)
  have len: "(0::int) \<le> 300" "300 \<le> MAX_FILE_LENGTH tiny_cfg" by simp_all
  obtain fs' b' dir' s h where x: "Create tiny_cfg [97] 300 fs = Some (NoError, fs')"
    "create_ready tiny_cfg fs' b' 1 r dir'" "stored_file tiny_cfg (sectors fs') s h"
    "\<forall>nm. Directory_Find dir' nm = (if key nm = key [97] then s else Directory_Find tiny_dir nm)"
    using create_file [OF f(3,2) p l len none tiny_dir_facts(4) room] by blast
  have "Directory_Find dir' [97] \<noteq> - 1" using x(3,4) by (simp add: stored_file_def)
  then show ?thesis using f(1) x(1,2) by (auto simp: create_ready_def)
qed

lemma tiny_no_dir: "FindDir tiny_cfg [97, 47, 98] tiny_fs = Some (- 1, [47, 98])"
proof -
  have n: "Directory_new tiny_cfg (NumDirEntries tiny_cfg) = tiny_dir" by (simp add: tiny_dir_def tiny_counts)
  have df: "hdr (directoryFile tiny_fs) = tiny_hdr 0 []" by (simp add: tiny_fs_def)
  have e: "\<forall>e\<in>set tiny_dir. wf_entry e" using tiny_dir_facts(1) by (simp add: wf_dir_def)
  have "ReadAt tiny_cfg (tiny_hdr 0 []) k 0 d = Some []" for k d by (simp add: ReadAt_def)
  then have d: "Directory_FetchFrom tiny_cfg (tiny_hdr 0 []) (sectors tiny_fs) tiny_dir = Some tiny_dir"
    using table_roundtrip [OF e] by (simp add: Directory_FetchFrom_def blit_def)
  have dec: "decompname [97, 47, 98] = (True, [97], [47, 98])" by (simp add: decompname_def slash_def)
  have none: "Directory_Find tiny_dir [97] = - 1" using tiny_dir_facts(2) by (simp add: dir.lookup_spec)
  show ?thesis
    by (simp add: FindDir_def n df d FindDir_loop.simps [of _ _ "[97, 47, 98]"] dec none)
qed

lemma tiny_create_fails:
  "Create tiny_cfg [97, 47, 98] 10 tiny_fs = Some (InexistFileError, Release_create (tiny_fs\<lparr>createLock := True\<rparr>))"
  using tiny_no_dir by (simp add: Create_def Acquire_create_def copy_name_def FindDir_lock) (simp add: tiny_fs_def tiny_cfg_def)

theorem failed_calls_change_nothing_witness:
  "\<exists>fs'. Create tiny_cfg [97, 47, 98] 10 tiny_fs = Some (InexistFileError, fs') \<and> fs' = tiny_fs"
  using failed_calls_change_nothing tiny_create_fails by blast

end
