(* ===== verification/Nachos_List.thy ===== *)
theory Nachos_List
  imports Nachos_Prelude
begin

text \<open>
  The linked list of \<open>utility/list.h\<close>, with its elements in a heap: \<open>new\<close> takes the
  next unused address, \<open>delete\<close> frees one, and following a \<open>NULL\<close> or freed pointer has no
  value. Items are pointers; \<open>None\<close> is the \<open>NULL\<close> item.

  The loops follow pointers and may not end: they are partial functions, with \<open>None\<close> for a
  loop that does not return. \<open>is_list\<close> relates a list object to the sequence it stands
  for; the locale \<open>fifo_queue\<close> is what the kernel relies on.
\<close>

record ('k, 'a) ListElement =
  enext :: "nat option"
  ekey :: 'k
  eitem :: "'a option"

record ('k, 'a) List =
  heap :: "nat \<Rightarrow> ('k, 'a) ListElement option"
  brk :: nat
  lfirst :: "nat option"
  llast :: "nat option"

definition List_new :: "('k, 'a) List" where
  "List_new = \<lparr>heap = (\<lambda>_. None), brk = 0, lfirst = None, llast = None\<rparr>"

definition deref :: "('k, 'a) List \<Rightarrow> nat option \<Rightarrow> ('k, 'a) ListElement option" where
  "deref L p = Option.bind p (heap L)"

text \<open>\<open>p->next = q\<close>.\<close>

definition set_next :: "nat option \<Rightarrow> nat option \<Rightarrow> ('k, 'a) List \<Rightarrow> ('k, 'a) List option" where
  "set_next p q L = do { a \<leftarrow> p; e \<leftarrow> heap L a; Some (L\<lparr>heap := (heap L)(a \<mapsto> e\<lparr>enext := q\<rparr>)\<rparr>) }"

definition new_element :: "'a option \<Rightarrow> 'k \<Rightarrow> ('k, 'a) List \<Rightarrow> nat \<times> ('k, 'a) List" where
  "new_element itemPtr sortKey L =
     (brk L, L\<lparr>heap := (heap L)(brk L \<mapsto> \<lparr>enext = None, ekey = sortKey, eitem = itemPtr\<rparr>),
               brk := Suc (brk L)\<rparr>)"

definition IsEmpty :: "('k, 'a) List \<Rightarrow> bool" where
  "IsEmpty L \<longleftrightarrow> lfirst L = None"

definition Prepend :: "'a option \<Rightarrow> ('k::zero, 'a) List \<Rightarrow> ('k, 'a) List option" where
  "Prepend it L =
     (let (a, L1) = new_element it 0 L in
      if IsEmpty L then Some (L1\<lparr>lfirst := Some a, llast := Some a\<rparr>)
      else do { L2 \<leftarrow> set_next (Some a) (lfirst L) L1; Some (L2\<lparr>lfirst := Some a\<rparr>) })"

definition Append :: "'a option \<Rightarrow> ('k::zero, 'a) List \<Rightarrow> ('k, 'a) List option" where
  "Append it L =
     (let (a, L1) = new_element it 0 L in
      if IsEmpty L then Some (L1\<lparr>lfirst := Some a, llast := Some a\<rparr>)
      else do { L2 \<leftarrow> set_next (llast L) (Some a) L1; Some (L2\<lparr>llast := Some a\<rparr>) })"

text \<open>
  The loop of \<open>SortedInsert\<close>: \<open>ptr\<close> is the element behind which the new one goes; the
  result says whether it was linked there or the end was reached.
\<close>

partial_function (option) insert_loop ::
  "nat option \<Rightarrow> nat \<Rightarrow> 'k::linorder \<Rightarrow> ('k, 'a) List \<Rightarrow> (bool \<times> ('k, 'a) List) option" where
  "insert_loop ptr a sortKey L = do {
     e \<leftarrow> deref L ptr;
     (case enext e of
        None \<Rightarrow> Some (False, L)
      | Some q \<Rightarrow> do {
          n \<leftarrow> heap L q;
          if sortKey < ekey n
          then do { L1 \<leftarrow> set_next (Some a) (Some q) L; L2 \<leftarrow> set_next ptr (Some a) L1; Some (True, L2) }
          else insert_loop (Some q) a sortKey L }) }"

definition SortedInsert :: "'a option \<Rightarrow> 'k::linorder \<Rightarrow> ('k, 'a) List \<Rightarrow> ('k, 'a) List option" where
  "SortedInsert it sortKey L =
     (let (a, L1) = new_element it sortKey L in
      if IsEmpty L then Some (L1\<lparr>lfirst := Some a, llast := Some a\<rparr>)
      else do {
        f \<leftarrow> deref L (lfirst L);
        if sortKey < ekey f
        then do { L2 \<leftarrow> set_next (Some a) (lfirst L) L1; Some (L2\<lparr>lfirst := Some a\<rparr>) }
        else do {
          (done, L2) \<leftarrow> insert_loop (lfirst L) a sortKey L1;
          if done then Some L2
          else do { L3 \<leftarrow> set_next (llast L) (Some a) L2; Some (L3\<lparr>llast := Some a\<rparr>) } } })"

text \<open>
  The result is the item with the key that goes to \<open>*keyPtr\<close>, \<open>None\<close> for the \<open>NULL\<close> of
  an empty list.
\<close>

definition SortedRemove :: "('k, 'a) List \<Rightarrow> (('k \<times> 'a option) option \<times> ('k, 'a) List) option" where
  "SortedRemove L =
     (if IsEmpty L then Some (None, L)
      else do {
        a \<leftarrow> lfirst L;
        e \<leftarrow> heap L a;
        if lfirst L = enext e then None
        else (let L1 = (if lfirst L = llast L then L\<lparr>lfirst := None, llast := None\<rparr>
                        else L\<lparr>lfirst := enext e\<rparr>)
              in Some (Some (ekey e, eitem e), L1\<lparr>heap := (heap L1)(a := None)\<rparr>)) })"

definition List_Remove :: "('k, 'a) List \<Rightarrow> ('a option \<times> ('k, 'a) List) option" where
  "List_Remove L = do {
     (r, L') \<leftarrow> SortedRemove L;
     Some (case r of None \<Rightarrow> None | Some (k, it) \<Rightarrow> it, L') }"

partial_function (option) search_loop :: "nat option \<Rightarrow> 'a option \<Rightarrow> ('k, 'a) List \<Rightarrow> bool option" where
  "search_loop element it L = do {
     e \<leftarrow> deref L element;
     if element \<noteq> llast L \<and> eitem e \<noteq> it then search_loop (enext e) it L
     else Some (eitem e = it) }"

definition Search :: "'a option \<Rightarrow> ('k, 'a) List \<Rightarrow> bool option" where
  "Search it L = (if IsEmpty L then Some False else search_loop (lfirst L) it L)"

partial_function (option) RemoveItem :: "'a option \<Rightarrow> ('k::zero, 'a) List \<Rightarrow> ('k, 'a) List option" where
  "RemoveItem it L = do {
     (temp, L1) \<leftarrow> List_Remove L;
     if temp \<noteq> it then do { L2 \<leftarrow> Append temp L1; RemoveItem it L2 } else Some L1 }"

text \<open>The items in order: what \<open>Mapcar\<close> visits.\<close>

partial_function (option) mapcar_loop :: "nat option \<Rightarrow> ('k, 'a) List \<Rightarrow> 'a option list \<Rightarrow> 'a option list option" where
  "mapcar_loop ptr L acc =
     (case ptr of None \<Rightarrow> Some acc
      | Some a \<Rightarrow> do { e \<leftarrow> heap L a; mapcar_loop (enext e) L (acc @ [eitem e]) })"

definition Mapcar :: "('k, 'a) List \<Rightarrow> 'a option list option" where
  "Mapcar L = mapcar_loop (lfirst L) L []"

subsection \<open>The sequence a list object stands for\<close>

text \<open>The elements at the addresses \<open>as\<close>, linked from \<open>p\<close> to \<open>q\<close>.\<close>

fun chain_from :: "(nat \<Rightarrow> ('k, 'a) ListElement option) \<Rightarrow> nat option \<Rightarrow> nat list \<Rightarrow> nat option \<Rightarrow> bool" where
  "chain_from h p [] q \<longleftrightarrow> p = q"
| "chain_from h p (a # as) q \<longleftrightarrow> p = Some a \<and> (\<exists>e. h a = Some e \<and> chain_from h (enext e) as q)"

definition cell :: "(nat \<Rightarrow> ('k, 'a) ListElement option) \<Rightarrow> nat \<Rightarrow> 'k \<times> 'a option" where
  "cell h a = (ekey (the (h a)), eitem (the (h a)))"

definition at :: "('k, 'a) List \<Rightarrow> nat list \<Rightarrow> bool" where
  "at L as \<longleftrightarrow> chain_from (heap L) (lfirst L) as None \<and> distinct as
     \<and> (\<forall>a\<in>dom (heap L). a < brk L) \<and> llast L = (if as = [] then None else Some (last as))"

definition is_list :: "('k, 'a) List \<Rightarrow> ('k \<times> 'a option) list \<Rightarrow> bool" where
  "is_list L xs \<longleftrightarrow> (\<exists>as. at L as \<and> xs = map (cell (heap L)) as)"

lemma chain_append: "chain_from h p (as @ bs) q \<longleftrightarrow> (\<exists>r. chain_from h p as r \<and> chain_from h r bs q)"
  by (induction as arbitrary: p) auto

lemma chain_frame: "chain_from h p as q \<Longrightarrow> (\<And>a. a \<in> set as \<Longrightarrow> h' a = h a) \<Longrightarrow> chain_from h' p as q"
  by (induction as arbitrary: p) auto

lemma chain_dom: "chain_from h p as q \<Longrightarrow> set as \<subseteq> dom h"
  by (induction as arbitrary: p) auto

lemma map_cell_frame: "(\<And>a. a \<in> set as \<Longrightarrow> h' a = h a) \<Longrightarrow> map (cell h') as = map (cell h) as"
  by (simp add: cell_def)

lemma is_list_new: "is_list List_new []"
  by (simp add: is_list_def at_def List_new_def)

lemma IsEmpty_correct: "is_list L xs \<Longrightarrow> IsEmpty L \<longleftrightarrow> xs = []"
proof -
  assume "is_list L xs"
  then obtain as where "at L as" "xs = map (cell (heap L)) as" by (auto simp: is_list_def)
  then show ?thesis by (cases as) (auto simp: at_def IsEmpty_def)
qed

lemma at_facts:
  assumes "at L as"
  shows "chain_from (heap L) (lfirst L) as None" "distinct as" "set as \<subseteq> dom (heap L)" "brk L \<notin> set as"
proof -
  show c: "chain_from (heap L) (lfirst L) as None" and "distinct as" using assms by (simp_all add: at_def)
  show d: "set as \<subseteq> dom (heap L)" by (rule chain_dom [OF c])
  have "\<forall>a\<in>dom (heap L). a < brk L" using assms by (simp add: at_def)
  then show "brk L \<notin> set as" using d by blast
qed

text \<open>Linking one new element \<open>a\<close> between \<open>as\<close> and \<open>bs\<close>.\<close>

lemma link_new:
  assumes "at L (as @ bs)" "a = brk L" "enext e = (case bs of [] \<Rightarrow> None | b # _ \<Rightarrow> Some b)"
    and "h' = (if as = [] then (heap L)(a \<mapsto> e)
               else ((heap L)(a \<mapsto> e))(last as \<mapsto> (the (heap L (last as)))\<lparr>enext := Some a\<rparr>))"
    and "L' = L\<lparr>heap := h', brk := Suc a, lfirst := (if as = [] then Some a else lfirst L),
                llast := (if bs = [] then Some a else llast L)\<rparr>"
  shows "at L' (as @ a # bs)"
    "map (cell (heap L')) (as @ a # bs)
      = map (cell (heap L)) as @ (ekey e, eitem e) # map (cell (heap L)) bs"
proof -
  have fresh: "a \<notin> set (as @ bs)" using at_facts(4) [OF assms(1)] assms(2) by simp
  obtain r where r: "chain_from (heap L) (lfirst L) as r" "chain_from (heap L) r bs None"
    using assms(1) by (auto simp: at_def chain_append)
  have rb: "r = enext e" using r(2) assms(3) by (cases bs) auto
  have dist: "distinct (as @ bs)" using assms(1) by (simp add: at_def)
  have la: "last as \<in> set as" if "as \<noteq> []" using that by simp
  have hb: "h' x = heap L x" if "x \<in> set bs" for x
  proof -
    have "x \<noteq> a" "x \<notin> set as" using that fresh dist by auto
    then have "x \<noteq> a" "as \<noteq> [] \<Longrightarrow> x \<noteq> last as" using la by metis+
    then show ?thesis unfolding assms(4) by simp
  qed
  have ha: "h' a = Some e"
  proof -
    have "as \<noteq> [] \<Longrightarrow> a \<noteq> last as" using fresh la by auto
    then show ?thesis unfolding assms(4) by simp
  qed
  have "chain_from h' r bs None" by (rule chain_frame [OF r(2)]) (rule hb)
  then have tail: "chain_from h' (Some a) (a # bs) None" using ha rb by simp
  show "at L' (as @ a # bs)"
  proof (cases "as = []")
    case True
    have "\<forall>z\<in>dom h'. z < Suc a"
      using assms(1,2) True unfolding assms(4) by (auto simp: at_def less_Suc_eq)
    moreover have "llast L = (if bs = [] then None else Some (last bs))"
      using assms(1) True by (simp add: at_def)
    ultimately show ?thesis
      using tail True fresh dist unfolding assms(5) at_def by simp
  next
    case False
    then obtain bs' x where as: "as = bs' @ [x]" by (metis append_butlast_last_id)
    obtain y where y: "chain_from (heap L) (lfirst L) bs' (Some x)" "heap L x = Some y"
      using r(1) unfolding as by (auto simp: chain_append)
    have h': "h' = ((heap L)(a \<mapsto> e))(x \<mapsto> y\<lparr>enext := Some a\<rparr>)" using assms(4) y as by simp
    have "chain_from h' (lfirst L) bs' (Some x)"
      using fresh dist as by (intro chain_frame [OF y(1)]) (auto simp: h')
    moreover have "h' x = Some (y\<lparr>enext := Some a\<rparr>)" by (simp add: h')
    ultimately have "chain_from h' (lfirst L) (as @ a # bs) None"
      using tail unfolding as by (auto simp: chain_append)
    moreover have "\<forall>z\<in>dom h'. z < Suc a"
      using assms(1,2) y(2) unfolding h' by (auto simp: at_def less_Suc_eq)
    ultimately show ?thesis
      using False assms(1,5) fresh dist by (auto simp: at_def)
  qed
  have "cell h' x = cell (heap L) x" if "x \<in> set as" for x
  proof -
    have ne: "x \<noteq> a" "as \<noteq> []" using that fresh by auto
    have "last as \<in> dom (heap L)" using la [OF ne(2)] chain_dom [OF r(1)] by blast
    with ne have "x \<noteq> a" "as \<noteq> []" "last as \<in> dom (heap L)" by simp_all
    then show ?thesis unfolding assms(4) by (auto simp: cell_def)
  qed
  moreover have "cell h' a = (ekey e, eitem e)" by (simp add: cell_def ha)
  ultimately show "map (cell (heap L')) (as @ a # bs)
      = map (cell (heap L)) as @ (ekey e, eitem e) # map (cell (heap L)) bs"
    using hb assms(5) by (simp add: cell_def)
qed

subsection \<open>The operations on sequences\<close>

lemma is_listE:
  assumes "is_list L xs"
  obtains as where "at L as" "xs = map (cell (heap L)) as"
  using assms by (auto simp: is_list_def)

lemma at_last: "at L as \<Longrightarrow> as \<noteq> [] \<Longrightarrow> llast L = Some (last as) \<and> (\<exists>e. heap L (last as) = Some e)
    \<and> last as \<noteq> brk L \<and> lfirst L = Some (hd as) \<and> lfirst L \<noteq> None"
proof -
  assume a: "at L as" "as \<noteq> []"
  have "last as \<in> dom (heap L)" "last as \<noteq> brk L"
    using at_facts(3,4) [OF a(1)] last_in_set [OF a(2)] by auto
  moreover have "lfirst L = Some (hd as)" using at_facts(1) [OF a(1)] a(2) by (cases as) auto
  moreover have "llast L = Some (last as)" using a by (simp add: at_def)
  ultimately show ?thesis by auto
qed

lemma at_empty: "at L as \<Longrightarrow> IsEmpty L \<longleftrightarrow> as = []"
  by (cases as) (auto simp: at_def IsEmpty_def)

lemma Append_correct:
  assumes "is_list L xs"
  shows "\<exists>L'. Append it L = Some L' \<and> is_list L' (xs @ [(0, it)])"
proof -
  obtain as where as: "at L as" "xs = map (cell (heap L)) as" using assms by (rule is_listE)
  let ?e = "\<lparr>enext = None, ekey = 0, eitem = it\<rparr>" and ?a = "brk L"
  let ?h = "if as = [] then (heap L)(?a \<mapsto> ?e)
    else ((heap L)(?a \<mapsto> ?e))(last as \<mapsto> (the (heap L (last as)))\<lparr>enext := Some ?a\<rparr>)"
  let ?L = "L\<lparr>heap := ?h, brk := Suc ?a, lfirst := (if as = [] then Some ?a else lfirst L), llast := Some ?a\<rparr>"
  have "Append it L = Some ?L"
    using as(1) at_empty [OF as(1)] at_last [OF as(1)]
    by (cases "as = []") (auto simp: Append_def new_element_def set_next_def)
  moreover have "at ?L (as @ [?a])" "map (cell (heap ?L)) (as @ [?a]) = xs @ [(0, it)]"
    using link_new [of L as "[]" ?a ?e ?h ?L] as by simp_all
  ultimately show ?thesis by (metis is_list_def)
qed

lemma Prepend_correct:
  assumes "is_list L xs"
  shows "\<exists>L'. Prepend it L = Some L' \<and> is_list L' ((0, it) # xs)"
proof -
  obtain as where as: "at L as" "xs = map (cell (heap L)) as" using assms by (rule is_listE)
  let ?e = "\<lparr>enext = lfirst L, ekey = 0, eitem = it\<rparr>" and ?a = "brk L"
  let ?L = "L\<lparr>heap := (heap L)(?a \<mapsto> ?e), brk := Suc ?a, lfirst := Some ?a,
      llast := (if as = [] then Some ?a else llast L)\<rparr>"
  have lf: "lfirst L = (case as of [] \<Rightarrow> None | b # _ \<Rightarrow> Some b)"
    using as(1) by (cases as) (auto simp: at_def)
  have "Prepend it L = Some ?L"
    using at_empty [OF as(1)] lf by (cases as) (auto simp: Prepend_def new_element_def set_next_def)
  moreover have "at ?L (?a # as)" "map (cell (heap ?L)) (?a # as) = (0, it) # xs"
    using link_new [of L "[]" as ?a ?e "(heap L)(?a \<mapsto> ?e)" ?L] as lf by simp_all
  ultimately show ?thesis by (metis is_list_def)
qed

lemma insert_loop_correct:
  assumes "chain_from (heap L) (Some p) (p # cs) None" "a \<notin> set (p # cs)" "heap L a = Some e" "distinct (p # cs)"
  shows "insert_loop (Some p) a k L =
    (let as' = takeWhile (\<lambda>c. \<not> k < fst (cell (heap L) c)) cs; bs' = dropWhile (\<lambda>c. \<not> k < fst (cell (heap L) c)) cs;
         q = last (p # as')
     in if bs' = [] then Some (False, L)
        else Some (True, L\<lparr>heap := ((heap L)(a \<mapsto> e\<lparr>enext := Some (hd bs')\<rparr>))
               (q \<mapsto> (the (heap L q))\<lparr>enext := Some a\<rparr>)\<rparr>))"
  using assms
proof (induction cs arbitrary: p)
  case Nil
  then show ?case by (subst insert_loop.simps) (auto simp: deref_def)
next
  case (Cons c cs)
  obtain ep ec where ep: "heap L p = Some ep" "enext ep = Some c" "heap L c = Some ec"
    using Cons.prems(1) by auto
  show ?case
  proof (cases "k < ekey ec")
    case True
    then show ?thesis
      using ep Cons.prems(2-4)
      by (subst insert_loop.simps) (auto simp: deref_def cell_def set_next_def)
  next
    case False
    have "insert_loop (Some p) a k L = insert_loop (Some c) a k L"
      using ep False by (subst insert_loop.simps) (simp add: deref_def)
    then show ?thesis
      using Cons.IH [of c] Cons.prems ep False by (simp add: cell_def Let_def)
  qed
qed

text \<open>The new element goes before the first one with a greater key.\<close>

definition sorted_place :: "'k::linorder \<Rightarrow> 'b \<Rightarrow> ('k \<times> 'b) list \<Rightarrow> ('k \<times> 'b) list" where
  "sorted_place k it xs =
     takeWhile (\<lambda>x. \<not> k < fst x) xs @ (k, it) # dropWhile (\<lambda>x. \<not> k < fst x) xs"

lemma SortedInsert_correct:
  assumes "is_list L xs"
  shows "\<exists>L'. SortedInsert it k L = Some L' \<and> is_list L' (sorted_place k it xs)"
proof -
  obtain as where as: "at L as" "xs = map (cell (heap L)) as" using assms by (rule is_listE)
  let ?P = "\<lambda>c. \<not> k < fst (cell (heap L) c)"
  let ?a1 = "takeWhile ?P as" and ?b1 = "dropWhile ?P as" and ?a = "brk L"
  let ?e = "\<lparr>enext = (case ?b1 of [] \<Rightarrow> None | b # _ \<Rightarrow> Some b), ekey = k, eitem = it\<rparr>"
  let ?h = "if ?a1 = [] then (heap L)(?a \<mapsto> ?e)
    else ((heap L)(?a \<mapsto> ?e))(last ?a1 \<mapsto> (the (heap L (last ?a1)))\<lparr>enext := Some ?a\<rparr>)"
  let ?L = "L\<lparr>heap := ?h, brk := Suc ?a, lfirst := (if ?a1 = [] then Some ?a else lfirst L),
      llast := (if ?b1 = [] then Some ?a else llast L)\<rparr>"
  have at': "at L (?a1 @ ?b1)" using as(1) by simp
  have "SortedInsert it k L = Some ?L"
  proof (cases as)
    case Nil
    then show ?thesis using at_empty [OF as(1)] by (simp add: SortedInsert_def new_element_def)
  next
    case (Cons p cs)
    obtain ep where ep: "heap L p = Some ep" "lfirst L = Some p" using as(1) Cons by (auto simp: at_def)
    have ne: "\<not> IsEmpty L" using at_empty [OF as(1)] Cons by simp
    show ?thesis
    proof (cases "k < ekey ep")
      case True
      then show ?thesis
        using ep ne Cons by (simp add: SortedInsert_def new_element_def deref_def set_next_def cell_def)
    next
      case False
      let ?L1 = "L\<lparr>heap := (heap L)(?a \<mapsto> \<lparr>enext = None, ekey = k, eitem = it\<rparr>), brk := Suc ?a\<rparr>"
      have fr: "?a \<notin> set as" "set as \<subseteq> dom (heap L)" "distinct as"
        using at_facts [OF as(1)] by simp_all
      have ch: "chain_from (heap ?L1) (Some p) (p # cs) None"
        unfolding Cons [symmetric] ep(2) [symmetric] using fr(1)
        by (intro chain_frame [OF at_facts(1) [OF as(1)]]) auto
      have cl: "cell (heap ?L1) c = cell (heap L) c" if "c \<in> set as" for c
        using that fr(1) by (auto simp: cell_def)
      have tw: "takeWhile (\<lambda>c. \<not> k < fst (cell (heap ?L1) c)) cs = takeWhile ?P cs"
        "dropWhile (\<lambda>c. \<not> k < fst (cell (heap ?L1) c)) cs = dropWhile ?P cs"
        using cl Cons by (auto intro!: takeWhile_cong dropWhile_cong)
      have pk: "?P p" using False ep by (simp add: cell_def)
      then have sp: "?a1 = p # takeWhile ?P cs" "?b1 = dropWhile ?P cs" using Cons by simp_all
      have lq: "last ?a1 \<in> set as" using sp by (metis last_in_set list.distinct(1) set_takeWhileD)
      then have lq': "last ?a1 \<noteq> ?a" using fr(1) by auto
      have lp: "insert_loop (Some p) ?a k ?L1 =
        (if ?b1 = [] then Some (False, ?L1)
         else Some (True, ?L1\<lparr>heap := ((heap ?L1)(?a \<mapsto> \<lparr>enext = Some (hd ?b1), ekey = k, eitem = it\<rparr>))
               (last ?a1 \<mapsto> (the (heap L (last ?a1)))\<lparr>enext := Some ?a\<rparr>)\<rparr>))"
        using insert_loop_correct [OF ch, of ?a "\<lparr>enext = None, ekey = k, eitem = it\<rparr>" k] fr Cons lq'
        unfolding tw sp by (simp add: Let_def)
      have ll: "llast L = Some (last as)" "last as \<noteq> ?a" "last as \<in> dom (heap L)"
        using at_last [OF as(1)] Cons by auto
      show ?thesis
      proof (cases "?b1 = []")
        case True
        then have a1: "?a1 = as" by (metis append_Nil2 takeWhile_dropWhile_id)
        let ?h0 = "((heap L)(?a \<mapsto> \<lparr>enext = None, ekey = k, eitem = it\<rparr>))
            (last as \<mapsto> (the (heap L (last as)))\<lparr>enext := Some ?a\<rparr>)"
        have e0: "?L = L\<lparr>heap := ?h0, brk := Suc ?a, llast := Some ?a\<rparr>"
          unfolding a1 True using Cons by (cases L) simp
        have lp0: "insert_loop (Some p) ?a k ?L1 = Some (False, ?L1)" using lp True by simp
        show ?thesis
          unfolding e0 using False ne ep lp0 ll
          by (auto simp: SortedInsert_def new_element_def deref_def set_next_def)
      next
        case b1: False
        let ?h1 = "((heap L)(?a \<mapsto> \<lparr>enext = Some (hd ?b1), ekey = k, eitem = it\<rparr>))
            (last ?a1 \<mapsto> (the (heap L (last ?a1)))\<lparr>enext := Some ?a\<rparr>)"
        have hd: "(case ?b1 of [] \<Rightarrow> None | b # _ \<Rightarrow> Some b) = Some (hd ?b1)" using b1 by (cases ?b1) simp_all
        have ane: "?a1 \<noteq> []" using sp(1) by simp
        have e1: "?L = L\<lparr>heap := ?h1, brk := Suc ?a\<rparr>"
          unfolding hd if_not_P [OF b1] if_not_P [OF ane] by (cases L) simp
        have lp1: "insert_loop (Some p) ?a k ?L1 = Some (True, L\<lparr>heap := ?h1, brk := Suc ?a\<rparr>)"
          unfolding lp if_not_P [OF b1] by simp
        show ?thesis
          unfolding e1 using False ne ep lp1 by (simp add: SortedInsert_def new_element_def deref_def)
      qed
    qed
  qed
  moreover have "at ?L (?a1 @ ?a # ?b1)"
    "map (cell (heap ?L)) (?a1 @ ?a # ?b1) = map (cell (heap L)) ?a1 @ (k, it) # map (cell (heap L)) ?b1"
    using link_new [OF at', of ?a ?e ?h ?L] by simp_all
  moreover have "map (cell (heap L)) ?a1 = takeWhile (\<lambda>x. \<not> k < fst x) xs"
    "map (cell (heap L)) ?b1 = dropWhile (\<lambda>x. \<not> k < fst x) xs"
    by (simp_all add: as(2) takeWhile_map dropWhile_map o_def)
  ultimately show ?thesis by (metis is_list_def sorted_place_def)
qed

lemma SortedRemove_correct:
  assumes "is_list L ((k, it) # xs)"
  shows "\<exists>L'. SortedRemove L = Some (Some (k, it), L') \<and> is_list L' xs"
proof -
  obtain a as where as: "at L (a # as)" "(k, it) = cell (heap L) a" "xs = map (cell (heap L)) as"
    using assms by (auto simp: is_list_def)
  note f = at_facts [OF as(1)]
  obtain e where e: "heap L a = Some e" "lfirst L = Some a" "chain_from (heap L) (enext e) as None"
    "k = ekey e" "it = eitem e"
    using f(1) as(2) by (auto simp: cell_def)
  have ne: "lfirst L \<noteq> enext e" using e(2,3) f(2) by (cases as) auto
  have one: "lfirst L = llast L \<longleftrightarrow> as = []"
    using as(1) f(2) e(2) last_in_set [of as] by (auto simp: at_def)
  let ?L1 = "if as = [] then L\<lparr>lfirst := None, llast := None\<rparr> else L\<lparr>lfirst := enext e\<rparr>"
  let ?L = "?L1\<lparr>heap := (heap L)(a := None)\<rparr>"
  have "SortedRemove L = Some (Some (k, it), ?L)"
    using e ne one by (simp add: SortedRemove_def IsEmpty_def)
  moreover have "chain_from ((heap L)(a := None)) (enext e) as None"
    using f(2) by (intro chain_frame [OF e(3)]) auto
  then have "at ?L as" using as(1) e(3) f(2) by (auto simp: at_def)
  moreover have "xs = map (cell (heap ?L)) as" using as(3) f(2) by (auto simp: cell_def)
  ultimately show ?thesis by (metis is_list_def)
qed

lemma SortedRemove_empty: "is_list L [] \<Longrightarrow> SortedRemove L = Some (None, L)"
  using IsEmpty_correct [of L "[]"] by (simp add: SortedRemove_def)

lemma List_Remove_correct:
  "is_list L [] \<Longrightarrow> List_Remove L = Some (None, L)"
  "is_list L ((k, it) # xs) \<Longrightarrow> \<exists>L'. List_Remove L = Some (it, L') \<and> is_list L' xs"
  using SortedRemove_correct [of L k it xs] by (auto simp: List_Remove_def SortedRemove_empty)

lemma search_loop_correct:
  assumes "chain_from (heap L) (Some a) (a # as) None" "llast L = Some (last (a # as))" "distinct (a # as)"
  shows "search_loop (Some a) it L = Some (it \<in> snd ` set (map (cell (heap L)) (a # as)))"
  using assms
proof (induction as arbitrary: a)
  case Nil
  then show ?case by (subst search_loop.simps) (auto simp: deref_def cell_def)
next
  case (Cons b as)
  obtain e where e: "heap L a = Some e" "enext e = Some b" using Cons.prems(1) by auto
  have "a \<noteq> last (b # as)" using Cons.prems(3) by (metis distinct.simps(2) last_in_set list.distinct(1))
  then have nl: "Some a \<noteq> llast L" using Cons.prems(2) by simp
  have IH: "search_loop (Some b) it L = Some (it \<in> snd ` set (map (cell (heap L)) (b # as)))"
    using Cons.IH [of b] Cons.prems e by simp
  show ?case
    using e nl IH by (subst search_loop.simps) (auto simp: deref_def cell_def)
qed

lemma Search_correct:
  assumes "is_list L xs"
  shows "Search it L = Some (it \<in> snd ` set xs)"
proof -
  obtain as where as: "at L as" "xs = map (cell (heap L)) as" using assms by (rule is_listE)
  show ?thesis
  proof (cases as)
    case Nil
    then show ?thesis using as at_empty [OF as(1)] by (simp add: Search_def)
  next
    case (Cons a bs)
    then have "lfirst L = Some a" "\<not> IsEmpty L" "llast L = Some (last (a # bs))"
      using as(1) at_empty [OF as(1)] by (auto simp: at_def)
    then show ?thesis
      using search_loop_correct [of L a bs it] at_facts(1,2) [OF as(1)] Cons as(2) by (simp add: Search_def)
  qed
qed

text \<open>
  \<open>RemoveItem\<close> rotates the list: what was before the item goes to the end, and loses its
  keys.
\<close>

lemma RemoveItem_correct:
  assumes "is_list L (ys @ (k, it) # zs)" "it \<notin> snd ` set ys"
  shows "\<exists>L'. RemoveItem it L = Some L' \<and> is_list L' (zs @ map (\<lambda>y. (0, snd y)) ys)"
  using assms
proof (induction ys arbitrary: L zs)
  case Nil
  then obtain L' where "List_Remove L = Some (it, L')" "is_list L' zs"
    using List_Remove_correct(2) [of L k it zs] by auto
  then show ?case by (subst RemoveItem.simps) auto
next
  case (Cons y ys)
  obtain ky iy where y: "y = (ky, iy)" by (cases y)
  obtain L1 where L1: "List_Remove L = Some (iy, L1)" "is_list L1 (ys @ (k, it) # zs)"
    using List_Remove_correct(2) [of L ky iy "ys @ (k, it) # zs"] Cons.prems(1) y by auto
  obtain L2 where L2: "Append iy L1 = Some L2" "is_list L2 (ys @ (k, it) # zs @ [(0, iy)])"
    using Append_correct [OF L1(2), of iy] by auto
  have "iy \<noteq> it" "it \<notin> snd ` set ys" using Cons.prems(2) y by auto
  then show ?case
    using Cons.IH [OF L2(2)] L1(1) L2(1) y by (subst RemoveItem.simps) auto
qed

text \<open>When the item is not on the list, the loop never ends.\<close>

lemma RemoveItem_returns:
  "RemoveItem (it :: 'a option) (L :: ('k::zero, 'a) List) = Some L' \<Longrightarrow> \<forall>xs. is_list L xs \<longrightarrow> it \<noteq> None \<longrightarrow> it \<in> snd ` set xs"
proof (erule RemoveItem.raw_induct [rotated], intro allI impI)
  fix R and it :: "'a option" and L L' :: "('k, 'a) List" and xs
  assume 1: "\<And>it L L'. R it L = Some L' \<Longrightarrow> \<forall>xs. is_list L xs \<longrightarrow> it \<noteq> None \<longrightarrow> it \<in> snd ` set xs"
    "(do { (temp, L1) \<leftarrow> List_Remove L;
       if temp \<noteq> it then do { L2 \<leftarrow> Append temp L1; R it L2 } else Some L1 }) = Some L'"
    "is_list L xs" "it \<noteq> None"
  obtain temp L1 where r: "List_Remove L = Some (temp, L1)"
    "(if temp \<noteq> it then do { L2 \<leftarrow> Append temp L1; R it L2 } else Some L1) = Some L'"
    using 1(2) by (auto split: bind_splits)
  show "it \<in> snd ` set xs"
  proof (cases xs)
    case Nil
    then have "temp = None" "L1 = L" using List_Remove_correct(1) [of L] 1(3) r(1) by simp_all
    moreover obtain L2 where "Append temp L1 = Some L2" "is_list L2 [(0, None)]"
      using Append_correct [of L1 "[]" None] 1(3) Nil calculation by auto
    ultimately have "R it L2 = Some L'" "is_list L2 [(0, None)]" using r(2) 1(4) by (auto split: if_splits)
    then have "it \<in> snd ` set [(0 :: 'k, None :: 'a option)]" using 1(1) 1(4) by blast
    then show ?thesis using 1(4) by simp
  next
    case (Cons x ys)
    obtain k i where x: "x = (k, i)" by (cases x)
    obtain L1' where "List_Remove L = Some (i, L1')" "is_list L1' ys"
      using List_Remove_correct(2) [of L k i ys] 1(3) Cons x by auto
    then have t: "temp = i" "is_list L1 ys" using r(1) by simp_all
    show ?thesis
    proof (cases "i = it")
      case True
      then show ?thesis using Cons x by simp
    next
      case False
      obtain L2 where "Append i L1 = Some L2" "is_list L2 (ys @ [(0, i)])"
        using Append_correct [OF t(2)] by blast
      then have "R it L2 = Some L'" "is_list L2 (ys @ [(0, i)])" using r(2) t(1) False by simp_all
      then have "it \<in> snd ` set (ys @ [(0, i)])" using 1(1) 1(4) by blast
      then show ?thesis using Cons x False by auto
    qed
  qed
qed

lemma mapcar_loop_correct:
  "chain_from (heap L) p as None \<Longrightarrow> mapcar_loop p L acc = Some (acc @ map (snd \<circ> cell (heap L)) as)"
proof (induction as arbitrary: p acc)
  case Nil
  then show ?case by (subst mapcar_loop.simps) simp
next
  case (Cons a as)
  then show ?case by (subst mapcar_loop.simps) (auto simp: cell_def)
qed

lemma Mapcar_correct: "is_list L xs \<Longrightarrow> Mapcar L = Some (map snd xs)"
  using mapcar_loop_correct at_facts(1) by (fastforce simp: is_list_def Mapcar_def)

subsection \<open>The interface of a queue\<close>

locale fifo_queue =
  fixes rep :: "'q \<Rightarrow> 'x option list \<Rightarrow> bool"
    and new :: 'q
    and append :: "'x option \<Rightarrow> 'q \<Rightarrow> 'q option"
    and remove :: "'q \<Rightarrow> ('x option \<times> 'q) option"
    and is_empty :: "'q \<Rightarrow> bool"
  assumes rep_new: "rep new []"
    and rep_append: "rep q xs \<Longrightarrow> \<exists>q'. append x q = Some q' \<and> rep q' (xs @ [x])"
    and rep_remove: "rep q (x # xs) \<Longrightarrow> \<exists>q'. remove q = Some (x, q') \<and> rep q' xs"
    and rep_remove_empty: "rep q [] \<Longrightarrow> remove q = Some (None, q)"
    and rep_is_empty: "rep q xs \<Longrightarrow> is_empty q \<longleftrightarrow> xs = []"
begin

definition append_all :: "'x option list \<Rightarrow> 'q \<Rightarrow> 'q option" where
  "append_all xs = foldM append xs"

definition drain :: "nat \<Rightarrow> 'q \<Rightarrow> ('x option list \<times> 'q) option" where
  "drain n q = foldM (\<lambda>_ (out, q). do { (x, q') \<leftarrow> remove q; Some (out @ [x], q') }) [0..<n] ([], q)"

lemma append_all_rep: "rep q xs \<Longrightarrow> \<exists>q'. append_all ys q = Some q' \<and> rep q' (xs @ ys)"
proof (induction ys arbitrary: q xs)
  case Nil
  then show ?case by (simp add: append_all_def)
next
  case (Cons y ys)
  obtain q1 where "append y q = Some q1" "rep q1 (xs @ [y])" using rep_append [OF Cons.prems] by blast
  then show ?case using Cons.IH [of q1 "xs @ [y]"] by (auto simp: append_all_def)
qed

lemma drain_rep: "rep q (xs @ ys) \<Longrightarrow> \<exists>q'. drain (length xs) q = Some (xs, q') \<and> rep q' ys"
proof (induction xs arbitrary: ys rule: rev_induct)
  case Nil
  then show ?case by (simp add: drain_def)
next
  case (snoc x xs)
  then obtain q1 where "drain (length xs) q = Some (xs, q1)" "rep q1 (x # ys)" by auto
  then show ?case using rep_remove [of q1 x ys] by (auto simp: drain_def foldM_append)
qed

lemma fifo_order: "\<exists>q q'. append_all xs new = Some q \<and> drain (length xs) q = Some (xs, q') \<and> is_empty q'"
proof -
  obtain q where q: "append_all xs new = Some q" "rep q xs" using append_all_rep [OF rep_new] by auto
  obtain q' where "drain (length xs) q = Some (xs, q')" "rep q' []" using drain_rep [of q xs "[]"] q(2) by auto
  then show ?thesis using q(1) rep_is_empty by blast
qed

end

definition holds :: "('k, 'a) List \<Rightarrow> 'a option list \<Rightarrow> bool" where
  "holds L its \<longleftrightarrow> (\<exists>xs. is_list L xs \<and> its = map snd xs)"

interpretation listq: fifo_queue holds "List_new :: (int, 'a) List" Append List_Remove IsEmpty
proof unfold_locales
  fix q :: "(int, 'a) List" and x xs
  show "holds (List_new :: (int, 'a) List) []" using is_list_new by (auto simp: holds_def)
  show "\<exists>q'. Append x q = Some q' \<and> holds q' (xs @ [x])" if "holds q xs"
    using that Append_correct [of q _ x] by (fastforce simp: holds_def)
  show "\<exists>q'. List_Remove q = Some (x, q') \<and> holds q' xs" if "holds q (x # xs)"
    using that List_Remove_correct(2) [of q _ x] by (fastforce simp: holds_def)
  show "List_Remove q = Some (None, q)" if "holds q []"
    using that List_Remove_correct(1) by (auto simp: holds_def)
  show "IsEmpty q \<longleftrightarrow> xs = []" if "holds q xs"
    using that IsEmpty_correct by (auto simp: holds_def)
qed

subsection \<open>Properties\<close>

lemma sorted_place_sorted: "sorted (map fst xs) \<Longrightarrow> sorted (map fst (sorted_place k it xs))"
proof (induction xs)
  case (Cons x xs)
  then show ?case by (auto simp: sorted_place_def dest: set_takeWhileD set_dropWhileD)
qed (simp add: sorted_place_def)

lemma sorted_place_filter:
  "sorted (map fst xs) \<Longrightarrow> filter (\<lambda>x. fst x = j) (sorted_place k it xs)
    = filter (\<lambda>x. fst x = j) xs @ (if j = k then [(k, it)] else [])"
proof (induction xs)
  case (Cons x xs)
  show ?case
  proof (cases "k < fst x")
    case True
    then have "\<forall>y\<in>set (x # xs). fst y \<noteq> k" using Cons.prems by auto
    then have "filter (\<lambda>y. fst y = k) (x # xs) = []" by (simp only: filter_empty_conv)
    then show ?thesis using True by (auto simp: sorted_place_def)
  next
    case False
    then show ?thesis using Cons by (simp add: sorted_place_def)
  qed
qed (simp add: sorted_place_def)

text \<open>
  Sorted insertion. Inserting into a sorted list succeeds and gives a sorted list with
  the same items and the new one; among items with equal keys the order is the order of
  insertion, so interrupts scheduled for the same time fire in the order they were scheduled.
\<close>
theorem sorted_insert_stable:
  assumes "is_list L xs" "sorted (map fst xs)"
  shows "\<exists>L' ys. SortedInsert it k L = Some L' \<and> is_list L' ys \<and> sorted (map fst ys)
    \<and> set ys = insert (k, it) (set xs) \<and> length ys = Suc (length xs)
    \<and> (\<forall>j. filter (\<lambda>x. fst x = j) ys = filter (\<lambda>x. fst x = j) xs @ (if j = k then [(k, it)] else []))"
proof -
  obtain L' where L': "SortedInsert it k L = Some L'" "is_list L' (sorted_place k it xs)"
    using SortedInsert_correct [OF assms(1)] by blast
  let ?t = "takeWhile (\<lambda>x. \<not> k < fst x) xs" and ?d = "dropWhile (\<lambda>x. \<not> k < fst x) xs"
  have "xs = ?t @ ?d" by simp
  then have "set xs = set ?t \<union> set ?d" "length xs = length ?t + length ?d"
    by (metis set_append, metis length_append)
  then have "set (sorted_place k it xs) = insert (k, it) (set xs)"
    "length (sorted_place k it xs) = Suc (length xs)"
    by (auto simp: sorted_place_def)
  then show ?thesis
    using L' sorted_place_sorted [OF assms(2)] sorted_place_filter [OF assms(2)] by blast
qed

text \<open>
  Removing an item. \<open>RemoveItem\<close> returns exactly when the item is on the list; its
  loop never ends otherwise, where its comment says \<open>if present\<close>. When it returns, the
  first occurrence is gone and the items before it have moved behind the others.
\<close>
theorem remove_item_needs_item:
  assumes "is_list L xs" "it \<noteq> None"
  shows "(RemoveItem it L \<noteq> None \<longleftrightarrow> it \<in> snd ` set xs)
    \<and> (\<forall>ys k zs. xs = ys @ (k, it) # zs \<and> it \<notin> snd ` set ys \<longrightarrow>
         (\<exists>L'. RemoveItem it L = Some L' \<and> is_list L' (zs @ map (\<lambda>y. (0, snd y)) ys)))"
proof -
  have gone: "\<exists>L'. RemoveItem it L = Some L' \<and> is_list L' (zs @ map (\<lambda>y. (0, snd y)) ys)"
    if "xs = ys @ (k, it) # zs" "it \<notin> snd ` set ys" for ys k zs
    using RemoveItem_correct [of L ys k it zs] assms(1) that by blast
  have "\<exists>ys k zs. xs = ys @ (k, it) # zs \<and> it \<notin> snd ` set ys" if "it \<in> snd ` set xs"
  proof -
    have "it \<in> set (map snd xs)" using that by simp
    then obtain as bs where "map snd xs = as @ it # bs" "it \<notin> set as" using split_list_first by fast
    then obtain ys x zs where "xs = ys @ x # zs" "map snd ys = as" "snd x = it"
      by (auto simp: map_eq_append_conv)
    then show ?thesis using \<open>it \<notin> set as\<close> by (metis set_map prod.collapse)
  qed
  then have "RemoveItem it L \<noteq> None" if "it \<in> snd ` set xs" using that gone by (metis option.distinct(1))
  moreover have "it \<in> snd ` set xs" if "RemoveItem it L \<noteq> None"
    using that RemoveItem_returns assms by blast
  ultimately show ?thesis using gone by blast
qed

text \<open>
  The list as a queue. Appending items to a new list and removing as many gives them
  back in the same order and leaves the list empty; \<open>Search\<close> finds exactly what was
  appended.
\<close>
theorem list_is_fifo:
  "\<exists>q q'. foldM Append its (List_new :: (int, 'a) List) = Some q
    \<and> (\<forall>it. Search it q = Some (it \<in> set its))
    \<and> foldM (\<lambda>_ (out, q). do { (x, q') \<leftarrow> List_Remove q; Some (out @ [x], q') }) [0..<length its] ([], q)
        = Some (its, q') \<and> IsEmpty q'"
proof -
  obtain q q' where q: "listq.append_all its (List_new :: (int, 'a) List) = Some q"
    "listq.drain (length its) q = Some (its, q')" "IsEmpty q'"
    using listq.fifo_order by blast
  have "holds q its" using listq.append_all_rep [OF listq.rep_new, of its] q(1) by auto
  then have "Search it q = Some (it \<in> set its)" for it using Search_correct by (fastforce simp: holds_def)
  then show ?thesis using q unfolding listq.append_all_def listq.drain_def by blast
qed

text \<open>Instances: a list of two interrupts, at times 3 and 5.\<close>

definition two_items :: "(int, nat) List" where
  "two_items = the (do { L \<leftarrow> SortedInsert (Some 7) 5 List_new; SortedInsert (Some 8) 3 L })"

lemma two_items_list: "is_list two_items [(3, Some 8), (5, Some 7)]"
proof -
  obtain L1 where 1: "SortedInsert (Some 7) 5 (List_new :: (int, nat) List) = Some L1" "is_list L1 [(5, Some 7)]"
    using SortedInsert_correct [OF is_list_new, of "Some 7" 5] by (auto simp: sorted_place_def)
  obtain L2 where "SortedInsert (Some 8) 3 L1 = Some L2" "is_list L2 [(3, Some 8), (5, Some 7)]"
    using SortedInsert_correct [OF 1(2), of "Some 8" 3] by (auto simp: sorted_place_def)
  then show ?thesis using 1(1) by (simp add: two_items_def)
qed

theorem sorted_insert_stable_witness:
  "\<exists>L' ys. SortedInsert (Some 9) 3 two_items = Some L' \<and> is_list L' ys
    \<and> filter (\<lambda>x. fst x = 3) ys = [(3, Some 8), (3, Some 9)]"
proof -
  have "sorted (map fst [(3 :: int, Some (8 :: nat)), (5, Some 7)])" by simp
  from sorted_insert_stable [OF two_items_list this, of "Some 9" 3]
  obtain L' ys where "SortedInsert (Some 9) 3 two_items = Some L'" "is_list L' ys"
    "\<forall>j. filter (\<lambda>x. fst x = j) ys = filter (\<lambda>x. fst x = j) [(3, Some 8), (5, Some 7)]
       @ (if j = 3 then [(3, Some 9)] else [])" by blast
  moreover from this(3) have "filter (\<lambda>x. fst x = 3) ys = [(3, Some 8), (3, Some 9)]" by simp
  ultimately show ?thesis by blast
qed

theorem remove_item_needs_item_witness:
  "RemoveItem (Some 9) two_items = None \<and> RemoveItem (Some 7) two_items \<noteq> None"
  using remove_item_needs_item [OF two_items_list, of "Some 9"]
    remove_item_needs_item [OF two_items_list, of "Some 7"] by simp

end
