(* ===== verification/Nachos_AddrSpace.thy ===== *)
theory Nachos_AddrSpace
  imports Nachos_Machine Nachos_Directory
begin

text \<open>
  Address spaces (\<open>kernel/addrspace.cc\<close>) and the ELF executables they are made from
  (\<open>kernel/elf32.h\<close>): allocation of virtual pages, stacks, mapped files, and the loader,
  which reads the section table of an executable and says in the page table where each
  page comes from. The destructor, which gives back physical and swap pages, is in
  \<open>Nachos_VM\<close>.

  The page table is an object of its own (the MMU points to it), passed beside the
  address space. A mapped file is a reference \<open>'f\<close>, since open files are shared objects.
\<close>

subsection \<open>ELF headers\<close>

record Elf32_Ehdr =
  e_ident :: "byte list"
  e_type :: "16 word"
  e_machine :: "16 word"
  e_version :: u32
  e_entry :: u32
  e_phoff :: u32
  e_shoff :: u32
  e_flags :: u32
  e_ehsize :: "16 word"
  e_phentsize :: "16 word"
  e_phnum :: "16 word"
  e_shentsize :: "16 word"
  e_shnum :: "16 word"
  e_shstrndx :: "16 word"

record Elf32_Shdr =
  sh_name :: u32
  sh_type :: u32
  sh_flags :: u32
  sh_addr :: u32
  sh_offset :: u32
  sh_size :: u32
  sh_link :: u32
  sh_info :: u32
  sh_addralign :: u32
  sh_entsize :: u32

definition sizeof_Ehdr :: nat where "sizeof_Ehdr = 52"
definition sizeof_Shdr :: nat where "sizeof_Shdr = 40"
definition SHT_NOBITS :: u32 where "SHT_NOBITS = 8"
definition SHF_WRITE :: u32 where "SHF_WRITE = 1"
definition SHF_ALLOC :: u32 where "SHF_ALLOC = 2"

text \<open>
  A structure read with \<open>ReadAt((char *)&x, n, ...)\<close>: the bytes that were read, then what
  the memory held, in the order of the little endian host.
\<close>

definition in_memory :: "config \<Rightarrow> nat \<Rightarrow> byte list \<Rightarrow> byte list" where
  "in_memory cfg n bs = bs @ map (\<lambda>i. word_of_int (fresh cfg i)) [length bs..<n]"

definition half_at :: "byte list \<Rightarrow> nat \<Rightarrow> 16 word" where
  "half_at bs i = ucast (bs ! i) OR push_bit 8 (ucast (bs ! (i + 1)))"

definition word_at :: "byte list \<Rightarrow> nat \<Rightarrow> u32" where
  "word_at bs i = le_word (bs ! i) (bs ! (i + 1)) (bs ! (i + 2)) (bs ! (i + 3))"

definition Ehdr_of :: "byte list \<Rightarrow> Elf32_Ehdr" where
  "Ehdr_of bs = \<lparr>e_ident = take 16 bs, e_type = half_at bs 16, e_machine = half_at bs 18,
     e_version = word_at bs 20, e_entry = word_at bs 24, e_phoff = word_at bs 28,
     e_shoff = word_at bs 32, e_flags = word_at bs 36, e_ehsize = half_at bs 40,
     e_phentsize = half_at bs 42, e_phnum = half_at bs 44, e_shentsize = half_at bs 46,
     e_shnum = half_at bs 48, e_shstrndx = half_at bs 50\<rparr>"

definition Shdr_of :: "byte list \<Rightarrow> nat \<Rightarrow> Elf32_Shdr" where
  "Shdr_of bs i = \<lparr>sh_name = word_at bs i, sh_type = word_at bs (i + 4), sh_flags = word_at bs (i + 8),
     sh_addr = word_at bs (i + 12), sh_offset = word_at bs (i + 16), sh_size = word_at bs (i + 20),
     sh_link = word_at bs (i + 24), sh_info = word_at bs (i + 28),
     sh_addralign = word_at bs (i + 32), sh_entsize = word_at bs (i + 36)\<rparr>"

definition SwapELFHeader :: "'a machine_scheme \<Rightarrow> Elf32_Ehdr \<Rightarrow> Elf32_Ehdr" where
  "SwapELFHeader m e = e\<lparr>e_type := ShortToHost m (e_type e), e_machine := ShortToHost m (e_machine e),
     e_version := WordToHost m (e_version e), e_entry := WordToHost m (e_entry e),
     e_phoff := WordToHost m (e_phoff e), e_shoff := WordToHost m (e_shoff e),
     e_flags := WordToHost m (e_flags e), e_ehsize := ShortToHost m (e_ehsize e),
     e_phentsize := ShortToHost m (e_phentsize e), e_phnum := ShortToHost m (e_phnum e),
     e_shentsize := ShortToHost m (e_shentsize e), e_shnum := ShortToHost m (e_shnum e),
     e_shstrndx := ShortToHost m (e_shstrndx e)\<rparr>"

definition SwapELFSectionHeader :: "'a machine_scheme \<Rightarrow> Elf32_Shdr \<Rightarrow> Elf32_Shdr" where
  "SwapELFSectionHeader m s = s\<lparr>sh_name := WordToHost m (sh_name s), sh_type := WordToHost m (sh_type s),
     sh_flags := WordToHost m (sh_flags s), sh_addr := WordToHost m (sh_addr s),
     sh_offset := WordToHost m (sh_offset s), sh_size := WordToHost m (sh_size s),
     sh_link := WordToHost m (sh_link s), sh_info := WordToHost m (sh_info s),
     sh_addralign := WordToHost m (sh_addralign s), sh_entsize := WordToHost m (sh_entsize s)\<rparr>"

text \<open>
  The check gives the error code, the header in the order of the host, and the machine with
  the byte order of the executable.
\<close>

definition CheckELFHeader ::
  "Elf32_Ehdr \<Rightarrow> 'a machine_scheme \<Rightarrow> ErrorCode \<times> Elf32_Ehdr \<times> 'a machine_scheme" where
  "CheckELFHeader e m =
     (if take 4 (e_ident e) \<noteq> [0x7f, 0x45, 0x4c, 0x46] then (ExecFileFormatError, e, m)
      else if e_ident e ! 4 \<noteq> 1 \<or> e_ident e ! 6 \<noteq> 1 then (ExecFileFormatError, e, m)
      else let m1 = m\<lparr>mips_endianess := (if e_ident e ! 5 = 2 then IS_BIG_ENDIAN else IS_LITTLE_ENDIAN)\<rparr>;
               h = SwapELFHeader m1 e
           in if e_machine h \<noteq> 8 \<or> e_type h \<noteq> 2 then (ExecFileFormatError, h, m1)
              else if unat (e_ehsize h) \<noteq> sizeof_Ehdr \<or> unat (e_shentsize h) \<noteq> sizeof_Shdr
              then (ExecFileFormatError, h, m1)
              else if unat (e_shoff h) < sizeof_Ehdr then (ExecFileFormatError, h, m1)
              else if e_shstrndx h \<ge> e_shnum h then (ExecFileFormatError, h, m1)
              else (NoError, h, m1))"

subsection \<open>Address spaces\<close>

definition MAX_MAPPED_FILES :: nat where "MAX_MAPPED_FILES = 10"

record 'f s_mapped_file =
  first_address :: int
  mapped_pages :: int
  mapped_object :: 'f

record 'f AddrSpace =
  CodeStartAddress :: u32
  freePageId :: int
  nb_mapped_files :: int
  mapped_files :: "'f s_mapped_file option list"

definition Alloc :: "int \<Rightarrow> 'f AddrSpace \<Rightarrow> TranslationTable \<Rightarrow> int \<times> 'f AddrSpace" where
  "Alloc numPages as tt =
     (if freePageId as + numPages \<ge> getMaxNumPages tt then (- 1, as)
      else (freePageId as, as\<lparr>freePageId := freePageId as + numPages\<rparr>))"

definition stack_page :: "int \<Rightarrow> TranslationTable \<Rightarrow> TranslationTable option" where
  "stack_page i tt = do {
     tt \<leftarrow> clearBitValid tt i; tt \<leftarrow> setAddrDisk tt i (- 1); tt \<leftarrow> clearBitSwap tt i;
     tt \<leftarrow> setBitReadAllowed tt i; tt \<leftarrow> setBitWriteAllowed tt i; clearBitIo tt i }"

definition StackAllocate ::
  "config \<Rightarrow> 'f AddrSpace \<Rightarrow> TranslationTable \<Rightarrow> (int \<times> 'f AddrSpace \<times> TranslationTable) option" where
  "StackAllocate cfg as tt =
     (let (blankaddr, as1) = Alloc 4 as tt;
          numPages = divRoundUp (UserStackSize cfg) (PageSize cfg);
          (stackBasePage, as2) = Alloc numPages as1 tt
      in if stackBasePage \<ge> 0
         then do {
           tt' \<leftarrow> foldM (\<lambda>k. stack_page (stackBasePage + int k)) [0..<nat numPages] tt;
           Some ((stackBasePage + numPages) * PageSize cfg - 16, as2, tt') }
         else None)"

definition mmap_page :: "config \<Rightarrow> int \<Rightarrow> nat \<Rightarrow> TranslationTable \<Rightarrow> TranslationTable option" where
  "mmap_page cfg page_allocated i tt =
     (let byte_offset = int i * PageSize cfg; virtualPage = page_allocated + int i in do {
        tt \<leftarrow> setAddrDisk tt virtualPage byte_offset; tt \<leftarrow> clearBitIo tt virtualPage;
        tt \<leftarrow> clearBitValid tt virtualPage; tt \<leftarrow> clearBitSwap tt virtualPage;
        tt \<leftarrow> setBitReadAllowed tt virtualPage; tt \<leftarrow> setBitWriteAllowed tt virtualPage;
        tt \<leftarrow> clearBitU tt virtualPage; clearBitM tt virtualPage })"

text \<open>\<open>Halt\<close> when the address is 0, and no value when the array of mapped files is full.\<close>

definition Mmap ::
  "config \<Rightarrow> 'f \<Rightarrow> int \<Rightarrow> 'f AddrSpace \<Rightarrow> TranslationTable \<Rightarrow> (int \<times> 'f AddrSpace \<times> TranslationTable) option" where
  "Mmap cfg f n as tt =
     (let nb_pages = divRoundUp n (PageSize cfg);
          (page_allocated, as1) = Alloc nb_pages as tt;
          addr_allocated = page_allocated * PageSize cfg
      in if addr_allocated = 0 then None
         else do {
           files \<leftarrow> aset (mapped_files as1) (nb_mapped_files as1)
             (Some \<lparr>first_address = addr_allocated, mapped_pages = nb_pages, mapped_object = f\<rparr>);
           tt' \<leftarrow> foldM (mmap_page cfg page_allocated) [0..<nat nb_pages] tt;
           Some (addr_allocated,
             as1\<lparr>mapped_files := files, nb_mapped_files := nb_mapped_files as1 + 1\<rparr>, tt') })"

primrec find_mapped :: "config \<Rightarrow> int \<Rightarrow> 'f s_mapped_file option list \<Rightarrow> nat list \<Rightarrow> 'f option option" where
  "find_mapped cfg addr files [] = Some None"
| "find_mapped cfg addr files (i # is) = do {
     e \<leftarrow> aget files (int i);
     mf \<leftarrow> e;
     (let mf_start = first_address mf; mf_end = mf_start + (mapped_pages mf + 1) * PageSize cfg
      in if addr \<ge> mf_start \<and> addr < mf_end then Some (Some (mapped_object mf))
         else find_mapped cfg addr files is) }"

definition findMappedFile :: "config \<Rightarrow> int \<Rightarrow> 'f AddrSpace \<Rightarrow> 'f option option" where
  "findMappedFile cfg addr as = find_mapped cfg addr (mapped_files as) [0..<nat (nb_mapped_files as)]"

subsection \<open>The loader\<close>

text \<open>The page \<open>pgdisk\<close> of a section. Page numbers and offsets are unsigned, then \<open>int\<close> arguments.\<close>

definition init_page :: "config \<Rightarrow> Elf32_Shdr \<Rightarrow> nat \<Rightarrow> TranslationTable \<Rightarrow> TranslationTable option" where
  "init_page cfg sh pgdisk tt =
     (let virt_page = sint (sh_addr sh div word_of_int (PageSize cfg) + of_nat pgdisk);
          offset = sint (sh_offset sh + of_nat pgdisk * word_of_int (PageSize cfg))
      in do {
        tt \<leftarrow> clearBitSwap tt virt_page;
        tt \<leftarrow> setBitReadAllowed tt virt_page;
        tt \<leftarrow> setAddrDisk tt virt_page (if sh_type sh \<noteq> SHT_NOBITS then offset else - 1);
        tt \<leftarrow> (if sh_flags sh AND SHF_WRITE \<noteq> 0 then setBitWriteAllowed tt virt_page
              else clearBitWriteAllowed tt virt_page);
        tt \<leftarrow> clearBitIo tt virt_page;
        clearBitValid tt virt_page })"

definition section_size :: "config \<Rightarrow> Elf32_Shdr \<Rightarrow> nat" where
  "section_size cfg sh = nat (divRoundUp (uint (sh_size sh)) (PageSize cfg))"

definition load_section :: "config \<Rightarrow> Elf32_Shdr \<Rightarrow> TranslationTable \<Rightarrow> TranslationTable option" where
  "load_section cfg sh tt =
     (if sh_size sh = 0 then Some tt
      else if sh_flags sh AND SHF_ALLOC = 0 then Some tt
      else if uint (sh_addr sh) mod PageSize cfg \<noteq> 0 then None
      else foldM (init_page cfg sh) [0..<section_size cfg sh] tt)"

definition top_addr :: "Elf32_Shdr list \<Rightarrow> int" where
  "top_addr shs = fold (\<lambda>sh mem_topaddr.
     let section_topaddr = sint (sh_addr sh + sh_size sh)
     in if sh_size sh \<noteq> 0 \<and> sh_flags sh AND SHF_ALLOC \<noteq> 0 \<and> section_topaddr > mem_topaddr
        then section_topaddr else mem_topaddr) shs 0"

definition load_sections ::
  "config \<Rightarrow> Elf32_Shdr list \<Rightarrow> 'f AddrSpace \<Rightarrow> TranslationTable \<Rightarrow> ('f AddrSpace \<times> TranslationTable) option" where
  "load_sections cfg shs as tt =
     (let (base_addr, as1) = Alloc (divRoundUp (top_addr shs) (PageSize cfg)) as tt
      in if base_addr \<noteq> 0 then None
         else do { tt' \<leftarrow> foldM (load_section cfg) shs tt; Some (as1, tt') })"

text \<open>
  The constructor. The header of the executable stands for the open file; the names of
  sections, read only to be printed, are left out. The number of mapped files of an empty
  address space is not initialised.
\<close>

definition AddrSpace_new ::
  "config \<Rightarrow> FileHeader option \<Rightarrow> byte list list \<Rightarrow> 'a machine_scheme
   \<Rightarrow> ('f AddrSpace \<times> TranslationTable \<times> 'a machine_scheme) option" where
  "AddrSpace_new cfg exec_file d m =
     (let as = \<lparr>CodeStartAddress = word_of_int (fresh cfg 0), freePageId = 0,
                nb_mapped_files = fresh cfg 1, mapped_files = replicate MAX_MAPPED_FILES None\<rparr>
      in case exec_file of
           None \<Rightarrow> Some (as, TranslationTable_new cfg, m)
         | Some f \<Rightarrow> do {
             hb \<leftarrow> ReadAt cfg f (int sizeof_Ehdr) 0 d;
             let (err, eh, m1) = CheckELFHeader (Ehdr_of (in_memory cfg sizeof_Ehdr hb)) m;
             if err \<noteq> NoError then None
             else do {
               sb \<leftarrow> ReadAt cfg f (int (unat (e_shnum eh) * sizeof_Ehdr)) (sint (e_shoff eh)) d;
               let shs = map (\<lambda>i. SwapELFSectionHeader m1
                       (Shdr_of (in_memory cfg (unat (e_shnum eh) * sizeof_Ehdr) sb) (i * sizeof_Shdr)))
                     [0..<unat (e_shnum eh)];
               (as1, tt) \<leftarrow> load_sections cfg shs as (TranslationTable_new cfg);
               Some (as1\<lparr>CodeStartAddress := e_entry eh, nb_mapped_files := 0\<rparr>, tt, m1) } })"

subsection \<open>Loops over pages\<close>

text \<open>A loop that changes one entry per iteration changes exactly the pages of its range.\<close>

lemma pages_loop:
  assumes "wf_table tt" and "\<And>i. i < n \<Longrightarrow> in_table tt (b + int i)"
    and "\<And>i t. i < n \<Longrightarrow> wf_table t \<Longrightarrow> maxNumPages t = maxNumPages tt \<Longrightarrow>
      f i t = Some (upd_entry (g i) t (b + int i))"
  shows "\<exists>tt'. foldM f [0..<n] tt = Some tt' \<and> wf_table tt' \<and> maxNumPages tt' = maxNumPages tt
    \<and> (\<forall>i<n. entry tt' (b + int i) = g i (entry tt (b + int i)))
    \<and> (\<forall>vp. in_table tt vp \<and> vp \<notin> {b..<b + int n} \<longrightarrow> entry tt' vp = entry tt vp)"
  using assms(2,3)
proof (induction n)
  case 0
  then show ?case using assms(1) by simp
next
  case (Suc n)
  have "\<And>i. i < n \<Longrightarrow> i < Suc n" by simp
  note IH = Suc.IH [OF Suc.prems(1) Suc.prems(2), OF this this]
  obtain t where t: "foldM f [0..<n] tt = Some t" "wf_table t"
    "maxNumPages t = maxNumPages tt" "\<And>i. i < n \<Longrightarrow> entry t (b + int i) = g i (entry tt (b + int i))"
    "\<And>vp. in_table tt vp \<Longrightarrow> vp \<notin> {b..<b + int n} \<Longrightarrow> entry t vp = entry tt vp"
    using IH by blast
  let ?t = "upd_entry (g n) t (b + int n)"
  have in_t: "in_table t vp = in_table tt vp" for vp using t(3) by (simp add: in_table_def)
  have now: "in_table tt (b + int n)" using Suc.prems(1) by simp
  have "foldM f [0..<Suc n] tt = Some ?t" using t(1-3) Suc.prems(2) [of n t] by (simp add: foldM_append)
  moreover have "entry ?t (b + int i) = g i (entry tt (b + int i))" if "i < Suc n" for i
    using that t(2,4) t(5) [of "b + int n"] Suc.prems(1) [of i] now by (cases "i = n") (simp_all add: in_t)
  moreover have "entry ?t vp = entry tt vp" if "in_table tt vp" "vp \<notin> {b..<b + int (Suc n)}" for vp
    using that t(5) [of vp] now by (auto simp: in_t)
  moreover have "wf_table ?t" "maxNumPages ?t = maxNumPages tt" using t(2,3) by simp_all
  ultimately show ?case by (intro exI [of _ ?t] conjI allI impI) blast+
qed

lemma stack_page_upd:
  "wf_table t \<Longrightarrow> in_table t i \<Longrightarrow> stack_page i t = Some (upd_entry (\<lambda>e. e\<lparr>valid := False, addrDisk := - 1,
     swap := False, readAllowed := True, writeAllowed := True, io := False\<rparr>) t i)"
  by (simp add: stack_page_def tt_setters pte_set_in)

lemma mmap_page_upd:
  "wf_table t \<Longrightarrow> in_table t (p + int i) \<Longrightarrow> mmap_page cfg p i t = Some (upd_entry (\<lambda>e. e\<lparr>
     addrDisk := int i * PageSize cfg, io := False, valid := False, swap := False, readAllowed := True,
     writeAllowed := True, bitU := False, bitM := False\<rparr>) t (p + int i))"
  by (simp add: mmap_page_def Let_def tt_setters pte_set_in)

lemma word_page:
  assumes "0 < P" "P < 2 ^ 31" "uint a div P + int k < 2 ^ 31"
  shows "sint ((a :: u32) div word_of_int P + of_nat k) = uint a div P + int k"
proof -
  have "a div word_of_int P = word_of_int (uint a div P)"
    using assms(1,2) by (simp add: word_div_def take_bit_int_eq_self unsigned_of_int)
  then have "a div word_of_int P + of_nat k = word_of_int (uint a div P + int k)" by simp
  moreover have "0 \<le> uint a div P" using assms(1) by (simp add: pos_imp_zdiv_nonneg_iff)
  then have "int32 (uint a div P + int k)" using assms(3) by (simp add: int32_def)
  ultimately show ?thesis by (simp only: sint_word_of_int32)
qed

lemma word_offset:
  assumes "0 \<le> P" "uint a + int k * P < 2 ^ 31"
  shows "sint ((a :: u32) + of_nat k * word_of_int P) = uint a + int k * P"
proof -
  have "a + of_nat k * word_of_int P = word_of_int (uint a + int k * P)" by simp
  moreover have "0 \<le> uint a + int k * P" using assms(1) by simp
  then have "int32 (uint a + int k * P)" using assms(2) by (simp add: int32_def)
  ultimately show ?thesis by (simp only: sint_word_of_int32)
qed

subsection \<open>Stacks and mapped files\<close>

lemma StackAllocate_correct:
  assumes wf: "wf_table tt" and sizes: "0 < PageSize cfg" "0 < UserStackSize cfg" "0 \<le> freePageId as"
    and n: "n = divRoundUp (UserStackSize cfg) (PageSize cfg)" and room: "freePageId as + 4 + n < maxNumPages tt"
  shows "\<exists>tt'. StackAllocate cfg as tt =
      Some ((freePageId as + 4 + n) * PageSize cfg - 16, as\<lparr>freePageId := freePageId as + 4 + n\<rparr>, tt')
    \<and> wf_table tt' \<and> maxNumPages tt' = maxNumPages tt
    \<and> (\<forall>vp\<in>{freePageId as + 4..<freePageId as + 4 + n}. let e = entry tt' vp in
         \<not> valid e \<and> readAllowed e \<and> writeAllowed e \<and> addrDisk e = - 1 \<and> \<not> swap e \<and> \<not> io e)
    \<and> (\<forall>vp. in_table tt vp \<and> vp \<notin> {freePageId as + 4..<freePageId as + 4 + n} \<longrightarrow> entry tt' vp = entry tt vp)"
proof -
  let ?b = "freePageId as + 4"
  have n0: "0 \<le> n" using divRoundUp_bounds(3) [of "UserStackSize cfg" "PageSize cfg"] sizes n by simp
  have inn: "in_table tt (?b + int i)" if "i < nat n" for i
    using that sizes(3) room n0 by (simp add: in_table_def)
  let ?g = "\<lambda>e. e\<lparr>valid := False, addrDisk := - 1, swap := False, readAllowed := True,
    writeAllowed := True, io := False\<rparr>"
  have upd: "stack_page (?b + int i) t = Some (upd_entry ?g t (?b + int i))"
    if "i < nat n" "wf_table t" "maxNumPages t = maxNumPages tt" for i t
    using that inn [OF that(1)] by (intro stack_page_upd) (simp_all add: in_table_def)
  note L = pages_loop [OF wf inn, of "nat n" "\<lambda>k. stack_page (?b + int k)" "\<lambda>_. ?g", OF _ upd]
  obtain tt' where tt': "foldM (\<lambda>k. stack_page (?b + int k)) [0..<nat n] tt = Some tt'" "wf_table tt'"
    "maxNumPages tt' = maxNumPages tt"
    "\<And>i. i < nat n \<Longrightarrow> entry tt' (?b + int i) = ?g (entry tt (?b + int i))"
    "\<And>vp. in_table tt vp \<Longrightarrow> vp \<notin> {?b..<?b + int (nat n)} \<Longrightarrow> entry tt' vp = entry tt vp"
    using L by blast
  have "StackAllocate cfg as tt = Some ((?b + n) * PageSize cfg - 16, as\<lparr>freePageId := ?b + n\<rparr>, tt')"
    using room n0 sizes(3) tt'(1) n [symmetric]
    by (simp add: StackAllocate_def Alloc_def getMaxNumPages_def Let_def add.assoc)
  moreover have "\<forall>vp\<in>{?b..<?b + n}. let e = entry tt' vp in
         \<not> valid e \<and> readAllowed e \<and> writeAllowed e \<and> addrDisk e = - 1 \<and> \<not> swap e \<and> \<not> io e"
  proof
    fix vp assume "vp \<in> {?b..<?b + n}"
    then have "vp = ?b + int (nat (vp - ?b))" "nat (vp - ?b) < nat n" by simp_all
    then show "let e = entry tt' vp in
         \<not> valid e \<and> readAllowed e \<and> writeAllowed e \<and> addrDisk e = - 1 \<and> \<not> swap e \<and> \<not> io e"
      using tt'(4) [of "nat (vp - ?b)"] by (simp add: Let_def)
  qed
  ultimately show ?thesis using tt'(2,3,5) n0 by auto
qed

lemma Mmap_result:
  assumes "Mmap cfg f n as tt = Some (a, as1, tt1)" "0 < PageSize cfg" "0 < n"
  shows "a = freePageId as * PageSize cfg"
    "as1 = as\<lparr>freePageId := freePageId as + divRoundUp n (PageSize cfg),
      mapped_files := (mapped_files as)[nat (nb_mapped_files as) :=
        Some \<lparr>first_address = a, mapped_pages = divRoundUp n (PageSize cfg), mapped_object = f\<rparr>],
      nb_mapped_files := nb_mapped_files as + 1\<rparr>"
    "0 \<le> nb_mapped_files as" "nat (nb_mapped_files as) < length (mapped_files as)"
proof -
  let ?n = "divRoundUp n (PageSize cfg)"
  have n: "0 < ?n" using divRoundUp_bounds(1,3) [of n "PageSize cfg"] assms(2,3) by (cases "?n = 0") auto
  have neg: "foldM (mmap_page cfg (- 1)) [0..<nat ?n] tt = None"
  proof -
    obtain k where "nat ?n = Suc k" using n by (metis Suc_pred zero_less_nat_eq)
    moreover have "[0..<Suc k] = 0 # [1..<Suc k]" by (simp add: upt_conv_Cons)
    moreover have "mmap_page cfg (- 1) 0 tt = None" by (simp add: mmap_page_def tt_setters pte_set_def)
    ultimately show ?thesis by (simp del: upt_Suc)
  qed
  show "a = freePageId as * PageSize cfg"
    "as1 = as\<lparr>freePageId := freePageId as + ?n, mapped_files := (mapped_files as)[nat (nb_mapped_files as) :=
        Some \<lparr>first_address = a, mapped_pages = ?n, mapped_object = f\<rparr>],
      nb_mapped_files := nb_mapped_files as + 1\<rparr>"
    "0 \<le> nb_mapped_files as" "nat (nb_mapped_files as) < length (mapped_files as)"
    using assms(1) neg
    by (auto simp: Mmap_def Alloc_def Let_def aset_Some split: if_splits bind_splits)
qed

text \<open>
  A stack is taken from pages above everything allocated so far, behind four unmapped
  pages: its pages become writable, not loaded and backed by nothing, no other entry of the
  page table changes, and the stack pointer is inside the new stack.
\<close>
theorem stack_is_fresh:
  assumes "wf_table tt" "0 < PageSize cfg" "16 \<le> UserStackSize cfg" "0 \<le> freePageId as"
    and "freePageId as + 4 + divRoundUp (UserStackSize cfg) (PageSize cfg) < maxNumPages tt"
  shows "\<exists>sp as' tt'. StackAllocate cfg as tt = Some (sp, as', tt')
    \<and> (freePageId as + 4) * PageSize cfg \<le> sp \<and> sp < freePageId as' * PageSize cfg
    \<and> freePageId as' < maxNumPages tt
    \<and> (\<forall>vp\<in>{freePageId as + 4..<freePageId as'}. let e = entry tt' vp in
         \<not> valid e \<and> readAllowed e \<and> writeAllowed e \<and> addrDisk e = - 1 \<and> \<not> swap e \<and> \<not> io e)
    \<and> (\<forall>vp. in_table tt vp \<and> vp \<notin> {freePageId as + 4..<freePageId as'} \<longrightarrow> entry tt' vp = entry tt vp)"
proof -
  let ?n = "divRoundUp (UserStackSize cfg) (PageSize cfg)"
  have "16 \<le> ?n * PageSize cfg"
    using divRoundUp_bounds(1) [of "UserStackSize cfg" "PageSize cfg"] assms(2,3) by simp
  then have "(freePageId as + 4) * PageSize cfg \<le> (freePageId as + 4 + ?n) * PageSize cfg - 16"
    by (simp add: algebra_simps)
  then show ?thesis
    using StackAllocate_correct [OF assms(1,2) _ assms(4) refl assms(5)] assms(3,5) by force
qed

lemma two_mappings:
  assumes "0 < PageSize cfg" "0 < n" "0 < m" "nb_mapped_files as = 0"
    and one: "Mmap cfg f n as tt = Some (a, as1, tt1)" and two: "Mmap cfg g m as1 tt1 = Some (b, as2, tt2)"
  shows "b = a + divRoundUp n (PageSize cfg) * PageSize cfg"
    and "\<forall>addr. a \<le> addr \<and> addr < b + PageSize cfg \<longrightarrow> findMappedFile cfg addr as2 = Some (Some f)"
    and "\<forall>addr. b + PageSize cfg \<le> addr \<and> addr < b + (divRoundUp m (PageSize cfg) + 1) * PageSize cfg
      \<longrightarrow> findMappedFile cfg addr as2 = Some (Some g)"
proof -
  note r1 = Mmap_result [OF one assms(1,2)] and r2 = Mmap_result [OF two assms(1,3)]
  show b: "b = a + divRoundUp n (PageSize cfg) * PageSize cfg"
    unfolding r1(1) r2(1) r1(2) by (simp add: algebra_simps)
  have two: "1 < length (mapped_files as)" using r2(4) unfolding r1(2) assms(4) by simp
  then have ne: "mapped_files as \<noteq> []" by auto
  have "findMappedFile cfg addr as2 =
      (if a \<le> addr \<and> addr < a + (divRoundUp n (PageSize cfg) + 1) * PageSize cfg then Some (Some f)
       else if b \<le> addr \<and> addr < b + (divRoundUp m (PageSize cfg) + 1) * PageSize cfg then Some (Some g)
       else Some None)" for addr
    using two assms(4) ne
    by (simp add: findMappedFile_def r1(2) r2(2) numeral_2_eq_2 aget_def Let_def)
  then show "\<forall>addr. a \<le> addr \<and> addr < b + PageSize cfg \<longrightarrow> findMappedFile cfg addr as2 = Some (Some f)"
    "\<forall>addr. b + PageSize cfg \<le> addr \<and> addr < b + (divRoundUp m (PageSize cfg) + 1) * PageSize cfg
      \<longrightarrow> findMappedFile cfg addr as2 = Some (Some g)"
    using b assms(1) by (auto simp: algebra_simps)
qed

text \<open>
  When two files are mapped one after the other, the first page of the second mapping
  is taken for the first file: \<open>findMappedFile\<close> counts one page too many.
\<close>
theorem second_mapping_shadowed:
  assumes "0 < PageSize cfg" "0 < n" "0 < m" "nb_mapped_files as = 0"
    and "Mmap cfg f n as tt = Some (a, as1, tt1)" "Mmap cfg g m as1 tt1 = Some (b, as2, tt2)"
  shows "b = a + divRoundUp n (PageSize cfg) * PageSize cfg
    \<and> (\<forall>addr. a \<le> addr \<and> addr < b + PageSize cfg \<longrightarrow> findMappedFile cfg addr as2 = Some (Some f))
    \<and> (\<forall>addr. b + PageSize cfg \<le> addr \<and> addr < b + (divRoundUp m (PageSize cfg) + 1) * PageSize cfg
      \<longrightarrow> findMappedFile cfg addr as2 = Some (Some g))"
  using two_mappings [OF assms] by blast

subsection \<open>Executables\<close>

definition allocated :: "Elf32_Shdr \<Rightarrow> bool" where
  "allocated sh \<longleftrightarrow> sh_size sh \<noteq> 0 \<and> sh_flags sh AND SHF_ALLOC \<noteq> 0"

definition first_page :: "config \<Rightarrow> Elf32_Shdr \<Rightarrow> int" where
  "first_page cfg sh = uint (sh_addr sh) div PageSize cfg"

text \<open>The virtual pages of a section, and what its page \<open>k\<close> must look like.\<close>

definition section_pages :: "config \<Rightarrow> Elf32_Shdr \<Rightarrow> int set" where
  "section_pages cfg sh = {first_page cfg sh..<first_page cfg sh + int (section_size cfg sh)}"

definition page_of_section :: "config \<Rightarrow> Elf32_Shdr \<Rightarrow> nat \<Rightarrow> PageTableEntry \<Rightarrow> PageTableEntry" where
  "page_of_section cfg sh k e = e\<lparr>swap := False, readAllowed := True,
     addrDisk := (if sh_type sh \<noteq> SHT_NOBITS then uint (sh_offset sh) + int k * PageSize cfg else - 1),
     writeAllowed := (sh_flags sh AND SHF_WRITE \<noteq> 0), io := False, valid := False\<rparr>"

text \<open>A section the loader can map: aligned, and without overflow of 32-bit addresses.\<close>

definition loadable :: "config \<Rightarrow> Elf32_Shdr \<Rightarrow> bool" where
  "loadable cfg sh \<longleftrightarrow> uint (sh_addr sh) mod PageSize cfg = 0
     \<and> uint (sh_addr sh) + uint (sh_size sh) < 2 ^ 31 \<and> uint (sh_offset sh) + uint (sh_size sh) < 2 ^ 31"

lemma section_size_bounds:
  assumes "0 < PageSize cfg" "k < section_size cfg sh"
  shows "int k * PageSize cfg < uint (sh_size sh)"
proof -
  let ?d = "divRoundUp (uint (sh_size sh)) (PageSize cfg)"
  have "?d * PageSize cfg < uint (sh_size sh) + PageSize cfg" "0 \<le> ?d"
    using divRoundUp_bounds(2,3) [of "uint (sh_size sh)" "PageSize cfg"] assms(1) by simp_all
  moreover have "int k + 1 \<le> ?d" using assms(2) by (simp add: section_size_def)
  then have "(int k + 1) * PageSize cfg \<le> ?d * PageSize cfg" using assms(1) by (simp add: mult_right_mono)
  ultimately show ?thesis by (simp add: algebra_simps)
qed

lemma init_page_upd:
  assumes P: "0 < PageSize cfg" "PageSize cfg < 2 ^ 31" and sh: "loadable cfg sh" and k: "k < section_size cfg sh"
    and t: "wf_table t" "in_table t (first_page cfg sh + int k)"
  shows "init_page cfg sh k t = Some (upd_entry (page_of_section cfg sh k) t (first_page cfg sh + int k))"
proof -
  have kP: "int k * PageSize cfg < uint (sh_size sh)" using section_size_bounds [OF P(1) k] .
  have "int k \<le> int k * PageSize cfg" using P(1) by (simp add: mult_le_cancel_left1)
  moreover have "uint (sh_addr sh) div PageSize cfg \<le> uint (sh_addr sh)"
  proof -
    let ?q = "uint (sh_addr sh) div PageSize cfg"
    have "0 \<le> ?q" using P(1) by (simp add: pos_imp_zdiv_nonneg_iff)
    then have "?q \<le> ?q * PageSize cfg" using P(1) by (simp add: mult_le_cancel_left1)
    also have "\<dots> = uint (sh_addr sh) - uint (sh_addr sh) mod PageSize cfg" by (simp add: minus_mod_eq_div_mult)
    also have "\<dots> \<le> uint (sh_addr sh)" using P(1) by simp
    finally show ?thesis .
  qed
  ultimately have "uint (sh_addr sh) div PageSize cfg + int k < 2 ^ 31"
    using kP sh by (simp add: loadable_def)
  then have vp: "sint (sh_addr sh div word_of_int (PageSize cfg) + of_nat k) = first_page cfg sh + int k"
    using word_page [OF P] by (simp add: first_page_def)
  have off: "sint (sh_offset sh + of_nat k * word_of_int (PageSize cfg)) = uint (sh_offset sh) + int k * PageSize cfg"
    using kP sh P(1) by (intro word_offset) (simp_all add: loadable_def)
  show ?thesis
    unfolding init_page_def Let_def vp off using t
    by (simp add: tt_setters pte_set_in page_of_section_def [abs_def] cong: if_cong)
qed

lemma load_section_correct:
  assumes P: "0 < PageSize cfg" "PageSize cfg < 2 ^ 31" and sh: "allocated sh \<longrightarrow> loadable cfg sh"
    and t: "wf_table t" "allocated sh \<longrightarrow> first_page cfg sh + int (section_size cfg sh) \<le> maxNumPages t"
  shows "\<exists>t'. load_section cfg sh t = Some t' \<and> wf_table t' \<and> maxNumPages t' = maxNumPages t
    \<and> (allocated sh \<longrightarrow> (\<forall>k < section_size cfg sh.
         entry t' (first_page cfg sh + int k) = page_of_section cfg sh k (entry t (first_page cfg sh + int k))))
    \<and> (\<forall>vp. in_table t vp \<and> \<not> (allocated sh \<and> vp \<in> section_pages cfg sh) \<longrightarrow> entry t' vp = entry t vp)"
proof (cases "allocated sh")
  case False
  then have "load_section cfg sh t = Some t" by (auto simp: load_section_def allocated_def)
  then show ?thesis using False t(1) by simp
next
  case True
  let ?b = "first_page cfg sh" and ?n = "section_size cfg sh"
  have b0: "0 \<le> ?b" using P(1) by (simp add: first_page_def pos_imp_zdiv_nonneg_iff)
  have inn: "in_table t (?b + int i)" if "i < ?n" for i
    using that b0 t(2) True by (simp add: in_table_def)
  have upd: "init_page cfg sh i u = Some (upd_entry (page_of_section cfg sh i) u (?b + int i))"
    if "i < ?n" "wf_table u" "maxNumPages u = maxNumPages t" for i u
    using that inn [OF that(1)] sh True by (intro init_page_upd P) (simp_all add: in_table_def)
  have e: "load_section cfg sh t = foldM (init_page cfg sh) [0..<?n] t"
    using True sh by (simp add: load_section_def allocated_def loadable_def)
  note L = pages_loop [OF t(1) inn, of ?n "init_page cfg sh" "page_of_section cfg sh", OF _ upd]
  then show ?thesis unfolding e section_pages_def using True by blast
qed

primrec disjoint_sections :: "config \<Rightarrow> Elf32_Shdr list \<Rightarrow> bool" where
  "disjoint_sections cfg [] \<longleftrightarrow> True"
| "disjoint_sections cfg (sh # shs) \<longleftrightarrow>
     (\<forall>s\<in>set shs. allocated sh \<and> allocated s \<longrightarrow> section_pages cfg sh \<inter> section_pages cfg s = {})
     \<and> disjoint_sections cfg shs"

lemma page_in_section: "k < section_size cfg sh \<Longrightarrow> first_page cfg sh + int k \<in> section_pages cfg sh"
  by (simp add: section_pages_def)

lemma load_all_correct:
  assumes P: "0 < PageSize cfg" "PageSize cfg < 2 ^ 31"
  shows "wf_table t \<Longrightarrow> disjoint_sections cfg shs \<Longrightarrow>
    (\<And>sh. sh \<in> set shs \<Longrightarrow> allocated sh \<Longrightarrow>
       loadable cfg sh \<and> first_page cfg sh + int (section_size cfg sh) \<le> maxNumPages t) \<Longrightarrow>
    \<exists>t'. foldM (load_section cfg) shs t = Some t' \<and> wf_table t' \<and> maxNumPages t' = maxNumPages t
      \<and> (\<forall>sh\<in>set shs. allocated sh \<longrightarrow> (\<forall>k < section_size cfg sh.
           entry t' (first_page cfg sh + int k) = page_of_section cfg sh k (entry t (first_page cfg sh + int k))))
      \<and> (\<forall>vp. in_table t vp \<and> (\<forall>sh\<in>set shs. allocated sh \<longrightarrow> vp \<notin> section_pages cfg sh)
           \<longrightarrow> entry t' vp = entry t vp)"
proof (induction shs arbitrary: t)
  case Nil
  then show ?case by simp
next
  case (Cons sh shs)
  have "allocated sh \<longrightarrow> loadable cfg sh"
    "allocated sh \<longrightarrow> first_page cfg sh + int (section_size cfg sh) \<le> maxNumPages t"
    using Cons.prems(3) by simp_all
  from load_section_correct [OF P this(1) Cons.prems(1) this(2)] obtain u where
    u: "load_section cfg sh t = Some u" "wf_table u" "maxNumPages u = maxNumPages t"
    "allocated sh \<Longrightarrow> \<forall>k < section_size cfg sh.
         entry u (first_page cfg sh + int k) = page_of_section cfg sh k (entry t (first_page cfg sh + int k))"
    "\<And>vp. in_table t vp \<Longrightarrow> \<not> (allocated sh \<and> vp \<in> section_pages cfg sh) \<Longrightarrow> entry u vp = entry t vp"
    by blast
  have pr: "s \<in> set shs \<Longrightarrow> allocated s \<Longrightarrow>
       loadable cfg s \<and> first_page cfg s + int (section_size cfg s) \<le> maxNumPages u" for s
    using Cons.prems(3) [of s] u(3) by simp
  have dj: "disjoint_sections cfg shs" using Cons.prems(2) by simp
  obtain v where v: "foldM (load_section cfg) shs u = Some v" "wf_table v" "maxNumPages v = maxNumPages u"
    "\<And>s k. s \<in> set shs \<Longrightarrow> allocated s \<Longrightarrow> k < section_size cfg s \<Longrightarrow>
       entry v (first_page cfg s + int k) = page_of_section cfg s k (entry u (first_page cfg s + int k))"
    "\<And>vp. in_table u vp \<Longrightarrow> (\<forall>s\<in>set shs. allocated s \<longrightarrow> vp \<notin> section_pages cfg s) \<Longrightarrow> entry v vp = entry u vp"
    using Cons.IH [OF u(2) dj pr] by blast
  have inu: "in_table u vp = in_table t vp" for vp using u(3) by (simp add: in_table_def)
  have inp: "in_table t (first_page cfg s + int k)"
    if "s \<in> set (sh # shs)" "allocated s" "k < section_size cfg s" for s k
    using Cons.prems(3) [OF that(1,2)] that(3) P(1)
    by (simp add: in_table_def first_page_def pos_imp_zdiv_nonneg_iff add_nonneg_nonneg)
  have "entry v (first_page cfg s + int k) = page_of_section cfg s k (entry t (first_page cfg s + int k))"
    if s: "s \<in> set (sh # shs)" "allocated s" "k < section_size cfg s" for s k
  proof (cases "s \<in> set shs")
    case True
    have "\<not> (allocated sh \<and> first_page cfg s + int k \<in> section_pages cfg sh)"
      using Cons.prems(2) True s(2) page_in_section [OF s(3)] by auto
    then show ?thesis using v(4) [OF True s(2,3)] u(5) [OF inp [OF s]] by simp
  next
    case False
    then have sh: "s = sh" using s(1) by simp
    have "\<forall>r\<in>set shs. allocated r \<longrightarrow> first_page cfg s + int k \<notin> section_pages cfg r"
      using Cons.prems(2) s(2) sh page_in_section [OF s(3)] by auto
    then show ?thesis using v(5) [of "first_page cfg s + int k"] u(4) inp [OF s] s sh inu by simp
  qed
  moreover have "entry v vp = entry t vp"
    if "in_table t vp" "\<forall>s\<in>set (sh # shs). allocated s \<longrightarrow> vp \<notin> section_pages cfg s" for vp
    using that u(5) [of vp] v(5) [of vp] inu by simp
  moreover have "foldM (load_section cfg) (sh # shs) t = Some v" using u(1) v(1) by simp
  ultimately show ?case using u(3) v(2,3) by (intro exI [of _ v] conjI ballI impI allI) simp_all
qed

lemma top_addr_step:
  "acc \<le> fold (\<lambda>sh mem_topaddr.
     let section_topaddr = sint (sh_addr sh + sh_size sh)
     in if sh_size sh \<noteq> 0 \<and> sh_flags sh AND SHF_ALLOC \<noteq> 0 \<and> section_topaddr > mem_topaddr
        then section_topaddr else mem_topaddr) shs acc
   \<and> (sh \<in> set shs \<longrightarrow> allocated sh \<longrightarrow> sint (sh_addr sh + sh_size sh) \<le> fold (\<lambda>sh mem_topaddr.
     let section_topaddr = sint (sh_addr sh + sh_size sh)
     in if sh_size sh \<noteq> 0 \<and> sh_flags sh AND SHF_ALLOC \<noteq> 0 \<and> section_topaddr > mem_topaddr
        then section_topaddr else mem_topaddr) shs acc)"
proof (induction shs arbitrary: acc)
  case Nil
  then show ?case by simp
next
  case (Cons s shs)
  let ?x = "sint (sh_addr s + sh_size s)"
  let ?acc = "if sh_size s \<noteq> 0 \<and> sh_flags s AND SHF_ALLOC \<noteq> 0 \<and> ?x > acc then ?x else acc"
  have "acc \<le> ?acc" "allocated s \<longrightarrow> ?x \<le> ?acc" by (simp_all add: allocated_def)
  then show ?case using Cons.IH [of ?acc] by (auto simp: Let_def intro: order.trans)
qed

lemma section_below_top:
  assumes "0 < PageSize cfg" "sh \<in> set shs" "allocated sh" "loadable cfg sh"
  shows "first_page cfg sh + int (section_size cfg sh) \<le> divRoundUp (top_addr shs) (PageSize cfg)"
proof -
  let ?P = "PageSize cfg" and ?a = "uint (sh_addr sh)" and ?z = "uint (sh_size sh)"
  have "sh_addr sh + sh_size sh = word_of_int (?a + ?z)" by simp
  moreover have "int32 (?a + ?z)" using assms(4) by (simp add: loadable_def int32_def order.trans [of _ 0])
  ultimately have "sint (sh_addr sh + sh_size sh) = ?a + ?z" by (simp only: sint_word_of_int32)
  then have top: "?a + ?z \<le> top_addr shs"
    using top_addr_step [of 0 shs sh] assms(2,3) by (simp add: top_addr_def)
  have al: "?a = first_page cfg sh * ?P" using assms(4) by (auto simp: loadable_def first_page_def)
  have z0: "0 \<le> ?z" "0 \<le> ?a" by simp_all
  have "first_page cfg sh + int (section_size cfg sh) = first_page cfg sh + (?z + ?P - 1) div ?P"
    using assms(1) divRoundUp_bounds(3) [OF z0(1) assms(1)] z0 by (simp add: section_size_def divRoundUp_nonneg)
  also have "\<dots> = (?a + ?z + ?P - 1) div ?P"
  proof -
    have "?a + ?z + ?P - 1 = first_page cfg sh * ?P + (?z + ?P - 1)" using al by linarith
    moreover have "(first_page cfg sh * ?P + (?z + ?P - 1)) div ?P = first_page cfg sh + (?z + ?P - 1) div ?P"
      using assms(1) by (intro div_mult_self3) simp
    ultimately show ?thesis by (simp only:)
  qed
  also have "\<dots> \<le> (top_addr shs + ?P - 1) div ?P" using top assms(1) by (intro zdiv_mono1) simp_all
  also have "\<dots> = divRoundUp (top_addr shs) ?P"
    by (rule divRoundUp_nonneg [symmetric, OF order.trans [OF add_nonneg_nonneg [OF z0(2,1)] top] assms(1)])
  finally show ?thesis .
qed

text \<open>
  C30. For an executable whose allocated sections are aligned and cover different pages, the
  loader maps them all: every page of a section comes from its place in the file (or is
  blank, without an image), is readable, is writable exactly when the section is, and is not
  loaded; the pages are all below what is allocated from then on, and no other page of the
  table changes.
\<close>
theorem loader_maps_sections:
  assumes "wf_table tt" "0 < PageSize cfg" "PageSize cfg < 2 ^ 31" "freePageId as = 0"
    and "\<forall>sh\<in>set shs. allocated sh \<longrightarrow> loadable cfg sh" "disjoint_sections cfg shs"
    and "divRoundUp (top_addr shs) (PageSize cfg) < maxNumPages tt"
  shows "\<exists>as' tt'. load_sections cfg shs as tt = Some (as', tt') \<and> wf_table tt'
    \<and> freePageId as' = divRoundUp (top_addr shs) (PageSize cfg)
    \<and> (\<forall>sh\<in>set shs. allocated sh \<longrightarrow> (\<forall>k < section_size cfg sh.
         let vp = first_page cfg sh + int k; e = entry tt' vp in
         vp < freePageId as' \<and> \<not> valid e \<and> readAllowed e \<and> \<not> swap e \<and> \<not> io e
         \<and> (writeAllowed e \<longleftrightarrow> sh_flags sh AND SHF_WRITE \<noteq> 0)
         \<and> addrDisk e = (if sh_type sh = SHT_NOBITS then - 1 else uint (sh_offset sh) + int k * PageSize cfg)))
    \<and> (\<forall>vp. in_table tt vp \<and> (\<forall>sh\<in>set shs. allocated sh \<longrightarrow> vp \<notin> section_pages cfg sh)
         \<longrightarrow> entry tt' vp = entry tt vp)"
proof -
  let ?N = "divRoundUp (top_addr shs) (PageSize cfg)"
  have pr: "loadable cfg sh \<and> first_page cfg sh + int (section_size cfg sh) \<le> maxNumPages tt"
    if "sh \<in> set shs" "allocated sh" for sh
    using section_below_top [OF assms(2) that] assms(5,7) that by force
  obtain tt' where t: "foldM (load_section cfg) shs tt = Some tt'" "wf_table tt'"
    "\<forall>sh\<in>set shs. allocated sh \<longrightarrow> (\<forall>k < section_size cfg sh.
       entry tt' (first_page cfg sh + int k) = page_of_section cfg sh k (entry tt (first_page cfg sh + int k)))"
    "\<forall>vp. in_table tt vp \<and> (\<forall>sh\<in>set shs. allocated sh \<longrightarrow> vp \<notin> section_pages cfg sh)
         \<longrightarrow> entry tt' vp = entry tt vp"
    using load_all_correct [OF assms(2,3,1,6) pr] by blast
  have "load_sections cfg shs as tt = Some (as\<lparr>freePageId := ?N\<rparr>, tt')"
    using assms(4,7) t(1) by (simp add: load_sections_def Alloc_def getMaxNumPages_def)
  moreover have "let vp = first_page cfg sh + int k; e = entry tt' vp in
         vp < ?N \<and> \<not> valid e \<and> readAllowed e \<and> \<not> swap e \<and> \<not> io e
         \<and> (writeAllowed e \<longleftrightarrow> sh_flags sh AND SHF_WRITE \<noteq> 0)
         \<and> addrDisk e = (if sh_type sh = SHT_NOBITS then - 1 else uint (sh_offset sh) + int k * PageSize cfg)"
    if "sh \<in> set shs" "allocated sh" "k < section_size cfg sh" for sh k
    using section_below_top [OF assms(2) that(1,2)] assms(5) that t(3) by (simp add: Let_def page_of_section_def)
  ultimately show ?thesis using t(2,4) by simp
qed

subsection \<open>Instances\<close>

text \<open>A configuration with sixteen virtual pages, and an address space in use.\<close>

definition vm_cfg :: config where
  "vm_cfg = tiny_cfg\<lparr>MaxVirtPages := 16, UserStackSize := 20\<rparr>"

definition some_space :: "nat AddrSpace" where
  "some_space = \<lparr>CodeStartAddress = 0, freePageId = 2, nb_mapped_files = 0, mapped_files = replicate 10 None\<rparr>"

lemma vm_cfg_pages [simp]: "divRoundUp 20 8 = 3" "divRoundUp 9 8 = 2" "divRoundUp 8 8 = 1"
  by (simp_all add: divRoundUp_nonneg)

theorem stack_is_fresh_witness:
  "\<exists>as' tt'. StackAllocate vm_cfg some_space (TranslationTable_new vm_cfg) = Some (56, as', tt') \<and> freePageId as' = 9"
proof -
  have w: "wf_table (TranslationTable_new vm_cfg)" "maxNumPages (TranslationTable_new vm_cfg) = 16"
    by (simp_all add: vm_cfg_def) (simp add: TranslationTable_new_def)
  obtain sp as' tt' where s: "StackAllocate vm_cfg some_space (TranslationTable_new vm_cfg) = Some (sp, as', tt')"
    using stack_is_fresh [of "TranslationTable_new vm_cfg" vm_cfg some_space] w
    by (auto simp: vm_cfg_def tiny_cfg_def some_space_def)
  then show ?thesis
    using w(2) by (auto simp: StackAllocate_def Alloc_def getMaxNumPages_def some_space_def vm_cfg_def
        tiny_cfg_def Let_def split: bind_splits)
qed

lemma two_maps:
  "\<exists>as1 tt1 as2 tt2. Mmap vm_cfg 7 9 some_space (TranslationTable_new vm_cfg) = Some (16, as1, tt1)
    \<and> Mmap vm_cfg 8 8 as1 tt1 = Some (32, as2, tt2)"
  by (simp add: Mmap_def Alloc_def getMaxNumPages_def some_space_def vm_cfg_def tiny_cfg_def Let_def
      TranslationTable_new_def aset_def mmap_page_def tt_setters pte_set_def aget_def upt_rec
      PageTableEntry_new_def eval_nat_numeral)

theorem second_mapping_shadowed_witness:
  "\<exists>as1 tt1 as2 tt2. Mmap vm_cfg 7 9 some_space (TranslationTable_new vm_cfg) = Some (16, as1, tt1)
    \<and> Mmap vm_cfg 8 8 as1 tt1 = Some (32, as2, tt2) \<and> findMappedFile vm_cfg 32 as2 = Some (Some 7)"
proof -
  obtain as1 tt1 as2 tt2 where m: "Mmap vm_cfg 7 9 some_space (TranslationTable_new vm_cfg) = Some (16, as1, tt1)"
    "Mmap vm_cfg 8 8 as1 tt1 = Some (32, as2, tt2)"
    using two_maps by blast
  have "0 < PageSize vm_cfg" "nb_mapped_files some_space = 0" by (simp_all add: vm_cfg_def tiny_cfg_def some_space_def)
  from second_mapping_shadowed [OF this(1) _ _ this(2) m]
  have "findMappedFile vm_cfg 32 as2 = Some (Some 7)" by (simp add: vm_cfg_def tiny_cfg_def)
  with m show ?thesis by blast
qed

text \<open>A code section with an image at offset 64 and a blank data section behind it.\<close>

definition code_section :: Elf32_Shdr where
  "code_section = \<lparr>sh_name = 0, sh_type = 1, sh_flags = 6, sh_addr = 0, sh_offset = 64, sh_size = 9,
     sh_link = 0, sh_info = 0, sh_addralign = 0, sh_entsize = 0\<rparr>"

definition bss_section :: Elf32_Shdr where
  "bss_section = \<lparr>sh_name = 0, sh_type = 8, sh_flags = 3, sh_addr = 16, sh_offset = 80, sh_size = 8,
     sh_link = 0, sh_info = 0, sh_addralign = 0, sh_entsize = 0\<rparr>"

theorem loader_maps_sections_witness:
  "\<exists>as' tt'. load_sections vm_cfg [code_section, bss_section] (some_space\<lparr>freePageId := 0\<rparr>)
      (TranslationTable_new vm_cfg) = Some (as', tt')
    \<and> addrDisk (entry tt' 1) = 72 \<and> \<not> writeAllowed (entry tt' 1)
    \<and> addrDisk (entry tt' 2) = - 1 \<and> writeAllowed (entry tt' 2)"
proof -
  have w: "wf_table (TranslationTable_new vm_cfg)" "maxNumPages (TranslationTable_new vm_cfg) = 16"
    "PageSize vm_cfg = 8"
    by (simp_all add: vm_cfg_def tiny_cfg_def) (simp add: TranslationTable_new_def)
  have t: "top_addr [code_section, bss_section] = 24"
    by (simp add: top_addr_def code_section_def bss_section_def SHF_ALLOC_def)
  have sz: "section_size vm_cfg code_section = 2" "section_size vm_cfg bss_section = 1"
    "first_page vm_cfg code_section = 0" "first_page vm_cfg bss_section = 2"
    "allocated code_section" "allocated bss_section" "loadable vm_cfg code_section" "loadable vm_cfg bss_section"
    by (simp_all add: section_size_def first_page_def allocated_def loadable_def code_section_def bss_section_def
        SHF_ALLOC_def w)
  have d: "divRoundUp 24 8 = 3" by (simp add: divRoundUp_nonneg)
  have "disjoint_sections vm_cfg [code_section, bss_section]" by (simp add: section_pages_def sz)
  with loader_maps_sections [of "TranslationTable_new vm_cfg" vm_cfg "some_space\<lparr>freePageId := 0\<rparr>"
      "[code_section, bss_section]"]
  obtain as' tt' where l: "load_sections vm_cfg [code_section, bss_section] (some_space\<lparr>freePageId := 0\<rparr>)
      (TranslationTable_new vm_cfg) = Some (as', tt')"
    "\<forall>sh\<in>set [code_section, bss_section]. allocated sh \<longrightarrow> (\<forall>k < section_size vm_cfg sh.
         let vp = first_page vm_cfg sh + int k; e = entry tt' vp in
         vp < freePageId as' \<and> \<not> valid e \<and> readAllowed e \<and> \<not> swap e \<and> \<not> io e
         \<and> (writeAllowed e \<longleftrightarrow> sh_flags sh AND SHF_WRITE \<noteq> 0)
         \<and> addrDisk e = (if sh_type sh = SHT_NOBITS then - 1 else uint (sh_offset sh) + int k * PageSize vm_cfg))"
    using w sz t d by (simp add: some_space_def) blast
  have "addrDisk (entry tt' 1) = 72" "\<not> writeAllowed (entry tt' 1)"
    using l(2) sz(1,3,5) w(3) by (auto simp: Let_def code_section_def SHT_NOBITS_def SHF_WRITE_def dest!: spec [of _ 1])
  moreover have "addrDisk (entry tt' 2) = - 1" "writeAllowed (entry tt' 2)"
    using l(2) sz(2,4,6) w(3) by (auto simp: Let_def bss_section_def SHT_NOBITS_def SHF_WRITE_def)
  ultimately show ?thesis using l(1) by blast
qed

end
