(* ===== verification/Nachos_Interrupt.thy ===== *)
theory Nachos_Interrupt
  imports Nachos_Machine Nachos_List
begin

text \<open>
  The interrupt hardware and simulated time (\<open>machine/interrupt.cc\<close>). The record adds the
  fields of class \<open>Interrupt\<close> to the machine. The list of pending interrupts is the
  sequence of its keys and items: \<open>Nachos_List\<close> shows that \<open>SortedInsert\<close> on the linked
  list is \<open>sorted_place\<close> on the sequence, and \<open>SortedRemove\<close> takes its head.

  What a device handler does is an argument \<open>call\<close>, since handlers belong to the drivers;
  the locale \<open>device_handlers\<close> states what the interrupt hardware needs of them. A call of
  \<open>Yield\<close> by the hardware is an argument too. Time is a natural number: the 64-bit clock
  does not wrap around in a simulation.
\<close>

datatype IntStatus = INTERRUPTS_OFF | INTERRUPTS_ON

datatype IntType = TIMER_INT | DISK_INT | CONSOLE_WRITE_INT | CONSOLE_READ_INT
  | ACIA_RECEIVE_INT | ACIA_SEND_INT

record 'h PendingInterrupt =
  handler :: 'h
  harg :: int
  iwhen :: nat
  itype :: IntType

record 'h interrupts = machine +
  level :: IntStatus
  pending :: "(nat \<times> 'h PendingInterrupt) list"
  inHandler :: bool
  yieldOnReturn :: bool

type_synonym ('h, 'z) device_call =
  "'h \<Rightarrow> int \<Rightarrow> ('h, 'z) interrupts_scheme \<Rightarrow> ('h, 'z) interrupts_scheme option"

text \<open>The part of the constructor: interrupts are off and none is pending.\<close>

definition Interrupt_new :: "('h, 'z) interrupts_scheme \<Rightarrow> ('h, 'z) interrupts_scheme" where
  "Interrupt_new s = s\<lparr>level := INTERRUPTS_OFF, pending := [], inHandler := False, yieldOnReturn := False\<rparr>"

definition now :: "('h, 'z) interrupts_scheme \<Rightarrow> nat" where
  "now s = totalTicks (g_stats s)"

definition ChangeLevel :: "IntStatus \<Rightarrow> ('h, 'z) interrupts_scheme \<Rightarrow> ('h, 'z) interrupts_scheme" where
  "ChangeLevel new s = s\<lparr>level := new\<rparr>"

definition Schedule ::
  "'h \<Rightarrow> int \<Rightarrow> int \<Rightarrow> IntType \<Rightarrow> ('h, 'z) interrupts_scheme \<Rightarrow> ('h, 'z) interrupts_scheme option" where
  "Schedule hnd arg fromNow ty s =
     (if fromNow > 0
      then (let w = nat (int (now s) + fromNow)
            in Some (s\<lparr>pending := sorted_place w \<lparr>handler = hnd, harg = arg, iwhen = w, itype = ty\<rparr> (pending s)\<rparr>))
      else None)"

text \<open>
  The end of \<open>CheckIfDue\<close>: the delayed load of the interrupted instruction completes,
  then the handler runs in system mode.
\<close>

definition fire ::
  "('h, 'z) device_call \<Rightarrow> MachineStatus \<Rightarrow> 'h PendingInterrupt \<Rightarrow> ('h, 'z) interrupts_scheme
   \<Rightarrow> ('h, 'z) interrupts_scheme option" where
  "fire call old toOccur s = do {
     s1 \<leftarrow> DelayedLoad 0 0 s;
     s2 \<leftarrow> call (handler toOccur) (harg toOccur) (s1\<lparr>inHandler := True, status := SYSTEM_MODE\<rparr>);
     Some (s2\<lparr>status := old, inHandler := False\<rparr>) }"

text \<open>
  \<open>CheckIfDue\<close>. The first pending interrupt is taken off the list; when it is not due yet
  it is put back with \<open>SortedInsert\<close>, behind others of the same time.
\<close>

definition CheckIfDue ::
  "('h, 'z) device_call \<Rightarrow> bool \<Rightarrow> ('h, 'z) interrupts_scheme \<Rightarrow> (bool \<times> ('h, 'z) interrupts_scheme) option" where
  "CheckIfDue call advanceClock s =
     (if level s \<noteq> INTERRUPTS_OFF then None
      else case pending s of
        [] \<Rightarrow> Some (False, s)
      | (w, toOccur) # rest \<Rightarrow>
          (if \<not> advanceClock \<and> w > now s
           then Some (False, s\<lparr>pending := sorted_place w toOccur rest\<rparr>)
           else (let s1 = s\<lparr>pending := rest\<rparr>;
                     s2 = (if w > now s
                           then s1\<lparr>g_stats := setTotalTicks w (incrIdleTicks (w - now s) (g_stats s1))\<rparr>
                           else s1)
                 in if status s2 = IDLE_MODE \<and> itype toOccur = TIMER_INT \<and> rest = []
                    then Some (False, s2\<lparr>pending := sorted_place w toOccur rest\<rparr>)
                    else map_option (Pair True) (fire call (status s) toOccur s2))))"

text \<open>The loop \<open>while (CheckIfDue(false));\<close>.\<close>

partial_function (option) check_all ::
  "('h, 'z) device_call \<Rightarrow> ('h, 'z) interrupts_scheme \<Rightarrow> ('h, 'z) interrupts_scheme option" where
  "check_all call s = do {
     (fired, s') \<leftarrow> CheckIfDue call False s;
     if fired then check_all call s' else Some s' }"

text \<open>The counters of the process of the current thread and the clock.\<close>

definition advance :: "nat \<Rightarrow> ('h, 'z) interrupts_scheme \<Rightarrow> ('h, 'z) interrupts_scheme" where
  "advance nbcycles s =
     (let p = current_process s;
          (ps, g) = (if status s = SYSTEM_MODE then incrSystemTicks nbcycles (process_stat s p, g_stats s)
                     else incrUserTicks nbcycles (process_stat s p, g_stats s))
      in s\<lparr>process_stat := (process_stat s)(p := ps), g_stats := g\<rparr>)"

definition OneTick ::
  "('h, 'z) device_call \<Rightarrow> (('h, 'z) interrupts_scheme \<Rightarrow> ('h, 'z) interrupts_scheme option)
   \<Rightarrow> nat \<Rightarrow> ('h, 'z) interrupts_scheme \<Rightarrow> ('h, 'z) interrupts_scheme option" where
  "OneTick call yield nbcycles s =
     (if level s \<noteq> INTERRUPTS_ON then None
      else do {
        let old = status s;
        s1 \<leftarrow> check_all call (ChangeLevel INTERRUPTS_OFF (advance nbcycles s));
        let s2 = ChangeLevel INTERRUPTS_ON s1;
        if yieldOnReturn s2
        then do { s3 \<leftarrow> yield (s2\<lparr>yieldOnReturn := False, status := SYSTEM_MODE\<rparr>); Some (s3\<lparr>status := old\<rparr>) }
        else Some s2 })"

definition SetStatus ::
  "('h, 'z) device_call \<Rightarrow> (('h, 'z) interrupts_scheme \<Rightarrow> ('h, 'z) interrupts_scheme option)
   \<Rightarrow> IntStatus \<Rightarrow> ('h, 'z) interrupts_scheme \<Rightarrow> (IntStatus \<times> ('h, 'z) interrupts_scheme) option" where
  "SetStatus call yield new s =
     (let old = level s in
      if \<not> (new = INTERRUPTS_OFF \<or> \<not> inHandler s) then None
      else do {
        s' \<leftarrow> (if new = INTERRUPTS_ON \<and> old = INTERRUPTS_OFF
              then OneTick call yield SYSTEM_TICK (ChangeLevel new s) else Some (ChangeLevel new s));
        Some (old, s') })"

definition YieldOnReturn :: "('h, 'z) interrupts_scheme \<Rightarrow> ('h, 'z) interrupts_scheme option" where
  "YieldOnReturn s = (if inHandler s then Some (s\<lparr>yieldOnReturn := True\<rparr>) else None)"

text \<open>\<open>Idle\<close> ends the simulation with \<open>Halt\<close> when no interrupt is pending.\<close>

definition Idle :: "('h, 'z) device_call \<Rightarrow> ('h, 'z) interrupts_scheme \<Rightarrow> ('h, 'z) interrupts_scheme option" where
  "Idle call s = do {
     (fired, s1) \<leftarrow> CheckIfDue call True (s\<lparr>status := IDLE_MODE\<rparr>);
     if fired
     then do { s2 \<leftarrow> check_all call s1; Some (s2\<lparr>yieldOnReturn := False, status := SYSTEM_MODE\<rparr>) }
     else None }"

subsection \<open>What handlers must do\<close>

text \<open>Pending interrupts that are due at a time.\<close>

definition due :: "nat \<Rightarrow> (nat \<times> 'h PendingInterrupt) list \<Rightarrow> (nat \<times> 'h PendingInterrupt) list" where
  "due t ps = filter (\<lambda>(w, _). w \<le> t) ps"

definition hw_ok :: "('h, 'z) interrupts_scheme \<Rightarrow> bool" where
  "hw_ok s \<longleftrightarrow> wf_cpu s \<and> sorted (map fst (pending s))"

text \<open>
  \<open>ok\<close> is an invariant of the kernel's part of the state and \<open>acts\<close> what handlers may do to
  that part. A handler runs with interrupts off, does not change the clock, asks for no
  context switch and adds only interrupts of the future; it returns on a well-formed machine.
\<close>

locale device_handlers =
  fixes call :: "('h, 'z) device_call"
    and ok :: "('h, 'z) interrupts_scheme \<Rightarrow> bool"
    and acts :: "('h, 'z) interrupts_scheme \<Rightarrow> ('h, 'z) interrupts_scheme \<Rightarrow> bool"
  assumes ok_more: "interrupts.more s = interrupts.more s' \<Longrightarrow> ok s \<Longrightarrow> ok s'"
    and acts_more: "interrupts.more s = interrupts.more s' \<Longrightarrow> acts s s'"
    and acts_trans: "acts s s' \<Longrightarrow> acts s' s'' \<Longrightarrow> acts s s''"
    and safe: "call h a s = Some s' \<Longrightarrow> ok s \<Longrightarrow> level s = INTERRUPTS_OFF \<Longrightarrow>
      ok s' \<and> acts s s' \<and> level s' = INTERRUPTS_OFF \<and> yieldOnReturn s' = yieldOnReturn s
      \<and> g_stats s' = g_stats s \<and> due (now s) (pending s') = due (now s) (pending s)
      \<and> (hw_ok s \<longrightarrow> hw_ok s')"
    and returns: "hw_ok s \<Longrightarrow> ok s \<Longrightarrow> level s = INTERRUPTS_OFF \<Longrightarrow> inHandler s \<Longrightarrow> call h a s \<noteq> None"

lemma DelayedLoad_result: "DelayedLoad n v s = Some s' \<Longrightarrow> \<exists>r. s' = s\<lparr>int_registers := r\<rparr>"
  by (auto simp: DelayedLoad_def setR_def split: bind_splits)

lemma DelayedLoad_frame:
  assumes "wf_cpu s"
  shows "\<exists>r. DelayedLoad 0 0 s = Some (s\<lparr>int_registers := r\<rparr>) \<and> wf_cpu (s\<lparr>int_registers := r\<rparr>)"
  using DelayedLoad_correct [OF assms, of 0 0] DelayedLoad_result by fastforce

lemma due_Cons: "due t ((w, p) # ps) = (if w \<le> t then (w, p) # due t ps else due t ps)"
  by (simp add: due_def)

lemma due_place_late: "t < w \<Longrightarrow> due t (sorted_place w p ps) = due t ps"
proof -
  assume "t < w"
  then have "due t (sorted_place w p ps) = due t (takeWhile (\<lambda>x. \<not> w < fst x) ps @ dropWhile (\<lambda>x. \<not> w < fst x) ps)"
    by (simp only: sorted_place_def due_def filter_append filter.simps prod.case) simp
  then show ?thesis by simp
qed

lemma due_none: "sorted (map fst ((w, p) # ps)) \<Longrightarrow> t < w \<Longrightarrow> due t ((w, p) # ps) = []"
  by (auto simp: due_def filter_empty_conv)

lemma hw_ok_upd [simp]:
  "hw_ok (s\<lparr>status := st\<rparr>) = hw_ok s" "hw_ok (s\<lparr>inHandler := b\<rparr>) = hw_ok s"
  "hw_ok (s\<lparr>level := l\<rparr>) = hw_ok s" "hw_ok (s\<lparr>yieldOnReturn := b\<rparr>) = hw_ok s"
  "hw_ok (s\<lparr>g_stats := g\<rparr>) = hw_ok s" "hw_ok (s\<lparr>process_stat := ps\<rparr>) = hw_ok s"
  "hw_ok (s\<lparr>pending := p\<rparr>) = (wf_cpu s \<and> sorted (map fst p))"
  by (simp_all add: hw_ok_def wf_cpu_def R_def)

context device_handlers
begin

text \<open>One handler.\<close>

lemma fire_safe:
  assumes "fire call old p s = Some s'" "ok s" "level s = INTERRUPTS_OFF"
  shows "ok s'" "acts s s'" "level s' = INTERRUPTS_OFF" "yieldOnReturn s' = yieldOnReturn s"
    "g_stats s' = g_stats s" "status s' = old" "\<not> inHandler s'"
    "due (now s) (pending s') = due (now s) (pending s)"
proof -
  obtain s1 s2 where s: "DelayedLoad 0 0 s = Some s1"
    "call (handler p) (harg p) (s1\<lparr>inHandler := True, status := SYSTEM_MODE\<rparr>) = Some s2"
    "s' = s2\<lparr>status := old, inHandler := False\<rparr>"
    using assms(1) by (auto simp: fire_def split: bind_splits)
  obtain r where r: "s1 = s\<lparr>int_registers := r\<rparr>" using DelayedLoad_result [OF s(1)] by blast
  let ?s = "s1\<lparr>inHandler := True, status := SYSTEM_MODE\<rparr>"
  have m: "interrupts.more s = interrupts.more ?s" "interrupts.more s2 = interrupts.more s'"
    by (simp_all add: r s(3))
  have l: "level ?s = INTERRUPTS_OFF" using assms(3) r by simp
  note h = safe [OF s(2) ok_more [OF m(1) assms(2)] l]
  show "ok s'" using h ok_more [OF m(2)] by blast
  show "acts s s'" using h acts_more [OF m(1)] acts_more [OF m(2)] acts_trans by blast
  show "level s' = INTERRUPTS_OFF" "yieldOnReturn s' = yieldOnReturn s" "g_stats s' = g_stats s"
    "status s' = old" "\<not> inHandler s'" "due (now s) (pending s') = due (now s) (pending s)"
    using h r s(3) by (simp_all add: now_def)
qed

lemma fire_returns:
  assumes "hw_ok s" "ok s" "level s = INTERRUPTS_OFF"
  shows "\<exists>s'. fire call old p s = Some s' \<and> hw_ok s'"
proof -
  obtain r where r: "DelayedLoad 0 0 s = Some (s\<lparr>int_registers := r\<rparr>)" "wf_cpu (s\<lparr>int_registers := r\<rparr>)"
    using DelayedLoad_frame assms(1) by (auto simp: hw_ok_def)
  let ?s = "s\<lparr>int_registers := r, inHandler := True, status := SYSTEM_MODE\<rparr>"
  have h: "hw_ok ?s" using r(2) assms(1) by (simp add: hw_ok_def wf_cpu_def R_def)
  have o: "ok ?s" using assms(2) by (rule ok_more [rotated]) simp
  obtain s2 where s2: "call (handler p) (harg p) ?s = Some s2"
    using returns [OF h o, of "handler p" "harg p"] assms(3) by auto
  then have "hw_ok s2" using safe [OF s2 o] h assms(3) by simp
  then show ?thesis using r(1) s2 by (simp add: fire_def)
qed

lemma CheckIfDue_safe:
  assumes "CheckIfDue call adv s = Some (b, s')" "ok s"
  shows "ok s' \<and> acts s s' \<and> level s' = INTERRUPTS_OFF \<and> yieldOnReturn s' = yieldOnReturn s
    \<and> (b \<longrightarrow> \<not> inHandler s') \<and> (inHandler s' \<longrightarrow> inHandler s) \<and> now s \<le> now s'"
proof -
  have l: "level s = INTERRUPTS_OFF" using assms(1) by (simp add: CheckIfDue_def split: if_splits)
  have same: "ok t" "acts s t" if "interrupts.more s = interrupts.more t" for t
    using ok_more [OF that assms(2)] acts_more [OF that] by blast+
  show ?thesis
  proof (cases "pending s")
    case Nil
    then show ?thesis using assms l same(2) [of s] by (simp add: CheckIfDue_def)
  next
    case (Cons x rest)
    obtain w p where x: "x = (w, p)" by (cases x)
    define s2 where "s2 = (if w > now s
       then s\<lparr>pending := rest, g_stats := setTotalTicks w (incrIdleTicks (w - now s) (g_stats s))\<rparr>
       else s\<lparr>pending := rest\<rparr>)"
    have m2: "interrupts.more s = interrupts.more s2" by (simp add: s2_def)
    note s2 = same [OF m2]
    have s2': "level s2 = INTERRUPTS_OFF" "yieldOnReturn s2 = yieldOnReturn s"
      "now s \<le> now s2" "inHandler s2 = inHandler s"
      using l by (simp_all add: s2_def now_def setTotalTicks_def incrIdleTicks_def)
    have e: "CheckIfDue call adv s =
        (if \<not> adv \<and> w > now s then Some (False, s\<lparr>pending := sorted_place w p rest\<rparr>)
         else if status s2 = IDLE_MODE \<and> itype p = TIMER_INT \<and> rest = []
         then Some (False, s2\<lparr>pending := sorted_place w p rest\<rparr>)
         else map_option (Pair True) (fire call (status s) p s2))"
      using l Cons x unfolding s2_def by (simp add: CheckIfDue_def Let_def)
    consider "b = False" "s' = s\<lparr>pending := sorted_place w p rest\<rparr>"
      | "b = False" "s' = s2\<lparr>pending := sorted_place w p rest\<rparr>"
      | "b = True" "fire call (status s) p s2 = Some s'"
      using assms(1) unfolding e by (auto split: if_splits)
    then show ?thesis
    proof cases
      case 1
      then show ?thesis using same [of s'] l by (simp add: now_def)
    next
      case 2
      have "interrupts.more s = interrupts.more s'" using m2 unfolding 2 by simp
      note same [OF this]
      moreover have "level s' = INTERRUPTS_OFF" "yieldOnReturn s' = yieldOnReturn s" "inHandler s' = inHandler s"
        "now s \<le> now s'"
        using s2' unfolding 2 by (simp_all add: now_def)
      ultimately show ?thesis using 2(1) by simp
    next
      case 3
      note f = fire_safe [OF 3(2) s2(1) s2'(1)]
      have "now s' = now s2" using f(5) by (simp add: now_def)
      moreover have "acts s s'" using s2(2) f(2) acts_trans by blast
      ultimately show ?thesis using 3(1) f(1,3,4,7) s2'(2,3) by simp
    qed
  qed
qed

lemma check_all_safe:
  assumes "check_all call s = Some s'" "ok s"
  shows "ok s' \<and> acts s s' \<and> level s' = INTERRUPTS_OFF \<and> yieldOnReturn s' = yieldOnReturn s
    \<and> (inHandler s' \<longrightarrow> inHandler s) \<and> now s \<le> now s'"
proof -
  have "ok s \<longrightarrow> ok s' \<and> acts s s' \<and> level s' = INTERRUPTS_OFF \<and> yieldOnReturn s' = yieldOnReturn s
    \<and> (inHandler s' \<longrightarrow> inHandler s) \<and> now s \<le> now s'"
  proof (rule check_all.raw_induct [where P = "\<lambda>c s s'. c = call \<longrightarrow> ok s \<longrightarrow> ok s' \<and> acts s s'
      \<and> level s' = INTERRUPTS_OFF \<and> yieldOnReturn s' = yieldOnReturn s
      \<and> (inHandler s' \<longrightarrow> inHandler s) \<and> now s \<le> now s'", OF _ assms(1), THEN mp, OF _ refl])
    fix rec :: "('h, 'z) device_call \<Rightarrow> ('h, 'z) interrupts_scheme \<Rightarrow> ('h, 'z) interrupts_scheme option"
      and c :: "('h, 'z) device_call" and s s' :: "('h, 'z) interrupts_scheme"
    assume IH: "\<And>c s s'. rec c s = Some s' \<Longrightarrow> c = call \<longrightarrow> ok s \<longrightarrow> ok s' \<and> acts s s'
      \<and> level s' = INTERRUPTS_OFF \<and> yieldOnReturn s' = yieldOnReturn s
      \<and> (inHandler s' \<longrightarrow> inHandler s) \<and> now s \<le> now s'"
      and st: "Option.bind (CheckIfDue c False s) (\<lambda>(fired, s'). if fired then rec c s' else Some s') = Some s'"
    show "c = call \<longrightarrow> ok s \<longrightarrow> ok s' \<and> acts s s'
      \<and> level s' = INTERRUPTS_OFF \<and> yieldOnReturn s' = yieldOnReturn s
      \<and> (inHandler s' \<longrightarrow> inHandler s) \<and> now s \<le> now s'"
    proof (intro impI)
      assume c: "c = call" and o: "ok s"
      obtain b s1 where b: "CheckIfDue call False s = Some (b, s1)" "(if b then rec c s1 else Some s1) = Some s'"
        using st c by (auto split: bind_splits)
      note h = CheckIfDue_safe [OF b(1) o]
      show "ok s' \<and> acts s s' \<and> level s' = INTERRUPTS_OFF \<and> yieldOnReturn s' = yieldOnReturn s
        \<and> (inHandler s' \<longrightarrow> inHandler s) \<and> now s \<le> now s'"
      proof (cases b)
        case True
        then have "rec c s1 = Some s'" using b(2) by simp
        from IH [OF this] c h show ?thesis by (metis acts_trans order.trans)
      next
        case False
        then show ?thesis using b(2) h by simp
      qed
    qed
  qed
  then show ?thesis using assms(2) by blast
qed

lemma OneTick_safe:
  assumes "OneTick call yield n s = Some s'" "ok s" "\<not> yieldOnReturn s"
  shows "ok s' \<and> acts s s' \<and> level s' = INTERRUPTS_ON \<and> \<not> yieldOnReturn s'
    \<and> (inHandler s' \<longrightarrow> inHandler s) \<and> now s + n \<le> now s'"
proof -
  let ?s = "ChangeLevel INTERRUPTS_OFF (advance n s)"
  obtain s1 where s1: "check_all call ?s = Some s1" and
    e: "(let s2 = ChangeLevel INTERRUPTS_ON s1 in if yieldOnReturn s2
        then do { s3 \<leftarrow> yield (s2\<lparr>yieldOnReturn := False, status := SYSTEM_MODE\<rparr>); Some (s3\<lparr>status := status s\<rparr>) }
        else Some s2) = Some s'"
    using assms(1) by (auto simp: OneTick_def Let_def split: if_splits bind_splits)
  have m: "interrupts.more s = interrupts.more ?s" by (simp add: ChangeLevel_def advance_def Let_def split_beta)
  have a: "yieldOnReturn ?s = yieldOnReturn s" "now ?s = now s + n" "inHandler ?s = inHandler s"
    by (simp_all add: ChangeLevel_def advance_def now_def incrSystemTicks_def incrUserTicks_def
        incrTotalTicks_def Let_def split_beta)
  note h = check_all_safe [OF s1 ok_more [OF m assms(2)]]
  have s': "s' = ChangeLevel INTERRUPTS_ON s1" using e h a(1) assms(3) by (simp add: ChangeLevel_def)
  have m': "interrupts.more s1 = interrupts.more s'" unfolding s' by (simp add: ChangeLevel_def)
  have "ok s'" using h ok_more [OF m'] by blast
  moreover have "acts s s'" using h acts_more [OF m] acts_more [OF m'] acts_trans by blast
  moreover have "level s' = INTERRUPTS_ON" "yieldOnReturn s' = yieldOnReturn s1" "inHandler s' = inHandler s1"
    "now s' = now s1"
    unfolding s' by (simp_all add: ChangeLevel_def now_def)
  ultimately show ?thesis using h a assms(3) by simp
qed

lemma SetStatus_safe:
  assumes "SetStatus call yield new s = Some (old, s')" "ok s" "\<not> yieldOnReturn s"
  shows "old = level s \<and> ok s' \<and> acts s s' \<and> level s' = new \<and> \<not> yieldOnReturn s'"
proof -
  have m: "interrupts.more s = interrupts.more (ChangeLevel new s)" "yieldOnReturn (ChangeLevel new s) = yieldOnReturn s"
    "level (ChangeLevel new s) = new"
    by (simp_all add: ChangeLevel_def)
  note c = ok_more [OF m(1) assms(2)] acts_more [OF m(1)]
  show ?thesis
  proof (cases "new = INTERRUPTS_ON \<and> level s = INTERRUPTS_OFF")
    case True
    then have "old = level s" "OneTick call yield SYSTEM_TICK (ChangeLevel new s) = Some s'"
      using assms(1) by (auto simp: SetStatus_def Let_def split: if_splits bind_splits)
    then show ?thesis using OneTick_safe [OF _ c(1)] m assms(3) c(2) acts_trans True by blast
  next
    case False
    then have "old = level s" "s' = ChangeLevel new s"
      using assms(1) by (auto simp: SetStatus_def Let_def split: if_splits)
    then show ?thesis using c m assms(3) by simp
  qed
qed

lemma Idle_safe:
  assumes "Idle call s = Some s'" "ok s"
  shows "ok s' \<and> acts s s' \<and> level s' = INTERRUPTS_OFF \<and> \<not> yieldOnReturn s' \<and> now s \<le> now s'"
proof -
  let ?s = "s\<lparr>status := IDLE_MODE\<rparr>"
  obtain s1 s2 where s: "CheckIfDue call True ?s = Some (True, s1)" "check_all call s1 = Some s2"
    "s' = s2\<lparr>yieldOnReturn := False, status := SYSTEM_MODE\<rparr>"
    using assms(1) by (auto simp: Idle_def split: if_splits bind_splits)
  have m: "interrupts.more s = interrupts.more ?s" "interrupts.more s2 = interrupts.more s'" by (simp_all add: s(3))
  note h1 = CheckIfDue_safe [OF s(1) ok_more [OF m(1) assms(2)]]
  have o: "ok s1" using h1 by simp
  note h2 = check_all_safe [OF s(2) o]
  have "acts s s'" using acts_more [OF m(1)] h1 h2 acts_more [OF m(2)] acts_trans by blast
  moreover have "ok s'" using ok_more [OF m(2)] h2 by blast
  moreover have "now ?s = now s" "now s2 = now s'" "level s' = level s2" by (simp_all add: s(3) now_def)
  ultimately show ?thesis using h1 h2 s(3) by simp
qed

subsection \<open>Ticks return\<close>

lemma check_step:
  assumes "hw_ok s" "ok s" "level s = INTERRUPTS_OFF"
  shows "(\<exists>s'. CheckIfDue call False s = Some (False, s') \<and> hw_ok s' \<and> g_stats s' = g_stats s
      \<and> (due (now s) (pending s') = [] \<or> (status s = IDLE_MODE \<and> length (pending s') = 1)))
    \<or> (\<exists>s'. CheckIfDue call False s = Some (True, s') \<and> hw_ok s' \<and> ok s' \<and> level s' = INTERRUPTS_OFF
      \<and> g_stats s' = g_stats s \<and> status s' = status s
      \<and> length (due (now s) (pending s')) < length (due (now s) (pending s)))"
proof (cases "pending s")
  case Nil
  then show ?thesis using assms by (simp add: CheckIfDue_def due_def)
next
  case (Cons x rest)
  obtain w p where x: "x = (w, p)" by (cases x)
  have srt: "sorted (map fst ((w, p) # rest))" "wf_cpu s" using assms(1) Cons x by (simp_all add: hw_ok_def)
  then have so: "sorted (map fst (sorted_place w p rest))" by (intro sorted_place_sorted) simp
  show ?thesis
  proof (cases "w > now s")
    case True
    have "due (now s) (sorted_place w p rest) = []"
      using due_none [OF srt(1) True] True by (simp add: due_place_late due_Cons)
    then show ?thesis using True assms(3) Cons x srt so by (simp add: CheckIfDue_def)
  next
    case False
    let ?s1 = "s\<lparr>pending := rest\<rparr>"
    show ?thesis
    proof (cases "status s = IDLE_MODE \<and> itype p = TIMER_INT \<and> rest = []")
      case True
      then show ?thesis
        using False assms(3) Cons x srt by (simp add: CheckIfDue_def Let_def sorted_place_def)
    next
      case live: False
      have h: "hw_ok ?s1" "level ?s1 = INTERRUPTS_OFF" using srt assms(3) by simp_all
      have o: "ok ?s1" using assms(2) by (rule ok_more [rotated]) simp
      obtain s' where s': "fire call (status s) p ?s1 = Some s'" "hw_ok s'" using fire_returns [OF h(1) o h(2)] by blast
      note f = fire_safe [OF s'(1) o h(2)]
      have n: "now ?s1 = now s" by (simp add: now_def)
      have "CheckIfDue call False s = Some (True, s')"
        using False live assms(3) Cons x s'(1) by (simp add: CheckIfDue_def Let_def)
      moreover have "length (due (now s) (pending s')) < length (due (now s) (pending s))"
        using f(8) False Cons x unfolding n by (simp add: due_Cons)
      ultimately show ?thesis using s'(2) f(1,3,5,6) by simp
    qed
  qed
qed

text \<open>
  The loop ends: each round handles one interrupt that was due, and handlers add none that
  is due.
\<close>

lemma check_all_returns:
  assumes "hw_ok s" "ok s" "level s = INTERRUPTS_OFF"
  shows "\<exists>s'. check_all call s = Some s' \<and> hw_ok s'
    \<and> (due (now s) (pending s') = [] \<or> (status s = IDLE_MODE \<and> length (pending s') = 1))
    \<and> now s' = now s"
  using assms
proof (induction "length (due (now s) (pending s))" arbitrary: s rule: less_induct)
  case less
  from check_step [OF less.prems] show ?case
  proof (elim disjE exE conjE)
    fix s'
    assume "CheckIfDue call False s = Some (False, s')" "hw_ok s'" "g_stats s' = g_stats s"
      "due (now s) (pending s') = []"
    then show ?thesis by (subst check_all.simps) (simp add: now_def)
  next
    fix s'
    assume "CheckIfDue call False s = Some (False, s')" "hw_ok s'" "g_stats s' = g_stats s"
      "status s = IDLE_MODE" "length (pending s') = 1"
    then show ?thesis by (subst check_all.simps) (simp add: now_def)
  next
    fix s'
    assume s': "CheckIfDue call False s = Some (True, s')" "hw_ok s'" "ok s'" "level s' = INTERRUPTS_OFF"
      "g_stats s' = g_stats s" "status s' = status s"
      "length (due (now s) (pending s')) < length (due (now s) (pending s))"
    have n: "now s' = now s" using s'(5) by (simp add: now_def)
    obtain s'' where "check_all call s' = Some s''" "hw_ok s''" "now s'' = now s'"
      "due (now s') (pending s'') = [] \<or> (status s' = IDLE_MODE \<and> length (pending s'') = 1)"
      using less.hyps [of s'] s' unfolding n by blast
    then show ?thesis using s' n by (subst check_all.simps) simp
  qed
qed

text \<open>A tick returns, advances the clock by its cycles, and leaves no interrupt due.\<close>

lemma OneTick_returns:
  assumes "hw_ok s" "ok s" "level s = INTERRUPTS_ON" "\<not> yieldOnReturn s"
  shows "\<exists>s'. OneTick call yield n s = Some s' \<and> hw_ok s' \<and> ok s' \<and> level s' = INTERRUPTS_ON
    \<and> now s' = now s + n \<and> (due (now s') (pending s') = [] \<or> status s = IDLE_MODE)"
proof -
  let ?s = "ChangeLevel INTERRUPTS_OFF (advance n s)"
  have m: "interrupts.more s = interrupts.more ?s" by (simp add: ChangeLevel_def advance_def Let_def split_beta)
  have a: "hw_ok ?s" "level ?s = INTERRUPTS_OFF" "now ?s = now s + n" "status ?s = status s"
    "yieldOnReturn ?s = yieldOnReturn s"
    using assms(1)
    by (simp_all add: ChangeLevel_def advance_def now_def incrSystemTicks_def incrUserTicks_def
        incrTotalTicks_def Let_def split_beta)
  have o: "ok ?s" using ok_more [OF m assms(2)] .
  obtain s1 where s1: "check_all call ?s = Some s1" "hw_ok s1" "now s1 = now ?s"
    "due (now ?s) (pending s1) = [] \<or> (status ?s = IDLE_MODE \<and> length (pending s1) = 1)"
    using check_all_returns [OF a(1) o a(2)] by blast
  have y: "\<not> yieldOnReturn s1" using check_all_safe [OF s1(1) o] a(5) assms(4) by simp
  let ?s2 = "ChangeLevel INTERRUPTS_ON s1"
  have t: "OneTick call yield n s = Some ?s2"
    using assms(3) s1(1) y by (simp add: OneTick_def Let_def ChangeLevel_def)
  moreover have "hw_ok ?s2" "level ?s2 = INTERRUPTS_ON" "now ?s2 = now s1" "pending ?s2 = pending s1"
    using s1(2) by (simp_all add: ChangeLevel_def now_def)
  moreover have "ok ?s2" using OneTick_safe [OF t assms(2,4)] by simp
  ultimately show ?thesis using s1(3,4) a(3,4) by auto
qed

end

end
