(* ===== verification/Nachos_Kernel.thy ===== *)
theory Nachos_Kernel
  imports Nachos_Interrupt Nachos_AddrSpace Nachos_Disk
begin

text \<open>
  Threads, the scheduler and synchronisation: \<open>kernel/thread.cc\<close>, \<open>kernel/scheduler.cc\<close>,
  \<open>kernel/synch.cc\<close> and the interrupt side of \<open>drivers/drvDisk.cc\<close>.

  Threads, processes, semaphores, locks and conditions are objects named by numbers. Their
  queues are the sequences that the linked lists stand for (\<open>Nachos_List\<close>).

  A context switch leaves a kernel call in the middle. \<open>getcontext\<close> and \<open>setcontext\<close> keep
  where: here each call that may switch names what is left to do when the thread runs again,
  a value of \<open>resume\<close>, which \<open>SwitchTo\<close> stores in \<open>conts\<close>. A call thus ends in an
  \<open>outcome\<close>: it returned to the thread that made it, or the processor now belongs to another
  thread, whose own call goes on with \<open>resume_thread\<close>. The last section turns this into a
  step relation.

  The handler of the timer is commented out in \<open>kernel/system.cc\<close>, so nothing calls
  \<open>YieldOnReturn\<close>: a context switch inside a tick has no value here, and \<open>yieldOnReturn\<close>
  stays false (part of every invariant below). Stacks of the simulator are left out.
\<close>

subsection \<open>State\<close>

datatype irq = Disk_irq | Swap_irq

record thread =
  t_process :: "nat option"
  t_int_registers :: "u32 list"
  t_float_registers :: "u32 list"
  t_cc :: byte

record Process =
  numThreads :: int
  addrspace :: "nat AddrSpace"
  ptable :: nat

record Semaphore =
  svalue :: int
  squeue :: "nat list"

record Lock =
  sleepqueue :: "nat list"
  lfree :: bool
  lowner :: "nat option"

record Condition =
  waitqueue :: "nat list"

datatype resume =
    StartThreadExecution
  | After_P nat IntStatus
  | After_Acquire nat IntStatus
  | After_Wait IntStatus
  | After_Yield IntStatus
  | After_Join nat IntStatus
  | After_Finish IntStatus

record kernel = "irq interrupts" +
  g_current_thread :: nat
  readyList :: "nat list"
  g_alive :: "nat list"
  g_thread_to_be_destroyed :: "nat option"
  threads :: "nat \<Rightarrow> thread option"
  processes :: "nat \<Rightarrow> Process option"
  semaphores :: "nat \<Rightarrow> Semaphore option"
  locks :: "nat \<Rightarrow> Lock option"
  conditions :: "nat \<Rightarrow> Condition option"
  conts :: "nat \<Rightarrow> resume option"
  disks :: "irq \<Rightarrow> disk"
  driver_semaphore :: "irq \<Rightarrow> nat"

type_synonym 'a kcall = "'a kernel_scheme \<Rightarrow> 'a kernel_scheme option"

datatype 'a outcome = Returned 'a | Switched 'a

primrec state_of :: "'a outcome \<Rightarrow> 'a" where
  "state_of (Returned k) = k"
| "state_of (Switched k) = k"

primrec switched :: "'a outcome \<Rightarrow> bool" where
  "switched (Returned k) = False"
| "switched (Switched k) = True"

text \<open>What a call does after a call that may switch.\<close>

definition after :: "'a outcome \<Rightarrow> ('a \<Rightarrow> 'a outcome option) \<Rightarrow> 'a outcome option" where
  "after out f = (case out of Returned k \<Rightarrow> f k | Switched k \<Rightarrow> Some (Switched k))"

subsection \<open>Interrupts\<close>

definition ReadyToRun :: "nat \<Rightarrow> 'a kernel_scheme \<Rightarrow> 'a kernel_scheme" where
  "ReadyToRun t k = k\<lparr>readyList := readyList k @ [t]\<rparr>"

definition FindNextToRun :: "'a kernel_scheme \<Rightarrow> nat option \<times> 'a kernel_scheme" where
  "FindNextToRun k =
     (case readyList k of [] \<Rightarrow> (None, k) | t # ts \<Rightarrow> (Some t, k\<lparr>readyList := ts\<rparr>))"

text \<open>
  \<open>V\<close> over what pending interrupts do when it enables interrupts. A handler runs with
  interrupts off and leaves them off: its own \<open>V\<close> meets no interrupt.
\<close>

definition V_with :: "(irq, 'a kernel_ext) device_call \<Rightarrow> nat \<Rightarrow> 'a kcall" where
  "V_with call sid k = do {
     let oldLevel = level k;
     (_, k1) \<leftarrow> SetStatus call (\<lambda>_. None) INTERRUPTS_OFF k;
     s \<leftarrow> semaphores k1 sid;
     let k2 = (case squeue s of
         [] \<Rightarrow> k1\<lparr>semaphores := (semaphores k1)(sid \<mapsto> s\<lparr>svalue := svalue s + 1\<rparr>)\<rparr>
       | t # ts \<Rightarrow> ReadyToRun t
           (k1\<lparr>semaphores := (semaphores k1)(sid \<mapsto> s\<lparr>svalue := svalue s + 1, squeue := ts\<rparr>)\<rparr>));
     (_, k3) \<leftarrow> SetStatus call (\<lambda>_. None) oldLevel k2;
     Some k3 }"

text \<open>The disk's interrupt: \<open>Disk::HandleInterrupt\<close>, then \<open>RequestDone\<close> of its driver.\<close>

definition RequestDone :: "irq \<Rightarrow> 'a kcall" where
  "RequestDone i k = V_with (\<lambda>_ _ _. None) (driver_semaphore k i) k"

definition device_call :: "(irq, 'a kernel_ext) device_call" where
  "device_call i arg k = RequestDone i (k\<lparr>disks := (disks k)(i := HandleInterrupt (disks k i))\<rparr>)"

definition set_level :: "IntStatus \<Rightarrow> 'a kcall" where
  "set_level l k = map_option snd (SetStatus device_call (\<lambda>_. None) l k)"

subsection \<open>Context switches\<close>

definition SaveProcessorState :: "nat \<Rightarrow> 'a kcall" where
  "SaveProcessorState t k = do {
     th \<leftarrow> threads k t;
     Some (k\<lparr>threads := (threads k)(t \<mapsto> th\<lparr>t_int_registers := int_registers k,
       t_float_registers := float_registers k, t_cc := ReadCC k\<rparr>)\<rparr>) }"

definition RestoreProcessorState :: "nat \<Rightarrow> 'a kcall" where
  "RestoreProcessorState t k = do {
     th \<leftarrow> threads k t;
     pid \<leftarrow> t_process th;
     pr \<leftarrow> processes k pid;
     Some (k\<lparr>int_registers := t_int_registers th, float_registers := t_float_registers th,
             cc := t_cc th, mmu_table := Some (ptable pr)\<rparr>) }"

text \<open>The destructor of a thread. The address space of a process goes with it.\<close>

definition Thread_delete :: "nat \<Rightarrow> 'a kcall" where
  "Thread_delete t k = do {
     let oldLevel = level k;
     k1 \<leftarrow> set_level INTERRUPTS_OFF k;
     th \<leftarrow> threads k1 t;
     pid \<leftarrow> t_process th;
     pr \<leftarrow> processes k1 pid;
     let k2 = k1\<lparr>processes := (processes k1)(pid :=
         (if numThreads pr - 1 = 0 then None else Some (pr\<lparr>numThreads := numThreads pr - 1\<rparr>))),
       threads := (threads k1)(t := None)\<rparr>;
     set_level oldLevel k2 }"

definition destroy_carcass :: "'a kcall" where
  "destroy_carcass k =
     (case g_thread_to_be_destroyed k of
        None \<Rightarrow> Some k
      | Some t \<Rightarrow> Thread_delete t (k\<lparr>g_thread_to_be_destroyed := None\<rparr>))"

text \<open>
  When the next thread is the current one, the call goes on at once; otherwise it goes on
  from \<open>kt\<close> when the thread runs again.
\<close>

definition SwitchTo :: "nat \<Rightarrow> resume \<Rightarrow> 'a kernel_scheme \<Rightarrow> 'a kernel_scheme outcome option" where
  "SwitchTo next kt k = do {
     let oldThread = g_current_thread k;
     th \<leftarrow> threads k next;
     pid \<leftarrow> t_process th;
     k1 \<leftarrow> SaveProcessorState oldThread (k\<lparr>g_current_thread := next, current_process := pid\<rparr>);
     if oldThread \<noteq> next
     then do {
       k2 \<leftarrow> RestoreProcessorState next k1;
       Some (Switched (k2\<lparr>conts := (conts k2)(oldThread \<mapsto> kt)\<rparr>)) }
     else map_option Returned (destroy_carcass k1) }"

text \<open>The loop of \<open>Sleep\<close>; it has no value when \<open>Idle\<close> halts the machine.\<close>

partial_function (option) next_thread :: "'a kernel_scheme \<Rightarrow> (nat \<times> 'a kernel_scheme) option" where
  "next_thread k =
     (case FindNextToRun k of
        (Some t, k') \<Rightarrow> Some (t, k')
      | (None, k') \<Rightarrow> do { k'' \<leftarrow> Idle device_call k'; next_thread k'' })"

definition Sleep :: "resume \<Rightarrow> 'a kernel_scheme \<Rightarrow> 'a kernel_scheme outcome option" where
  "Sleep kt k =
     (if level k = INTERRUPTS_OFF
      then do { (next, k1) \<leftarrow> next_thread k; SwitchTo next kt k1 }
      else None)"

definition set_level_return :: "IntStatus \<Rightarrow> 'a kernel_scheme \<Rightarrow> 'a kernel_scheme outcome option" where
  "set_level_return l k = map_option Returned (set_level l k)"

definition Yield_with :: "(IntStatus \<Rightarrow> resume) \<Rightarrow> 'a kernel_scheme \<Rightarrow> 'a kernel_scheme outcome option" where
  "Yield_with kt k = do {
     let oldLevel = level k;
     k1 \<leftarrow> set_level INTERRUPTS_OFF k;
     (case FindNextToRun k1 of
        (None, k2) \<Rightarrow> set_level_return oldLevel k2
      | (Some next, k2) \<Rightarrow> do {
          out \<leftarrow> SwitchTo next (kt oldLevel) (ReadyToRun (g_current_thread k2) k2);
          after out (set_level_return oldLevel) }) }"

definition Thread_Yield :: "'a kernel_scheme \<Rightarrow> 'a kernel_scheme outcome option" where
  "Thread_Yield k = Yield_with After_Yield k"

partial_function (option) Thread_Join :: "nat \<Rightarrow> 'a kernel_scheme \<Rightarrow> 'a kernel_scheme outcome option" where
  "Thread_Join target k =
     (if target \<in> set (g_alive k)
      then do {
        out \<leftarrow> Yield_with (After_Join target) k;
        (case out of Returned k' \<Rightarrow> Thread_Join target k' | Switched k' \<Rightarrow> Some (Switched k')) }
      else Some (Returned k))"

text \<open>
  \<open>RemoveItem\<close> on the sequence: \<open>remove_item_needs_item\<close> of \<open>Nachos_List\<close> shows that it
  returns only when the item is there and rotates the list.
\<close>

definition remove_item :: "nat \<Rightarrow> nat list \<Rightarrow> nat list option" where
  "remove_item x xs =
     (if x \<in> set xs then Some (tl (dropWhile (\<lambda>y. y \<noteq> x) xs) @ takeWhile (\<lambda>y. y \<noteq> x) xs) else None)"

definition Thread_Finish :: "'a kernel_scheme \<Rightarrow> 'a kernel_scheme outcome option" where
  "Thread_Finish k = do {
     let oldStatus = level k;
     k1 \<leftarrow> set_level INTERRUPTS_OFF k;
     alive \<leftarrow> remove_item (g_current_thread k1) (g_alive k1);
     out \<leftarrow> Sleep (After_Finish oldStatus)
       (k1\<lparr>g_thread_to_be_destroyed := Some (g_current_thread k1), g_alive := alive\<rparr>);
     after out (set_level_return oldStatus) }"

subsection \<open>New threads\<close>

text \<open>The constructor leaves the saved context as the memory was.\<close>

definition Thread_new :: "config \<Rightarrow> nat \<Rightarrow> 'a kcall" where
  "Thread_new cfg t k =
     (if threads k t = None
      then Some (k\<lparr>threads := (threads k)(t \<mapsto> \<lparr>t_process = None,
        t_int_registers = map (\<lambda>i. word_of_int (fresh cfg i)) [0..<NUM_INT_REGS],
        t_float_registers = map (\<lambda>i. word_of_int (fresh cfg i)) [0..<NUM_FP_REGS],
        t_cc = word_of_int (fresh cfg 0)\<rparr>)\<rparr>)
      else None)"

definition InitThreadContext :: "u32 \<Rightarrow> u32 \<Rightarrow> u32 \<Rightarrow> thread \<Rightarrow> thread" where
  "InitThreadContext initialPCREG initialSP arg th =
     th\<lparr>t_int_registers := (replicate NUM_INT_REGS 0)[PC_REG := initialPCREG,
       NEXTPC_REG := initialPCREG + 4, 4 := arg, STACK_REG := initialSP]\<rparr>"

definition Thread_Start :: "config \<Rightarrow> nat \<Rightarrow> nat \<Rightarrow> u32 \<Rightarrow> u32 \<Rightarrow> 'a kcall" where
  "Thread_Start cfg t owner func arg k = do {
     let oldLevel = level k;
     k1 \<leftarrow> set_level INTERRUPTS_OFF k;
     th \<leftarrow> threads k1 t;
     if t_process th \<noteq> None then None
     else do {
       pr \<leftarrow> processes k1 owner;
       tt \<leftarrow> tables k1 (ptable pr);
       (sp, as, tt') \<leftarrow> StackAllocate cfg (addrspace pr) tt;
       let k2 = k1\<lparr>threads := (threads k1)(t \<mapsto>
             InitThreadContext func (word_of_int sp) arg (th\<lparr>t_process := Some owner\<rparr>)),
           processes := (processes k1)(owner \<mapsto> pr\<lparr>numThreads := numThreads pr + 1, addrspace := as\<rparr>),
           tables := (tables k1)(ptable pr \<mapsto> tt'),
           g_alive := g_alive k1 @ [t],
           conts := (conts k1)(t \<mapsto> StartThreadExecution)\<rparr>;
       set_level oldLevel (ReadyToRun t k2) } }"

subsection \<open>Semaphores, locks, conditions\<close>

definition Semaphore_new :: "nat \<Rightarrow> int \<Rightarrow> 'a kcall" where
  "Semaphore_new sid initialValue k =
     (if semaphores k sid = None
      then Some (k\<lparr>semaphores := (semaphores k)(sid \<mapsto> \<lparr>svalue = initialValue, squeue = []\<rparr>)\<rparr>) else None)"

definition Semaphore_delete :: "nat \<Rightarrow> 'a kcall" where
  "Semaphore_delete sid k = do {
     s \<leftarrow> semaphores k sid;
     if squeue s = [] then Some (k\<lparr>semaphores := (semaphores k)(sid := None)\<rparr>) else None }"

definition P_end :: "nat \<Rightarrow> IntStatus \<Rightarrow> 'a kernel_scheme \<Rightarrow> 'a kernel_scheme outcome option" where
  "P_end sid oldLevel k = do {
     s \<leftarrow> semaphores k sid;
     set_level_return oldLevel (k\<lparr>semaphores := (semaphores k)(sid \<mapsto> s\<lparr>svalue := svalue s - 1\<rparr>)\<rparr>) }"

definition Semaphore_P :: "nat \<Rightarrow> 'a kernel_scheme \<Rightarrow> 'a kernel_scheme outcome option" where
  "Semaphore_P sid k = do {
     let oldLevel = level k;
     k1 \<leftarrow> set_level INTERRUPTS_OFF k;
     s \<leftarrow> semaphores k1 sid;
     out \<leftarrow> (if svalue s \<le> 0
            then Sleep (After_P sid oldLevel) (k1\<lparr>semaphores :=
              (semaphores k1)(sid \<mapsto> s\<lparr>squeue := squeue s @ [g_current_thread k1]\<rparr>)\<rparr>)
            else Some (Returned k1));
     after out (P_end sid oldLevel) }"

definition Semaphore_V :: "nat \<Rightarrow> 'a kcall" where
  "Semaphore_V sid k = V_with device_call sid k"

definition Lock_new :: "nat \<Rightarrow> 'a kcall" where
  "Lock_new lid k =
     (if locks k lid = None
      then Some (k\<lparr>locks := (locks k)(lid \<mapsto> \<lparr>sleepqueue = [], lfree = True, lowner = None\<rparr>)\<rparr>) else None)"

definition Lock_delete :: "nat \<Rightarrow> 'a kcall" where
  "Lock_delete lid k = do {
     l \<leftarrow> locks k lid;
     if sleepqueue l = [] then Some (k\<lparr>locks := (locks k)(lid := None)\<rparr>) else None }"

definition isHeldByCurrentThread :: "Lock \<Rightarrow> 'a kernel_scheme \<Rightarrow> bool" where
  "isHeldByCurrentThread l k \<longleftrightarrow> lowner l = Some (g_current_thread k)"

definition Lock_Acquire :: "nat \<Rightarrow> 'a kernel_scheme \<Rightarrow> 'a kernel_scheme outcome option" where
  "Lock_Acquire lid k = do {
     let oldLevel = level k;
     k1 \<leftarrow> set_level INTERRUPTS_OFF k;
     l \<leftarrow> locks k1 lid;
     out \<leftarrow> (if \<not> lfree l
            then Sleep (After_Acquire lid oldLevel) (k1\<lparr>locks :=
              (locks k1)(lid \<mapsto> l\<lparr>sleepqueue := sleepqueue l @ [g_current_thread k1]\<rparr>)\<rparr>)
            else Some (Returned (k1\<lparr>locks := (locks k1)(lid \<mapsto>
              l\<lparr>lowner := Some (g_current_thread k1), lfree := False\<rparr>)\<rparr>)));
     after out (set_level_return oldLevel) }"

definition Lock_Release :: "nat \<Rightarrow> 'a kcall" where
  "Lock_Release lid k = do {
     let oldLevel = level k;
     k1 \<leftarrow> set_level INTERRUPTS_OFF k;
     l \<leftarrow> locks k1 lid;
     if isHeldByCurrentThread l k1
     then set_level oldLevel
       (case sleepqueue l of
          [] \<Rightarrow> k1\<lparr>locks := (locks k1)(lid \<mapsto> l\<lparr>lfree := True, lowner := None\<rparr>)\<rparr>
        | t # ts \<Rightarrow> ReadyToRun t (k1\<lparr>locks := (locks k1)(lid \<mapsto> l\<lparr>sleepqueue := ts, lowner := Some t\<rparr>)\<rparr>))
     else None }"

definition Condition_new :: "nat \<Rightarrow> 'a kcall" where
  "Condition_new cid k =
     (if conditions k cid = None
      then Some (k\<lparr>conditions := (conditions k)(cid \<mapsto> \<lparr>waitqueue = []\<rparr>)\<rparr>) else None)"

definition Condition_delete :: "nat \<Rightarrow> 'a kcall" where
  "Condition_delete cid k = do {
     c \<leftarrow> conditions k cid;
     if waitqueue c = [] then Some (k\<lparr>conditions := (conditions k)(cid := None)\<rparr>) else None }"

text \<open>\<open>Wait\<close> does not use the condition: the thread is not put in the wait queue.\<close>

definition Condition_Wait :: "nat \<Rightarrow> 'a kernel_scheme \<Rightarrow> 'a kernel_scheme outcome option" where
  "Condition_Wait cid k = do {
     let oldLevel = level k;
     k1 \<leftarrow> set_level INTERRUPTS_OFF k;
     out \<leftarrow> Sleep (After_Wait oldLevel) k1;
     after out (set_level_return oldLevel) }"

definition Condition_Signal :: "nat \<Rightarrow> 'a kcall" where
  "Condition_Signal cid k = do {
     let oldLevel = level k;
     k1 \<leftarrow> set_level INTERRUPTS_OFF k;
     c \<leftarrow> conditions k1 cid;
     set_level oldLevel
       (case waitqueue c of
          [] \<Rightarrow> k1
        | t # ts \<Rightarrow> ReadyToRun t (k1\<lparr>conditions := (conditions k1)(cid \<mapsto> c\<lparr>waitqueue := ts\<rparr>)\<rparr>)) }"

definition Condition_Broadcast :: "nat \<Rightarrow> 'a kcall" where
  "Condition_Broadcast cid k = do {
     let oldLevel = level k;
     k1 \<leftarrow> set_level INTERRUPTS_OFF k;
     c \<leftarrow> conditions k1 cid;
     set_level oldLevel (fold ReadyToRun (waitqueue c)
       (k1\<lparr>conditions := (conditions k1)(cid \<mapsto> c\<lparr>waitqueue := []\<rparr>)\<rparr>)) }"

subsection \<open>Going on after a switch\<close>

text \<open>
  A thread that runs again comes out of \<open>SwitchTo\<close>, deletes the carcass of a finished
  thread, and completes its call. A new thread starts in \<open>StartThreadExecution\<close> instead.
\<close>

definition resume_thread :: "'a kernel_scheme \<Rightarrow> 'a kernel_scheme outcome option" where
  "resume_thread k = do {
     let t = g_current_thread k;
     kt \<leftarrow> conts k t;
     let k1 = k\<lparr>conts := (conts k)(t := None)\<rparr>;
     (case kt of
        StartThreadExecution \<Rightarrow> set_level_return INTERRUPTS_ON k1
      | After_P sid old \<Rightarrow> do { k2 \<leftarrow> destroy_carcass k1; P_end sid old k2 }
      | After_Acquire lid old \<Rightarrow> do { k2 \<leftarrow> destroy_carcass k1; set_level_return old k2 }
      | After_Wait old \<Rightarrow> do { k2 \<leftarrow> destroy_carcass k1; set_level_return old k2 }
      | After_Yield old \<Rightarrow> do { k2 \<leftarrow> destroy_carcass k1; set_level_return old k2 }
      | After_Join target old \<Rightarrow> do {
          k2 \<leftarrow> destroy_carcass k1; k3 \<leftarrow> set_level old k2; Thread_Join target k3 }
      | After_Finish old \<Rightarrow> do { k2 \<leftarrow> destroy_carcass k1; set_level_return old k2 }) }"

subsection \<open>Steps\<close>

text \<open>What the thread on the processor may do, and what an observer sees of a lock.\<close>

datatype action =
    Tick nat
  | Request irq int
  | New_thread nat
  | Start nat nat u32 u32
  | Yield
  | Join nat
  | Finish
  | New_semaphore nat int
  | Sem_P nat
  | Sem_V nat
  | New_lock nat
  | Acquire nat
  | Release nat
  | New_condition nat
  | Wait nat
  | Signal nat
  | Broadcast nat

datatype lock_event = Acquired nat nat | Released nat nat

definition run_action :: "config \<Rightarrow> action \<Rightarrow> 'a kernel_scheme \<Rightarrow> 'a kernel_scheme outcome option" where
  "run_action cfg a k =
     (case a of
        Tick n \<Rightarrow> map_option Returned (OneTick device_call (\<lambda>_. None) n k)
      | Request i ticks \<Rightarrow> map_option Returned (Schedule i 0 ticks DISK_INT k)
      | New_thread t \<Rightarrow> map_option Returned (Thread_new cfg t k)
      | Start t owner func arg \<Rightarrow> map_option Returned (Thread_Start cfg t owner func arg k)
      | Yield \<Rightarrow> Thread_Yield k
      | Join t \<Rightarrow> Thread_Join t k
      | Finish \<Rightarrow> Thread_Finish k
      | New_semaphore s v \<Rightarrow> map_option Returned (Semaphore_new s v k)
      | Sem_P s \<Rightarrow> Semaphore_P s k
      | Sem_V s \<Rightarrow> map_option Returned (Semaphore_V s k)
      | New_lock l \<Rightarrow> map_option Returned (Lock_new l k)
      | Acquire l \<Rightarrow> Lock_Acquire l k
      | Release l \<Rightarrow> map_option Returned (Lock_Release l k)
      | New_condition c \<Rightarrow> map_option Returned (Condition_new c k)
      | Wait c \<Rightarrow> Condition_Wait c k
      | Signal c \<Rightarrow> map_option Returned (Condition_Signal c k)
      | Broadcast c \<Rightarrow> map_option Returned (Condition_Broadcast c k))"

definition action_event :: "action \<Rightarrow> 'a kernel_scheme \<Rightarrow> 'a kernel_scheme outcome \<Rightarrow> lock_event list" where
  "action_event a k out =
     (case a of
        Acquire l \<Rightarrow> if switched out then [] else [Acquired (g_current_thread k) l]
      | Release l \<Rightarrow> [Released (g_current_thread k) l]
      | _ \<Rightarrow> [])"

definition resume_event :: "'a kernel_scheme \<Rightarrow> lock_event list" where
  "resume_event k =
     (case conts k (g_current_thread k) of
        Some (After_Acquire l old) \<Rightarrow> [Acquired (g_current_thread k) l] | _ \<Rightarrow> [])"

inductive kstep :: "config \<Rightarrow> 'a kernel_scheme \<Rightarrow> lock_event list \<Rightarrow> 'a kernel_scheme outcome \<Rightarrow> bool"
  for cfg where
  kstep_action: "conts k (g_current_thread k) = None \<Longrightarrow> run_action cfg a k = Some out \<Longrightarrow>
    kstep cfg k (action_event a k out) out"
| kstep_resume: "resume_thread k = Some out \<Longrightarrow> kstep cfg k (resume_event k) out"

text \<open>
  A run: the lock events, the number of context switches, and the thread on the processor
  after each step.
\<close>

inductive krun ::
  "config \<Rightarrow> 'a kernel_scheme \<Rightarrow> lock_event list \<Rightarrow> nat \<Rightarrow> nat list \<Rightarrow> 'a kernel_scheme \<Rightarrow> bool"
  for cfg where
  krun_refl: "krun cfg k [] 0 [] k"
| krun_step: "krun cfg k es n ts k' \<Longrightarrow> kstep cfg k' ev out \<Longrightarrow>
    krun cfg k (es @ ev) (n + of_bool (switched out)) (ts @ [g_current_thread (state_of out)]) (state_of out)"

inductive_cases kstepE: "kstep cfg k ev out"

subsection \<open>Where threads are\<close>

datatype place = Ready | Sem nat | Lck nat | Cond nat

definition queue_at :: "'a kernel_scheme \<Rightarrow> place \<Rightarrow> nat list" where
  "queue_at k p = (case p of
     Ready \<Rightarrow> readyList k
   | Sem s \<Rightarrow> (case semaphores k s of None \<Rightarrow> [] | Some x \<Rightarrow> squeue x)
   | Lck l \<Rightarrow> (case locks k l of None \<Rightarrow> [] | Some x \<Rightarrow> sleepqueue x)
   | Cond c \<Rightarrow> (case conditions k c of None \<Rightarrow> [] | Some x \<Rightarrow> waitqueue x))"

definition queued :: "(place \<Rightarrow> nat list) \<Rightarrow> nat \<Rightarrow> bool" where
  "queued q t \<longleftrightarrow> (\<exists>p. t \<in> set (q p))"

text \<open>A thread is in at most one queue, and there once.\<close>

definition one_place :: "(place \<Rightarrow> nat list) \<Rightarrow> bool" where
  "one_place q \<longleftrightarrow> (\<forall>p. distinct (q p)) \<and> (\<forall>p p' t. t \<in> set (q p) \<longrightarrow> t \<in> set (q p') \<longrightarrow> p = p')"

abbreviation waiting :: "'a kernel_scheme \<Rightarrow> nat \<Rightarrow> bool" where
  "waiting k t \<equiv> queued (queue_at k) t"

lemma queue_at_upd:
  "queue_at (k\<lparr>readyList := r\<rparr>) = (queue_at k)(Ready := r)"
  "queue_at (k\<lparr>semaphores := (semaphores k)(sid \<mapsto> x)\<rparr>) = (queue_at k)(Sem sid := squeue x)"
  "queue_at (k\<lparr>locks := (locks k)(lid \<mapsto> y)\<rparr>) = (queue_at k)(Lck lid := sleepqueue y)"
  "queue_at (k\<lparr>conditions := (conditions k)(cid \<mapsto> z)\<rparr>) = (queue_at k)(Cond cid := waitqueue z)"
  by (auto simp: queue_at_def fun_eq_iff split: place.split)

lemma queue_at_frame:
  "queue_at (k\<lparr>g_current_thread := a\<rparr>) = queue_at k"
  "queue_at (k\<lparr>current_process := b\<rparr>) = queue_at k"
  "queue_at (k\<lparr>g_thread_to_be_destroyed := c\<rparr>) = queue_at k"
  "queue_at (k\<lparr>g_alive := d\<rparr>) = queue_at k"
  "queue_at (k\<lparr>threads := e\<rparr>) = queue_at k"
  "queue_at (k\<lparr>processes := f\<rparr>) = queue_at k"
  "queue_at (k\<lparr>conts := g\<rparr>) = queue_at k"
  "queue_at (k\<lparr>disks := h\<rparr>) = queue_at k"
  "queue_at (k\<lparr>int_registers := i\<rparr>) = queue_at k"
  "queue_at (k\<lparr>float_registers := j\<rparr>) = queue_at k"
  "queue_at (k\<lparr>cc := l\<rparr>) = queue_at k"
  "queue_at (k\<lparr>mmu_table := m\<rparr>) = queue_at k"
  "queue_at (k\<lparr>tables := n\<rparr>) = queue_at k"
  "queue_at (k\<lparr>pending := pe\<rparr>) = queue_at k"
  by (simp_all add: queue_at_def fun_eq_iff split: place.split)

lemmas queue_simps = queue_at_upd queue_at_frame

lemma queue_at_Sem: "semaphores k s = Some x \<Longrightarrow> queue_at k (Sem s) = squeue x"
  by (simp add: queue_at_def)

lemma queue_at_Lck: "locks k l = Some x \<Longrightarrow> queue_at k (Lck l) = sleepqueue x"
  by (simp add: queue_at_def)

lemma queue_at_Cond: "conditions k c = Some x \<Longrightarrow> queue_at k (Cond c) = waitqueue x"
  by (simp add: queue_at_def)

lemma queue_at_Ready: "queue_at k Ready = readyList k"
  by (simp add: queue_at_def)

text \<open>The four moves of a thread.\<close>

lemma one_place_wake:
  assumes "one_place q" "q p = t # ts" "p \<noteq> Ready"
  shows "one_place (q(p := ts, Ready := q Ready @ [t]))" "queued (q(p := ts, Ready := q Ready @ [t])) = queued q"
proof -
  have d: "\<And>p. distinct (q p)" "\<And>p p' t. t \<in> set (q p) \<Longrightarrow> t \<in> set (q p') \<Longrightarrow> p = p'"
    using assms(1) by (auto simp: one_place_def)
  have t: "t \<in> set (q p')  \<longleftrightarrow> p' = p" for p' using d(2) [of t p p'] assms(2) by auto
  have ts: "t \<notin> set ts" "distinct ts" using d(1) [of p] assms(2) by simp_all
  let ?q = "q(p := ts, Ready := q Ready @ [t])"
  have mem: "x \<in> set (?q p') \<longleftrightarrow> (if x = t then p' = Ready else x \<in> set (q p'))" for x p'
    using assms(2,3) t ts by auto
  have "distinct (?q p')" for p' using d(1) [of p'] d(1) [of Ready] t [of Ready] assms(3) ts by auto
  moreover have "a = b" if "x \<in> set (?q a)" "x \<in> set (?q b)" for x a b
    using that [unfolded mem] d(2) [of x a b] by (cases "x = t") simp_all
  ultimately show "one_place ?q" unfolding one_place_def by blast
  have tp: "t \<in> set (q p)" using t by simp
  show "queued ?q = queued q"
  proof (rule ext)
    fix x
    show "queued ?q x = queued q x" unfolding queued_def mem using tp by (cases "x = t") auto
  qed
qed

lemma one_place_pop:
  assumes "one_place q" "q Ready = t # ts"
  shows "one_place (q(Ready := ts))" "\<not> queued (q(Ready := ts)) t" "queued q t"
    "queued (q(Ready := ts)) x \<Longrightarrow> queued q x"
proof -
  have d: "\<And>p. distinct (q p)" "\<And>p p' t. t \<in> set (q p) \<Longrightarrow> t \<in> set (q p') \<Longrightarrow> p = p'"
    using assms(1) by (auto simp: one_place_def)
  have ts: "t \<notin> set ts" "distinct ts" using d(1) [of Ready] assms(2) by simp_all
  have sub: "x \<in> set ((q(Ready := ts)) p) \<Longrightarrow> x \<in> set (q p)" for x p
    using assms(2) by (auto split: if_splits)
  show "one_place (q(Ready := ts))" using d(1) ts d(2) sub unfolding one_place_def
    by (metis fun_upd_apply)
  have "t \<in> set (q Ready)" using assms(2) by simp
  then show "\<not> queued (q(Ready := ts)) t" using d(2) [of t Ready] ts by (auto simp: queued_def split: if_splits)
  show "queued q t" using \<open>t \<in> set (q Ready)\<close> by (auto simp: queued_def)
  show "queued (q(Ready := ts)) x \<Longrightarrow> queued q x" using sub by (auto simp: queued_def)
qed

lemma one_place_add:
  assumes "one_place q" "\<not> queued q t"
  shows "one_place (q(p := q p @ [t]))" "queued (q(p := q p @ [t])) x \<longleftrightarrow> x = t \<or> queued q x"
  using assms by (auto simp: one_place_def queued_def split: if_splits)

lemma one_place_same: "q p = xs \<Longrightarrow> q(p := xs) = q"
  by (simp add: fun_eq_iff)

subsection \<open>What holds of the kernel at any time\<close>

definition started :: "'a kernel_scheme \<Rightarrow> nat \<Rightarrow> bool" where
  "started k t \<longleftrightarrow> (\<exists>th. threads k t = Some th \<and> t_process th \<noteq> None)"

definition kernel_ok :: "'a kernel_scheme \<Rightarrow> bool" where
  "kernel_ok k \<longleftrightarrow> one_place (queue_at k) \<and> (\<forall>i. semaphores k (driver_semaphore k i) \<noteq> None)
     \<and> (\<forall>t. waiting k t \<longrightarrow> started k t) \<and> started k (g_current_thread k)
     \<and> (\<forall>d. g_thread_to_be_destroyed k = Some d \<longrightarrow> \<not> waiting k d \<and> started k d)"

lemma kernel_okD:
  assumes "kernel_ok k"
  shows "one_place (queue_at k)" "semaphores k (driver_semaphore k i) \<noteq> None" "waiting k t \<Longrightarrow> started k t"
    "started k (g_current_thread k)" "g_thread_to_be_destroyed k = Some d \<Longrightarrow> \<not> waiting k d"
    "g_thread_to_be_destroyed k = Some d \<Longrightarrow> started k d"
  using assms by (simp_all only: kernel_ok_def simp_thms)

text \<open>What interrupt handlers may do: wake threads that wait at a semaphore.\<close>

definition wakes :: "'a kernel_scheme \<Rightarrow> 'a kernel_scheme \<Rightarrow> bool" where
  "wakes k k' \<longleftrightarrow> g_current_thread k' = g_current_thread k \<and> g_alive k' = g_alive k
     \<and> g_thread_to_be_destroyed k' = g_thread_to_be_destroyed k \<and> threads k' = threads k
     \<and> processes k' = processes k \<and> locks k' = locks k \<and> conditions k' = conditions k
     \<and> conts k' = conts k \<and> driver_semaphore k' = driver_semaphore k
     \<and> (\<exists>ts. readyList k' = readyList k @ ts) \<and> queued (queue_at k') = queued (queue_at k)
     \<and> (\<forall>s. semaphores k' s = None \<longleftrightarrow> semaphores k s = None)"

lemma wakes_refl: "wakes k k"
  by (simp add: wakes_def)

lemma wakes_trans: "wakes k k' \<Longrightarrow> wakes k' k'' \<Longrightarrow> wakes k k''"
  by (auto simp: wakes_def)

lemma wakes_ok: "wakes k k' \<Longrightarrow> one_place (queue_at k') \<Longrightarrow> kernel_ok k \<Longrightarrow> kernel_ok k'"
  by (simp add: wakes_def kernel_ok_def started_def)

lemma same_more:
  assumes "interrupts.more k = interrupts.more k'"
  shows "g_current_thread k' = g_current_thread k" "g_alive k' = g_alive k"
    "g_thread_to_be_destroyed k' = g_thread_to_be_destroyed k" "threads k' = threads k"
    "processes k' = processes k" "locks k' = locks k" "conditions k' = conditions k"
    "conts k' = conts k" "driver_semaphore k' = driver_semaphore k" "readyList k' = readyList k"
    "semaphores k' = semaphores k"
  using assms by (cases k; cases k'; simp)+

lemma queue_at_more:
  assumes "interrupts.more k = interrupts.more k'"
  shows "queue_at k' = queue_at k"
  unfolding queue_at_def [abs_def] same_more [OF assms] by simp

lemma wakes_more:
  assumes "interrupts.more k = interrupts.more k'"
  shows "wakes k k'"
  unfolding wakes_def same_more [OF assms] queue_at_more [OF assms] by simp

lemma kernel_ok_more:
  assumes "interrupts.more k = interrupts.more k'" "kernel_ok k"
  shows "kernel_ok k'"
proof (rule wakes_ok [OF wakes_more [OF assms(1)] _ assms(2)])
  show "one_place (queue_at k')"
    unfolding queue_at_more [OF assms(1)] by (rule kernel_okD(1) [OF assms(2)])
qed

lemma wake_wakes:
  assumes "one_place (queue_at k)" "semaphores k sid = Some s" "squeue s = t # ts"
  shows "let k' = ReadyToRun t (k\<lparr>semaphores := (semaphores k)(sid \<mapsto> s\<lparr>svalue := v, squeue := ts\<rparr>)\<rparr>)
    in wakes k k' \<and> one_place (queue_at k')"
proof -
  let ?k = "ReadyToRun t (k\<lparr>semaphores := (semaphores k)(sid \<mapsto> s\<lparr>svalue := v, squeue := ts\<rparr>)\<rparr>)"
  have "queue_at k (Sem sid) = t # ts" using assms(2,3) by (simp add: queue_at_Sem)
  note w = one_place_wake [OF assms(1) this]
  have q: "queue_at ?k = (queue_at k)(Sem sid := ts, Ready := queue_at k Ready @ [t])"
    by (simp add: ReadyToRun_def queue_simps queue_at_Ready)
  show ?thesis
    using w assms(2) unfolding Let_def wakes_def q by (simp add: ReadyToRun_def)
qed

text \<open>\<open>V\<close> between disabling and restoring interrupts.\<close>

definition V_body :: "nat \<Rightarrow> Semaphore \<Rightarrow> 'a kernel_scheme \<Rightarrow> 'a kernel_scheme" where
  "V_body sid s k = (case squeue s of
     [] \<Rightarrow> k\<lparr>semaphores := (semaphores k)(sid \<mapsto> s\<lparr>svalue := svalue s + 1\<rparr>)\<rparr>
   | t # ts \<Rightarrow> ReadyToRun t (k\<lparr>semaphores := (semaphores k)(sid \<mapsto> s\<lparr>svalue := svalue s + 1, squeue := ts\<rparr>)\<rparr>))"

lemma V_body_wakes:
  assumes "one_place (queue_at k)" "semaphores k sid = Some s"
  shows "wakes k (V_body sid s k) \<and> one_place (queue_at (V_body sid s k))"
proof (cases "squeue s")
  case Nil
  have "queue_at k (Sem sid) = []" using assms(2) Nil by (simp add: queue_at_Sem)
  then have "queue_at (V_body sid s k) = queue_at k" by (simp add: V_body_def Nil queue_simps one_place_same)
  then show ?thesis using assms Nil by (simp add: wakes_def V_body_def)
next
  case (Cons t ts)
  then show ?thesis using wake_wakes [OF assms Cons] by (simp add: V_body_def Let_def)
qed

lemma V_body_frame:
  "level (V_body sid s k) = level k" "yieldOnReturn (V_body sid s k) = yieldOnReturn k"
  "g_stats (V_body sid s k) = g_stats k" "pending (V_body sid s k) = pending k"
  "int_registers (V_body sid s k) = int_registers k" "float_registers (V_body sid s k) = float_registers k"
  "inHandler (V_body sid s k) = inHandler k"
  by (simp_all add: V_body_def ReadyToRun_def split: list.split)

lemma level_same: "level k = l \<Longrightarrow> k\<lparr>level := l\<rparr> = k"
  by (cases k) simp

lemma SetStatus_off: "level k = INTERRUPTS_OFF \<Longrightarrow> SetStatus call y INTERRUPTS_OFF k = Some (INTERRUPTS_OFF, k)"
  by (simp add: SetStatus_def ChangeLevel_def level_same)

lemma V_with_body:
  "V_with call sid k = do {
     (_, k1) \<leftarrow> SetStatus call (\<lambda>_. None) INTERRUPTS_OFF k;
     s \<leftarrow> semaphores k1 sid;
     (_, k3) \<leftarrow> SetStatus call (\<lambda>_. None) (level k) (V_body sid s k1);
     Some k3 }"
  by (simp add: V_with_def V_body_def Let_def)

lemma V_off:
  assumes "level k = INTERRUPTS_OFF"
  shows "V_with call sid k = map_option (\<lambda>s. V_body sid s k) (semaphores k sid)"
  using assms by (cases "semaphores k sid") (simp_all add: V_with_body SetStatus_off V_body_frame)

interpretation irqs: device_handlers device_call kernel_ok wakes
proof
  fix k k' :: "'a kernel_scheme"
  assume m: "interrupts.more k = interrupts.more k'"
  show "kernel_ok k \<Longrightarrow> kernel_ok k'" by (rule kernel_ok_more [OF m])
  show "wakes k k'" by (rule wakes_more [OF m])
next
  fix k k' k'' :: "'a kernel_scheme"
  show "wakes k k' \<Longrightarrow> wakes k' k'' \<Longrightarrow> wakes k k''" by (rule wakes_trans)
next
  fix i arg and k k' :: "'a kernel_scheme"
  let ?k = "k\<lparr>disks := (disks k)(i := HandleInterrupt (disks k i))\<rparr>"
  assume c: "device_call i arg k = Some k'" and ok: "kernel_ok k" and l: "level k = INTERRUPTS_OFF"
  have "V_with (\<lambda>_ _ _. None) (driver_semaphore k i) ?k = Some k'"
    using c by (simp add: device_call_def RequestDone_def)
  then obtain s where s: "semaphores ?k (driver_semaphore k i) = Some s" "k' = V_body (driver_semaphore k i) s ?k"
    using V_off [of ?k] l by auto
  have q: "queue_at ?k = queue_at k" by (simp add: queue_simps)
  have o: "one_place (queue_at ?k)" unfolding q by (rule kernel_okD(1) [OF ok])
  have w: "wakes k ?k" by (simp add: wakes_def q)
  note b = V_body_wakes [OF o s(1)]
  have wk: "wakes k k'" using wakes_trans [OF w] b s(2) by simp
  have h: "hw_ok k \<longrightarrow> hw_ok k'" unfolding s(2) by (simp add: hw_ok_def wf_cpu_def R_def V_body_frame)
  show "kernel_ok k' \<and> wakes k k' \<and> level k' = INTERRUPTS_OFF \<and> yieldOnReturn k' = yieldOnReturn k
      \<and> g_stats k' = g_stats k \<and> due (now k) (pending k') = due (now k) (pending k) \<and> (hw_ok k \<longrightarrow> hw_ok k')"
    using wk h b l wakes_ok [OF wk _ ok] unfolding s(2) by (simp add: V_body_frame)
next
  fix i arg and k :: "'a kernel_scheme"
  assume "kernel_ok k" "level k = INTERRUPTS_OFF"
  then show "device_call i arg k \<noteq> None"
    using kernel_okD(2) by (simp add: device_call_def RequestDone_def V_off)
qed

text \<open>Changing the interrupt level.\<close>

lemma set_level_safe:
  assumes "set_level l k = Some k'" "kernel_ok k" "\<not> yieldOnReturn k"
  shows "kernel_ok k'" "wakes k k'" "level k' = l" "\<not> yieldOnReturn k'"
proof -
  obtain old where "SetStatus device_call (\<lambda>_. None) l k = Some (old, k')"
    using assms(1) by (auto simp: set_level_def)
  from irqs.SetStatus_safe [OF this assms(2,3)]
  show "kernel_ok k'" "wakes k k'" "level k' = l" "\<not> yieldOnReturn k'" by simp_all
qed

subsection \<open>What calls do to threads\<close>

definition fine :: "'a kernel_scheme \<Rightarrow> bool" where
  "fine k \<longleftrightarrow> kernel_ok k \<and> \<not> yieldOnReturn k"

text \<open>The state between calls: the current thread is in no queue and not finished.\<close>

definition running_ok :: "'a kernel_scheme \<Rightarrow> bool" where
  "running_ok k \<longleftrightarrow> fine k \<and> \<not> waiting k (g_current_thread k)
     \<and> g_thread_to_be_destroyed k \<noteq> Some (g_current_thread k)"

text \<open>No switch: other threads may be woken, and the carcass of a finished one deleted.\<close>

definition settles :: "'a kernel_scheme \<Rightarrow> 'a kernel_scheme \<Rightarrow> bool" where
  "settles k k' \<longleftrightarrow> g_current_thread k' = g_current_thread k \<and> (\<forall>x. waiting k' x \<longleftrightarrow> waiting k x)
     \<and> (\<exists>ts. readyList k' = readyList k @ ts)
     \<and> (\<forall>x. started k x \<longrightarrow> started k' x \<or> g_thread_to_be_destroyed k = Some x)
     \<and> (\<forall>d. g_thread_to_be_destroyed k' = Some d \<longrightarrow> g_thread_to_be_destroyed k = Some d)"

definition quiet :: "'a kernel_scheme \<Rightarrow> 'a kernel_scheme \<Rightarrow> bool" where
  "quiet k k' \<longleftrightarrow> settles k k' \<and> locks k' = locks k \<and> conts k' = conts k"

text \<open>At most one switch.\<close>

definition moves :: "'a kernel_scheme \<Rightarrow> 'a kernel_scheme \<Rightarrow> bool" where
  "moves k k' \<longleftrightarrow>
     (\<forall>x. waiting k' x \<longrightarrow> waiting k x \<or> x = g_current_thread k \<or> \<not> started k x
        \<or> g_thread_to_be_destroyed k = Some x)
     \<and> (g_current_thread k' = g_current_thread k \<or> waiting k (g_current_thread k'))
     \<and> (\<forall>x. started k x \<longrightarrow> started k' x \<or> g_thread_to_be_destroyed k = Some x \<or> x = g_current_thread k)
     \<and> (\<forall>d. g_thread_to_be_destroyed k' = Some d \<longrightarrow> g_thread_to_be_destroyed k = Some d \<or> d = g_current_thread k)"

text \<open>The ready list loses at most its head, to the processor.\<close>

definition serves :: "'a kernel_scheme \<Rightarrow> 'a kernel_scheme outcome \<Rightarrow> bool" where
  "serves k out \<longleftrightarrow> (\<exists>ts. readyList k @ ts = g_current_thread (state_of out) # readyList (state_of out)
     \<or> (\<not> switched out \<and> readyList (state_of out) = readyList k @ ts))"

lemma settlesD:
  assumes "settles k k'"
  shows "g_current_thread k' = g_current_thread k" "waiting k' x \<longleftrightarrow> waiting k x"
    "\<exists>ts. readyList k' = readyList k @ ts"
    "started k x \<Longrightarrow> started k' x \<or> g_thread_to_be_destroyed k = Some x"
    "g_thread_to_be_destroyed k' = Some d \<Longrightarrow> g_thread_to_be_destroyed k = Some d"
  using assms unfolding settles_def by blast+

lemma quietD:
  assumes "quiet k k'"
  shows "settles k k'" "locks k' = locks k" "conts k' = conts k"
  using assms by (simp_all add: quiet_def)

lemma wakes_quiet: "wakes k k' \<Longrightarrow> quiet k k'"
  by (simp add: wakes_def quiet_def settles_def started_def)

lemma settles_refl: "settles k k"
  by (simp add: settles_def)

lemma quiet_refl: "quiet k k"
  by (simp add: quiet_def settles_refl)

lemma settles_trans:
  assumes "settles k k'" "settles k' k''"
  shows "settles k k''"
proof -
  note a = settlesD [OF assms(1)] and b = settlesD [OF assms(2)]
  have "\<exists>ts. readyList k'' = readyList k @ ts" using a(3) b(3) by fastforce
  moreover have "started k'' x \<or> g_thread_to_be_destroyed k = Some x" if "started k x" for x
    using a(4) [OF that] b(4) [of x] a(5) [of x] by blast
  ultimately show ?thesis using a(1,2,5) b(1,2,5) by (simp add: settles_def)
qed

lemma quiet_trans: "quiet k k' \<Longrightarrow> quiet k' k'' \<Longrightarrow> quiet k k''"
  using settles_trans unfolding quiet_def by metis

lemma settles_moves: "settles k k' \<Longrightarrow> moves k k'"
  unfolding settles_def moves_def by blast

lemma settles_serves: "settles k k' \<Longrightarrow> serves k (Returned k')"
  by (auto simp: settles_def serves_def)

lemma settles_running:
  assumes "settles k k'" "fine k'" "running_ok k"
  shows "running_ok k'"
  using settlesD [OF assms(1)] assms(2,3) unfolding running_ok_def by metis

lemma movesD:
  assumes "moves k k'"
  shows "waiting k' x \<Longrightarrow> waiting k x \<or> x = g_current_thread k \<or> \<not> started k x \<or> g_thread_to_be_destroyed k = Some x"
    "g_current_thread k' = g_current_thread k \<or> waiting k (g_current_thread k')"
    "started k x \<Longrightarrow> started k' x \<or> g_thread_to_be_destroyed k = Some x \<or> x = g_current_thread k"
    "g_thread_to_be_destroyed k' = Some d \<Longrightarrow> g_thread_to_be_destroyed k = Some d \<or> d = g_current_thread k"
  using assms unfolding moves_def by blast+

lemma moves_before:
  assumes "settles k k'" "moves k' k''"
  shows "moves k k''"
  unfolding moves_def
proof (intro conjI allI impI)
  note a = settlesD [OF assms(1)] and b = movesD [OF assms(2)]
  show "waiting k x \<or> x = g_current_thread k \<or> \<not> started k x \<or> g_thread_to_be_destroyed k = Some x"
    if "waiting k'' x" for x
    using b(1) [OF that] a(1,2) a(4) [of x] a(5) [of x] by metis
  show "g_current_thread k'' = g_current_thread k \<or> waiting k (g_current_thread k'')" using b(2) a(1,2) by metis
  show "started k'' x \<or> g_thread_to_be_destroyed k = Some x \<or> x = g_current_thread k" if "started k x" for x
    using a(4) [OF that] b(3) [of x] a(5) [of x] a(1) by metis
  show "g_thread_to_be_destroyed k = Some d \<or> d = g_current_thread k" if "g_thread_to_be_destroyed k'' = Some d" for d
    using b(4) [OF that] a(5) [of d] a(1) by metis
qed

lemma moves_after:
  assumes "moves k k'" "settles k' k''"
  shows "moves k k''"
  unfolding moves_def
proof (intro conjI allI impI)
  note a = movesD [OF assms(1)] and b = settlesD [OF assms(2)]
  show "waiting k x \<or> x = g_current_thread k \<or> \<not> started k x \<or> g_thread_to_be_destroyed k = Some x"
    if "waiting k'' x" for x
    using that a(1) [of x] b(2) [of x] by blast
  show "g_current_thread k'' = g_current_thread k \<or> waiting k (g_current_thread k'')" using a(2) b(1) by simp
  show "started k'' x \<or> g_thread_to_be_destroyed k = Some x \<or> x = g_current_thread k" if "started k x" for x
    using a(3) [OF that] b(4) [of x] a(4) [of x] by blast
  show "g_thread_to_be_destroyed k = Some d \<or> d = g_current_thread k" if "g_thread_to_be_destroyed k'' = Some d" for d
    using b(5) [OF that] a(4) [of d] by blast
qed

lemma serves_before:
  assumes "settles k k'" "serves k' out"
  shows "serves k out"
proof -
  obtain ts where "readyList k' = readyList k @ ts" using settlesD(3) [OF assms(1)] by blast
  moreover obtain us where "readyList k' @ us = g_current_thread (state_of out) # readyList (state_of out)
     \<or> (\<not> switched out \<and> readyList (state_of out) = readyList k' @ us)"
    using assms(2) unfolding serves_def by blast
  ultimately show ?thesis unfolding serves_def by (intro exI [of _ "ts @ us"]) simp
qed

lemma serves_after:
  assumes "serves k (Returned k')" "settles k' k''"
  shows "serves k (Returned k'')"
proof -
  obtain ts where "readyList k'' = readyList k' @ ts" using settlesD(3) [OF assms(2)] by blast
  moreover obtain us where "readyList k @ us = g_current_thread k' # readyList k' \<or> readyList k' = readyList k @ us"
    using assms(1) unfolding serves_def by auto
  ultimately have "readyList k @ (us @ ts) = g_current_thread k' # readyList k'' \<or> readyList k'' = readyList k @ (us @ ts)"
    by (metis append.assoc append_Cons)
  then show ?thesis unfolding serves_def using settlesD(1) [OF assms(2)] by auto
qed

lemma set_level_quiet:
  assumes "set_level l k = Some k'" "fine k"
  shows "quiet k k'" "fine k'" "level k' = l"
  using set_level_safe [OF assms(1)] assms(2) wakes_quiet by (auto simp: fine_def)

lemma set_level_return_quiet:
  assumes "set_level_return l k = Some out" "fine k"
  shows "\<exists>k'. out = Returned k' \<and> quiet k k' \<and> fine k'"
  using assms set_level_quiet by (auto simp: set_level_return_def)

lemma Thread_delete_frame:
  assumes "Thread_delete d k = Some k'" "fine k" "g_thread_to_be_destroyed k = None"
    and "\<not> waiting k d" "d \<noteq> g_current_thread k"
  shows "fine k'" "g_current_thread k' = g_current_thread k" "queued (queue_at k') = queued (queue_at k)"
    "\<exists>ts. readyList k' = readyList k @ ts" "locks k' = locks k" "conts k' = conts k"
    "\<And>x. started k x \<Longrightarrow> x \<noteq> d \<Longrightarrow> started k' x" "g_thread_to_be_destroyed k' = None"
proof -
  obtain k1 th pid pr k2 where k1: "set_level INTERRUPTS_OFF k = Some k1"
    and k2: "k2 = k1\<lparr>processes := (processes k1)(pid :=
         (if numThreads pr - 1 = 0 then None else Some (pr\<lparr>numThreads := numThreads pr - 1\<rparr>))),
       threads := (threads k1)(d := None)\<rparr>"
    and k': "set_level (level k) k2 = Some k'"
    using assms(1) by (auto simp: Thread_delete_def Let_def split: bind_splits)
  note s1 = set_level_safe [OF k1 assms(2) [unfolded fine_def, THEN conjunct1] assms(2) [unfolded fine_def, THEN conjunct2]]
  have q: "queue_at k2 = queue_at k1" unfolding k2 by (simp add: queue_simps)
  have st: "started k2 x \<longleftrightarrow> started k1 x \<and> x \<noteq> d" for x unfolding k2 by (simp add: started_def)
  have w1: "\<not> waiting k1 d" "g_current_thread k1 = g_current_thread k" "g_thread_to_be_destroyed k1 = None"
    using s1(2) assms(3,4) by (simp_all add: wakes_def)
  have f: "g_current_thread k2 = g_current_thread k1" "g_thread_to_be_destroyed k2 = g_thread_to_be_destroyed k1"
    "semaphores k2 = semaphores k1" "driver_semaphore k2 = driver_semaphore k1" "yieldOnReturn k2 = yieldOnReturn k1"
    "readyList k2 = readyList k1" "locks k2 = locks k1" "conts k2 = conts k1"
    unfolding k2 by simp_all
  have ok2: "kernel_ok k2"
    using kernel_okD(1-4) [OF s1(1)] w1 assms(5) unfolding kernel_ok_def q f st by auto
  note s2 = set_level_safe [OF k' ok2, unfolded f, OF s1(4)]
  show "fine k'" using s2 by (simp add: fine_def)
  show "g_current_thread k' = g_current_thread k" "queued (queue_at k') = queued (queue_at k)"
    "locks k' = locks k" "conts k' = conts k" "g_thread_to_be_destroyed k' = None"
    using s1(2) s2(2) f q w1 by (simp_all add: wakes_def)
  show "\<exists>ts. readyList k' = readyList k @ ts" using s1(2) s2(2) f(6) by (auto simp: wakes_def)
  have t: "started k1 x = started k x" "started k' x = started k2 x" for x
    using s1(2) s2(2) by (simp_all add: wakes_def started_def)
  show "started k' x" if "started k x" "x \<noteq> d" for x unfolding t st using that by simp
qed

lemma destroy_carcass_quiet:
  assumes "destroy_carcass k = Some k'" "fine k" "g_thread_to_be_destroyed k \<noteq> Some (g_current_thread k)"
  shows "quiet k k' \<and> fine k' \<and> g_thread_to_be_destroyed k' = None"
proof (cases "g_thread_to_be_destroyed k")
  case None
  then show ?thesis using assms quiet_refl by (simp add: destroy_carcass_def)
next
  case (Some d)
  let ?k = "k\<lparr>g_thread_to_be_destroyed := None\<rparr>"
  have q: "queue_at ?k = queue_at k" by (simp add: queue_simps)
  have d: "\<not> waiting k d" "d \<noteq> g_current_thread k"
    using assms(2,3) Some kernel_okD(5) [of k d] by (auto simp: fine_def)
  have fi: "fine ?k" using assms(2) by (simp add: fine_def kernel_ok_def q started_def)
  have del: "Thread_delete d ?k = Some k'" using assms(1) Some by (simp add: destroy_carcass_def)
  have nw: "\<not> waiting ?k d" unfolding q by (rule d(1))
  have g: "g_thread_to_be_destroyed ?k = None" "d \<noteq> g_current_thread ?k" using d(2) by simp_all
  note t = Thread_delete_frame [OF del fi g(1) nw g(2)]
  have s: "started ?k x = started k x" for x by (simp add: started_def)
  have f: "g_current_thread ?k = g_current_thread k" "readyList ?k = readyList k" "locks ?k = locks k" "conts ?k = conts k"
    by simp_all
  note t' = t [unfolded f q]
  have "settles k k'" unfolding settles_def using t'(2-4,8) t(7) [unfolded s] d(2) Some by auto
  then show ?thesis using t'(1,5,6,8) by (simp add: quiet_def)
qed

lemma SwitchTo_safe:
  assumes "SwitchTo n kt k = Some out" "fine k" "\<not> waiting k n" "g_thread_to_be_destroyed k \<noteq> Some n"
  shows "(\<exists>k'. out = Switched k' \<and> n \<noteq> g_current_thread k \<and> running_ok k' \<and> g_current_thread k' = n
      \<and> conts k' = (conts k)(g_current_thread k \<mapsto> kt) \<and> queue_at k' = queue_at k \<and> readyList k' = readyList k
      \<and> locks k' = locks k \<and> (\<forall>x. started k' x \<longleftrightarrow> started k x)
      \<and> g_thread_to_be_destroyed k' = g_thread_to_be_destroyed k)
    \<or> (\<exists>k'. out = Returned k' \<and> n = g_current_thread k \<and> quiet k k' \<and> fine k')"
proof -
  let ?o = "g_current_thread k"
  obtain th pid k1 where th: "threads k n = Some th" "t_process th = Some pid"
    and k1: "SaveProcessorState ?o (k\<lparr>g_current_thread := n, current_process := pid\<rparr>) = Some k1"
    and out: "(if ?o \<noteq> n then do { k2 \<leftarrow> RestoreProcessorState n k1;
        Some (Switched (k2\<lparr>conts := (conts k2)(?o \<mapsto> kt)\<rparr>)) }
      else map_option Returned (destroy_carcass k1)) = Some out"
    using assms(1) by (auto simp: SwitchTo_def Let_def split: bind_splits)
  obtain oth where oth: "threads k ?o = Some oth" and
    k1': "k1 = k\<lparr>g_current_thread := n, current_process := pid, threads := (threads k)(?o \<mapsto>
       oth\<lparr>t_int_registers := int_registers k, t_float_registers := float_registers k, t_cc := ReadCC k\<rparr>)\<rparr>"
    using k1 by (auto simp: SaveProcessorState_def ReadCC_def split: bind_splits)
  have q1: "queue_at k1 = queue_at k" unfolding k1' by (simp add: queue_simps)
  have st1: "started k1 x \<longleftrightarrow> started k x" for x unfolding k1' using oth by (simp add: started_def)
  have f1: "g_current_thread k1 = n" "g_thread_to_be_destroyed k1 = g_thread_to_be_destroyed k"
    "semaphores k1 = semaphores k" "driver_semaphore k1 = driver_semaphore k" "yieldOnReturn k1 = yieldOnReturn k"
    "readyList k1 = readyList k" "locks k1 = locks k" "conts k1 = conts k"
    unfolding k1' by simp_all
  have stn: "started k n" using th by (simp add: started_def)
  have ok: "kernel_ok k" "\<not> yieldOnReturn k" using assms(2) by (simp_all add: fine_def)
  show ?thesis
  proof (cases "?o = n")
    case True
    then have d: "destroy_carcass k1 = Some (state_of out)" "out = Returned (state_of out)" using out by auto
    have s1: "quiet k k1" unfolding quiet_def settles_def q1 f1 st1 using True by simp
    have fi: "fine k1"
      using ok stn unfolding fine_def kernel_ok_def q1 f1 st1 by blast
    have "g_thread_to_be_destroyed k1 \<noteq> Some (g_current_thread k1)" using assms(4) f1 by simp
    from destroy_carcass_quiet [OF d(1) fi this] s1 quiet_trans
    have "quiet k (state_of out)" "fine (state_of out)" by blast+
    then show ?thesis using True d(2) by metis
  next
    case False
    obtain k2 where k2: "RestoreProcessorState n k1 = Some k2" "out = Switched (k2\<lparr>conts := (conts k2)(?o \<mapsto> kt)\<rparr>)"
      using out False by (auto split: bind_splits)
    obtain r1 r2 c t where k2': "k2 = k1\<lparr>int_registers := r1, float_registers := r2, cc := c, mmu_table := t\<rparr>"
      using k2(1) by (auto simp: RestoreProcessorState_def split: bind_splits)
    let ?k = "k2\<lparr>conts := (conts k2)(?o \<mapsto> kt)\<rparr>"
    have q: "queue_at ?k = queue_at k" unfolding k2' using q1 by (simp add: queue_simps)
    have st: "started ?k x \<longleftrightarrow> started k x" for x unfolding k2' using st1 by (simp add: started_def)
    have f: "g_current_thread ?k = n" "g_thread_to_be_destroyed ?k = g_thread_to_be_destroyed k"
      "semaphores ?k = semaphores k" "driver_semaphore ?k = driver_semaphore k" "yieldOnReturn ?k = yieldOnReturn k"
      "readyList ?k = readyList k" "locks ?k = locks k" "conts ?k = (conts k)(?o \<mapsto> kt)"
      unfolding k2' using f1 by simp_all
    have "running_ok ?k"
      using ok stn assms(3,4) unfolding running_ok_def fine_def kernel_ok_def q f st by blast
    then show ?thesis using False k2(2) q st f by metis
  qed
qed

text \<open>Taking the head of the ready list.\<close>

lemma pop_ready:
  assumes "fine k" "readyList k = n # ts"
  shows "fine (k\<lparr>readyList := ts\<rparr>)" "\<not> waiting (k\<lparr>readyList := ts\<rparr>) n"
    "g_thread_to_be_destroyed k \<noteq> Some n" "waiting k n" "started k n"
    "waiting (k\<lparr>readyList := ts\<rparr>) x \<Longrightarrow> waiting k x"
    "\<not> waiting k y \<Longrightarrow> n \<noteq> y"
proof -
  let ?k = "k\<lparr>readyList := ts\<rparr>"
  have ok: "kernel_ok k" "\<not> yieldOnReturn k" using assms(1) by (simp_all add: fine_def)
  have r: "queue_at k Ready = n # ts" using assms(2) by (simp add: queue_at_Ready)
  have q: "queue_at ?k = (queue_at k)(Ready := ts)" by (simp add: queue_simps)
  note pop = one_place_pop [OF kernel_okD(1) [OF ok(1)] r]
  show w: "waiting k n" by (rule pop(3))
  show sub: "waiting ?k x \<Longrightarrow> waiting k x" for x unfolding q by (rule pop(4))
  show "\<not> waiting ?k n" unfolding q by (rule pop(2))
  show "g_thread_to_be_destroyed k \<noteq> Some n" using kernel_okD(5) [OF ok(1)] w by blast
  show "started k n" using kernel_okD(3) [OF ok(1) w] .
  show "\<not> waiting k y \<Longrightarrow> n \<noteq> y" using w by blast
  have st: "started ?k x = started k x" for x by (simp add: started_def)
  have f: "g_current_thread ?k = g_current_thread k" "g_thread_to_be_destroyed ?k = g_thread_to_be_destroyed k"
    "semaphores ?k = semaphores k" "driver_semaphore ?k = driver_semaphore k" "yieldOnReturn ?k = yieldOnReturn k"
    by simp_all
  have "one_place (queue_at ?k)" unfolding q by (rule pop(1))
  then show "fine ?k" using ok kernel_okD [OF ok(1)] sub unfolding fine_def kernel_ok_def f st by metis
qed

lemma next_thread_safe:
  assumes "next_thread k = Some (n, k')" "fine k"
  shows "\<exists>k1 ts. wakes k k1 \<and> fine k1 \<and> readyList k1 = n # ts \<and> k' = k1\<lparr>readyList := ts\<rparr>"
proof -
  have "fine k \<longrightarrow> (\<exists>k1 ts. wakes k k1 \<and> fine k1 \<and> readyList k1 = fst (n, k') # ts
      \<and> snd (n, k') = k1\<lparr>readyList := ts\<rparr>)"
  proof (rule next_thread.raw_induct [where P = "\<lambda>k r. fine k \<longrightarrow> (\<exists>k1 ts. wakes k k1 \<and> fine k1
      \<and> readyList k1 = fst r # ts \<and> snd r = k1\<lparr>readyList := ts\<rparr>)", OF _ assms(1)])
    fix rec :: "'a kernel_scheme \<Rightarrow> (nat \<times> 'a kernel_scheme) option" and k r
    assume IH: "\<And>k r. rec k = Some r \<Longrightarrow> fine k \<longrightarrow> (\<exists>k1 ts. wakes k k1 \<and> fine k1
      \<and> readyList k1 = fst r # ts \<and> snd r = k1\<lparr>readyList := ts\<rparr>)"
      and st: "(case FindNextToRun k of (None, k') \<Rightarrow> Option.bind (Idle device_call k') rec
        | (Some t, k') \<Rightarrow> Some (t, k')) = Some r"
    show "fine k \<longrightarrow> (\<exists>k1 ts. wakes k k1 \<and> fine k1 \<and> readyList k1 = fst r # ts \<and> snd r = k1\<lparr>readyList := ts\<rparr>)"
    proof
      assume fi: "fine k"
      show "\<exists>k1 ts. wakes k k1 \<and> fine k1 \<and> readyList k1 = fst r # ts \<and> snd r = k1\<lparr>readyList := ts\<rparr>"
      proof (cases "readyList k")
        case Nil
        then obtain k2 where k2: "Idle device_call k = Some k2" "rec k2 = Some r"
          using st by (auto simp: FindNextToRun_def split: bind_splits)
        have i: "fine k2" "wakes k k2" using irqs.Idle_safe [OF k2(1)] fi by (simp_all add: fine_def)
        obtain k1 ts where "wakes k2 k1" "fine k1" "readyList k1 = fst r # ts" "snd r = k1\<lparr>readyList := ts\<rparr>"
          using IH [OF k2(2)] i(1) by blast
        then show ?thesis using wakes_trans [OF i(2)] by blast
      next
        case (Cons t ts)
        then have "r = (t, k\<lparr>readyList := ts\<rparr>)" using st by (simp add: FindNextToRun_def)
        then show ?thesis using fi Cons wakes_refl by fastforce
      qed
    qed
  qed
  then show ?thesis using assms(2) by simp
qed

text \<open>
  \<open>Sleep\<close>. When it returns without a switch, a handler has put the current thread itself in
  the ready list: the thread was not waiting for a lock.
\<close>

lemma Sleep_safe:
  assumes "Sleep kt k = Some out" "fine k"
  shows "running_ok (state_of out)" "moves k (state_of out)" "serves k out" "locks (state_of out) = locks k"
    "conts (state_of out) = (if switched out then (conts k)(g_current_thread k \<mapsto> kt) else conts k)"
    "waiting (state_of out) x \<Longrightarrow> waiting k x"
    "waiting k (g_current_thread (state_of out))"
    "\<not> switched out \<Longrightarrow> g_current_thread (state_of out) = g_current_thread k"
    "\<not> switched out \<Longrightarrow> locks k l = Some lk \<Longrightarrow> g_current_thread k \<notin> set (sleepqueue lk)"
    "switched out \<Longrightarrow> g_current_thread (state_of out) \<noteq> g_current_thread k"
    "started k y \<Longrightarrow> started (state_of out) y \<or> g_thread_to_be_destroyed k = Some y"
    "g_thread_to_be_destroyed (state_of out) = Some d \<Longrightarrow> g_thread_to_be_destroyed k = Some d"
proof -
  obtain n k2 where n: "next_thread k = Some (n, k2)" "SwitchTo n kt k2 = Some out"
    using assms(1) by (auto simp: Sleep_def split: if_splits bind_splits)
  obtain k1 ts where k1: "wakes k k1" "fine k1" "readyList k1 = n # ts" "k2 = k1\<lparr>readyList := ts\<rparr>"
    using next_thread_safe [OF n(1) assms(2)] by blast
  note p = pop_ready [OF k1(2,3)]
  let ?o = "state_of out"
  have f2: "g_current_thread k2 = g_current_thread k" "locks k2 = locks k" "conts k2 = conts k"
    "g_thread_to_be_destroyed k2 = g_thread_to_be_destroyed k" "readyList k2 = ts"
    "\<And>x. started k2 x \<longleftrightarrow> started k x" "\<And>x. waiting k1 x \<longleftrightarrow> waiting k x"
    using k1(1) unfolding k1(4) by (simp_all add: wakes_def started_def)
  have d2: "g_thread_to_be_destroyed k2 \<noteq> Some n" using p(3) k1(4) by simp
  have w2: "waiting k2 x \<Longrightarrow> waiting k x" for x using p(6) f2(7) unfolding k1(4) by blast
  have wn: "waiting k n" using p(4) f2(7) by blast
  obtain us where us: "readyList k @ us = n # ts" using k1(1,3) by (auto simp: wakes_def)
  have fi2: "fine k2" and nw2: "\<not> waiting k2 n" using p(1,2) k1(4) by simp_all
  consider k' where "out = Switched k'" "n \<noteq> g_current_thread k2" "running_ok k'" "g_current_thread k' = n"
      "conts k' = (conts k2)(g_current_thread k2 \<mapsto> kt)" "queue_at k' = queue_at k2" "readyList k' = readyList k2"
      "locks k' = locks k2" "\<forall>x. started k' x \<longleftrightarrow> started k2 x"
      "g_thread_to_be_destroyed k' = g_thread_to_be_destroyed k2"
    | k' where "out = Returned k'" "n = g_current_thread k2" "quiet k2 k'" "fine k'"
    using SwitchTo_safe [OF n(2) fi2 nw2 d2] by blast
  then have res: "running_ok ?o \<and> g_current_thread ?o = n \<and> locks ?o = locks k
      \<and> conts ?o = (if switched out then (conts k)(g_current_thread k \<mapsto> kt) else conts k)
      \<and> (\<forall>x. waiting ?o x \<longrightarrow> waiting k2 x)
      \<and> (\<forall>x. started k x \<longrightarrow> started ?o x \<or> g_thread_to_be_destroyed k = Some x)
      \<and> (\<forall>d. g_thread_to_be_destroyed ?o = Some d \<longrightarrow> g_thread_to_be_destroyed k = Some d)
      \<and> (\<exists>vs. readyList ?o = ts @ vs) \<and> (switched out \<longleftrightarrow> n \<noteq> g_current_thread k)"
  proof cases
    case 1
    then show ?thesis using f2 by simp
  next
    case 2
    note s = settlesD [OF quietD(1) [OF 2(3)]]
    have "\<not> waiting k' (g_current_thread k')" using s(1,2) nw2 2(2) by simp
    moreover have "g_thread_to_be_destroyed k' \<noteq> Some (g_current_thread k')" using s(1,5) d2 2(2) by metis
    ultimately have "running_ok k'" using 2(4) by (simp add: running_ok_def)
    then show ?thesis using 2(1,2) s f2 quietD(2,3) [OF 2(3)] by simp
  qed
  then show "running_ok ?o" "locks ?o = locks k"
    "conts ?o = (if switched out then (conts k)(g_current_thread k \<mapsto> kt) else conts k)"
    "waiting ?o x \<Longrightarrow> waiting k x" "waiting k (g_current_thread ?o)"
    "\<not> switched out \<Longrightarrow> g_current_thread ?o = g_current_thread k"
    "switched out \<Longrightarrow> g_current_thread (state_of out) \<noteq> g_current_thread k"
    "started k y \<Longrightarrow> started ?o y \<or> g_thread_to_be_destroyed k = Some y"
    "g_thread_to_be_destroyed ?o = Some d \<Longrightarrow> g_thread_to_be_destroyed k = Some d"
    using w2 wn by simp_all
  show "moves k ?o" using res w2 wn unfolding moves_def by blast
  obtain vs where "readyList ?o = ts @ vs" using res by blast
  then have "readyList k @ (us @ vs) = g_current_thread ?o # readyList ?o" using us res by (metis append.assoc append_Cons)
  then show "serves k out" unfolding serves_def by blast
  show "g_current_thread k \<notin> set (sleepqueue lk)" if "\<not> switched out" "locks k l = Some lk"
  proof
    assume m: "g_current_thread k \<in> set (sleepqueue lk)"
    have "locks k1 l = Some lk" using k1(1) that(2) by (simp add: wakes_def)
    then have "g_current_thread k \<in> set (queue_at k1 (Lck l))" using m by (simp add: queue_at_Lck)
    moreover have "g_current_thread k \<in> set (queue_at k1 Ready)" using k1(3) res that(1) by (simp add: queue_at_Ready)
    ultimately show False using kernel_okD(1) k1(2) unfolding fine_def one_place_def by blast
  qed
qed

text \<open>A call that puts the current thread in a queue, then sleeps.\<close>

lemma block_fine:
  assumes "running_ok k" "queue_at k' = (queue_at k)(p := queue_at k p @ [g_current_thread k])"
    and "g_current_thread k' = g_current_thread k" "g_thread_to_be_destroyed k' = g_thread_to_be_destroyed k"
    and "\<And>s. semaphores k' s = None \<longleftrightarrow> semaphores k s = None" "driver_semaphore k' = driver_semaphore k"
    and "threads k' = threads k" "yieldOnReturn k' = yieldOnReturn k"
  shows "fine k'" "waiting k' x \<longleftrightarrow> x = g_current_thread k \<or> waiting k x"
proof -
  have k: "kernel_ok k" "\<not> yieldOnReturn k" "\<not> waiting k (g_current_thread k)"
    "g_thread_to_be_destroyed k \<noteq> Some (g_current_thread k)"
    using assms(1) by (simp_all add: running_ok_def fine_def)
  note a = one_place_add [OF kernel_okD(1) [OF k(1)] k(3), of p]
  show w: "waiting k' x \<longleftrightarrow> x = g_current_thread k \<or> waiting k x" for x unfolding assms(2) by (rule a(2))
  have st: "started k' x = started k x" for x using assms(7) by (simp add: started_def)
  have "one_place (queue_at k')" unfolding assms(2) by (rule a(1))
  moreover have "\<forall>i. semaphores k' (driver_semaphore k' i) \<noteq> None" using kernel_okD(2) [OF k(1)] assms(5,6) by simp
  moreover have "\<forall>t. waiting k' t \<longrightarrow> started k' t" using w st kernel_okD(3,4) [OF k(1)] by metis
  moreover have "started k' (g_current_thread k')" using st assms(3) kernel_okD(4) [OF k(1)] by simp
  moreover have "\<forall>d. g_thread_to_be_destroyed k' = Some d \<longrightarrow> \<not> waiting k' d \<and> started k' d"
    using w st assms(4) kernel_okD(5,6) [OF k(1)] k(4) by metis
  ultimately show "fine k'" using assms(8) k(2) unfolding fine_def kernel_ok_def by simp
qed

definition good :: "'a kernel_scheme \<Rightarrow> 'a kernel_scheme outcome \<Rightarrow> bool" where
  "good k out \<longleftrightarrow> running_ok (state_of out) \<and> moves k (state_of out) \<and> serves k out"

lemma goodI: "running_ok k \<Longrightarrow> settles k k' \<Longrightarrow> fine k' \<Longrightarrow> good k (Returned k')"
  by (simp add: good_def settles_running settles_moves settles_serves)

lemma good_before: "settles k k1 \<Longrightarrow> good k1 out \<Longrightarrow> good k out"
  by (simp add: good_def moves_before serves_before)

text \<open>What follows a call that may switch only settles.\<close>

definition settling :: "('a kernel_scheme \<Rightarrow> 'a kernel_scheme outcome option) \<Rightarrow> bool" where
  "settling f \<longleftrightarrow> (\<forall>k out. fine k \<longrightarrow> f k = Some out \<longrightarrow> (\<exists>k'. out = Returned k' \<and> quiet k k' \<and> fine k'))"

lemma settlingD: "settling f \<Longrightarrow> fine k \<Longrightarrow> f k = Some out \<Longrightarrow> \<exists>k'. out = Returned k' \<and> quiet k k' \<and> fine k'"
  by (simp add: settling_def)

lemma set_level_return_settling: "settling (set_level_return l)"
  using set_level_return_quiet unfolding settling_def by blast

lemma P_end_settling: "settling (P_end sid old)"
  unfolding settling_def
proof (intro allI impI)
  fix k :: "'a kernel_scheme" and out
  assume fi: "fine k" and "P_end sid old k = Some out"
  then obtain s where s: "semaphores k sid = Some s"
    "set_level_return old (k\<lparr>semaphores := (semaphores k)(sid \<mapsto> s\<lparr>svalue := svalue s - 1\<rparr>)\<rparr>) = Some out"
    by (auto simp: P_end_def split: bind_splits)
  let ?k = "k\<lparr>semaphores := (semaphores k)(sid \<mapsto> s\<lparr>svalue := svalue s - 1\<rparr>)\<rparr>"
  have q: "queue_at ?k = queue_at k" using queue_at_Sem [OF s(1)] by (simp add: queue_simps one_place_same)
  have w: "wakes k ?k" using s(1) by (auto simp: wakes_def q)
  have "kernel_ok ?k" using wakes_ok [OF w] fi q kernel_okD(1) [of k] by (simp add: fine_def)
  then have "fine ?k" using fi by (simp add: fine_def)
  then show "\<exists>k'. out = Returned k' \<and> quiet k k' \<and> fine k'"
    using set_level_return_quiet [OF s(2)] wakes_quiet [OF w] quiet_trans by blast
qed

lemma after_good:
  assumes "good k out" "after out f = Some out'" "settling f"
  shows "good k out'" "switched out' = switched out" "locks (state_of out') = locks (state_of out)"
    "conts (state_of out') = conts (state_of out)"
    "g_current_thread (state_of out') = g_current_thread (state_of out)"
proof -
  have "good k out' \<and> switched out' = switched out \<and> locks (state_of out') = locks (state_of out)
    \<and> conts (state_of out') = conts (state_of out)
    \<and> g_current_thread (state_of out') = g_current_thread (state_of out)"
  proof (cases out)
    case (Returned k1)
    have g: "running_ok k1" "moves k k1" "serves k (Returned k1)" using assms(1) Returned by (simp_all add: good_def)
    then have fi: "fine k1" by (simp add: running_ok_def)
    obtain k2 where k2: "out' = Returned k2" "quiet k1 k2" "fine k2"
      using settlingD [OF assms(3) fi] assms(2) Returned by (auto simp: after_def)
    note q = quietD [OF k2(2)]
    have "good k out'"
      using moves_after [OF g(2) q(1)] serves_after [OF g(3) q(1)] settles_running [OF q(1) k2(3) g(1)] k2(1)
      by (simp add: good_def)
    then show ?thesis using k2(1) q settlesD(1) [OF q(1)] Returned by simp
  next
    case (Switched k1)
    then have "out' = out" using assms(2) by (simp add: after_def)
    then show ?thesis using assms(1) by simp
  qed
  then show "good k out'" "switched out' = switched out" "locks (state_of out') = locks (state_of out)"
    "conts (state_of out') = conts (state_of out)"
    "g_current_thread (state_of out') = g_current_thread (state_of out)" by simp_all
qed

text \<open>The lock a thread is in the middle of acquiring.\<close>

definition acquiring :: "'a kernel_scheme \<Rightarrow> nat \<Rightarrow> nat option" where
  "acquiring k t = (case conts k t of Some (After_Acquire l old) \<Rightarrow> Some l | _ \<Rightarrow> None)"

definition lock_same :: "'a kernel_scheme \<Rightarrow> 'a kernel_scheme \<Rightarrow> bool" where
  "lock_same k k' \<longleftrightarrow> locks k' = locks k \<and> (\<forall>t. acquiring k' t = acquiring k t)"

lemma quiet_lock_same: "quiet k k' \<Longrightarrow> lock_same k k'"
  by (simp add: quiet_def lock_same_def acquiring_def)

lemma lock_same_trans: "lock_same k k' \<Longrightarrow> lock_same k' k'' \<Longrightarrow> lock_same k k''"
  by (simp add: lock_same_def)

lemma lock_same_eq: "locks k' = locks k \<Longrightarrow> conts k' = conts k \<Longrightarrow> lock_same k k'"
  by (simp add: lock_same_def acquiring_def)

lemma lock_same_cont:
  assumes "locks k' = locks k" "conts k' = (if b then (conts k)(t := c) else conts k)" "acquiring k t = None"
    and "\<And>l old. c \<noteq> Some (After_Acquire l old)"
  shows "lock_same k k'"
  using assms by (auto simp: lock_same_def acquiring_def split: option.splits resume.splits)

text \<open>Calls that sleep without a lock.\<close>

lemma sleep_call:
  assumes "running_ok k" "settles k k1" "fine k1" "Sleep kt k2 = Some out" "after out f = Some out'" "settling f"
    and "fine k2" "g_current_thread k2 = g_current_thread k1" "\<And>x. started k2 x \<longleftrightarrow> started k1 x"
    and "\<And>x. waiting k2 x \<longleftrightarrow> x = g_current_thread k1 \<and> b \<or> waiting k1 x"
    and "readyList k2 = readyList k1"
    and "g_thread_to_be_destroyed k2 = g_thread_to_be_destroyed k1
      \<or> g_thread_to_be_destroyed k2 = Some (g_current_thread k1)"
  shows "good k out'" "switched out' = switched out" "locks (state_of out') = locks k2"
    "conts (state_of out') = (if switched out then (conts k2)(g_current_thread k \<mapsto> kt) else conts k2)"
proof -
  note s = Sleep_safe [OF assms(4,7)]
  have r1: "running_ok k1" by (rule settles_running [OF assms(2,3,1)])
  have mv: "moves k1 (state_of out)"
    unfolding moves_def
  proof (intro conjI allI impI)
    note m = movesD [OF s(2)]
    show "waiting k1 x \<or> x = g_current_thread k1 \<or> \<not> started k1 x \<or> g_thread_to_be_destroyed k1 = Some x"
      if "waiting (state_of out) x" for x
      using s(6) [OF that] assms(10) by blast
    show "g_current_thread (state_of out) = g_current_thread k1 \<or> waiting k1 (g_current_thread (state_of out))"
      using s(7) assms(10) by blast
    show "started (state_of out) x \<or> g_thread_to_be_destroyed k1 = Some x \<or> x = g_current_thread k1"
      if "started k1 x" for x
      using m(3) [of x] that assms(8,9,12) by (metis option.inject)
    show "g_thread_to_be_destroyed k1 = Some d \<or> d = g_current_thread k1"
      if "g_thread_to_be_destroyed (state_of out) = Some d" for d
      using m(4) [OF that] assms(8,12) by (metis option.inject)
  qed
  have "good k1 out" using s(1,3) mv assms(11) by (simp add: good_def serves_def)
  then have g: "good k out" by (rule good_before [OF assms(2)])
  note a = after_good [OF g assms(5,6)]
  show "good k out'" "switched out' = switched out" "locks (state_of out') = locks k2"
    "conts (state_of out') = (if switched out then (conts k2)(g_current_thread k \<mapsto> kt) else conts k2)"
    using a s(4,5) settlesD(1) [OF assms(2)] assms(8) by simp_all
qed

lemma running_fine: "running_ok k \<Longrightarrow> fine k"
  by (simp add: running_ok_def)

lemma started_eq: "threads k' = threads k \<Longrightarrow> started k' x = started k x"
  by (simp add: started_def)

text \<open>A call that changes nothing but the level, the handlers' work, and one update in between.\<close>

lemma update_call:
  assumes "running_ok k" "set_level l1 k = Some k1" "set_level l2 k2 = Some k3" "settles k1 k2" "fine k2"
  shows "good k (Returned k3)" "locks k3 = locks k2" "conts k3 = conts k2" "locks k1 = locks k" "conts k1 = conts k"
proof -
  note a = set_level_quiet [OF assms(2) running_fine [OF assms(1)]] and b = set_level_quiet [OF assms(3,5)]
  show "locks k3 = locks k2" "conts k3 = conts k2" "locks k1 = locks k" "conts k1 = conts k"
    using quietD [OF a(1)] quietD [OF b(1)] by simp_all
  show "good k (Returned k3)"
    using goodI [OF assms(1) settles_trans [OF settles_trans [OF quietD(1) [OF a(1)] assms(4)] quietD(1) [OF b(1)]] b(2)] .
qed

lemma Semaphore_P_good:
  assumes "Semaphore_P sid k = Some out'" "running_ok k" "acquiring k (g_current_thread k) = None"
  shows "good k out' \<and> lock_same k (state_of out')"
proof -
  obtain k1 s out where k1: "set_level INTERRUPTS_OFF k = Some k1" and s: "semaphores k1 sid = Some s"
    and out: "(if svalue s \<le> 0 then Sleep (After_P sid (level k)) (k1\<lparr>semaphores :=
        (semaphores k1)(sid \<mapsto> s\<lparr>squeue := squeue s @ [g_current_thread k1]\<rparr>)\<rparr>) else Some (Returned k1)) = Some out"
    and o: "after out (P_end sid (level k)) = Some out'"
    using assms(1) by (auto simp: Semaphore_P_def Let_def split: bind_splits)
  note a = set_level_quiet [OF k1 running_fine [OF assms(2)]]
  note q = quietD [OF a(1)]
  have r1: "running_ok k1" by (rule settles_running [OF q(1) a(2) assms(2)])
  show ?thesis
  proof (cases "svalue s \<le> 0")
    case True
    let ?k = "k1\<lparr>semaphores := (semaphores k1)(sid \<mapsto> s\<lparr>squeue := squeue s @ [g_current_thread k1]\<rparr>)\<rparr>"
    have sl: "Sleep (After_P sid (level k)) ?k = Some out" using out True by simp
    have qa: "queue_at ?k = (queue_at k1)(Sem sid := queue_at k1 (Sem sid) @ [g_current_thread k1])"
      using queue_at_Sem [OF s] by (simp add: queue_simps)
    have e: "g_current_thread ?k = g_current_thread k1" "driver_semaphore ?k = driver_semaphore k1"
      "g_thread_to_be_destroyed ?k = g_thread_to_be_destroyed k1" "threads ?k = threads k1"
      "yieldOnReturn ?k = yieldOnReturn k1" "\<And>x. semaphores ?k x = None \<longleftrightarrow> semaphores k1 x = None"
      using s by simp_all
    note b = block_fine [OF r1 qa e(1,3,6,2,4,5)]
    have f: "g_current_thread ?k = g_current_thread k1" "readyList ?k = readyList k1"
      "g_thread_to_be_destroyed ?k = g_thread_to_be_destroyed k1" "\<And>x. started ?k x = started k1 x"
      "locks ?k = locks k1" "conts ?k = conts k1"
      by (simp_all add: started_def)
    have w: "waiting ?k x \<longleftrightarrow> x = g_current_thread k1 \<and> True \<or> waiting k1 x" for x using b(2) by simp
    note c = sleep_call [OF assms(2) q(1) a(2) sl o P_end_settling b(1) f(1,4) w f(2) disjI1 [OF f(3)]]
    have "lock_same k (state_of out')"
      by (rule lock_same_cont [OF _ c(4) [unfolded f(6) q(3)] assms(3)]) (simp_all add: c(3) f(5) q(2))
    then show ?thesis using c(1) by simp
  next
    case False
    then have "P_end sid (level k) k1 = Some out'" using out o by (auto simp: after_def)
    from settlingD [OF P_end_settling a(2) this] obtain k2 where k2: "out' = Returned k2" "quiet k1 k2" "fine k2" by blast
    have "quiet k k2" by (rule quiet_trans [OF a(1) k2(2)])
    then show ?thesis using goodI [OF assms(2) _ k2(3)] quietD(1) quiet_lock_same k2(1) by auto
  qed
qed

lemma Semaphore_V_good:
  assumes "Semaphore_V sid k = Some k'" "running_ok k"
  shows "good k (Returned k') \<and> lock_same k k'"
proof -
  obtain k1 s where k1: "set_level INTERRUPTS_OFF k = Some k1" and s: "semaphores k1 sid = Some s"
    and k': "set_level (level k) (V_body sid s k1) = Some k'"
    using assms(1) by (auto simp: Semaphore_V_def V_with_body set_level_def split: bind_splits)
  note a = set_level_quiet [OF k1 running_fine [OF assms(2)]]
  have o: "one_place (queue_at k1)" using a(2) kernel_okD(1) by (auto simp: fine_def)
  note v = V_body_wakes [OF o s]
  have fi: "fine (V_body sid s k1)"
    using wakes_ok [OF conjunct1 [OF v] conjunct2 [OF v]] a(2) by (simp add: fine_def V_body_frame)
  have q: "quiet k1 (V_body sid s k1)" using v wakes_quiet by blast
  note u = update_call [OF assms(2) k1 k' quietD(1) [OF q] fi]
  show ?thesis using u quietD(2,3) [OF q] by (auto intro: lock_same_eq)
qed

lemma Condition_Wait_good:
  assumes "Condition_Wait cid k = Some out'" "running_ok k" "acquiring k (g_current_thread k) = None"
  shows "good k out' \<and> lock_same k (state_of out') \<and> switched out'
    \<and> g_current_thread (state_of out') \<noteq> g_current_thread k
    \<and> \<not> waiting (state_of out') (g_current_thread k) \<and> started (state_of out') (g_current_thread k)
    \<and> g_thread_to_be_destroyed (state_of out') \<noteq> Some (g_current_thread k)"
proof -
  obtain k1 out where k1: "set_level INTERRUPTS_OFF k = Some k1" and sl: "Sleep (After_Wait (level k)) k1 = Some out"
    and o: "after out (set_level_return (level k)) = Some out'"
    using assms(1) by (auto simp: Condition_Wait_def Let_def split: bind_splits)
  note a = set_level_quiet [OF k1 running_fine [OF assms(2)]]
  note q = quietD [OF a(1)]
  have r1: "running_ok k1" by (rule settles_running [OF q(1) a(2) assms(2)])
  have w: "waiting k1 x \<longleftrightarrow> x = g_current_thread k1 \<and> False \<or> waiting k1 x" for x by simp
  note c = sleep_call [OF assms(2) q(1) a(2) sl o set_level_return_settling a(2) refl refl w refl disjI1 [OF refl]]
  note s = Sleep_safe [OF sl a(2)]
  have "\<not> waiting k1 (g_current_thread k1)" using r1 by (simp add: running_ok_def)
  then have sw: "switched out" using s(7,8) by metis
  have cur: "g_current_thread (state_of out) \<noteq> g_current_thread k" using s(10) [OF sw] settlesD(1) [OF q(1)] by simp
  have "out' = out" using o sw by (cases out) (simp_all add: after_def)
  moreover have "\<not> waiting (state_of out) (g_current_thread k)"
    using s(6) \<open>\<not> waiting k1 (g_current_thread k1)\<close> settlesD(1) [OF q(1)] by metis
  moreover have "lock_same k (state_of out')"
    by (rule lock_same_cont [OF _ c(4) [unfolded q(3)] assms(3)]) (simp_all add: c(3) q(2))
  moreover have "started (state_of out) (g_current_thread k)" "g_thread_to_be_destroyed (state_of out) \<noteq> Some (g_current_thread k)"
    using s(11) [of "g_current_thread k1"] s(12) [of "g_current_thread k1"] r1 a(2) kernel_okD(4) [of k1]
      settlesD(1) [OF q(1)] by (auto simp: running_ok_def fine_def)
  ultimately show ?thesis using c(1) sw cur by simp
qed

lemma Thread_Finish_good:
  assumes "Thread_Finish k = Some out'" "running_ok k" "acquiring k (g_current_thread k) = None"
  shows "good k out' \<and> lock_same k (state_of out')"
proof -
  obtain k1 alive out where k1: "set_level INTERRUPTS_OFF k = Some k1" and
    sl: "Sleep (After_Finish (level k)) (k1\<lparr>g_thread_to_be_destroyed := Some (g_current_thread k1), g_alive := alive\<rparr>) = Some out"
    and o: "after out (set_level_return (level k)) = Some out'"
    using assms(1) by (auto simp: Thread_Finish_def Let_def split: bind_splits)
  note a = set_level_quiet [OF k1 running_fine [OF assms(2)]]
  note q = quietD [OF a(1)]
  have r1: "running_ok k1" by (rule settles_running [OF q(1) a(2) assms(2)])
  let ?k = "k1\<lparr>g_thread_to_be_destroyed := Some (g_current_thread k1), g_alive := alive\<rparr>"
  have qa: "queue_at ?k = queue_at k1" by (simp add: queue_simps)
  have f: "g_current_thread ?k = g_current_thread k1" "readyList ?k = readyList k1"
    "g_thread_to_be_destroyed ?k = Some (g_current_thread k1)" "\<And>x. started ?k x = started k1 x"
    "locks ?k = locks k1" "conts ?k = conts k1" "semaphores ?k = semaphores k1"
    "driver_semaphore ?k = driver_semaphore k1" "yieldOnReturn ?k = yieldOnReturn k1"
    by (simp_all add: started_def)
  have ok: "kernel_ok k1" using a(2) by (simp add: fine_def)
  have nw: "\<not> waiting k1 (g_current_thread k1)" using r1 by (simp add: running_ok_def)
  have fi: "fine ?k"
    using a(2) kernel_okD(1-4) [OF ok] nw unfolding fine_def kernel_ok_def qa f by auto
  have w: "waiting ?k x \<longleftrightarrow> x = g_current_thread k1 \<and> False \<or> waiting k1 x" for x unfolding qa by simp
  note c = sleep_call [OF assms(2) q(1) a(2) sl o set_level_return_settling fi f(1,4) w f(2) disjI2 [OF f(3)]]
  have "lock_same k (state_of out')"
    by (rule lock_same_cont [OF _ c(4) [unfolded f(6) q(3)] assms(3)]) (simp_all add: c(3) f(5) q(2))
  then show ?thesis using c(1) by simp
qed

text \<open>A call of \<open>Yield\<close> that returns has found no other thread ready.\<close>

lemma Yield_with_good:
  assumes "Yield_with kt k = Some out'" "running_ok k" "acquiring k (g_current_thread k) = None"
    and "\<And>l old old'. kt old' \<noteq> After_Acquire l old"
  shows "good k out' \<and> lock_same k (state_of out') \<and> (\<not> switched out' \<longrightarrow> quiet k (state_of out'))"
proof -
  obtain k1 where k1: "set_level INTERRUPTS_OFF k = Some k1" and
    st: "(case FindNextToRun k1 of
        (None, k2) \<Rightarrow> set_level_return (level k) k2
      | (Some next, k2) \<Rightarrow> do {
          out \<leftarrow> SwitchTo next (kt (level k)) (ReadyToRun (g_current_thread k2) k2);
          after out (set_level_return (level k)) }) = Some out'"
    using assms(1) by (auto simp: Yield_with_def Let_def split: bind_splits)
  note a = set_level_quiet [OF k1 running_fine [OF assms(2)]]
  note q = quietD [OF a(1)]
  have r1: "running_ok k1" by (rule settles_running [OF q(1) a(2) assms(2)])
  show ?thesis
  proof (cases "readyList k1")
    case Nil
    then have "set_level_return (level k) k1 = Some out'" using st by (simp add: FindNextToRun_def)
    from set_level_return_quiet [OF this a(2)] obtain k2 where k2: "out' = Returned k2" "quiet k1 k2" "fine k2" by blast
    have qq: "quiet k k2" by (rule quiet_trans [OF a(1) k2(2)])
    then show ?thesis using goodI [OF assms(2) quietD(1) [OF qq] k2(3)] quiet_lock_same [OF qq] k2(1) by simp
  next
    case (Cons n ts)
    let ?k2 = "k1\<lparr>readyList := ts\<rparr>"
    let ?k3 = "ReadyToRun (g_current_thread ?k2) ?k2"
    note p = pop_ready [OF a(2) Cons]
    obtain out where sw: "SwitchTo n (kt (level k)) ?k3 = Some out"
      and o: "after out (set_level_return (level k)) = Some out'"
      using st Cons by (auto simp: FindNextToRun_def split: bind_splits)
    have nw: "\<not> waiting k1 (g_current_thread k1)" "g_thread_to_be_destroyed k1 \<noteq> Some (g_current_thread k1)"
      using r1 by (simp_all add: running_ok_def)
    have nc: "n \<noteq> g_current_thread k1" using p(7) [OF nw(1)] .
    have f: "g_current_thread ?k3 = g_current_thread k1" "readyList ?k3 = ts @ [g_current_thread k1]"
      "g_thread_to_be_destroyed ?k3 = g_thread_to_be_destroyed k1" "\<And>x. started ?k3 x = started k1 x"
      "locks ?k3 = locks k1" "conts ?k3 = conts k1"
      by (simp_all add: ReadyToRun_def started_def)
    have "\<not> waiting ?k2 (g_current_thread ?k2)" using p(6) nw(1) by auto
    then have r2: "running_ok ?k2" using p(1) nw(2) by (simp add: running_ok_def)
    have qa: "queue_at ?k3 = (queue_at ?k2)(Ready := queue_at ?k2 Ready @ [g_current_thread ?k2])"
      by (simp add: ReadyToRun_def queue_simps queue_at_Ready)
    have e: "g_current_thread ?k3 = g_current_thread ?k2" "g_thread_to_be_destroyed ?k3 = g_thread_to_be_destroyed ?k2"
      "\<And>s. semaphores ?k3 s = None \<longleftrightarrow> semaphores ?k2 s = None" "driver_semaphore ?k3 = driver_semaphore ?k2"
      "threads ?k3 = threads ?k2" "yieldOnReturn ?k3 = yieldOnReturn ?k2"
      by (simp_all add: ReadyToRun_def)
    note b = block_fine [OF r2 qa e]
    have n3: "\<not> waiting ?k3 n" using b(2) p(2) nc by simp
    have d3: "g_thread_to_be_destroyed ?k3 \<noteq> Some n" using p(3) f(3) by simp
    obtain k' where k': "out = Switched k'" "running_ok k'" "g_current_thread k' = n"
      "conts k' = (conts ?k3)(g_current_thread ?k3 \<mapsto> kt (level k))" "queue_at k' = queue_at ?k3" "readyList k' = readyList ?k3"
      "locks k' = locks ?k3" "\<And>x. started k' x \<longleftrightarrow> started ?k3 x"
      "g_thread_to_be_destroyed k' = g_thread_to_be_destroyed ?k3"
      using SwitchTo_safe [OF sw b(1) n3 d3] nc f(1) by auto
    have out': "out' = Switched k'" using o k'(1) by (simp add: after_def)
    have w': "waiting k' x \<longleftrightarrow> x = g_current_thread k1 \<or> waiting ?k2 x" for x using b(2) k'(5) by simp
    have "moves k1 k'"
      unfolding moves_def using w' p(4,6) k'(3,8,9) f(3,4) by auto
    moreover have "serves k1 (Switched k')"
      unfolding serves_def using Cons k'(3,6) f(2) by auto
    ultimately have "good k1 out'" using k'(2) out' by (simp add: good_def)
    then have "good k out'" by (rule good_before [OF q(1)])
    moreover have "lock_same k k'"
    proof (rule lock_same_cont [where b = True, OF _ _ assms(3)])
      show "locks k' = locks k" using k'(7) f(5) q(2) by simp
      show "conts k' = (if True then (conts k)(g_current_thread k := Some (kt (level k))) else conts k)"
        using k'(4) f(1,6) q(3) settlesD(1) [OF q(1)] by simp
    qed (use assms(4) in simp)
    ultimately show ?thesis using out' by simp
  qed
qed

lemma Thread_Join_good:
  assumes "Thread_Join target k = Some out'" "running_ok k" "acquiring k (g_current_thread k) = None"
  shows "good k out' \<and> lock_same k (state_of out')"
proof -
  have "running_ok k \<longrightarrow> acquiring k (g_current_thread k) = None \<longrightarrow> good k out' \<and> lock_same k (state_of out')"
  proof (rule Thread_Join.raw_induct [where P = "\<lambda>t k out'. running_ok k \<longrightarrow> acquiring k (g_current_thread k) = None
      \<longrightarrow> good k out' \<and> lock_same k (state_of out')", OF _ assms(1)])
    fix rec :: "nat \<Rightarrow> 'a kernel_scheme \<Rightarrow> 'a kernel_scheme outcome option" and t k out'
    assume IH: "\<And>t k out'. rec t k = Some out' \<Longrightarrow> running_ok k \<longrightarrow> acquiring k (g_current_thread k) = None
      \<longrightarrow> good k out' \<and> lock_same k (state_of out')"
      and st: "(if t \<in> set (g_alive k) then Option.bind (Yield_with (After_Join t) k) (\<lambda>out.
        case out of Returned k' \<Rightarrow> rec t k' | Switched k' \<Rightarrow> Some (Switched k')) else Some (Returned k)) = Some out'"
    show "running_ok k \<longrightarrow> acquiring k (g_current_thread k) = None \<longrightarrow> good k out' \<and> lock_same k (state_of out')"
    proof (intro impI)
      assume r: "running_ok k" and ac: "acquiring k (g_current_thread k) = None"
      show "good k out' \<and> lock_same k (state_of out')"
      proof (cases "t \<in> set (g_alive k)")
        case False
        then have "out' = Returned k" using st by simp
        then show ?thesis using goodI [OF r settles_refl running_fine [OF r]] quiet_lock_same [OF quiet_refl] by simp
      next
        case True
        then obtain out where out: "Yield_with (After_Join t) k = Some out"
          "(case out of Returned k' \<Rightarrow> rec t k' | Switched k' \<Rightarrow> Some (Switched k')) = Some out'"
          using st by (auto split: bind_splits)
        have y: "good k out" "lock_same k (state_of out)" "\<not> switched out \<Longrightarrow> quiet k (state_of out)"
          using Yield_with_good [OF out(1) r ac] by simp_all
        show ?thesis
        proof (cases out)
          case (Switched k')
          then show ?thesis using out(2) y by simp
        next
          case (Returned k')
          then have q: "quiet k k'" "rec t k' = Some out'" using out(2) y(3) by simp_all
          have r': "running_ok k'" using y(1) Returned by (simp add: good_def)
          have "acquiring k' (g_current_thread k') = None"
            using ac y(2) settlesD(1) [OF quietD(1) [OF q(1)]] Returned by (simp add: lock_same_def)
          then have "good k' out'" "lock_same k' (state_of out')" using IH [OF q(2)] r' by blast+
          then show ?thesis
            using good_before [OF quietD(1) [OF q(1)]] lock_same_trans [OF quiet_lock_same [OF q(1)]] by blast
        qed
      qed
    qed
  qed
  then show ?thesis using assms(2,3) by blast
qed

text \<open>Objects that are made.\<close>

lemma new_object:
  assumes "running_ok k" "queue_at k' = queue_at k" "g_current_thread k' = g_current_thread k"
    and "g_thread_to_be_destroyed k' = g_thread_to_be_destroyed k" "\<And>x. started k' x \<longleftrightarrow> started k x"
    and "\<And>s. semaphores k s \<noteq> None \<Longrightarrow> semaphores k' s \<noteq> None" "driver_semaphore k' = driver_semaphore k"
    and "yieldOnReturn k' = yieldOnReturn k"
  shows "good k (Returned k')"
proof -
  have r: "readyList k' = readyList k" using assms(2) queue_at_Ready by metis
  have fi: "fine k" by (rule running_fine [OF assms(1)])
  have "settles k k'" unfolding settles_def assms(2-5) r by simp
  moreover have "fine k'"
    using fi assms(6) unfolding fine_def kernel_ok_def assms(2-5,7,8) by blast
  ultimately show ?thesis by (rule goodI [OF assms(1)])
qed

lemma queue_at_None: "semaphores k s = None \<Longrightarrow> queue_at k (Sem s) = []"
  "locks k l = None \<Longrightarrow> queue_at k (Lck l) = []" "conditions k c = None \<Longrightarrow> queue_at k (Cond c) = []"
  by (simp_all add: queue_at_def)

lemma Thread_new_good:
  assumes "Thread_new cfg t k = Some k'" "running_ok k"
  shows "good k (Returned k') \<and> lock_same k k'"
proof -
  obtain th where k': "k' = k\<lparr>threads := (threads k)(t \<mapsto> th)\<rparr>" "threads k t = None" "t_process th = None"
    using assms(1) by (auto simp: Thread_new_def split: if_splits)
  have st: "started k' x \<longleftrightarrow> started k x" for x using k'(2,3) unfolding k'(1) by (simp add: started_def)
  have "good k (Returned k')" by (rule new_object [OF assms(2) _ _ _ st]) (simp_all add: k'(1) queue_simps)
  then show ?thesis using k'(1) by (simp add: lock_same_def acquiring_def)
qed

lemma Semaphore_new_good:
  assumes "Semaphore_new sid v k = Some k'" "running_ok k"
  shows "good k (Returned k') \<and> lock_same k k'"
proof -
  have k': "semaphores k sid = None" "k' = k\<lparr>semaphores := (semaphores k)(sid \<mapsto> \<lparr>svalue = v, squeue = []\<rparr>)\<rparr>"
    using assms(1) by (auto simp: Semaphore_new_def split: if_splits)
  have "queue_at k' = queue_at k" unfolding k'(2) by (simp add: queue_simps queue_at_None(1) [OF k'(1)] one_place_same)
  then have "good k (Returned k')" using k'(2) by (intro new_object [OF assms(2)]) (simp_all add: started_def)
  then show ?thesis using k'(2) by (simp add: lock_same_def acquiring_def)
qed

lemma Condition_new_good:
  assumes "Condition_new c k = Some k'" "running_ok k"
  shows "good k (Returned k') \<and> lock_same k k'"
proof -
  have k': "conditions k c = None" "k' = k\<lparr>conditions := (conditions k)(c \<mapsto> \<lparr>waitqueue = []\<rparr>)\<rparr>"
    using assms(1) by (auto simp: Condition_new_def split: if_splits)
  have "queue_at k' = queue_at k" unfolding k'(2) by (simp add: queue_simps queue_at_None(3) [OF k'(1)] one_place_same)
  then have "good k (Returned k')" using k'(2) by (intro new_object [OF assms(2)]) (simp_all add: started_def)
  then show ?thesis using k'(2) by (simp add: lock_same_def acquiring_def)
qed

lemma Lock_new_good:
  assumes "Lock_new l k = Some k'" "running_ok k"
  shows "good k (Returned k')" "locks k l = None"
    "locks k' = (locks k)(l \<mapsto> \<lparr>sleepqueue = [], lfree = True, lowner = None\<rparr>)" "conts k' = conts k"
proof -
  show k': "locks k l = None" and l: "locks k' = (locks k)(l \<mapsto> \<lparr>sleepqueue = [], lfree = True, lowner = None\<rparr>)"
    and "conts k' = conts k"
    using assms(1) by (auto simp: Lock_new_def split: if_splits)
  have e: "k' = k\<lparr>locks := (locks k)(l \<mapsto> \<lparr>sleepqueue = [], lfree = True, lowner = None\<rparr>)\<rparr>"
    using assms(1) by (auto simp: Lock_new_def split: if_splits)
  have "queue_at k' = queue_at k" unfolding e by (simp add: queue_simps queue_at_None(2) [OF k'] one_place_same)
  then show "good k (Returned k')" using e by (intro new_object [OF assms(2)]) (simp_all add: started_def)
qed

text \<open>Time passes.\<close>

lemma wakes_good:
  assumes "running_ok k" "wakes k k'" "kernel_ok k'" "\<not> yieldOnReturn k'"
  shows "good k (Returned k') \<and> lock_same k k'"
  using goodI [OF assms(1) quietD(1) [OF wakes_quiet [OF assms(2)]]] quiet_lock_same [OF wakes_quiet [OF assms(2)]]
    assms(3,4) by (simp add: fine_def)

lemma Tick_good:
  assumes "OneTick device_call y n k = Some k'" "running_ok k"
  shows "good k (Returned k') \<and> lock_same k k'"
  using irqs.OneTick_safe [OF assms(1)] running_fine [OF assms(2)] assms(2)
  by (intro wakes_good) (simp_all add: fine_def)

lemma Request_good:
  assumes "Schedule i arg d ty k = Some k'" "running_ok k"
  shows "good k (Returned k') \<and> lock_same k k'"
proof -
  obtain p where k': "k' = k\<lparr>pending := p\<rparr>" using assms(1) by (auto simp: Schedule_def Let_def split: if_splits)
  have m: "interrupts.more k = interrupts.more k'" unfolding k' by simp
  have "kernel_ok k" "\<not> yieldOnReturn k" using running_fine [OF assms(2)] by (simp_all add: fine_def)
  then show ?thesis using wakes_good [OF assms(2) wakes_more [OF m] kernel_ok_more [OF m]] k' by simp
qed

text \<open>Waking threads from a queue.\<close>

lemma wake_fine:
  assumes "fine k" "queue_at k p = t # ts" "p \<noteq> Ready"
    and "queue_at k' = (queue_at k)(p := ts, Ready := queue_at k Ready @ [t])"
    and "g_current_thread k' = g_current_thread k" "g_thread_to_be_destroyed k' = g_thread_to_be_destroyed k"
    and "\<And>s. semaphores k' s = None \<longleftrightarrow> semaphores k s = None" "driver_semaphore k' = driver_semaphore k"
    and "threads k' = threads k" "yieldOnReturn k' = yieldOnReturn k"
  shows "fine k'" "settles k k'"
proof -
  have k: "kernel_ok k" "\<not> yieldOnReturn k" using assms(1) by (simp_all add: fine_def)
  note w = one_place_wake [OF kernel_okD(1) [OF k(1)] assms(2,3)]
  have q: "waiting k' x \<longleftrightarrow> waiting k x" for x unfolding assms(4) w(2) ..
  have st: "started k' x = started k x" for x using assms(9) by (simp add: started_def)
  have "one_place (queue_at k')" unfolding assms(4) by (rule w(1))
  then show "fine k'"
    using kernel_okD [OF k(1)] assms(7) k(2) unfolding fine_def kernel_ok_def assms(5,6,8,10) q st by blast
  have "readyList k' = readyList k @ [t]" using assms(4) queue_at_Ready [of k'] queue_at_Ready [of k] by simp
  then show "settles k k'" unfolding settles_def assms(5,6) q st by simp
qed

lemma Condition_Signal_good:
  assumes "Condition_Signal c k = Some k'" "running_ok k"
  shows "good k (Returned k') \<and> lock_same k k'"
proof -
  obtain k1 cn where k1: "set_level INTERRUPTS_OFF k = Some k1" and cn: "conditions k1 c = Some cn"
    and st: "set_level (level k) (case waitqueue cn of [] \<Rightarrow> k1
        | t # ts \<Rightarrow> ReadyToRun t (k1\<lparr>conditions := (conditions k1)(c \<mapsto> cn\<lparr>waitqueue := ts\<rparr>)\<rparr>)) = Some k'"
    using assms(1) by (auto simp: Condition_Signal_def Let_def split: bind_splits)
  note a = set_level_quiet [OF k1 running_fine [OF assms(2)]]
  show ?thesis
  proof (cases "waitqueue cn")
    case Nil
    then have "set_level (level k) k1 = Some k'" using st by simp
    from update_call [OF assms(2) k1 this settles_refl a(2)] show ?thesis by (auto intro: lock_same_eq)
  next
    case (Cons t ts)
    let ?k = "ReadyToRun t (k1\<lparr>conditions := (conditions k1)(c \<mapsto> cn\<lparr>waitqueue := ts\<rparr>)\<rparr>)"
    have q: "queue_at k1 (Cond c) = t # ts" using queue_at_Cond [OF cn] Cons by simp
    have "queue_at ?k = (queue_at k1)(Cond c := ts, Ready := queue_at k1 Ready @ [t])"
      by (simp add: ReadyToRun_def queue_simps queue_at_Ready)
    note w = wake_fine [OF a(2) q _ this]
    have "fine ?k" "settles k1 ?k" by (rule w; simp add: ReadyToRun_def)+
    moreover have "locks ?k = locks k1" "conts ?k = conts k1" by (simp_all add: ReadyToRun_def)
    moreover have "set_level (level k) ?k = Some k'" using st Cons by simp
    ultimately show ?thesis using update_call [OF assms(2) k1, of "level k" ?k k'] by (auto intro: lock_same_eq)
  qed
qed

lemma ReadyToRun_conditions: "ReadyToRun t (k\<lparr>conditions := cs\<rparr>) = (ReadyToRun t k)\<lparr>conditions := cs\<rparr>"
  by (cases k) (simp add: ReadyToRun_def)

lemma broadcast_fine:
  "fine k \<Longrightarrow> conditions k c = Some cn \<Longrightarrow> waitqueue cn = ws \<Longrightarrow>
   fine (fold ReadyToRun ws (k\<lparr>conditions := (conditions k)(c \<mapsto> cn\<lparr>waitqueue := []\<rparr>)\<rparr>))
   \<and> quiet k (fold ReadyToRun ws (k\<lparr>conditions := (conditions k)(c \<mapsto> cn\<lparr>waitqueue := []\<rparr>)\<rparr>))"
proof (induction ws arbitrary: k cn)
  case Nil
  let ?k = "k\<lparr>conditions := (conditions k)(c \<mapsto> cn\<lparr>waitqueue := []\<rparr>)\<rparr>"
  have q: "queue_at ?k = queue_at k" using queue_at_Cond [OF Nil(2)] Nil(3) by (simp add: queue_simps one_place_same)
  have st: "started ?k x = started k x" for x by (simp add: started_def)
  have "quiet k ?k" by (simp add: quiet_def settles_def q st)
  moreover have "fine ?k" using Nil(1) by (simp add: fine_def kernel_ok_def q st)
  ultimately show ?case by (simp only: fold.simps id_apply simp_thms)
next
  case (Cons t ts)
  let ?k = "ReadyToRun t (k\<lparr>conditions := (conditions k)(c \<mapsto> cn\<lparr>waitqueue := ts\<rparr>)\<rparr>)"
  have q: "queue_at k (Cond c) = t # ts" using queue_at_Cond [OF Cons.prems(2)] Cons.prems(3) by simp
  have "queue_at ?k = (queue_at k)(Cond c := ts, Ready := queue_at k Ready @ [t])"
    by (simp add: ReadyToRun_def queue_simps queue_at_Ready)
  note w = wake_fine [OF Cons.prems(1) q _ this]
  have w': "fine ?k" "settles k ?k" by (rule w; simp add: ReadyToRun_def)+
  have qq: "quiet k ?k" using w'(2) by (simp add: quiet_def ReadyToRun_def)
  have e: "fold ReadyToRun (t # ts) (k\<lparr>conditions := (conditions k)(c \<mapsto> cn\<lparr>waitqueue := []\<rparr>)\<rparr>)
      = fold ReadyToRun ts (?k\<lparr>conditions := (conditions ?k)(c \<mapsto> cn\<lparr>waitqueue := ts\<rparr>\<lparr>waitqueue := []\<rparr>)\<rparr>)"
    by (simp add: ReadyToRun_conditions)
  have "conditions ?k c = Some (cn\<lparr>waitqueue := ts\<rparr>)" by (simp add: ReadyToRun_def)
  note ih = Cons.IH [OF w'(1) this]
  have "waitqueue (cn\<lparr>waitqueue := ts\<rparr>) = ts" by simp
  from ih [OF this] show ?case unfolding e using quiet_trans [OF qq] by blast
qed

lemma Condition_Broadcast_good:
  assumes "Condition_Broadcast c k = Some k'" "running_ok k"
  shows "good k (Returned k') \<and> lock_same k k'"
proof -
  obtain k1 cn where k1: "set_level INTERRUPTS_OFF k = Some k1" and cn: "conditions k1 c = Some cn"
    and st: "set_level (level k) (fold ReadyToRun (waitqueue cn)
        (k1\<lparr>conditions := (conditions k1)(c \<mapsto> cn\<lparr>waitqueue := []\<rparr>)\<rparr>)) = Some k'"
    using assms(1) by (auto simp: Condition_Broadcast_def Let_def split: bind_splits)
  note a = set_level_quiet [OF k1 running_fine [OF assms(2)]]
  have b: "fine (fold ReadyToRun (waitqueue cn) (k1\<lparr>conditions := (conditions k1)(c \<mapsto> cn\<lparr>waitqueue := []\<rparr>)\<rparr>))"
    "quiet k1 (fold ReadyToRun (waitqueue cn) (k1\<lparr>conditions := (conditions k1)(c \<mapsto> cn\<lparr>waitqueue := []\<rparr>)\<rparr>))"
    using broadcast_fine [OF a(2) cn refl] by simp_all
  note u = update_call [OF assms(2) k1 st quietD(1) [OF b(2)] b(1)]
  show ?thesis using u quietD(2,3) [OF b(2)] by (auto intro: lock_same_eq)
qed

lemma Thread_Start_good:
  assumes "Thread_Start cfg t owner func arg k = Some k'" "running_ok k"
  shows "good k (Returned k') \<and> \<not> started k t \<and> (acquiring k t = None \<longrightarrow> lock_same k k')"
proof -
  obtain k1 th pr as tt' sp where k1: "set_level INTERRUPTS_OFF k = Some k1"
    and th: "threads k1 t = Some th" "t_process th = None"
    and st: "set_level (level k) (ReadyToRun t (k1\<lparr>threads := (threads k1)(t \<mapsto>
             InitThreadContext func (word_of_int sp) arg (th\<lparr>t_process := Some owner\<rparr>)),
           processes := (processes k1)(owner \<mapsto> pr\<lparr>numThreads := numThreads pr + 1, addrspace := as\<rparr>),
           tables := (tables k1)(ptable pr \<mapsto> tt'), g_alive := g_alive k1 @ [t],
           conts := (conts k1)(t \<mapsto> StartThreadExecution)\<rparr>)) = Some k'"
    using assms(1) by (auto simp: Thread_Start_def Let_def split: bind_splits if_splits)
  note a = set_level_quiet [OF k1 running_fine [OF assms(2)]]
  note q = quietD [OF a(1)]
  have r1: "running_ok k1" by (rule settles_running [OF q(1) a(2) assms(2)])
  obtain k2 where k2: "k2 = k1\<lparr>threads := (threads k1)(t \<mapsto>
             InitThreadContext func (word_of_int sp) arg (th\<lparr>t_process := Some owner\<rparr>)),
           processes := (processes k1)(owner \<mapsto> pr\<lparr>numThreads := numThreads pr + 1, addrspace := as\<rparr>),
           tables := (tables k1)(ptable pr \<mapsto> tt'), g_alive := g_alive k1 @ [t],
           conts := (conts k1)(t \<mapsto> StartThreadExecution)\<rparr>" by blast
  let ?k3 = "ReadyToRun t k2"
  have sl: "set_level (level k) ?k3 = Some k'" using st unfolding k2 by blast
  have ok: "kernel_ok k1" using a(2) by (simp add: fine_def)
  have ns: "\<not> started k1 t" using th by (simp add: started_def)
  have nt: "\<not> waiting k1 t" "t \<noteq> g_current_thread k1" "g_thread_to_be_destroyed k1 \<noteq> Some t"
    using kernel_okD(3,4,6) [OF ok] ns by blast+
  have qa: "queue_at ?k3 = (queue_at k1)(Ready := queue_at k1 Ready @ [t])"
    unfolding k2 by (simp add: ReadyToRun_def queue_simps queue_at_Ready)
  note add = one_place_add [OF kernel_okD(1) [OF ok] nt(1), of Ready]
  have w: "waiting ?k3 x \<longleftrightarrow> x = t \<or> waiting k1 x" for x unfolding qa by (rule add(2))
  have f: "g_current_thread ?k3 = g_current_thread k1" "g_thread_to_be_destroyed ?k3 = g_thread_to_be_destroyed k1"
    "readyList ?k3 = readyList k1 @ [t]" "semaphores ?k3 = semaphores k1" "driver_semaphore ?k3 = driver_semaphore k1"
    "yieldOnReturn ?k3 = yieldOnReturn k1" "locks ?k3 = locks k1" "conts ?k3 = (conts k1)(t := Some StartThreadExecution)"
    unfolding k2 by (simp_all add: ReadyToRun_def)
  have s3: "started ?k3 x \<longleftrightarrow> x = t \<or> started k1 x" for x
    unfolding k2 by (simp add: ReadyToRun_def started_def InitThreadContext_def)
  have "one_place (queue_at ?k3)" unfolding qa by (rule add(1))
  then have fi: "fine ?k3"
    using kernel_okD [OF ok] a(2) nt unfolding fine_def kernel_ok_def w s3 f by auto
  then have "running_ok ?k3" using r1 nt(2) unfolding running_ok_def w f by simp
  moreover have "moves k1 ?k3" unfolding moves_def w s3 f using ns by auto
  moreover have "serves k1 (Returned ?k3)" by (auto simp: serves_def f)
  ultimately have g: "good k1 (Returned ?k3)" by (simp add: good_def)
  have af: "after (Returned ?k3) (set_level_return (level k)) = Some (Returned k')"
    using sl by (simp add: after_def set_level_return_def)
  note g' = after_good [OF good_before [OF q(1) g] af set_level_return_settling]
  have "started k1 t = started k t"
    using set_level_safe(2) [OF k1] running_fine [OF assms(2)] by (simp add: fine_def wakes_def started_def)
  then have "\<not> started k t" using ns by simp
  moreover have "lock_same k k'" if "acquiring k t = None"
    using g'(3,4) f(7,8) q(2,3) that
    by (intro lock_same_cont [where b = True and t = t and c = "Some StartThreadExecution"]) simp_all
  ultimately show ?thesis using g'(1) by simp
qed

lemma resume_good:
  assumes "resume_thread k = Some out" "running_ok k"
  shows "good k out \<and> lock_same (k\<lparr>conts := (conts k)(g_current_thread k := None)\<rparr>) (state_of out)
    \<and> (acquiring k (g_current_thread k) \<noteq> None \<longrightarrow> \<not> switched out \<and> g_current_thread (state_of out) = g_current_thread k)"
proof -
  let ?k = "k\<lparr>conts := (conts k)(g_current_thread k := None)\<rparr>"
  obtain kt where kt: "conts k (g_current_thread k) = Some kt"
    using assms(1) by (cases "conts k (g_current_thread k)") (simp_all add: resume_thread_def)
  have qa: "queue_at ?k = queue_at k" by (simp add: queue_simps)
  have g1: "good k (Returned ?k)" by (rule new_object [OF assms(2) qa]) (simp_all add: started_def)
  have s1: "settles k ?k" by (simp add: settles_def qa started_def)
  have r1: "running_ok ?k" using g1 by (simp add: good_def)
  have d1: "g_thread_to_be_destroyed ?k \<noteq> Some (g_current_thread ?k)" using r1 by (simp add: running_ok_def)
  have ac1: "acquiring ?k (g_current_thread ?k) = None" by (simp add: acquiring_def)
  have carcass: "quiet ?k k2 \<and> fine k2" if "destroy_carcass ?k = Some k2" for k2
    using destroy_carcass_quiet [OF that running_fine [OF r1] d1] by blast
  have fin: "good k out \<and> lock_same ?k (state_of out) \<and> \<not> switched out \<and> g_current_thread (state_of out) = g_current_thread k"
    if h: "settling f" "quiet ?k k2" "fine k2" "f k2 = Some out" for f k2
  proof -
    obtain k3 where k3: "out = Returned k3" "quiet k2 k3" "fine k3" using settlingD [OF h(1,3,4)] by blast
    have q: "quiet ?k k3" by (rule quiet_trans [OF h(2) k3(2)])
    have "good k out" using goodI [OF assms(2) settles_trans [OF s1 quietD(1) [OF q]] k3(3)] k3(1) by simp
    then show ?thesis using quiet_lock_same [OF q] settlesD(1) [OF quietD(1) [OF q]] k3(1) by simp
  qed
  show ?thesis
  proof (cases kt)
    case StartThreadExecution
    then have "set_level_return INTERRUPTS_ON ?k = Some out" using assms(1) kt by (simp add: resume_thread_def)
    then show ?thesis using fin [OF set_level_return_settling quiet_refl running_fine [OF r1]] by blast
  next
    case (After_P sid old)
    then obtain k2 where "destroy_carcass ?k = Some k2" "P_end sid old k2 = Some out"
      using assms(1) kt by (auto simp: resume_thread_def split: bind_splits)
    then show ?thesis using fin [OF P_end_settling] carcass by blast
  next
    case (After_Acquire l old)
    then obtain k2 where "destroy_carcass ?k = Some k2" "set_level_return old k2 = Some out"
      using assms(1) kt by (auto simp: resume_thread_def split: bind_splits)
    then show ?thesis using fin [OF set_level_return_settling] carcass by blast
  next
    case (After_Wait old)
    then obtain k2 where "destroy_carcass ?k = Some k2" "set_level_return old k2 = Some out"
      using assms(1) kt by (auto simp: resume_thread_def split: bind_splits)
    then show ?thesis using fin [OF set_level_return_settling] carcass by blast
  next
    case (After_Yield old)
    then obtain k2 where "destroy_carcass ?k = Some k2" "set_level_return old k2 = Some out"
      using assms(1) kt by (auto simp: resume_thread_def split: bind_splits)
    then show ?thesis using fin [OF set_level_return_settling] carcass by blast
  next
    case (After_Finish old)
    then obtain k2 where "destroy_carcass ?k = Some k2" "set_level_return old k2 = Some out"
      using assms(1) kt by (auto simp: resume_thread_def split: bind_splits)
    then show ?thesis using fin [OF set_level_return_settling] carcass by blast
  next
    case (After_Join target old)
    then obtain k2 k3 where k3: "destroy_carcass ?k = Some k2" "set_level old k2 = Some k3" "Thread_Join target k3 = Some out"
      using assms(1) kt by (auto simp: resume_thread_def split: bind_splits)
    have c: "quiet ?k k2" "fine k2" using carcass [OF k3(1)] by blast+
    note l = set_level_quiet [OF k3(2) c(2)]
    have q: "quiet ?k k3" by (rule quiet_trans [OF c(1) l(1)])
    have s3: "settles k k3" by (rule settles_trans [OF s1 quietD(1) [OF q]])
    have r3: "running_ok k3" by (rule settles_running [OF s3 l(2) assms(2)])
    have "acquiring k3 (g_current_thread k3) = None"
      using ac1 quiet_lock_same [OF q] settlesD(1) [OF quietD(1) [OF q]] by (simp add: lock_same_def)
    from Thread_Join_good [OF k3(3) r3 this]
    have "good k out" "lock_same ?k (state_of out)"
      using good_before [OF s3] lock_same_trans [OF quiet_lock_same [OF q]] by blast+
    moreover have "acquiring k (g_current_thread k) = None" using kt After_Join by (simp add: acquiring_def)
    ultimately show ?thesis by simp
  qed
qed

subsection \<open>Locks\<close>

lemma lock_update_settles:
  assumes "fine k" "locks k l = Some lk" "sleepqueue lk' = sleepqueue lk"
  shows "fine (k\<lparr>locks := (locks k)(l \<mapsto> lk')\<rparr>)" "settles k (k\<lparr>locks := (locks k)(l \<mapsto> lk')\<rparr>)"
proof -
  let ?k = "k\<lparr>locks := (locks k)(l \<mapsto> lk')\<rparr>"
  have q: "queue_at ?k = queue_at k" using queue_at_Lck [OF assms(2)] assms(3) by (simp add: queue_simps one_place_same)
  have st: "started ?k x = started k x" for x by (simp add: started_def)
  show "settles k ?k" by (simp add: settles_def q st)
  show "fine ?k" using assms(1) by (simp add: fine_def kernel_ok_def q st)
qed

text \<open>
  \<open>Acquire\<close> returns at once with a free lock; otherwise the thread waits in the queue of
  the lock, and the processor goes to another thread.
\<close>

lemma Lock_Acquire_good:
  assumes "Lock_Acquire l k = Some out'" "running_ok k"
  shows "good k out'"
    and "\<exists>lk. locks k l = Some lk \<and>
      (if lfree lk
       then \<not> switched out' \<and> conts (state_of out') = conts k \<and> g_current_thread (state_of out') = g_current_thread k
         \<and> locks (state_of out') = (locks k)(l \<mapsto> lk\<lparr>lowner := Some (g_current_thread k), lfree := False\<rparr>)
       else switched out' \<and> conts (state_of out') = (conts k)(g_current_thread k \<mapsto> After_Acquire l (level k))
         \<and> locks (state_of out') = (locks k)(l \<mapsto> lk\<lparr>sleepqueue := sleepqueue lk @ [g_current_thread k]\<rparr>))"
proof -
  obtain k1 lk out where k1: "set_level INTERRUPTS_OFF k = Some k1" and lk: "locks k1 l = Some lk"
    and out: "(if \<not> lfree lk then Sleep (After_Acquire l (level k)) (k1\<lparr>locks :=
        (locks k1)(l \<mapsto> lk\<lparr>sleepqueue := sleepqueue lk @ [g_current_thread k1]\<rparr>)\<rparr>)
      else Some (Returned (k1\<lparr>locks := (locks k1)(l \<mapsto> lk\<lparr>lowner := Some (g_current_thread k1), lfree := False\<rparr>)\<rparr>))) = Some out"
    and o: "after out (set_level_return (level k)) = Some out'"
    using assms(1) by (auto simp: Lock_Acquire_def Let_def split: bind_splits)
  note a = set_level_quiet [OF k1 running_fine [OF assms(2)]]
  note q = quietD [OF a(1)]
  note cur = settlesD(1) [OF q(1)]
  have r1: "running_ok k1" by (rule settles_running [OF q(1) a(2) assms(2)])
  have "good k out' \<and> (\<exists>lk. locks k l = Some lk \<and>
      (if lfree lk
       then \<not> switched out' \<and> conts (state_of out') = conts k \<and> g_current_thread (state_of out') = g_current_thread k
         \<and> locks (state_of out') = (locks k)(l \<mapsto> lk\<lparr>lowner := Some (g_current_thread k), lfree := False\<rparr>)
       else switched out' \<and> conts (state_of out') = (conts k)(g_current_thread k \<mapsto> After_Acquire l (level k))
         \<and> locks (state_of out') = (locks k)(l \<mapsto> lk\<lparr>sleepqueue := sleepqueue lk @ [g_current_thread k]\<rparr>)))"
  proof (cases "lfree lk")
    case True
    let ?k = "k1\<lparr>locks := (locks k1)(l \<mapsto> lk\<lparr>lowner := Some (g_current_thread k1), lfree := False\<rparr>)\<rparr>"
    have sl: "out = Returned ?k" using out True by simp
    have u: "fine ?k" "settles k1 ?k" using lock_update_settles [OF a(2) lk] by simp_all
    obtain k2 where k2: "out' = Returned k2" "quiet ?k k2" "fine k2"
      using settlingD [OF set_level_return_settling u(1)] o sl by (auto simp: after_def)
    have "good k out'"
      using goodI [OF assms(2) settles_trans [OF settles_trans [OF q(1) u(2)] quietD(1) [OF k2(2)]] k2(3)] k2(1) by simp
    then show ?thesis
      using k2(1) quietD(2,3) [OF k2(2)] settlesD(1) [OF quietD(1) [OF k2(2)]] q(2,3) cur lk True by simp
  next
    case False
    let ?k = "k1\<lparr>locks := (locks k1)(l \<mapsto> lk\<lparr>sleepqueue := sleepqueue lk @ [g_current_thread k1]\<rparr>)\<rparr>"
    have sl: "Sleep (After_Acquire l (level k)) ?k = Some out" using out False by simp
    have qa: "queue_at ?k = (queue_at k1)(Lck l := queue_at k1 (Lck l) @ [g_current_thread k1])"
      using queue_at_Lck [OF lk] by (simp add: queue_simps)
    have f: "g_current_thread ?k = g_current_thread k1" "g_thread_to_be_destroyed ?k = g_thread_to_be_destroyed k1"
      "\<And>s. semaphores ?k s = None \<longleftrightarrow> semaphores k1 s = None" "driver_semaphore ?k = driver_semaphore k1"
      "threads ?k = threads k1" "yieldOnReturn ?k = yieldOnReturn k1" "readyList ?k = readyList k1"
      "\<And>x. started ?k x = started k1 x"
      "locks ?k = (locks k1)(l \<mapsto> lk\<lparr>sleepqueue := sleepqueue lk @ [g_current_thread k1]\<rparr>)" "conts ?k = conts k1"
      by (simp_all add: started_def)
    note b = block_fine [OF r1 qa f(1-6)]
    have w: "waiting ?k x \<longleftrightarrow> x = g_current_thread k1 \<and> True \<or> waiting k1 x" for x using b(2) by simp
    note c = sleep_call [OF assms(2) q(1) a(2) sl o set_level_return_settling b(1) f(1,8) w f(7) disjI1 [OF f(2)]]
    have sw: "switched out"
    proof (rule ccontr)
      assume "\<not> switched out"
      from Sleep_safe(9) [OF sl b(1) this, of l "lk\<lparr>sleepqueue := sleepqueue lk @ [g_current_thread k1]\<rparr>"]
      show False by simp
    qed
    then show ?thesis using c(1,2) c(3) [unfolded f(9) q(2)] c(4) [unfolded f(10) q(3)] False lk cur q(2) by simp
  qed
  then show "good k out'" "\<exists>lk. locks k l = Some lk \<and>
      (if lfree lk
       then \<not> switched out' \<and> conts (state_of out') = conts k \<and> g_current_thread (state_of out') = g_current_thread k
         \<and> locks (state_of out') = (locks k)(l \<mapsto> lk\<lparr>lowner := Some (g_current_thread k), lfree := False\<rparr>)
       else switched out' \<and> conts (state_of out') = (conts k)(g_current_thread k \<mapsto> After_Acquire l (level k))
         \<and> locks (state_of out') = (locks k)(l \<mapsto> lk\<lparr>sleepqueue := sleepqueue lk @ [g_current_thread k]\<rparr>))"
    by blast+
qed

lemma Lock_Release_good:
  assumes "Lock_Release l k = Some k'" "running_ok k"
  shows "good k (Returned k')" "conts k' = conts k"
    and "\<exists>lk. locks k l = Some lk \<and> lowner lk = Some (g_current_thread k) \<and> locks k' = (locks k)(l \<mapsto>
      (case sleepqueue lk of [] \<Rightarrow> lk\<lparr>lfree := True, lowner := None\<rparr>
       | t # ts \<Rightarrow> lk\<lparr>sleepqueue := ts, lowner := Some t\<rparr>))"
proof -
  obtain k1 lk where k1: "set_level INTERRUPTS_OFF k = Some k1" and lk: "locks k1 l = Some lk"
    and own: "isHeldByCurrentThread lk k1"
    and st: "set_level (level k) (case sleepqueue lk of
          [] \<Rightarrow> k1\<lparr>locks := (locks k1)(l \<mapsto> lk\<lparr>lfree := True, lowner := None\<rparr>)\<rparr>
        | t # ts \<Rightarrow> ReadyToRun t (k1\<lparr>locks := (locks k1)(l \<mapsto> lk\<lparr>sleepqueue := ts, lowner := Some t\<rparr>)\<rparr>)) = Some k'"
    using assms(1) by (auto simp: Lock_Release_def Let_def split: bind_splits if_splits)
  note a = set_level_quiet [OF k1 running_fine [OF assms(2)]]
  note q = quietD [OF a(1)]
  have own': "lowner lk = Some (g_current_thread k)"
    using own settlesD(1) [OF q(1)] by (simp add: isHeldByCurrentThread_def)
  have "good k (Returned k') \<and> conts k' = conts k \<and> locks k' = (locks k)(l \<mapsto>
      (case sleepqueue lk of [] \<Rightarrow> lk\<lparr>lfree := True, lowner := None\<rparr>
       | t # ts \<Rightarrow> lk\<lparr>sleepqueue := ts, lowner := Some t\<rparr>))"
  proof (cases "sleepqueue lk")
    case Nil
    let ?k = "k1\<lparr>locks := (locks k1)(l \<mapsto> lk\<lparr>lfree := True, lowner := None\<rparr>)\<rparr>"
    have u: "fine ?k" "settles k1 ?k" using lock_update_settles [OF a(2) lk] by simp_all
    have "set_level (level k) ?k = Some k'" using st Nil by simp
    from update_call [OF assms(2) k1 this u(2,1)] show ?thesis using q(2,3) Nil by simp
  next
    case (Cons t ts)
    let ?k = "ReadyToRun t (k1\<lparr>locks := (locks k1)(l \<mapsto> lk\<lparr>sleepqueue := ts, lowner := Some t\<rparr>)\<rparr>)"
    have qq: "queue_at k1 (Lck l) = t # ts" using queue_at_Lck [OF lk] Cons by simp
    have "queue_at ?k = (queue_at k1)(Lck l := ts, Ready := queue_at k1 Ready @ [t])"
      by (simp add: ReadyToRun_def queue_simps queue_at_Ready)
    note w = wake_fine [OF a(2) qq _ this]
    have u: "fine ?k" "settles k1 ?k" by (rule w; simp add: ReadyToRun_def)+
    have f: "locks ?k = (locks k1)(l \<mapsto> lk\<lparr>sleepqueue := ts, lowner := Some t\<rparr>)" "conts ?k = conts k1"
      by (simp_all add: ReadyToRun_def)
    have "set_level (level k) ?k = Some k'" using st Cons by simp
    from update_call [OF assms(2) k1 this u(2,1)] show ?thesis using f q(2,3) Cons by simp
  qed
  then show "good k (Returned k')" "conts k' = conts k"
    "\<exists>lk. locks k l = Some lk \<and> lowner lk = Some (g_current_thread k) \<and> locks k' = (locks k)(l \<mapsto>
      (case sleepqueue lk of [] \<Rightarrow> lk\<lparr>lfree := True, lowner := None\<rparr>
       | t # ts \<Rightarrow> lk\<lparr>sleepqueue := ts, lowner := Some t\<rparr>))"
    using own' lk q(2) by auto
qed

end
