(* ===== verification/Nachos_KernelProps.thy ===== *)
theory Nachos_KernelProps
  imports Nachos_Kernel
begin

text \<open>
  Properties of the kernel over whole runs: ticks return, every thread is in one place,
  locks exclude, the ready list is served in order, and two errors of the synchronisation
  primitives.
\<close>

subsection \<open>One step\<close>

lemma not_acquiring: "conts k t = None \<Longrightarrow> acquiring k t = None"
  by (simp add: acquiring_def)

text \<open>What a step does to locks: nothing, or an \<open>Acquire\<close> or \<open>Release\<close>.\<close>

definition acq_started :: "'a kernel_scheme \<Rightarrow> bool" where
  "acq_started k \<longleftrightarrow> (\<forall>t. acquiring k t \<noteq> None \<longrightarrow> started k t)
     \<and> (\<forall>d. g_thread_to_be_destroyed k = Some d \<longrightarrow> acquiring k d = None)"

lemma action_good:
  assumes "run_action cfg a k = Some out" "running_ok k" "conts k (g_current_thread k) = None"
  shows "good k out \<and> (acq_started k \<longrightarrow> (\<forall>l. a \<noteq> Acquire l \<and> a \<noteq> Release l \<and> a \<noteq> New_lock l)
    \<longrightarrow> lock_same k (state_of out))"
proof -
  note ac = not_acquiring [OF assms(3)]
  show ?thesis
  proof (cases a)
    case (Start t owner func arg)
    then obtain k' where k': "out = Returned k'" "Thread_Start cfg t owner func arg k = Some k'"
      using assms(1) by (auto simp: run_action_def)
    note s = Thread_Start_good [OF k'(2) assms(2)]
    then show ?thesis using k'(1) by (auto simp: acq_started_def)
  next
    case (Acquire l)
    then show ?thesis using Lock_Acquire_good(1) [OF _ assms(2)] assms(1) by (auto simp: run_action_def)
  next
    case (Release l)
    then show ?thesis using Lock_Release_good(1) [OF _ assms(2)] assms(1) by (auto simp: run_action_def)
  next
    case (New_lock l)
    then show ?thesis using Lock_new_good(1) [OF _ assms(2)] assms(1) by (auto simp: run_action_def)
  next
    case (Tick n)
    then show ?thesis using Tick_good [OF _ assms(2)] assms(1) by (auto simp: run_action_def)
  next
    case (Request i d)
    then show ?thesis using Request_good [OF _ assms(2)] assms(1) by (auto simp: run_action_def)
  next
    case (New_thread t)
    then show ?thesis using Thread_new_good [OF _ assms(2)] assms(1) by (auto simp: run_action_def)
  next
    case Yield
    then have "Yield_with After_Yield k = Some out" using assms(1) by (simp add: run_action_def Thread_Yield_def)
    then show ?thesis using Yield_with_good [OF _ assms(2) ac] by blast
  next
    case (Join t)
    then show ?thesis using Thread_Join_good [OF _ assms(2) ac] assms(1) by (auto simp: run_action_def)
  next
    case Finish
    then show ?thesis using Thread_Finish_good [OF _ assms(2) ac] assms(1) by (auto simp: run_action_def)
  next
    case (New_semaphore s v)
    then show ?thesis using Semaphore_new_good [OF _ assms(2)] assms(1) by (auto simp: run_action_def)
  next
    case (Sem_P s)
    then show ?thesis using Semaphore_P_good [OF _ assms(2) ac] assms(1) by (auto simp: run_action_def)
  next
    case (Sem_V s)
    then show ?thesis using Semaphore_V_good [OF _ assms(2)] assms(1) by (auto simp: run_action_def)
  next
    case (New_condition c)
    then show ?thesis using Condition_new_good [OF _ assms(2)] assms(1) by (auto simp: run_action_def)
  next
    case (Wait c)
    then show ?thesis using Condition_Wait_good [OF _ assms(2) ac] assms(1) by (auto simp: run_action_def)
  next
    case (Signal c)
    then show ?thesis using Condition_Signal_good [OF _ assms(2)] assms(1) by (auto simp: run_action_def)
  next
    case (Broadcast c)
    then show ?thesis using Condition_Broadcast_good [OF _ assms(2)] assms(1) by (auto simp: run_action_def)
  qed
qed

lemma kstep_good: "kstep cfg k ev out \<Longrightarrow> running_ok k \<Longrightarrow> good k out"
  by (elim kstepE) (use action_good resume_good in blast)+

lemma krun_running: "krun cfg k es n ts k' \<Longrightarrow> running_ok k \<Longrightarrow> running_ok k'"
proof (induction rule: krun.induct)
  case (krun_step k es n ts k' ev out)
  then show ?case using kstep_good [of cfg k' ev out] by (simp add: good_def)
qed

subsection \<open>Locks\<close>

text \<open>The thread that has returned from \<open>Acquire\<close> and not yet called \<open>Release\<close>.\<close>

definition held :: "nat \<Rightarrow> lock_event list \<Rightarrow> nat option" where
  "held l es = fold (\<lambda>e h. case e of
     Acquired t l' \<Rightarrow> if l' = l then Some t else h
   | Released t l' \<Rightarrow> if l' = l then None else h) es None"

lemma held_simps [simp]:
  "held l [] = None"
  "held l (es @ [Acquired t l']) = (if l' = l then Some t else held l es)"
  "held l (es @ [Released t l']) = (if l' = l then None else held l es)"
  by (simp_all add: held_def)

definition lock_at :: "lock_event list \<Rightarrow> 'a kernel_scheme \<Rightarrow> nat \<Rightarrow> bool" where
  "lock_at es k l = (case locks k l of
     None \<Rightarrow> held l es = None \<and> (\<forall>t. acquiring k t \<noteq> Some l)
   | Some lk \<Rightarrow> (lfree lk \<longleftrightarrow> lowner lk = None) \<and> (lfree lk \<longrightarrow> sleepqueue lk = [])
       \<and> (\<forall>t\<in>set (sleepqueue lk). acquiring k t = Some l)
       \<and> (\<forall>t. acquiring k t = Some l \<longrightarrow> t \<in> set (sleepqueue lk) \<or> (lowner lk = Some t \<and> held l es = None))
       \<and> (\<forall>t. lowner lk = Some t \<longrightarrow>
            (if held l es = None then acquiring k t = Some l \<and> t \<notin> set (sleepqueue lk) else held l es = Some t))
       \<and> (lowner lk = None \<longrightarrow> held l es = None))"

definition lock_inv :: "lock_event list \<Rightarrow> 'a kernel_scheme \<Rightarrow> bool" where
  "lock_inv es k \<longleftrightarrow> acq_started k \<and> (\<forall>l. lock_at es k l)"

lemma lock_at_other:
  assumes "lock_at es k l" "locks k' l = locks k l" "held l es' = held l es"
    and "\<And>t. acquiring k' t = Some l \<longleftrightarrow> acquiring k t = Some l"
  shows "lock_at es' k' l"
  using assms(1) unfolding lock_at_def assms(2-4) .

lemma acq_started_step:
  assumes "acq_started k" "moves k k'" "\<And>t. acquiring k' t = acquiring k t" "acquiring k (g_current_thread k) = None"
  shows "acq_started k'"
  unfolding acq_started_def
proof (intro conjI allI impI)
  note a = assms(1) [unfolded acq_started_def] and m = movesD [OF assms(2)]
  show "started k' t" if "acquiring k' t \<noteq> None" for t
    using a that m(3) [of t] assms(3,4) by metis
  show "acquiring k' d = None" if "g_thread_to_be_destroyed k' = Some d" for d
    using a m(4) [OF that] assms(3,4) by metis
qed

lemma lock_inv_same:
  assumes "lock_inv es k" "moves k k'" "lock_same k k'" "acquiring k (g_current_thread k) = None"
  shows "lock_inv es k'"
proof -
  have e: "locks k' = locks k" "\<And>t. acquiring k' t = acquiring k t" using assms(3) by (simp_all add: lock_same_def)
  have "lock_at es k' l = lock_at es k l" for l unfolding lock_at_def e ..
  moreover have "acq_started k'" using acq_started_step [OF _ assms(2) e(2) assms(4)] assms(1) by (simp add: lock_inv_def)
  ultimately show ?thesis using assms(1) by (simp add: lock_inv_def)
qed

lemma acquiring_conts: "conts k' = conts k \<Longrightarrow> acquiring k' t = acquiring k t"
  by (simp add: acquiring_def)

lemma Acquire_inv:
  assumes "Lock_Acquire l k = Some out" "running_ok k" "lock_inv es k" "conts k (g_current_thread k) = None"
  shows "lock_inv (es @ action_event (Acquire l) k out) (state_of out) \<and> (\<not> switched out \<longrightarrow> held l es = None)"
proof -
  note g = Lock_Acquire_good [OF assms(1,2)]
  let ?k = "state_of out" and ?c = "g_current_thread k"
  have ac: "acquiring k ?c = None" by (rule not_acquiring [OF assms(4)])
  have gd: "running_ok ?k" "moves k ?k" using g(1) by (simp_all add: good_def)
  have inv: "acq_started k" "\<And>l. lock_at es k l" using assms(3) by (simp_all add: lock_inv_def)
  obtain lk where lk: "locks k l = Some lk" and
    r: "if lfree lk then \<not> switched out \<and> conts ?k = conts k \<and> g_current_thread ?k = ?c
         \<and> locks ?k = (locks k)(l \<mapsto> lk\<lparr>lowner := Some ?c, lfree := False\<rparr>)
       else switched out \<and> conts ?k = (conts k)(?c \<mapsto> After_Acquire l (level k))
         \<and> locks ?k = (locks k)(l \<mapsto> lk\<lparr>sleepqueue := sleepqueue lk @ [?c]\<rparr>)"
    using g(2) by blast
  note la = inv(2) [of l, unfolded lock_at_def lk option.case]
  show ?thesis
  proof (cases "lfree lk")
    case True
    then have r': "\<not> switched out" "conts ?k = conts k"
      "locks ?k = (locks k)(l \<mapsto> lk\<lparr>lowner := Some ?c, lfree := False\<rparr>)" using r by simp_all
    have e: "\<And>t. acquiring ?k t = acquiring k t" using acquiring_conts [OF r'(2)] .
    have h: "held l es = None" "sleepqueue lk = []" "\<And>t. acquiring k t \<noteq> Some l" using la True by auto
    have ev: "action_event (Acquire l) k out = [Acquired ?c l]" using r'(1) by (simp add: action_event_def)
    have "lock_at (es @ [Acquired ?c l]) ?k l'" for l'
    proof (cases "l' = l")
      case True
      then show ?thesis using h by (simp add: lock_at_def r'(3) e)
    next
      case False
      then show ?thesis by (intro lock_at_other [OF inv(2) [of l']]) (auto simp: r'(3) e)
    qed
    moreover have "acq_started ?k" by (rule acq_started_step [OF inv(1) gd(2) e ac])
    ultimately show ?thesis using h(1) by (simp add: lock_inv_def ev)
  next
    case False
    then have r': "switched out" "conts ?k = (conts k)(?c \<mapsto> After_Acquire l (level k))"
      "locks ?k = (locks k)(l \<mapsto> lk\<lparr>sleepqueue := sleepqueue lk @ [?c]\<rparr>)" using r by simp_all
    have e: "acquiring ?k t = (if t = ?c then Some l else acquiring k t)" for t by (simp add: acquiring_def r'(2))
    have ev: "action_event (Acquire l) k out = []" using r'(1) by (simp add: action_event_def)
    have own: "lowner lk \<noteq> Some ?c \<or> held l es \<noteq> None" using la ac by (metis option.distinct(1))
    have "lock_at es ?k l'" for l'
    proof (cases "l' = l")
      case True
      then show ?thesis using la False ac own by (auto simp: lock_at_def r'(3) e split: if_splits)
    next
      case neq: False
      then have "acquiring ?k t = Some l' \<longleftrightarrow> acquiring k t = Some l'" for t using ac by (simp add: e)
      then show ?thesis using neq by (intro lock_at_other [OF inv(2) [of l']]) (auto simp: r'(3))
    qed
    moreover have "acq_started ?k"
      unfolding acq_started_def
    proof (intro conjI allI impI)
      have ok: "kernel_ok ?k" using gd(1) by (simp add: running_ok_def fine_def)
      have "?c \<in> set (queue_at ?k (Lck l))" using queue_at_Lck [of ?k l] r'(3) by simp
      then have w: "waiting ?k ?c" by (auto simp: queued_def)
      note a = inv(1) [unfolded acq_started_def] and m = movesD [OF gd(2)]
      show "started ?k t" if "acquiring ?k t \<noteq> None" for t
        using kernel_okD(3) [OF ok w] a that m(3) [of t] e [of t] by (cases "t = ?c") auto
      show "acquiring ?k d = None" if "g_thread_to_be_destroyed ?k = Some d" for d
        using kernel_okD(5) [OF ok that] w a m(4) [OF that] e [of d] by (cases "d = ?c") auto
    qed
    ultimately show ?thesis using r'(1) by (simp add: lock_inv_def ev)
  qed
qed

lemma Release_inv:
  assumes "Lock_Release l k = Some k'" "running_ok k" "lock_inv es k" "conts k (g_current_thread k) = None"
  shows "lock_inv (es @ [Released (g_current_thread k) l]) k' \<and> held l es = Some (g_current_thread k)"
proof -
  note g = Lock_Release_good [OF assms(1,2)]
  let ?c = "g_current_thread k"
  have ac: "acquiring k ?c = None" by (rule not_acquiring [OF assms(4)])
  have mv: "moves k k'" using g(1) by (simp add: good_def)
  have inv: "acq_started k" "\<And>l. lock_at es k l" using assms(3) by (simp_all add: lock_inv_def)
  have e: "\<And>t. acquiring k' t = acquiring k t" using acquiring_conts [OF g(2)] .
  obtain lk where lk: "locks k l = Some lk" "lowner lk = Some ?c" "locks k' = (locks k)(l \<mapsto>
      (case sleepqueue lk of [] \<Rightarrow> lk\<lparr>lfree := True, lowner := None\<rparr>
       | t # ts \<Rightarrow> lk\<lparr>sleepqueue := ts, lowner := Some t\<rparr>))" using g(3) by blast
  note la = inv(2) [of l, unfolded lock_at_def lk(1) option.case]
  have h: "held l es = Some ?c" using la lk(2) ac by (metis option.distinct(1))
  have "lock_at (es @ [Released ?c l]) k' l'" for l'
  proof (cases "l' = l")
    case neq: False
    then show ?thesis by (intro lock_at_other [OF inv(2) [of l']]) (auto simp: lk(3) e)
  next
    case True
    show ?thesis
    proof (cases "sleepqueue lk")
      case Nil
      then have "\<And>t. acquiring k t \<noteq> Some l" using la h by auto
      then show ?thesis using True Nil by (simp add: lock_at_def lk(3) e)
    next
      case (Cons t ts)
      have "one_place (queue_at k)" using assms(2) kernel_okD(1) by (auto simp: running_ok_def fine_def)
      then have "distinct (queue_at k (Lck l))" by (simp add: one_place_def)
      then have d: "t \<notin> set ts" using queue_at_Lck [OF lk(1)] Cons by simp
      have "\<not> lfree lk" using la lk(2) by simp
      then show ?thesis using True Cons la d h by (simp add: lock_at_def lk(3) e) blast
    qed
  qed
  moreover have "acq_started k'" by (rule acq_started_step [OF inv(1) mv e ac])
  ultimately show ?thesis using h by (simp add: lock_inv_def)
qed

lemma New_lock_inv:
  assumes "Lock_new l k = Some k'" "running_ok k" "lock_inv es k" "conts k (g_current_thread k) = None"
  shows "lock_inv es k'"
proof -
  note g = Lock_new_good [OF assms(1,2)]
  have e: "\<And>t. acquiring k' t = acquiring k t" using acquiring_conts [OF g(4)] .
  have inv: "acq_started k" "\<And>l. lock_at es k l" using assms(3) by (simp_all add: lock_inv_def)
  have "lock_at es k' l'" for l'
  proof (cases "l' = l")
    case True
    then show ?thesis using inv(2) [of l] g(2) by (simp add: lock_at_def g(3) e)
  next
    case False
    then show ?thesis by (intro lock_at_other [OF inv(2) [of l']]) (auto simp: g(3) e)
  qed
  moreover have "acq_started k'"
    using acq_started_step [OF inv(1) _ e not_acquiring [OF assms(4)]] g(1) by (simp add: good_def)
  ultimately show ?thesis by (simp add: lock_inv_def)
qed

lemma resume_inv:
  assumes "resume_thread k = Some out" "running_ok k" "lock_inv es k"
  shows "lock_inv (es @ resume_event k) (state_of out)
    \<and> (\<forall>t l. resume_event k = [Acquired t l] \<longrightarrow> held l es = None)"
proof -
  note g = resume_good [OF assms(1,2)]
  let ?k = "state_of out" and ?c = "g_current_thread k"
  have mv: "moves k ?k" using g by (simp add: good_def)
  have e: "locks ?k = locks k" "\<And>t. acquiring ?k t = (if t = ?c then None else acquiring k t)"
    using g by (simp_all add: lock_same_def acquiring_def)
  have inv: "acq_started k" "\<And>l. lock_at es k l" using assms(3) by (simp_all add: lock_inv_def)
  show ?thesis
  proof (cases "acquiring k ?c")
    case None
    then have "resume_event k = []" by (auto simp: resume_event_def acquiring_def split: option.splits resume.splits)
    moreover have "lock_same k ?k" using e None by (simp add: lock_same_def)
    ultimately show ?thesis using lock_inv_same [OF assms(3) mv _ None] by simp
  next
    case (Some l)
    then have ev: "resume_event k = [Acquired ?c l]"
      by (auto simp: resume_event_def acquiring_def split: option.splits resume.splits)
    have nw: "\<not> waiting k ?c" and ok: "kernel_ok k" using assms(2) by (simp_all add: running_ok_def fine_def)
    obtain lk where lk: "locks k l = Some lk"
      using inv(2) [of l] Some by (auto simp: lock_at_def split: option.splits)
    note la = inv(2) [of l, unfolded lock_at_def lk option.case]
    have nq: "?c \<notin> set (sleepqueue lk)" using nw queue_at_Lck [OF lk] unfolding queued_def by metis
    have h: "lowner lk = Some ?c" "held l es = None" using la Some nq by auto
    have "lock_at (es @ [Acquired ?c l]) ?k l'" for l'
    proof (cases "l' = l")
      case True
      have "\<forall>t\<in>set (sleepqueue lk). acquiring ?k t = Some l" using la nq e(2) by auto
      moreover have "acquiring ?k t = Some l \<Longrightarrow> t \<in> set (sleepqueue lk)" for t
        using la h(1) e(2) [of t] by (auto split: if_splits)
      moreover have "\<not> lfree lk" using la h(1) by simp
      ultimately show ?thesis using True h by (simp add: lock_at_def e(1) lk)
    next
      case False
      then have "acquiring ?k t = Some l' \<longleftrightarrow> acquiring k t = Some l'" for t using Some by (simp add: e(2))
      then show ?thesis using False by (intro lock_at_other [OF inv(2) [of l']]) (auto simp: e(1))
    qed
    moreover have "acq_started ?k"
      unfolding acq_started_def
    proof (intro conjI allI impI)
      note a = inv(1) [unfolded acq_started_def] and m = movesD [OF mv]
      show "started ?k t" if "acquiring ?k t \<noteq> None" for t
        using a that m(3) [of t] e(2) [of t] by (auto split: if_splits)
      show "acquiring ?k d = None" if "g_thread_to_be_destroyed ?k = Some d" for d
        using a m(4) [OF that] e(2) [of d] by auto
    qed
    ultimately show ?thesis using h(2) by (simp add: lock_inv_def ev)
  qed
qed

text \<open>A trace in which no thread gets a lock that another one holds.\<close>

definition exclusive :: "lock_event list \<Rightarrow> bool" where
  "exclusive es \<longleftrightarrow> (\<forall>n < length es. case es ! n of
     Acquired t l \<Rightarrow> held l (take n es) = None
   | Released t l \<Rightarrow> held l (take n es) = Some t)"

lemma exclusive_snoc:
  assumes "exclusive es" "case e of Acquired t l \<Rightarrow> held l es = None | Released t l \<Rightarrow> held l es = Some t"
  shows "exclusive (es @ [e])"
  unfolding exclusive_def
proof (intro allI impI)
  fix n assume n: "n < length (es @ [e])"
  show "case (es @ [e]) ! n of Acquired t l \<Rightarrow> held l (take n (es @ [e])) = None
   | Released t l \<Rightarrow> held l (take n (es @ [e])) = Some t"
  proof (cases "n = length es")
    case True
    then have "take n (es @ [e]) = es" "(es @ [e]) ! n = e" by simp_all
    then show ?thesis using assms(2) by (simp only:)
  next
    case False
    then have l: "n < length es" using n by simp
    then have "take n (es @ [e]) = take n es" "(es @ [e]) ! n = es ! n" by (simp_all add: nth_append)
    then show ?thesis using assms(1) l unfolding exclusive_def by (simp only:)
  qed
qed

lemma kstep_inv:
  assumes "kstep cfg k ev out" "running_ok k" "lock_inv es k" "exclusive es"
  shows "lock_inv (es @ ev) (state_of out) \<and> exclusive (es @ ev)"
  using assms(1)
proof (rule kstepE)
  fix a
  assume ev: "ev = action_event a k out" and c: "conts k (g_current_thread k) = None" and r: "run_action cfg a k = Some out"
  note g = action_good [OF r assms(2) c]
  show ?thesis
  proof (cases "(\<exists>l. a = Acquire l) \<or> (\<exists>l. a = Release l) \<or> (\<exists>l. a = New_lock l)")
    case False
    then have "lock_same k (state_of out)" "ev = []"
      using g assms(3) ev by (auto simp: lock_inv_def action_event_def split: action.splits)
    moreover have "moves k (state_of out)" using g by (simp add: good_def)
    ultimately show ?thesis using lock_inv_same [OF assms(3) _ _ not_acquiring [OF c]] assms(4) by simp
  next
    case True
    then show ?thesis
    proof (elim disjE exE)
      fix l assume a: "a = Acquire l"
      then have "Lock_Acquire l k = Some out" using r by (simp add: run_action_def)
      from Acquire_inv [OF this assms(2,3) c] show ?thesis
        using assms(4) a ev exclusive_snoc [OF assms(4), of "Acquired (g_current_thread k) l"]
        by (cases "switched out") (simp_all add: action_event_def)
    next
      fix l assume a: "a = Release l"
      then obtain k' where "out = Returned k'" "Lock_Release l k = Some k'" using r by (auto simp: run_action_def)
      with Release_inv [OF this(2) assms(2,3) c] show ?thesis
        using a ev exclusive_snoc [OF assms(4), of "Released (g_current_thread k) l"] by (simp add: action_event_def)
    next
      fix l assume a: "a = New_lock l"
      then obtain k' where k': "out = Returned k'" "Lock_new l k = Some k'" using r by (auto simp: run_action_def)
      have "ev = []" using a ev by (simp add: action_event_def)
      with New_lock_inv [OF k'(2) assms(2,3) c] k'(1) assms(4) show ?thesis by simp
    qed
  qed
next
  assume ev: "ev = resume_event k" and r: "resume_thread k = Some out"
  note i = resume_inv [OF r assms(2,3)]
  have "ev = [] \<or> (\<exists>t l. ev = [Acquired t l])"
    by (auto simp: ev resume_event_def split: option.splits resume.splits)
  then show ?thesis
  proof (elim disjE exE)
    assume "ev = []"
    then show ?thesis using i assms(4) ev by simp
  next
    fix t l assume "ev = [Acquired t l]"
    then show ?thesis using i exclusive_snoc [OF assms(4), of "Acquired t l"] ev by simp
  qed
qed

text \<open>A kernel in which no lock is taken or waited for.\<close>

definition quiescent :: "'a kernel_scheme \<Rightarrow> bool" where
  "quiescent k \<longleftrightarrow> running_ok k \<and> (\<forall>t. acquiring k t = None)
     \<and> (\<forall>l lk. locks k l = Some lk \<longrightarrow> lfree lk \<and> lowner lk = None \<and> sleepqueue lk = [])"

lemma quiescent_inv: "quiescent k \<Longrightarrow> lock_inv [] k"
  by (auto simp: quiescent_def lock_inv_def acq_started_def lock_at_def split: option.splits)

lemma krun_inv:
  "krun cfg k es n ts k' \<Longrightarrow> running_ok k \<Longrightarrow> lock_inv [] k \<Longrightarrow> lock_inv es k' \<and> exclusive es"
proof (induction rule: krun.induct)
  case (krun_refl k)
  then show ?case by (simp add: exclusive_def)
next
  case (krun_step k es n ts k' ev out)
  then show ?case using kstep_inv [of cfg k' ev out es] krun_running by blast
qed

text \<open>
  C6. Mutual exclusion. In every run from a kernel without taken locks, whatever the calls
  of the threads and the interrupts in between, a thread returns from \<open>Acquire\<close> only when
  no thread holds the lock, and only the holder can \<open>Release\<close> it; the holder is the
  \<open>owner\<close> the lock object names.
\<close>
theorem locks_exclude:
  assumes "krun cfg k es n ts k'" "quiescent k"
  shows "exclusive es \<and> (\<forall>l t. held l es = Some t \<longrightarrow> (\<exists>lk. locks k' l = Some lk \<and> lowner lk = Some t \<and> \<not> lfree lk))"
proof -
  have i: "lock_inv es k'" "exclusive es"
    using krun_inv [OF assms(1)] assms(2) quiescent_inv by (auto simp: quiescent_def)
  have "\<exists>lk. locks k' l = Some lk \<and> lowner lk = Some t \<and> \<not> lfree lk" if h: "held l es = Some t" for l t
  proof -
    have a: "lock_at es k' l" using i(1) by (simp add: lock_inv_def)
    then obtain lk where lk: "locks k' l = Some lk" using h by (auto simp: lock_at_def split: option.splits)
    note la = a [unfolded lock_at_def lk option.case]
    obtain t' where "lowner lk = Some t'" using la h by (cases "lowner lk") auto
    then show ?thesis using la h lk by auto
  qed
  then show ?thesis using i(2) by blast
qed

text \<open>
  C9. In every run, whatever the threads call, a thread is in one place: at most one queue,
  and there once; the thread on the processor and a finished thread are in none; only
  started threads wait.
\<close>
theorem one_place_always:
  assumes "krun cfg k es n ts k'" "running_ok k"
  shows "one_place (queue_at k') \<and> \<not> waiting k' (g_current_thread k')
    \<and> (\<forall>d. g_thread_to_be_destroyed k' = Some d \<longrightarrow> \<not> waiting k' d \<and> d \<noteq> g_current_thread k')
    \<and> (\<forall>t. waiting k' t \<longrightarrow> started k' t) \<and> started k' (g_current_thread k')"
proof -
  have r: "running_ok k'" using krun_running [OF assms] .
  then have ok: "kernel_ok k'" by (simp add: running_ok_def fine_def)
  show ?thesis using kernel_okD [OF ok] r by (auto simp: running_ok_def)
qed

subsection \<open>The ready list\<close>

text \<open>
  Where a ready thread is after some switches: on the processor in between, or that many
  places nearer to the head.
\<close>

lemma ready_moves_up:
  assumes "krun cfg k es n ts k'" "running_ok k" "i < length (readyList k)"
  shows "readyList k ! i \<in> set ts \<or> (\<exists>j < length (readyList k'). readyList k' ! j = readyList k ! i \<and> j + n \<le> i)"
  using assms
proof (induction rule: krun.induct)
  case (krun_refl k)
  then show ?case by auto
next
  case (krun_step k es n ts k' ev out)
  let ?t = "readyList k ! i" and ?k = "state_of out"
  show ?case
  proof (cases "?t \<in> set ts")
    case True
    then show ?thesis by simp
  next
    case False
    then obtain j where j: "j < length (readyList k')" "readyList k' ! j = ?t" "j + n \<le> i"
      using krun_step.IH krun_step.prems by blast
    have "serves k' out"
      using kstep_good [OF krun_step.hyps(2) krun_running [OF krun_step.hyps(1) krun_step.prems(1)]] by (simp add: good_def)
    then obtain us where "readyList k' @ us = g_current_thread ?k # readyList ?k
      \<or> (\<not> switched out \<and> readyList ?k = readyList k' @ us)" unfolding serves_def by blast
    then show ?thesis
    proof
      assume e: "readyList k' @ us = g_current_thread ?k # readyList ?k"
      have m: "(readyList k' @ us) ! j = ?t" using j(1,2) by (simp add: nth_append)
      show ?thesis
      proof (cases j)
        case 0
        then have "g_current_thread ?k = ?t" using m e by simp
        then show ?thesis by simp
      next
        case (Suc j')
        then have "readyList ?k ! j' = ?t" using m e by simp
        moreover have "length (readyList k' @ us) = Suc (length (readyList ?k))" using e by simp
        then have "j' < length (readyList ?k)" using j(1) Suc by simp
        moreover have "j' + (n + of_bool (switched out)) \<le> i" using j(3) Suc by simp
        ultimately show ?thesis by blast
      qed
    next
      assume e: "\<not> switched out \<and> readyList ?k = readyList k' @ us"
      then have "readyList ?k ! j = ?t" "j < length (readyList ?k)" using j(1,2) by (simp_all add: nth_append)
      then show ?thesis using e j(3) by auto
    qed
  qed
qed

text \<open>
  C13. The scheduler is first come, first served: the thread at place \<open>i\<close> of the ready list
  runs before the processor has been given away \<open>i + 1\<close> times, whatever threads are made
  ready meanwhile.
\<close>
theorem ready_thread_runs:
  assumes "krun cfg k es n ts k'" "running_ok k" "i < length (readyList k)" "i < n"
  shows "readyList k ! i \<in> set ts"
  using ready_moves_up [OF assms(1-3)] assms(4) by auto

subsection \<open>A thread that waits at a condition\<close>

definition lost :: "nat \<Rightarrow> 'a kernel_scheme \<Rightarrow> bool" where
  "lost t k \<longleftrightarrow> started k t \<and> \<not> waiting k t \<and> g_current_thread k \<noteq> t \<and> g_thread_to_be_destroyed k \<noteq> Some t"

lemma lost_run:
  "krun cfg k es n ts k' \<Longrightarrow> running_ok k \<Longrightarrow> lost t k \<Longrightarrow> lost t k' \<and> t \<notin> set ts"
proof (induction rule: krun.induct)
  case (krun_refl k)
  then show ?case by simp
next
  case (krun_step k es n ts k' ev out)
  then have l: "lost t k'" "t \<notin> set ts" "running_ok k'" using krun_running by blast+
  have "moves k' (state_of out)" using kstep_good [OF krun_step.hyps(2) l(3)] by (simp add: good_def)
  note m = movesD [OF this]
  have "lost t (state_of out)"
    using l(1) m(1) [of t] m(2) m(3) [of t] m(4) [of t] unfolding lost_def by metis
  then show ?case using l(2) by (simp add: lost_def)
qed

text \<open>
  C34. A thread that calls \<open>Wait\<close> on a condition never runs again: in every continuation,
  whatever the other threads signal or broadcast, it is never on the processor, because
  \<open>Wait\<close> does not put it in the queue of the condition.
\<close>
theorem wait_never_returns:
  assumes "Condition_Wait c k = Some out" "running_ok k" "conts k (g_current_thread k) = None"
    and "krun cfg (state_of out) es n ts k'"
  shows "g_current_thread k \<notin> set ts \<and> \<not> waiting k' (g_current_thread k)"
proof -
  note w = Condition_Wait_good [OF assms(1,2) not_acquiring [OF assms(3)]]
  then have "lost (g_current_thread k) (state_of out)" "running_ok (state_of out)" by (auto simp: lost_def good_def)
  from lost_run [OF assms(4) this(2,1)] show ?thesis by (simp add: lost_def)
qed

subsection \<open>Ticks\<close>


subsection \<open>A semaphore that lets two threads pass\<close>

text \<open>Changing the level when no interrupt is pending.\<close>

definition no_irq :: "'a kernel_scheme \<Rightarrow> bool" where
  "no_irq k \<longleftrightarrow> pending k = [] \<and> \<not> yieldOnReturn k \<and> \<not> inHandler k"

lemma set_level_no_irq:
  assumes "no_irq k"
  shows "\<exists>k'. SetStatus device_call (\<lambda>_. None) l k = Some (level k, k') \<and> no_irq k' \<and> level k' = l
    \<and> interrupts.more k = interrupts.more k'"
proof (cases "l = INTERRUPTS_ON \<and> level k = INTERRUPTS_OFF")
  case True
  let ?k = "ChangeLevel INTERRUPTS_OFF (advance SYSTEM_TICK (ChangeLevel INTERRUPTS_ON k))"
  have k: "pending ?k = []" "\<not> yieldOnReturn ?k" "\<not> inHandler ?k" "level ?k = INTERRUPTS_OFF"
    "interrupts.more k = interrupts.more ?k"
    using assms by (simp_all add: ChangeLevel_def advance_def no_irq_def Let_def split_beta)
  have "check_all device_call ?k = Some ?k"
    using k(1,4) by (subst check_all.simps) (simp add: CheckIfDue_def)
  then have "OneTick device_call (\<lambda>_. None) SYSTEM_TICK (ChangeLevel INTERRUPTS_ON k) = Some (ChangeLevel INTERRUPTS_ON ?k)"
    using k(2) by (simp add: OneTick_def ChangeLevel_def)
  then show ?thesis using True k(1-3,5) assms by (simp add: SetStatus_def no_irq_def ChangeLevel_def)
next
  case False
  then have "SetStatus device_call (\<lambda>_. None) l k = Some (level k, ChangeLevel l k)"
    using assms by (auto simp: SetStatus_def no_irq_def)
  then show ?thesis using assms by (simp add: no_irq_def ChangeLevel_def)
qed

lemma set_levelE:
  assumes "no_irq k"
  obtains k' where "SetStatus device_call (\<lambda>_. None) l k = Some (level k, k')" "set_level l k = Some k'" "no_irq k'"
    "level k' = l" "interrupts.more k = interrupts.more k'"
  using set_level_no_irq [OF assms, of l] by (auto simp: set_level_def)

lemma no_irq_V_body: "no_irq (V_body sid x k) = no_irq k"
  by (simp add: no_irq_def V_body_frame)

text \<open>
  C40. \<open>P\<close> tests the value once and \<open>V\<close> passes it to no one: after a single \<open>V\<close> on a
  semaphore of value 0 with a waiting thread, a \<open>P\<close> of the running thread returns at once,
  and so does the \<open>P\<close> of the woken thread. The value is then \<open>- 1\<close>.
\<close>
theorem semaphore_overrun:
  assumes "running_ok k" "no_irq k" "conts k (g_current_thread k) = None" "readyList k = []"
    and "g_thread_to_be_destroyed k = None"
    and "semaphores k s = Some \<lparr>svalue = 0, squeue = w # ws\<rparr>" "conts k w = Some (After_P s old)"
    and "threads k w = Some th" "t_process th = Some pid" "processes k pid \<noteq> None"
  shows "\<exists>k1 k2 k3 k4. Semaphore_V s k = Some k1 \<and> Semaphore_P s k1 = Some (Returned k2)
    \<and> Thread_Yield k2 = Some (Switched k3) \<and> g_current_thread k3 = w \<and> resume_thread k3 = Some (Returned k4)
    \<and> semaphores k4 s = Some \<lparr>svalue = - 1, squeue = ws\<rparr>"
proof -
  let ?c = "g_current_thread k"
  have wc: "w \<noteq> ?c" using assms(3,7) by auto
  obtain cth where cth: "threads k ?c = Some cth"
    using assms(1) kernel_okD(4) by (auto simp: running_ok_def fine_def started_def)
  obtain a where a: "SetStatus device_call (\<lambda>_. None) INTERRUPTS_OFF k = Some (level k, a)" "no_irq a"
    "interrupts.more k = interrupts.more a" using set_levelE [OF assms(2)] by metis
  note am = same_more [OF a(3)]
  let ?x = "\<lparr>svalue = 0, squeue = w # ws\<rparr>" and ?y = "\<lparr>svalue = 1, squeue = ws\<rparr>"
  let ?b = "V_body s ?x a"
  have b: "no_irq ?b" using a(2) by (simp add: no_irq_V_body)
  have bm: "g_current_thread ?b = ?c" "readyList ?b = [w]" "semaphores ?b s = Some ?y" "conts ?b = conts k"
    "threads ?b = threads k" "processes ?b = processes k" "g_thread_to_be_destroyed ?b = None"
    using am assms(4,5) by (simp_all add: V_body_def ReadyToRun_def)
  obtain k1 where k1: "SetStatus device_call (\<lambda>_. None) (level k) ?b = Some (level ?b, k1)" "no_irq k1"
    "interrupts.more ?b = interrupts.more k1" using set_levelE [OF b] by metis
  note k1m = same_more [OF k1(3)]
  have V: "Semaphore_V s k = Some k1"
    using a(1) am(11) assms(6) k1(1) by (simp add: Semaphore_V_def V_with_body)
  obtain e where e: "set_level INTERRUPTS_OFF k1 = Some e" "no_irq e" "interrupts.more k1 = interrupts.more e"
    using set_levelE [OF k1(2)] by metis
  note em = same_more [OF e(3)]
  let ?f = "e\<lparr>semaphores := (semaphores e)(s \<mapsto> \<lparr>svalue = 0, squeue = ws\<rparr>)\<rparr>"
  have f: "no_irq ?f" using e(2) by (simp add: no_irq_def)
  have fm: "g_current_thread ?f = ?c" "readyList ?f = [w]" "semaphores ?f s = Some \<lparr>svalue = 0, squeue = ws\<rparr>"
    "conts ?f = conts k" "threads ?f = threads k" "processes ?f = processes k" "g_thread_to_be_destroyed ?f = None"
    using em k1m bm by simp_all
  obtain k2 where k2: "set_level (level k1) ?f = Some k2" "no_irq k2" "interrupts.more ?f = interrupts.more k2"
    using set_levelE [OF f] by metis
  note k2m = same_more [OF k2(3)]
  have P: "Semaphore_P s k1 = Some (Returned k2)"
    using e(1) em(11) k1m(11) bm(3) k2(1)
    by (simp add: Semaphore_P_def after_def P_end_def set_level_return_def)
  obtain g where g: "set_level INTERRUPTS_OFF k2 = Some g" "no_irq g" "interrupts.more k2 = interrupts.more g"
    using set_levelE [OF k2(2)] by metis
  note gm = same_more [OF g(3)]
  have gf: "g_current_thread g = ?c" "readyList g = [w]" "semaphores g s = Some \<lparr>svalue = 0, squeue = ws\<rparr>"
    "conts g = conts k" "threads g = threads k" "processes g = processes k" "g_thread_to_be_destroyed g = None"
    using gm k2m fm by simp_all
  obtain pr where pr: "processes k pid = Some pr" using assms(10) by blast
  obtain k3 where k3: "Thread_Yield k2 = Some (Switched k3)" and k3f: "g_current_thread k3 = w"
    "semaphores k3 = semaphores g" "conts k3 w = Some (After_P s old)" "g_thread_to_be_destroyed k3 = None" "no_irq k3"
    using g(1,2) gf cth wc assms(7,8,9) pr
    by (simp add: Thread_Yield_def Yield_with_def FindNextToRun_def SwitchTo_def ReadyToRun_def
        SaveProcessorState_def RestoreProcessorState_def after_def no_irq_def ReadCC_def Let_def)
  let ?h = "k3\<lparr>conts := (conts k3)(w := None)\<rparr>"
  let ?i = "?h\<lparr>semaphores := (semaphores ?h)(s \<mapsto> \<lparr>svalue = - 1, squeue = ws\<rparr>)\<rparr>"
  have i: "no_irq ?i" using k3f(5) by (simp add: no_irq_def)
  obtain k4 where k4: "set_level old ?i = Some k4" "interrupts.more ?i = interrupts.more k4"
    using set_levelE [OF i] by metis
  have "resume_thread k3 = Some (Returned k4)"
    using k3f gf(3) k4(1)
    by (simp add: resume_thread_def destroy_carcass_def P_end_def set_level_return_def)
  moreover have "semaphores k4 s = Some \<lparr>svalue = - 1, squeue = ws\<rparr>" using same_more(11) [OF k4(2)] by simp
  ultimately show ?thesis using V P k3 k3f(1) by blast
qed

subsection \<open>A small kernel\<close>

text \<open>
  Thread 1 runs, thread 2 is ready to start, thread 3 waits at semaphore 7; semaphores 0
  and 1 are those of the disk drivers.
\<close>

definition demo_thread :: thread where
  "demo_thread = \<lparr>t_process = Some 0, t_int_registers = replicate 40 0,
     t_float_registers = replicate 32 0, t_cc = 0\<rparr>"

definition demo_process :: Process where
  "demo_process = \<lparr>numThreads = 3, addrspace = some_space, ptable = 0\<rparr>"

definition demo :: kernel where
  "demo = \<lparr>int_registers = replicate 40 0, float_registers = replicate 32 0, cc = 0, mainMemory = [],
     status = SYSTEM_MODE, host_endianess = IS_LITTLE_ENDIAN, mips_endianess = IS_BIG_ENDIAN,
     tables = (\<lambda>_. None), mmu_table = None, process_stat = (\<lambda>_. ProcessStat_new), current_process = 0,
     g_stats = Statistics_new, level = INTERRUPTS_OFF, pending = [], inHandler = False, yieldOnReturn = False,
     g_current_thread = 1, readyList = [2], g_alive = [1, 2, 3], g_thread_to_be_destroyed = None,
     threads = [1 \<mapsto> demo_thread, 2 \<mapsto> demo_thread, 3 \<mapsto> demo_thread], processes = [0 \<mapsto> demo_process],
     semaphores = [0 \<mapsto> \<lparr>svalue = 0, squeue = []\<rparr>, 1 \<mapsto> \<lparr>svalue = 0, squeue = []\<rparr>, 7 \<mapsto> \<lparr>svalue = 0, squeue = [3]\<rparr>],
     locks = [5 \<mapsto> \<lparr>sleepqueue = [], lfree = True, lowner = None\<rparr>], conditions = [6 \<mapsto> \<lparr>waitqueue = []\<rparr>],
     conts = [2 \<mapsto> StartThreadExecution, 3 \<mapsto> After_P 7 INTERRUPTS_ON], disks = (\<lambda>_. Disk_new []),
     driver_semaphore = (\<lambda>i. case i of Disk_irq \<Rightarrow> 0 | Swap_irq \<Rightarrow> 1)\<rparr>"

lemma demo_queues: "queue_at demo p = (if p = Ready then [2] else if p = Sem 7 then [3] else [])"
  by (cases p) (auto simp: queue_at_def demo_def)

lemma demo_waiting: "waiting demo t \<longleftrightarrow> t = 2 \<or> t = 3"
  unfolding queued_def demo_queues by auto

lemma demo_started: "started demo t \<longleftrightarrow> t = 1 \<or> t = 2 \<or> t = 3"
  by (auto simp: started_def demo_def demo_thread_def)

lemma demo_ok: "kernel_ok demo"
proof -
  have "one_place (queue_at demo)" unfolding one_place_def demo_queues by auto
  moreover have "\<forall>i. semaphores demo (driver_semaphore demo i) \<noteq> None" by (auto simp: demo_def split: irq.split)
  ultimately show ?thesis
    unfolding kernel_ok_def demo_waiting demo_started by (simp add: demo_def)
qed

lemma demo_running: "running_ok demo"
  using demo_ok unfolding running_ok_def fine_def demo_waiting by (simp add: demo_def)

lemma demo_quiescent: "quiescent demo"
  using demo_running by (auto simp: quiescent_def acquiring_def demo_def split: if_splits)

lemma demo_off: "level demo = INTERRUPTS_OFF"
  by (simp add: demo_def)

lemma demo_acquire: "\<exists>k'. krun tiny_cfg demo [Acquired 1 5] 0 [1] k'"
proof -
  let ?k = "demo\<lparr>locks := (locks demo)(5 \<mapsto> \<lparr>sleepqueue = [], lfree = False, lowner = Some 1\<rparr>)\<rparr>"
  have l: "locks demo 5 = Some \<lparr>sleepqueue = [], lfree = True, lowner = None\<rparr>" "g_current_thread demo = 1"
    "conts demo 1 = None" by (simp_all add: demo_def)
  have "level ?k = INTERRUPTS_OFF" using demo_off by simp
  then have "Lock_Acquire 5 demo = Some (Returned ?k)"
    using l demo_off by (simp add: Lock_Acquire_def set_level_def SetStatus_off after_def set_level_return_def)
  then have "run_action tiny_cfg (Acquire 5) demo = Some (Returned ?k)" by (simp add: run_action_def)
  from kstep_action [OF _ this] l(2,3)
  have "kstep tiny_cfg demo [Acquired 1 5] (Returned ?k)" by (simp add: action_event_def)
  from krun_step [OF krun_refl this] show ?thesis using l(2) by auto
qed

theorem locks_exclude_witness:
  "\<exists>k' lk. krun tiny_cfg demo [Acquired 1 5] 0 [1] k' \<and> locks k' 5 = Some lk \<and> lowner lk = Some 1"
proof -
  obtain k' where k': "krun tiny_cfg demo [Acquired 1 5] 0 [1] k'" using demo_acquire by blast
  have "held 5 [Acquired 1 5] = Some 1" by (simp add: held_def)
  with locks_exclude [OF k' demo_quiescent] k' show ?thesis by blast
qed

theorem one_place_always_witness:
  "\<exists>k'. krun tiny_cfg demo [Acquired 1 5] 0 [1] k' \<and> one_place (queue_at k') \<and> started k' (g_current_thread k')"
  using demo_acquire one_place_always [OF _ demo_running] by blast

lemma demo_switch:
  assumes "out = Switched k'"
  shows "g_current_thread k' = 2 \<Longrightarrow> kstep tiny_cfg demo [] out \<Longrightarrow> krun tiny_cfg demo [] 1 [2] k'"
  using krun_step [OF krun_refl, of tiny_cfg demo "[]" out] assms by simp

lemma demo_yield: "\<exists>k'. krun tiny_cfg demo [] 1 [2] k'"
proof -
  have d: "g_current_thread demo = 1" "conts demo 1 = None" "readyList demo = [2]"
    "threads demo = [1 \<mapsto> demo_thread, 2 \<mapsto> demo_thread, 3 \<mapsto> demo_thread]" "processes demo = [0 \<mapsto> demo_process]"
    "t_process demo_thread = Some 0"
    by (simp_all add: demo_def demo_thread_def)
  have "\<exists>k'. Thread_Yield demo = Some (Switched k') \<and> g_current_thread k' = 2"
    using d demo_off
    by (simp add: Thread_Yield_def Yield_with_def set_level_def SetStatus_off FindNextToRun_def SwitchTo_def
        ReadyToRun_def SaveProcessorState_def RestoreProcessorState_def after_def Let_def)
  then obtain k' where k': "Thread_Yield demo = Some (Switched k')" "g_current_thread k' = 2" by blast
  then have "run_action tiny_cfg Yield demo = Some (Switched k')" by (simp add: run_action_def)
  from kstep_action [OF _ this] d(1,2) have "kstep tiny_cfg demo [] (Switched k')" by (simp add: action_event_def)
  from demo_switch [OF refl k'(2) this] show ?thesis by blast
qed

theorem ready_thread_runs_witness: "\<exists>ts k'. krun tiny_cfg demo [] 1 ts k' \<and> 2 \<in> set ts"
proof -
  obtain k' where k': "krun tiny_cfg demo [] 1 [2] k'" using demo_yield by blast
  have "readyList demo ! 0 = 2" "0 < length (readyList demo)" by (simp_all add: demo_def)
  with ready_thread_runs [OF k' demo_running, of 0] k' show ?thesis by auto
qed

theorem wait_never_returns_witness:
  "\<exists>k'. Condition_Wait 6 demo = Some (Switched k') \<and> \<not> waiting k' 1"
proof -
  have d: "g_current_thread demo = 1" "conts demo 1 = None" "readyList demo = [2]"
    "threads demo = [1 \<mapsto> demo_thread, 2 \<mapsto> demo_thread, 3 \<mapsto> demo_thread]" "processes demo = [0 \<mapsto> demo_process]"
    "t_process demo_thread = Some 0"
    by (simp_all add: demo_def demo_thread_def)
  have "\<exists>k'. Condition_Wait 6 demo = Some (Switched k')"
    using d demo_off
    by (simp add: Condition_Wait_def set_level_def SetStatus_off Sleep_def next_thread.simps FindNextToRun_def
        SwitchTo_def SaveProcessorState_def RestoreProcessorState_def after_def Let_def)
  then obtain k' where k': "Condition_Wait 6 demo = Some (Switched k')" by blast
  have "krun tiny_cfg (state_of (Switched k')) [] 0 [] k'" using krun_refl by simp
  from wait_never_returns [OF k' demo_running _ this] d(1,2) k' show ?thesis by auto
qed

theorem semaphore_overrun_witness:
  "\<exists>k1 k2. Semaphore_V 7 (demo\<lparr>readyList := []\<rparr>) = Some k1 \<and> Semaphore_P 7 k1 = Some (Returned k2)"
proof -
  let ?k = "demo\<lparr>readyList := []\<rparr>"
  have f: "fine demo" using demo_running by (simp add: running_ok_def)
  have l: "readyList demo = 2 # []" "g_current_thread ?k = 1" "g_current_thread demo = 1"
    "conts ?k 1 = None" by (simp_all add: demo_def)
  note p = pop_ready [OF f l(1)]
  have "\<not> waiting ?k 1" using p(6) [of 1] demo_waiting by auto
  then have r: "running_ok ?k" using p(1) demo_running l by (simp add: running_ok_def)
  have d: "no_irq ?k" "conts ?k (g_current_thread ?k) = None" "readyList ?k = []" "g_thread_to_be_destroyed ?k = None"
    "semaphores ?k 7 = Some \<lparr>svalue = 0, squeue = 3 # []\<rparr>" "conts ?k 3 = Some (After_P 7 INTERRUPTS_ON)"
    "threads ?k 3 = Some demo_thread" "t_process demo_thread = Some 0" "processes ?k 0 \<noteq> None"
    by (simp_all add: demo_def no_irq_def demo_thread_def)
  from semaphore_overrun [OF r d] show ?thesis by blast
qed


end
