(* ===== verification/Nachos_OFTable.thy ===== *)
theory Nachos_OFTable
  imports Nachos_FileSys Nachos_KernelProps
begin

text \<open>
  The table of open files (\<open>filesys/oftable.cc\<close>): it counts how many threads have a file
  open and puts off the deletion of a file until the last of them closes it. The state is
  \<open>os\<close>, the kernel with the file system and the table: an entry owns a lock, an object of
  the kernel. \<open>new Lock\<close> gives the address that the argument \<open>l\<close> names.

  Names are C strings without their terminating zero.
\<close>

definition NBOFTENTRY :: nat where "NBOFTENTRY = 15"

record OpenFileTableEntry =
  ename :: "byte list"
  efile :: "OpenFile option"
  numthread :: int
  elock :: nat
  ToBeDeleted :: bool
  esector :: int

record OpenFileTable =
  table :: "OpenFileTableEntry option list"
  nbentry :: int

record os = kernel +
  fs :: filesystem
  oft :: OpenFileTable

definition OpenFileTableEntry_new :: "config \<Rightarrow> nat \<Rightarrow> OpenFileTableEntry" where
  "OpenFileTableEntry_new cfg l =
     \<lparr>ename = cstring (map (\<lambda>i. word_of_int (fresh cfg i)) [0..<nat (MaxFileNameSize cfg)]),
      efile = None, numthread = 1, elock = l, ToBeDeleted = False, esector = - 1\<rparr>"

definition OpenFileTableEntry_delete ::
  "config \<Rightarrow> OpenFileTableEntry \<Rightarrow> 'a os_scheme \<Rightarrow> 'a os_scheme option" where
  "OpenFileTableEntry_delete cfg e k = do {
     k1 \<leftarrow> (if ToBeDeleted e then do {
              freeMap \<leftarrow> fetch_map cfg (fs k);
              f \<leftarrow> efile e;
              freeMap1 \<leftarrow> Deallocate freeMap (GetFileHeader f);
              freeMap2 \<leftarrow> BitMap_Clear freeMap1 (esector e);
              fs1 \<leftarrow> flush_map cfg freeMap2 (fs k);
              Some (k\<lparr>fs := fs1\<rparr>) }
            else Some k);
     Lock_delete (elock e) k1 }"

definition OpenFileTable_new :: OpenFileTable where
  "OpenFileTable_new = \<lparr>table = replicate NBOFTENTRY None, nbentry = 0\<rparr>"

text \<open>The two scans of the table, from entry number \<open>i\<close> on.\<close>

fun findl_from :: "OpenFileTableEntry option list \<Rightarrow> byte list \<Rightarrow> int \<Rightarrow> int" where
  "findl_from [] name i = - 1"
| "findl_from (None # es) name i = findl_from es name (i + 1)"
| "findl_from (Some e # es) name i = (if ename e = name then i else findl_from es name (i + 1))"

definition findl :: "byte list \<Rightarrow> OpenFileTable \<Rightarrow> int" where
  "findl name t = findl_from (table t) name 0"

fun next_entry_from :: "OpenFileTableEntry option list \<Rightarrow> int \<Rightarrow> int" where
  "next_entry_from [] i = - 1"
| "next_entry_from (None # es) i = i"
| "next_entry_from (Some e # es) i = next_entry_from es (i + 1)"

definition next_entry :: "OpenFileTable \<Rightarrow> int" where
  "next_entry t = next_entry_from (table t) 0"

definition get_entry :: "OpenFileTable \<Rightarrow> int \<Rightarrow> OpenFileTableEntry option" where
  "get_entry t i = Option.bind (aget (table t) i) (\<lambda>e. e)"

definition set_entry :: "int \<Rightarrow> OpenFileTableEntry option \<Rightarrow> OpenFileTable \<Rightarrow> OpenFileTable option" where
  "set_entry i e t = map_option (\<lambda>es. t\<lparr>table := es\<rparr>) (aset (table t) i e)"

text \<open>
  \<open>Open\<close>: \<open>NULL\<close> is the inner \<open>None\<close>. When the directory is not found, the entry is not
  deleted: its lock stays behind.
\<close>

definition OFT_Open ::
  "config \<Rightarrow> nat \<Rightarrow> byte list \<Rightarrow> 'a os_scheme \<Rightarrow> (OpenFile option \<times> 'a os_scheme) option" where
  "OFT_Open cfg l name k =
     (let num = findl name (oft k) in
      if num \<noteq> - 1 then do {
        e \<leftarrow> get_entry (oft k) num;
        if \<not> ToBeDeleted e then do {
          t \<leftarrow> set_entry num (Some (e\<lparr>numthread := numthread e + 1\<rparr>)) (oft k);
          f \<leftarrow> OpenFile_new cfg (esector e) (sectors (fs k));
          newfile \<leftarrow> SetName cfg name f;
          Some (Some newfile, k\<lparr>oft := t\<rparr>) }
        else Some (None, k) }
      else if nbentry (oft k) \<noteq> - 1 then do {
        k1 \<leftarrow> Lock_new l k;
        let entry = (OpenFileTableEntry_new cfg l)\<lparr>ename := name\<rparr>;
        filename \<leftarrow> copy_name cfg name;
        (dirsector, filename) \<leftarrow> FindDir cfg filename (fs k);
        if dirsector = - 1 then Some (None, k1)
        else do {
          (dirfile, directory) \<leftarrow> fetch_dir cfg dirsector (fs k);
          let sector = Directory_Find directory filename;
          if sector \<ge> 0 then do {
            f \<leftarrow> OpenFile_new cfg sector (sectors (fs k));
            if OpenFile_IsDir f
            then do { k2 \<leftarrow> OpenFileTableEntry_delete cfg entry k1; Some (None, k2) }
            else do {
              newfile \<leftarrow> SetName cfg name f;
              openfile \<leftarrow> SetName cfg name f;
              t \<leftarrow> set_entry (nbentry (oft k)) (Some (entry\<lparr>esector := sector, efile := Some openfile\<rparr>)) (oft k);
              Some (Some newfile, k1\<lparr>oft := t\<lparr>nbentry := next_entry t\<rparr>\<rparr>) } }
          else do { k2 \<leftarrow> OpenFileTableEntry_delete cfg entry k1; Some (None, k2) } } }
      else Some (None, k))"

definition OFT_Close :: "config \<Rightarrow> byte list \<Rightarrow> 'a os_scheme \<Rightarrow> 'a os_scheme option" where
  "OFT_Close cfg name k =
     (let num = findl name (oft k) in
      if num \<noteq> - 1 then do {
        e \<leftarrow> get_entry (oft k) num;
        let e' = e\<lparr>numthread := numthread e - 1\<rparr>;
        if numthread e' \<le> 0
        then do {
          k1 \<leftarrow> OpenFileTableEntry_delete cfg e' k;
          t \<leftarrow> set_entry num None (oft k1);
          Some (k1\<lparr>oft := t\<rparr>) }
        else do { t \<leftarrow> set_entry num (Some e') (oft k); Some (k\<lparr>oft := t\<rparr>) } }
      else Some k)"

definition FileLock :: "byte list \<Rightarrow> 'a os_scheme \<Rightarrow> 'a os_scheme outcome option" where
  "FileLock name k =
     (let num = findl name (oft k) in
      if num \<noteq> - 1 then do { e \<leftarrow> get_entry (oft k) num; Lock_Acquire (elock e) k }
      else Some (Returned k))"

definition FileRelease :: "byte list \<Rightarrow> 'a os_scheme \<Rightarrow> 'a os_scheme option" where
  "FileRelease name k =
     (let num = findl name (oft k) in
      if num \<noteq> - 1 then do { e \<leftarrow> get_entry (oft k) num; Lock_Release (elock e) k }
      else Some k)"

definition OFT_Remove :: "config \<Rightarrow> byte list \<Rightarrow> 'a os_scheme \<Rightarrow> (ErrorCode \<times> 'a os_scheme) option" where
  "OFT_Remove cfg name k = do {
     filename \<leftarrow> copy_name cfg name;
     (dirsector, filename) \<leftarrow> FindDir cfg filename (fs k);
     if dirsector = - 1 then Some (InexistFileError, k)
     else do {
       (dirfile, directory) \<leftarrow> fetch_dir cfg dirsector (fs k);
       let sector = Directory_Find directory filename;
       if sector = - 1 then Some (InexistFileError, k)
       else (let num = findl name (oft k) in
         if num \<noteq> - 1 then do {
           e \<leftarrow> get_entry (oft k) num;
           t \<leftarrow> set_entry num (Some (e\<lparr>ToBeDeleted := True\<rparr>)) (oft k);
           let (_, directory') = Directory_Remove filename directory;
           (_, fs1) \<leftarrow> Directory_WriteBack cfg directory' dirfile (fs k);
           Some (NoError, k\<lparr>oft := t, fs := fs1\<rparr>) }
         else do {
           (r, fs1) \<leftarrow> FileSystem_Remove cfg name (fs k);
           Some (r, k\<lparr>fs := fs1\<rparr>) }) } }"

subsection \<open>The table as a map from names\<close>

definition distinct_names :: "OpenFileTableEntry option list \<Rightarrow> bool" where
  "distinct_names es \<longleftrightarrow> (\<forall>i j a b. i < length es \<longrightarrow> j < length es \<longrightarrow> es ! i = Some a \<longrightarrow> es ! j = Some b
     \<longrightarrow> ename a = ename b \<longrightarrow> i = j)"

definition oft_ok :: "OpenFileTable \<Rightarrow> bool" where
  "oft_ok t \<longleftrightarrow> length (table t) = NBOFTENTRY \<and> distinct_names (table t)
     \<and> (\<forall>j e. j < NBOFTENTRY \<longrightarrow> table t ! j = Some e \<longrightarrow> 1 \<le> numthread e \<and> efile e \<noteq> None)
     \<and> (nbentry t = - 1 \<or> 0 \<le> nbentry t \<and> nat (nbentry t) < NBOFTENTRY \<and> table t ! nat (nbentry t) = None)"

text \<open>How many threads have a file open.\<close>

definition refs :: "byte list \<Rightarrow> OpenFileTable \<Rightarrow> int" where
  "refs name t = (case get_entry t (findl name t) of None \<Rightarrow> 0 | Some e \<Rightarrow> numthread e)"

lemma findl_from_cases:
  "findl_from es name i = - 1 \<and> (\<forall>j e. j < length es \<longrightarrow> es ! j = Some e \<longrightarrow> ename e \<noteq> name)
   \<or> (\<exists>j e. j < length es \<and> es ! j = Some e \<and> ename e = name \<and> findl_from es name i = i + int j)"
  (is "?A es i \<or> ?B es i")
proof -
  have B: "?B es (i + 1) \<Longrightarrow> findl_from (x # es) name i = findl_from es name (i + 1) \<Longrightarrow> ?B (x # es) i" for x es i
    by (elim exE conjE) (rule exI [of _ "Suc _"], auto)
  have A: "?A es (i + 1) \<Longrightarrow> findl_from (x # es) name i = findl_from es name (i + 1)
      \<Longrightarrow> (\<And>e. x = Some e \<Longrightarrow> ename e \<noteq> name) \<Longrightarrow> ?A (x # es) i" for x es i
    by (auto simp: nth_Cons split: nat.splits)
  show ?thesis
  proof (induction es arbitrary: i)
    case (Cons x es)
    show ?case
    proof (cases "\<exists>e. x = Some e \<and> ename e = name")
      case True
      then have "?B (x # es) i" by (intro exI [of _ 0]) auto
      then show ?thesis ..
    next
      case False
      then have "findl_from (x # es) name i = findl_from es name (i + 1)" by (cases x) auto
      with A B Cons.IH [of "i + 1"] False show ?thesis by blast
    qed
  qed simp
qed

lemma findl_cases:
  obtains (absent) "findl name t = - 1" "\<And>j e. j < length (table t) \<Longrightarrow> table t ! j = Some e \<Longrightarrow> ename e \<noteq> name"
  | (present) j e where "j < length (table t)" "table t ! j = Some e" "ename e = name" "findl name t = int j"
  using findl_from_cases [of "table t" name 0] by (auto simp: findl_def)

lemma next_entry_from_cases:
  "next_entry_from es i = - 1 \<or> (\<exists>j. j < length es \<and> es ! j = None \<and> next_entry_from es i = i + int j)"
  by (induction es i rule: next_entry_from.induct) (force simp: nth_Cons split: nat.splits)+

lemma get_entry_nat [simp]: "j < length (table t) \<Longrightarrow> get_entry t (int j) = table t ! j"
  by (simp add: get_entry_def aget_nat)

lemma set_entry_nat [simp]: "j < length (table t) \<Longrightarrow> set_entry (int j) e t = Some (t\<lparr>table := (table t)[j := e]\<rparr>)"
  by (simp add: set_entry_def aset_nat)

lemma findl_at:
  assumes "distinct_names (table t)" "j < length (table t)" "table t ! j = Some e"
  shows "findl (ename e) t = int j"
proof (cases rule: findl_cases [of "ename e" t])
  case absent
  from absent(2) [OF assms(2,3)] show ?thesis by simp
next
  case (present i a)
  then show ?thesis using assms unfolding distinct_names_def by metis
qed

lemma refs_at:
  assumes "distinct_names (table t)" "j < length (table t)" "table t ! j = Some e"
  shows "refs (ename e) t = numthread e"
  using assms by (simp add: refs_def findl_at [OF assms])

lemma refs_absent: "findl name t = - 1 \<Longrightarrow> refs name t = 0"
  by (simp add: refs_def get_entry_def aget_def)

lemma findl_absent_iff:
  "findl name t = - 1 \<longleftrightarrow> (\<forall>j e. j < length (table t) \<longrightarrow> table t ! j = Some e \<longrightarrow> ename e \<noteq> name)"
  by (cases rule: findl_cases [of name t]) auto

text \<open>Writing one entry, which keeps its name or takes one that is not in the table.\<close>

lemma upd_at: "(es[j := x]) ! i = y \<Longrightarrow> i < length es \<Longrightarrow> i = j \<and> x = y \<or> i \<noteq> j \<and> es ! i = y"
  by (cases "i = j") simp_all

lemma refs_set:
  assumes d: "distinct_names (table t)" and j: "j < length (table t)"
    and same: "\<And>a. table t ! j = Some a \<Longrightarrow> ename a = ename e"
    and other: "\<And>i a. i < length (table t) \<Longrightarrow> i \<noteq> j \<Longrightarrow> table t ! i = Some a \<Longrightarrow> ename a \<noteq> ename e"
    and t': "table t' = (table t)[j := Some e]"
  shows "distinct_names (table t')" "refs name t' = (if name = ename e then numthread e else refs name t)"
proof -
  show d': "distinct_names (table t')"
    unfolding distinct_names_def t'
  proof (intro allI impI)
    fix i k a b
    assume "i < length ((table t)[j := Some e])" "k < length ((table t)[j := Some e])"
      "(table t)[j := Some e] ! i = Some a" "(table t)[j := Some e] ! k = Some b" "ename a = ename b"
    then show "i = k"
      using d other unfolding distinct_names_def by (cases "i = j"; cases "k = j") (auto simp: nth_list_update)
  qed
  show "refs name t' = (if name = ename e then numthread e else refs name t)"
  proof (cases "name = ename e")
    case True
    then show ?thesis using refs_at [OF d', of j e] j t' by simp
  next
    case False
    show ?thesis
    proof (cases rule: findl_cases [of name t])
      case absent
      have "findl name t' = - 1"
        unfolding findl_absent_iff t' using absent(2) False by (auto dest!: upd_at)
      then show ?thesis using absent(1) False by (simp add: refs_absent)
    next
      case (present i a)
      then have "i \<noteq> j" using same False by auto
      then have "table t' ! i = Some a" "i < length (table t')" using present t' by simp_all
      from refs_at [OF d' this(2,1)] refs_at [OF d present(1,2)] present(3) False show ?thesis by simp
    qed
  qed
qed

lemma refs_clear:
  assumes d: "distinct_names (table t)" and j: "j < length (table t)" "table t ! j = Some e"
    and t': "table t' = (table t)[j := None]"
  shows "distinct_names (table t')" "refs name t' = (if name = ename e then 0 else refs name t)"
proof -
  show d': "distinct_names (table t')"
    unfolding distinct_names_def t'
  proof (intro allI impI)
    fix i k a b
    assume h: "i < length ((table t)[j := None])" "k < length ((table t)[j := None])"
      "(table t)[j := None] ! i = Some a" "(table t)[j := None] ! k = Some b" "ename a = ename b"
    then have "table t ! i = Some a" "table t ! k = Some b" by (auto dest!: upd_at)
    then show "i = k" using d h unfolding distinct_names_def by auto
  qed
  show "refs name t' = (if name = ename e then 0 else refs name t)"
  proof (cases "name = ename e")
    case True
    have "findl name t' = - 1"
      unfolding findl_absent_iff t' True
    proof (intro allI impI notI)
      fix i a
      assume h: "i < length ((table t)[j := None])" "(table t)[j := None] ! i = Some a" "ename a = ename e"
      then have "i \<noteq> j" "table t ! i = Some a" by (auto dest!: upd_at)
      then show False using d j h unfolding distinct_names_def by auto
    qed
    then show ?thesis using True by (simp add: refs_absent)
  next
    case False
    show ?thesis
    proof (cases rule: findl_cases [of name t])
      case absent
      have "findl name t' = - 1"
        unfolding findl_absent_iff t' using absent(2) by (auto dest!: upd_at)
      then show ?thesis using absent(1) False by (simp add: refs_absent)
    next
      case (present i a)
      then have "i \<noteq> j" using j False by auto
      then have "table t' ! i = Some a" "i < length (table t')" using present t' by simp_all
      from refs_at [OF d' this(2,1)] refs_at [OF d present(1,2)] present(3) False show ?thesis by simp
    qed
  qed
qed

subsection \<open>What the operations do to the counts\<close>

lemma Lock_new_keeps: "Lock_new l k = Some k' \<Longrightarrow> oft k' = oft k \<and> fs k' = fs k"
  by (auto simp: Lock_new_def split: if_splits)

lemma Lock_delete_keeps: "Lock_delete l k = Some k' \<Longrightarrow> oft k' = oft k \<and> fs k' = fs k"
  by (auto simp: Lock_delete_def Let_def elim!: bind_Some_cases split: if_splits)

lemma delete_keeps:
  assumes "OpenFileTableEntry_delete cfg e k = Some k'"
  shows "oft k' = oft k" "\<not> ToBeDeleted e \<Longrightarrow> fs k' = fs k"
  using assms unfolding OpenFileTableEntry_delete_def
  by (auto elim!: bind_Some_cases dest!: Lock_delete_keeps split: if_splits)

lemma delete_new_keeps:
  "OpenFileTableEntry_delete cfg ((OpenFileTableEntry_new cfg l)\<lparr>ename := n\<rparr>) k = Some k'
    \<Longrightarrow> oft k' = oft k \<and> fs k' = fs k"
  by (auto dest: delete_keeps simp: OpenFileTableEntry_new_def)

lemma oft_ok_set:
  assumes "oft_ok t" "j < NBOFTENTRY" "1 \<le> numthread e" "efile e \<noteq> None"
    and same: "\<And>a. table t ! j = Some a \<Longrightarrow> ename a = ename e"
    and other: "\<And>i a. i < NBOFTENTRY \<Longrightarrow> i \<noteq> j \<Longrightarrow> table t ! i = Some a \<Longrightarrow> ename a \<noteq> ename e"
    and t': "table t' = (table t)[j := Some e]"
    and nb: "nbentry t' = - 1 \<or> 0 \<le> nbentry t' \<and> nat (nbentry t') < NBOFTENTRY \<and> table t' ! nat (nbentry t') = None"
  shows "oft_ok t'" "refs name t' = (if name = ename e then numthread e else refs name t)"
proof -
  have l: "length (table t) = NBOFTENTRY" "distinct_names (table t)" using assms(1) by (simp_all add: oft_ok_def)
  have j: "j < length (table t)" using assms(2) l(1) by simp
  have oth: "\<And>i a. i < length (table t) \<Longrightarrow> i \<noteq> j \<Longrightarrow> table t ! i = Some a \<Longrightarrow> ename a \<noteq> ename e"
    using other unfolding l(1) by blast
  note s = refs_set [OF l(2) j same oth t']
  show "refs name t' = (if name = ename e then numthread e else refs name t)" by (rule s(2))
  have "1 \<le> numthread a \<and> efile a \<noteq> None" if "i < NBOFTENTRY" "table t' ! i = Some a" for i a
    using that assms(1,3,4) l(1) unfolding t' oft_ok_def by (auto dest!: upd_at)
  then show "oft_ok t'" using s(1) nb l(1) t' unfolding oft_ok_def by simp
qed

lemma oft_ok_next:
  "length (table t) = NBOFTENTRY \<Longrightarrow> next_entry t = - 1 \<or>
    0 \<le> next_entry t \<and> nat (next_entry t) < NBOFTENTRY \<and> table t ! nat (next_entry t) = None"
  using next_entry_from_cases [of "table t" 0] by (auto simp: next_entry_def)

lemma nb_kept:
  assumes "oft_ok t" "j < NBOFTENTRY" "table t ! j = Some a" "table t' = (table t)[j := x]" "nbentry t' = nbentry t"
  shows "nbentry t' = - 1 \<or> 0 \<le> nbentry t' \<and> nat (nbentry t') < NBOFTENTRY \<and> table t' ! nat (nbentry t') = None"
  using assms unfolding oft_ok_def by (cases "nat (nbentry t) = j") auto

lemma Open_counts:
  assumes ok: "oft_ok (oft k)" and r: "OFT_Open cfg l name k = Some (r, k')"
  shows "oft_ok (oft k') \<and> fs k' = fs k \<and> (r = None \<longrightarrow> oft k' = oft k)
    \<and> (r \<noteq> None \<longrightarrow> refs n (oft k') = refs n (oft k) + of_bool (n = name))"
proof -
  have l: "length (table (oft k)) = NBOFTENTRY" "distinct_names (table (oft k))" using ok by (simp_all add: oft_ok_def)
  show ?thesis
  proof (cases rule: findl_cases [of name "oft k"])
    case (present j e)
    have g: "get_entry (oft k) (int j) = Some e" using present by simp
    show ?thesis
    proof (cases "ToBeDeleted e")
      case True
      then show ?thesis using r g present ok by (simp add: OFT_Open_def)
    next
      case False
      let ?e = "e\<lparr>numthread := numthread e + 1\<rparr>"
      let ?t = "(oft k)\<lparr>table := (table (oft k))[j := Some ?e]\<rparr>"
      have k': "k' = k\<lparr>oft := ?t\<rparr>" "r \<noteq> None"
        using r g present False by (auto simp: OFT_Open_def elim!: bind_Some_cases)
      have jn: "j < NBOFTENTRY" using present l(1) by simp
      have e: "1 \<le> numthread e" "efile e \<noteq> None" using ok jn present(2) by (auto simp: oft_ok_def)
      have other: "ename a \<noteq> ename ?e" if "i < NBOFTENTRY" "i \<noteq> j" "table (oft k) ! i = Some a" for i a
        using that l present jn unfolding distinct_names_def by auto
      note s = oft_ok_set [OF ok jn _ _ _ other, where t' = ?t]
      have "oft_ok ?t" "refs n ?t = (if n = name then numthread e + 1 else refs n (oft k))"
        using s nb_kept [OF ok jn present(2), of ?t] e present(2,3) by simp_all
      moreover have "refs name (oft k) = numthread e" using refs_at [OF l(2) present(1,2)] present(3) by simp
      ultimately show ?thesis using k' by auto
    qed
  next
    case absent
    show ?thesis
    proof (cases "nbentry (oft k) = - 1")
      case True
      then show ?thesis using r absent(1) ok by (simp add: OFT_Open_def)
    next
      case nb: False
      then have i: "0 \<le> nbentry (oft k)" "nat (nbentry (oft k)) < NBOFTENTRY"
        "table (oft k) ! nat (nbentry (oft k)) = None" using ok by (auto simp: oft_ok_def)
      let ?j = "nat (nbentry (oft k))"
      have se: "set_entry (nbentry (oft k)) x (oft k) = Some ((oft k)\<lparr>table := (table (oft k))[?j := x]\<rparr>)" for x
        using set_entry_nat [of ?j "oft k" x] i l(1) by simp
      show ?thesis
      proof (cases r)
        case None
        have "oft k' = oft k \<and> fs k' = fs k"
          using r nb absent(1) None unfolding OFT_Open_def se Let_def
          by (auto elim!: bind_Some_cases dest!: Lock_new_keeps delete_new_keeps split: if_splits prod.splits)
        then show ?thesis using ok None by simp
      next
        case (Some f)
        let ?new = "\<lambda>s g. (OpenFileTableEntry_new cfg l)\<lparr>ename := name, esector := s, efile := Some g\<rparr>"
        have "\<exists>s g. oft k' = (let t = (oft k)\<lparr>table := (table (oft k))[?j := Some (?new s g)]\<rparr>
            in t\<lparr>nbentry := next_entry t\<rparr>) \<and> fs k' = fs k"
          using r nb absent(1) Some unfolding OFT_Open_def se Let_def
          by (auto elim!: bind_Some_cases dest!: Lock_new_keeps split: if_splits prod.splits) blast
        then obtain s g where k0: "oft k' = (let t = (oft k)\<lparr>table := (table (oft k))[?j := Some (?new s g)]\<rparr>
            in t\<lparr>nbentry := next_entry t\<rparr>)" and k1: "fs k' = fs k" by blast
        define e where "e = ?new s g"
        have e: "ename e = name" "numthread e = 1" "efile e \<noteq> None"
          by (simp_all add: e_def OpenFileTableEntry_new_def)
        note k' = k0 [folded e_def] k1
        let ?t = "(oft k)\<lparr>table := (table (oft k))[?j := Some e]\<rparr>"
        have "table (oft k') = (table (oft k))[?j := Some e]" "length (table (oft k')) = NBOFTENTRY"
          "nbentry (oft k') = next_entry (oft k')" using k'(1) l(1) by (simp_all add: Let_def next_entry_def)
        note s = oft_ok_set [OF ok i(2) _ _ _ _ this(1)]
        have "oft_ok (oft k')" "refs n (oft k') = (if n = name then 1 else refs n (oft k))"
          using s e i(3) absent(2) l(1) oft_ok_next [OF \<open>length (table (oft k')) = NBOFTENTRY\<close>]
            \<open>nbentry (oft k') = next_entry (oft k')\<close> by auto
        then show ?thesis using k'(2) Some refs_absent [OF absent(1)] by simp
      qed
    qed
  qed
qed

lemma Close_counts:
  assumes ok: "oft_ok (oft k)" and r: "OFT_Close cfg name k = Some k'"
  shows "oft_ok (oft k') \<and> nbentry (oft k') = nbentry (oft k)
    \<and> refs n (oft k') = (if n = name then max 0 (refs n (oft k) - 1) else refs n (oft k))
    \<and> (1 < refs name (oft k) \<longrightarrow> fs k' = fs k)"
proof -
  have l: "length (table (oft k)) = NBOFTENTRY" "distinct_names (table (oft k))" using ok by (simp_all add: oft_ok_def)
  show ?thesis
  proof (cases rule: findl_cases [of name "oft k"])
    case absent
    then have "k' = k" using r by (simp add: OFT_Close_def)
    then show ?thesis using ok refs_absent [OF absent(1)] by simp
  next
    case (present j e)
    have g: "get_entry (oft k) (int j) = Some e" using present by simp
    have jn: "j < NBOFTENTRY" using present l(1) by simp
    have e: "1 \<le> numthread e" "efile e \<noteq> None" using ok jn present(2) by (auto simp: oft_ok_def)
    have re: "refs name (oft k) = numthread e" using refs_at [OF l(2) present(1,2)] present(3) by simp
    show ?thesis
    proof (cases "numthread e = 1")
      case True
      obtain k1 where k1: "OpenFileTableEntry_delete cfg (e\<lparr>numthread := numthread e - 1\<rparr>) k = Some k1"
        and k': "Option.bind (set_entry (int j) None (oft k1)) (\<lambda>t. Some (k1\<lparr>oft := t\<rparr>)) = Some k'"
        using r g present True by (auto simp: OFT_Close_def elim!: bind_Some_cases)
      have o: "oft k1 = oft k" by (rule delete_keeps(1) [OF k1])
      let ?t = "(oft k)\<lparr>table := (table (oft k))[j := None]\<rparr>"
      have k': "oft k' = ?t" using k' present(1) unfolding o by auto
      note c = refs_clear [OF l(2) present(1,2), of ?t]
      have "1 \<le> numthread a \<and> efile a \<noteq> None" if "i < NBOFTENTRY" "(table (oft k))[j := None] ! i = Some a" for i a
        using that ok l(1) unfolding oft_ok_def by (auto dest!: upd_at)
      then have "oft_ok ?t" using c(1) l(1) nb_kept [OF ok jn present(2), of ?t] unfolding oft_ok_def by simp
      then show ?thesis using k' c(2) [of n] present(3) re True by auto
    next
      case False
      let ?e = "e\<lparr>numthread := numthread e - 1\<rparr>"
      let ?t = "(oft k)\<lparr>table := (table (oft k))[j := Some ?e]\<rparr>"
      have k': "k' = k\<lparr>oft := ?t\<rparr>" using r g present False e(1) by (auto simp: OFT_Close_def elim!: bind_Some_cases)
      have other: "ename a \<noteq> ename ?e" if "i < NBOFTENTRY" "i \<noteq> j" "table (oft k) ! i = Some a" for i a
        using that l present jn unfolding distinct_names_def by auto
      note s = oft_ok_set [OF ok jn _ _ _ other, where t' = ?t]
      have "oft_ok ?t" "refs n ?t = (if n = name then numthread e - 1 else refs n (oft k))"
        using s nb_kept [OF ok jn present(2), of ?t] e False present(2,3) by simp_all
      then show ?thesis using k' re e(1) by auto
    qed
  qed
qed

lemma Remove_counts:
  assumes ok: "oft_ok (oft k)" and r: "OFT_Remove cfg name k = Some (c, k')"
  shows "oft_ok (oft k') \<and> nbentry (oft k') = nbentry (oft k) \<and> refs n (oft k') = refs n (oft k)"
proof -
  have l: "length (table (oft k)) = NBOFTENTRY" "distinct_names (table (oft k))" using ok by (simp_all add: oft_ok_def)
  show ?thesis
  proof (cases rule: findl_cases [of name "oft k"])
    case absent
    then have "oft k' = oft k"
      using r by (auto simp: OFT_Remove_def Let_def elim!: bind_Some_cases split: if_splits prod.splits)
    then show ?thesis using ok by simp
  next
    case (present j e)
    have g: "get_entry (oft k) (int j) = Some e" using present by simp
    have jn: "j < NBOFTENTRY" using present l(1) by simp
    let ?e = "e\<lparr>ToBeDeleted := True\<rparr>"
    let ?t = "(oft k)\<lparr>table := (table (oft k))[j := Some ?e]\<rparr>"
    have k': "oft k' = oft k \<or> oft k' = ?t"
      using r g present by (auto simp: OFT_Remove_def Let_def elim!: bind_Some_cases split: if_splits prod.splits)
    have e: "1 \<le> numthread e" "efile e \<noteq> None" using ok jn present(2) by (auto simp: oft_ok_def)
    have re: "refs name (oft k) = numthread e" using refs_at [OF l(2) present(1,2)] present(3) by simp
    have other: "ename a \<noteq> ename ?e" if "i < NBOFTENTRY" "i \<noteq> j" "table (oft k) ! i = Some a" for i a
      using that l present jn unfolding distinct_names_def by auto
    note s = oft_ok_set [OF ok jn _ _ _ other, where t' = ?t]
    have "oft_ok ?t" "refs n ?t = refs n (oft k)"
      using s nb_kept [OF ok jn present(2), of ?t] e present(2,3) re by auto
    then show ?thesis using k' ok by auto
  qed
qed

text \<open>Calls on the table, in any order.\<close>

inductive oft_run :: "config \<Rightarrow> 'a os_scheme \<Rightarrow> 'a os_scheme \<Rightarrow> bool" for cfg where
  run_nil: "oft_run cfg k k"
| run_open: "oft_run cfg k k1 \<Longrightarrow> OFT_Open cfg l name k1 = Some (r, k2) \<Longrightarrow> oft_run cfg k k2"
| run_close: "oft_run cfg k k1 \<Longrightarrow> OFT_Close cfg name k1 = Some k2 \<Longrightarrow> oft_run cfg k k2"
| run_remove: "oft_run cfg k k1 \<Longrightarrow> OFT_Remove cfg name k1 = Some (c, k2) \<Longrightarrow> oft_run cfg k k2"

lemma oft_run_ok: "oft_run cfg k k' \<Longrightarrow> oft_ok (oft k) \<Longrightarrow> oft_ok (oft k')"
  by (induction rule: oft_run.induct) (auto dest: Open_counts Close_counts Remove_counts)

lemma Open_full:
  assumes "oft_ok (oft k)" "nbentry (oft k) = - 1" "OFT_Open cfg l name k = Some (r, k')"
  shows "nbentry (oft k') = - 1"
  using assms(2,3) by (auto simp: OFT_Open_def Let_def set_entry_def elim!: bind_Some_cases split: if_splits)

lemma oft_run_full:
  "oft_run cfg k k' \<Longrightarrow> oft_ok (oft k) \<Longrightarrow> nbentry (oft k) = - 1 \<Longrightarrow> nbentry (oft k') = - 1"
proof (induction rule: oft_run.induct)
  case (run_open k k1 l name r k2)
  then show ?case using Open_full oft_run_ok by blast
next
  case (run_close k k1 name k2)
  then show ?case using Close_counts oft_run_ok by metis
next
  case (run_remove k k1 name c k2)
  then show ?case using Remove_counts oft_run_ok by metis
qed

subsection \<open>Properties\<close>

text \<open>
  C19. The table counts the opens and closes of every name: a successful \<open>Open\<close> adds one to
  its name and to no other, a failed one changes nothing, \<open>Close\<close> takes one away, \<open>Remove\<close>
  takes none. Names stay distinct, an entry is there exactly while its count is positive,
  and a \<open>Close\<close> that is not the last leaves the disk alone.
\<close>
theorem open_files_counted:
  assumes "oft_ok (oft k)"
  shows "(OFT_Open cfg l name k = Some (r, k1) \<longrightarrow> oft_ok (oft k1) \<and> fs k1 = fs k
      \<and> refs n (oft k1) = refs n (oft k) + of_bool (r \<noteq> None \<and> n = name))
    \<and> (OFT_Close cfg name k = Some k2 \<longrightarrow> oft_ok (oft k2)
      \<and> refs n (oft k2) = (if n = name then max 0 (refs n (oft k) - 1) else refs n (oft k))
      \<and> (1 < refs name (oft k) \<longrightarrow> fs k2 = fs k))
    \<and> (OFT_Remove cfg name k = Some (c, k3) \<longrightarrow> oft_ok (oft k3) \<and> refs n (oft k3) = refs n (oft k))"
proof -
  have "oft_ok (oft k1) \<and> fs k1 = fs k \<and> refs n (oft k1) = refs n (oft k) + of_bool (r \<noteq> None \<and> n = name)"
    if "OFT_Open cfg l name k = Some (r, k1)"
    using Open_counts [OF assms that, of n] by (cases r) auto
  moreover have "oft_ok (oft k2) \<and> refs n (oft k2) = (if n = name then max 0 (refs n (oft k) - 1) else refs n (oft k))
      \<and> (1 < refs name (oft k) \<longrightarrow> fs k2 = fs k)" if "OFT_Close cfg name k = Some k2"
    using Close_counts [OF assms that, of n] by blast
  moreover have "oft_ok (oft k3) \<and> refs n (oft k3) = refs n (oft k)" if "OFT_Remove cfg name k = Some (c, k3)"
    using Remove_counts [OF assms that, of n] by blast
  ultimately show ?thesis by blast
qed

text \<open>
  The table does not recover from being full: when the fifteenth file is opened
  \<open>nbentry\<close> becomes \<open>- 1\<close>, and no \<open>Close\<close> computes it again. From then on, whatever is
  closed, no file that is not in the table can be opened.
\<close>
theorem full_table_stays_full:
  assumes "oft_ok (oft k)" "nbentry (oft k) = - 1" "oft_run cfg k k'" "refs name (oft k') = 0"
  shows "OFT_Open cfg l name k' = Some (None, k')"
proof -
  have nb: "nbentry (oft k') = - 1" by (rule oft_run_full [OF assms(3,1,2)])
  have ok: "oft_ok (oft k')" by (rule oft_run_ok [OF assms(3,1)])
  have "findl name (oft k') = - 1"
  proof (cases rule: findl_cases [of name "oft k'"])
    case (present j e)
    then have "refs name (oft k') = numthread e" using refs_at [OF _ present(1,2)] ok by (simp add: oft_ok_def)
    moreover have "1 \<le> numthread e" using ok present(1,2) by (auto simp: oft_ok_def)
    ultimately show ?thesis using assms(4) by simp
  qed
  with nb show ?thesis by (simp add: OFT_Open_def)
qed

subsection \<open>Witnesses\<close>

text \<open>Fifteen open files, named by strings of different lengths.\<close>

definition demo_entry :: "nat \<Rightarrow> OpenFileTableEntry" where
  "demo_entry i = \<lparr>ename = replicate (Suc i) 97, efile = Some (tiny_file 0 []), numthread = 1, elock = 5,
     ToBeDeleted = False, esector = 2\<rparr>"

definition demo_os :: os where
  "demo_os = kernel.extend demo (os.fields tiny_fs \<lparr>table = map (Some \<circ> demo_entry) [0..<15], nbentry = - 1\<rparr>)"

lemma demo_os_parts:
  "oft demo_os = \<lparr>table = map (Some \<circ> demo_entry) [0..<15], nbentry = - 1\<rparr>"
  "locks demo_os 5 = Some \<lparr>sleepqueue = [], lfree = True, lowner = None\<rparr>"
  by (simp_all add: demo_os_def kernel.defs os.defs demo_def)

lemma demo_oft_ok: "oft_ok (oft demo_os)"
proof -
  have "table (oft demo_os) ! j = Some (demo_entry j)" if "j < 15" for j
    using that by (simp add: demo_os_parts del: upt.simps)
  moreover have "length (table (oft demo_os)) = 15" by (simp add: demo_os_parts)
  moreover have "ename (demo_entry i) = ename (demo_entry j) \<Longrightarrow> i = j" for i j
    by (simp add: demo_entry_def)
  ultimately show ?thesis
    unfolding oft_ok_def distinct_names_def NBOFTENTRY_def
    by (auto simp: demo_os_parts(1)) (auto simp: demo_entry_def)
qed

lemma demo_close: "\<exists>k. OFT_Close tiny_cfg [97] demo_os = Some k"
proof -
  have e: "table (oft demo_os) ! 0 = Some (demo_entry 0)" "0 < length (table (oft demo_os))"
    by (simp_all add: demo_os_parts del: upt.simps)
  have "distinct_names (table (oft demo_os))" using demo_oft_ok by (simp add: oft_ok_def)
  from findl_at [OF this e(2,1)] have f: "findl [97] (oft demo_os) = 0" by (simp add: demo_entry_def)
  have g: "get_entry (oft demo_os) 0 = Some (demo_entry 0)" using get_entry_nat [OF e(2)] e(1) by simp
  have "\<exists>t. set_entry 0 None (oft demo_os) = Some t" using set_entry_nat [OF e(2), of None] by simp
  then show ?thesis
    using f g demo_os_parts(2)
    by (auto simp: OFT_Close_def OpenFileTableEntry_delete_def Lock_delete_def demo_entry_def)
qed

theorem open_files_counted_witness:
  "\<exists>k. OFT_Close tiny_cfg [97] demo_os = Some k \<and> oft_ok (oft k) \<and> refs [97] (oft k) = max 0 (refs [97] (oft demo_os) - 1)"
  using demo_close open_files_counted [OF demo_oft_ok] by metis

theorem full_table_stays_full_witness:
  "\<exists>k. OFT_Close tiny_cfg [97] demo_os = Some k \<and> OFT_Open tiny_cfg 9 [97] k = Some (None, k)"
proof -
  obtain k where k: "OFT_Close tiny_cfg [97] demo_os = Some k" using demo_close by blast
  have r: "oft_run tiny_cfg demo_os k" by (rule run_close [OF run_nil k])
  have e: "table (oft demo_os) ! 0 = Some (demo_entry 0)" "0 < length (table (oft demo_os))"
    by (simp_all add: demo_os_parts del: upt.simps)
  have "distinct_names (table (oft demo_os))" using demo_oft_ok by (simp add: oft_ok_def)
  from refs_at [OF this e(2,1)] have "refs [97] (oft demo_os) = 1" by (simp add: demo_entry_def)
  then have "refs [97] (oft k) = 0" using Close_counts [OF demo_oft_ok k, of "[97]"] by simp
  from full_table_stays_full [OF demo_oft_ok _ r this, of 9] k show ?thesis by (auto simp: demo_os_parts)
qed

end
