(* ===== verification/Nachos_VM.thy ===== *)
theory Nachos_VM
  imports Nachos_OFTable Nachos_MMU
begin

text \<open>
  Virtual memory: the frames of the main memory (\<open>vm/physMem.cc\<close>), the swap area
  (\<open>vm/swapManager.cc\<close>), page faults (\<open>vm/pagefaultmanager.cc\<close>), and the creation and the
  end of processes, which fill and empty them (\<open>kernel/process.cc\<close>, the destructor of
  \<open>kernel/addrspace.cc\<close>).

  \<open>vm\<close> adds the open files as objects, the executable of a process, the table of frames
  \<open>tpr\<close> and the swap area. An address space is named by its process.

  A page fault may call \<open>Yield\<close> while it waits for a page under transfer or for an unlocked
  frame. What the other threads do until this one runs again is the argument \<open>others\<close>; a
  wait that does not end has no value. Transfers to disks are synchronous, as in the file
  system.
\<close>

subsection \<open>State\<close>

record tpr_c =
  tfree :: bool
  locked :: bool
  virtualPage :: int
  owner :: "nat option"

record vm = os +
  files :: "nat \<Rightarrow> OpenFile option"
  exec_file :: "nat \<Rightarrow> nat option"
  tpr :: "tpr_c list"
  free_page_list :: "int list"
  i_clock :: int
  page_flags :: bitmap
  swap_disk :: "byte list list"

type_synonym 'a vm_call = "'a vm_scheme \<Rightarrow> 'a vm_scheme option"

text \<open>The page table of an address space as an object.\<close>

definition tt_get :: "(TranslationTable \<Rightarrow> int \<Rightarrow> 'b option) \<Rightarrow> nat \<Rightarrow> int \<Rightarrow> 'a vm_scheme \<Rightarrow> 'b option" where
  "tt_get f a vp k = do { tt \<leftarrow> tables k a; f tt vp }"

definition tt_set :: "(TranslationTable \<Rightarrow> int \<Rightarrow> TranslationTable option) \<Rightarrow> nat \<Rightarrow> int \<Rightarrow> 'a vm_call" where
  "tt_set f a vp k = do { tt \<leftarrow> tables k a; tt' \<leftarrow> f tt vp; Some (k\<lparr>tables := (tables k)(a \<mapsto> tt')\<rparr>) }"

definition owner_table :: "nat option \<Rightarrow> 'a vm_scheme \<Rightarrow> nat option" where
  "owner_table own k = do { pid \<leftarrow> own; pr \<leftarrow> processes k pid; Some (ptable pr) }"

definition GetProcessOwner :: "nat \<Rightarrow> 'a vm_scheme \<Rightarrow> nat option" where
  "GetProcessOwner t k = do { th \<leftarrow> threads k t; t_process th }"

definition current_pid :: "'a vm_scheme \<Rightarrow> nat option" where
  "current_pid k = GetProcessOwner (g_current_thread k) k"

text \<open>The bytes of the main memory from a frame on.\<close>

definition frame_bytes :: "config \<Rightarrow> int \<Rightarrow> int \<Rightarrow> 'a vm_scheme \<Rightarrow> byte list option" where
  "frame_bytes cfg page count k = bufpart (mainMemory k) (page * PageSize cfg) count"

subsection \<open>The swap area\<close>

definition SwapManager_new :: "config \<Rightarrow> 'a vm_call" where
  "SwapManager_new cfg k = do { b \<leftarrow> BitMap_new cfg NUM_SECTORS; Some (k\<lparr>page_flags := b\<rparr>) }"

fun GetFreePage_from :: "nat \<Rightarrow> int \<Rightarrow> bitmap \<Rightarrow> (int \<times> bitmap) option" where
  "GetFreePage_from 0 i b = Some (- 1, b)"
| "GetFreePage_from (Suc n) i b = do {
     used \<leftarrow> BitMap_Test b i;
     if \<not> used then do { b' \<leftarrow> BitMap_Mark b i; Some (i, b') } else GetFreePage_from n (i + 1) b }"

definition GetFreePage :: "'a vm_scheme \<Rightarrow> (int \<times> 'a vm_scheme) option" where
  "GetFreePage k = do {
     (i, b) \<leftarrow> GetFreePage_from (nat NUM_SECTORS) 0 (page_flags k); Some (i, k\<lparr>page_flags := b\<rparr>) }"

definition ReleasePageSwap :: "int \<Rightarrow> 'a vm_call" where
  "ReleasePageSwap num_sector k = do {
     b \<leftarrow> BitMap_Clear (page_flags k) num_sector; Some (k\<lparr>page_flags := b\<rparr>) }"

text \<open>A sector is read into a page buffer.\<close>

definition GetPageSwap :: "int \<Rightarrow> byte list \<Rightarrow> 'a vm_scheme \<Rightarrow> byte list option" where
  "GetPageSwap num_sector SwapPage k = do { b \<leftarrow> ReadSector num_sector (swap_disk k); blit SwapPage 0 b }"

definition PutPageSwap :: "int \<Rightarrow> byte list \<Rightarrow> 'a vm_scheme \<Rightarrow> (int \<times> 'a vm_scheme) option" where
  "PutPageSwap num_sector SwapPage k =
     (if num_sector \<ge> 0
      then do { d \<leftarrow> WriteSector num_sector SwapPage (swap_disk k); Some (num_sector, k\<lparr>swap_disk := d\<rparr>) }
      else do {
        (newpage, k1) \<leftarrow> GetFreePage k;
        if newpage = - 1 then Some (- 1, k1)
        else do { d \<leftarrow> WriteSector newpage SwapPage (swap_disk k1); Some (newpage, k1\<lparr>swap_disk := d\<rparr>) } })"

subsection \<open>Frames\<close>

text \<open>\<open>virtualPage\<close> of a new entry comes from fresh memory.\<close>

definition PhysicalMemManager_new :: "config \<Rightarrow> 'a vm_scheme \<Rightarrow> 'a vm_scheme" where
  "PhysicalMemManager_new cfg k =
     k\<lparr>tpr := map (\<lambda>i. \<lparr>tfree = True, locked = False, virtualPage = fresh cfg i, owner = None\<rparr>) [0..<nat (NumPhysPages cfg)],
       free_page_list := map int [0..<nat (NumPhysPages cfg)], i_clock := - 1\<rparr>"

definition RemovePhysicalToVirtualMapping :: "int \<Rightarrow> 'a vm_call" where
  "RemovePhysicalToVirtualMapping num_page k = do {
     e \<leftarrow> aget (tpr k) num_page;
     if tfree e then None
     else do {
       t \<leftarrow> aset (tpr k) num_page (e\<lparr>tfree := True, locked := False\<rparr>);
       a \<leftarrow> owner_table (owner e) k;
       k1 \<leftarrow> (if tables k a \<noteq> None then tt_set clearBitValid a (virtualPage e) (k\<lparr>tpr := t\<rparr>)
             else Some (k\<lparr>tpr := t\<rparr>));
       Some (k1\<lparr>free_page_list := num_page # free_page_list k1\<rparr>) } }"

definition UnlockPage :: "config \<Rightarrow> int \<Rightarrow> 'a vm_call" where
  "UnlockPage cfg num_page k =
     (if num_page < NumPhysPages cfg
      then do {
        e \<leftarrow> aget (tpr k) num_page;
        if locked e \<and> \<not> tfree e
        then do { t \<leftarrow> aset (tpr k) num_page (e\<lparr>locked := False\<rparr>); Some (k\<lparr>tpr := t\<rparr>) }
        else None }
      else None)"

definition ChangeOwner :: "int \<Rightarrow> nat \<Rightarrow> 'a vm_call" where
  "ChangeOwner numPage t k = do {
     let k1 = stat_MemoryAccess k;
     e \<leftarrow> aget (tpr k1) numPage;
     pid \<leftarrow> GetProcessOwner t k1;
     tp \<leftarrow> aset (tpr k1) numPage (e\<lparr>owner := Some pid\<rparr>);
     Some (k1\<lparr>tpr := tp\<rparr>) }"

definition FindFreePage :: "'a vm_scheme \<Rightarrow> (int \<times> 'a vm_scheme) option" where
  "FindFreePage k =
     (case free_page_list k of
        [] \<Rightarrow> Some (- 1, k)
      | page # rest \<Rightarrow> (let k1 = (stat_MemoryAccess k)\<lparr>free_page_list := rest\<rparr> in do {
          e \<leftarrow> aget (tpr k1) page;
          if tfree e
          then do { t \<leftarrow> aset (tpr k1) page (e\<lparr>tfree := False\<rparr>); Some (page, k1\<lparr>tpr := t\<rparr>) }
          else None }))"

text \<open>
  The clock: a frame that is used or locked loses its bit \<open>U\<close> and is passed over. After
  more than a turn the thread gives up the processor before each further frame.
\<close>

partial_function (option) clock_loop ::
  "config \<Rightarrow> 'a vm_call \<Rightarrow> int \<Rightarrow> nat \<Rightarrow> 'a vm_scheme \<Rightarrow> (int \<times> 'a vm_scheme) option" where
  "clock_loop cfg others c i k = do {
     e \<leftarrow> aget (tpr k) c;
     a \<leftarrow> owner_table (owner e) k;
     used \<leftarrow> tt_get getBitU a (virtualPage e) k;
     if used \<or> locked e
     then do {
       k1 \<leftarrow> tt_set clearBitU a (virtualPage e) k;
       k2 \<leftarrow> (if NumPhysPages cfg < int (i + 1) then others (k1\<lparr>i_clock := c\<rparr>) else Some k1);
       clock_loop cfg others ((c + 1) smod NumPhysPages cfg) (i + 1) k2 }
     else Some (c, k) }"

text \<open>\<open>while (tt->getBitIo(vpn)) Yield();\<close>\<close>

partial_function (option) io_wait :: "'a vm_call \<Rightarrow> nat \<Rightarrow> int \<Rightarrow> 'a vm_call" where
  "io_wait others a vp k = do {
     busy \<leftarrow> tt_get getBitIo a vp k;
     if busy then do { k1 \<leftarrow> others k; io_wait others a vp k1 } else Some k }"

definition write_mapped :: "config \<Rightarrow> nat \<Rightarrow> int \<Rightarrow> nat \<Rightarrow> int \<Rightarrow> 'a vm_call" where
  "write_mapped cfg a vpn fid page k = do {
     dirty \<leftarrow> tt_get getBitM a vpn k;
     if dirty then do {
       ad \<leftarrow> tt_get getAddrDisk a vpn k;
       f \<leftarrow> files k fid;
       buf \<leftarrow> frame_bytes cfg page (PageSize cfg) k;
       (_, f', fs') \<leftarrow> WriteAt cfg buf (PageSize cfg) ad f (fs k);
       Some (k\<lparr>files := (files k)(fid \<mapsto> f'), fs := fs'\<rparr>) }
     else Some k }"

definition write_swap :: "config \<Rightarrow> nat \<Rightarrow> int \<Rightarrow> int \<Rightarrow> 'a vm_call" where
  "write_swap cfg a vpn page k = do {
     swapped \<leftarrow> tt_get getBitSwap a vpn k;
     if swapped then do {
       dirty \<leftarrow> tt_get getBitM a vpn k;
       if dirty then do {
         ad \<leftarrow> tt_get getAddrDisk a vpn k;
         k1 \<leftarrow> tt_set (\<lambda>tt vp. setAddrDisk tt vp (- 1)) a vpn k;
         buf \<leftarrow> frame_bytes cfg page (SectorSize cfg) k1;
         (_, k2) \<leftarrow> PutPageSwap ad buf k1;
         tt_set (\<lambda>tt vp. setAddrDisk tt vp ad) a vpn k2 }
       else Some k }
     else do {
       k1 \<leftarrow> tt_set (\<lambda>tt vp. setAddrDisk tt vp (- 1)) a vpn k;
       buf \<leftarrow> frame_bytes cfg page (SectorSize cfg) k1;
       (swapAddr, k2) \<leftarrow> PutPageSwap (- 1) buf k1;
       k3 \<leftarrow> tt_set (\<lambda>tt vp. setAddrDisk tt vp swapAddr) a vpn k2;
       tt_set setBitSwap a vpn k3 } }"

text \<open>The mapped files are looked up in the address space of the current thread.\<close>

definition EvictPage :: "config \<Rightarrow> 'a vm_call \<Rightarrow> 'a vm_scheme \<Rightarrow> (int \<times> 'a vm_scheme) option" where
  "EvictPage cfg others k = do {
     (c, k1) \<leftarrow> clock_loop cfg others ((i_clock k + 1) smod NumPhysPages cfg) 0 k;
     e \<leftarrow> aget (tpr k1) c;
     a \<leftarrow> owner_table (owner e) k1;
     let vpn = virtualPage e;
     k2 \<leftarrow> tt_set clearBitValid a vpn (k1\<lparr>i_clock := c\<rparr>);
     t \<leftarrow> aset (tpr k2) c (e\<lparr>locked := True\<rparr>);
     k3 \<leftarrow> io_wait others a vpn (k2\<lparr>tpr := t\<rparr>);
     k4 \<leftarrow> tt_set setBitIo a vpn k3;
     pid \<leftarrow> current_pid k4;
     pr \<leftarrow> processes k4 pid;
     f \<leftarrow> findMappedFile cfg (vpn * PageSize cfg) (addrspace pr);
     k5 \<leftarrow> (case f of Some fid \<Rightarrow> write_mapped cfg a vpn fid c k4 | None \<Rightarrow> write_swap cfg a vpn c k4);
     k6 \<leftarrow> ChangeOwner c (g_current_thread k5) k5;
     k7 \<leftarrow> tt_set clearBitIo a vpn k6;
     Some (c, k7) }"

definition AddPhysicalToVirtualMapping ::
  "config \<Rightarrow> 'a vm_call \<Rightarrow> nat \<Rightarrow> int \<Rightarrow> 'a vm_scheme \<Rightarrow> (int \<times> 'a vm_scheme) option" where
  "AddPhysicalToVirtualMapping cfg others own vp k = do {
     (page0, k1) \<leftarrow> FindFreePage k;
     (page, k2) \<leftarrow> (if page0 = - 1 then EvictPage cfg others k1 else Some (page0, k1));
     e \<leftarrow> aget (tpr k2) page;
     t \<leftarrow> aset (tpr k2) page (e\<lparr>virtualPage := vp, owner := Some own, locked := True\<rparr>);
     Some (page, k2\<lparr>tpr := t\<rparr>) }"

subsection \<open>Page faults\<close>

partial_function (option) sector_wait ::
  "'a vm_call \<Rightarrow> nat \<Rightarrow> int \<Rightarrow> int \<Rightarrow> 'a vm_scheme \<Rightarrow> (int \<times> 'a vm_scheme) option" where
  "sector_wait others a vp num_sector k =
     (if num_sector = - 1
      then do { k1 \<leftarrow> others k; n \<leftarrow> tt_get getAddrDisk a vp k1; sector_wait others a vp n k1 }
      else Some (num_sector, k))"

text \<open>A new page buffer, with what the memory held; then what a page is loaded from.\<close>

definition new_page :: "config \<Rightarrow> byte list" where
  "new_page cfg = map (\<lambda>i. word_of_int (fresh cfg i)) [0..<nat (PageSize cfg)]"

definition read_file :: "config \<Rightarrow> nat \<Rightarrow> int \<Rightarrow> byte list \<Rightarrow> 'a vm_scheme \<Rightarrow> byte list option" where
  "read_file cfg fid ad buffer k = do {
     f \<leftarrow> files k fid;
     bs \<leftarrow> ReadAt cfg (hdr f) (PageSize cfg) ad (sectors (fs k));
     blit buffer 0 bs }"

definition load_page ::
  "config \<Rightarrow> 'a vm_call \<Rightarrow> nat \<Rightarrow> int \<Rightarrow> nat option \<Rightarrow> int \<Rightarrow> 'a vm_scheme \<Rightarrow> (byte list \<times> 'a vm_scheme) option" where
  "load_page cfg others a vp f ad k =
     (case f of
        Some fid \<Rightarrow> do { b \<leftarrow> read_file cfg fid ad (new_page cfg) k; Some (b, k) }
      | None \<Rightarrow> do {
          swapped \<leftarrow> tt_get getBitSwap a vp k;
          num_sector \<leftarrow> tt_get getAddrDisk a vp k;
          if \<not> swapped
          then (if num_sector = - 1 then Some (replicate (nat (PageSize cfg)) 0, k)
                else do {
                  pid \<leftarrow> current_pid k;
                  fid \<leftarrow> exec_file k pid;
                  b \<leftarrow> read_file cfg fid ad (new_page cfg) k;
                  Some (b, k) })
          else do {
            (n, k1) \<leftarrow> sector_wait others a vp num_sector k;
            b \<leftarrow> GetPageSwap n (new_page cfg) k1;
            Some (b, k1) } })"

definition PageFault ::
  "config \<Rightarrow> 'a vm_call \<Rightarrow> int \<Rightarrow> 'a vm_scheme \<Rightarrow> (ExceptionType \<times> 'a vm_scheme) option" where
  "PageFault cfg others vp k = do {
     a \<leftarrow> mmu_table k;
     as \<leftarrow> current_pid k;
     k1 \<leftarrow> io_wait others a vp k;
     present \<leftarrow> tt_get getBitValid a vp k1;
     if present then Some (NO_EXCEPTION, k1)
     else do {
       k2 \<leftarrow> tt_set setBitIo a vp k1;
       ad \<leftarrow> tt_get getAddrDisk a vp k2;
       pr \<leftarrow> processes k2 as;
       f \<leftarrow> findMappedFile cfg (vp * PageSize cfg) (addrspace pr);
       (buffer, k3) \<leftarrow> load_page cfg others a vp f ad k2;
       pid \<leftarrow> current_pid k3;
       (physPage, k4) \<leftarrow> AddPhysicalToVirtualMapping cfg others pid vp k3;
       mem \<leftarrow> blit (mainMemory k4) (physPage * PageSize cfg) buffer;
       k5 \<leftarrow> tt_set (\<lambda>tt vp. setPhysicalPage tt vp physPage) a vp (k4\<lparr>mainMemory := mem\<rparr>);
       k6 \<leftarrow> tt_set clearBitIo a vp k5;
       k7 \<leftarrow> tt_set clearBitM a vp k6;
       k8 \<leftarrow> tt_set setBitU a vp k7;
       k9 \<leftarrow> tt_set setBitValid a vp k8;
       k10 \<leftarrow> UnlockPage cfg physPage k9;
       Some (NO_EXCEPTION, k10) } }"

subsection \<open>Processes\<close>

text \<open>The turn of the destructor of an address space for page \<open>i\<close>.\<close>

definition delete_page :: "config \<Rightarrow> nat AddrSpace \<Rightarrow> nat \<Rightarrow> nat \<Rightarrow> 'a vm_call" where
  "delete_page cfg as a i k = do {
     present \<leftarrow> tt_get getBitValid a (int i) k;
     k2 \<leftarrow> (if present then do {
         f \<leftarrow> findMappedFile cfg (int i * PageSize cfg) as;
         page \<leftarrow> tt_get getPhysicalPage a (int i) k;
         k1 \<leftarrow> (case f of Some fid \<Rightarrow> write_mapped cfg a (int i) fid page k | None \<Rightarrow> Some k);
         RemovePhysicalToVirtualMapping page k1 }
       else Some k);
     swapped \<leftarrow> tt_get getBitSwap a (int i) k2;
     if swapped then do {
       ad \<leftarrow> tt_get getAddrDisk a (int i) k2;
       if ad \<ge> 0 then ReleasePageSwap ad k2 else Some k2 }
     else Some k2 }"

definition AddrSpace_delete :: "config \<Rightarrow> nat \<Rightarrow> 'a vm_call" where
  "AddrSpace_delete cfg pid k = do {
     pr \<leftarrow> processes k pid;
     if tables k (ptable pr) \<noteq> None then do {
       k1 \<leftarrow> foldM (delete_page cfg (addrspace pr) (ptable pr)) [0..<nat (freePageId (addrspace pr))] k;
       Some (k1\<lparr>tables := (tables k1)(ptable pr := None)\<rparr>) }
     else Some k }"

definition Process_delete :: "config \<Rightarrow> nat \<Rightarrow> 'a vm_call" where
  "Process_delete cfg pid k = do {
     pr \<leftarrow> processes k pid;
     if numThreads pr = 0 then do {
       k1 \<leftarrow> AddrSpace_delete cfg pid k;
       let fls = (case exec_file k1 pid of None \<Rightarrow> files k1 | Some fid \<Rightarrow> (files k1)(fid := None));
       Some (k1\<lparr>files := fls, processes := (processes k1)(pid := None)\<rparr>) }
     else None }"

text \<open>
  The constructor. \<open>pid\<close>, \<open>a\<close> and \<open>fid\<close> are the addresses of the process, its page table and
  the open executable. A process whose executable does not open has no address space.
\<close>

definition Process_new ::
  "config \<Rightarrow> nat \<Rightarrow> nat \<Rightarrow> nat \<Rightarrow> byte list option \<Rightarrow> 'a vm_scheme \<Rightarrow> (ErrorCode \<times> 'a vm_scheme) option" where
  "Process_new cfg pid a fid filename k =
     (if processes k pid \<noteq> None \<or> tables k a \<noteq> None \<or> files k fid \<noteq> None then None
      else let k1 = k\<lparr>process_stat := (process_stat k)(pid := ProcessStat_new)\<rparr> in
      (case filename of
         None \<Rightarrow> do {
           (as, tt, k2) \<leftarrow> AddrSpace_new cfg None (sectors (fs k1)) k1;
           Some (NoError, k2\<lparr>exec_file := (exec_file k2)(pid := None), tables := (tables k2)(a \<mapsto> tt),
             processes := (processes k2)(pid \<mapsto> \<lparr>numThreads = 0, addrspace = as, ptable = a\<rparr>)\<rparr>) }
       | Some name \<Rightarrow> do {
           opened \<leftarrow> FileSystem_Open cfg name (fs k1);
           (case opened of
              None \<Rightarrow> Some (InexistFileError, k1)
            | Some f \<Rightarrow> do {
                (as, tt, k2) \<leftarrow> AddrSpace_new cfg (Some (hdr f)) (sectors (fs k1)) k1;
                Some (NoError, k2\<lparr>files := (files k2)(fid \<mapsto> f), exec_file := (exec_file k2)(pid \<mapsto> fid),
                  tables := (tables k2)(a \<mapsto> tt),
                  processes := (processes k2)(pid \<mapsto> \<lparr>numThreads = 0, addrspace = as, ptable = a\<rparr>)\<rparr>) }) }))"

end
