(* ===== verification/Nachos_ObjId.thy ===== *)
theory Nachos_ObjId
  imports Nachos_VM
begin

text \<open>
  What the system calls keep beside the kernel: the identifiers of objects
  (\<open>utility/objid.h\<close>) and the error of the last call (\<open>kernel/msgerror.cc\<close>).
\<close>

subsection \<open>Identifiers\<close>

text \<open>
  A pointer with the class of the object it points to. \<open>last_id\<close> is an \<open>int\<close> of 32 bits; past
  the last of them there is no value.
\<close>

datatype kobject = O_thread nat | O_file nat | O_semaphore nat | O_lock nat | O_condition nat

record objid =
  last_id :: int
  ids :: "int \<Rightarrow> kobject option"

definition ObjId_new :: objid where
  "ObjId_new = \<lparr>last_id = 3, ids = (\<lambda>_. None)\<rparr>"

definition AddObject :: "kobject \<Rightarrow> objid \<Rightarrow> (int \<times> objid) option" where
  "AddObject ptr d =
     (if last_id d < 2 ^ 31 - 1
      then Some (last_id d, d\<lparr>last_id := last_id d + 1, ids := (ids d)(last_id d \<mapsto> ptr)\<rparr>) else None)"

definition SearchObject :: "int \<Rightarrow> objid \<Rightarrow> kobject option" where
  "SearchObject i d = ids d i"

definition RemoveObject :: "int \<Rightarrow> objid \<Rightarrow> objid" where
  "RemoveObject i d = d\<lparr>ids := (ids d)(i := None)\<rparr>"

subsection \<open>Error messages\<close>

primrec error_number :: "ErrorCode \<Rightarrow> int" where
  "error_number NoError = 0"
| "error_number IncError = 1"
| "error_number OpenFileError = 2"
| "error_number ExecFileFormatError = 3"
| "error_number OutOfMemory = 4"
| "error_number OutOfDisk = 5"
| "error_number AlreadyInDirectory = 6"
| "error_number InexistFileError = 7"
| "error_number InexistDirectoryError = 8"
| "error_number NoSpaceInDirectory = 9"
| "error_number NotAFile = 10"
| "error_number NotADirectory = 11"
| "error_number DirectoryNotEmpty = 12"
| "error_number InvalidSemaphoreId = 13"
| "error_number InvalidLockId = 14"
| "error_number InvalidConditionId = 15"
| "error_number InvalidFileId = 16"
| "error_number InvalidThreadId = 17"
| "error_number NoACIA = 18"

definition NUMMSGERROR :: int where "NUMMSGERROR = 19"

record syscall_error =
  lastError :: int
  errorAbout :: "byte list option"
  msgs :: "string option list"

definition newline :: string where
  "newline = [CHR 0x0A]"

definition SyscallError_new :: syscall_error where
  "SyscallError_new = \<lparr>lastError = error_number NoError, errorAbout = None,
     msgs = map Some
      [''no error %s '' @ newline,
       ''incorrect error type %s '' @ newline,
       ''unable to open file %s '' @ newline,
       ''file %s is not a valid executable file (not in ELF format)'' @ newline,
       ''out of memory %s'' @ newline,
       ''out of disk space %s'' @ newline,
       ''file or directory %s already exists'' @ newline,
       ''file %s does not exist or is a directory'' @ newline,
       ''directory %s does not exist or is a file'' @ newline,
       ''maximum number of entries in directory %s reached'' @ newline,
       ''%s is not a file'' @ newline,
       ''%s is not a directory'' @ newline,
       ''directory %s is not empty'' @ newline,
       ''invalid semaphore identifier %s'' @ newline,
       ''invalid lock identifier %s'' @ newline,
       ''invalid condition identifier %s'' @ newline,
       ''invalid file identifier %s'' @ newline,
       ''invalid thread identifier %s'' @ newline,
       ''no ACIA driver installed %s'' @ newline]\<rparr>"

text \<open>The second test has no \<open>else\<close>: a number out of range is an index out of the array.\<close>

definition SetMsg :: "byte list option \<Rightarrow> int \<Rightarrow> syscall_error \<Rightarrow> syscall_error option" where
  "SetMsg about num e =
     (let e1 = e\<lparr>errorAbout := about\<rparr>;
          e2 = (if num < 0 \<or> num \<ge> NUMMSGERROR then e1\<lparr>lastError := error_number IncError\<rparr> else e1)
      in do {
        m \<leftarrow> aget (msgs e2) num;
        Some (case m of None \<Rightarrow> e2\<lparr>lastError := error_number IncError\<rparr> | Some _ \<Rightarrow> e2\<lparr>lastError := num\<rparr>) })"

definition GetFormat :: "int \<Rightarrow> syscall_error \<Rightarrow> string option" where
  "GetFormat num e =
     (let n1 = (if num < 0 \<or> num \<ge> NUMMSGERROR then error_number IncError else num) in do {
        m \<leftarrow> aget (msgs e) n1;
        m' \<leftarrow> aget (msgs e) (if m = None then error_number IncError else n1);
        m' })"

text \<open>\<open>sprintf\<close> with a format that has one directive, \<open>%s\<close>.\<close>

fun sprintf_s :: "string \<Rightarrow> byte list \<Rightarrow> byte list" where
  "sprintf_s [] arg = []"
| "sprintf_s (c # cs) arg =
     (if c = CHR ''%'' \<and> take 1 cs = ''s'' then arg @ sprintf_s (tl cs) arg else of_char c # sprintf_s cs arg)"

text \<open>
  The three strings that go to the console. Without an \<open>errorAbout\<close>, and when the message does
  not fit in its buffer, there is no value.
\<close>

definition PrintLastMsg :: "byte list \<Rightarrow> syscall_error \<Rightarrow> byte list list option" where
  "PrintLastMsg ch e = do {
     m \<leftarrow> aget (msgs e) (lastError e);
     format \<leftarrow> m;
     about \<leftarrow> errorAbout e;
     let sz = length format + length about + 1;
     let msg = sprintf_s format about;
     if length msg + 1 \<le> sz then Some [ch, map of_char '' : '', msg] else None }"

end
