(* ===== verification/Nachos_Syscalls.thy ===== *)
theory Nachos_Syscalls
  imports Nachos_ObjId
begin

text \<open>
  The exception handler and the system calls (\<open>kernel/exception.cc\<close>).

  A system call reads its arguments from the registers and from user memory, where it may
  meet page faults. A call that gives up the processor is completed when its thread runs
  again: \<open>rests\<close> has what is left of it, which \<open>sys_resume\<close> does after the call of the kernel.
  The objects that a call creates are at the address \<open>l\<close>, in the table of their class.

  The drivers of the console and of the serial line are arguments, in \<open>drivers\<close>: what they
  return and the state once they have returned; with them, \<open>others\<close>, what the other threads do
  while this one waits in a page fault. The functions that end the simulator have no value.

  \<open>delete\<close> marks an object with \<open>INVALID_TYPE_ID\<close>. A pointer to a deleted object thus fails
  the tests of \<open>typeId\<close>, until its memory is used again, by an object of any class; here
  addresses are used again by objects of the same class only.
\<close>

subsection \<open>State\<close>

datatype rest = Rest_zero | Rest_yield | Rest_exit

record nachos = vm +
  g_object_ids :: objid
  g_syscall_error :: syscall_error
  rests :: "nat \<Rightarrow> rest option"

type_synonym 'a ncall = "'a nachos_scheme \<Rightarrow> 'a nachos_scheme option"

record 'k drivers =
  others :: "'k \<Rightarrow> 'k option"
  PutString :: "byte list \<Rightarrow> 'k \<Rightarrow> 'k option"
  GetString :: "int \<Rightarrow> 'k \<Rightarrow> (byte list \<times> 'k) option"
  has_ACIA :: bool
  TtySend :: "byte list \<Rightarrow> 'k \<Rightarrow> (int \<times> 'k) option"
  TtyReceive :: "int \<Rightarrow> 'k \<Rightarrow> (int \<times> byte list \<times> 'k) option"

definition add_object :: "kobject \<Rightarrow> 'a nachos_scheme \<Rightarrow> (int \<times> 'a nachos_scheme) option" where
  "add_object ptr k = do { (i, d) \<leftarrow> AddObject ptr (g_object_ids k); Some (i, k\<lparr>g_object_ids := d\<rparr>) }"

definition search_object :: "u32 \<Rightarrow> 'a nachos_scheme \<Rightarrow> kobject option" where
  "search_object i k = SearchObject (sint i) (g_object_ids k)"

definition set_msg :: "byte list \<Rightarrow> ErrorCode \<Rightarrow> 'a ncall" where
  "set_msg about num k = do {
     e \<leftarrow> SetMsg (Some about) (error_number num) (g_syscall_error k); Some (k\<lparr>g_syscall_error := e\<rparr>) }"

text \<open>The two ends of most calls.\<close>

definition succeed :: "u32 \<Rightarrow> 'a ncall" where
  "succeed v k = do { k1 \<leftarrow> set_msg [] NoError k; WriteIntRegister 2 v k1 }"

definition fail_with :: "byte list \<Rightarrow> ErrorCode \<Rightarrow> 'a ncall" where
  "fail_with about err k = do { k1 \<leftarrow> set_msg about err k; WriteIntRegister 2 (- 1) k1 }"

definition error_text :: "byte list" where
  "error_text = map of_char ''Error''"

subsection \<open>The exception handler on faults\<close>

definition fault_handler :: "config \<Rightarrow> 'a ncall \<Rightarrow> ExceptionType \<Rightarrow> u32 \<Rightarrow> 'a ncall" where
  "fault_handler cfg oth which vaddr k =
     (case which of
        PAGEFAULT_EXCEPTION \<Rightarrow> do {
          (e, k1) \<leftarrow> PageFault cfg oth (sint vaddr sdiv PageSize cfg) k;
          if e \<noteq> NO_EXCEPTION then None else Some k1 }
      | _ \<Rightarrow> None)"

subsection \<open>Arguments in user memory\<close>

text \<open>
  A byte as an \<open>int\<close>. A failed access has raised an exception that is not a page fault, and
  the simulator has ended.
\<close>

definition user_byte :: "config \<Rightarrow> 'a ncall \<Rightarrow> u32 \<Rightarrow> 'a nachos_scheme \<Rightarrow> (u32 \<times> 'a nachos_scheme) option" where
  "user_byte cfg oth addr k = do { (v, k1) \<leftarrow> ReadMem cfg (fault_handler cfg oth) addr 1 k; c \<leftarrow> v; Some (c, k1) }"

partial_function (option) length_from ::
  "config \<Rightarrow> 'a ncall \<Rightarrow> u32 \<Rightarrow> int \<Rightarrow> 'a nachos_scheme \<Rightarrow> (int \<times> 'a nachos_scheme) option" where
  "length_from cfg oth addr i k = do {
     (c, k1) \<leftarrow> user_byte cfg oth addr k;
     if c \<noteq> 0 then length_from cfg oth (addr + 1) (i + 1) k1 else Some (i + 1, k1) }"

definition GetLengthParam ::
  "config \<Rightarrow> 'a ncall \<Rightarrow> u32 \<Rightarrow> 'a nachos_scheme \<Rightarrow> (int \<times> 'a nachos_scheme) option" where
  "GetLengthParam cfg oth addr k = do { (i, k1) \<leftarrow> length_from cfg oth addr 0 k; Some (i + 1, k1) }"

fun string_from ::
  "config \<Rightarrow> 'a ncall \<Rightarrow> nat \<Rightarrow> u32 \<Rightarrow> 'a nachos_scheme \<Rightarrow> (byte list \<times> 'a nachos_scheme) option" where
  "string_from cfg oth 0 addr k = Some ([], k)"
| "string_from cfg oth (Suc n) addr k = do {
     (c, k1) \<leftarrow> user_byte cfg oth addr k;
     if c \<noteq> 0 then do { (s, k2) \<leftarrow> string_from cfg oth n (addr + 1) k1; Some (ucast c # s, k2) }
     else Some ([ucast c], k1) }"

text \<open>
  The result is the C string in \<open>dest\<close>. Its last byte is cleared; when the loop ended before,
  that byte is behind the end of the string.
\<close>

definition GetStringParam ::
  "config \<Rightarrow> 'a ncall \<Rightarrow> u32 \<Rightarrow> int \<Rightarrow> 'a nachos_scheme \<Rightarrow> (byte list \<times> 'a nachos_scheme) option" where
  "GetStringParam cfg oth addr maxlen k = do {
     (dest, k1) \<leftarrow> string_from cfg oth (nat maxlen) addr k;
     Some (cstring (dest[nat (maxlen - 1) := 0]), k1) }"

definition string_arg :: "config \<Rightarrow> 'a ncall \<Rightarrow> u32 \<Rightarrow> 'a nachos_scheme \<Rightarrow> (byte list \<times> 'a nachos_scheme) option" where
  "string_arg cfg oth addr k = do { (n, k1) \<leftarrow> GetLengthParam cfg oth addr k; GetStringParam cfg oth addr n k1 }"

fun read_user :: "config \<Rightarrow> 'a ncall \<Rightarrow> nat \<Rightarrow> u32 \<Rightarrow> 'a nachos_scheme \<Rightarrow> (byte list \<times> 'a nachos_scheme) option" where
  "read_user cfg oth 0 addr k = Some ([], k)"
| "read_user cfg oth (Suc n) addr k = do {
     (c, k1) \<leftarrow> user_byte cfg oth addr k;
     (bs, k2) \<leftarrow> read_user cfg oth n (addr + 1) k1;
     Some (ucast c # bs, k2) }"

fun write_user :: "config \<Rightarrow> 'a ncall \<Rightarrow> byte list \<Rightarrow> u32 \<Rightarrow> 'a ncall" where
  "write_user cfg oth [] addr k = Some k"
| "write_user cfg oth (b # bs) addr k = do {
     (_, k1) \<leftarrow> WriteMem cfg (fault_handler cfg oth) addr 1 (scast b) k;
     write_user cfg oth bs (addr + 1) k1 }"

subsection \<open>After the call\<close>

definition advance_pc :: "'a nachos_scheme \<Rightarrow> 'a nachos_scheme" where
  "advance_pc k =
     (let k1 = setR PREVPC_REG (R k PC_REG) k; k2 = setR PC_REG (R k1 NEXTPC_REG) k1
      in setR NEXTPC_REG (R k2 NEXTPC_REG + 4) k2)"

definition complete :: "rest \<Rightarrow> 'a ncall" where
  "complete r k = map_option advance_pc
     (case r of
        Rest_zero \<Rightarrow> succeed 0 k
      | Rest_yield \<Rightarrow> set_msg [] NoError k
      | Rest_exit \<Rightarrow> Some k)"

definition returns :: "'a nachos_scheme option \<Rightarrow> 'a nachos_scheme outcome option" where
  "returns k = map_option (\<lambda>k. Returned (advance_pc k)) k"

text \<open>A call of thread \<open>t\<close> that may switch, and what is left then.\<close>

definition blocking :: "rest \<Rightarrow> nat \<Rightarrow> 'a nachos_scheme outcome option \<Rightarrow> 'a nachos_scheme outcome option" where
  "blocking r t call = do {
     out \<leftarrow> call;
     (case out of
        Returned k \<Rightarrow> map_option Returned (complete r k)
      | Switched k \<Rightarrow> Some (Switched (k\<lparr>rests := (rests k)(t \<mapsto> r)\<rparr>))) }"

definition sys_resume :: "'a nachos_scheme \<Rightarrow> 'a nachos_scheme outcome option" where
  "sys_resume k = do {
     let t = g_current_thread k;
     out \<leftarrow> resume_thread k;
     (case out of
        Switched k' \<Rightarrow> Some (Switched k')
      | Returned k' \<Rightarrow> (case rests k' t of
          None \<Rightarrow> Some (Returned k')
        | Some r \<Rightarrow> map_option Returned (complete r (k'\<lparr>rests := (rests k')(t := None)\<rparr>)))) }"

subsection \<open>Time, processes and threads\<close>

definition sys_time :: "config \<Rightarrow> 'a ncall \<Rightarrow> 'a ncall" where
  "sys_time cfg oth k = do {
     addr \<leftarrow> ReadIntRegister 4 k;
     let tick = totalTicks (g_stats k);
     let frequency = nat (ProcessorFrequency cfg);
     if frequency = 0 then None
     else do {
       (_, k1) \<leftarrow> WriteMem cfg (fault_handler cfg oth) addr 4 (of_nat (cycle_to_sec tick frequency)) k;
       (_, k2) \<leftarrow> WriteMem cfg (fault_handler cfg oth) (addr + 4) 4 (of_nat (cycle_to_nano tick frequency)) k1;
       set_msg [] NoError k2 } }"

definition sys_exit :: "'a nachos_scheme \<Rightarrow> 'a nachos_scheme outcome option" where
  "sys_exit k =
     (if threads k (g_current_thread k) \<noteq> None
      then blocking Rest_exit (g_current_thread k) (Thread_Finish k) else None)"

definition master_name :: "byte list \<Rightarrow> byte list option" where
  "master_name ch =
     (let name = map of_char ''master thread of process '' @ ch
      in if length name < MAXSTRLEN then Some name else None)"

text \<open>\<open>Start\<close> always returns \<open>NoError\<close>: the branch for its errors is never taken.\<close>

definition sys_exec :: "config \<Rightarrow> 'a ncall \<Rightarrow> nat \<Rightarrow> 'a ncall" where
  "sys_exec cfg oth l k = do {
     addr \<leftarrow> ReadIntRegister 4 k;
     (ch, k1) \<leftarrow> string_arg cfg oth addr k;
     name \<leftarrow> master_name ch;
     (error, k2) \<leftarrow> Process_new cfg l l l (Some ch) k1;
     if error \<noteq> NoError then fail_with (if error = OutOfMemory then [] else ch) error k2
     else do {
       k3 \<leftarrow> Thread_new cfg l k2;
       (tid, k4) \<leftarrow> add_object (O_thread l) k3;
       pr \<leftarrow> processes k4 l;
       k5 \<leftarrow> Thread_Start cfg l l (CodeStartAddress (addrspace pr)) (- 1) k4;
       succeed (word_of_int tid) k5 } }"

definition sys_new_thread :: "config \<Rightarrow> 'a ncall \<Rightarrow> nat \<Rightarrow> 'a ncall" where
  "sys_new_thread cfg oth l k = do {
     name_addr \<leftarrow> ReadIntRegister 4 k;
     f \<leftarrow> ReadIntRegister 5 k;
     arg \<leftarrow> ReadIntRegister 6 k;
     (thr_name, k1) \<leftarrow> string_arg cfg oth name_addr k;
     k2 \<leftarrow> Thread_new cfg l k1;
     (tid, k3) \<leftarrow> add_object (O_thread l) k2;
     pid \<leftarrow> current_pid k3;
     k4 \<leftarrow> Thread_Start cfg l pid f arg k3;
     succeed (word_of_int tid) k4 }"

definition is_thread :: "kobject option \<Rightarrow> 'a nachos_scheme \<Rightarrow> nat option" where
  "is_thread p k = (case p of Some (O_thread t) \<Rightarrow> if threads k t \<noteq> None then Some t else None | _ \<Rightarrow> None)"

definition sys_join :: "'a nachos_scheme \<Rightarrow> 'a nachos_scheme outcome option" where
  "sys_join k = do {
     tid \<leftarrow> ReadIntRegister 4 k;
     (case is_thread (search_object tid k) k of
        Some t \<Rightarrow> blocking Rest_zero (g_current_thread k) (Thread_Join t k)
      | None \<Rightarrow> returns (succeed 0 k)) }"

definition sys_yield :: "'a nachos_scheme \<Rightarrow> 'a nachos_scheme outcome option" where
  "sys_yield k =
     (if threads k (g_current_thread k) \<noteq> None
      then blocking Rest_yield (g_current_thread k) (Thread_Yield k) else None)"

definition sys_perror :: "config \<Rightarrow> 'a nachos_scheme drivers \<Rightarrow> 'a ncall" where
  "sys_perror cfg d k = do {
     addr \<leftarrow> ReadIntRegister 4 k;
     (ch, k1) \<leftarrow> string_arg cfg (others d) addr k;
     texts \<leftarrow> PrintLastMsg ch (g_syscall_error k1);
     foldM (PutString d) texts k1 }"

subsection \<open>Files\<close>

definition sys_create :: "config \<Rightarrow> 'a ncall \<Rightarrow> 'a ncall" where
  "sys_create cfg oth k = do {
     addr \<leftarrow> ReadIntRegister 4 k;
     sz \<leftarrow> ReadIntRegister 5 k;
     (ch, k1) \<leftarrow> string_arg cfg oth addr k;
     (err, fs1) \<leftarrow> Create cfg ch (sint sz) (fs k1);
     let k2 = k1\<lparr>fs := fs1\<rparr>;
     if err = NoError then succeed 0 k2 else fail_with (if err = OutOfDisk then [] else ch) err k2 }"

definition sys_open :: "config \<Rightarrow> 'a ncall \<Rightarrow> nat \<Rightarrow> 'a ncall" where
  "sys_open cfg oth l k = do {
     addr \<leftarrow> ReadIntRegister 4 k;
     (ch, k1) \<leftarrow> string_arg cfg oth addr k;
     (opened, k2) \<leftarrow> OFT_Open cfg l ch k1;
     (case opened of
        None \<Rightarrow> fail_with ch OpenFileError k2
      | Some f \<Rightarrow>
          if files k2 l \<noteq> None then None
          else do {
            (fid, k3) \<leftarrow> add_object (O_file l) (k2\<lparr>files := (files k2)(l \<mapsto> f)\<rparr>);
            succeed (word_of_int fid) k3 }) }"

definition is_file :: "kobject option \<Rightarrow> 'a nachos_scheme \<Rightarrow> nat option" where
  "is_file p k = (case p of Some (O_file f) \<Rightarrow> if files k f \<noteq> None then Some f else None | _ \<Rightarrow> None)"

text \<open>A local array has a size that is not negative.\<close>

definition sys_read :: "config \<Rightarrow> 'a nachos_scheme drivers \<Rightarrow> 'a ncall" where
  "sys_read cfg d k = do {
     addr \<leftarrow> ReadIntRegister 4 k;
     sz \<leftarrow> ReadIntRegister 5 k;
     f \<leftarrow> ReadIntRegister 6 k;
     if sint sz < 0 then None
     else do {
       (numread, bytes, k1) \<leftarrow>
         (if f \<noteq> 0 then
            (case is_file (search_object f k) k of
               Some fid \<Rightarrow> do {
                 file \<leftarrow> files k fid;
                 (bs, file') \<leftarrow> Read cfg (sint sz) file (sectors (fs k));
                 k1 \<leftarrow> set_msg [] NoError (k\<lparr>files := (files k)(fid \<mapsto> file')\<rparr>);
                 Some (int (length bs), bs, k1) }
             | None \<Rightarrow> do { k1 \<leftarrow> set_msg (decimal (sint f)) InvalidFileId k; Some (- 1, [], k1) })
          else do {
            (bs, k1) \<leftarrow> GetString d (sint sz) k;
            k2 \<leftarrow> set_msg [] NoError k1;
            Some (sint sz, bs, k2) });
       k2 \<leftarrow> write_user cfg (others d) bytes addr k1;
       WriteIntRegister 2 (word_of_int numread) k2 } }"

definition sys_write :: "config \<Rightarrow> 'a nachos_scheme drivers \<Rightarrow> 'a ncall" where
  "sys_write cfg d k = do {
     addr \<leftarrow> ReadIntRegister 4 k;
     sz \<leftarrow> ReadIntRegister 5 k;
     f \<leftarrow> ReadIntRegister 6 k;
     if sint sz < 0 then None
     else do {
       (buffer, k1) \<leftarrow> read_user cfg (others d) (nat (sint sz)) addr k;
       (numwrite, k2) \<leftarrow>
         (if sint f > 1 then
            (case is_file (search_object f k1) k1 of
               Some fid \<Rightarrow> do {
                 file \<leftarrow> files k1 fid;
                 (n, file', fs1) \<leftarrow> Write cfg buffer (sint sz) file (fs k1);
                 k2 \<leftarrow> set_msg [] NoError (k1\<lparr>files := (files k1)(fid \<mapsto> file'), fs := fs1\<rparr>);
                 Some (n, k2) }
             | None \<Rightarrow> do { k2 \<leftarrow> set_msg (decimal (sint f)) InvalidFileId k1; Some (- 1, k2) })
          else if f = 1 then do {
            k2 \<leftarrow> PutString d buffer k1;
            k3 \<leftarrow> set_msg [] NoError k2;
            Some (sint sz, k3) }
          else do { k2 \<leftarrow> set_msg (decimal (sint f)) InvalidFileId k1; Some (- 1, k2) });
       WriteIntRegister 2 (word_of_int numwrite) k2 } }"

definition sys_seek :: "'a ncall" where
  "sys_seek k = do {
     offset \<leftarrow> ReadIntRegister 4 k;
     f \<leftarrow> ReadIntRegister 5 k;
     if sint f > 1 then
       (case is_file (search_object f k) k of
          Some fid \<Rightarrow> do {
            file \<leftarrow> files k fid;
            succeed 0 (k\<lparr>files := (files k)(fid \<mapsto> Seek (sint offset) file)\<rparr>) }
        | None \<Rightarrow> fail_with (decimal (sint f)) InvalidFileId k)
     else fail_with (decimal (sint f)) InvalidFileId k }"

definition sys_close :: "config \<Rightarrow> 'a ncall" where
  "sys_close cfg k = do {
     fid \<leftarrow> ReadIntRegister 4 k;
     (case is_file (search_object fid k) k of
        Some f \<Rightarrow> do {
          file \<leftarrow> files k f;
          k1 \<leftarrow> OFT_Close cfg (cstring (GetName file)) k;
          succeed 0 (k1\<lparr>g_object_ids := RemoveObject (sint fid) (g_object_ids k1), files := (files k1)(f := None)\<rparr>) }
      | None \<Rightarrow> fail_with (decimal (sint fid)) InvalidFileId k) }"

definition sys_remove :: "config \<Rightarrow> 'a ncall \<Rightarrow> 'a ncall" where
  "sys_remove cfg oth k = do {
     addr \<leftarrow> ReadIntRegister 4 k;
     (ch, k1) \<leftarrow> string_arg cfg oth addr k;
     (err, k2) \<leftarrow> OFT_Remove cfg ch k1;
     if err = NoError then succeed 0 k2 else fail_with ch err k2 }"

definition sys_mkdir :: "config \<Rightarrow> 'a ncall \<Rightarrow> 'a ncall" where
  "sys_mkdir cfg oth k = do {
     addr \<leftarrow> ReadIntRegister 4 k;
     (name, k1) \<leftarrow> string_arg cfg oth addr k;
     (good, fs1) \<leftarrow> Mkdir cfg name (fs k1);
     let k2 = k1\<lparr>fs := fs1\<rparr>;
     if good \<noteq> NoError then fail_with (if good = OutOfDisk then [] else name) good k2
     else succeed (word_of_int (error_number good)) k2 }"

definition sys_rmdir :: "config \<Rightarrow> 'a ncall \<Rightarrow> 'a ncall" where
  "sys_rmdir cfg oth k = do {
     addr \<leftarrow> ReadIntRegister 4 k;
     (name, k1) \<leftarrow> string_arg cfg oth addr k;
     (good, fs1) \<leftarrow> Rmdir cfg name (fs k1);
     let k2 = k1\<lparr>fs := fs1\<rparr>;
     if good \<noteq> NoError then fail_with name good k2 else succeed (word_of_int (error_number good)) k2 }"

text \<open>The listing is output only.\<close>

definition sys_fslist :: "'a ncall" where
  "sys_fslist k = set_msg [] NoError k"

definition sys_mmap :: "config \<Rightarrow> 'a ncall" where
  "sys_mmap cfg k = do {
     fid \<leftarrow> ReadIntRegister 4 k;
     sz \<leftarrow> ReadIntRegister 5 k;
     (case (if sint sz > 0 then is_file (search_object fid k) k else None) of
        Some f \<Rightarrow> do {
          pid \<leftarrow> current_pid k;
          pr \<leftarrow> processes k pid;
          tt \<leftarrow> tables k (ptable pr);
          (result, as, tt') \<leftarrow> Mmap cfg f (sint sz) (addrspace pr) tt;
          let k1 = k\<lparr>processes := (processes k)(pid \<mapsto> pr\<lparr>addrspace := as\<rparr>), tables := (tables k)(ptable pr \<mapsto> tt')\<rparr>;
          if result < 0 then fail_with (map of_char ''Mmap() failed'' @ [10]) OutOfMemory k1
          else succeed (word_of_int result) k1 }
      | None \<Rightarrow>
          if sint sz \<le> 0 then fail_with (map of_char ''Invalid size'') NoError k
          else fail_with (decimal (sint fid)) InvalidFileId k) }"

subsection \<open>The serial line\<close>

text \<open>The string is copied to a buffer of \<open>MAXSTRLEN\<close> bytes, without a test of its length.\<close>

definition sys_tty_send :: "config \<Rightarrow> 'a nachos_scheme drivers \<Rightarrow> 'a ncall" where
  "sys_tty_send cfg d k =
     (if has_ACIA d then do {
        addr \<leftarrow> ReadIntRegister 4 k;
        (buff, k1) \<leftarrow> string_from cfg (others d) MAXSTRLEN addr k;
        if 0 \<in> set buff
        then do {
          (result, k2) \<leftarrow> TtySend d (cstring buff) k1;
          succeed (word_of_int result) k2 }
        else None }
      else fail_with [] NoACIA k)"

definition sys_tty_receive :: "config \<Rightarrow> 'a nachos_scheme drivers \<Rightarrow> 'a ncall" where
  "sys_tty_receive cfg d k =
     (if has_ACIA d then do {
        addr \<leftarrow> ReadIntRegister 4 k;
        len \<leftarrow> ReadIntRegister 5 k;
        if sint len < 0 then None
        else do {
          (result, buff, k1) \<leftarrow> TtyReceive d (sint len) k;
          if int (length buff) = sint len + 1
          then do {
            k2 \<leftarrow> write_user cfg (others d) (buff @ [0]) addr k1;
            succeed (word_of_int result) k2 }
          else None } }
      else fail_with [] NoACIA k)"

subsection \<open>Synchronisation\<close>

definition is_semaphore :: "kobject option \<Rightarrow> 'a nachos_scheme \<Rightarrow> nat option" where
  "is_semaphore p k = (case p of Some (O_semaphore s) \<Rightarrow> if semaphores k s \<noteq> None then Some s else None | _ \<Rightarrow> None)"

definition is_lock :: "kobject option \<Rightarrow> 'a nachos_scheme \<Rightarrow> nat option" where
  "is_lock p k = (case p of Some (O_lock s) \<Rightarrow> if locks k s \<noteq> None then Some s else None | _ \<Rightarrow> None)"

definition is_condition :: "kobject option \<Rightarrow> 'a nachos_scheme \<Rightarrow> nat option" where
  "is_condition p k = (case p of Some (O_condition s) \<Rightarrow> if conditions k s \<noteq> None then Some s else None | _ \<Rightarrow> None)"

text \<open>A failed \<open>P\<close> leaves the message of the call before.\<close>

definition sys_P :: "'a nachos_scheme \<Rightarrow> 'a nachos_scheme outcome option" where
  "sys_P k = do {
     sid \<leftarrow> ReadIntRegister 4 k;
     (case is_semaphore (search_object sid k) k of
        Some s \<Rightarrow> blocking Rest_zero (g_current_thread k) (Semaphore_P s k)
      | None \<Rightarrow> returns (WriteIntRegister 2 (- 1) k)) }"

definition sys_V :: "'a ncall" where
  "sys_V k = do {
     sid \<leftarrow> ReadIntRegister 4 k;
     (case is_semaphore (search_object sid k) k of
        Some s \<Rightarrow> do { k1 \<leftarrow> Semaphore_V s k; succeed 0 k1 }
      | None \<Rightarrow> fail_with error_text NoError k) }"

text \<open>The creation of a semaphore does not set the message.\<close>

definition sys_sem_create :: "config \<Rightarrow> 'a ncall \<Rightarrow> nat \<Rightarrow> 'a ncall" where
  "sys_sem_create cfg oth l k = do {
     addr \<leftarrow> ReadIntRegister 4 k;
     initialValue \<leftarrow> ReadIntRegister 5 k;
     (debugName, k1) \<leftarrow> string_arg cfg oth addr k;
     k2 \<leftarrow> Semaphore_new l (sint initialValue) k1;
     (fid, k3) \<leftarrow> add_object (O_semaphore l) k2;
     WriteIntRegister 2 (word_of_int fid) k3 }"

definition sys_sem_destroy :: "'a ncall" where
  "sys_sem_destroy k = do {
     sid \<leftarrow> ReadIntRegister 4 k;
     (case is_semaphore (search_object sid k) k of
        Some s \<Rightarrow> do { k1 \<leftarrow> Semaphore_delete s k; succeed 0 k1 }
      | None \<Rightarrow> fail_with error_text NoError k) }"

definition sys_lock_create :: "config \<Rightarrow> 'a ncall \<Rightarrow> nat \<Rightarrow> 'a ncall" where
  "sys_lock_create cfg oth l k = do {
     addr \<leftarrow> ReadIntRegister 4 k;
     (debugName, k1) \<leftarrow> string_arg cfg oth addr k;
     k2 \<leftarrow> Lock_new l k1;
     (fid, k3) \<leftarrow> add_object (O_lock l) k2;
     succeed (word_of_int fid) k3 }"

definition sys_lock_destroy :: "'a ncall" where
  "sys_lock_destroy k = do {
     sid \<leftarrow> ReadIntRegister 4 k;
     (case is_lock (search_object sid k) k of
        Some s \<Rightarrow> do { k1 \<leftarrow> Lock_delete s k; succeed 0 k1 }
      | None \<Rightarrow> fail_with error_text NoError k) }"

definition sys_lock_acquire :: "'a nachos_scheme \<Rightarrow> 'a nachos_scheme outcome option" where
  "sys_lock_acquire k = do {
     sid \<leftarrow> ReadIntRegister 4 k;
     (case is_lock (search_object sid k) k of
        Some s \<Rightarrow> blocking Rest_zero (g_current_thread k) (Lock_Acquire s k)
      | None \<Rightarrow> returns (fail_with error_text NoError k)) }"

definition sys_lock_release :: "'a ncall" where
  "sys_lock_release k = do {
     sid \<leftarrow> ReadIntRegister 4 k;
     (case is_lock (search_object sid k) k of
        Some s \<Rightarrow> do { k1 \<leftarrow> Lock_Release s k; succeed 0 k1 }
      | None \<Rightarrow> fail_with error_text NoError k) }"

definition sys_cond_create :: "config \<Rightarrow> 'a ncall \<Rightarrow> nat \<Rightarrow> 'a ncall" where
  "sys_cond_create cfg oth l k = do {
     addr \<leftarrow> ReadIntRegister 4 k;
     (debugName, k1) \<leftarrow> string_arg cfg oth addr k;
     k2 \<leftarrow> Condition_new l k1;
     (fid, k3) \<leftarrow> add_object (O_condition l) k2;
     succeed (word_of_int fid) k3 }"

definition sys_cond_destroy :: "'a ncall" where
  "sys_cond_destroy k = do {
     sid \<leftarrow> ReadIntRegister 4 k;
     (case is_condition (search_object sid k) k of
        Some s \<Rightarrow> do { k1 \<leftarrow> Condition_delete s k; succeed 0 k1 }
      | None \<Rightarrow> fail_with error_text NoError k) }"

definition sys_cond_wait :: "'a nachos_scheme \<Rightarrow> 'a nachos_scheme outcome option" where
  "sys_cond_wait k = do {
     sid \<leftarrow> ReadIntRegister 4 k;
     (case is_condition (search_object sid k) k of
        Some s \<Rightarrow> blocking Rest_zero (g_current_thread k) (Condition_Wait s k)
      | None \<Rightarrow> returns (fail_with error_text NoError k)) }"

definition sys_cond_signal :: "'a ncall" where
  "sys_cond_signal k = do {
     sid \<leftarrow> ReadIntRegister 4 k;
     (case is_condition (search_object sid k) k of
        Some s \<Rightarrow> do { k1 \<leftarrow> Condition_Signal s k; succeed 0 k1 }
      | None \<Rightarrow> fail_with error_text NoError k) }"

definition sys_cond_broadcast :: "'a ncall" where
  "sys_cond_broadcast k = do {
     sid \<leftarrow> ReadIntRegister 4 k;
     (case is_condition (search_object sid k) k of
        Some s \<Rightarrow> do { k1 \<leftarrow> Condition_Broadcast s k; succeed 0 k1 }
      | None \<Rightarrow> fail_with error_text NoError k) }"

subsection \<open>The handler\<close>

datatype sysno =
    SC_HALT | SC_EXIT | SC_EXEC | SC_JOIN | SC_CREATE | SC_OPEN | SC_READ | SC_WRITE | SC_SEEK | SC_CLOSE
  | SC_NEW_THREAD | SC_YIELD | SC_PERROR | SC_P | SC_V | SC_SEM_CREATE | SC_SEM_DESTROY | SC_LOCK_CREATE
  | SC_LOCK_DESTROY | SC_LOCK_ACQUIRE | SC_LOCK_RELEASE | SC_COND_CREATE | SC_COND_DESTROY | SC_COND_WAIT
  | SC_COND_SIGNAL | SC_COND_BROADCAST | SC_TTY_SEND | SC_TTY_RECEIVE | SC_MKDIR | SC_RMDIR | SC_REMOVE
  | SC_FSLIST | SC_SYS_TIME | SC_MMAP

definition syscall_numbers :: "(int \<times> sysno) list" where
  "syscall_numbers =
     [(0, SC_HALT), (1, SC_EXIT), (2, SC_EXEC), (3, SC_JOIN), (4, SC_CREATE), (5, SC_OPEN), (6, SC_READ),
      (7, SC_WRITE), (8, SC_SEEK), (9, SC_CLOSE), (10, SC_NEW_THREAD), (11, SC_YIELD), (12, SC_PERROR),
      (13, SC_P), (14, SC_V), (15, SC_SEM_CREATE), (16, SC_SEM_DESTROY), (17, SC_LOCK_CREATE),
      (18, SC_LOCK_DESTROY), (19, SC_LOCK_ACQUIRE), (20, SC_LOCK_RELEASE), (21, SC_COND_CREATE),
      (22, SC_COND_DESTROY), (23, SC_COND_WAIT), (24, SC_COND_SIGNAL), (25, SC_COND_BROADCAST),
      (26, SC_TTY_SEND), (27, SC_TTY_RECEIVE), (28, SC_MKDIR), (29, SC_RMDIR), (32, SC_REMOVE),
      (33, SC_FSLIST), (34, SC_SYS_TIME), (35, SC_MMAP)]"

text \<open>\<open>Halt\<close> does not return, and an unknown number ends the simulator.\<close>

definition syscall ::
  "config \<Rightarrow> 'a nachos_scheme drivers \<Rightarrow> nat \<Rightarrow> sysno \<Rightarrow> 'a nachos_scheme \<Rightarrow> 'a nachos_scheme outcome option" where
  "syscall cfg d l type k =
     (case type of
        SC_HALT \<Rightarrow> None
      | SC_SYS_TIME \<Rightarrow> returns (sys_time cfg (others d) k)
      | SC_EXIT \<Rightarrow> sys_exit k
      | SC_EXEC \<Rightarrow> returns (sys_exec cfg (others d) l k)
      | SC_NEW_THREAD \<Rightarrow> returns (sys_new_thread cfg (others d) l k)
      | SC_JOIN \<Rightarrow> sys_join k
      | SC_YIELD \<Rightarrow> sys_yield k
      | SC_PERROR \<Rightarrow> returns (sys_perror cfg d k)
      | SC_CREATE \<Rightarrow> returns (sys_create cfg (others d) k)
      | SC_OPEN \<Rightarrow> returns (sys_open cfg (others d) l k)
      | SC_READ \<Rightarrow> returns (sys_read cfg d k)
      | SC_WRITE \<Rightarrow> returns (sys_write cfg d k)
      | SC_SEEK \<Rightarrow> returns (sys_seek k)
      | SC_CLOSE \<Rightarrow> returns (sys_close cfg k)
      | SC_REMOVE \<Rightarrow> returns (sys_remove cfg (others d) k)
      | SC_MKDIR \<Rightarrow> returns (sys_mkdir cfg (others d) k)
      | SC_RMDIR \<Rightarrow> returns (sys_rmdir cfg (others d) k)
      | SC_FSLIST \<Rightarrow> returns (sys_fslist k)
      | SC_TTY_SEND \<Rightarrow> returns (sys_tty_send cfg d k)
      | SC_TTY_RECEIVE \<Rightarrow> returns (sys_tty_receive cfg d k)
      | SC_P \<Rightarrow> sys_P k
      | SC_V \<Rightarrow> returns (sys_V k)
      | SC_SEM_CREATE \<Rightarrow> returns (sys_sem_create cfg (others d) l k)
      | SC_SEM_DESTROY \<Rightarrow> returns (sys_sem_destroy k)
      | SC_LOCK_CREATE \<Rightarrow> returns (sys_lock_create cfg (others d) l k)
      | SC_LOCK_DESTROY \<Rightarrow> returns (sys_lock_destroy k)
      | SC_LOCK_ACQUIRE \<Rightarrow> sys_lock_acquire k
      | SC_LOCK_RELEASE \<Rightarrow> returns (sys_lock_release k)
      | SC_COND_CREATE \<Rightarrow> returns (sys_cond_create cfg (others d) l k)
      | SC_COND_DESTROY \<Rightarrow> returns (sys_cond_destroy k)
      | SC_COND_WAIT \<Rightarrow> sys_cond_wait k
      | SC_COND_SIGNAL \<Rightarrow> returns (sys_cond_signal k)
      | SC_COND_BROADCAST \<Rightarrow> returns (sys_cond_broadcast k)
      | SC_MMAP \<Rightarrow> returns (sys_mmap cfg k))"

definition ExceptionHandler ::
  "config \<Rightarrow> 'a nachos_scheme drivers \<Rightarrow> nat \<Rightarrow> ExceptionType \<Rightarrow> u32 \<Rightarrow> 'a nachos_scheme
   \<Rightarrow> 'a nachos_scheme outcome option" where
  "ExceptionHandler cfg d l exceptiontype vaddr k = do {
     type \<leftarrow> ReadIntRegister 2 k;
     (case exceptiontype of
        SYSCALL_EXCEPTION \<Rightarrow> do { n \<leftarrow> map_of syscall_numbers (sint type); syscall cfg d l n k }
      | PAGEFAULT_EXCEPTION \<Rightarrow> map_option Returned (fault_handler cfg (others d) PAGEFAULT_EXCEPTION vaddr k)
      | _ \<Rightarrow> None) }"

end
