(* ===== verification/Nachos_VMProps.thy ===== *)
theory Nachos_VMProps
  imports Nachos_VM
begin

text \<open>
  Properties of virtual memory: which frame the clock chooses, and that page faults and
  evictions do not change what is in any page of any process.
\<close>

subsection \<open>Page tables by process and page\<close>

text \<open>
  The entry of a page of a process. The invariants are about this function of process and
  page; \<open>spaces_ok\<close> says that it determines the tables: every process has one of its own.
\<close>

definition pte :: "'a vm_scheme \<Rightarrow> nat \<Rightarrow> int \<Rightarrow> PageTableEntry option" where
  "pte k pid vp = do {
     pr \<leftarrow> processes k pid; tt \<leftarrow> tables k (ptable pr);
     if in_table tt vp then Some (entry tt vp) else None }"

definition spaces_ok :: "'a vm_scheme \<Rightarrow> bool" where
  "spaces_ok k \<longleftrightarrow>
     (\<forall>pid pr. processes k pid = Some pr \<longrightarrow> (\<exists>tt. tables k (ptable pr) = Some tt \<and> wf_table tt))
     \<and> (\<forall>p q pr qr. processes k p = Some pr \<longrightarrow> processes k q = Some qr \<longrightarrow> ptable pr = ptable qr \<longrightarrow> p = q)"

lemma pte_process: "pte k pid vp = Some e \<Longrightarrow> \<exists>pr. processes k pid = Some pr"
  by (auto simp: pte_def elim!: bind_Some_cases)

lemma tt_get_pte:
  assumes "spaces_ok k" "processes k pid = Some pr" "pte k pid vp = Some e"
  shows "tt_get (pte_get f) (ptable pr) vp k = Some (f e)"
proof -
  obtain tt where "tables k (ptable pr) = Some tt" "wf_table tt" using assms(1,2) unfolding spaces_ok_def by blast
  with assms(2,3) show ?thesis by (auto simp: pte_def tt_get_def pte_get_in split: if_splits)
qed

lemma tt_set_pte:
  assumes "spaces_ok k" "processes k pid = Some pr" "pte k pid vp = Some e"
  obtains T where "tt_set (pte_set g) (ptable pr) vp k = Some (k\<lparr>tables := T\<rparr>)" "spaces_ok (k\<lparr>tables := T\<rparr>)"
    "\<And>p v. pte (k\<lparr>tables := T\<rparr>) p v = (if p = pid \<and> v = vp then Some (g e) else pte k p v)"
proof -
  obtain tt where tt: "tables k (ptable pr) = Some tt" "wf_table tt" using assms(1,2) unfolding spaces_ok_def by blast
  then have e: "in_table tt vp" "entry tt vp = e" using assms(2,3) by (auto simp: pte_def split: if_splits)
  let ?T = "(tables k)(ptable pr \<mapsto> upd_entry g tt vp)"
  have 1: "tt_set (pte_set g) (ptable pr) vp k = Some (k\<lparr>tables := ?T\<rparr>)"
    using tt e by (simp add: tt_set_def pte_set_in)
  have 2: "spaces_ok (k\<lparr>tables := ?T\<rparr>)"
    using assms(1) tt(2) unfolding spaces_ok_def by auto
  have "pte (k\<lparr>tables := ?T\<rparr>) p v = (if p = pid \<and> v = vp then Some (g e) else pte k p v)" for p v
  proof (cases "processes k p")
    case (Some qr)
    show ?thesis
    proof (cases "p = pid")
      case True
      then show ?thesis using Some assms(2) tt e by (cases "v = vp") (auto simp: pte_def)
    next
      case False
      then have "ptable qr \<noteq> ptable pr" using assms(1,2) Some unfolding spaces_ok_def by blast
      then show ?thesis using False Some by (simp add: pte_def)
    qed
  next
    case None
    then show ?thesis using assms(2) by (auto simp: pte_def)
  qed
  with 1 2 show ?thesis using that by blast
qed

lemma tt_ops:
  "tt_get getBitU = tt_get (pte_get bitU)" "tt_get getBitIo = tt_get (pte_get io)"
  "tt_get getBitM = tt_get (pte_get bitM)" "tt_get getBitSwap = tt_get (pte_get swap)"
  "tt_get getBitValid = tt_get (pte_get valid)" "tt_get getAddrDisk = tt_get (pte_get addrDisk)"
  "tt_get getPhysicalPage = tt_get (pte_get physicalPage)"
  "tt_set clearBitU = tt_set (pte_set (\<lambda>e. e\<lparr>bitU := False\<rparr>))"
  "tt_set setBitU = tt_set (pte_set (\<lambda>e. e\<lparr>bitU := True\<rparr>))"
  "tt_set clearBitValid = tt_set (pte_set (\<lambda>e. e\<lparr>valid := False\<rparr>))"
  "tt_set setBitValid = tt_set (pte_set (\<lambda>e. e\<lparr>valid := True\<rparr>))"
  "tt_set clearBitIo = tt_set (pte_set (\<lambda>e. e\<lparr>io := False\<rparr>))"
  "tt_set setBitIo = tt_set (pte_set (\<lambda>e. e\<lparr>io := True\<rparr>))"
  "tt_set clearBitM = tt_set (pte_set (\<lambda>e. e\<lparr>bitM := False\<rparr>))"
  "tt_set setBitSwap = tt_set (pte_set (\<lambda>e. e\<lparr>swap := True\<rparr>))"
  "tt_set (\<lambda>tt vp. setAddrDisk tt vp ad) = tt_set (pte_set (\<lambda>e. e\<lparr>addrDisk := ad\<rparr>))"
  "tt_set (\<lambda>tt vp. setPhysicalPage tt vp pp) = tt_set (pte_set (\<lambda>e. e\<lparr>physicalPage := pp\<rparr>))"
  by (intro ext; simp add: tt_get_def tt_set_def tt_getters tt_setters)+

text \<open>The entry a frame belongs to.\<close>

definition holder :: "tpr_c list \<Rightarrow> nat \<Rightarrow> (nat \<times> int) option" where
  "holder T i = map_option (\<lambda>pid. (pid, virtualPage (T ! i))) (owner (T ! i))"

text \<open>
  Frames against page tables: the free list has the free frames; a used frame holds the page
  whose entry points back to it; a valid entry points to the frame that holds it. \<open>B\<close> are
  pages under transfer, \<open>L\<close> frames between two pages.
\<close>

definition frames_ok ::
  "nat \<Rightarrow> (nat \<Rightarrow> int \<Rightarrow> PageTableEntry option) \<Rightarrow> tpr_c list \<Rightarrow> int list \<Rightarrow> (nat \<times> int) set \<Rightarrow> nat set \<Rightarrow> bool" where
  "frames_ok N P T F B L \<longleftrightarrow>
     length T = N \<and> distinct F \<and> set F = int ` {i. i < N \<and> tfree (T ! i)}
     \<and> (\<forall>i < N. \<not> tfree (T ! i) \<longrightarrow> i \<notin> L \<longrightarrow> \<not> locked (T ! i) \<and>
          (\<exists>pid vp e. holder T i = Some (pid, vp) \<and> P pid vp = Some e \<and> valid e \<and> physicalPage e = int i))
     \<and> (\<forall>pid vp e. P pid vp = Some e \<longrightarrow> valid e \<longrightarrow> (\<exists>i < N. physicalPage e = int i \<and> \<not> tfree (T ! i)
          \<and> i \<notin> L \<and> holder T i = Some (pid, vp)))
     \<and> (\<forall>i \<in> L. i < N \<and> \<not> tfree (T ! i))
     \<and> (\<forall>pid vp e. P pid vp = Some e \<longrightarrow> io e \<longrightarrow> (pid, vp) \<in> B \<and> \<not> valid e)"

text \<open>
  Swap area against page tables: a page in swap has a marked sector of its own, and a clean
  one is there as it is in memory.
\<close>

definition frame_of :: "config \<Rightarrow> byte list \<Rightarrow> int \<Rightarrow> byte list" where
  "frame_of cfg M page = take (nat (PageSize cfg)) (drop (nat (page * PageSize cfg)) M)"

definition swap_ok ::
  "config \<Rightarrow> (nat \<Rightarrow> int \<Rightarrow> PageTableEntry option) \<Rightarrow> byte list \<Rightarrow> bitmap \<Rightarrow> byte list list \<Rightarrow> bool" where
  "swap_ok cfg P M FL SD \<longleftrightarrow>
     wf_bitmap FL \<and> numBits FL = 2048 \<and> wf_sectors cfg SD
     \<and> (\<forall>pid vp e. P pid vp = Some e \<longrightarrow> swap e \<longrightarrow> addrDisk e \<in> marked FL)
     \<and> (\<forall>p v e q w d. P p v = Some e \<longrightarrow> P q w = Some d \<longrightarrow> swap e \<longrightarrow> swap d \<longrightarrow> addrDisk e = addrDisk d
          \<longrightarrow> p = q \<and> v = w)
     \<and> (\<forall>pid vp e. P pid vp = Some e \<longrightarrow> valid e \<longrightarrow> swap e \<longrightarrow> \<not> bitM e
          \<longrightarrow> SD ! nat (addrDisk e) = frame_of cfg M (physicalPage e))"

definition vm_inv :: "config \<Rightarrow> (nat \<times> int) set \<Rightarrow> nat set \<Rightarrow> 'a vm_scheme \<Rightarrow> bool" where
  "vm_inv cfg B L k \<longleftrightarrow> spaces_ok k \<and> 0 < PageSize cfg \<and> SectorSize cfg = PageSize cfg \<and> 0 < NumPhysPages cfg
     \<and> int (length (mainMemory k)) = NumPhysPages cfg * PageSize cfg
     \<and> - 1 \<le> i_clock k \<and> i_clock k < NumPhysPages cfg
     \<and> frames_ok (nat (NumPhysPages cfg)) (pte k) (tpr k) (free_page_list k) B L
     \<and> swap_ok cfg (pte k) (mainMemory k) (page_flags k) (swap_disk k)
     \<and> (\<forall>pid pr. processes k pid = Some pr \<longrightarrow> nb_mapped_files (addrspace pr) \<le> 0)"

text \<open>What is in a page, wherever it is.\<close>

definition contents :: "config \<Rightarrow> 'a vm_scheme \<Rightarrow> nat \<Rightarrow> int \<Rightarrow> byte list option" where
  "contents cfg k pid vp = do {
     e \<leftarrow> pte k pid vp;
     if valid e then frame_bytes cfg (physicalPage e) (PageSize cfg) k
     else if swap e then ReadSector (addrDisk e) (swap_disk k)
     else if addrDisk e = - 1 then Some (replicate (nat (PageSize cfg)) 0)
     else do { fid \<leftarrow> exec_file k pid; read_file cfg fid (addrDisk e) (new_page cfg) k } }"

subsection \<open>The clock\<close>

text \<open>The bits \<open>U\<close> of the frames from the hand of the clock on, and the reference: the first
  frame whose bit is clear, or the first of all after a turn.\<close>

definition used_bit :: "'a vm_scheme \<Rightarrow> nat \<Rightarrow> bool" where
  "used_bit k i = (case holder (tpr k) i of
     Some (pid, vp) \<Rightarrow> (case pte k pid vp of Some e \<Rightarrow> bitU e | None \<Rightarrow> False) | None \<Rightarrow> False)"

definition hand :: "nat \<Rightarrow> nat \<Rightarrow> nat \<Rightarrow> nat" where
  "hand N c j = (c + j) mod N"

definition second_chance :: "nat \<Rightarrow> nat \<Rightarrow> 'a vm_scheme \<Rightarrow> nat" where
  "second_chance N c k = length (takeWhile (used_bit k) (map (hand N c) [0..<N]))"

lemma hand_less: "0 < N \<Longrightarrow> hand N c j < N"
  by (simp add: hand_def)

lemma hand_next: "0 < N \<Longrightarrow> (int (hand N c j) + 1) smod int N = int (hand N c (Suc j))"
proof -
  assume "0 < N"
  have "(int (hand N c j) + 1) smod int N = int (Suc (hand N c j)) mod int N" by (simp add: smod_nonneg add.commute)
  also have "\<dots> = int (Suc ((c + j) mod N) mod N)" by (simp only: zmod_int hand_def)
  also have "\<dots> = int (hand N c (Suc j))" by (simp add: hand_def mod_Suc_eq)
  finally show ?thesis .
qed

lemma hand_inj_le: "i \<le> j \<Longrightarrow> j < N \<Longrightarrow> hand N c i = hand N c j \<Longrightarrow> i = j"
  using mod_eq_dvd_iff_nat [of "c + i" "c + j" N] nat_dvd_not_less [of "j - i" N]
  by (cases "i = j") (auto simp: hand_def)

lemma hand_inj: "i < N \<Longrightarrow> j < N \<Longrightarrow> hand N c i = hand N c j \<Longrightarrow> i = j"
  using hand_inj_le [of i j N c] hand_inj_le [of j i N c] by linarith

definition clear_used ::
  "(nat \<times> int) set \<Rightarrow> (nat \<Rightarrow> int \<Rightarrow> PageTableEntry option) \<Rightarrow> nat \<Rightarrow> int \<Rightarrow> PageTableEntry option" where
  "clear_used S P p v = map_option (\<lambda>e. if (p, v) \<in> S then e\<lparr>bitU := False\<rparr> else e) (P p v)"

definition passed :: "nat \<Rightarrow> nat \<Rightarrow> nat \<Rightarrow> 'a vm_scheme \<Rightarrow> (nat \<times> int) set" where
  "passed N c j k = {x. \<exists>l < j. holder (tpr k) (hand N c l) = Some x}"

text \<open>Every frame is used, holds a page that points back to it, and is not locked.\<close>

definition all_used :: "nat \<Rightarrow> 'a vm_scheme \<Rightarrow> bool" where
  "all_used N k \<longleftrightarrow> length (tpr k) = N \<and> (\<forall>i < N. \<not> locked (tpr k ! i) \<and>
     (\<exists>pid vp e. holder (tpr k) i = Some (pid, vp) \<and> pte k pid vp = Some e \<and> physicalPage e = int i))"

lemma all_used_inj:
  "all_used N k \<Longrightarrow> i < N \<Longrightarrow> j < N \<Longrightarrow> holder (tpr k) i = holder (tpr k) j \<Longrightarrow> i = j"
  unfolding all_used_def by (metis nat_int option.inject prod.inject)

lemma holder_owner: "holder T i = Some (pid, vp) \<longleftrightarrow> owner (T ! i) = Some pid \<and> virtualPage (T ! i) = vp"
  by (auto simp: holder_def)

lemma passed_not:
  assumes "all_used N k" "0 < N" "j < N" "holder (tpr k) (hand N c j) = Some x"
  shows "x \<notin> passed N c j k"
proof
  assume "x \<in> passed N c j k"
  then obtain l where l: "l < j" "holder (tpr k) (hand N c l) = Some x" by (auto simp: passed_def)
  then have "hand N c l = hand N c j"
    using all_used_inj [OF assms(1) hand_less hand_less] assms(2,4) by metis
  then show False using hand_inj [of l N j c] l(1) assms(3) by simp
qed

lemma clock_step:
  assumes ok: "spaces_ok k" "all_used (nat (NumPhysPages cfg)) k" and N: "N = nat (NumPhysPages cfg)" "0 < N" "j < N"
    and T: "spaces_ok (k\<lparr>tables := T\<rparr>)" "pte (k\<lparr>tables := T\<rparr>) = clear_used (passed N c j k) (pte k)"
    and u: "used_bit k (hand N c j)"
  obtains T' where "clock_loop cfg others (int (hand N c j)) j (k\<lparr>tables := T\<rparr>) =
      clock_loop cfg others (int (hand N c (Suc j))) (Suc j) (k\<lparr>tables := T'\<rparr>)"
    "spaces_ok (k\<lparr>tables := T'\<rparr>)" "pte (k\<lparr>tables := T'\<rparr>) = clear_used (passed N c (Suc j) k) (pte k)"
proof -
  let ?i = "hand N c j" and ?k = "k\<lparr>tables := T\<rparr>"
  have i: "?i < N" by (rule hand_less [OF N(2)])
  then obtain pid vp e where h: "holder (tpr k) ?i = Some (pid, vp)" "pte k pid vp = Some e"
    using ok(2) N(1) by (auto simp: all_used_def)
  obtain pr where pr: "processes ?k pid = Some pr" using pte_process [OF h(2)] by auto
  have nin: "(pid, vp) \<notin> passed N c j k" by (rule passed_not [OF ok(2) [folded N(1)] N(2,3) h(1)])
  have p: "pte ?k pid vp = Some e" using T(2) h(2) nin by (simp add: clear_used_def)
  have U: "bitU e" using u h by (simp add: used_bit_def)
  obtain T' where T': "tt_set (pte_set (\<lambda>e. e\<lparr>bitU := False\<rparr>)) (ptable pr) vp ?k = Some (?k\<lparr>tables := T'\<rparr>)"
    "spaces_ok (?k\<lparr>tables := T'\<rparr>)"
    "\<And>p v. pte (?k\<lparr>tables := T'\<rparr>) p v = (if p = pid \<and> v = vp then Some (e\<lparr>bitU := False\<rparr>) else pte ?k p v)"
    using tt_set_pte [OF T(1) pr p, of "\<lambda>e. e\<lparr>bitU := False\<rparr>"] by blast
  have ow: "owner (tpr k ! ?i) = Some pid" "virtualPage (tpr k ! ?i) = vp" using h(1) by (simp_all add: holder_owner)
  have len: "length (tpr k) = N" using ok(2) N(1) by (simp add: all_used_def)
  have ot: "owner_table (Some pid) ?k = Some (ptable pr)" using pr by (simp add: owner_table_def)
  have nb: "\<not> NumPhysPages cfg < 1 + int j" using N by linarith
  have "clock_loop cfg others (int ?i) j ?k = clock_loop cfg others (int (hand N c (Suc j))) (Suc j) (k\<lparr>tables := T'\<rparr>)"
    using nb i len ow ot tt_get_pte [OF T(1) pr p, of bitU] T'(1) U N hand_next [OF N(2), of c j]
    by (subst clock_loop.simps) (simp add: aget_nat tt_ops)
  moreover have "pte (k\<lparr>tables := T'\<rparr>) = clear_used (passed N c (Suc j) k) (pte k)"
  proof (intro ext)
    fix q w
    have "(q, w) \<in> passed N c (Suc j) k \<longleftrightarrow> (q, w) \<in> passed N c j k \<or> (q = pid \<and> w = vp)"
      using h(1) by (auto simp: passed_def less_Suc_eq)
    then show "pte (k\<lparr>tables := T'\<rparr>) q w = clear_used (passed N c (Suc j) k) (pte k) q w"
      using T'(3) [of q w] T(2) h(2) by (auto simp: clear_used_def option.map_comp split: option.splits)
  qed
  ultimately show ?thesis using that T'(2) by simp
qed

lemma second_chance_bounds:
  "second_chance N c k \<le> N" "j < second_chance N c k \<Longrightarrow> used_bit k (hand N c j)"
  "second_chance N c k < N \<Longrightarrow> \<not> used_bit k (hand N c (second_chance N c k))"
proof -
  let ?xs = "map (hand N c) [0..<N]"
  show "second_chance N c k \<le> N" unfolding second_chance_def using length_takeWhile_le [of "used_bit k" ?xs] by simp
  then show "used_bit k (hand N c j)" if "j < second_chance N c k"
    using nth_mem [of j "takeWhile (used_bit k) ?xs"] that takeWhile_nth [of j "used_bit k" ?xs]
    unfolding second_chance_def by (auto dest!: set_takeWhileD)
  show "\<not> used_bit k (hand N c (second_chance N c k))" if "second_chance N c k < N"
    using nth_length_takeWhile [of "used_bit k" ?xs] that unfolding second_chance_def by simp
qed

lemma clock_finds:
  assumes ok: "spaces_ok k" "all_used (nat (NumPhysPages cfg)) k" and N: "N = nat (NumPhysPages cfg)" "0 < N" "c < N"
  obtains T where "clock_loop cfg others (int c) 0 k = Some (int (hand N c (second_chance N c k)), k\<lparr>tables := T\<rparr>)"
    "spaces_ok (k\<lparr>tables := T\<rparr>)"
    "pte (k\<lparr>tables := T\<rparr>) = clear_used (passed N c (second_chance N c k) k) (pte k)"
proof -
  let ?m = "second_chance N c k"
  have "j \<le> ?m \<Longrightarrow> \<exists>T. clock_loop cfg others (int c) 0 k = clock_loop cfg others (int (hand N c j)) j (k\<lparr>tables := T\<rparr>)
    \<and> spaces_ok (k\<lparr>tables := T\<rparr>) \<and> pte (k\<lparr>tables := T\<rparr>) = clear_used (passed N c j k) (pte k)" for j
  proof (induction j)
    case 0
    have "pte k = clear_used (passed N c 0 k) (pte k)"
      by (intro ext) (simp add: clear_used_def passed_def option.map_ident)
    moreover have "hand N c 0 = c" using N(3) by (simp add: hand_def)
    ultimately show ?case using ok(1) by (intro exI [of _ "tables k"]) simp
  next
    case (Suc j)
    then obtain T where T: "clock_loop cfg others (int c) 0 k = clock_loop cfg others (int (hand N c j)) j (k\<lparr>tables := T\<rparr>)"
      "spaces_ok (k\<lparr>tables := T\<rparr>)" "pte (k\<lparr>tables := T\<rparr>) = clear_used (passed N c j k) (pte k)" by auto
    have "j < N" using Suc.prems second_chance_bounds(1) [of N c k] by simp
    from clock_step [OF ok N(1,2) this T(2,3) second_chance_bounds(2)] Suc.prems T(1) show ?case by (metis Suc_le_lessD)
  qed
  from this [of ?m] obtain T where T:
    "clock_loop cfg others (int c) 0 k = clock_loop cfg others (int (hand N c ?m)) ?m (k\<lparr>tables := T\<rparr>)"
    "spaces_ok (k\<lparr>tables := T\<rparr>)" "pte (k\<lparr>tables := T\<rparr>) = clear_used (passed N c ?m k) (pte k)" by auto
  let ?i = "hand N c ?m" and ?k = "k\<lparr>tables := T\<rparr>"
  have i: "?i < N" by (rule hand_less [OF N(2)])
  then obtain pid vp e where h: "holder (tpr k) ?i = Some (pid, vp)" "pte k pid vp = Some e" "\<not> locked (tpr k ! ?i)"
    using ok(2) N(1) by (auto simp: all_used_def)
  obtain pr where pr: "processes ?k pid = Some pr" using pte_process [OF h(2)] by auto
  have "\<exists>e'. pte ?k pid vp = Some e' \<and> \<not> bitU e'"
  proof (cases "?m < N")
    case True
    have "\<not> bitU e" using second_chance_bounds(3) [OF True] h by (simp add: used_bit_def)
    then show ?thesis using T(3) h(2) by (simp add: clear_used_def)
  next
    case False
    then have m: "?m = N" using second_chance_bounds(1) [of N c k] by simp
    then have "hand N c ?m = hand N c 0" by (simp add: hand_def)
    then have "(pid, vp) \<in> passed N c ?m k" using h(1) m N(2) by (auto simp: passed_def)
    then show ?thesis using T(3) h(2) by (simp add: clear_used_def)
  qed
  then obtain e' where e': "pte ?k pid vp = Some e'" "\<not> bitU e'" by blast
  have ow: "owner (tpr k ! ?i) = Some pid" "virtualPage (tpr k ! ?i) = vp" using h(1) by (simp_all add: holder_owner)
  have len: "length (tpr k) = N" using ok(2) N(1) by (simp add: all_used_def)
  have ot: "owner_table (Some pid) ?k = Some (ptable pr)" using pr by (simp add: owner_table_def)
  have "clock_loop cfg others (int ?i) ?m ?k = Some (int ?i, ?k)"
    using i len ow ot tt_get_pte [OF T(2) pr e'(1), of bitU] e'(2) h(3)
    by (subst clock_loop.simps) (simp add: aget_nat tt_ops)
  with T that show ?thesis by simp
qed

lemma pte_upd [simp]:
  "pte (k\<lparr>tpr := t\<rparr>) = pte k" "pte (k\<lparr>i_clock := i\<rparr>) = pte k" "pte (k\<lparr>free_page_list := l\<rparr>) = pte k"
  "pte (k\<lparr>page_flags := b\<rparr>) = pte k" "pte (k\<lparr>swap_disk := d\<rparr>) = pte k" "pte (k\<lparr>mainMemory := m\<rparr>) = pte k"
  "pte (k\<lparr>process_stat := ps\<rparr>) = pte k" "pte (k\<lparr>g_stats := g\<rparr>) = pte k"
  by (intro ext; simp add: pte_def)+

lemma spaces_upd [simp]:
  "spaces_ok (k\<lparr>tpr := t\<rparr>) = spaces_ok k" "spaces_ok (k\<lparr>i_clock := i\<rparr>) = spaces_ok k"
  "spaces_ok (k\<lparr>free_page_list := l\<rparr>) = spaces_ok k" "spaces_ok (k\<lparr>page_flags := b\<rparr>) = spaces_ok k"
  "spaces_ok (k\<lparr>swap_disk := d\<rparr>) = spaces_ok k" "spaces_ok (k\<lparr>mainMemory := m\<rparr>) = spaces_ok k"
  "spaces_ok (k\<lparr>process_stat := ps\<rparr>) = spaces_ok k" "spaces_ok (k\<lparr>g_stats := g\<rparr>) = spaces_ok k"
  by (simp_all add: spaces_ok_def)

lemma pte_cong: "processes k = processes k' \<Longrightarrow> tables k = tables k' \<Longrightarrow> pte k = pte k'"
  by (intro ext) (simp add: pte_def)

lemma spaces_cong: "processes k = processes k' \<Longrightarrow> tables k = tables k' \<Longrightarrow> spaces_ok k = spaces_ok k'"
  by (simp add: spaces_ok_def)

subsection \<open>Writing a page to the swap area\<close>

lemma GetFreePage_from_ok:
  assumes "wf_bitmap b" "0 \<le> i" "i + int n = numBits b" "s \<notin> marked b" "i \<le> s" "s < numBits b"
  shows "\<exists>r b'. GetFreePage_from n i b = Some (r, b') \<and> 0 \<le> r \<and> r < numBits b \<and> r \<notin> marked b
    \<and> wf_bitmap b' \<and> numBits b' = numBits b \<and> marked b' = insert r (marked b)"
  using assms
proof (induction n arbitrary: i)
  case (Suc n)
  have i: "i < numBits b" using Suc.prems by simp
  note t = BitMap_Test_correct [OF Suc.prems(1,2) i]
  show ?case
  proof (cases "i \<in> marked b")
    case True
    then have "i + 1 \<le> s" using Suc.prems by (cases "i = s") auto
    then show ?thesis using Suc.IH [of "i + 1"] Suc.prems t True by simp
  next
    case False
    obtain b' where "BitMap_Mark b i = Some b'" "wf_bitmap b'" "numBits b' = numBits b" "marked b' = insert i (marked b)"
      using BitMap_Mark_correct [OF Suc.prems(1,2) i] by blast
    then show ?thesis using t False Suc.prems i by simp
  qed
qed simp

lemma GetFreePage_ok:
  assumes "wf_bitmap (page_flags k)" "numBits (page_flags k) = 2048" "\<exists>s. 0 \<le> s \<and> s < 2048 \<and> s \<notin> marked (page_flags k)"
  obtains s b where "GetFreePage k = Some (s, k\<lparr>page_flags := b\<rparr>)" "0 \<le> s" "s < 2048" "s \<notin> marked (page_flags k)"
    "wf_bitmap b" "numBits b = 2048" "marked b = insert s (marked (page_flags k))"
proof -
  from assms(3) obtain s where "0 \<le> s" "s < 2048" "s \<notin> marked (page_flags k)" by blast
  then have "\<exists>r b'. GetFreePage_from 2048 0 (page_flags k) = Some (r, b') \<and> 0 \<le> r \<and> r < numBits (page_flags k)
      \<and> r \<notin> marked (page_flags k) \<and> wf_bitmap b' \<and> numBits b' = numBits (page_flags k)
      \<and> marked b' = insert r (marked (page_flags k))"
    by (intro GetFreePage_from_ok [OF assms(1)]) (simp_all add: assms(2))
  then obtain r b where
    "GetFreePage_from 2048 0 (page_flags k) = Some (r, b)" "0 \<le> r" "r < 2048" "r \<notin> marked (page_flags k)"
    "wf_bitmap b" "numBits b = 2048" "marked b = insert r (marked (page_flags k))" unfolding assms(2) by blast
  note r = this
  have "GetFreePage k = Some (r, k\<lparr>page_flags := b\<rparr>)"
    unfolding GetFreePage_def NUM_SECTORS_val nat_numeral r(1) by simp
  from that [OF this r(2-7)] show ?thesis .
qed

text \<open>
  What \<open>write_swap\<close> makes of an entry, of the map and of the swap area: the page is in the
  sector \<open>s\<close> that the entry names, which is new when the page was not in swap before.
\<close>

definition swapped_to ::
  "byte list \<Rightarrow> PageTableEntry \<Rightarrow> bitmap \<Rightarrow> byte list list \<Rightarrow> int \<Rightarrow> bitmap \<Rightarrow> byte list list \<Rightarrow> bool" where
  "swapped_to page e FL SD s FL' SD' \<longleftrightarrow>
     (if swap e then s = addrDisk e \<and> FL' = FL \<and> SD' = (if bitM e then SD[nat s := page] else SD)
      else 0 \<le> s \<and> s < 2048 \<and> s \<notin> marked FL \<and> wf_bitmap FL' \<and> numBits FL' = 2048 \<and> marked FL' = insert s (marked FL)
        \<and> SD' = SD[nat s := page])"

lemma write_swap_ok:
  assumes sp: "spaces_ok k" and pr: "processes k pid = Some pr" and e: "pte k pid vp = Some e"
    and pg: "frame_bytes cfg c (SectorSize cfg) k = Some page" "int (length page) = SectorSize cfg"
    and sw: "wf_sectors cfg (swap_disk k)" "wf_bitmap (page_flags k)" "numBits (page_flags k) = 2048"
      "\<exists>s. 0 \<le> s \<and> s < 2048 \<and> s \<notin> marked (page_flags k)" "swap e \<Longrightarrow> addrDisk e \<in> marked (page_flags k)"
  obtains T FL SD s where "write_swap cfg (ptable pr) vp c k = Some (k\<lparr>tables := T, page_flags := FL, swap_disk := SD\<rparr>)"
    "spaces_ok (k\<lparr>tables := T\<rparr>)" "swapped_to page e (page_flags k) (swap_disk k) s FL SD"
    "\<And>p v. pte (k\<lparr>tables := T\<rparr>) p v = (if p = pid \<and> v = vp then Some (e\<lparr>addrDisk := s, swap := True\<rparr>) else pte k p v)"
proof (cases "swap e")
  case True
  note g = tt_get_pte [OF sp pr e, of swap] tt_get_pte [OF sp pr e, of bitM] tt_get_pte [OF sp pr e, of addrDisk]
  have ad: "0 \<le> addrDisk e" "addrDisk e < 2048" using marked_bounds [OF sw(5) [OF True]] sw(3) by simp_all
  have fb: "frame_bytes cfg c (SectorSize cfg) (k\<lparr>tables := T\<rparr>) = Some page" for T using pg(1) by (simp add: frame_bytes_def)
  show ?thesis
  proof (cases "bitM e")
    case False
    have 1: "write_swap cfg (ptable pr) vp c k = Some (k\<lparr>tables := tables k, page_flags := page_flags k, swap_disk := swap_disk k\<rparr>)"
      using True False g by (simp add: write_swap_def tt_ops)
    have 2: "spaces_ok (k\<lparr>tables := tables k\<rparr>)" using sp by simp
    have "e\<lparr>addrDisk := addrDisk e, swap := True\<rparr> = e" using True by simp
    then have 3: "pte (k\<lparr>tables := tables k\<rparr>) p v =
        (if p = pid \<and> v = vp then Some (e\<lparr>addrDisk := addrDisk e, swap := True\<rparr>) else pte k p v)" for p v
      using e by simp
    show ?thesis by (rule that [OF 1 2 _ 3]) (simp add: swapped_to_def True False)
  next
    case dirty: True
    obtain T1 where T1: "tt_set (pte_set (\<lambda>e. e\<lparr>addrDisk := - 1\<rparr>)) (ptable pr) vp k = Some (k\<lparr>tables := T1\<rparr>)"
      "spaces_ok (k\<lparr>tables := T1\<rparr>)"
      "\<And>p v. pte (k\<lparr>tables := T1\<rparr>) p v = (if p = pid \<and> v = vp then Some (e\<lparr>addrDisk := - 1\<rparr>) else pte k p v)"
      using tt_set_pte [OF sp pr e] by blast
    let ?SD = "(swap_disk k)[nat (addrDisk e) := page]"
    let ?k = "k\<lparr>tables := T1, swap_disk := ?SD\<rparr>"
    have w: "PutPageSwap (addrDisk e) page (k\<lparr>tables := T1\<rparr>) = Some (addrDisk e, ?k)"
      using WriteSector_ok [OF sw(1) ad pg(2)] ad by (simp add: PutPageSwap_def)
    have sp2: "spaces_ok ?k" "processes ?k pid = Some pr" "pte ?k pid vp = Some (e\<lparr>addrDisk := - 1\<rparr>)"
      using T1(2,3) pr by simp_all
    obtain T2 where T2: "tt_set (pte_set (\<lambda>x. x\<lparr>addrDisk := addrDisk e\<rparr>)) (ptable pr) vp ?k = Some (?k\<lparr>tables := T2\<rparr>)"
      "spaces_ok (?k\<lparr>tables := T2\<rparr>)"
      "\<And>p v. pte (?k\<lparr>tables := T2\<rparr>) p v = (if p = pid \<and> v = vp then Some (e\<lparr>addrDisk := - 1\<rparr>\<lparr>addrDisk := addrDisk e\<rparr>) else pte ?k p v)"
      using tt_set_pte [OF sp2] by blast
    have "write_swap cfg (ptable pr) vp c k = Some (?k\<lparr>tables := T2\<rparr>)"
      using True dirty g fb T1(1) w T2(1) by (simp add: write_swap_def tt_ops)
    then have 1: "write_swap cfg (ptable pr) vp c k = Some (k\<lparr>tables := T2, page_flags := page_flags k, swap_disk := ?SD\<rparr>)"
      by (cases k) simp
    have 2: "spaces_ok (k\<lparr>tables := T2\<rparr>)" using T2(2) by (subst spaces_cong [of _ "?k\<lparr>tables := T2\<rparr>"]) simp_all
    have c: "pte (k\<lparr>tables := T2\<rparr>) = pte (?k\<lparr>tables := T2\<rparr>)" by (rule pte_cong) simp_all
    have "e\<lparr>addrDisk := - 1\<rparr>\<lparr>addrDisk := addrDisk e\<rparr> = e\<lparr>addrDisk := addrDisk e, swap := True\<rparr>" using True by simp
    then have 3: "pte (k\<lparr>tables := T2\<rparr>) p v =
        (if p = pid \<and> v = vp then Some (e\<lparr>addrDisk := addrDisk e, swap := True\<rparr>) else pte k p v)" for p v
      unfolding c using T2(3) [of p v] T1(3) [of p v] by simp
    show ?thesis by (rule that [OF 1 2 _ 3]) (simp add: swapped_to_def True dirty)
  qed
next
  case False
  note g = tt_get_pte [OF sp pr e, of swap] tt_get_pte [OF sp pr e, of bitM] tt_get_pte [OF sp pr e, of addrDisk]
  have fb: "frame_bytes cfg c (SectorSize cfg) (k\<lparr>tables := T\<rparr>) = Some page" for T using pg(1) by (simp add: frame_bytes_def)
  obtain T1 where T1: "tt_set (pte_set (\<lambda>e. e\<lparr>addrDisk := - 1\<rparr>)) (ptable pr) vp k = Some (k\<lparr>tables := T1\<rparr>)"
    "spaces_ok (k\<lparr>tables := T1\<rparr>)"
    "\<And>p v. pte (k\<lparr>tables := T1\<rparr>) p v = (if p = pid \<and> v = vp then Some (e\<lparr>addrDisk := - 1\<rparr>) else pte k p v)"
    using tt_set_pte [OF sp pr e] by blast
  obtain s FL where s: "GetFreePage (k\<lparr>tables := T1\<rparr>) = Some (s, k\<lparr>tables := T1\<rparr>\<lparr>page_flags := FL\<rparr>)" "0 \<le> s" "s < 2048"
    "s \<notin> marked (page_flags k)" "wf_bitmap FL" "numBits FL = 2048" "marked FL = insert s (marked (page_flags k))"
    using GetFreePage_ok [of "k\<lparr>tables := T1\<rparr>"] sw(2-4) by auto
  let ?SD = "(swap_disk k)[nat s := page]"
  let ?k = "k\<lparr>tables := T1, page_flags := FL, swap_disk := ?SD\<rparr>"
  have w: "PutPageSwap (- 1) page (k\<lparr>tables := T1\<rparr>) = Some (s, ?k)"
    using WriteSector_ok [OF sw(1) s(2,3) pg(2)] s by (simp add: PutPageSwap_def)
  have sp2: "spaces_ok ?k" "processes ?k pid = Some pr" "pte ?k pid vp = Some (e\<lparr>addrDisk := - 1\<rparr>)"
    using T1(2,3) pr by simp_all
  obtain T2 where T2: "tt_set (pte_set (\<lambda>x. x\<lparr>addrDisk := s\<rparr>)) (ptable pr) vp ?k = Some (?k\<lparr>tables := T2\<rparr>)"
    "spaces_ok (?k\<lparr>tables := T2\<rparr>)"
    "\<And>p v. pte (?k\<lparr>tables := T2\<rparr>) p v = (if p = pid \<and> v = vp then Some (e\<lparr>addrDisk := - 1\<rparr>\<lparr>addrDisk := s\<rparr>) else pte ?k p v)"
    using tt_set_pte [OF sp2] by blast
  have sp3: "processes (?k\<lparr>tables := T2\<rparr>) pid = Some pr" "pte (?k\<lparr>tables := T2\<rparr>) pid vp = Some (e\<lparr>addrDisk := s\<rparr>)"
    using pr T2(3) by simp_all
  obtain T3 where T3: "tt_set (pte_set (\<lambda>x. x\<lparr>swap := True\<rparr>)) (ptable pr) vp (?k\<lparr>tables := T2\<rparr>) = Some (?k\<lparr>tables := T2\<rparr>\<lparr>tables := T3\<rparr>)"
    "spaces_ok (?k\<lparr>tables := T2\<rparr>\<lparr>tables := T3\<rparr>)"
    "\<And>p v. pte (?k\<lparr>tables := T2\<rparr>\<lparr>tables := T3\<rparr>) p v =
      (if p = pid \<and> v = vp then Some (e\<lparr>addrDisk := s\<rparr>\<lparr>swap := True\<rparr>) else pte (?k\<lparr>tables := T2\<rparr>) p v)"
    using tt_set_pte [OF T2(2) sp3] by blast
  have "write_swap cfg (ptable pr) vp c k = Some (?k\<lparr>tables := T3\<rparr>)"
    using False g fb T1(1) w T2(1) T3(1) by (simp add: write_swap_def tt_ops)
  then have 1: "write_swap cfg (ptable pr) vp c k = Some (k\<lparr>tables := T3, page_flags := FL, swap_disk := ?SD\<rparr>)"
    by (cases k) simp
  have 2: "spaces_ok (k\<lparr>tables := T3\<rparr>)"
    using T3(2) by (subst spaces_cong [of _ "?k\<lparr>tables := T2\<rparr>\<lparr>tables := T3\<rparr>"]) simp_all
  have c: "pte (k\<lparr>tables := T3\<rparr>) = pte (?k\<lparr>tables := T2\<rparr>\<lparr>tables := T3\<rparr>)" by (rule pte_cong) simp_all
  have 3: "pte (k\<lparr>tables := T3\<rparr>) p v =
      (if p = pid \<and> v = vp then Some (e\<lparr>addrDisk := s, swap := True\<rparr>) else pte k p v)" for p v
    unfolding c using T3(3) [of p v] T2(3) [of p v] T1(3) [of p v] by simp
  show ?thesis by (rule that [OF 1 2 _ 3]) (simp add: swapped_to_def False s)
qed

subsection \<open>Eviction\<close>

lemma stat_access: "\<exists>ps g. stat_MemoryAccess k = k\<lparr>process_stat := ps, g_stats := g\<rparr>"
  by (auto simp: stat_MemoryAccess_def Let_def split: prod.splits)

lemma clear_used_Some:
  "clear_used S P p v = Some e' \<longleftrightarrow>
    (\<exists>e. P p v = Some e \<and> e' = (if (p, v) \<in> S then e\<lparr>bitU := False\<rparr> else e))"
  by (auto simp: clear_used_def)

lemma clear_used_fields:
  "clear_used S P p v = Some e' \<Longrightarrow> \<exists>e. P p v = Some e \<and> valid e = valid e' \<and> physicalPage e = physicalPage e'
    \<and> io e = io e' \<and> swap e = swap e' \<and> addrDisk e = addrDisk e' \<and> bitM e = bitM e'"
  "P p v = Some e \<Longrightarrow> \<exists>e'. clear_used S P p v = Some e' \<and> valid e' = valid e \<and> physicalPage e' = physicalPage e"
  by (auto simp: clear_used_Some)

lemma frames_ok_clear:
  assumes "frames_ok N P T F B L"
  shows "frames_ok N (clear_used S P) T F B L"
  unfolding frames_ok_def
proof (intro conjI allI impI)
  fix i
  assume i: "i < N" "\<not> tfree (T ! i)" "i \<notin> L"
  then obtain pid vp e where "\<not> locked (T ! i)" "holder T i = Some (pid, vp)" "P pid vp = Some e" "valid e" "physicalPage e = int i"
    using assms unfolding frames_ok_def by blast
  then show "\<not> locked (T ! i)" "\<exists>pid vp e. holder T i = Some (pid, vp) \<and> clear_used S P pid vp = Some e \<and> valid e \<and> physicalPage e = int i"
    using clear_used_fields(2) [of P pid vp e S] by auto
next
  fix pid vp e'
  assume e': "clear_used S P pid vp = Some e'"
  then obtain e where e: "P pid vp = Some e" "valid e = valid e'" "physicalPage e = physicalPage e'" "io e = io e'"
    using clear_used_fields(1) by blast
  show "\<exists>i<N. physicalPage e' = int i \<and> \<not> tfree (T ! i) \<and> i \<notin> L \<and> holder T i = Some (pid, vp)" if "valid e'"
    using assms e that unfolding frames_ok_def by metis
  show "(pid, vp) \<in> B" "\<not> valid e'" if "io e'"
    using assms e that unfolding frames_ok_def by metis+
qed (use assms in \<open>simp_all add: frames_ok_def\<close>)

lemma swap_ok_clear:
  assumes "swap_ok cfg P M FL SD"
  shows "swap_ok cfg (clear_used S P) M FL SD"
  unfolding swap_ok_def
proof (intro conjI allI impI)
  fix p v e' q w d'
  assume e': "clear_used S P p v = Some e'"
  then obtain e where e: "P p v = Some e" "valid e = valid e'" "physicalPage e = physicalPage e'" "swap e = swap e'"
    "addrDisk e = addrDisk e'" "bitM e = bitM e'"
    using clear_used_fields(1) by blast
  show "addrDisk e' \<in> marked FL" if "swap e'" using assms e that unfolding swap_ok_def by metis
  show "SD ! nat (addrDisk e') = frame_of cfg M (physicalPage e')" if "valid e'" "swap e'" "\<not> bitM e'"
    using assms e that unfolding swap_ok_def by metis
  assume d': "clear_used S P q w = Some d'" and s: "swap e'" "swap d'" "addrDisk e' = addrDisk d'"
  obtain d where "P q w = Some d" "swap d = swap d'" "addrDisk d = addrDisk d'" using clear_used_fields(1) [OF d'] by blast
  with assms e s show "p = q" "v = w" unfolding swap_ok_def by metis+
qed (use assms in \<open>simp_all add: swap_ok_def\<close>)

text \<open>What stays as it is.\<close>

definition vm_same :: "'a vm_scheme \<Rightarrow> 'a vm_scheme \<Rightarrow> bool" where
  "vm_same k k' \<longleftrightarrow> threads k' = threads k \<and> processes k' = processes k \<and> g_current_thread k' = g_current_thread k
     \<and> exec_file k' = exec_file k \<and> files k' = files k \<and> fs k' = fs k \<and> mmu_table k' = mmu_table k"

lemma vm_inv_all_used:
  assumes "vm_inv cfg B {} k" "free_page_list k = []"
  shows "all_used (nat (NumPhysPages cfg)) k"
  using assms unfolding vm_inv_def frames_ok_def all_used_def by auto

lemma vm_inv_clear:
  assumes "vm_inv cfg B L k" "spaces_ok (k\<lparr>tables := T\<rparr>)" "pte (k\<lparr>tables := T\<rparr>) = clear_used S (pte k)"
  shows "vm_inv cfg B L (k\<lparr>tables := T\<rparr>)" "contents cfg (k\<lparr>tables := T\<rparr>) = contents cfg k"
proof -
  show "vm_inv cfg B L (k\<lparr>tables := T\<rparr>)"
    using assms(1,2) unfolding vm_inv_def assms(3) by (auto intro: frames_ok_clear swap_ok_clear)
  show "contents cfg (k\<lparr>tables := T\<rparr>) = contents cfg k"
  proof (intro ext)
    fix p v
    show "contents cfg (k\<lparr>tables := T\<rparr>) p v = contents cfg k p v"
      unfolding contents_def assms(3) by (cases "pte k p v") (auto simp: clear_used_def frame_bytes_def read_file_def)
  qed
qed

lemma findMappedFile_none: "nb_mapped_files as \<le> 0 \<Longrightarrow> findMappedFile cfg addr as = Some None"
  by (simp add: findMappedFile_def)

lemma frame_bytes_ok:
  assumes "int (length (mainMemory k)) = NumPhysPages cfg * PageSize cfg" "0 < PageSize cfg" "int i < NumPhysPages cfg"
  shows "frame_bytes cfg (int i) (PageSize cfg) k = Some (frame_of cfg (mainMemory k) (int i))"
    "int (length (frame_of cfg (mainMemory k) (int i))) = PageSize cfg"
proof -
  have "int i * PageSize cfg + PageSize cfg \<le> NumPhysPages cfg * PageSize cfg"
    using assms(2,3) mult_right_mono [of "int i + 1" "NumPhysPages cfg" "PageSize cfg"] by (simp add: algebra_simps)
  then have b: "int i * PageSize cfg + PageSize cfg \<le> int (length (mainMemory k))" using assms(1) by simp
  then show "frame_bytes cfg (int i) (PageSize cfg) k = Some (frame_of cfg (mainMemory k) (int i))"
    using assms(2) by (simp add: frame_bytes_def bufpart_def frame_of_def)
  have "0 \<le> int i * PageSize cfg" using assms(2) by simp
  then have "nat (int i * PageSize cfg) + nat (PageSize cfg) \<le> length (mainMemory k)" using b assms(2) by linarith
  then show "int (length (frame_of cfg (mainMemory k) (int i))) = PageSize cfg"
    using assms(2) by (simp add: frame_of_def)
qed

text \<open>Taking a frame from its page, and the page into the swap area.\<close>

lemma evict_frames:
  assumes f: "frames_ok N P T F B {}" and c: "c < N" "\<not> tfree (T ! c)" "holder T c = Some (pid, vp)"
    and P': "\<And>p v. P' p v = (if p = pid \<and> v = vp then Some e' else P p v)" "\<not> valid e'" "\<not> io e'"
    and x: "\<not> tfree x"
  shows "frames_ok N P' (T[c := x]) F B {c}"
proof -
  have len: "length T = N" using f by (simp add: frames_ok_def)
  have at: "T[c := x] ! i = T ! i" "holder (T[c := x]) i = holder T i" if "i \<noteq> c" for i
    using that by (simp_all add: holder_def)
  have free: "tfree (T[c := x] ! i) = tfree (T ! i)" if "i < N" for i
    using that len x c(2) by (cases "i = c") simp_all
  show ?thesis
    unfolding frames_ok_def
  proof (intro conjI allI impI)
    show "set F = int ` {i. i < N \<and> tfree (T[c := x] ! i)}" using f free unfolding frames_ok_def by auto
  next
    fix i
    assume i: "i < N" "\<not> tfree (T[c := x] ! i)" "i \<notin> {c}"
    then have "\<not> tfree (T ! i)" using free by simp
    then obtain q w d where d: "\<not> locked (T ! i)" "holder T i = Some (q, w)" "P q w = Some d" "valid d" "physicalPage d = int i"
      using f i(1) unfolding frames_ok_def by blast
    have "P pid vp = Some d' \<Longrightarrow> valid d' \<Longrightarrow> physicalPage d' = int c" for d'
      using f c unfolding frames_ok_def by (metis nat_int option.inject prod.inject empty_iff)
    then have "\<not> (q = pid \<and> w = vp)" using d i(3) by auto
    then show "\<not> locked (T[c := x] ! i)" "\<exists>pid vp e. holder (T[c := x]) i = Some (pid, vp) \<and> P' pid vp = Some e \<and> valid e \<and> physicalPage e = int i"
      using d at i(3) P'(1) by auto
  next
    fix q w d
    assume d: "P' q w = Some d"
    show "(q, w) \<in> B" "\<not> valid d" if "io d"
      using d that P' f unfolding frames_ok_def by (metis option.inject)+
    assume v: "valid d"
    then have ne: "\<not> (q = pid \<and> w = vp)" using d P' by auto
    then have "P q w = Some d" using d P'(1) [of q w] by auto
    then obtain i where i: "i < N" "physicalPage d = int i" "\<not> tfree (T ! i)" "holder T i = Some (q, w)"
      using f v unfolding frames_ok_def by blast
    then have "i \<noteq> c" using c(3) ne by auto
    then show "\<exists>i<N. physicalPage d = int i \<and> \<not> tfree (T[c := x] ! i) \<and> i \<notin> {c} \<and> holder (T[c := x]) i = Some (q, w)"
      using i at free by (intro exI [of _ i]) simp
  qed (use f c x len in \<open>auto simp: frames_ok_def\<close>)
qed

lemma evict_swap:
  assumes s: "swap_ok cfg P M FL SD" and e: "P pid vp = Some e" "valid e"
    and P': "\<And>p v. P' p v = (if p = pid \<and> v = vp then Some e' else P p v)" "\<not> valid e'" "addrDisk e' = s"
    and w: "swapped_to (frame_of cfg M (physicalPage e)) e FL SD s FL' SD'"
    and len: "int (length (frame_of cfg M (physicalPage e))) = SectorSize cfg"
  shows "swap_ok cfg P' M FL' SD' \<and> 0 \<le> s \<and> s < 2048 \<and> SD' ! nat s = frame_of cfg M (physicalPage e)
    \<and> length SD' = 2048
    \<and> (\<forall>p v d. P p v = Some d \<longrightarrow> swap d \<longrightarrow> \<not> (p = pid \<and> v = vp) \<longrightarrow> SD' ! nat (addrDisk d) = SD ! nat (addrDisk d))"
proof -
  let ?pg = "frame_of cfg M (physicalPage e)"
  have fl: "wf_bitmap FL" "numBits FL = 2048" "wf_sectors cfg SD" using s by (simp_all add: swap_ok_def)
  have sb: "0 \<le> s" "s < 2048"
    using s w e(1) marked_bounds [of s FL] fl(2) by (auto simp: swap_ok_def swapped_to_def split: if_splits)
  have l: "length SD = 2048" using fl(3) by (simp add: wf_sectors_def)
  note wr = WriteSector_ok(2) [OF fl(3) sb len]
  have SD': "SD' = SD[nat s := ?pg]"
  proof (cases "swap e \<and> \<not> bitM e")
    case True
    then have "SD' = SD" "SD ! nat s = ?pg" using w s e by (auto simp: swapped_to_def swap_ok_def)
    then show ?thesis by (metis list_update_id)
  qed (use w in \<open>auto simp: swapped_to_def split: if_splits\<close>)
  have fl': "wf_bitmap FL'" "numBits FL' = 2048" "marked FL' = insert s (marked FL)"
  proof -
    have "swap e \<Longrightarrow> s \<in> marked FL" using w s e(1) by (auto simp: swapped_to_def swap_ok_def)
    then show "wf_bitmap FL'" "numBits FL' = 2048" "marked FL' = insert s (marked FL)"
      using w fl by (auto simp: swapped_to_def split: if_splits)
  qed
  have other: "addrDisk d \<noteq> s" "addrDisk d \<in> marked FL" if d: "P p v = Some d" "swap d" "\<not> (p = pid \<and> v = vp)" for p v d
  proof -
    show m: "addrDisk d \<in> marked FL" using d s by (auto simp: swap_ok_def)
    show "addrDisk d \<noteq> s"
    proof (cases "swap e")
      case True
      then have "s = addrDisk e" using w by (simp add: swapped_to_def)
      then show ?thesis using d e(1) s True unfolding swap_ok_def by metis
    next
      case False
      then show ?thesis using w m by (auto simp: swapped_to_def)
    qed
  qed
  have keep: "SD' ! nat (addrDisk d) = SD ! nat (addrDisk d)" if "P p v = Some d" "swap d" "\<not> (p = pid \<and> v = vp)" for p v d
  proof -
    have "nat (addrDisk d) \<noteq> nat s" using other [OF that] marked_bounds [of "addrDisk d" FL] sb by auto
    then show ?thesis unfolding SD' by simp
  qed
  have "swap_ok cfg P' M FL' SD'"
    unfolding swap_ok_def
  proof (intro conjI allI impI)
    show "wf_sectors cfg SD'" using wr unfolding SD' .
  next
    fix p v d
    assume d: "P' p v = Some d" "swap d"
    show "addrDisk d \<in> marked FL'" using d P' other fl'(3) by (cases "p = pid \<and> v = vp") auto
    assume "valid d" "\<not> bitM d"
    then have ne: "\<not> (p = pid \<and> v = vp)" "P p v = Some d" using d P' by (auto split: if_splits)
    then show "SD' ! nat (addrDisk d) = frame_of cfg M (physicalPage d)"
      using keep [OF ne(2) d(2) ne(1)] s d(2) \<open>valid d\<close> \<open>\<not> bitM d\<close> unfolding swap_ok_def by metis
  next
    fix p v d q u d'
    assume h: "P' p v = Some d" "P' q u = Some d'" "swap d" "swap d'" "addrDisk d = addrDisk d'"
    have "p = q \<and> v = u"
    proof (cases "p = pid \<and> v = vp")
      case True
      then have "addrDisk d = s" using h(1) P' by auto
      then have "q = pid \<and> u = vp" using other(1) [of q u d'] h P'(1) [of q u] by (auto split: if_splits)
      then show ?thesis using True by simp
    next
      case False
      then have d: "P p v = Some d" using h(1) P'(1) [of p v] by (auto split: if_splits)
      have "addrDisk d' \<noteq> s" using other(1) [OF d h(3) False] h(5) by simp
      then have "\<not> (q = pid \<and> u = vp)" using h(2) P' by auto
      then have "P q u = Some d'" using h(2) P'(1) [of q u] by (auto split: if_splits)
      then show ?thesis using d h s unfolding swap_ok_def by metis
    qed
    then show "p = q" "v = u" by simp_all
  qed (use fl' in simp_all)
  moreover have "SD' ! nat s = ?pg" "length SD' = 2048" unfolding SD' using sb l by simp_all
  ultimately show ?thesis using sb keep by blast
qed

text \<open>A free sector in the swap area.\<close>

definition swap_room :: "'a vm_scheme \<Rightarrow> bool" where
  "swap_room k \<longleftrightarrow> (\<exists>s. 0 \<le> s \<and> s < 2048 \<and> s \<notin> marked (page_flags k))"

text \<open>After the clock has chosen the frame \<open>c\<close> of the page \<open>vp\<close> of process \<open>pid\<close>.\<close>

lemma evict_chosen:
  assumes inv: "vm_inv cfg B {} k" and c: "c < nat (NumPhysPages cfg)" "\<not> tfree (tpr k ! c)"
    and room: "swap_room k" and cp: "current_pid k = Some cp" "processes k cp = Some cpr"
    and cl: "clock_loop cfg others ((i_clock k0 + 1) smod NumPhysPages cfg) 0 k0 = Some (int c, k)"
  obtains k' where "EvictPage cfg others k0 = Some (int c, k')" "vm_inv cfg B {c} k'" "contents cfg k' = contents cfg k"
    "vm_same k k'" "free_page_list k' = free_page_list k"
    "\<And>p v e. pte k p v = Some e \<Longrightarrow> \<not> valid e \<Longrightarrow> pte k' p v = Some e"
proof -
  let ?N = "nat (NumPhysPages cfg)" and ?M = "mainMemory k"
  have sp: "spaces_ok k" and ps: "0 < PageSize cfg" "SectorSize cfg = PageSize cfg"
    and mem: "int (length ?M) = NumPhysPages cfg * PageSize cfg"
    and fr: "frames_ok ?N (pte k) (tpr k) (free_page_list k) B {}"
    and sw: "swap_ok cfg (pte k) ?M (page_flags k) (swap_disk k)"
    and nm: "\<forall>pid pr. processes k pid = Some pr \<longrightarrow> nb_mapped_files (addrspace pr) \<le> 0"
    using inv by (simp_all add: vm_inv_def)
  obtain pid vp e where h: "holder (tpr k) c = Some (pid, vp)" "pte k pid vp = Some e" "valid e" "physicalPage e = int c"
    using fr c unfolding frames_ok_def by blast
  obtain pr where pr: "processes k pid = Some pr" using pte_process [OF h(2)] by blast
  have io: "\<not> io e" using fr h(2,3) unfolding frames_ok_def by blast
  have ow: "owner (tpr k ! c) = Some pid" "virtualPage (tpr k ! c) = vp" using h(1) by (simp_all add: holder_owner)
  have len: "length (tpr k) = ?N" using fr by (simp add: frames_ok_def)
  have cN: "int c < NumPhysPages cfg" using c(1) by linarith
  let ?pg = "frame_of cfg ?M (int c)"
  note fb = frame_bytes_ok [OF mem ps(1) cN]
  let ?x = "(tpr k ! c)\<lparr>locked := True\<rparr>"
  let ?t = "(tpr k)[c := ?x]"
  \<comment> \<open>the entry becomes invalid\<close>
  let ?k1 = "k\<lparr>i_clock := int c\<rparr>"
  have p1: "spaces_ok ?k1" "processes ?k1 pid = Some pr" "pte ?k1 pid vp = Some e" using sp pr h(2) by simp_all
  obtain T2 where T2: "tt_set (pte_set (\<lambda>e. e\<lparr>valid := False\<rparr>)) (ptable pr) vp ?k1 = Some (?k1\<lparr>tables := T2\<rparr>)"
    "spaces_ok (?k1\<lparr>tables := T2\<rparr>)"
    "\<And>p v. pte (?k1\<lparr>tables := T2\<rparr>) p v = (if p = pid \<and> v = vp then Some (e\<lparr>valid := False\<rparr>) else pte ?k1 p v)"
    using tt_set_pte [OF p1] by blast
  let ?k2 = "?k1\<lparr>tables := T2, tpr := ?t\<rparr>"
  have p2: "spaces_ok ?k2" "processes ?k2 pid = Some pr" "pte ?k2 pid vp = Some (e\<lparr>valid := False\<rparr>)"
    using T2(2,3) pr by simp_all
  have w2: "io_wait others (ptable pr) vp ?k2 = Some ?k2"
    using tt_get_pte [OF p2, of io] io by (subst io_wait.simps) (simp add: tt_ops)
  obtain T4 where T4: "tt_set (pte_set (\<lambda>e. e\<lparr>io := True\<rparr>)) (ptable pr) vp ?k2 = Some (?k2\<lparr>tables := T4\<rparr>)"
    "spaces_ok (?k2\<lparr>tables := T4\<rparr>)"
    "\<And>p v. pte (?k2\<lparr>tables := T4\<rparr>) p v = (if p = pid \<and> v = vp then Some (e\<lparr>valid := False, io := True\<rparr>) else pte ?k2 p v)"
    using tt_set_pte [OF p2, of "\<lambda>e. e\<lparr>io := True\<rparr>"] by auto
  define k4 where "k4 = ?k2\<lparr>tables := T4\<rparr>"
  let ?e4 = "e\<lparr>valid := False, io := True\<rparr>"
  have p4: "spaces_ok k4" "processes k4 pid = Some pr" "pte k4 pid vp = Some ?e4"
    using T4(2,3) pr by (simp_all add: k4_def)
  have f4: "mainMemory k4 = ?M" "swap_disk k4 = swap_disk k" "page_flags k4 = page_flags k" "processes k4 = processes k"
    "threads k4 = threads k" "g_current_thread k4 = g_current_thread k" "tpr k4 = ?t"
    by (simp_all add: k4_def)
  have pg4: "frame_bytes cfg (int c) (SectorSize cfg) k4 = Some ?pg" using fb(1) ps(2) f4(1) by (simp add: frame_bytes_def)
  have sw4: "wf_sectors cfg (swap_disk k4)" "wf_bitmap (page_flags k4)" "numBits (page_flags k4) = 2048"
    "\<exists>s. 0 \<le> s \<and> s < 2048 \<and> s \<notin> marked (page_flags k4)" "swap ?e4 \<Longrightarrow> addrDisk ?e4 \<in> marked (page_flags k4)"
    using sw h(2) room f4 by (auto simp: swap_ok_def swap_room_def)
  have lp: "int (length ?pg) = SectorSize cfg" using fb(2) ps(2) by simp
  obtain T5 FL SD s where S: "write_swap cfg (ptable pr) vp (int c) k4 = Some (k4\<lparr>tables := T5, page_flags := FL, swap_disk := SD\<rparr>)"
    "spaces_ok (k4\<lparr>tables := T5\<rparr>)" "swapped_to ?pg ?e4 (page_flags k4) (swap_disk k4) s FL SD"
    "\<And>p v. pte (k4\<lparr>tables := T5\<rparr>) p v = (if p = pid \<and> v = vp then Some (?e4\<lparr>addrDisk := s, swap := True\<rparr>) else pte k4 p v)"
    using write_swap_ok [OF p4 pg4 lp sw4] by metis
  let ?k5 = "k4\<lparr>tables := T5, page_flags := FL, swap_disk := SD\<rparr>"
  obtain ps g where st: "stat_MemoryAccess ?k5 = ?k5\<lparr>process_stat := ps, g_stats := g\<rparr>" using stat_access by blast
  let ?y = "?x\<lparr>owner := Some cp\<rparr>"
  let ?k6 = "?k5\<lparr>process_stat := ps, g_stats := g, tpr := ?t[c := ?y]\<rparr>"
  have cp4: "current_pid k4 = Some cp" using cp(1) by (simp add: current_pid_def GetProcessOwner_def f4)
  obtain th where th: "threads k (g_current_thread k) = Some th" "t_process th = Some cp"
    using cp(1) by (auto simp: current_pid_def GetProcessOwner_def elim!: bind_Some_cases)
  have co: "ChangeOwner (int c) (g_current_thread ?k5) ?k5 = Some ?k6"
    using th len c(1) by (simp add: ChangeOwner_def st f4 aget_nat aset_nat GetProcessOwner_def)
  have p6: "spaces_ok ?k6" "processes ?k6 pid = Some pr" "pte ?k6 pid vp = Some (?e4\<lparr>addrDisk := s, swap := True\<rparr>)"
    using S(2,4) p4(2) by simp_all
  obtain T7 where T7: "tt_set (pte_set (\<lambda>e. e\<lparr>io := False\<rparr>)) (ptable pr) vp ?k6 = Some (?k6\<lparr>tables := T7\<rparr>)"
    "spaces_ok (?k6\<lparr>tables := T7\<rparr>)"
    "\<And>p v. pte (?k6\<lparr>tables := T7\<rparr>) p v =
      (if p = pid \<and> v = vp then Some (?e4\<lparr>addrDisk := s, swap := True\<rparr>\<lparr>io := False\<rparr>) else pte ?k6 p v)"
    using tt_set_pte [OF p6, of "\<lambda>e. e\<lparr>io := False\<rparr>"] by blast
  define k' where "k' = ?k6\<lparr>tables := T7\<rparr>"
  let ?e' = "e\<lparr>valid := False, addrDisk := s, swap := True\<rparr>"
  have e': "?e4\<lparr>addrDisk := s, swap := True\<rparr>\<lparr>io := False\<rparr> = ?e'" using io by simp
  have c6: "pte ?k6 = pte (k4\<lparr>tables := T5\<rparr>)" by (rule pte_cong) simp_all
  have c4: "pte k4 p v = (if p = pid \<and> v = vp then Some ?e4 else pte ?k2 p v)" for p v
    using T4(3) unfolding k4_def .
  have c2: "pte ?k2 = pte (?k1\<lparr>tables := T2\<rparr>)" by (rule pte_cong) simp_all
  have c1: "pte ?k1 = pte k" by (rule pte_cong) simp_all
  have P': "pte k' p v = (if p = pid \<and> v = vp then Some ?e' else pte k p v)" for p v
    unfolding k'_def T7(3) e' c6 S(4) c4 c2 T2(3) c1 by simp
  have f': "mainMemory k' = ?M" "swap_disk k' = SD" "page_flags k' = FL" "tpr k' = (tpr k)[c := ?y]" "i_clock k' = int c"
    "free_page_list k' = free_page_list k" "vm_same k k'"
    by (simp_all add: k'_def k4_def vm_same_def)
  have ev: "EvictPage cfg others k0 = Some (int c, k')"
    using cl len c(1) ow pr T2(1) w2 T4(1) cp4 cp(2) nm S(1) co T7(1)
    by (simp add: EvictPage_def aget_nat aset_nat owner_table_def tt_ops f4 findMappedFile_none k4_def [symmetric] k'_def)
  have fr': "frames_ok ?N (pte k') (tpr k') (free_page_list k') B {c}"
    unfolding f' by (rule evict_frames [OF fr c h(1) P']) (use io c(2) in simp_all)
  have w': "swapped_to (frame_of cfg ?M (physicalPage e)) e (page_flags k) (swap_disk k) s FL SD"
    using S(3) h(4) f4 by (simp add: swapped_to_def)
  have sw': "swap_ok cfg (pte k') ?M FL SD" "0 \<le> s" "s < 2048" "SD ! nat s = ?pg" "length SD = 2048"
    "\<And>p v d. pte k p v = Some d \<Longrightarrow> swap d \<Longrightarrow> \<not> (p = pid \<and> v = vp) \<Longrightarrow> SD ! nat (addrDisk d) = swap_disk k ! nat (addrDisk d)"
    using evict_swap [OF sw h(2,3) P' _ _ w'] lp h(4) by simp_all
  have "vm_inv cfg B {c} k'"
    using inv fr' sw'(1) T7(2) cN unfolding vm_inv_def f' by (simp add: k'_def k4_def)
  moreover have "contents cfg k' = contents cfg k"
  proof (intro ext)
    fix p v
    show "contents cfg k' p v = contents cfg k p v"
    proof (cases "p = pid \<and> v = vp")
      case True
      then show ?thesis
        using P' h(2,3,4) fb(1) sw'(2-5) f' by (simp add: contents_def ReadSector_def aget_def)
    next
      case ne: False
      show ?thesis
      proof (cases "pte k p v")
        case (Some d)
        have "ReadSector (addrDisk d) SD = ReadSector (addrDisk d) (swap_disk k)" if "swap d"
          using sw'(5,6) Some that ne sw by (auto simp: ReadSector_def aget_def swap_ok_def wf_sectors_def)
        then show ?thesis
          using Some P' ne f' by (auto simp: contents_def frame_bytes_def read_file_def vm_same_def)
      qed (use P' ne in \<open>auto simp: contents_def\<close>)
    qed
  qed
  moreover have "pte k' p v = Some d" if "pte k p v = Some d" "\<not> valid d" for p v d
    using that P' h(2,3) by auto
  ultimately show ?thesis using that ev f'(6,7) by blast
qed

lemma frames_ok_used:
  assumes "frames_ok N P T F B L" "i < N" "\<not> tfree (T ! i)" "i \<notin> L" "holder T i = Some (p, v)"
  shows "\<exists>e. P p v = Some e \<and> valid e"
proof -
  obtain q w e where "holder T i = Some (q, w)" "P q w = Some e" "valid e"
    using assms(1-4) unfolding frames_ok_def by blast
  then show ?thesis using assms(5) by simp
qed

lemma EvictPage_ok:
  assumes inv: "vm_inv cfg B {} k" and full: "free_page_list k = []" and room: "swap_room k"
    and cp: "current_pid k = Some cp" "processes k cp = Some cpr"
  obtains c k' where "EvictPage cfg others k = Some (int c, k')" "c < nat (NumPhysPages cfg)" "vm_inv cfg B {c} k'"
    "contents cfg k' = contents cfg k" "vm_same k k'" "free_page_list k' = free_page_list k"
    "\<And>p v e. pte k p v = Some e \<Longrightarrow> \<not> valid e \<Longrightarrow> pte k' p v = Some e"
proof -
  let ?N = "nat (NumPhysPages cfg)"
  have sp: "spaces_ok k" and N: "0 < ?N" and cl: "- 1 \<le> i_clock k" "i_clock k < NumPhysPages cfg"
    and fr: "frames_ok ?N (pte k) (tpr k) (free_page_list k) B {}"
    using inv by (simp_all add: vm_inv_def)
  define c0 where "c0 = nat ((i_clock k + 1) smod NumPhysPages cfg)"
  have c0: "(i_clock k + 1) smod NumPhysPages cfg = int c0" "c0 < ?N"
    using cl N by (simp_all add: c0_def smod_nonneg nat_less_iff)
  note au = vm_inv_all_used [OF inv full]
  let ?c = "hand ?N c0 (second_chance ?N c0 k)"
  obtain T where T: "clock_loop cfg others (int c0) 0 k = Some (int ?c, k\<lparr>tables := T\<rparr>)" "spaces_ok (k\<lparr>tables := T\<rparr>)"
    "pte (k\<lparr>tables := T\<rparr>) = clear_used (passed ?N c0 (second_chance ?N c0 k) k) (pte k)"
    using clock_finds [OF sp au refl N c0(2)] by blast
  let ?k = "k\<lparr>tables := T\<rparr>"
  note i = vm_inv_clear [OF inv T(2,3)]
  have cN: "?c < ?N" by (rule hand_less [OF N])
  have nf: "\<not> tfree (tpr ?k ! ?c)"
  proof
    assume "tfree (tpr ?k ! ?c)"
    then have "int ?c \<in> set (free_page_list k)" using fr cN unfolding frames_ok_def by auto
    then show False using full by simp
  qed
  have room': "swap_room ?k" and cp': "current_pid ?k = Some cp" "processes ?k cp = Some cpr"
    using room cp by (simp_all add: swap_room_def current_pid_def GetProcessOwner_def)
  obtain k' where k': "EvictPage cfg others k = Some (int ?c, k')" "vm_inv cfg B {?c} k'" "contents cfg k' = contents cfg ?k"
    "vm_same ?k k'" "free_page_list k' = free_page_list ?k"
    "\<And>p v e. pte ?k p v = Some e \<Longrightarrow> \<not> valid e \<Longrightarrow> pte k' p v = Some e"
    using evict_chosen [OF i(1) cN nf room' cp' T(1) [folded c0(1)]] by blast
  have "pte k' p v = Some e" if e: "pte k p v = Some e" "\<not> valid e" for p v e
  proof -
    have "(p, v) \<notin> passed ?N c0 j k" for j
    proof
      assume "(p, v) \<in> passed ?N c0 j k"
      then obtain l where l: "holder (tpr k) (hand ?N c0 l) = Some (p, v)" by (auto simp: passed_def)
      have "hand ?N c0 l < ?N" by (rule hand_less [OF N])
      moreover have "\<not> tfree (tpr k ! hand ?N c0 l)"
      proof
        assume "tfree (tpr k ! hand ?N c0 l)"
        then have "int (hand ?N c0 l) \<in> set (free_page_list k)" using fr calculation unfolding frames_ok_def by auto
        then show False using full by simp
      qed
      ultimately obtain d where "pte k p v = Some d" "valid d" using frames_ok_used [OF fr _ _ _ l] by blast
      then show False using e by simp
    qed
    then have "pte ?k p v = Some e" using T(3) e(1) by (simp add: clear_used_def)
    then show ?thesis using k'(6) e(2) by blast
  qed
  note p = this
  have "contents cfg k' = contents cfg k" using k'(3) i(2) by (rule trans)
  moreover have "vm_same k k'" using k'(4) by (simp add: vm_same_def)
  moreover have "free_page_list k' = free_page_list k" using k'(5) by simp
  ultimately show ?thesis using that [OF k'(1) cN k'(2)] p by blast
qed

subsection \<open>A frame for a page\<close>

lemma limbo_frame:
  assumes f: "frames_ok N P T F B {c}" and x: "\<not> tfree x"
  shows "frames_ok N P (T[c := x]) F B {c}"
proof -
  have at: "T[c := x] ! i = T ! i" "holder (T[c := x]) i = holder T i" if "i \<noteq> c" for i
    using that by (simp_all add: holder_def)
  have len: "length T = N" "c < N" "\<not> tfree (T ! c)" using f by (simp_all add: frames_ok_def)
  have free: "tfree (T[c := x] ! i) = tfree (T ! i)" if "i < N" for i
    using that len x by (cases "i = c") simp_all
  show ?thesis
    unfolding frames_ok_def
  proof (intro conjI allI impI)
    show "set F = int ` {i. i < N \<and> tfree (T[c := x] ! i)}" using f free unfolding frames_ok_def by auto
  next
    fix i
    assume "i < N" "\<not> tfree (T[c := x] ! i)" "i \<notin> {c}"
    then show "\<not> locked (T[c := x] ! i)" "\<exists>pid vp e. holder (T[c := x]) i = Some (pid, vp) \<and> P pid vp = Some e \<and> valid e \<and> physicalPage e = int i"
      using f free at unfolding frames_ok_def by auto
  next
    fix q w d
    assume d: "P q w = Some d"
    show "(q, w) \<in> B" "\<not> valid d" if "io d" using d that f unfolding frames_ok_def by blast+
    assume "valid d"
    then obtain i where i: "i < N" "physicalPage d = int i" "\<not> tfree (T ! i)" "i \<notin> {c}" "holder T i = Some (q, w)"
      using f d unfolding frames_ok_def by blast
    then show "\<exists>i<N. physicalPage d = int i \<and> \<not> tfree (T[c := x] ! i) \<and> i \<notin> {c} \<and> holder (T[c := x]) i = Some (q, w)"
      using at free by (intro exI [of _ i]) simp
  qed (use f x len in \<open>auto simp: frames_ok_def\<close>)
qed

lemma take_free_frame:
  assumes f: "frames_ok N P T (int c # F) B {}" and x: "\<not> tfree x"
  shows "frames_ok N P (T[c := x]) F B {c}" "c < N" "tfree (T ! c)"
proof -
  have "int c \<in> int ` {i. i < N \<and> tfree (T ! i)}" using f unfolding frames_ok_def by (metis list.set_intros(1))
  then show c: "c < N" "tfree (T ! c)" by auto
  have len: "length T = N" using f by (simp add: frames_ok_def)
  have at: "T[c := x] ! i = T ! i" "holder (T[c := x]) i = holder T i" if "i \<noteq> c" for i
    using that by (simp_all add: holder_def)
  have d: "distinct (int c # F)" "set (int c # F) = int ` {i. i < N \<and> tfree (T ! i)}" using f by (simp_all add: frames_ok_def)
  have "set F = set (int c # F) - {int c}" using d(1) by auto
  also have "\<dots> = int ` {i. i < N \<and> tfree (T[c := x] ! i)}"
    unfolding d(2) using c x len by (auto simp: nth_list_update)
  finally have F: "set F = int ` {i. i < N \<and> tfree (T[c := x] ! i)}" .
  show "frames_ok N P (T[c := x]) F B {c}"
    unfolding frames_ok_def
  proof (intro conjI allI impI)
    fix i
    assume "i < N" "\<not> tfree (T[c := x] ! i)" "i \<notin> {c}"
    then show "\<not> locked (T[c := x] ! i)" "\<exists>pid vp e. holder (T[c := x]) i = Some (pid, vp) \<and> P pid vp = Some e \<and> valid e \<and> physicalPage e = int i"
      using f at unfolding frames_ok_def by auto
  next
    fix q w d
    assume d: "P q w = Some d"
    show "(q, w) \<in> B" "\<not> valid d" if "io d" using d that f unfolding frames_ok_def by blast+
    assume "valid d"
    then obtain i where i: "i < N" "physicalPage d = int i" "\<not> tfree (T ! i)" "holder T i = Some (q, w)"
      using f d unfolding frames_ok_def by blast
    then have "i \<noteq> c" using c(2) by auto
    then show "\<exists>i<N. physicalPage d = int i \<and> \<not> tfree (T[c := x] ! i) \<and> i \<notin> {c} \<and> holder (T[c := x]) i = Some (q, w)"
      using i at by (intro exI [of _ i]) simp
  qed (use F d(1) len c x in \<open>auto simp: f [unfolded frames_ok_def]\<close>)
qed

lemma contents_cong:
  assumes "pte k' = pte k" "mainMemory k' = mainMemory k" "swap_disk k' = swap_disk k" "vm_same k k'"
  shows "contents cfg k' = contents cfg k"
proof (intro ext)
  fix p v
  show "contents cfg k' p v = contents cfg k p v"
    using assms by (cases "pte k p v") (simp_all add: contents_def frame_bytes_def read_file_def vm_same_def)
qed

lemma FindFreePage_ok:
  assumes inv: "vm_inv cfg B {} k" and fl: "free_page_list k = page # rest"
  obtains c k' where "FindFreePage k = Some (int c, k')" "c < nat (NumPhysPages cfg)" "vm_inv cfg B {c} k'"
    "contents cfg k' = contents cfg k" "vm_same k k'" "pte k' = pte k"
proof -
  let ?N = "nat (NumPhysPages cfg)"
  have fr: "frames_ok ?N (pte k) (tpr k) (page # rest) B {}" using inv fl by (simp add: vm_inv_def)
  then have "page \<in> int ` {i. i < ?N \<and> tfree (tpr k ! i)}" unfolding frames_ok_def by (metis list.set_intros(1))
  then obtain c where c: "page = int c" by blast
  note t = take_free_frame [OF fr [unfolded c], of "(tpr k ! c)\<lparr>tfree := False\<rparr>"]
  have len: "length (tpr k) = ?N" using fr by (simp add: frames_ok_def)
  obtain ps g where st: "stat_MemoryAccess k = k\<lparr>process_stat := ps, g_stats := g\<rparr>" using stat_access by blast
  let ?k = "k\<lparr>process_stat := ps, g_stats := g, free_page_list := rest, tpr := (tpr k)[c := (tpr k ! c)\<lparr>tfree := False\<rparr>]\<rparr>"
  have 1: "FindFreePage k = Some (int c, ?k)"
    using t len by (simp add: FindFreePage_def fl c st Let_def aget_nat aset_nat)
  have 2: "vm_inv cfg B {c} ?k" using inv t(1) by (simp add: vm_inv_def)
  have 3: "vm_same k ?k" by (simp add: vm_same_def)
  have 4: "pte ?k = pte k" by simp
  show ?thesis by (rule that [OF 1 _ 2 contents_cong [OF 4 _ _ 3] 3 4]) (use t in simp_all)
qed

lemma AddPhysical_ok:
  assumes inv: "vm_inv cfg B {} k" and room: "swap_room k" and cp: "current_pid k = Some cp" "processes k cp = Some cpr"
  obtains c k' where "AddPhysicalToVirtualMapping cfg others own vp k = Some (int c, k')" "c < nat (NumPhysPages cfg)"
    "vm_inv cfg B {c} k'" "contents cfg k' = contents cfg k" "vm_same k k'"
    "\<And>p v e. pte k p v = Some e \<Longrightarrow> \<not> valid e \<Longrightarrow> pte k' p v = Some e"
    "holder (tpr k') c = Some (own, vp)" "locked (tpr k' ! c)"
proof -
  let ?N = "nat (NumPhysPages cfg)"
  obtain c k1 where k1: "Option.bind (FindFreePage k) (\<lambda>(page0, k1). if page0 = - 1 then EvictPage cfg others k1 else Some (page0, k1))
      = Some (int c, k1)" "c < ?N" "vm_inv cfg B {c} k1" "contents cfg k1 = contents cfg k" "vm_same k k1"
    "\<And>p v e. pte k p v = Some e \<Longrightarrow> \<not> valid e \<Longrightarrow> pte k1 p v = Some e"
  proof (cases "free_page_list k")
    case Nil
    then have "FindFreePage k = Some (- 1, k)" by (simp add: FindFreePage_def)
    then have b: "Option.bind (FindFreePage k) (\<lambda>(page0, k1). if page0 = - 1 then EvictPage cfg others k1 else Some (page0, k1))
        = EvictPage cfg others k" by simp
    show ?thesis
    proof (rule EvictPage_ok [OF inv Nil room cp, where others = others])
      fix c k1
      assume f: "EvictPage cfg others k = Some (int c, k1)" "c < ?N" "vm_inv cfg B {c} k1"
        "contents cfg k1 = contents cfg k" "vm_same k k1" "free_page_list k1 = free_page_list k"
        "\<And>p v e. pte k p v = Some e \<Longrightarrow> \<not> valid e \<Longrightarrow> pte k1 p v = Some e"
      show ?thesis by (rule that [OF _ f(2-5,7)]) (simp only: b f(1))
    qed
  next
    case (Cons page rest)
    obtain c k1 where f: "FindFreePage k = Some (int c, k1)" "c < ?N" "vm_inv cfg B {c} k1"
      "contents cfg k1 = contents cfg k" "vm_same k k1" "pte k1 = pte k"
      using FindFreePage_ok [OF inv Cons] by blast
    show ?thesis by (rule that [OF _ f(2-5)]) (use f(1,6) in simp_all)
  qed
  have fr: "frames_ok ?N (pte k1) (tpr k1) (free_page_list k1) B {c}" using k1(3) by (simp add: vm_inv_def)
  have len: "length (tpr k1) = ?N" "\<not> tfree (tpr k1 ! c)" using fr by (simp_all add: frames_ok_def)
  let ?x = "(tpr k1 ! c)\<lparr>virtualPage := vp, owner := Some own, locked := True\<rparr>"
  let ?k = "k1\<lparr>tpr := (tpr k1)[c := ?x]\<rparr>"
  have 1: "AddPhysicalToVirtualMapping cfg others own vp k = Some (int c, ?k)"
  proof -
    have "AddPhysicalToVirtualMapping cfg others own vp k =
        Option.bind (Option.bind (FindFreePage k) (\<lambda>(page0, k1). if page0 = - 1 then EvictPage cfg others k1 else Some (page0, k1)))
          (\<lambda>(page, k2). do {
            e \<leftarrow> aget (tpr k2) page;
            t \<leftarrow> aset (tpr k2) page (e\<lparr>virtualPage := vp, owner := Some own, locked := True\<rparr>);
            Some (page, k2\<lparr>tpr := t\<rparr>) })"
      by (cases "FindFreePage k") (auto simp: AddPhysicalToVirtualMapping_def)
    then show ?thesis unfolding k1(1) using k1(2) len by (simp add: aget_nat aset_nat)
  qed
  have "frames_ok ?N (pte k1) ((tpr k1)[c := ?x]) (free_page_list k1) B {c}" by (rule limbo_frame [OF fr]) (use len in simp)
  then have 2: "vm_inv cfg B {c} ?k" using k1(3) by (simp add: vm_inv_def)
  have s: "vm_same k1 ?k" "pte ?k = pte k1" by (simp_all add: vm_same_def)
  have 3: "contents cfg ?k = contents cfg k" using contents_cong [OF s(2) _ _ s(1), of cfg] k1(4) by simp
  have 4: "vm_same k ?k" using k1(5) by (simp add: vm_same_def)
  show ?thesis by (rule that [OF 1 k1(2) 2 3 4]) (use k1(2,6) len in \<open>simp_all add: holder_def\<close>)
qed

subsection \<open>Loading a page\<close>

lemma length_new_page [simp]: "length (new_page cfg) = nat (PageSize cfg)"
  by (simp add: new_page_def)

lemma blit_length: "blit buf off bs = Some r \<Longrightarrow> length r = length buf"
  by (auto simp: blit_def nat_less_iff split: if_splits)

lemma read_file_length: "read_file cfg fid ad (new_page cfg) k = Some b \<Longrightarrow> length b = nat (PageSize cfg)"
  by (auto simp: read_file_def dest!: blit_length elim!: bind_Some_cases)

lemma load_page_ok:
  assumes inv: "vm_inv cfg B L k" and cp: "current_pid k = Some cp" "processes k cp = Some cpr"
    and e: "pte k cp vp = Some e" "\<not> valid e" and c: "contents cfg k cp vp = Some b"
  shows "load_page cfg others (ptable cpr) vp None (addrDisk e) k = Some (b, k) \<and> length b = nat (PageSize cfg)"
proof -
  have sp: "spaces_ok k" and ps: "0 < PageSize cfg" "SectorSize cfg = PageSize cfg"
    and sw: "swap_ok cfg (pte k) (mainMemory k) (page_flags k) (swap_disk k)"
    using inv by (simp_all add: vm_inv_def)
  have g: "tt_get (pte_get swap) (ptable cpr) vp k = Some (swap e)"
    "tt_get (pte_get addrDisk) (ptable cpr) vp k = Some (addrDisk e)"
    by (rule tt_get_pte [OF sp cp(2) e(1)])+
  show ?thesis
  proof (cases "swap e")
    case True
    then have r: "ReadSector (addrDisk e) (swap_disk k) = Some b" using c e by (simp add: contents_def)
    have "addrDisk e \<in> marked (page_flags k)" using sw e(1) True by (simp add: swap_ok_def)
    then have ne: "addrDisk e \<noteq> - 1" using marked_bounds by fastforce
    have "b \<in> set (swap_disk k)" using r by (auto simp: ReadSector_def aget_def split: if_splits)
    then have lb: "int (length b) = PageSize cfg" using sw ps(2) by (auto simp: swap_ok_def wf_sectors_def)
    have "sector_wait others (ptable cpr) vp (addrDisk e) k = Some (addrDisk e, k)"
      using ne by (subst sector_wait.simps) simp
    then have "load_page cfg others (ptable cpr) vp None (addrDisk e) k = Some (b, k)"
      using True g r lb by (auto simp: load_page_def tt_ops GetPageSwap_def blit_def)
    then show ?thesis using lb by simp
  next
    case False
    show ?thesis
    proof (cases "addrDisk e = - 1")
      case True
      then show ?thesis using c e False g by (auto simp: load_page_def tt_ops contents_def)
    next
      case ne: False
      then have r: "(do { fid \<leftarrow> exec_file k cp; read_file cfg fid (addrDisk e) (new_page cfg) k }) = Some b"
        using c e False by (simp add: contents_def)
      then have "length b = nat (PageSize cfg)" by (auto elim!: bind_Some_cases dest: read_file_length)
      then show ?thesis using r ne False g cp(1) by (auto simp: load_page_def tt_ops elim!: bind_Some_cases)
    qed
  qed
qed

text \<open>Writing one frame.\<close>

lemma frame_of_blit:
  assumes "int (length M) = N * PageSize cfg" "0 < PageSize cfg" "int c < N" "length b = nat (PageSize cfg)"
  obtains M' where "blit M (int c * PageSize cfg) b = Some M'" "length M' = length M" "frame_of cfg M' (int c) = b"
    "\<And>i. i \<noteq> c \<Longrightarrow> frame_of cfg M' (int i) = frame_of cfg M (int i)"
proof -
  define S where "S = nat (PageSize cfg)"
  have S: "PageSize cfg = int S" "0 < S" "length b = S" using assms by (simp_all add: S_def)
  have "(int c + 1) * int S \<le> N * int S" using assms(3) by (intro mult_right_mono) simp_all
  then have "int (c * S + S) \<le> int (length M)" using assms(1) S(1) by (simp add: algebra_simps)
  then have fits: "c * S + S \<le> length M" by linarith
  define M' where "M' = take (c * S) M @ b @ drop (c * S + S) M"
  have ci: "nat (int i * int S) = i * S" for i by (simp add: nat_mult_distrib)
  have 1: "blit M (int c * PageSize cfg) b = Some M'"
    using blit_nat [of "c * S" b M] fits S by (simp add: M'_def)
  have 2: "length M' = length M" using fits S(3) by (simp add: M'_def)
  have 3: "frame_of cfg M' (int c) = b" using fits S(3) by (simp add: frame_of_def S(1) ci M'_def)
  have 4: "frame_of cfg M' (int i) = frame_of cfg M (int i)" if "i \<noteq> c" for i
  proof (cases "i < c")
    case True
    then have "Suc i * S \<le> c * S" by (intro mult_right_mono) simp_all
    then have b: "i * S + S \<le> c * S" by simp
    have "take S (drop (i * S) M') = take S (drop (i * S) (take (c * S) M))"
      using b fits by (simp add: M'_def)
    also have "\<dots> = take S (drop (i * S) M)" using b by (simp add: drop_take min_def)
    finally show ?thesis by (simp add: frame_of_def S(1) ci)
  next
    case False
    then have "Suc c * S \<le> i * S" using that by (intro mult_right_mono) simp_all
    then have b: "c * S + S \<le> i * S" by (simp only: mult_Suc add.commute)
    then have "\<not> i * S < c * S" "c * S \<le> i * S" "i * S - c * S - S + (c * S + S) = i * S" by linarith+
    then have "drop (i * S) M' = drop (i * S) M"
      using fits S(3) b by (simp add: M'_def del: mult_le_cancel2 nat_mult_le_cancel_disj)
    then show ?thesis by (simp add: frame_of_def S(1) ci)
  qed
  show ?thesis by (rule that [OF 1 2 3 4])
qed

end
