(* ===== verification/Nachos_UserMem.thy ===== *)
theory Nachos_UserMem
  imports Nachos_Syscalls Nachos_VMProps
begin

text \<open>
  User memory as the system calls see it. \<open>uaddr\<close> is the byte of the main memory behind a
  virtual address whose page is present, and whether it may be written; accesses to such
  addresses meet no fault, and change nothing but the bits \<open>U\<close> and \<open>M\<close>, the statistics, and
  for a write the byte.
\<close>

subsection \<open>Addresses\<close>

definition uaddr :: "config \<Rightarrow> 'a machine_scheme \<Rightarrow> u32 \<Rightarrow> (nat \<times> bool) option" where
  "uaddr cfg m va =
     (case mmu_table m of None \<Rightarrow> None
      | Some a \<Rightarrow> (case tables m a of None \<Rightarrow> None
        | Some t \<Rightarrow> if 0 \<le> sint va \<and> mapped cfg m va a t
            then Some (nat (phys_addr cfg t va), writeAllowed (entry t (page_of cfg va))) else None))"

lemma uaddr_mapped:
  assumes "uaddr cfg m va = Some (p, w)"
  obtains a t where "mmu_table m = Some a" "tables m a = Some t" "mapped cfg m va a t" "0 \<le> sint va"
    "p = nat (phys_addr cfg t va)" "w = writeAllowed (entry t (page_of cfg va))"
  using assms by (auto simp: uaddr_def split: option.splits if_splits)

lemma uaddr_cong:
  "mmu_table m' = mmu_table m \<Longrightarrow> tables m' = tables m \<Longrightarrow> uaddr cfg m' = uaddr cfg m"
  by (intro ext) (simp add: uaddr_def mapped_def split: option.split)

lemma uaddr_accessed:
  assumes m: "mapped cfg m va a t"
  shows "uaddr cfg (accessed cfg w va a t m) = uaddr cfg m"
proof (intro ext)
  fix v
  let ?t = "upd_entry (touch w) t (page_of cfg va)"
  have t: "mmu_table m = Some a" "tables m a = Some t" "wf_table t" "in_table t (page_of cfg va)"
    using m by (simp_all add: mapped_def)
  have "mapped cfg (accessed cfg w va a t m) v a ?t = mapped cfg m v a t
    \<and> (mapped cfg m v a t \<longrightarrow> phys_addr cfg ?t v = phys_addr cfg t v
        \<and> writeAllowed (entry ?t (page_of cfg v)) = writeAllowed (entry t (page_of cfg v)))"
  proof (cases "in_table t (page_of cfg v)")
    case True
    have f: "valid (entry ?t (page_of cfg v)) = valid (entry t (page_of cfg v))"
      "physicalPage (entry ?t (page_of cfg v)) = physicalPage (entry t (page_of cfg v))"
      "readAllowed (entry ?t (page_of cfg v)) = readAllowed (entry t (page_of cfg v))"
      "writeAllowed (entry ?t (page_of cfg v)) = writeAllowed (entry t (page_of cfg v))"
      using t(3,4) True by (cases "page_of cfg v = page_of cfg va"; simp)+
    show ?thesis using t True by (simp add: mapped_def phys_addr_def f)
  next
    case False
    then show ?thesis using t by (auto simp: mapped_def)
  qed
  then show "uaddr cfg (accessed cfg w va a t m) v = uaddr cfg m v"
    using t by (simp add: uaddr_def)
qed

text \<open>States that differ in the bits \<open>U\<close> and \<open>M\<close> and the statistics.\<close>

definition touched :: "config \<Rightarrow> 'a machine_scheme \<Rightarrow> 'a machine_scheme \<Rightarrow> bool" where
  "touched cfg m m' \<longleftrightarrow> (\<exists>ps g T. m' = m\<lparr>process_stat := ps, g_stats := g, tables := T\<rparr>) \<and> uaddr cfg m' = uaddr cfg m"

lemma touched_refl: "touched cfg m m"
  unfolding touched_def by (intro conjI exI [of _ "process_stat m"] exI [of _ "g_stats m"] exI [of _ "tables m"]) simp_all

lemma touchedI: "m' = m\<lparr>process_stat := ps, g_stats := g, tables := T\<rparr> \<Longrightarrow> uaddr cfg m' = uaddr cfg m \<Longrightarrow> touched cfg m m'"
  unfolding touched_def by blast

lemma touched_trans:
  assumes "touched cfg m m'" "touched cfg m' m''"
  shows "touched cfg m m''"
proof -
  obtain ps g T where 1: "m' = m\<lparr>process_stat := ps, g_stats := g, tables := T\<rparr>" using assms(1) by (auto simp: touched_def)
  obtain ps' g' T' where 2: "m'' = m'\<lparr>process_stat := ps', g_stats := g', tables := T'\<rparr>" using assms(2) by (auto simp: touched_def)
  have "m'' = m\<lparr>process_stat := ps', g_stats := g', tables := T'\<rparr>" unfolding 2 1 by simp
  then show ?thesis by (rule touchedI) (use assms in \<open>simp add: touched_def\<close>)
qed

lemma touched_frame:
  assumes "touched cfg m m'"
  shows "mainMemory m' = mainMemory m" "uaddr cfg m' = uaddr cfg m" "int_registers m' = int_registers m"
    "mmu_table m' = mmu_table m"
  using assms by (auto simp: touched_def)

lemma accessed_touched:
  assumes "mapped cfg m va a t"
  shows "touched cfg m (accessed cfg w va a t m)"
proof -
  have e: "\<exists>ps g. stat_MemoryAccess m = m\<lparr>process_stat := ps, g_stats := g\<rparr>" for m :: "'a machine_scheme"
    by (auto simp: stat_MemoryAccess_def split: prod.split)
  obtain ps1 g1 where 1: "stat_MemoryAccess m = m\<lparr>process_stat := ps1, g_stats := g1\<rparr>" using e by blast
  obtain ps2 g2 where 2: "stat_MemoryAccess (stat_MemoryAccess m) = m\<lparr>process_stat := ps2, g_stats := g2\<rparr>"
    using e [of "stat_MemoryAccess m"] unfolding 1 by auto
  obtain ps3 g3 where 3: "stat_MemoryAccess (stat_MemoryAccess (stat_MemoryAccess m)) = m\<lparr>process_stat := ps3, g_stats := g3\<rparr>"
    using e [of "stat_MemoryAccess (stat_MemoryAccess m)"] unfolding 2 by auto
  show ?thesis
    by (rule touchedI [OF _ uaddr_accessed [OF assms]]) (simp add: accessed_def 3)
qed

lemma wf_memory_cong: "mainMemory m' = mainMemory m \<Longrightarrow> wf_memory cfg m' = wf_memory cfg m"
  by (simp add: wf_memory_def)

subsection \<open>Bytes\<close>

lemma scast_byte: "ucast (scast (b :: byte) :: u32) = b" "scast (b :: byte) = (0 :: u32) \<longleftrightarrow> b = 0"
  "scast (b :: byte) = (scast c :: u32) \<longleftrightarrow> b = c"
proof -
  show r: "ucast (scast b :: u32) = b" for b :: byte by (rule bit_word_eqI) (simp add: bit_simps)
  show "scast b = (scast c :: u32) \<longleftrightarrow> b = c" by (metis r)
  show "scast b = (0 :: u32) \<longleftrightarrow> b = 0" by (metis r scast_0 ucast_0)
qed

lemma aligned_1 [simp]: "aligned 1 va" "aligned (Suc 0) va"
  by (simp_all add: aligned_def)

lemma uaddr_bounds:
  assumes "wf_memory cfg m" "uaddr cfg m va = Some (p, w)"
  shows "p < length (mainMemory m)"
proof -
  obtain a t where t: "mapped cfg m va a t" "0 \<le> sint va" "p = nat (phys_addr cfg t va)"
    using uaddr_mapped [OF assms(2)] by blast
  have "0 < PageSize cfg" "4 dvd PageSize cfg" using assms(1) by (simp_all add: wf_memory_def)
  from phys_addr_bounds(3,4) [OF t(1) aligned_1(1) t(2) this]
  have "0 \<le> phys_addr cfg t va" "phys_addr cfg t va + 1 \<le> int (length (mainMemory m))"
    using assms(1) by (simp_all add: wf_memory_def)
  then show ?thesis using t(3) by linarith
qed

lemma user_byte_ok:
  assumes "wf_memory cfg k" "uaddr cfg k va = Some (p, w)"
  obtains k' where "user_byte cfg oth va k = Some (scast (mainMemory k ! p), k')" "touched cfg k k'"
proof -
  obtain a t where t: "mmu_table k = Some a" "tables k a = Some t" "mapped cfg k va a t" "0 \<le> sint va" "p = nat (phys_addr cfg t va)"
    using uaddr_mapped [OF assms(2)] by blast
  let ?k = "accessed cfg False va a t k"
  have ps: "0 < PageSize cfg" "4 dvd PageSize cfg" using assms(1) by (simp_all add: wf_memory_def)
  have "0 \<le> phys_addr cfg t va" by (rule phys_addr_bounds(3) [OF t(3) aligned_1(1) t(4) ps])
  then have "load_value ?k 1 (phys_addr cfg t va) = Some (scast (mainMemory k ! p))"
    using uaddr_bounds [OF assms] t(5) by (simp add: load_value_def aget_def)
  then have "user_byte cfg oth va k = Some (scast (mainMemory k ! p), ?k)"
    using ReadMem_ok [OF t(3), of 1] by (simp add: user_byte_def)
  then show ?thesis using that accessed_touched [OF t(3)] by blast
qed

text \<open>The bytes behind \<open>n\<close> addresses from \<open>va\<close> on are those at the places \<open>pa\<close>.\<close>

definition at_places :: "config \<Rightarrow> 'a machine_scheme \<Rightarrow> u32 \<Rightarrow> nat \<Rightarrow> (nat \<Rightarrow> nat) \<Rightarrow> bool \<Rightarrow> bool" where
  "at_places cfg m va n pa writing \<longleftrightarrow>
     (\<forall>j < n. \<exists>w. uaddr cfg m (va + of_nat j) = Some (pa j, w) \<and> (writing \<longrightarrow> w))"

lemma at_places_Suc:
  assumes "at_places cfg m va (Suc n) pa writing"
  shows "\<exists>w. uaddr cfg m va = Some (pa 0, w) \<and> (writing \<longrightarrow> w)" "at_places cfg m (va + 1) n (\<lambda>j. pa (Suc j)) writing"
proof -
  show "\<exists>w. uaddr cfg m va = Some (pa 0, w) \<and> (writing \<longrightarrow> w)"
    using assms unfolding at_places_def by (elim allE [of _ 0]) simp
  show "at_places cfg m (va + 1) n (\<lambda>j. pa (Suc j)) writing"
    unfolding at_places_def
  proof (intro allI impI)
    fix j
    assume "j < n"
    moreover have "va + 1 + of_nat j = va + of_nat (Suc j)" by simp
    ultimately show "\<exists>w. uaddr cfg m (va + 1 + of_nat j) = Some (pa (Suc j), w) \<and> (writing \<longrightarrow> w)"
      using assms unfolding at_places_def by (metis Suc_mono)
  qed
qed

lemma at_places_cong: "uaddr cfg m' = uaddr cfg m \<Longrightarrow> at_places cfg m' = at_places cfg m"
  by (intro ext) (simp add: at_places_def)

lemma read_user_ok:
  assumes "wf_memory cfg k" "at_places cfg k va n pa False"
  shows "\<exists>k'. read_user cfg oth n va k = Some (map (\<lambda>j. mainMemory k ! pa j) [0..<n], k') \<and> touched cfg k k'"
  using assms
proof (induction n arbitrary: va k pa)
  case 0
  then show ?case by (simp add: touched_refl)
next
  case (Suc n)
  note a = at_places_Suc [OF Suc.prems(2)]
  obtain k1 where k1: "user_byte cfg oth va k = Some (scast (mainMemory k ! pa 0), k1)" "touched cfg k k1"
    using a(1) user_byte_ok [OF Suc.prems(1)] by blast
  note f = touched_frame [OF k1(2)]
  have "wf_memory cfg k1" "at_places cfg k1 (va + 1) n (\<lambda>j. pa (Suc j)) False"
    using Suc.prems(1) a(2) f wf_memory_cong [OF f(1)] at_places_cong [OF f(2)] by simp_all
  from Suc.IH [OF this] obtain k2 where k2: "read_user cfg oth n (va + 1) k1
      = Some (map (\<lambda>j. mainMemory k ! pa (Suc j)) [0..<n], k2)" "touched cfg k1 k2" unfolding f(1) by blast
  have l: "map (\<lambda>j. mainMemory k ! pa j) [0..<Suc n] = mainMemory k ! pa 0 # map (\<lambda>j. mainMemory k ! pa (Suc j)) [0..<n]"
    unfolding upt_conv_Cons [OF zero_less_Suc] map_Suc_upt [symmetric] by simp
  show ?case
    using k1(1) k2 touched_trans [OF k1(2) k2(2)] unfolding l by (simp add: scast_byte)
qed

subsection \<open>Strings\<close>

text \<open>The C string \<open>s\<close> is at \<open>va\<close>.\<close>

definition string_at :: "config \<Rightarrow> 'a machine_scheme \<Rightarrow> u32 \<Rightarrow> (nat \<Rightarrow> nat) \<Rightarrow> byte list \<Rightarrow> bool" where
  "string_at cfg m va pa s \<longleftrightarrow> at_places cfg m va (Suc (length s)) pa False \<and> 0 \<notin> set s
     \<and> (\<forall>j < length s. mainMemory m ! pa j = s ! j) \<and> mainMemory m ! pa (length s) = 0"

lemma string_at_cong: "touched cfg m m' \<Longrightarrow> string_at cfg m' va pa s = string_at cfg m va pa s"
  using touched_frame(1,2) [of cfg m m'] at_places_cong [of cfg m' m] by (simp add: string_at_def)

lemma string_at_Nil: "string_at cfg m va pa [] \<Longrightarrow> \<exists>w. uaddr cfg m va = Some (pa 0, w) \<and> mainMemory m ! pa 0 = 0"
  using at_places_Suc(1) [of cfg m va 0 pa False] by (auto simp: string_at_def)

lemma string_at_Cons:
  assumes "string_at cfg m va pa (c # s)"
  shows "\<exists>w. uaddr cfg m va = Some (pa 0, w)" "mainMemory m ! pa 0 = c" "c \<noteq> 0" "string_at cfg m (va + 1) (\<lambda>j. pa (Suc j)) s"
proof -
  have a: "at_places cfg m va (Suc (Suc (length s))) pa False" using assms by (simp add: string_at_def)
  show "\<exists>w. uaddr cfg m va = Some (pa 0, w)" using at_places_Suc(1) [OF a] by blast
  show "mainMemory m ! pa 0 = c" "c \<noteq> 0" using assms by (auto simp: string_at_def)
  have "\<forall>j < length s. mainMemory m ! pa (Suc j) = s ! j" using assms by (auto simp: string_at_def)
  then show "string_at cfg m (va + 1) (\<lambda>j. pa (Suc j)) s"
    using assms at_places_Suc(2) [OF a] by (simp add: string_at_def)
qed

lemma length_from_ok:
  assumes "wf_memory cfg k" "string_at cfg k va pa s"
  shows "\<exists>k'. length_from cfg oth va i k = Some (i + int (length s) + 1, k') \<and> touched cfg k k'"
  using assms
proof (induction s arbitrary: va k pa i)
  case Nil
  obtain k1 where "user_byte cfg oth va k = Some (scast (mainMemory k ! pa 0), k1)" "touched cfg k k1"
    using string_at_Nil [OF Nil.prems(2)] user_byte_ok [OF Nil.prems(1)] by blast
  then show ?case
    using string_at_Nil [OF Nil.prems(2)] by (subst length_from.simps) auto
next
  case (Cons c s)
  note c = string_at_Cons [OF Cons.prems(2)]
  obtain k1 where k1: "user_byte cfg oth va k = Some (scast (mainMemory k ! pa 0), k1)" "touched cfg k k1"
    using c(1) user_byte_ok [OF Cons.prems(1)] by blast
  have "wf_memory cfg k1" "string_at cfg k1 (va + 1) (\<lambda>j. pa (Suc j)) s"
    using Cons.prems(1) c(4) wf_memory_cong [OF touched_frame(1) [OF k1(2)]] string_at_cong [OF k1(2)] by simp_all
  from Cons.IH [OF this, of "i + 1"] obtain k2 where
    "length_from cfg oth (va + 1) (i + 1) k1 = Some (i + 1 + int (length s) + 1, k2)" "touched cfg k1 k2" by blast
  then show ?case
    using k1 c(2,3) touched_trans [OF k1(2)] by (subst length_from.simps) (auto simp: scast_byte)
qed

lemma string_from_ok:
  assumes "wf_memory cfg k" "string_at cfg k va pa s" "length s < n"
  shows "\<exists>k'. string_from cfg oth n va k = Some (s @ [0], k') \<and> touched cfg k k'"
  using assms
proof (induction s arbitrary: va k pa n)
  case Nil
  obtain k1 where "user_byte cfg oth va k = Some (scast (mainMemory k ! pa 0), k1)" "touched cfg k k1"
    using string_at_Nil [OF Nil.prems(2)] user_byte_ok [OF Nil.prems(1)] by blast
  then show ?case
    using string_at_Nil [OF Nil.prems(2)] Nil.prems(3) by (cases n) (auto simp: scast_byte)
next
  case (Cons c s)
  obtain m where n: "n = Suc m" "length s < m" using Cons.prems(3) by (cases n) auto
  note c = string_at_Cons [OF Cons.prems(2)]
  obtain k1 where k1: "user_byte cfg oth va k = Some (scast (mainMemory k ! pa 0), k1)" "touched cfg k k1"
    using c(1) user_byte_ok [OF Cons.prems(1)] by blast
  have "wf_memory cfg k1" "string_at cfg k1 (va + 1) (\<lambda>j. pa (Suc j)) s"
    using Cons.prems(1) c(4) wf_memory_cong [OF touched_frame(1) [OF k1(2)]] string_at_cong [OF k1(2)] by simp_all
  from Cons.IH [OF this n(2)] obtain k2 where "string_from cfg oth m (va + 1) k1 = Some (s @ [0], k2)" "touched cfg k1 k2"
    by blast
  then show ?case using k1 c(2,3) n(1) touched_trans [OF k1(2)] by (auto simp: scast_byte)
qed

lemma string_arg_ok:
  assumes "wf_memory cfg k" "string_at cfg k va pa s"
  shows "\<exists>k'. string_arg cfg oth va k = Some (s, k') \<and> touched cfg k k'"
proof -
  obtain k1 where k1: "length_from cfg oth va 0 k = Some (0 + int (length s) + 1, k1)" "touched cfg k k1"
    using length_from_ok [OF assms] by blast
  have n: "nat (0 + int (length s) + 1 + 1) = length s + 2" "nat (0 + int (length s) + 1 + 1 - 1) = length s + 1"
    by linarith+
  have "wf_memory cfg k1" "string_at cfg k1 va pa s" "length s < length s + 2"
    using assms wf_memory_cong [OF touched_frame(1) [OF k1(2)]] string_at_cong [OF k1(2)] by simp_all
  from string_from_ok [OF this] obtain k2 where
    k2: "string_from cfg oth (length s + 2) va k1 = Some (s @ [0], k2)" "touched cfg k1 k2" by blast
  have z: "\<forall>c \<in> set s. c \<noteq> 0" using assms(2) by (auto simp: string_at_def)
  then have "takeWhile (\<lambda>c. c \<noteq> 0) (s @ [0]) = s @ takeWhile (\<lambda>c. c \<noteq> 0) [0]" by (intro takeWhile_append2) simp
  then have "cstring (s @ [0]) = s" by (simp add: cstring_def)
  then have "string_arg cfg oth va k = Some (s, k2)"
    unfolding string_arg_def GetLengthParam_def GetStringParam_def k1(1)
    by (simp only: bind.bind_lunit prod.case n k2(1)) (simp add: list_update_beyond)
  then show ?thesis using touched_trans [OF k1(2) k2(2)] by blast
qed

subsection \<open>Writing\<close>

definition wrote :: "config \<Rightarrow> 'a machine_scheme \<Rightarrow> 'a machine_scheme \<Rightarrow> bool" where
  "wrote cfg m m' \<longleftrightarrow> (\<exists>mem ps g T. m' = m\<lparr>mainMemory := mem, process_stat := ps, g_stats := g, tables := T\<rparr>)
     \<and> length (mainMemory m') = length (mainMemory m) \<and> uaddr cfg m' = uaddr cfg m"

lemma wroteI:
  "m' = m\<lparr>mainMemory := mem, process_stat := ps, g_stats := g, tables := T\<rparr> \<Longrightarrow> length (mainMemory m') = length (mainMemory m)
   \<Longrightarrow> uaddr cfg m' = uaddr cfg m \<Longrightarrow> wrote cfg m m'"
  unfolding wrote_def by blast

lemma wrote_trans:
  assumes "wrote cfg m m'" "wrote cfg m' m''"
  shows "wrote cfg m m''"
proof -
  obtain mem ps g T where 1: "m' = m\<lparr>mainMemory := mem, process_stat := ps, g_stats := g, tables := T\<rparr>"
    using assms(1) by (auto simp: wrote_def)
  obtain mem' ps' g' T' where 2: "m'' = m'\<lparr>mainMemory := mem', process_stat := ps', g_stats := g', tables := T'\<rparr>"
    using assms(2) by (auto simp: wrote_def)
  have "m'' = m\<lparr>mainMemory := mem', process_stat := ps', g_stats := g', tables := T'\<rparr>" unfolding 2 1 by simp
  then show ?thesis by (rule wroteI) (use assms in \<open>simp_all add: wrote_def\<close>)
qed

lemma wrote_refl: "wrote cfg m m"
  by (rule wroteI [where mem = "mainMemory m" and ps = "process_stat m" and g = "g_stats m" and T = "tables m"]) simp_all

lemma write_byte_ok:
  fixes k :: "'a machine_scheme"
  assumes wf: "wf_memory cfg k" and u: "uaddr cfg k va = Some (p, True)"
  shows "\<exists>k'. WriteMem cfg hnd va 1 (scast b) k = Some (True, k') \<and> wrote cfg k k'
    \<and> mainMemory k' ! p = b \<and> (\<forall>i. i \<noteq> p \<longrightarrow> mainMemory k' ! i = mainMemory k ! i)"
proof -
  obtain a t where t: "mmu_table k = Some a" "tables k a = Some t" "mapped cfg k va a t" "0 \<le> sint va"
    "p = nat (phys_addr cfg t va)" "writeAllowed (entry t (page_of cfg va))"
    using uaddr_mapped [OF u] by blast
  have ps: "0 < PageSize cfg" "4 dvd PageSize cfg" using wf by (simp_all add: wf_memory_def)
  have pa: "0 \<le> phys_addr cfg t va" by (rule phys_addr_bounds(3) [OF t(3) aligned_1(1) t(4) ps])
  obtain mem where m: "WriteMem cfg hnd va 1 (scast b) k = Some (True, (accessed cfg True va a t k)\<lparr>mainMemory := mem\<rparr>)"
    "length mem = length (mainMemory k)"
    "\<forall>i. int i < phys_addr cfg t va \<or> phys_addr cfg t va + int 1 \<le> int i \<longrightarrow> mem ! i = mainMemory k ! i"
    "\<forall>m' :: 'a machine_scheme. mainMemory m' = mem \<and> host_endianess m' = host_endianess k
         \<and> mips_endianess m' = mips_endianess k \<longrightarrow> load_value m' 1 (phys_addr cfg t va) = Some (truncated 1 (scast b))"
    using WriteMem_ok [OF wf t(3) aligned_1(1) t(4,6), of hnd "scast b"] by blast
  let ?k = "(accessed cfg True va a t k)\<lparr>mainMemory := mem\<rparr>"
  have "load_value (k\<lparr>mainMemory := mem\<rparr>) 1 (phys_addr cfg t va) = Some (truncated 1 (scast b))"
    by (rule m(4) [rule_format]) simp
  then have "mem ! p = b"
    using t(5) by (auto simp: load_value_def aget_Some truncated_def scast_byte elim!: bind_Some_cases)
  moreover have "mem ! i = mainMemory k ! i" if "i \<noteq> p" for i
    using m(3) that t(5) pa by (metis linorder_not_le nat_int nat_less_iff of_nat_1 zless_iff_Suc_zadd zless_imp_add1_zle linorder_neqE_linordered_idom int_nat_eq)
  moreover have "wrote cfg k ?k"
  proof -
    obtain ps g T where acc: "accessed cfg True va a t k = k\<lparr>process_stat := ps, g_stats := g, tables := T\<rparr>"
      using accessed_touched [OF t(3), of True] by (auto simp: touched_def)
    have "uaddr cfg ?k = uaddr cfg (accessed cfg True va a t k)" by (rule uaddr_cong) simp_all
    also have "\<dots> = uaddr cfg k" by (rule uaddr_accessed [OF t(3)])
    finally show ?thesis
      by (intro wroteI [where mem = mem and ps = ps and g = g and T = T]) (simp_all add: acc m(2))
  qed
  ultimately show ?thesis using m(1) by auto
qed

lemma write_user_ok:
  assumes "wf_memory cfg k" "at_places cfg k va (length bs) pa True" "inj_on pa {..<length bs}"
  shows "\<exists>k'. write_user cfg oth bs va k = Some k' \<and> wrote cfg k k'
    \<and> (\<forall>j < length bs. mainMemory k' ! pa j = bs ! j)
    \<and> (\<forall>i. i \<notin> pa ` {..<length bs} \<longrightarrow> mainMemory k' ! i = mainMemory k ! i)"
  using assms
proof (induction bs arbitrary: va k pa)
  case Nil
  then show ?case by (simp add: wrote_refl)
next
  case (Cons b bs)
  have at: "at_places cfg k va (Suc (length bs)) pa True" using Cons.prems(2) by simp
  note a = at_places_Suc [OF at]
  obtain k1 where k1: "WriteMem cfg (fault_handler cfg oth) va 1 (scast b) k = Some (True, k1)" "wrote cfg k k1"
    "mainMemory k1 ! pa 0 = b" "\<forall>i. i \<noteq> pa 0 \<longrightarrow> mainMemory k1 ! i = mainMemory k ! i"
    using write_byte_ok [OF Cons.prems(1), of va "pa 0" "fault_handler cfg oth" b] a(1) by auto
  have u: "uaddr cfg k1 = uaddr cfg k" "length (mainMemory k1) = length (mainMemory k)" using k1(2) by (simp_all add: wrote_def)
  have "wf_memory cfg k1" using Cons.prems(1) u(2) by (simp add: wf_memory_def)
  moreover have "at_places cfg k1 (va + 1) (length bs) (\<lambda>j. pa (Suc j)) True" using a(2) at_places_cong [OF u(1)] by simp
  moreover have inj: "inj_on (\<lambda>j. pa (Suc j)) {..<length bs}"
    using Cons.prems(3) by (auto simp: inj_on_def)
  ultimately obtain k2 where k2: "write_user cfg oth bs (va + 1) k1 = Some k2" "wrote cfg k1 k2"
    "\<forall>j < length bs. mainMemory k2 ! pa (Suc j) = bs ! j"
    "\<forall>i. i \<notin> (\<lambda>j. pa (Suc j)) ` {..<length bs} \<longrightarrow> mainMemory k2 ! i = mainMemory k1 ! i"
    using Cons.IH by blast
  have "pa 0 \<notin> (\<lambda>j. pa (Suc j)) ` {..<length bs}"
    using Cons.prems(3) by (auto simp: inj_on_def)
  then have "mainMemory k2 ! pa 0 = b" using k2(4) k1(3) by simp
  then have "\<forall>j < length (b # bs). mainMemory k2 ! pa j = (b # bs) ! j"
    using k2(3) by (simp add: All_less_Suc2)
  moreover have "mainMemory k2 ! i = mainMemory k ! i" if i: "i \<notin> pa ` {..<length (b # bs)}" for i
  proof -
    have "i \<noteq> pa 0" "i \<notin> (\<lambda>j. pa (Suc j)) ` {..<length bs}" using i by auto
    then show ?thesis using k2(4) k1(4) by simp
  qed
  ultimately show ?case using k1(1) k2(1) wrote_trans [OF k1(2) k2(2)] by auto
qed

end
