(* ===== verification/Nachos_SyscallProps.thy ===== *)
theory Nachos_SyscallProps
  imports Nachos_UserMem
begin

text \<open>
  Properties of the system calls: arguments from user memory, identifiers of objects, error
  messages, and what a program reads back from a file that it wrote.
\<close>

subsection \<open>Calls from user programs\<close>

text \<open>The number in \<open>r2\<close>, the arguments in \<open>r4\<close>, \<open>r5\<close> and \<open>r6\<close>, then the trap.\<close>

definition args :: "u32 \<Rightarrow> u32 \<Rightarrow> u32 \<Rightarrow> u32 \<Rightarrow> 'a nachos_scheme \<Rightarrow> 'a nachos_scheme" where
  "args n a1 a2 a3 k = k\<lparr>int_registers := (int_registers k)[2 := n, 4 := a1, 5 := a2, 6 := a3]\<rparr>"

definition user_call ::
  "config \<Rightarrow> 'a nachos_scheme drivers \<Rightarrow> nat \<Rightarrow> u32 \<Rightarrow> u32 \<Rightarrow> u32 \<Rightarrow> u32 \<Rightarrow> 'a nachos_scheme \<Rightarrow> 'a nachos_scheme outcome option" where
  "user_call cfg d l n a1 a2 a3 k = ExceptionHandler cfg d l SYSCALL_EXCEPTION 0 (args n a1 a2 a3 k)"

definition regs_ok :: "'a machine_scheme \<Rightarrow> bool" where
  "regs_ok k \<longleftrightarrow> length (int_registers k) = 40"

definition msgs_ok :: "'a nachos_scheme \<Rightarrow> bool" where
  "msgs_ok k \<longleftrightarrow> msgs (g_syscall_error k) = msgs SyscallError_new"

lemma error_number_bounds: "0 \<le> error_number e" "error_number e < 19"
  by (cases e; simp)+

lemma messages: "length (msgs SyscallError_new) = 19" "m \<in> set (msgs SyscallError_new) \<Longrightarrow> \<exists>s. m = Some s"
proof -
  have "msgs SyscallError_new = map Some (map the (msgs SyscallError_new))" by (simp add: SyscallError_new_def)
  then show "m \<in> set (msgs SyscallError_new) \<Longrightarrow> \<exists>s. m = Some s" by (metis (no_types, lifting) imageE list.set_map)
qed (simp add: SyscallError_new_def)

lemma SetMsg_ok:
  assumes "msgs e = msgs SyscallError_new"
  shows "SetMsg about (error_number n) e = Some (e\<lparr>errorAbout := about, lastError := error_number n\<rparr>)"
proof -
  have b: "0 \<le> error_number n" "nat (error_number n) < length (msgs SyscallError_new)"
    using error_number_bounds [of n] by (simp_all add: messages(1) nat_less_iff)
  then obtain s where "msgs SyscallError_new ! nat (error_number n) = Some s" using messages(2) nth_mem by blast
  then show ?thesis
    using b error_number_bounds(2) [of n] assms by (simp add: SetMsg_def aget_def NUMMSGERROR_def Let_def)
qed

lemma set_msg_ok:
  assumes "msgs_ok k"
  shows "set_msg about n k = Some (k\<lparr>g_syscall_error := (g_syscall_error k)\<lparr>errorAbout := Some about, lastError := error_number n\<rparr>\<rparr>)"
  using assms SetMsg_ok [of "g_syscall_error k" "Some about" n] by (simp add: set_msg_def msgs_ok_def)

lemma WriteIntRegister_2: "regs_ok k \<Longrightarrow> WriteIntRegister 2 v k = Some (setR 2 v k)"
  by (simp add: WriteIntRegister_def setR_def regs_ok_def aset_def NUM_INT_REGS_def)

lemma args_regs:
  assumes "regs_ok k"
  shows "ReadIntRegister 2 (args n a1 a2 a3 k) = Some n" "ReadIntRegister 4 (args n a1 a2 a3 k) = Some a1"
    "ReadIntRegister 5 (args n a1 a2 a3 k) = Some a2" "ReadIntRegister 6 (args n a1 a2 a3 k) = Some a3"
  using assms by (simp_all add: args_def ReadIntRegister_def regs_ok_def aget_def NUM_INT_REGS_def)

lemma args_frame [simp]:
  "regs_ok (args n a1 a2 a3 k) = regs_ok k" "msgs_ok (args n a1 a2 a3 k) = msgs_ok k"
  "mainMemory (args n a1 a2 a3 k) = mainMemory k" "wf_memory cfg (args n a1 a2 a3 k) = wf_memory cfg k"
  "uaddr cfg (args n a1 a2 a3 k) = uaddr cfg k" "at_places cfg (args n a1 a2 a3 k) = at_places cfg k"
  "search_object i (args n a1 a2 a3 k) = search_object i k" "g_object_ids (args n a1 a2 a3 k) = g_object_ids k"
  "files (args n a1 a2 a3 k) = files k" "fs (args n a1 a2 a3 k) = fs k"
  using uaddr_cong [of "args n a1 a2 a3 k" k cfg] at_places_cong [of cfg "args n a1 a2 a3 k" k]
  by (simp_all add: args_def regs_ok_def msgs_ok_def wf_memory_def search_object_def)

lemma user_call_is:
  "regs_ok k \<Longrightarrow> map_of syscall_numbers (sint n) = Some c \<Longrightarrow> user_call cfg d l n a1 a2 a3 k = syscall cfg d l c (args n a1 a2 a3 k)"
  by (simp add: user_call_def ExceptionHandler_def args_regs)

text \<open>
  What the program finds when its call comes back with \<open>v\<close>: the result, the next instruction,
  the last error. The rest of the state is \<open>k\<close>.
\<close>

definition comes_back :: "u32 \<Rightarrow> byte list \<Rightarrow> ErrorCode \<Rightarrow> 'a nachos_scheme \<Rightarrow> 'a nachos_scheme \<Rightarrow> bool" where
  "comes_back v about err k k' \<longleftrightarrow> (\<exists>r.
     k' = k\<lparr>g_syscall_error := (g_syscall_error k)\<lparr>errorAbout := Some about, lastError := error_number err\<rparr>, int_registers := r\<rparr>
     \<and> length r = 40 \<and> r ! 2 = v \<and> r ! PC_REG = R k NEXTPC_REG \<and> r ! NEXTPC_REG = R k NEXTPC_REG + 4
     \<and> r ! PREVPC_REG = R k PC_REG)"

lemma advance_pc_regs:
  assumes "regs_ok k"
  obtains r where "advance_pc (setR 2 v k) = k\<lparr>int_registers := r\<rparr>" "length r = 40" "r ! 2 = v"
    "r ! PC_REG = R k NEXTPC_REG" "r ! NEXTPC_REG = R k NEXTPC_REG + 4" "r ! PREVPC_REG = R k PC_REG"
proof -
  let ?r = "int_registers (advance_pc (setR 2 v k))"
  have "advance_pc (setR 2 v k) = k\<lparr>int_registers := ?r\<rparr>" by (simp add: advance_pc_def setR_def Let_def)
  then show ?thesis
    by (rule that) (use assms in \<open>simp_all add: advance_pc_def setR_def R_def regs_ok_def Let_def\<close>)
qed

lemma returns_set:
  assumes k: "regs_ok k" "msgs_ok k"
  shows "\<exists>k'. returns (do { k1 \<leftarrow> set_msg about err k; WriteIntRegister 2 v k1 }) = Some (Returned k') \<and> comes_back v about err k k'"
    "\<exists>k'. returns (do { k1 \<leftarrow> WriteIntRegister 2 v k; set_msg about err k1 }) = Some (Returned k') \<and> comes_back v about err k k'"
proof -
  let ?e = "(g_syscall_error k)\<lparr>errorAbout := Some about, lastError := error_number err\<rparr>"
  let ?k = "k\<lparr>g_syscall_error := ?e\<rparr>"
  have r: "regs_ok ?k" "R ?k = R k" using k(1) by (simp_all add: regs_ok_def R_def fun_eq_iff)
  have "\<exists>k'. advance_pc (setR 2 v ?k) = k' \<and> comes_back v about err k k'"
    by (rule advance_pc_regs [OF r(1), of v]) (auto simp: comes_back_def r(2))
  moreover have "msgs_ok (setR 2 v k)" "setR 2 v k\<lparr>g_syscall_error := ?e\<rparr> = setR 2 v ?k"
    "g_syscall_error (setR 2 v k) = g_syscall_error k"
    using k(2) by (simp_all add: msgs_ok_def setR_def)
  ultimately show "\<exists>k'. returns (do { k1 \<leftarrow> set_msg about err k; WriteIntRegister 2 v k1 }) = Some (Returned k') \<and> comes_back v about err k k'"
    "\<exists>k'. returns (do { k1 \<leftarrow> WriteIntRegister 2 v k; set_msg about err k1 }) = Some (Returned k') \<and> comes_back v about err k k'"
    using set_msg_ok [OF k(2)] set_msg_ok [of "setR 2 v k"] WriteIntRegister_2 [OF r(1), of v] WriteIntRegister_2 [OF k(1), of v]
    by (simp_all add: returns_def)
qed

lemma returns_succeed:
  assumes "regs_ok k" "msgs_ok k"
  shows "\<exists>k'. returns (succeed v k) = Some (Returned k') \<and> comes_back v [] NoError k k'"
  using returns_set(1) [OF assms] unfolding succeed_def by blast

lemma returns_fail:
  assumes "regs_ok k" "msgs_ok k"
  shows "\<exists>k'. returns (fail_with about err k) = Some (Returned k') \<and> comes_back (- 1) about err k k'"
  using returns_set(1) [OF assms] unfolding fail_with_def by blast

lemma comes_back_frame:
  assumes "comes_back v about err k k'"
  shows "regs_ok k'" "R k' 2 = v" "msgs (g_syscall_error k') = msgs (g_syscall_error k)" "mainMemory k' = mainMemory k"
    "uaddr cfg k' = uaddr cfg k" "g_object_ids k' = g_object_ids k" "files k' = files k" "fs k' = fs k"
  using assms uaddr_cong [of k' k cfg] by (auto simp: comes_back_def regs_ok_def R_def)

subsection \<open>Files\<close>

text \<open>The identifier \<open>f\<close> is an open file.\<close>

definition open_as :: "u32 \<Rightarrow> nat \<Rightarrow> OpenFile \<Rightarrow> 'a nachos_scheme \<Rightarrow> bool" where
  "open_as f fid file k \<longleftrightarrow> 1 < sint f \<and> search_object f k = Some (O_file fid) \<and> files k fid = Some file"

lemma open_as_upd: "open_as f fid file k \<Longrightarrow> g_object_ids k' = g_object_ids k \<Longrightarrow> files k' = (files k)(fid \<mapsto> file')
  \<Longrightarrow> open_as f fid file' k'"
  by (simp add: open_as_def search_object_def)

lemma touched_nachos:
  fixes k :: "'a nachos_scheme"
  assumes "touched cfg k k'"
  shows "g_object_ids k' = g_object_ids k" "files k' = files k" "fs k' = fs k" "msgs_ok k' = msgs_ok k" "regs_ok k' = regs_ok k"
    "g_syscall_error k' = g_syscall_error k"
  using assms by (auto simp: touched_def msgs_ok_def regs_ok_def)

text \<open>What is kept of the state from one call of the program to the next.\<close>

definition keeps :: "config \<Rightarrow> 'a nachos_scheme \<Rightarrow> 'a nachos_scheme \<Rightarrow> bool" where
  "keeps cfg k k' \<longleftrightarrow> (regs_ok k \<longrightarrow> regs_ok k') \<and> (msgs_ok k \<longrightarrow> msgs_ok k') \<and> length (mainMemory k') = length (mainMemory k)
     \<and> uaddr cfg k' = uaddr cfg k \<and> g_object_ids k' = g_object_ids k"

lemma write_call_ok:
  assumes k: "regs_ok k" "msgs_ok k" "wf_memory cfg k" and b: "at_places cfg k a (nat (sint n)) pa False"
    and f: "open_as f fid file k" and w: "wf_file cfg (hdr file) (sectors (fs k))"
    and p: "0 \<le> seekPosition file" "seekPosition file \<le> FileLength (hdr file)" and n: "0 < sint n"
    and m: "seekPosition file + sint n \<le> MaxFileLength cfg (hdr file)" "seekPosition file + sint n \<le> MAX_FILE_LENGTH cfg"
  shows "\<exists>k' f'. user_call cfg d l 7 a n f k = Some (Returned k') \<and> R k' 2 = n \<and> keeps cfg k k' \<and> mainMemory k' = mainMemory k
    \<and> files k' = (files k)(fid \<mapsto> f') \<and> wf_file cfg (hdr f') (sectors (fs k'))
    \<and> take (nat (sint n)) (drop (nat (seekPosition file)) (file_bytes (hdr f') (sectors (fs k'))))
      = map (\<lambda>j. mainMemory k ! pa j) [0..<nat (sint n)]"
proof -
  let ?k = "args 7 a n f k" and ?N = "nat (sint n)" and ?p = "seekPosition file"
  let ?bs = "map (\<lambda>j. mainMemory k ! pa j) [0..<?N]"
  have c: "user_call cfg d l 7 a n f k = returns (sys_write cfg d ?k)"
    using user_call_is [OF k(1), of 7 SC_WRITE] by (simp add: syscall_numbers_def syscall_def)
  obtain k1 where k1: "read_user cfg (others d) ?N a ?k = Some (?bs, k1)" "touched cfg ?k k1"
    using read_user_ok [of cfg ?k a ?N pa "others d"] k(3) b by auto
  note t = touched_nachos [OF k1(2)]
  note t2 = touched_frame [OF k1(2)]
  have f1: "is_file (search_object f k1) k1 = Some fid" "files k1 fid = Some file" "1 < sint f"
    using f t by (simp_all add: open_as_def is_file_def search_object_def)
  have lb: "sint n \<le> int (length ?bs)" using n by simp
  obtain f' fs' where wr: "WriteAt cfg ?bs (sint n) ?p file (fs k) = Some (sint n, f', fs')"
    "wf_file cfg (hdr f') (sectors fs')"
    "file_bytes (hdr f') (sectors fs') = take (nat ?p) (file_bytes (hdr file) (sectors (fs k))) @ take ?N ?bs
      @ drop (nat (?p + sint n)) (file_bytes (hdr file) (sectors (fs k)))"
    using WriteAt_with_in_place [OF w p(1) _ n m lb, of "grow_file cfg"] p(2) unfolding WriteAt_def FileLength_def by blast
  let ?f = "f'\<lparr>seekPosition := seekPosition f' + sint n\<rparr>"
  have W: "Write cfg ?bs (sint n) file (fs k1) = Some (sint n, ?f, fs')"
    using wr(1) t(3) by (simp add: Write_def)
  let ?k2 = "k1\<lparr>files := (files k1)(fid \<mapsto> ?f), fs := fs'\<rparr>"
  have "regs_ok k1" "msgs_ok k1" using k(1,2) t by simp_all
  then have k2: "regs_ok ?k2" "msgs_ok ?k2" by (simp_all add: regs_ok_def msgs_ok_def)
  obtain k3 where k3: "returns (do { k2 \<leftarrow> set_msg [] NoError ?k2; WriteIntRegister 2 n k2 }) = Some (Returned k3)"
    "comes_back n [] NoError ?k2 k3" using returns_set(1) [OF k2] by blast
  have call: "sys_write cfg d ?k = (do { k2 \<leftarrow> set_msg [] NoError ?k2; WriteIntRegister 2 n k2 })"
    using n f1 k1(1) W set_msg_ok [OF k2(2)] args_regs [OF k(1)] by (simp add: sys_write_def)
  note fr = comes_back_frame [OF k3(2)]
  have ids: "g_object_ids k1 = g_object_ids k" "files k1 = files k" "uaddr cfg k1 = uaddr cfg k" "mainMemory k1 = mainMemory k"
    using t t2 by simp_all
  have "uaddr cfg ?k2 = uaddr cfg k1" by (rule uaddr_cong) simp_all
  then have "keeps cfg k k3" using fr ids k2(2) by (simp add: keeps_def msgs_ok_def)
  moreover have l: "length (take (nat ?p) (file_bytes (hdr file) (sectors (fs k)))) = nat ?p"
    using p wf_file_blocks(4) [OF w] by (simp add: file_bytes_def FileLength_def)
  have "take ?N (drop (nat ?p) (file_bytes (hdr f') (sectors fs'))) = ?bs"
    unfolding wr(3) by (simp only: drop_append l) simp
  ultimately show ?thesis
    using c call k3(1) fr ids wr(2) by (intro exI [of _ k3] exI [of _ ?f]) simp
qed

lemma seek_call_ok:
  assumes k: "regs_ok k" "msgs_ok k" and f: "open_as f fid file k"
  shows "\<exists>k'. user_call cfg d l 8 off f x k = Some (Returned k') \<and> R k' 2 = 0 \<and> keeps cfg k k' \<and> mainMemory k' = mainMemory k
    \<and> files k' = (files k)(fid \<mapsto> Seek (sint off) file) \<and> fs k' = fs k"
proof -
  let ?k = "args 8 off f x k"
  let ?k2 = "?k\<lparr>files := (files k)(fid \<mapsto> Seek (sint off) file)\<rparr>"
  have c: "user_call cfg d l 8 off f x k = returns (sys_seek ?k)"
    using user_call_is [OF k(1), of 8 SC_SEEK] by (simp add: syscall_numbers_def syscall_def)
  have f1: "is_file (search_object f k) ?k = Some fid" "files k fid = Some file" "1 < sint f"
    using f by (simp_all add: open_as_def is_file_def)
  have "regs_ok ?k" "msgs_ok ?k" using k by simp_all
  then have k2: "regs_ok ?k2" "msgs_ok ?k2" by (simp_all add: regs_ok_def msgs_ok_def)
  obtain k3 where k3: "returns (succeed 0 ?k2) = Some (Returned k3)" "comes_back 0 [] NoError ?k2 k3"
    using returns_succeed [OF k2] by blast
  have call: "sys_seek ?k = succeed 0 ?k2" using f1 args_regs [OF k(1)] by (simp add: sys_seek_def)
  note fr = comes_back_frame [OF k3(2)]
  have "uaddr cfg ?k2 = uaddr cfg ?k" by (rule uaddr_cong) simp_all
  then have "keeps cfg k k3" using fr k2(2) by (simp add: keeps_def msgs_ok_def)
  then show ?thesis using c call k3(1) fr by (intro exI [of _ k3]) simp
qed

lemma read_call_ok:
  assumes k: "regs_ok k" "msgs_ok k" "wf_memory cfg k"
    and b: "at_places cfg k a (nat (sint n)) pb True" "inj_on pb {..<nat (sint n)}"
    and f: "open_as f fid file k" and w: "wf_file cfg (hdr file) (sectors (fs k))"
    and p: "0 \<le> seekPosition file" and n: "0 \<le> sint n" "seekPosition file + sint n \<le> FileLength (hdr file)"
  shows "\<exists>k'. user_call cfg d l 6 a n f k = Some (Returned k') \<and> R k' 2 = n \<and> keeps cfg k k'
    \<and> (\<forall>j < nat (sint n). mainMemory k' ! pb j = file_bytes (hdr file) (sectors (fs k)) ! (nat (seekPosition file) + j))
    \<and> (\<forall>i. i \<notin> pb ` {..<nat (sint n)} \<longrightarrow> mainMemory k' ! i = mainMemory k ! i)
    \<and> files k' = (files k)(fid \<mapsto> Seek (seekPosition file + sint n) file) \<and> fs k' = fs k"
proof -
  let ?k = "args 6 a n f k" and ?N = "nat (sint n)" and ?p = "seekPosition file"
  define bs where "bs = take ?N (drop (nat ?p) (file_bytes (hdr file) (sectors (fs k))))"
  have l: "length (file_bytes (hdr file) (sectors (fs k))) = nat (FileLength (hdr file))"
    using wf_file_blocks(4) [OF w] by (simp add: file_bytes_def FileLength_def)
  have lb: "length bs = ?N" using l n p by (simp add: bs_def)
  have c: "user_call cfg d l 6 a n f k = returns (sys_read cfg d ?k)"
    using user_call_is [OF k(1), of 6 SC_READ] by (simp add: syscall_numbers_def syscall_def)
  have f1: "is_file (search_object f k) ?k = Some fid" "files k fid = Some file" "1 < sint f" "f \<noteq> 0"
    using f by (auto simp: open_as_def is_file_def)
  have rd: "Read cfg (sint n) file (sectors (fs k)) = Some (bs, Seek (?p + sint n) file)"
    using ReadAt_bytes [OF w p, of "sint n"] lb n(1) by (simp add: Read_def Seek_def bs_def [symmetric])
  let ?k1 = "?k\<lparr>files := (files k)(fid \<mapsto> Seek (?p + sint n) file)\<rparr>"
  have "regs_ok ?k" "msgs_ok ?k" using k by simp_all
  then have k1: "regs_ok ?k1" "msgs_ok ?k1" by (simp_all add: regs_ok_def msgs_ok_def)
  define k2 where "k2 = ?k1\<lparr>g_syscall_error := (g_syscall_error ?k1)\<lparr>errorAbout := Some [], lastError := error_number NoError\<rparr>\<rparr>"
  have m2: "set_msg [] NoError ?k1 = Some k2" unfolding k2_def by (rule set_msg_ok [OF k1(2)])
  have k2: "regs_ok k2" "msgs_ok k2" "mainMemory k2 = mainMemory k" "g_object_ids k2 = g_object_ids k" "fs k2 = fs k"
    "files k2 = (files k)(fid \<mapsto> Seek (?p + sint n) file)"
    using k1 by (simp_all add: k2_def regs_ok_def msgs_ok_def)
  have u2: "uaddr cfg k2 = uaddr cfg k"
  proof -
    have "uaddr cfg k2 = uaddr cfg ?k" by (rule uaddr_cong) (simp_all add: k2_def)
    then show ?thesis by simp
  qed
  have "wf_memory cfg k2" "at_places cfg k2 a (length bs) pb True" "inj_on pb {..<length bs}"
    using k(3) k2(3) b at_places_cong [OF u2] by (simp_all add: lb wf_memory_def)
  from write_user_ok [OF this, of "others d"] obtain k3 where k3: "write_user cfg (others d) bs a k2 = Some k3" "wrote cfg k2 k3"
    "\<forall>j < length bs. mainMemory k3 ! pb j = bs ! j" "\<forall>i. i \<notin> pb ` {..<length bs} \<longrightarrow> mainMemory k3 ! i = mainMemory k2 ! i"
    by blast
  have o3: "regs_ok k3" "msgs_ok k3" "g_object_ids k3 = g_object_ids k" "fs k3 = fs k" "uaddr cfg k3 = uaddr cfg k"
    "length (mainMemory k3) = length (mainMemory k)" "files k3 = (files k)(fid \<mapsto> Seek (?p + sint n) file)"
    using k3(2) k2 u2 by (auto simp: wrote_def regs_ok_def msgs_ok_def)
  obtain r where r: "advance_pc (setR 2 n k3) = k3\<lparr>int_registers := r\<rparr>" "length r = 40" "r ! 2 = n"
    using advance_pc_regs [OF o3(1), of n] by blast
  let ?k4 = "k3\<lparr>int_registers := r\<rparr>"
  have "word_of_int (int (length bs)) = n" using lb n(1) by simp
  then have call: "sys_read cfg d ?k = Some (setR 2 n k3)"
    using f1 args_regs [OF k(1)] n(1) rd m2 k3(1) WriteIntRegister_2 [OF o3(1), of n] by (simp add: sys_read_def)
  have "uaddr cfg ?k4 = uaddr cfg k3" by (rule uaddr_cong) simp_all
  then have "keeps cfg k ?k4" using o3 r(2) by (simp add: keeps_def regs_ok_def msgs_ok_def)
  moreover have "user_call cfg d l 6 a n f k = Some (Returned ?k4)" unfolding c call returns_def by (simp add: r(1))
  moreover have "\<forall>j < ?N. mainMemory k3 ! pb j = file_bytes (hdr file) (sectors (fs k)) ! (nat ?p + j)"
    using k3(3) lb l n p by (simp add: bs_def)
  ultimately show ?thesis using o3 r(3) k3(4) k2(3) lb by (intro exI [of _ ?k4]) (simp add: R_def)
qed

text \<open>
  C2. What a program writes it reads back. A program writes \<open>n\<close> bytes of its memory at \<open>a\<close> to
  an open file, at a position inside the file and within its sectors, seeks back to where it
  was, and reads \<open>n\<close> bytes into its memory at \<open>b\<close>, through three system calls. All three come
  back, with the results \<open>n\<close>, 0 and \<open>n\<close>, and the bytes at \<open>b\<close> are those that were at \<open>a\<close>,
  through the page table, the registers, the identifier of the file, the file header and the sectors
  of the disk.
\<close>
theorem file_calls_roundtrip:
  assumes "regs_ok k" "msgs_ok k" "wf_memory cfg k"
    and "open_as f fid file k" "wf_file cfg (hdr file) (sectors (fs k))"
    and "sint off = seekPosition file" "0 \<le> sint off" "sint off \<le> FileLength (hdr file)" "0 < sint n"
    and "sint off + sint n \<le> MaxFileLength cfg (hdr file)" "sint off + sint n \<le> MAX_FILE_LENGTH cfg"
    and "at_places cfg k a (nat (sint n)) pa False" "at_places cfg k b (nat (sint n)) pb True" "inj_on pb {..<nat (sint n)}"
  shows "\<exists>k1 k2 k3. user_call cfg d l 7 a n f k = Some (Returned k1)
    \<and> user_call cfg d l 8 off f 0 k1 = Some (Returned k2) \<and> user_call cfg d l 6 b n f k2 = Some (Returned k3)
    \<and> R k1 2 = n \<and> R k2 2 = 0 \<and> R k3 2 = n
    \<and> (\<forall>j < nat (sint n). mainMemory k3 ! pb j = mainMemory k ! pa j)"
proof -
  let ?N = "nat (sint n)"
  obtain k1 f' where k1: "user_call cfg d l 7 a n f k = Some (Returned k1)" "R k1 2 = n" "keeps cfg k k1"
    "mainMemory k1 = mainMemory k" "files k1 = (files k)(fid \<mapsto> f')" "wf_file cfg (hdr f') (sectors (fs k1))"
    "take ?N (drop (nat (sint off)) (file_bytes (hdr f') (sectors (fs k1)))) = map (\<lambda>j. mainMemory k ! pa j) [0..<?N]"
    using write_call_ok [OF assms(1-3,12,4,5)] assms(6-11) by metis
  have s1: "regs_ok k1" "msgs_ok k1" "wf_memory cfg k1" "at_places cfg k1 = at_places cfg k"
    using k1(3) assms(1-3) at_places_cong [of cfg k1 k] by (simp_all add: keeps_def wf_memory_def)
  have o1: "open_as f fid f' k1" using k1(3) by (intro open_as_upd [OF assms(4) _ k1(5)]) (simp add: keeps_def)
  obtain k2 where k2: "user_call cfg d l 8 off f 0 k1 = Some (Returned k2)" "R k2 2 = 0" "keeps cfg k1 k2"
    "mainMemory k2 = mainMemory k1" "files k2 = (files k1)(fid \<mapsto> Seek (sint off) f')" "fs k2 = fs k1"
    using seek_call_ok [OF s1(1,2) o1] by blast
  have s2: "regs_ok k2" "msgs_ok k2" "wf_memory cfg k2" "at_places cfg k2 = at_places cfg k1"
    using k2(3) s1 at_places_cong [of cfg k2 k1] by (simp_all add: keeps_def wf_memory_def)
  have o2: "open_as f fid (Seek (sint off) f') k2" using k2(3) by (intro open_as_upd [OF o1 _ k2(5)]) (simp add: keeps_def)
  have b: "at_places cfg k2 b ?N pb True" using assms(13) s1(4) s2(4) by simp
  have w2: "wf_file cfg (hdr (Seek (sint off) f')) (sectors (fs k2))" "seekPosition (Seek (sint off) f') = sint off"
    using k1(6) k2(6) by (simp_all add: Seek_def)
  have l: "length (file_bytes (hdr f') (sectors (fs k1))) = nat (FileLength (hdr f'))"
    using wf_file_blocks(4) [OF k1(6)] by (simp add: file_bytes_def FileLength_def)
  have "length (take ?N (drop (nat (sint off)) (file_bytes (hdr f') (sectors (fs k1))))) = ?N" unfolding k1(7) by simp
  then have "nat (sint off) + ?N \<le> nat (FileLength (hdr f'))" using assms(9) unfolding length_take length_drop l by linarith
  then have fit: "sint off + sint n \<le> FileLength (hdr (Seek (sint off) f'))" using assms(7,9) by (simp add: Seek_def)
  obtain k3 where k3: "user_call cfg d l 6 b n f k2 = Some (Returned k3)" "R k3 2 = n"
    "\<forall>j < ?N. mainMemory k3 ! pb j = file_bytes (hdr f') (sectors (fs k1)) ! (nat (sint off) + j)"
    using read_call_ok [OF s2(1-3) b assms(14) o2 w2(1), of d l] w2(2) assms(7,9) fit k2(6) by (auto simp: Seek_def)
  have "file_bytes (hdr f') (sectors (fs k1)) ! (nat (sint off) + j) = mainMemory k ! pa j" if "j < ?N" for j
  proof -
    have "take ?N (drop (nat (sint off)) (file_bytes (hdr f') (sectors (fs k1)))) ! j = mainMemory k ! pa j"
      unfolding k1(7) using that by simp
    then show ?thesis using that \<open>nat (sint off) + ?N \<le> nat (FileLength (hdr f'))\<close> l by simp
  qed
  then have "\<forall>j < ?N. mainMemory k3 ! pb j = mainMemory k ! pa j" using k3(3) by simp
  then show ?thesis using k1(1,2) k2(1,2) k3(1,2) by blast
qed

subsection \<open>Names of files\<close>

text \<open>The answer to a call whose operation on the file system ended with \<open>e\<close>.\<close>

definition answer :: "bool \<Rightarrow> byte list \<Rightarrow> ErrorCode \<Rightarrow> 'a nachos_scheme \<Rightarrow> 'a nachos_scheme \<Rightarrow> bool" where
  "answer nameless s e k k' \<longleftrightarrow> comes_back (if e = NoError then 0 else - 1)
     (if e = NoError \<or> nameless \<and> e = OutOfDisk then [] else s) e k k'"

text \<open>The calls have one form.\<close>

definition name_call ::
  "config \<Rightarrow> 'a ncall \<Rightarrow> bool \<Rightarrow> (byte list \<Rightarrow> filesystem \<Rightarrow> (ErrorCode \<times> filesystem) option) \<Rightarrow> u32 \<Rightarrow> 'a ncall" where
  "name_call cfg oth nameless call addr k = do {
     (ch, k1) \<leftarrow> string_arg cfg oth addr k;
     (err, fs1) \<leftarrow> call ch (fs k1);
     let k2 = k1\<lparr>fs := fs1\<rparr>;
     if err = NoError then succeed 0 k2 else fail_with (if nameless \<and> err = OutOfDisk then [] else ch) err k2 }"

lemma name_call_answer:
  assumes k: "regs_ok k" "msgs_ok k" "wf_memory cfg k" and s: "string_at cfg k a pa s"
    and c: "call s (fs k) = Some (e, fs1)"
  shows "\<exists>k1 k'. returns (name_call cfg oth nameless call a (args m a n x k)) = Some (Returned k')
    \<and> touched cfg (args m a n x k) k1 \<and> answer nameless s e (k1\<lparr>fs := fs1\<rparr>) k'"
proof -
  have "wf_memory cfg (args m a n x k)" "string_at cfg (args m a n x k) a pa s" using k(3) s by (simp_all add: string_at_def)
  from string_arg_ok [OF this] obtain k1 where
    k1: "string_arg cfg oth a (args m a n x k) = Some (s, k1)" "touched cfg (args m a n x k) k1" by blast
  note t = touched_nachos [OF k1(2)]
  have "regs_ok k1" "msgs_ok k1" using k t by simp_all
  then have k2: "regs_ok (k1\<lparr>fs := fs1\<rparr>)" "msgs_ok (k1\<lparr>fs := fs1\<rparr>)" by (simp_all add: regs_ok_def msgs_ok_def)
  have "name_call cfg oth nameless call a (args m a n x k) =
      (if e = NoError then succeed 0 (k1\<lparr>fs := fs1\<rparr>)
       else fail_with (if nameless \<and> e = OutOfDisk then [] else s) e (k1\<lparr>fs := fs1\<rparr>))"
    using k1(1) c t(3) by (simp add: name_call_def)
  then show ?thesis
    using returns_succeed [OF k2, of 0] returns_fail [OF k2, of "if nameless \<and> e = OutOfDisk then [] else s" e] k1(2)
    by (cases "e = NoError") (auto simp: answer_def)
qed

lemma name_calls:
  assumes "regs_ok k"
  shows "user_call cfg d l 4 a n x k = returns (name_call cfg (others d) True (\<lambda>s. Create cfg s (sint n)) a (args 4 a n x k))"
    "user_call cfg d l 28 a n x k = returns (name_call cfg (others d) True (Mkdir cfg) a (args 28 a n x k))"
    "user_call cfg d l 29 a n x k = returns (name_call cfg (others d) False (Rmdir cfg) a (args 29 a n x k))"
proof -
  have e: "(if err \<noteq> NoError then f else succeed (word_of_int (error_number err)) k) = (if err = NoError then succeed 0 k else f)"
    for err f and k :: "'a nachos_scheme" by simp
  show "user_call cfg d l 4 a n x k = returns (name_call cfg (others d) True (\<lambda>s. Create cfg s (sint n)) a (args 4 a n x k))"
    "user_call cfg d l 28 a n x k = returns (name_call cfg (others d) True (Mkdir cfg) a (args 28 a n x k))"
    "user_call cfg d l 29 a n x k = returns (name_call cfg (others d) False (Rmdir cfg) a (args 29 a n x k))"
    using user_call_is [OF assms, of 4 SC_CREATE] user_call_is [OF assms, of 28 SC_MKDIR] user_call_is [OF assms, of 29 SC_RMDIR]
    by (simp_all only: syscall_numbers_def syscall_def sys_create_def sys_mkdir_def sys_rmdir_def name_call_def args_regs [OF assms]
        Let_def e bind.bind_lunit sysno.case map_of.simps simp_thms if_False) simp_all
qed

text \<open>
  C17. Calls by name. A program that passes the address of a zero-terminated string in its memory gets
  the operation on exactly that name: \<open>Create\<close>, \<open>Mkdir\<close> and \<open>Rmdir\<close> do to the
  file system what their functions do, whatever the result; the program continues
  behind the call with 0, or with \<open>- 1\<close> and the error and the name as the last message
  (without the name when the disk is full), and besides nothing changes but the bits \<open>U\<close> of the pages
  of the string.
\<close>
theorem calls_by_name:
  assumes "regs_ok k" "msgs_ok k" "wf_memory cfg k" "string_at cfg k a pa s"
  shows "(Create cfg s (sint n) (fs k) = Some (e, fs1) \<longrightarrow> (\<exists>k1 k'. user_call cfg d l 4 a n x k = Some (Returned k')
      \<and> touched cfg (args 4 a n x k) k1 \<and> answer True s e (k1\<lparr>fs := fs1\<rparr>) k'))
    \<and> (Mkdir cfg s (fs k) = Some (e, fs1) \<longrightarrow> (\<exists>k1 k'. user_call cfg d l 28 a n x k = Some (Returned k')
      \<and> touched cfg (args 28 a n x k) k1 \<and> answer True s e (k1\<lparr>fs := fs1\<rparr>) k'))
    \<and> (Rmdir cfg s (fs k) = Some (e, fs1) \<longrightarrow> (\<exists>k1 k'. user_call cfg d l 29 a n x k = Some (Returned k')
      \<and> touched cfg (args 29 a n x k) k1 \<and> answer False s e (k1\<lparr>fs := fs1\<rparr>) k'))"
proof (intro conjI impI)
  assume "Create cfg s (sint n) (fs k) = Some (e, fs1)"
  then show "\<exists>k1 k'. user_call cfg d l 4 a n x k = Some (Returned k') \<and> touched cfg (args 4 a n x k) k1 \<and> answer True s e (k1\<lparr>fs := fs1\<rparr>) k'"
    unfolding name_calls [OF assms(1)] by (rule name_call_answer [OF assms])
next
  assume "Mkdir cfg s (fs k) = Some (e, fs1)"
  then show "\<exists>k1 k'. user_call cfg d l 28 a n x k = Some (Returned k') \<and> touched cfg (args 28 a n x k) k1 \<and> answer True s e (k1\<lparr>fs := fs1\<rparr>) k'"
    unfolding name_calls [OF assms(1)] by (rule name_call_answer [OF assms])
next
  assume "Rmdir cfg s (fs k) = Some (e, fs1)"
  then show "\<exists>k1 k'. user_call cfg d l 29 a n x k = Some (Returned k') \<and> touched cfg (args 29 a n x k) k1 \<and> answer False s e (k1\<lparr>fs := fs1\<rparr>) k'"
    unfolding name_calls [OF assms(1)] by (rule name_call_answer [OF assms])
qed

subsection \<open>Identifiers\<close>

text \<open>The call \<open>c\<close> finds no object of its class under the identifier \<open>i\<close>.\<close>

definition not_an_object :: "u32 \<Rightarrow> u32 \<Rightarrow> 'a nachos_scheme \<Rightarrow> bool" where
  "not_an_object c i k \<longleftrightarrow>
     c \<in> {13, 14, 16} \<and> is_semaphore (search_object i k) k = None
     \<or> c \<in> {18, 19, 20} \<and> is_lock (search_object i k) k = None
     \<or> c \<in> {22, 23, 24, 25} \<and> is_condition (search_object i k) k = None
     \<or> c = 9 \<and> is_file (search_object i k) k = None"

lemma is_object_args [simp]:
  "is_semaphore p (args n a1 a2 a3 k) = is_semaphore p k" "is_lock p (args n a1 a2 a3 k) = is_lock p k"
  "is_condition p (args n a1 a2 a3 k) = is_condition p k" "is_file p (args n a1 a2 a3 k) = is_file p k"
  by (simp_all add: args_def is_semaphore_def is_lock_def is_condition_def is_file_def split: option.split kobject.split)

definition rejected :: "'a nachos_scheme \<Rightarrow> 'a nachos_scheme \<Rightarrow> bool" where
  "rejected k k' \<longleftrightarrow> (\<exists>r e. k' = k\<lparr>g_syscall_error := e, int_registers := r\<rparr> \<and> r ! 2 = - 1 \<and> r ! PC_REG = R k NEXTPC_REG)"

lemma rejected_fail:
  assumes "regs_ok k" "msgs_ok k"
  shows "\<exists>k'. returns (fail_with about err (args n a1 a2 a3 k)) = Some (Returned k') \<and> rejected k k'"
proof -
  have "regs_ok (args n a1 a2 a3 k)" "msgs_ok (args n a1 a2 a3 k)" using assms by simp_all
  from returns_fail [OF this] obtain k' where k': "returns (fail_with about err (args n a1 a2 a3 k)) = Some (Returned k')"
    "comes_back (- 1) about err (args n a1 a2 a3 k) k'" by blast
  have "R (args n a1 a2 a3 k) NEXTPC_REG = R k NEXTPC_REG" by (simp add: args_def R_def)
  then have "rejected k k'" using k'(2) by (auto simp: rejected_def comes_back_def args_def)
  then show ?thesis using k'(1) by blast
qed

lemma rejected_P:
  assumes "regs_ok k"
  shows "\<exists>k'. returns (WriteIntRegister 2 (- 1) (args n a1 a2 a3 k)) = Some (Returned k') \<and> rejected k k'"
proof -
  have r: "regs_ok (args n a1 a2 a3 k)" using assms by simp
  obtain q where q: "advance_pc (setR 2 (- 1) (args n a1 a2 a3 k)) = (args n a1 a2 a3 k)\<lparr>int_registers := q\<rparr>"
    "q ! 2 = - 1" "q ! PC_REG = R (args n a1 a2 a3 k) NEXTPC_REG"
    using advance_pc_regs [OF r, of "- 1"] by blast
  have "R (args n a1 a2 a3 k) NEXTPC_REG = R k NEXTPC_REG" by (simp add: args_def R_def)
  then have "rejected k ((args n a1 a2 a3 k)\<lparr>int_registers := q\<rparr>)"
    unfolding rejected_def using q(2,3) by (intro exI [of _ q] exI [of _ "g_syscall_error k"]) (simp add: args_def)
  then show ?thesis using q(1) WriteIntRegister_2 [OF r, of "- 1"] by (simp add: returns_def)
qed


text \<open>What may happen to the identifiers.\<close>

inductive id_run :: "objid \<Rightarrow> objid \<Rightarrow> bool" where
  id_refl: "id_run d d"
| id_add: "id_run d d1 \<Longrightarrow> AddObject p d1 = Some (i, d2) \<Longrightarrow> id_run d d2"
| id_remove: "id_run d d1 \<Longrightarrow> id_run d (RemoveObject i d1)"

definition ids_ok :: "objid \<Rightarrow> bool" where
  "ids_ok d \<longleftrightarrow> 3 \<le> last_id d \<and> (\<forall>i p. ids d i = Some p \<longrightarrow> 3 \<le> i \<and> i < last_id d)"

lemma ids_ok_new: "ids_ok ObjId_new"
  by (simp add: ids_ok_def ObjId_new_def)

lemma AddObject_Some:
  "AddObject p d = Some (i, d') \<Longrightarrow> i = last_id d \<and> d' = d\<lparr>last_id := last_id d + 1, ids := (ids d)(last_id d \<mapsto> p)\<rparr>"
  by (auto simp: AddObject_def split: if_splits)

lemma id_run_ok: "id_run d d' \<Longrightarrow> ids_ok d \<Longrightarrow> ids_ok d' \<and> last_id d \<le> last_id d'"
proof (induction rule: id_run.induct)
  case (id_add d d1 p i d2)
  have d1: "ids_ok d1" "last_id d \<le> last_id d1" using id_add by blast+
  have d2: "last_id d2 = last_id d1 + 1" "ids d2 = (ids d1)(last_id d1 \<mapsto> p)" using AddObject_Some [OF id_add.hyps(2)] by simp_all
  have "3 \<le> i \<and> i < last_id d2" if "ids d2 i = Some p" for i p
    using d1(1) that unfolding ids_ok_def d2 by (cases "i = last_id d1") auto
  then show ?case using d1 d2(1) by (simp add: ids_ok_def)
next
  case (id_remove d d1 i)
  then have "ids_ok d1" "last_id d \<le> last_id d1" by blast+
  then show ?case by (simp add: ids_ok_def RemoveObject_def)
qed simp

lemma id_run_keeps: "id_run d d' \<Longrightarrow> ids_ok d \<Longrightarrow> i < last_id d \<Longrightarrow> SearchObject i d' = None \<or> SearchObject i d' = SearchObject i d"
proof (induction rule: id_run.induct)
  case (id_add d d1 p j d2)
  have "last_id d \<le> last_id d1" using id_run_ok [OF id_add.hyps(1)] id_add.prems by blast
  then show ?case using id_add by (auto simp: AddObject_def SearchObject_def split: if_splits)
qed (auto simp: RemoveObject_def SearchObject_def)

text \<open>
  C28. Identifiers are never reused. \<open>AddObject\<close> gives a new object an identifier that nobody holds
  and that is none of those of the console; whatever is added and removed from then on,
  the identifier stands for this object or, once removed, for none, and never for another.
\<close>
theorem identifiers_never_reused:
  assumes "ids_ok d" "AddObject p d = Some (i, d1)" "id_run d1 d2" "id_run d2 d3"
  shows "SearchObject i d = None \<and> 2 < i \<and> SearchObject i d1 = Some p
    \<and> (SearchObject i d2 = Some p \<or> SearchObject i d2 = None)
    \<and> (SearchObject i d2 = None \<longrightarrow> SearchObject i d3 = None)
    \<and> (AddObject q d2 = Some (j, d4) \<longrightarrow> j \<noteq> i)"
proof -
  have d1: "ids_ok d1" "last_id d1 = i + 1" "last_id d = i" "SearchObject i d1 = Some p"
    using id_run_ok [OF id_add [OF id_refl assms(2)] assms(1)] assms(2)
    by (auto simp: AddObject_def SearchObject_def split: if_splits)
  have d2: "ids_ok d2" "last_id d1 \<le> last_id d2" using id_run_ok [OF assms(3) d1(1)] by blast+
  have "SearchObject i d = None" "2 < i" using assms(1) d1(3) by (auto simp: ids_ok_def SearchObject_def)
  moreover have "SearchObject i d2 = Some p \<or> SearchObject i d2 = None"
    using id_run_keeps [OF assms(3) d1(1), of i] d1(2,4) by auto
  moreover have "SearchObject i d2 = None \<longrightarrow> SearchObject i d3 = None"
    using id_run_keeps [OF assms(4) d2(1), of i] d1(2) d2(2) by auto
  moreover have "AddObject q d2 = Some (j, d4) \<longrightarrow> j \<noteq> i" using d1(2) d2(2) by (auto simp: AddObject_def split: if_splits)
  ultimately show ?thesis using d1(4) by simp
qed

subsection \<open>Messages\<close>

lemma sprintf_plain: "CHR ''%'' \<notin> set s \<Longrightarrow> sprintf_s s a = map of_char s"
  by (induction s) auto

lemma sprintf_one:
  "CHR ''%'' \<notin> set pre \<Longrightarrow> CHR ''%'' \<notin> set post \<Longrightarrow> sprintf_s (pre @ ''%s'' @ post) a = map of_char pre @ a @ map of_char post"
  by (induction pre) (auto simp: sprintf_plain)

definition one_directive :: "string \<Rightarrow> bool" where
  "one_directive f \<longleftrightarrow> (let pre = takeWhile (\<lambda>c. c \<noteq> CHR ''%'') f; post = drop (length pre + 2) f
     in f = pre @ ''%s'' @ post \<and> CHR ''%'' \<notin> set post)"

lemma all_one_directive: "\<forall>m \<in> set (msgs SyscallError_new). \<exists>f. m = Some f \<and> one_directive f"
  by (simp add: SyscallError_new_def one_directive_def newline_def)

text \<open>
  The message of the last error. Once any call has set it, \<open>PError\<close> prints the heading, a
  separator and the text of the error with the name in the place of its one \<open>%s\<close>: the message always
  fits into the buffer that is computed for it. Before the first call that sets it there is no
  text, and \<open>PError\<close> reads through a null pointer.
\<close>
theorem last_message_fits:
  assumes "msgs e = msgs SyscallError_new"
  shows "\<exists>e' pre post. SetMsg (Some about) (error_number n) e = Some e' \<and> GetFormat (error_number n) e' = Some (pre @ ''%s'' @ post)
    \<and> PrintLastMsg ch e' = Some [ch, map of_char '' : '', map of_char pre @ about @ map of_char post]
    \<and> PrintLastMsg ch SyscallError_new = None"
proof -
  let ?e = "e\<lparr>errorAbout := Some about, lastError := error_number n\<rparr>"
  have b: "0 \<le> error_number n" "nat (error_number n) < length (msgs SyscallError_new)"
    using error_number_bounds [of n] by (simp_all add: messages(1) nat_less_iff)
  then obtain f where f: "msgs SyscallError_new ! nat (error_number n) = Some f" "one_directive f"
    using all_one_directive nth_mem by metis
  define pre where "pre = takeWhile (\<lambda>c. c \<noteq> CHR ''%'') f"
  define post where "post = drop (length pre + 2) f"
  have s: "f = pre @ ''%s'' @ post" "CHR ''%'' \<notin> set post"
    using f(2) unfolding one_directive_def Let_def pre_def [symmetric] post_def [symmetric] by blast+
  have p: "CHR ''%'' \<notin> set pre" by (auto simp: pre_def dest: set_takeWhileD)
  have g: "aget (msgs ?e) (error_number n) = Some (Some f)" using b f(1) assms by (simp add: aget_def)
  have "GetFormat (error_number n) ?e = Some (pre @ ''%s'' @ post)"
    using g b(1) error_number_bounds(2) [of n] s(1) by (simp add: GetFormat_def NUMMSGERROR_def Let_def)
  moreover have "PrintLastMsg ch ?e = Some [ch, map of_char '' : '', map of_char pre @ about @ map of_char post]"
    using g sprintf_one [OF p s(2), of about] by (simp add: PrintLastMsg_def s(1) [symmetric] Let_def) (simp add: s(1))
  moreover have "PrintLastMsg ch SyscallError_new = None" by (simp add: PrintLastMsg_def SyscallError_new_def aget_def)
  ultimately show ?thesis using SetMsg_ok [OF assms] by blast
qed

end
