(* ===== verification/Nachos_PageFault.thy ===== *)
theory Nachos_PageFault
  imports Nachos_VMProps
begin

text \<open>
  A page fault from its beginning to its end: the page is under transfer, a frame is found
  for it, the page is written into the frame and becomes valid. The lemmas are about the
  parts of the invariant of \<open>Nachos_VMProps\<close> at each of these steps.
\<close>

subsection \<open>The page under transfer\<close>

lemma frames_ok_invalid:
  assumes f: "frames_ok N P T F B L" and e: "P pid vp = Some e" "\<not> valid e"
    and P': "\<And>p v. P' p v = (if p = pid \<and> v = vp then Some e' else P p v)" "\<not> valid e'"
  shows "frames_ok N P' T F (insert (pid, vp) B) L"
  unfolding frames_ok_def
proof (intro conjI allI impI)
  fix i
  assume "i < N" "\<not> tfree (T ! i)" "i \<notin> L"
  then obtain q w d where d: "\<not> locked (T ! i)" "holder T i = Some (q, w)" "P q w = Some d" "valid d" "physicalPage d = int i"
    using f unfolding frames_ok_def by blast
  then have "P' q w = Some d" using e P'(1) by auto
  then show "\<not> locked (T ! i)" "\<exists>pid vp e. holder T i = Some (pid, vp) \<and> P' pid vp = Some e \<and> valid e \<and> physicalPage e = int i"
    using d by auto
next
  fix q w d
  assume d: "P' q w = Some d"
  show "(q, w) \<in> insert (pid, vp) B" "\<not> valid d" if "io d"
    using d that P' f unfolding frames_ok_def by (metis insertI1 insertI2 option.inject)+
  assume "valid d"
  then have "P q w = Some d" using d P' by (auto split: if_splits)
  then show "\<exists>i<N. physicalPage d = int i \<and> \<not> tfree (T ! i) \<and> i \<notin> L \<and> holder T i = Some (q, w)"
    using f \<open>valid d\<close> unfolding frames_ok_def by blast
qed (use f in \<open>auto simp: frames_ok_def\<close>)

lemma swap_ok_upd:
  assumes s: "swap_ok cfg P M FL SD" and e: "P pid vp = Some e"
    and P': "\<And>p v. P' p v = (if p = pid \<and> v = vp then Some e' else P p v)"
    and e': "swap e' = swap e" "addrDisk e' = addrDisk e"
    and val: "\<And>p v d. P' p v = Some d \<Longrightarrow> valid d \<Longrightarrow> swap d \<Longrightarrow> \<not> bitM d \<Longrightarrow> SD ! nat (addrDisk d) = frame_of cfg M' (physicalPage d)"
  shows "swap_ok cfg P' M' FL SD"
proof -
  have old: "\<exists>d0. P p v = Some d0 \<and> swap d0 = swap d \<and> addrDisk d0 = addrDisk d" if "P' p v = Some d" for p v d
    using that P' e e' by (auto split: if_splits)
  show ?thesis
    unfolding swap_ok_def
  proof (intro conjI allI impI)
    fix p u d
    assume "P' p u = Some d" "swap d"
    then show "addrDisk d \<in> marked FL" using old s unfolding swap_ok_def by metis
  next
    fix p u d q w d'
    assume "P' p u = Some d" "P' q w = Some d'" "swap d" "swap d'" "addrDisk d = addrDisk d'"
    then have "p = q \<and> u = w" using old s unfolding swap_ok_def by metis
    then show "p = q" "u = w" by simp_all
  qed (use s val in \<open>simp_all add: swap_ok_def\<close>)
qed

lemma fault_begins:
  assumes inv: "vm_inv cfg B L k" and e: "pte k pid vp = Some e" "\<not> valid e"
    and k': "spaces_ok (k\<lparr>tables := T\<rparr>)"
      "\<And>p v. pte (k\<lparr>tables := T\<rparr>) p v = (if p = pid \<and> v = vp then Some (e\<lparr>io := True\<rparr>) else pte k p v)"
  shows "vm_inv cfg (insert (pid, vp) B) L (k\<lparr>tables := T\<rparr>)" "contents cfg (k\<lparr>tables := T\<rparr>) = contents cfg k"
proof -
  let ?N = "nat (NumPhysPages cfg)"
  have fr: "frames_ok ?N (pte k) (tpr k) (free_page_list k) B L"
    and sw: "swap_ok cfg (pte k) (mainMemory k) (page_flags k) (swap_disk k)" using inv by (simp_all add: vm_inv_def)
  have "frames_ok ?N (pte (k\<lparr>tables := T\<rparr>)) (tpr k) (free_page_list k) (insert (pid, vp) B) L"
    by (rule frames_ok_invalid [OF fr e k'(2)]) (simp add: e)
  moreover have "swap_ok cfg (pte (k\<lparr>tables := T\<rparr>)) (mainMemory k) (page_flags k) (swap_disk k)"
    by (rule swap_ok_upd [OF sw e(1) k'(2)]) (use k'(2) e(2) sw in \<open>auto simp: swap_ok_def split: if_splits\<close>)
  ultimately show "vm_inv cfg (insert (pid, vp) B) L (k\<lparr>tables := T\<rparr>)"
    using inv k'(1) by (simp add: vm_inv_def)
  show "contents cfg (k\<lparr>tables := T\<rparr>) = contents cfg k"
  proof (intro ext)
    fix p v
    show "contents cfg (k\<lparr>tables := T\<rparr>) p v = contents cfg k p v"
      using k'(2) [of p v] e
      by (cases "p = pid \<and> v = vp"; cases "pte k p v") (auto simp: contents_def frame_bytes_def read_file_def)
  qed
qed

subsection \<open>The page in its frame\<close>

lemma fault_frames:
  assumes f: "frames_ok N P T F {(pid, vp)} {c}" and h: "holder T c = Some (pid, vp)"
    and e: "P pid vp = Some e" "\<not> valid e"
    and P': "\<And>p v. P' p v = (if p = pid \<and> v = vp then Some e' else P p v)" "valid e'" "\<not> io e'" "physicalPage e' = int c"
  shows "frames_ok N P' (T[c := (T ! c)\<lparr>locked := False\<rparr>]) F {} {}"
proof -
  let ?T = "T[c := (T ! c)\<lparr>locked := False\<rparr>]"
  have len: "length T = N" "c < N" "\<not> tfree (T ! c)" using f by (simp_all add: frames_ok_def)
  have at: "?T ! i = T ! i" if "i \<noteq> c" for i using that by simp
  have free: "tfree (?T ! i) = tfree (T ! i)" for i
    using len by (cases "i = c") simp_all
  have hold: "holder ?T i = holder T i" for i
    using len by (cases "i = c") (simp_all add: holder_def)
  show ?thesis
    unfolding frames_ok_def free hold
  proof (intro conjI allI impI)
    fix i
    assume i: "i < N" "\<not> tfree (T ! i)"
    show "\<exists>pid vp e. holder T i = Some (pid, vp) \<and> P' pid vp = Some e \<and> valid e \<and> physicalPage e = int i"
    proof (cases "i = c")
      case True
      then show ?thesis using h P' by auto
    next
      case False
      then obtain q w d where d: "holder T i = Some (q, w)" "P q w = Some d" "valid d" "physicalPage d = int i"
        using f i unfolding frames_ok_def by blast
      then have "P' q w = Some d" using e P'(1) by auto
      then show ?thesis using d by auto
    qed
    show "\<not> locked (?T ! i)"
      using f i len by (cases "i = c") (auto simp: frames_ok_def)
  next
    fix q w d
    assume d: "P' q w = Some d"
    show "(q, w) \<in> {}" "\<not> valid d" if "io d"
      using d that P' f unfolding frames_ok_def by (auto split: if_splits)
    assume v: "valid d"
    show "\<exists>i<N. physicalPage d = int i \<and> \<not> tfree (T ! i) \<and> i \<notin> {} \<and> holder T i = Some (q, w)"
    proof (cases "q = pid \<and> w = vp")
      case True
      then show ?thesis using d P' h len by auto
    next
      case False
      then have "P q w = Some d" using d P'(1) [of q w] by auto
      then show ?thesis using f v unfolding frames_ok_def by blast
    qed
  qed (use f len in \<open>auto simp: frames_ok_def\<close>)
qed

text \<open>A valid page is not in a frame between two pages.\<close>

lemma other_frame:
  assumes "frames_ok N P T F B {c}" "P q w = Some d" "valid d"
  obtains i where "i < N" "physicalPage d = int i" "i \<noteq> c"
  using assms unfolding frames_ok_def by blast

lemma fault_swap:
  assumes s: "swap_ok cfg P M FL SD" and f: "frames_ok N P T F B {c}" and e: "P pid vp = Some e"
    and P': "\<And>p v. P' p v = (if p = pid \<and> v = vp then Some e' else P p v)" "physicalPage e' = int c"
      "swap e' = swap e" "addrDisk e' = addrDisk e"
    and M': "frame_of cfg M' (int c) = b" "\<And>i. i \<noteq> c \<Longrightarrow> frame_of cfg M' (int i) = frame_of cfg M (int i)"
    and b: "swap e \<Longrightarrow> SD ! nat (addrDisk e) = b"
  shows "swap_ok cfg P' M' FL SD"
proof (rule swap_ok_upd [OF s e P'(1,3,4)])
  fix p v d
  assume d: "P' p v = Some d" "valid d" "swap d" "\<not> bitM d"
  show "SD ! nat (addrDisk d) = frame_of cfg M' (physicalPage d)"
  proof (cases "p = pid \<and> v = vp")
    case True
    then show ?thesis using d P' M'(1) b by auto
  next
    case False
    then have "P p v = Some d" using d(1) P'(1) [of p v] by auto
    then show ?thesis using other_frame [OF f _ d(2)] M'(2) d s unfolding swap_ok_def by metis
  qed
qed

lemma frame_bytes_frame:
  assumes "int (length (mainMemory k)) = NumPhysPages cfg * PageSize cfg" "0 < PageSize cfg" "i < nat (NumPhysPages cfg)"
  shows "frame_bytes cfg (int i) (PageSize cfg) k = Some (frame_of cfg (mainMemory k) (int i))"
proof -
  have "int i < NumPhysPages cfg" using assms(3) by linarith
  then show ?thesis using frame_bytes_ok(1) [OF assms(1,2)] by blast
qed

text \<open>The state with page \<open>vp\<close> in frame \<open>c\<close>, once the bits of its entry are set.\<close>

lemma fault_ends:
  assumes inv: "vm_inv cfg {(pid, vp)} {c} k" and h: "holder (tpr k) c = Some (pid, vp)"
    and e: "pte k pid vp = Some e" "\<not> valid e" "contents cfg k pid vp = Some b"
    and M': "length M' = length (mainMemory k)" "frame_of cfg M' (int c) = b"
      "\<And>i. i \<noteq> c \<Longrightarrow> frame_of cfg M' (int i) = frame_of cfg (mainMemory k) (int i)"
    and k': "k' = k\<lparr>mainMemory := M', tables := T, tpr := (tpr k)[c := (tpr k ! c)\<lparr>locked := False\<rparr>]\<rparr>" "spaces_ok k'"
      "\<And>p v. pte k' p v = (if p = pid \<and> v = vp then Some e' else pte k p v)"
      "valid e'" "\<not> io e'" "physicalPage e' = int c" "swap e' = swap e" "addrDisk e' = addrDisk e"
  shows "vm_inv cfg {} {} k'" "contents cfg k' = contents cfg k"
proof -
  let ?N = "nat (NumPhysPages cfg)"
  have fr: "frames_ok ?N (pte k) (tpr k) (free_page_list k) {(pid, vp)} {c}"
    and sw: "swap_ok cfg (pte k) (mainMemory k) (page_flags k) (swap_disk k)"
    and mem: "int (length (mainMemory k)) = NumPhysPages cfg * PageSize cfg" and ps: "0 < PageSize cfg"
    using inv by (simp_all add: vm_inv_def)
  have cN: "c < ?N" using fr by (simp add: frames_ok_def)
  have rd: "swap_disk k ! nat (addrDisk e) = b" if "swap e"
    using e(2,3) that by (auto simp: contents_def e(1) ReadSector_def aget_def split: if_splits)
  have "frames_ok ?N (pte k') (tpr k') (free_page_list k') {} {}"
    using fault_frames [OF fr h e(1,2) k'(3-6)] by (simp add: k'(1))
  moreover have "swap_ok cfg (pte k') M' (page_flags k) (swap_disk k)"
    by (rule fault_swap [OF sw fr e(1) k'(3,6-8) M'(2,3) rd])
  ultimately show "vm_inv cfg {} {} k'"
    using inv k'(2) M'(1) unfolding vm_inv_def by (simp add: k'(1))
  have mem': "int (length (mainMemory k')) = NumPhysPages cfg * PageSize cfg" "mainMemory k' = M'"
    using mem M'(1) by (simp_all add: k'(1))
  show "contents cfg k' = contents cfg k"
  proof (intro ext)
    fix p v
    show "contents cfg k' p v = contents cfg k p v"
    proof (cases "p = pid \<and> v = vp")
      case True
      then show ?thesis
        using k'(3,4,6) e(3) M'(2) frame_bytes_frame [OF mem'(1) ps cN] mem'(2) by (simp add: contents_def)
    next
      case ne: False
      show ?thesis
      proof (cases "pte k p v")
        case (Some d)
        have "frame_bytes cfg (physicalPage d) (PageSize cfg) k' = frame_bytes cfg (physicalPage d) (PageSize cfg) k" if "valid d"
          using other_frame [OF fr Some that] frame_bytes_frame [OF mem'(1) ps] frame_bytes_frame [OF mem ps] M'(3) mem'(2)
          by metis
        moreover have "pte k' p v = Some d" using k'(3) [of p v] ne Some by simp
        moreover have "swap_disk k' = swap_disk k" "exec_file k' = exec_file k" "files k' = files k" "fs k' = fs k"
          by (simp_all add: k'(1))
        ultimately show ?thesis using Some by (simp add: contents_def read_file_def)
      qed (use k'(3) [of p v] ne in \<open>auto simp: contents_def\<close>)
    qed
  qed
qed

subsection \<open>The whole fault\<close>

lemma tt_set_again:
  assumes "spaces_ok (k\<lparr>tables := T\<rparr>)" "processes k pid = Some pr"
    "\<And>p v. pte (k\<lparr>tables := T\<rparr>) p v = (if p = pid \<and> v = vp then Some e else P p v)"
  obtains T' where "tt_set (pte_set g) (ptable pr) vp (k\<lparr>tables := T\<rparr>) = Some (k\<lparr>tables := T'\<rparr>)"
    "spaces_ok (k\<lparr>tables := T'\<rparr>)"
    "\<And>p v. pte (k\<lparr>tables := T'\<rparr>) p v = (if p = pid \<and> v = vp then Some (g e) else P p v)"
proof -
  have 1: "processes (k\<lparr>tables := T\<rparr>) pid = Some pr" "pte (k\<lparr>tables := T\<rparr>) pid vp = Some e"
    using assms(2,3) by simp_all
  obtain T' where T': "tt_set (pte_set g) (ptable pr) vp (k\<lparr>tables := T\<rparr>) = Some (k\<lparr>tables := T\<rparr>\<lparr>tables := T'\<rparr>)"
    "spaces_ok (k\<lparr>tables := T\<rparr>\<lparr>tables := T'\<rparr>)"
    "\<And>p v. pte (k\<lparr>tables := T\<rparr>\<lparr>tables := T'\<rparr>) p v = (if p = pid \<and> v = vp then Some (g e) else pte (k\<lparr>tables := T\<rparr>) p v)"
    using tt_set_pte [OF assms(1) 1, of g] by blast
  have "pte (k\<lparr>tables := T'\<rparr>) p v = (if p = pid \<and> v = vp then Some (g e) else P p v)" for p v
    using T'(3) [of p v] assms(3) [of p v] by simp
  then show ?thesis using that [of T'] T'(1,2) by simp
qed

text \<open>From the copy of the page into its frame to the end.\<close>

lemma fault_installs:
  assumes inv: "vm_inv cfg {(pid, vp)} {c} k" and h: "holder (tpr k) c = Some (pid, vp)" "locked (tpr k ! c)"
    and pr: "processes k pid = Some pr"
    and e: "pte k pid vp = Some e" "\<not> valid e" "contents cfg k pid vp = Some b" and lb: "length b = nat (PageSize cfg)"
  obtains k' where
    "(do { mem \<leftarrow> blit (mainMemory k) (int c * PageSize cfg) b;
       k5 \<leftarrow> tt_set (\<lambda>tt vp. setPhysicalPage tt vp (int c)) (ptable pr) vp (k\<lparr>mainMemory := mem\<rparr>);
       k6 \<leftarrow> tt_set clearBitIo (ptable pr) vp k5;
       k7 \<leftarrow> tt_set clearBitM (ptable pr) vp k6;
       k8 \<leftarrow> tt_set setBitU (ptable pr) vp k7;
       k9 \<leftarrow> tt_set setBitValid (ptable pr) vp k8;
       UnlockPage cfg (int c) k9 }) = Some k'"
    "vm_inv cfg {} {} k'" "contents cfg k' = contents cfg k" "pte k' pid vp = Some (e\<lparr>physicalPage := int c, io := False,
      bitM := False, bitU := True, valid := True\<rparr>)" "vm_same k k'"
proof -
  let ?N = "nat (NumPhysPages cfg)"
  have sp: "spaces_ok k" and ps: "0 < PageSize cfg" and mem: "int (length (mainMemory k)) = NumPhysPages cfg * PageSize cfg"
    and fr: "frames_ok ?N (pte k) (tpr k) (free_page_list k) {(pid, vp)} {c}" using inv by (simp_all add: vm_inv_def)
  have c: "c < ?N" "\<not> tfree (tpr k ! c)" "length (tpr k) = ?N" using fr by (simp_all add: frames_ok_def)
  have cN: "int c < NumPhysPages cfg" using c(1) by linarith
  obtain M' where M': "blit (mainMemory k) (int c * PageSize cfg) b = Some M'" "length M' = length (mainMemory k)"
    "frame_of cfg M' (int c) = b" "\<And>i. i \<noteq> c \<Longrightarrow> frame_of cfg M' (int i) = frame_of cfg (mainMemory k) (int i)"
    using frame_of_blit [OF mem ps cN lb] by blast
  define km where "km = k\<lparr>mainMemory := M'\<rparr>"
  have 0: "spaces_ok (km\<lparr>tables := tables k\<rparr>)" "processes km pid = Some pr"
    "\<And>p v. pte (km\<lparr>tables := tables k\<rparr>) p v = (if p = pid \<and> v = vp then Some e else pte k p v)"
    using sp pr e(1) pte_cong [of "km\<lparr>tables := tables k\<rparr>" k] spaces_cong [of "km\<lparr>tables := tables k\<rparr>" k]
    by (simp_all add: km_def)
  have km: "km\<lparr>tables := tables k\<rparr> = km" by (simp add: km_def)
  obtain T5 where T5: "tt_set (pte_set (\<lambda>e. e\<lparr>physicalPage := int c\<rparr>)) (ptable pr) vp (km\<lparr>tables := tables k\<rparr>) = Some (km\<lparr>tables := T5\<rparr>)"
    "spaces_ok (km\<lparr>tables := T5\<rparr>)"
    "\<And>p v. pte (km\<lparr>tables := T5\<rparr>) p v = (if p = pid \<and> v = vp then Some (e\<lparr>physicalPage := int c\<rparr>) else pte k p v)"
    using tt_set_again [OF 0] by blast
  obtain T6 where T6: "tt_set (pte_set (\<lambda>e. e\<lparr>io := False\<rparr>)) (ptable pr) vp (km\<lparr>tables := T5\<rparr>) = Some (km\<lparr>tables := T6\<rparr>)"
    "spaces_ok (km\<lparr>tables := T6\<rparr>)"
    "\<And>p v. pte (km\<lparr>tables := T6\<rparr>) p v = (if p = pid \<and> v = vp then Some (e\<lparr>physicalPage := int c\<rparr>\<lparr>io := False\<rparr>) else pte k p v)"
    using tt_set_again [OF T5(2) 0(2) T5(3)] by blast
  obtain T7 where T7: "tt_set (pte_set (\<lambda>e. e\<lparr>bitM := False\<rparr>)) (ptable pr) vp (km\<lparr>tables := T6\<rparr>) = Some (km\<lparr>tables := T7\<rparr>)"
    "spaces_ok (km\<lparr>tables := T7\<rparr>)"
    "\<And>p v. pte (km\<lparr>tables := T7\<rparr>) p v =
      (if p = pid \<and> v = vp then Some (e\<lparr>physicalPage := int c\<rparr>\<lparr>io := False\<rparr>\<lparr>bitM := False\<rparr>) else pte k p v)"
    using tt_set_again [OF T6(2) 0(2) T6(3)] by blast
  obtain T8 where T8: "tt_set (pte_set (\<lambda>e. e\<lparr>bitU := True\<rparr>)) (ptable pr) vp (km\<lparr>tables := T7\<rparr>) = Some (km\<lparr>tables := T8\<rparr>)"
    "spaces_ok (km\<lparr>tables := T8\<rparr>)"
    "\<And>p v. pte (km\<lparr>tables := T8\<rparr>) p v =
      (if p = pid \<and> v = vp then Some (e\<lparr>physicalPage := int c\<rparr>\<lparr>io := False\<rparr>\<lparr>bitM := False\<rparr>\<lparr>bitU := True\<rparr>) else pte k p v)"
    using tt_set_again [OF T7(2) 0(2) T7(3)] by blast
  let ?e = "e\<lparr>physicalPage := int c\<rparr>\<lparr>io := False\<rparr>\<lparr>bitM := False\<rparr>\<lparr>bitU := True\<rparr>\<lparr>valid := True\<rparr>"
  obtain T9 where T9: "tt_set (pte_set (\<lambda>e. e\<lparr>valid := True\<rparr>)) (ptable pr) vp (km\<lparr>tables := T8\<rparr>) = Some (km\<lparr>tables := T9\<rparr>)"
    "spaces_ok (km\<lparr>tables := T9\<rparr>)"
    "\<And>p v. pte (km\<lparr>tables := T9\<rparr>) p v = (if p = pid \<and> v = vp then Some ?e else pte k p v)"
    using tt_set_again [OF T8(2) 0(2) T8(3)] by blast
  define k' where "k' = km\<lparr>tables := T9\<rparr>\<lparr>tpr := (tpr k)[c := (tpr k ! c)\<lparr>locked := False\<rparr>]\<rparr>"
  have un: "UnlockPage cfg (int c) (km\<lparr>tables := T9\<rparr>) = Some k'"
    using c h(2) cN by (simp add: UnlockPage_def aget_nat aset_nat km_def k'_def)
  have sp': "spaces_ok k'" "\<And>p v. pte k' p v = (if p = pid \<and> v = vp then Some ?e else pte k p v)"
    using T9(2,3) by (simp_all add: k'_def)
  have eq: "k' = k\<lparr>mainMemory := M', tables := T9, tpr := (tpr k)[c := (tpr k ! c)\<lparr>locked := False\<rparr>]\<rparr>"
    by (simp add: k'_def km_def)
  have ends: "vm_inv cfg {} {} k'" "contents cfg k' = contents cfg k"
    by (rule fault_ends [OF inv h(1) e M'(2-4) eq sp']; simp)+
  show ?thesis
  proof (rule that)
    show "(do { mem \<leftarrow> blit (mainMemory k) (int c * PageSize cfg) b;
       k5 \<leftarrow> tt_set (\<lambda>tt vp. setPhysicalPage tt vp (int c)) (ptable pr) vp (k\<lparr>mainMemory := mem\<rparr>);
       k6 \<leftarrow> tt_set clearBitIo (ptable pr) vp k5;
       k7 \<leftarrow> tt_set clearBitM (ptable pr) vp k6;
       k8 \<leftarrow> tt_set setBitU (ptable pr) vp k7;
       k9 \<leftarrow> tt_set setBitValid (ptable pr) vp k8;
       UnlockPage cfg (int c) k9 }) = Some k'"
      using T5(1) unfolding M'(1) tt_ops km by (simp add: km_def [symmetric] T6(1) T7(1) T8(1) T9(1) un)
    show "pte k' pid vp = Some (e\<lparr>physicalPage := int c, io := False, bitM := False, bitU := True, valid := True\<rparr>)"
      using sp'(2) by simp
    show "vm_same k k'" by (simp add: eq vm_same_def)
  qed (use ends in simp_all)
qed

text \<open>The beginning of a fault, and the frame for its page.\<close>

lemma page_marked:
  assumes "vm_inv cfg {} {} k" "swap_room k"
    and "current_pid k = Some cp" "processes k cp = Some cpr" "pte k cp vp = Some e" "\<not> valid e"
  obtains k2 where "io_wait others (ptable cpr) vp k = Some k" "tt_get getBitValid (ptable cpr) vp k = Some False"
    "tt_set setBitIo (ptable cpr) vp k = Some k2" "tt_get getAddrDisk (ptable cpr) vp k2 = Some (addrDisk e)"
    "vm_inv cfg {(cp, vp)} {} k2" "contents cfg k2 = contents cfg k" "swap_room k2" "current_pid k2 = Some cp"
    "processes k2 cp = Some cpr" "pte k2 cp vp = Some (e\<lparr>io := True\<rparr>)"
proof -
  have sp: "spaces_ok k" using assms(1) by (simp add: vm_inv_def)
  have io: "\<not> io e" using assms(1,5) unfolding vm_inv_def frames_ok_def by blast
  note get = tt_get_pte [OF sp assms(4,5)]
  have 1: "io_wait others (ptable cpr) vp k = Some k"
    using get [of io] io by (subst io_wait.simps) (simp add: tt_ops)
  obtain T where T: "tt_set (pte_set (\<lambda>e. e\<lparr>io := True\<rparr>)) (ptable cpr) vp k = Some (k\<lparr>tables := T\<rparr>)"
    "spaces_ok (k\<lparr>tables := T\<rparr>)"
    "\<And>p v. pte (k\<lparr>tables := T\<rparr>) p v = (if p = cp \<and> v = vp then Some (e\<lparr>io := True\<rparr>) else pte k p v)"
    using tt_set_pte [OF sp assms(4,5), of "\<lambda>e. e\<lparr>io := True\<rparr>"] by blast
  let ?k = "k\<lparr>tables := T\<rparr>"
  have f: "swap_room ?k" "current_pid ?k = Some cp" "processes ?k cp = Some cpr" "pte ?k cp vp = Some (e\<lparr>io := True\<rparr>)"
    using T(3) assms(2-4) by (simp_all add: current_pid_def GetProcessOwner_def swap_room_def)
  have g: "tt_get getBitValid (ptable cpr) vp k = Some False" "tt_set setBitIo (ptable cpr) vp k = Some ?k"
    "tt_get getAddrDisk (ptable cpr) vp ?k = Some (addrDisk e)"
    using get [of valid] assms(6) T(1) tt_get_pte [OF T(2) f(3,4), of addrDisk] by (simp_all add: tt_ops)
  show thesis
    by (rule that [OF 1 g fault_begins [OF assms(1,5,6) T(2,3)] f])
qed

lemma frame_found:
  assumes "vm_inv cfg B {} k2" "swap_room k2" "current_pid k2 = Some cp" "processes k2 cp = Some cpr"
    and "pte k2 cp vp = Some e" "\<not> valid e"
  obtains c k4 where "AddPhysicalToVirtualMapping cfg others cp vp k2 = Some (int c, k4)" "vm_inv cfg B {c} k4"
    "contents cfg k4 = contents cfg k2" "processes k4 cp = Some cpr" "pte k4 cp vp = Some e" "holder (tpr k4) c = Some (cp, vp)"
    "locked (tpr k4 ! c)"
proof (rule AddPhysical_ok [OF assms(1-4), of others cp vp])
  fix c k4
  assume h: "AddPhysicalToVirtualMapping cfg others cp vp k2 = Some (int c, k4)" "vm_inv cfg B {c} k4"
    "contents cfg k4 = contents cfg k2" "vm_same k2 k4" "holder (tpr k4) c = Some (cp, vp)" "locked (tpr k4 ! c)"
    "\<And>p v e. pte k2 p v = Some e \<Longrightarrow> \<not> valid e \<Longrightarrow> pte k4 p v = Some e"
  have "processes k4 cp = Some cpr" using h(4) assms(4) by (simp add: vm_same_def)
  then show thesis by (rule that [OF h(1-3) _ h(7) [OF assms(5,6)] h(5,6)])
qed


subsection \<open>The clock, and a full swap area\<close>


lemma GetFreePage_full:
  "wf_bitmap b \<Longrightarrow> 0 \<le> i \<Longrightarrow> i + int n = numBits b \<Longrightarrow> \<forall>s. i \<le> s \<longrightarrow> s < numBits b \<longrightarrow> s \<in> marked b
   \<Longrightarrow> GetFreePage_from n i b = Some (- 1, b)"
proof (induction n arbitrary: i)
  case (Suc n)
  then show ?case using BitMap_Test_correct [OF Suc.prems(1,2)] Suc.IH [of "i + 1"] by simp
qed simp

lemma PutPageSwap_full:
  assumes "wf_bitmap (page_flags k)" "numBits (page_flags k) = 2048" "\<not> swap_room k"
  shows "PutPageSwap (- 1) page k = Some (- 1, k)"
proof -
  have "\<forall>s. 0 \<le> s \<longrightarrow> s < 2048 \<longrightarrow> s \<in> marked (page_flags k)" using assms(3) by (auto simp: swap_room_def)
  then have "GetFreePage_from 2048 0 (page_flags k) = Some (- 1, page_flags k)"
    using GetFreePage_full [OF assms(1), of 0 2048] assms(2) by simp
  then show ?thesis by (simp add: PutPageSwap_def GetFreePage_def)
qed

lemma sector_wait_forever:
  assumes "\<And>k1 k2. others k1 = Some k2 \<Longrightarrow> tt_get getAddrDisk a vp k1 = Some (- 1) \<Longrightarrow> tt_get getAddrDisk a vp k2 = Some (- 1)"
    and "tt_get getAddrDisk a vp k = Some (- 1)"
  shows "sector_wait others a vp (- 1) k = None"
proof -
  have "oth = others \<longrightarrow> x = a \<longrightarrow> v = vp \<longrightarrow> n = - 1 \<longrightarrow> tt_get getAddrDisk a vp k \<noteq> Some (- 1)"
    if "sector_wait oth x v n k = Some r" for oth x v n k r
  proof (rule sector_wait.raw_induct [where P = "\<lambda>oth x v n k r. oth = others \<longrightarrow> x = a \<longrightarrow> v = vp \<longrightarrow> n = - 1
      \<longrightarrow> tt_get getAddrDisk a vp k \<noteq> Some (- 1)", OF _ that], intro impI notI)
    fix f oth x v and n :: int and k r
    assume h: "\<And>oth x v n k r. f oth x v n k = Some r \<Longrightarrow> oth = others \<longrightarrow> x = a \<longrightarrow> v = vp \<longrightarrow> n = - 1
        \<longrightarrow> tt_get getAddrDisk a vp k \<noteq> Some (- 1)"
      "(if n = - 1 then do { k1 \<leftarrow> oth k; n \<leftarrow> tt_get getAddrDisk x v k1; f oth x v n k1 } else Some (n, k)) = Some r"
      "oth = others" "x = a" "v = vp" "n = - 1" "tt_get getAddrDisk a vp k = Some (- 1)"
    then obtain k1 m where "others k = Some k1" "tt_get getAddrDisk a vp k1 = Some m" "f others a vp m k1 = Some r"
      by (auto elim!: bind_Some_cases)
    moreover from this have "tt_get getAddrDisk a vp k1 = Some (- 1)" using assms(1) h(7) by blast
    ultimately show False using h(1) [of others a vp m k1 r] by simp
  qed
  then show ?thesis using assms(2) by (cases "sector_wait others a vp (- 1) k") auto
qed

text \<open>
  C38. When the swap area is full, an evicted page that has no sector is lost: nothing is
  written, its entry says that it is in swap, in no sector, and a later fault on it waits
  for ever for its sector, whatever the other threads do that does not give it one.
\<close>
theorem full_swap_loses_page:
  assumes "spaces_ok k" "wf_bitmap (page_flags k)" "numBits (page_flags k) = 2048" "\<not> swap_room k"
    and "processes k pid = Some pr" "pte k pid vp = Some e" "\<not> swap e"
    and "frame_bytes cfg c (SectorSize cfg) k = Some page"
    and "\<And>k1 k2. others k1 = Some k2 \<Longrightarrow> tt_get getAddrDisk (ptable pr) vp k1 = Some (- 1)
      \<Longrightarrow> tt_get getAddrDisk (ptable pr) vp k2 = Some (- 1)"
  shows "\<exists>k'. write_swap cfg (ptable pr) vp c k = Some k' \<and> swap_disk k' = swap_disk k
    \<and> pte k' pid vp = Some (e\<lparr>addrDisk := - 1, swap := True\<rparr>)
    \<and> load_page cfg others (ptable pr) vp None (- 1) k' = None"
proof -
  let ?e = "e\<lparr>addrDisk := - 1\<rparr>"
  have 0: "spaces_ok (k\<lparr>tables := tables k\<rparr>)"
    "\<And>p v. pte (k\<lparr>tables := tables k\<rparr>) p v = (if p = pid \<and> v = vp then Some e else pte k p v)"
    using assms(1,6) by simp_all
  obtain T1 where T1: "tt_set (pte_set (\<lambda>e. e\<lparr>addrDisk := - 1\<rparr>)) (ptable pr) vp (k\<lparr>tables := tables k\<rparr>) = Some (k\<lparr>tables := T1\<rparr>)"
    "spaces_ok (k\<lparr>tables := T1\<rparr>)"
    "\<And>p v. pte (k\<lparr>tables := T1\<rparr>) p v = (if p = pid \<and> v = vp then Some ?e else pte k p v)"
    using tt_set_again [OF 0(1) assms(5) 0(2)] by blast
  obtain T2 where T2: "tt_set (pte_set (\<lambda>e. e\<lparr>addrDisk := - 1\<rparr>)) (ptable pr) vp (k\<lparr>tables := T1\<rparr>) = Some (k\<lparr>tables := T2\<rparr>)"
    "spaces_ok (k\<lparr>tables := T2\<rparr>)"
    "\<And>p v. pte (k\<lparr>tables := T2\<rparr>) p v = (if p = pid \<and> v = vp then Some (?e\<lparr>addrDisk := - 1\<rparr>) else pte k p v)"
    using tt_set_again [OF T1(2) assms(5) T1(3)] by blast
  obtain T3 where T3: "tt_set (pte_set (\<lambda>e. e\<lparr>swap := True\<rparr>)) (ptable pr) vp (k\<lparr>tables := T2\<rparr>) = Some (k\<lparr>tables := T3\<rparr>)"
    "spaces_ok (k\<lparr>tables := T3\<rparr>)"
    "\<And>p v. pte (k\<lparr>tables := T3\<rparr>) p v = (if p = pid \<and> v = vp then Some (?e\<lparr>addrDisk := - 1\<rparr>\<lparr>swap := True\<rparr>) else pte k p v)"
    using tt_set_again [OF T2(2) assms(5) T2(3)] by blast
  have fb: "frame_bytes cfg c (SectorSize cfg) (k\<lparr>tables := T1\<rparr>) = Some page" using assms(8) by (simp add: frame_bytes_def)
  have put: "PutPageSwap (- 1) page (k\<lparr>tables := T1\<rparr>) = Some (- 1, k\<lparr>tables := T1\<rparr>)"
    using PutPageSwap_full [of "k\<lparr>tables := T1\<rparr>" page] assms(2-4) by (simp add: swap_room_def)
  have w: "write_swap cfg (ptable pr) vp c k = Some (k\<lparr>tables := T3\<rparr>)"
    using tt_get_pte [OF assms(1,5,6), of swap] assms(7) T1(1) T2(1) T3(1) fb put by (simp add: write_swap_def tt_ops)
  have p: "processes (k\<lparr>tables := T3\<rparr>) pid = Some pr" "pte (k\<lparr>tables := T3\<rparr>) pid vp = Some (?e\<lparr>addrDisk := - 1\<rparr>\<lparr>swap := True\<rparr>)"
    using assms(5) T3(3) by simp_all
  note g = tt_get_pte [OF T3(2) p]
  have "tt_get getAddrDisk (ptable pr) vp (k\<lparr>tables := T3\<rparr>) = Some (- 1)" using g [of addrDisk] by (simp add: tt_ops)
  then have "sector_wait others (ptable pr) vp (- 1) (k\<lparr>tables := T3\<rparr>) = None" using sector_wait_forever assms(9) by blast
  then have "load_page cfg others (ptable pr) vp None (- 1) (k\<lparr>tables := T3\<rparr>) = None"
    using g [of addrDisk] g [of swap] by (simp add: load_page_def tt_ops)
  then show ?thesis using w p(2) by auto
qed

end
