(* ===== verification/Nachos_ProcessEnd.thy ===== *)
theory Nachos_ProcessEnd
  imports Nachos_PageFault
begin

text \<open>
  The end of a process (the destructors of \<open>kernel/process.cc\<close> and \<open>kernel/addrspace.cc\<close>):
  its frames and its sectors of the swap area are free again, and nothing else changes.
\<close>

subsection \<open>Pages that leave the tables\<close>

text \<open>The invariants with some entries left out.\<close>

lemma frames_ok_drop:
  assumes f: "frames_ok N P T F B L" and P': "\<And>p v. P' p v = P p v \<or> P' p v = None \<and> (\<forall>e. P p v = Some e \<longrightarrow> \<not> valid e)"
  shows "frames_ok N P' T F B L"
  unfolding frames_ok_def
proof (intro conjI allI impI)
  fix i
  assume "i < N" "\<not> tfree (T ! i)" "i \<notin> L"
  then obtain q w d where d: "\<not> locked (T ! i)" "holder T i = Some (q, w)" "P q w = Some d" "valid d" "physicalPage d = int i"
    using f unfolding frames_ok_def by blast
  then have "P' q w = Some d" using P' [of q w] by auto
  then show "\<not> locked (T ! i)" "\<exists>pid vp e. holder T i = Some (pid, vp) \<and> P' pid vp = Some e \<and> valid e \<and> physicalPage e = int i"
    using d by auto
next
  fix q w d
  assume "P' q w = Some d"
  then have P: "P q w = Some d" using P' [of q w] by auto
  show "(q, w) \<in> B" "\<not> valid d" if "io d" using P that f unfolding frames_ok_def by blast+
  show "\<exists>i<N. physicalPage d = int i \<and> \<not> tfree (T ! i) \<and> i \<notin> L \<and> holder T i = Some (q, w)" if "valid d"
    using P that f unfolding frames_ok_def by blast
qed (use f in \<open>auto simp: frames_ok_def\<close>)

lemma swap_ok_drop:
  assumes s: "swap_ok cfg P M FL SD" and P': "\<And>p v. P' p v = P p v \<or> P' p v = None"
    and FL': "wf_bitmap FL'" "numBits FL' = 2048" "\<And>p v e. P' p v = Some e \<Longrightarrow> swap e \<Longrightarrow> addrDisk e \<in> marked FL'"
  shows "swap_ok cfg P' M FL' SD"
proof -
  have P: "P p v = Some e" if "P' p v = Some e" for p v e using that P' [of p v] by auto
  show ?thesis
    unfolding swap_ok_def
  proof (intro conjI allI impI)
    fix p v e q w d
    assume "P' p v = Some e" "P' q w = Some d" "swap e" "swap d" "addrDisk e = addrDisk d"
    then have "p = q \<and> v = w" using P s unfolding swap_ok_def by metis
    then show "p = q" "v = w" by simp_all
  next
    fix p v e
    assume "P' p v = Some e" "valid e" "swap e" "\<not> bitM e"
    then show "SD ! nat (addrDisk e) = frame_of cfg M (physicalPage e)" using P s unfolding swap_ok_def by blast
  qed (use s FL' in \<open>simp_all add: swap_ok_def\<close>)
qed

lemma frames_ok_release:
  assumes f: "frames_ok N P T F {} {}" and e: "P pid vp = Some e" "valid e" "physicalPage e = int c"
    and P': "\<And>p v. P' p v = (if p = pid \<and> v = vp then None else P p v)" and x: "tfree x"
  shows "frames_ok N P' (T[c := x]) (int c # F) {} {}"
proof -
  have len: "length T = N" using f by (simp add: frames_ok_def)
  obtain i where "i < N" "physicalPage e = int i" "\<not> tfree (T ! i)" "holder T i = Some (pid, vp)"
    using f e(1,2) unfolding frames_ok_def by blast
  then have c: "c < N" "\<not> tfree (T ! c)" "holder T c = Some (pid, vp)" using e(3) by simp_all
  have at: "T[c := x] ! i = T ! i" "holder (T[c := x]) i = holder T i" if "i \<noteq> c" for i
    using that by (simp_all add: holder_def)
  have F: "distinct F" "set F = int ` {i. i < N \<and> tfree (T ! i)}" using f by (simp_all add: frames_ok_def)
  show ?thesis
    unfolding frames_ok_def
  proof (intro conjI allI impI)
    show "distinct (int c # F)" using F c(2) by auto
    have "{i. i < N \<and> tfree (T[c := x] ! i)} = insert c {i. i < N \<and> tfree (T ! i)}"
      using c(1) x len by (auto simp: nth_list_update)
    then show "set (int c # F) = int ` {i. i < N \<and> tfree (T[c := x] ! i)}" using F(2) by simp
  next
    fix i
    assume i: "i < N" "\<not> tfree (T[c := x] ! i)" "i \<notin> {}"
    then have ne: "i \<noteq> c" using x len c(1) by auto
    then obtain q w d where d: "\<not> locked (T ! i)" "holder T i = Some (q, w)" "P q w = Some d" "valid d" "physicalPage d = int i"
      using f i at unfolding frames_ok_def by auto
    then have "\<not> (q = pid \<and> w = vp)" using e ne by auto
    then show "\<not> locked (T[c := x] ! i)"
      "\<exists>pid vp e. holder (T[c := x]) i = Some (pid, vp) \<and> P' pid vp = Some e \<and> valid e \<and> physicalPage e = int i"
      using d ne at P' by auto
  next
    fix q w d
    assume d: "P' q w = Some d"
    then have ne: "\<not> (q = pid \<and> w = vp)" "P q w = Some d" using P' [of q w] by (auto split: if_splits)
    show "(q, w) \<in> {}" "\<not> valid d" if "io d" using ne(2) that f unfolding frames_ok_def by blast+
    assume "valid d"
    then obtain i where i: "i < N" "physicalPage d = int i" "\<not> tfree (T ! i)" "holder T i = Some (q, w)"
      using f ne(2) unfolding frames_ok_def by blast
    then have "i \<noteq> c" using c(3) ne(1) by auto
    then show "\<exists>i<N. physicalPage d = int i \<and> \<not> tfree (T[c := x] ! i) \<and> i \<notin> {} \<and> holder (T[c := x]) i = Some (q, w)"
      using at i by (intro exI [of _ i]) simp
  qed (use len in simp_all)
qed

subsection \<open>One page\<close>

lemma tt_set_tpr: "tt_set f a vp (k\<lparr>tpr := t\<rparr>) = map_option (\<lambda>k'. k'\<lparr>tpr := t\<rparr>) (tt_set f a vp k)"
proof (cases "tables k a")
  case (Some tt)
  then show ?thesis by (cases "f tt vp") (simp_all add: tt_set_def)
qed (simp add: tt_set_def)

lemma RemovePhysical_ok:
  assumes sp: "spaces_ok k" and pr: "processes k pid = Some pr" and e: "pte k pid vp = Some e"
    and c: "c < length (tpr k)" "\<not> tfree (tpr k ! c)" "holder (tpr k) c = Some (pid, vp)"
  obtains T where "RemovePhysicalToVirtualMapping (int c) k = Some (k\<lparr>tables := T,
      tpr := (tpr k)[c := (tpr k ! c)\<lparr>tfree := True, locked := False\<rparr>], free_page_list := int c # free_page_list k\<rparr>)"
    "spaces_ok (k\<lparr>tables := T\<rparr>)"
    "\<And>p v. pte (k\<lparr>tables := T\<rparr>) p v = (if p = pid \<and> v = vp then Some (e\<lparr>valid := False\<rparr>) else pte k p v)"
proof -
  let ?t = "(tpr k)[c := (tpr k ! c)\<lparr>tfree := True, locked := False\<rparr>]"
  obtain T where T: "tt_set (pte_set (\<lambda>e. e\<lparr>valid := False\<rparr>)) (ptable pr) vp k = Some (k\<lparr>tables := T\<rparr>)"
    "spaces_ok (k\<lparr>tables := T\<rparr>)"
    "\<And>p v. pte (k\<lparr>tables := T\<rparr>) p v = (if p = pid \<and> v = vp then Some (e\<lparr>valid := False\<rparr>) else pte k p v)"
    using tt_set_pte [OF sp pr e, of "\<lambda>e. e\<lparr>valid := False\<rparr>"] by blast
  have "tt_set clearBitValid (ptable pr) vp (k\<lparr>tpr := ?t\<rparr>) = Some (k\<lparr>tables := T, tpr := ?t\<rparr>)"
    unfolding tt_ops tt_set_tpr T(1) by simp
  moreover have "\<exists>tt. tables k (ptable pr) = Some tt" using sp pr unfolding spaces_ok_def by blast
  ultimately have "RemovePhysicalToVirtualMapping (int c) k
      = Some (k\<lparr>tables := T, tpr := ?t, free_page_list := int c # free_page_list k\<rparr>)"
    using c pr by (auto simp: RemovePhysicalToVirtualMapping_def aget_nat aset_nat owner_table_def holder_owner)
  then show ?thesis using that T(2,3) by blast
qed

text \<open>The invariants of a state in which the entries left in \<open>P\<close> are still in use.\<close>

definition dying :: "config \<Rightarrow> (nat \<Rightarrow> int \<Rightarrow> PageTableEntry option) \<Rightarrow> 'a vm_scheme \<Rightarrow> bool" where
  "dying cfg P k \<longleftrightarrow> spaces_ok k \<and> frames_ok (nat (NumPhysPages cfg)) P (tpr k) (free_page_list k) {} {}
     \<and> swap_ok cfg P (mainMemory k) (page_flags k) (swap_disk k)"

definition sectors_of :: "(int \<Rightarrow> PageTableEntry option) \<Rightarrow> int set \<Rightarrow> int set" where
  "sectors_of P V = {s. \<exists>v e. v \<in> V \<and> P v = Some e \<and> swap e \<and> addrDisk e = s}"

lemma delete_page_ok:
  assumes d: "dying cfg P k" and pr: "processes k pid = Some pr" and nm: "nb_mapped_files (addrspace pr) \<le> 0"
    and e: "pte k pid (int n) = Some e" "P pid (int n) = Some e"
    and P': "\<And>p v. P' p v = (if p = pid \<and> v = int n then None else P p v)"
  shows "\<exists>k'. delete_page cfg (addrspace pr) (ptable pr) n k = Some k' \<and> dying cfg P' k'
    \<and> marked (page_flags k') = marked (page_flags k) - sectors_of (P pid) {int n}
    \<and> (\<forall>p v. \<not> (p = pid \<and> v = int n) \<longrightarrow> pte k' p v = pte k p v)
    \<and> vm_same k k' \<and> mainMemory k' = mainMemory k \<and> swap_disk k' = swap_disk k \<and> i_clock k' = i_clock k"
proof -
  let ?N = "nat (NumPhysPages cfg)" and ?a = "ptable pr"
  have sp: "spaces_ok k" and fr: "frames_ok ?N P (tpr k) (free_page_list k) {} {}"
    and sw: "swap_ok cfg P (mainMemory k) (page_flags k) (swap_disk k)" using d by (simp_all add: dying_def)
  note get = tt_get_pte [OF sp pr e(1)]
  have "\<exists>k2. (if valid e then RemovePhysicalToVirtualMapping (physicalPage e) k else Some k) = Some k2
    \<and> spaces_ok k2 \<and> frames_ok ?N P' (tpr k2) (free_page_list k2) {} {}
    \<and> (\<forall>p v. \<not> (p = pid \<and> v = int n) \<longrightarrow> pte k2 p v = pte k p v) \<and> (\<exists>b. pte k2 pid (int n) = Some (e\<lparr>valid := b\<rparr>))
    \<and> vm_same k k2 \<and> mainMemory k2 = mainMemory k \<and> swap_disk k2 = swap_disk k \<and> page_flags k2 = page_flags k
    \<and> i_clock k2 = i_clock k"
  proof (cases "valid e")
    case True
    obtain c where c: "c < ?N" "physicalPage e = int c" "\<not> tfree (tpr k ! c)" "holder (tpr k) c = Some (pid, int n)"
      using fr e(2) True unfolding frames_ok_def by blast
    have len: "c < length (tpr k)" using c(1) fr by (simp add: frames_ok_def)
    let ?x = "(tpr k ! c)\<lparr>tfree := True, locked := False\<rparr>"
    obtain T where T: "RemovePhysicalToVirtualMapping (int c) k
        = Some (k\<lparr>tables := T, tpr := (tpr k)[c := ?x], free_page_list := int c # free_page_list k\<rparr>)" (is "_ = Some ?k2")
      "spaces_ok (k\<lparr>tables := T\<rparr>)"
      "\<And>p v. pte (k\<lparr>tables := T\<rparr>) p v = (if p = pid \<and> v = int n then Some (e\<lparr>valid := False\<rparr>) else pte k p v)"
      using RemovePhysical_ok [OF sp pr e(1) len c(3,4)] by blast
    have "frames_ok ?N P' ((tpr k)[c := ?x]) (int c # free_page_list k) {} {}"
      by (rule frames_ok_release [OF fr e(2) True c(2) P']) simp
    moreover have "spaces_ok ?k2" "\<And>p v. pte ?k2 p v = (if p = pid \<and> v = int n then Some (e\<lparr>valid := False\<rparr>) else pte k p v)"
      using T(2,3) by simp_all
    ultimately show ?thesis using T(1) c(2) True by (intro exI [of _ ?k2]) (auto simp: vm_same_def)
  next
    case False
    have "frames_ok ?N P' (tpr k) (free_page_list k) {} {}"
      by (rule frames_ok_drop [OF fr]) (use P' e(2) False in auto)
    moreover have "e\<lparr>valid := valid e\<rparr> = e" by simp
    ultimately show ?thesis using False sp e(1) by (intro exI [of _ k]) (auto simp: vm_same_def intro!: exI [of _ "valid e"])
  qed
  then obtain k2 b where k2: "(if valid e then RemovePhysicalToVirtualMapping (physicalPage e) k else Some k) = Some k2"
    "spaces_ok k2" "frames_ok ?N P' (tpr k2) (free_page_list k2) {} {}"
    "\<forall>p v. \<not> (p = pid \<and> v = int n) \<longrightarrow> pte k2 p v = pte k p v" "pte k2 pid (int n) = Some (e\<lparr>valid := b\<rparr>)"
    "vm_same k k2" "mainMemory k2 = mainMemory k" "swap_disk k2 = swap_disk k" "page_flags k2 = page_flags k"
    "i_clock k2 = i_clock k"
    by (elim exE conjE)
  have pr2: "processes k2 pid = Some pr" using pr k2(6) by (simp add: vm_same_def)
  note get2 = tt_get_pte [OF k2(2) pr2 k2(5)]
  have start: "delete_page cfg (addrspace pr) ?a n k =
      (if swap e then if 0 \<le> addrDisk e then ReleasePageSwap (addrDisk e) k2 else Some k2 else Some k2)"
    using get [of valid] get [of physicalPage] k2(1) get2 [of swap] get2 [of addrDisk] findMappedFile_none [OF nm]
    by (auto simp: delete_page_def tt_ops split: if_splits)
  have fl: "wf_bitmap (page_flags k)" "numBits (page_flags k) = 2048" using sw by (simp_all add: swap_ok_def)
  show ?thesis
  proof (cases "swap e")
    case True
    have m: "addrDisk e \<in> marked (page_flags k)" using sw e(2) True by (simp add: swap_ok_def)
    then have ad: "0 \<le> addrDisk e" "addrDisk e < numBits (page_flags k)" using marked_bounds by blast+
    obtain b' where b': "BitMap_Clear (page_flags k) (addrDisk e) = Some b'" "wf_bitmap b'" "numBits b' = numBits (page_flags k)"
      "marked b' = marked (page_flags k) - {addrDisk e}" using BitMap_Clear_correct [OF fl(1) ad] by blast
    let ?k = "k2\<lparr>page_flags := b'\<rparr>"
    have r: "delete_page cfg (addrspace pr) ?a n k = Some ?k"
      using start True ad(1) b'(1) k2(9) by (simp add: ReleasePageSwap_def)
    have other: "addrDisk x \<in> marked b'" if "P' p v = Some x" "swap x" for p v x
    proof -
      have x: "P p v = Some x" "\<not> (p = pid \<and> v = int n)" using that(1) P' [of p v] by (auto split: if_splits)
      then have "addrDisk x \<noteq> addrDisk e" using sw e(2) True that(2) unfolding swap_ok_def by metis
      moreover have "addrDisk x \<in> marked (page_flags k)" using sw x(1) that(2) by (simp add: swap_ok_def)
      ultimately show ?thesis using b'(4) by simp
    qed
    have "swap_ok cfg P' (mainMemory k) b' (swap_disk k)"
      by (rule swap_ok_drop [OF sw _ b'(2) _ other]) (use P' b'(3) fl in auto)
    then have "dying cfg P' ?k" using k2 by (simp add: dying_def)
    moreover have "sectors_of (P pid) {int n} = {addrDisk e}" using e(2) True by (auto simp: sectors_of_def)
    ultimately show ?thesis using r k2 b'(4) by (intro exI [of _ ?k]) (simp add: vm_same_def)
  next
    case False
    have "swap_ok cfg P' (mainMemory k) (page_flags k) (swap_disk k)"
      by (rule swap_ok_drop [OF sw _ fl]) (use P' sw in \<open>auto simp: swap_ok_def split: if_splits\<close>)
    then have "dying cfg P' k2" using k2 by (simp add: dying_def)
    moreover have "sectors_of (P pid) {int n} = {}" using e(2) False by (auto simp: sectors_of_def)
    ultimately show ?thesis using start False k2 by (intro exI [of _ k2]) simp
  qed
qed

subsection \<open>All pages\<close>

definition gone :: "nat \<Rightarrow> int \<Rightarrow> (nat \<Rightarrow> int \<Rightarrow> PageTableEntry option) \<Rightarrow> nat \<Rightarrow> int \<Rightarrow> PageTableEntry option" where
  "gone pid n P p v = (if p = pid \<and> v < n then None else P p v)"

lemma pte_in: "pte k pid vp = Some e \<Longrightarrow> 0 \<le> vp"
  by (auto simp: pte_def in_table_def split: if_splits elim!: bind_Some_cases)

lemma delete_pages_ok:
  assumes inv: "vm_inv cfg {} {} k" and pr: "processes k pid = Some pr"
    and pages: "\<And>i. i < n \<Longrightarrow> pte k pid (int i) \<noteq> None"
  shows "\<exists>k'. foldM (delete_page cfg (addrspace pr) (ptable pr)) [0..<n] k = Some k' \<and>
    (dying cfg (gone pid (int n) (pte k)) k'
     \<and> marked (page_flags k') = marked (page_flags k) - sectors_of (pte k pid) {v. v < int n}
     \<and> (\<forall>p v. \<not> (p = pid \<and> v < int n) \<longrightarrow> pte k' p v = pte k p v)
     \<and> vm_same k k' \<and> mainMemory k' = mainMemory k \<and> swap_disk k' = swap_disk k \<and> i_clock k' = i_clock k)"
proof (rule foldM_upt_rule [where I = "\<lambda>n k'. dying cfg (gone pid (int n) (pte k)) k'
     \<and> marked (page_flags k') = marked (page_flags k) - sectors_of (pte k pid) {v. v < int n}
     \<and> (\<forall>p v. \<not> (p = pid \<and> v < int n) \<longrightarrow> pte k' p v = pte k p v)
     \<and> vm_same k k' \<and> mainMemory k' = mainMemory k \<and> swap_disk k' = swap_disk k \<and> i_clock k' = i_clock k"])
  have "gone pid 0 (pte k) p v = pte k p v" for p v
    using pte_in [of k pid v] by (cases "pte k p v") (auto simp: gone_def)
  then have "gone pid 0 (pte k) = pte k" by (intro ext)
  moreover have "sectors_of (pte k pid) {v. v < 0} = {}" using pte_in [of k pid] by (fastforce simp: sectors_of_def)
  ultimately show "dying cfg (gone pid (int 0) (pte k)) k \<and> marked (page_flags k) = marked (page_flags k) - sectors_of (pte k pid) {v. v < int 0}
     \<and> (\<forall>p v. \<not> (p = pid \<and> v < int 0) \<longrightarrow> pte k p v = pte k p v)
     \<and> vm_same k k \<and> mainMemory k = mainMemory k \<and> swap_disk k = swap_disk k \<and> i_clock k = i_clock k"
    using inv by (simp add: dying_def vm_inv_def vm_same_def)
next
  fix i k1
  assume i: "i < n" and I: "dying cfg (gone pid (int i) (pte k)) k1
     \<and> marked (page_flags k1) = marked (page_flags k) - sectors_of (pte k pid) {v. v < int i}
     \<and> (\<forall>p v. \<not> (p = pid \<and> v < int i) \<longrightarrow> pte k1 p v = pte k p v)
     \<and> vm_same k k1 \<and> mainMemory k1 = mainMemory k \<and> swap_disk k1 = swap_disk k \<and> i_clock k1 = i_clock k"
  obtain e where e: "pte k pid (int i) = Some e" using pages [OF i] by auto
  have e1: "pte k1 pid (int i) = Some e" "gone pid (int i) (pte k) pid (int i) = Some e" using e I by (simp_all add: gone_def)
  have pr1: "processes k1 pid = Some pr" "nb_mapped_files (addrspace pr) \<le> 0"
    using I pr inv by (simp_all add: vm_same_def vm_inv_def)
  have step: "gone pid (int (Suc i)) (pte k) p v = (if p = pid \<and> v = int i then None else gone pid (int i) (pte k) p v)" for p v
    by (auto simp: gone_def)
  have d1: "dying cfg (gone pid (int i) (pte k)) k1" using I by simp
  obtain k2 where k2: "delete_page cfg (addrspace pr) (ptable pr) i k1 = Some k2" "dying cfg (gone pid (int (Suc i)) (pte k)) k2"
    "marked (page_flags k2) = marked (page_flags k1) - sectors_of (gone pid (int i) (pte k) pid) {int i}"
    "\<forall>p v. \<not> (p = pid \<and> v = int i) \<longrightarrow> pte k2 p v = pte k1 p v"
    "vm_same k1 k2" "mainMemory k2 = mainMemory k1" "swap_disk k2 = swap_disk k1" "i_clock k2 = i_clock k1"
    using delete_page_ok [OF d1 pr1 e1 step] by blast
  have "sectors_of (pte k pid) {v. v < int (Suc i)}
      = sectors_of (pte k pid) {v. v < int i} \<union> sectors_of (gone pid (int i) (pte k) pid) {int i}"
  proof -
    have "v < int (Suc i) \<longleftrightarrow> v < int i \<or> v = int i" for v by auto
    then show ?thesis by (auto simp: sectors_of_def gone_def)
  qed
  then have "marked (page_flags k2) = marked (page_flags k) - sectors_of (pte k pid) {v. v < int (Suc i)}"
    using k2(3) I by auto
  moreover have "\<forall>p v. \<not> (p = pid \<and> v < int (Suc i)) \<longrightarrow> pte k2 p v = pte k p v"
    using k2(4) I by auto
  moreover have "vm_same k k2" using k2(5) I by (simp add: vm_same_def)
  ultimately show "\<exists>k'. delete_page cfg (addrspace pr) (ptable pr) i k1 = Some k' \<and> dying cfg (gone pid (int (Suc i)) (pte k)) k'
     \<and> marked (page_flags k') = marked (page_flags k) - sectors_of (pte k pid) {v. v < int (Suc i)}
     \<and> (\<forall>p v. \<not> (p = pid \<and> v < int (Suc i)) \<longrightarrow> pte k' p v = pte k p v)
     \<and> vm_same k k' \<and> mainMemory k' = mainMemory k \<and> swap_disk k' = swap_disk k \<and> i_clock k' = i_clock k"
    using k2(1,2,6-8) I by (intro exI [of _ k2]) simp
qed

text \<open>The state that \<open>Process_delete\<close> leaves, by the state \<open>k1\<close> in which the last page has gone.\<close>

definition without_process :: "nat \<Rightarrow> nat \<Rightarrow> 'a vm_scheme \<Rightarrow> 'a vm_scheme" where
  "without_process pid tt k1 = k1\<lparr>tables := (tables k1)(tt := None),
     files := (case exec_file k1 pid of None \<Rightarrow> files k1 | Some fid \<Rightarrow> (files k1)(fid := None)),
     processes := (processes k1)(pid := None)\<rparr>"

lemma process_deleted:
  assumes "vm_inv cfg {} {} k" "processes k pid = Some pr" "numThreads pr = 0"
    and "\<And>vp. 0 \<le> vp \<Longrightarrow> vp < freePageId (addrspace pr) \<Longrightarrow> pte k pid vp \<noteq> None"
  obtains k1 where "Process_delete cfg pid k = Some (without_process pid (ptable pr) k1)"
    "dying cfg (gone pid (int (nat (freePageId (addrspace pr)))) (pte k)) k1"
    "marked (page_flags k1) = marked (page_flags k) - sectors_of (pte k pid) {v. v < int (nat (freePageId (addrspace pr)))}"
    "vm_same k k1" "mainMemory k1 = mainMemory k" "swap_disk k1 = swap_disk k" "i_clock k1 = i_clock k"
    "\<And>p v. pte (without_process pid (ptable pr) k1) p v = (if p = pid then None else pte k p v)"
proof -
  let ?n = "nat (freePageId (addrspace pr))"
  have pages: "pte k pid (int i) \<noteq> None" if "i < ?n" for i by (rule assms(4)) (use that in simp_all)
  obtain k1 where k1: "foldM (delete_page cfg (addrspace pr) (ptable pr)) [0..<?n] k = Some k1"
    "dying cfg (gone pid (int ?n) (pte k)) k1"
    "marked (page_flags k1) = marked (page_flags k) - sectors_of (pte k pid) {v. v < int ?n}"
    "\<forall>p v. \<not> (p = pid \<and> v < int ?n) \<longrightarrow> pte k1 p v = pte k p v"
    "vm_same k k1" "mainMemory k1 = mainMemory k" "swap_disk k1 = swap_disk k" "i_clock k1 = i_clock k"
    using delete_pages_ok [OF assms(1,2) pages] by blast
  have same: "processes k1 = processes k" using k1(5) by (simp add: vm_same_def)
  have sp: "spaces_ok k" using assms(1) by (simp add: vm_inv_def)
  have "tables k (ptable pr) \<noteq> None" using sp assms(2) unfolding spaces_ok_def by blast
  then have del: "Process_delete cfg pid k = Some (without_process pid (ptable pr) k1)"
    using assms(2,3) k1(1) by (simp add: Process_delete_def AddrSpace_delete_def without_process_def split: option.split)
  have "pte (without_process pid (ptable pr) k1) p v = (if p = pid then None else pte k p v)" for p v
  proof (cases "p = pid")
    case False
    have "ptable q \<noteq> ptable pr" if "processes k p = Some q" for q
      using sp assms(2) that False unfolding spaces_ok_def by blast
    then have "pte (without_process pid (ptable pr) k1) p v = pte k1 p v"
      using False same by (cases "processes k p") (simp_all add: pte_def without_process_def)
    then show ?thesis using False k1(4) by simp
  qed (simp add: pte_def without_process_def)
  then show thesis using that [OF del k1(2,3,5-8)] by blast
qed

lemma without_process_inv:
  assumes "vm_inv cfg {} {} k" "processes k pid = Some pr"
    and "dying cfg (gone pid n (pte k)) k1" "vm_same k k1" "mainMemory k1 = mainMemory k" "swap_disk k1 = swap_disk k" "i_clock k1 = i_clock k"
    and P': "\<And>p v. pte (without_process pid (ptable pr) k1) p v = (if p = pid then None else pte k p v)"
    and rest: "\<And>vp e. pte k pid vp = Some e \<Longrightarrow> n \<le> vp \<Longrightarrow> \<not> valid e"
  shows "vm_inv cfg {} {} (without_process pid (ptable pr) k1)"
proof -
  let ?N = "nat (NumPhysPages cfg)" and ?k = "without_process pid (ptable pr) k1"
  have same: "processes k1 = processes k" "exec_file k1 = exec_file k" "files k1 = files k" "fs k1 = fs k"
    using assms(4) by (simp_all add: vm_same_def)
  have sp: "spaces_ok k" "spaces_ok k1" using assms(1,3) by (simp_all add: vm_inv_def dying_def)
  have fr: "frames_ok ?N (gone pid n (pte k)) (tpr k1) (free_page_list k1) {} {}"
    and sw: "swap_ok cfg (gone pid n (pte k)) (mainMemory k) (page_flags k1) (swap_disk k)"
    using assms(3,5,6) by (simp_all add: dying_def)
  have apart: "ptable q \<noteq> ptable pr" if "processes k p = Some q" "p \<noteq> pid" for p q
    using sp(1) assms(2) that unfolding spaces_ok_def by blast
  have drop: "pte ?k p v = gone pid n (pte k) p v \<or> pte ?k p v = None \<and>
      (\<forall>e. gone pid n (pte k) p v = Some e \<longrightarrow> \<not> valid e)" for p v
    using P' rest [of v] by (auto simp: gone_def)
  have "frames_ok ?N (pte ?k) (tpr k1) (free_page_list k1) {} {}" by (rule frames_ok_drop [OF fr drop])
  moreover have "swap_ok cfg (pte ?k) (mainMemory k) (page_flags k1) (swap_disk k)"
  proof (rule swap_ok_drop [OF sw])
    show "pte ?k p v = gone pid n (pte k) p v \<or> pte ?k p v = None" for p v
      using drop [of p v] by (elim disjE conjE) simp_all
    show "addrDisk e \<in> marked (page_flags k1)" if "pte ?k p v = Some e" "swap e" for p v e
      using that sw drop [of p v] unfolding swap_ok_def by auto
  qed (use sw in \<open>simp_all add: swap_ok_def\<close>)
  moreover have "spaces_ok ?k"
    using sp(2) apart same(1) unfolding spaces_ok_def by (auto simp: without_process_def)
  ultimately show ?thesis
    using assms(1,5-7) same(1) unfolding vm_inv_def by (auto simp: without_process_def)
qed

lemma without_process_contents:
  assumes "vm_same k k1" "mainMemory k1 = mainMemory k" "swap_disk k1 = swap_disk k"
    and "\<And>p v. pte (without_process pid tt k1) p v = (if p = pid then None else pte k p v)"
    and "p \<noteq> pid" "\<And>fid. exec_file k p = Some fid \<Longrightarrow> exec_file k pid \<noteq> Some fid"
  shows "contents cfg (without_process pid tt k1) p v = contents cfg k p v"
proof -
  have same: "exec_file k1 = exec_file k" "files k1 = files k" "fs k1 = fs k" using assms(1) by (simp_all add: vm_same_def)
  have f: "files (without_process pid tt k1) fid = files k fid" if "exec_file k p = Some fid" for fid
    using assms(6) [OF that] same by (auto simp: without_process_def split: option.splits)
  show ?thesis
    using assms(2-5) f same
    by (cases "exec_file k p"; cases "pte k p v") (simp_all add: contents_def frame_bytes_def read_file_def without_process_def)
qed


end
