(* ===== verification/Nachos_VMDemo.thy ===== *)
theory Nachos_VMDemo
  imports Nachos_ProcessEnd
begin

text \<open>
  A small state of virtual memory, for the properties of \<open>Nachos_PageFault\<close> and
  \<open>Nachos_ProcessEnd\<close>: one frame, and a process with two pages, the first in the frame and
  modified, the second not yet touched.
\<close>

definition page_cfg :: config where
  "page_cfg = tiny_cfg\<lparr>PageSize := 128, NumPhysPages := 1\<rparr>"

definition page0 :: PageTableEntry where
  "page0 = \<lparr>valid = True, bitU = True, bitM = True, readAllowed = True, writeAllowed = True, physicalPage = 0,
     swap = False, addrDisk = - 1, io = False\<rparr>"

definition page1 :: PageTableEntry where
  "page1 = \<lparr>valid = False, bitU = False, bitM = False, readAllowed = True, writeAllowed = True, physicalPage = 0,
     swap = False, addrDisk = - 1, io = False\<rparr>"

definition demo_table :: TranslationTable where
  "demo_table = \<lparr>maxNumPages = 2, pageTable = [page0, page1]\<rparr>"

definition one_process :: "int \<Rightarrow> Process" where
  "one_process n = demo_process\<lparr>numThreads := n\<rparr>"

definition demo_vm :: "int \<Rightarrow> bitmap \<Rightarrow> vm" where
  "demo_vm n flags = os.extend (demo_os\<lparr>mainMemory := replicate 128 7, tables := [0 \<mapsto> demo_table], mmu_table := Some 0,
       processes := [0 \<mapsto> one_process n]\<rparr>)
     (vm.fields (\<lambda>_. None) (\<lambda>_. None) [\<lparr>tfree = False, locked = False, virtualPage = 0, owner = Some 0\<rparr>] []
        (- 1) flags (replicate 2048 (replicate 128 0)))"

definition no_sectors :: bitmap where
  "no_sectors = \<lparr>numBits = 2048, numWords = 64, bits = replicate 64 0\<rparr>"

definition all_sectors :: bitmap where
  "all_sectors = \<lparr>numBits = 2048, numWords = 64, bits = replicate 64 (- 1)\<rparr>"

lemma demo_flags:
  "wf_bitmap no_sectors" "marked no_sectors = {}" "numBits no_sectors = 2048"
  "wf_bitmap all_sectors" "marked all_sectors = {0..<2048}" "numBits all_sectors = 2048"
proof -
  show "wf_bitmap no_sectors" "numBits no_sectors = 2048" "wf_bitmap all_sectors" "numBits all_sectors = 2048"
    by (simp_all add: wf_bitmap_def no_sectors_def all_sectors_def divRoundUp_nonneg BITS_IN_WORD_def)
  have "nat (i div 32) < 64" "nat (i mod 32) < 32" if "0 \<le> i" "i < 2048" for i :: int
    using that by linarith+
  then show "marked no_sectors = {}" "marked all_sectors = {0..<2048}"
    by (auto simp: marked_def no_sectors_def all_sectors_def)
qed

lemma demo_vm_parts:
  "tables (demo_vm n b) = [0 \<mapsto> demo_table]" "mmu_table (demo_vm n b) = Some 0" "processes (demo_vm n b) = [0 \<mapsto> one_process n]"
  "mainMemory (demo_vm n b) = replicate 128 7" "i_clock (demo_vm n b) = - 1" "page_flags (demo_vm n b) = b"
  "swap_disk (demo_vm n b) = replicate 2048 (replicate 128 0)" "free_page_list (demo_vm n b) = []"
  "tpr (demo_vm n b) = [\<lparr>tfree = False, locked = False, virtualPage = 0, owner = Some 0\<rparr>]"
  "current_pid (demo_vm n b) = Some 0" "ptable (one_process n) = 0" "addrspace (one_process n) = some_space" "numThreads (one_process n) = n"
  by (simp_all add: demo_vm_def demo_os_def os.defs vm.defs kernel.defs demo_def demo_process_def one_process_def demo_thread_def
      current_pid_def GetProcessOwner_def)

lemma demo_exec: "exec_file (demo_vm n b) = (\<lambda>_. None)"
  by (simp add: demo_vm_def os.defs vm.defs)

lemma demo_pte: "pte (demo_vm n b) p v = (if p = 0 \<and> v = 0 then Some page0 else if p = 0 \<and> v = 1 then Some page1 else None)"
proof -
  have "v = 0 \<or> v = 1" if "0 \<le> v" "v < 2" using that by linarith
  then show ?thesis by (auto simp: pte_def demo_vm_parts demo_table_def in_table_def entry_def)
qed

lemma demo_vm_inv: "vm_inv page_cfg {} {} (demo_vm n no_sectors)"
proof -
  have "frames_ok 1 (pte (demo_vm n no_sectors)) (tpr (demo_vm n no_sectors)) [] {} {}"
    by (auto simp: frames_ok_def demo_pte demo_vm_parts page0_def page1_def holder_def split: if_splits)
  moreover have "swap_ok page_cfg (pte (demo_vm n no_sectors)) (replicate 128 7) no_sectors (replicate 2048 (replicate 128 0))"
    by (auto simp: swap_ok_def demo_pte demo_flags wf_sectors_def page_cfg_def tiny_cfg_def page0_def page1_def split: if_splits)
  moreover have "spaces_ok (demo_vm n no_sectors)"
    by (auto simp: spaces_ok_def demo_vm_parts wf_table_def demo_table_def split: if_splits)
  ultimately show ?thesis
    by (auto simp: vm_inv_def demo_vm_parts page_cfg_def tiny_cfg_def some_space_def split: if_splits)
qed



theorem full_swap_loses_page_witness:
  "\<exists>k'. write_swap page_cfg 0 0 0 (demo_vm 1 all_sectors) = Some k'
     \<and> pte k' 0 0 = Some (page0\<lparr>addrDisk := - 1, swap := True\<rparr>) \<and> load_page page_cfg Some 0 0 None (- 1) k' = None"
proof -
  let ?k = "demo_vm 1 all_sectors"
  have sp: "spaces_ok ?k" by (auto simp: spaces_ok_def demo_vm_parts wf_table_def demo_table_def split: if_splits)
  have "\<exists>k'. write_swap page_cfg (ptable (one_process 1)) 0 0 ?k = Some k' \<and> swap_disk k' = swap_disk ?k
    \<and> pte k' 0 0 = Some (page0\<lparr>addrDisk := - 1, swap := True\<rparr>) \<and> load_page page_cfg Some (ptable (one_process 1)) 0 None (- 1) k' = None"
  proof (rule full_swap_loses_page [OF sp])
    show "frame_bytes page_cfg 0 (SectorSize page_cfg) ?k = Some (replicate 128 7)"
      by (simp add: frame_bytes_def demo_vm_parts page_cfg_def tiny_cfg_def bufpart_def)
  qed (auto simp: demo_vm_parts demo_flags swap_room_def demo_pte page0_def)
  then show ?thesis by (auto simp: demo_vm_parts)
qed


end
