(* ===== verification/Nachos_SyscallDemo.thy ===== *)
theory Nachos_SyscallDemo
  imports Nachos_SyscallProps Nachos_VMDemo
begin

text \<open>
  A state for the properties of \<open>Nachos_SyscallProps\<close>: the memory of the process starts with
  the string \<open>a/b\<close>, and the identifier 3 is an open file of ten bytes in sector 5.
\<close>

definition demo_nachos :: nachos where
  "demo_nachos = vm.extend ((demo_vm 1 no_sectors)\<lparr>mainMemory := [97, 47, 98, 0] @ replicate 12 0, files := [0 \<mapsto> tiny_file 10 [5]]\<rparr>)
     (nachos.fields \<lparr>last_id = 4, ids = [3 \<mapsto> O_file 0]\<rparr> SyscallError_new (\<lambda>_. None))"

definition demo_drivers :: "nachos drivers" where
  "demo_drivers = \<lparr>others = (\<lambda>_. None), PutString = (\<lambda>_. Some), GetString = (\<lambda>_ _. None), has_ACIA = False,
     TtySend = (\<lambda>_ _. None), TtyReceive = (\<lambda>_ _. None)\<rparr>"

lemma demo_nachos_parts:
  "int_registers demo_nachos = replicate 40 0" "mainMemory demo_nachos = [97, 47, 98, 0] @ replicate 12 0"
  "tables demo_nachos = [0 \<mapsto> demo_table]" "mmu_table demo_nachos = Some 0" "files demo_nachos = [0 \<mapsto> tiny_file 10 [5]]"
  "fs demo_nachos = tiny_fs" "g_object_ids demo_nachos = \<lparr>last_id = 4, ids = [3 \<mapsto> O_file 0]\<rparr>"
  "g_syscall_error demo_nachos = SyscallError_new"
  by (simp_all add: demo_nachos_def demo_vm_def demo_os_def demo_def os.defs vm.defs kernel.defs nachos.defs)

lemma demo_nachos_ok: "regs_ok demo_nachos" "msgs_ok demo_nachos" "wf_memory tiny_cfg demo_nachos"
  by (simp_all add: regs_ok_def msgs_ok_def wf_memory_def demo_nachos_parts tiny_cfg_def)

lemma demo_places: "at_places tiny_cfg demo_nachos 0 4 (\<lambda>j. j) False" "at_places tiny_cfg demo_nachos 4 4 (\<lambda>j. 4 + j) True"
proof -
  have u: "uaddr tiny_cfg demo_nachos v = Some (nat (sint v), True)" if "sint v sdiv 8 = 0" "sint v smod 8 = sint v" "0 \<le> sint v" for v
    using that by (simp add: uaddr_def demo_nachos_parts mapped_def page_of_def offset_of_def phys_addr_def tiny_cfg_def
        demo_table_def wf_table_def in_table_def entry_def page0_def)
  have four: "(\<forall>j < 4. P j) \<longleftrightarrow> P 0 \<and> P 1 \<and> P 2 \<and> P (3 :: nat)" for P
    by (auto simp: numeral_eq_Suc All_less_Suc)
  show "at_places tiny_cfg demo_nachos 0 4 (\<lambda>j. j) False" "at_places tiny_cfg demo_nachos 4 4 (\<lambda>j. 4 + j) True"
    unfolding at_places_def four by (auto simp: u cint_simps)
qed

lemma demo_file:
  "open_as 3 0 (tiny_file 10 [5]) demo_nachos" "wf_file tiny_cfg (hdr (tiny_file 10 [5])) (sectors (fs demo_nachos))"
  using tiny_file_wf [of 10 "[5]"] by (simp_all add: open_as_def search_object_def SearchObject_def demo_nachos_parts)

theorem file_calls_roundtrip_witness:
  "\<exists>k1 k2 k3. user_call tiny_cfg demo_drivers 0 7 0 4 3 demo_nachos = Some (Returned k1)
     \<and> user_call tiny_cfg demo_drivers 0 8 2 3 0 k1 = Some (Returned k2)
     \<and> user_call tiny_cfg demo_drivers 0 6 4 4 3 k2 = Some (Returned k3) \<and> mainMemory k3 ! 4 = 97"
proof -
  have n: "sint (4 :: u32) = 4" "sint (2 :: u32) = 2" by simp_all
  have "\<exists>k1 k2 k3. user_call tiny_cfg demo_drivers 0 7 0 4 3 demo_nachos = Some (Returned k1)
    \<and> user_call tiny_cfg demo_drivers 0 8 2 3 0 k1 = Some (Returned k2) \<and> user_call tiny_cfg demo_drivers 0 6 4 4 3 k2 = Some (Returned k3)
    \<and> R k1 2 = 4 \<and> R k2 2 = 0 \<and> R k3 2 = 4
    \<and> (\<forall>j < nat (sint (4 :: u32)). mainMemory k3 ! (4 + j) = mainMemory demo_nachos ! j)"
    by (rule file_calls_roundtrip [OF demo_nachos_ok demo_file])
       (use demo_places in \<open>simp_all add: n inj_on_def\<close>)
  then obtain k1 k2 k3 where k: "user_call tiny_cfg demo_drivers 0 7 0 4 3 demo_nachos = Some (Returned k1)"
    "user_call tiny_cfg demo_drivers 0 8 2 3 0 k1 = Some (Returned k2)"
    "user_call tiny_cfg demo_drivers 0 6 4 4 3 k2 = Some (Returned k3)"
    "\<forall>j < nat (sint (4 :: u32)). mainMemory k3 ! (4 + j) = mainMemory demo_nachos ! j" by blast
  have "mainMemory k3 ! (4 + 0) = mainMemory demo_nachos ! 0" using k(4) n(1) by (metis nat_numeral zero_less_numeral)
  then have "mainMemory k3 ! 4 = 97" by (simp add: demo_nachos_parts)
  then show ?thesis using k(1-3) by blast
qed

theorem calls_by_name_witness:
  "\<exists>k1 k'. user_call tiny_cfg demo_drivers 0 4 0 10 0 demo_nachos = Some (Returned k')
     \<and> answer True [97, 47, 98] InexistFileError k1 k'"
proof -
  have s: "string_at tiny_cfg demo_nachos 0 (\<lambda>j. j) [97, 47, 98]"
  proof -
    have "at_places tiny_cfg demo_nachos 0 (Suc (length [97 :: byte, 47, 98])) (\<lambda>j. j) False"
      using demo_places(1) by (simp add: eval_nat_numeral)
    then show ?thesis by (simp add: string_at_def demo_nachos_parts All_less_Suc)
  qed
  have "Create tiny_cfg [97, 47, 98] (sint (10 :: u32)) (fs demo_nachos)
      = Some (InexistFileError, Release_create (tiny_fs\<lparr>createLock := True\<rparr>))"
    using tiny_create_fails by (simp add: demo_nachos_parts)
  then show ?thesis using calls_by_name [OF demo_nachos_ok s] by blast
qed


theorem identifiers_never_reused_witness:
  "\<exists>d1 d2. AddObject (O_file 0) ObjId_new = Some (3, d1) \<and> AddObject (O_file 1) (RemoveObject 3 d1) = Some (4, d2)
     \<and> SearchObject 3 d2 = None"
proof -
  let ?d1 = "\<lparr>last_id = 4, ids = [3 \<mapsto> O_file 0]\<rparr>" and ?d2 = "\<lparr>last_id = 5, ids = [4 \<mapsto> O_file 1]\<rparr>"
  have a: "AddObject (O_file 0) ObjId_new = Some (3, ?d1)" "AddObject (O_file 1) (RemoveObject 3 ?d1) = Some (4, ?d2)"
    by (simp_all add: AddObject_def ObjId_new_def RemoveObject_def)
  have r: "id_run ?d1 (RemoveObject 3 ?d1)" "id_run (RemoveObject 3 ?d1) ?d2"
    using id_remove [OF id_refl] id_add [OF id_refl a(2)] by blast+
  have "SearchObject 3 (RemoveObject 3 ?d1) = None" by (simp add: SearchObject_def RemoveObject_def)
  then have "SearchObject 3 ?d2 = None" using identifiers_never_reused [OF ids_ok_new a(1) r] by blast
  then show ?thesis using a by blast
qed

theorem last_message_fits_witness:
  "\<exists>e' pre post. SetMsg (Some [97]) 7 SyscallError_new = Some e'
     \<and> PrintLastMsg [98] e' = Some [[98], map of_char '' : '', map of_char pre @ [97] @ map of_char post]"
  using last_message_fits [of SyscallError_new "[97]" InexistFileError "[98]"] by (auto simp del: sprintf_s.simps)

end
