(* ===== verification/Nachos_Trap.thy ===== *)
theory Nachos_Trap
  imports Nachos_MipsProps Nachos_SyscallDemo
begin

text \<open>
  The simulator as a whole: the interpreter of \<open>Nachos_Mips\<close> with the exception handler of
  \<open>Nachos_Syscalls\<close>, and the instruction \<open>syscall\<close> through both.
\<close>

subsection \<open>The kernel behind the interpreter\<close>

text \<open>
  A call that gives up the processor continues with the thread that gets it, in the rest of the
  call that this one made, and so on until a thread is back in user mode. All of them
  were called by the same lines of the interpreter, so what follows is the same for all, except
  that a thread that starts does not have the tick behind the trap.
\<close>

partial_function (option) back_to_user :: "'a nachos_scheme outcome \<Rightarrow> 'a nachos_scheme option" where
  "back_to_user out =
     (case out of
        Returned k \<Rightarrow> Some k
      | Switched k \<Rightarrow> do { out' \<leftarrow> sys_resume k; back_to_user out' })"

definition kernel_handler :: "config \<Rightarrow> 'a nachos_scheme drivers \<Rightarrow> nat \<Rightarrow> ExceptionType \<Rightarrow> u32 \<Rightarrow> 'a ncall" where
  "kernel_handler cfg d l exc va k = do { out \<leftarrow> ExceptionHandler cfg d l exc va k; back_to_user out }"

definition Machine_Run :: "config \<Rightarrow> fpu \<Rightarrow> 'a nachos_scheme drivers \<Rightarrow> nat \<Rightarrow> nat \<Rightarrow> 'a ncall" where
  "Machine_Run cfg h d l n k = Run cfg h (kernel_handler cfg d l) (OneTick device_call (\<lambda>_. None)) n k"

lemma handler_returned:
  "ExceptionHandler cfg d l exc va k = Some (Returned k') \<Longrightarrow> kernel_handler cfg d l exc va k = Some k'"
  by (simp add: kernel_handler_def back_to_user.simps)

subsection \<open>The instruction\<close>

lemma Decode_syscall: "opCode (Decode 12) = OP_SYSCALL"
  by (simp add: Decode_def field_def opTable_def specialTable_def Let_def)

lemma execute_syscall:
  "execute cfg h hnd (Decode 12) pc m = step_raise hnd SYSCALL_EXCEPTION 0 m"
  unfolding execute_def exec_add_def exec_branch_def exec_div_def exec_jump_def exec_load_def
    exec_lwl_lwr_def exec_move_def exec_store_shift_def exec_set_shift_def exec_sub_store_def Let_def Decode_syscall
  by simp

text \<open>What the kernel sees of a register: the load of the instruction before is complete.\<close>

definition seen :: "'a machine_scheme \<Rightarrow> nat \<Rightarrow> u32" where
  "seen m i = (if i = unat (R m LOAD_REG) then R m LOADVALUE_REG else R m i)"

lemma fetch_word:
  assumes "mapped cfg k (R k PC_REG) a t" "aligned 4 (R k PC_REG)" "load_value k 4 (phys_addr cfg t (R k PC_REG)) = Some w"
  shows "ReadMem cfg hnd (R k PC_REG) 4 k = Some (Some w, accessed cfg False (R k PC_REG) a t k)"
proof -
  have "load_value (accessed cfg False (R k PC_REG) a t k) 4 (phys_addr cfg t (R k PC_REG)) = Some w"
    using assms(3) by (simp add: load_value_def accessed_def WordToHost_def)
  then show ?thesis using ReadMem_ok [OF assms(1,2), of hnd] by simp
qed

text \<open>The state in which the exception handler is called.\<close>

definition trapped :: "config \<Rightarrow> nat \<Rightarrow> TranslationTable \<Rightarrow> 'a machine_scheme \<Rightarrow> u32 list \<Rightarrow> 'a machine_scheme" where
  "trapped cfg a t k r =
     (stat_NumInstruction (accessed cfg False (R k PC_REG) a t k))\<lparr>int_registers := r, status := SYSTEM_MODE\<rparr>"

text \<open>
  The instruction \<open>syscall\<close> of a program whose page is present: what the kernel gives back is
  the machine after the instruction.
\<close>

lemma syscall_traps:
  assumes "wf_cpu k" "mapped cfg k (R k PC_REG) a t" "aligned 4 (R k PC_REG)"
    and "load_value k 4 (phys_addr cfg t (R k PC_REG)) = Some 12"
  shows "\<exists>r. length r = 40 \<and> (\<forall>i. i \<noteq> 0 \<and> i < 37 \<longrightarrow> r ! i = seen k i)
    \<and> OneInstruction cfg h hnd k =
      map_option (\<lambda>k'. (0, k'\<lparr>status := USER_MODE\<rparr>)) (hnd SYSCALL_EXCEPTION 0 (trapped cfg a t k r))"
proof -
  let ?k1 = "accessed cfg False (R k PC_REG) a t k"
  let ?k2 = "stat_NumInstruction ?k1"
  let ?k3 = "setR BADVADDR_REG 0 ?k2"
  have rr: "int_registers ?k2 = int_registers k" by (simp add: stat_NumInstruction_def split_beta)
  have "float_registers ?k2 = float_registers k"
    by (simp add: stat_NumInstruction_def accessed_def stat_MemoryAccess_def split_beta)
  then have w: "wf_cpu ?k3" using assms(1) rr by (simp add: wf_cpu_def R_def setR_def)
  obtain k4 where k4: "DelayedLoad 0 0 ?k3 = Some k4" "wf_cpu k4"
    "\<And>i. i \<noteq> 0 \<Longrightarrow> i \<noteq> 37 \<Longrightarrow> i \<noteq> 38 \<Longrightarrow> R k4 i = (if i = unat (R ?k3 37) then R ?k3 38 else R ?k3 i)"
    using DelayedLoad_correct [OF w, of 0 0] by auto
  obtain r where r: "k4 = ?k3\<lparr>int_registers := r\<rparr>" using DelayedLoad_result [OF k4(1)] by blast
  have l: "length r = 40" using k4(2) by (simp add: r wf_cpu_def)
  have s: "r ! i = seen k i" if i: "i \<noteq> 0" "i < 37" for i
    using k4(3) [of i] i rr by (simp add: r seen_def R_def setR_def)
  have t: "k4\<lparr>status := SYSTEM_MODE\<rparr> = trapped cfg a t k r" by (simp add: r trapped_def setR_def)
  have "OneInstruction cfg h hnd k =
      map_option (\<lambda>k'. (0, k'\<lparr>status := USER_MODE\<rparr>)) (hnd SYSCALL_EXCEPTION 0 (k4\<lparr>status := SYSTEM_MODE\<rparr>))"
    using fetch_word [OF assms(2-4), of hnd] k4(1)
    by (cases "hnd SYSCALL_EXCEPTION 0 (k4\<lparr>status := SYSTEM_MODE\<rparr>)")
      (simp_all add: OneInstruction_def execute_syscall step_raise_def RaiseException_def Let_def)
  then show ?thesis unfolding t using l s by blast
qed

lemma trapped_frame:
  fixes k :: "'a nachos_scheme"
  assumes "length r = 40"
  shows "regs_ok (trapped cfg a t k r)" "msgs_ok (trapped cfg a t k r) = msgs_ok k" "files (trapped cfg a t k r) = files k"
    "fs (trapped cfg a t k r) = fs k" "mainMemory (trapped cfg a t k r) = mainMemory k" "R (trapped cfg a t k r) i = r ! i"
    "search_object f (trapped cfg a t k r) = search_object f k" "is_file p (trapped cfg a t k r) = is_file p k"
  using assms by (simp_all add: trapped_def accessed_def stat_NumInstruction_def stat_MemoryAccess_def split_beta regs_ok_def msgs_ok_def
      search_object_def is_file_def R_def cong: option.case_cong kobject.case_cong)

lemma seek_handler:
  fixes k :: "'a nachos_scheme"
  assumes "regs_ok k" "msgs_ok k" "R k 2 = 8"
  shows "\<exists>k'. kernel_handler cfg d l SYSCALL_EXCEPTION 0 k = Some k'
    \<and> (case (if 1 < sint (R k 5) then is_file (search_object (R k 5) k) k else None) of
         None \<Rightarrow> comes_back (- 1) (decimal (sint (R k 5))) InvalidFileId k k'
       | Some fid \<Rightarrow> \<exists>file. files k fid = Some file
           \<and> comes_back 0 [] NoError (k\<lparr>files := (files k)(fid \<mapsto> Seek (sint (R k 4)) file)\<rparr>) k')"
proof -
  have r: "ReadIntRegister 2 k = Some 8" "ReadIntRegister 4 k = Some (R k 4)" "ReadIntRegister 5 k = Some (R k 5)"
    using assms(1,3) by (simp_all add: ReadIntRegister_def regs_ok_def aget_def R_def NUM_INT_REGS_def)
  have c: "ExceptionHandler cfg d l SYSCALL_EXCEPTION 0 k = returns (sys_seek k)"
    by (simp add: ExceptionHandler_def r syscall_numbers_def syscall_def)
  show ?thesis
  proof (cases "if 1 < sint (R k 5) then is_file (search_object (R k 5) k) k else None")
    case None
    then have "sys_seek k = fail_with (decimal (sint (R k 5))) InvalidFileId k"
      by (cases "1 < sint (R k 5)") (simp_all add: sys_seek_def r)
    moreover obtain k' where k': "returns (fail_with (decimal (sint (R k 5))) InvalidFileId k) = Some (Returned k')"
      "comes_back (- 1) (decimal (sint (R k 5))) InvalidFileId k k'" using returns_fail [OF assms(1,2)] by blast
    ultimately have "kernel_handler cfg d l SYSCALL_EXCEPTION 0 k = Some k'" using c by (intro handler_returned) simp
    then show ?thesis unfolding None option.case using k'(2) by blast
  next
    case (Some fid)
    then have f: "1 < sint (R k 5)" "is_file (search_object (R k 5) k) k = Some fid" by (auto split: if_splits)
    then obtain fl where fl: "files k fid = Some fl" by (auto simp: is_file_def split: option.splits kobject.splits if_splits)
    let ?k = "k\<lparr>files := (files k)(fid \<mapsto> Seek (sint (R k 4)) fl)\<rparr>"
    have ok: "regs_ok ?k" "msgs_ok ?k" using assms(1,2) by (simp_all add: regs_ok_def msgs_ok_def)
    have "sys_seek k = succeed 0 ?k" using f fl by (simp add: sys_seek_def r)
    moreover obtain k' where k': "returns (succeed 0 ?k) = Some (Returned k')" "comes_back 0 [] NoError ?k k'"
      using returns_succeed [OF ok] by blast
    ultimately have "kernel_handler cfg d l SYSCALL_EXCEPTION 0 k = Some k'" using c by (intro handler_returned) simp
    then show ?thesis unfolding Some option.case using k'(2) fl by blast
  qed
qed

lemma comes_back_user:
  assumes "comes_back v about err k k'"
  shows "R (k'\<lparr>status := st\<rparr>) 2 = v" "R (k'\<lparr>status := st\<rparr>) PC_REG = R k NEXTPC_REG"
    "R (k'\<lparr>status := st\<rparr>) NEXTPC_REG = R k NEXTPC_REG + 4" "mainMemory (k'\<lparr>status := st\<rparr>) = mainMemory k"
    "fs (k'\<lparr>status := st\<rparr>) = fs k" "files (k'\<lparr>status := st\<rparr>) = files k"
  using assms by (auto simp: comes_back_def R_def)

text \<open>
  C3. One system call through the whole machine. The program executes the word 12 with 8 in
  \<open>r2\<close>: the instruction is fetched through the page table, decoded and trapped, and the kernel
  moves the position of the open file whose identifier is in \<open>r5\<close> to \<open>r4\<close>; registers that the
  instruction before was still loading have their new values. The program goes on
  behind the instruction, in user mode, with 0 in \<open>r2\<close>, or with \<open>- 1\<close> and no file changed when
  the identifier is that of no open file. Its memory and the file system are as before.
\<close>
theorem seek_instruction:
  assumes "wf_cpu k" "msgs_ok k" "mapped cfg k (R k PC_REG) a t" "aligned 4 (R k PC_REG)"
    and "load_value k 4 (phys_addr cfg t (R k PC_REG)) = Some 12" "seen k 2 = 8"
  shows "\<exists>k'. OneInstruction cfg h (kernel_handler cfg d l) k = Some (0, k')
    \<and> status k' = USER_MODE \<and> R k' PC_REG = R k NEXTPC_REG \<and> R k' NEXTPC_REG = R k NEXTPC_REG + 4
    \<and> mainMemory k' = mainMemory k \<and> fs k' = fs k
    \<and> (case (if 1 < sint (seen k 5) then is_file (search_object (seen k 5) k) k else None) of
         None \<Rightarrow> R k' 2 = - 1 \<and> files k' = files k
       | Some fid \<Rightarrow> R k' 2 = 0 \<and> (\<exists>file. files k fid = Some file \<and> files k' = (files k)(fid \<mapsto> Seek (sint (seen k 4)) file)))"
proof -
  obtain r where r: "length r = 40" "\<And>i. i \<noteq> 0 \<Longrightarrow> i < 37 \<Longrightarrow> r ! i = seen k i"
    "OneInstruction cfg h (kernel_handler cfg d l) k =
      map_option (\<lambda>k'. (0, k'\<lparr>status := USER_MODE\<rparr>)) (kernel_handler cfg d l SYSCALL_EXCEPTION 0 (trapped cfg a t k r))"
    using syscall_traps [OF assms(1,3,4,5), of h "kernel_handler cfg d l"] by blast
  let ?K = "trapped cfg a t k r"
  have "unat (R k LOAD_REG) < 32" using assms(1) by (simp add: wf_cpu_def)
  then have s: "seen k 35 = R k 35" by (simp add: seen_def)
  note f = trapped_frame [OF r(1), where cfg = cfg and a = a and t = t and k = k]
  have K: "regs_ok ?K" "msgs_ok ?K" "R ?K 2 = 8" using f assms(2,6) r(2) by simp_all
  have r4: "r ! 4 = seen k 4" and r5: "r ! 5 = seen k 5" by (simp_all add: r(2))
  obtain k' where k': "kernel_handler cfg d l SYSCALL_EXCEPTION 0 ?K = Some k'"
    "case (if 1 < sint (seen k 5) then is_file (search_object (seen k 5) k) k else None) of
         None \<Rightarrow> comes_back (- 1) (decimal (sint (seen k 5))) InvalidFileId ?K k'
       | Some fid \<Rightarrow> \<exists>file. files k fid = Some file
           \<and> comes_back 0 [] NoError (?K\<lparr>files := (files k)(fid \<mapsto> Seek (sint (seen k 4)) file)\<rparr>) k'"
    using seek_handler [OF K, of cfg d l] unfolding f r5 r4 by blast
  have one: "OneInstruction cfg h (kernel_handler cfg d l) k = Some (0, k'\<lparr>status := USER_MODE\<rparr>)" using r(3) k'(1) by simp
  have same: "R K' NEXTPC_REG = R k NEXTPC_REG" "mainMemory K' = mainMemory k" "fs K' = fs k"
    if "K' = ?K \<or> (\<exists>fl. K' = ?K\<lparr>files := fl\<rparr>)" for K'
  proof -
    have "R K' = R ?K" "mainMemory K' = mainMemory ?K" "fs K' = fs ?K" using that by (auto simp: R_def fun_eq_iff)
    then show "R K' NEXTPC_REG = R k NEXTPC_REG" "mainMemory K' = mainMemory k" "fs K' = fs k"
      using f(4,5,6) r(2) [of 35] s by simp_all
  qed
  have st: "status (k'\<lparr>status := USER_MODE\<rparr>) = USER_MODE" by simp
  show ?thesis
  proof (cases "if 1 < sint (seen k 5) then is_file (search_object (seen k 5) k) k else None")
    case None
    then have "comes_back (- 1) (decimal (sint (seen k 5))) InvalidFileId ?K k'" using k'(2) by (simp only: option.case)
    note c = comes_back_user [OF this]
    show ?thesis unfolding None option.case
      by (rule exI [of _ "k'\<lparr>status := USER_MODE\<rparr>"], intro conjI one) (simp_all only: c same [of ?K] f(3) st simp_thms)
  next
    case (Some fid)
    then obtain fl where fl: "files k fid = Some fl"
      "comes_back 0 [] NoError (?K\<lparr>files := (files k)(fid \<mapsto> Seek (sint (seen k 4)) fl)\<rparr>) k'" using k'(2) by (auto simp only: option.case)
    note c = comes_back_user [OF fl(2)]
    show ?thesis unfolding Some option.case
      by (rule exI [of _ "k'\<lparr>status := USER_MODE\<rparr>"], intro conjI one exI [of _ fl] fl(1))
        (simp_all only: c same [OF disjI2, OF exI, OF refl] st simp_thms, simp_all)
  qed
qed

text \<open>A program whose first instruction is \<open>syscall\<close>, to move the position of file 3 to 2.\<close>

definition demo_trap :: nachos where
  "demo_trap = demo_nachos\<lparr>mainMemory := [0, 0, 0, 12] @ replicate 12 0, int_registers := (replicate 40 0)[2 := 8, 4 := 2, 5 := 3]\<rparr>"

theorem seek_instruction_witness:
  "\<forall>h. \<exists>k' t. OneInstruction tiny_cfg h (kernel_handler tiny_cfg demo_drivers 0) demo_trap = Some (t, k')
     \<and> R k' 2 = 0 \<and> files k' = [0 \<mapsto> Seek 2 (tiny_file 10 [5])]"
proof
  fix h
  let ?k = demo_trap
  have parts: "mmu_table ?k = Some 0" "tables ?k = [0 \<mapsto> demo_table]" "mainMemory ?k = [0, 0, 0, 12] @ replicate 12 0"
    "int_registers ?k = (replicate 40 0)[2 := 8, 4 := 2, 5 := 3]" "files ?k = [0 \<mapsto> tiny_file 10 [5]]"
    "g_object_ids ?k = \<lparr>last_id = 4, ids = [3 \<mapsto> O_file 0]\<rparr>"
    by (simp_all add: demo_trap_def demo_nachos_parts)
  have e: "host_endianess ?k \<noteq> mips_endianess ?k"
    by (simp add: demo_trap_def demo_nachos_def demo_vm_def demo_os_def demo_def os.defs vm.defs kernel.defs nachos.defs)
  have r: "R ?k 34 = 0" "seen ?k 2 = 8" "seen ?k 4 = 2" "seen ?k 5 = 3" by (simp_all add: R_def seen_def parts)
  have w: "wf_cpu ?k"
    by (simp add: wf_cpu_def parts R_def) (simp add: demo_trap_def demo_nachos_def demo_vm_def demo_os_def demo_def os.defs vm.defs kernel.defs nachos.defs)
  have m: "msgs_ok ?k" using demo_nachos_ok(2) by (simp add: msgs_ok_def demo_trap_def)
  have mp: "mapped tiny_cfg ?k (R ?k PC_REG) 0 demo_table" "aligned 4 (R ?k PC_REG)" and pa: "phys_addr tiny_cfg demo_table 0 = 0"
    by (simp_all add: r parts mapped_def page_of_def offset_of_def phys_addr_def tiny_cfg_def
        demo_table_def wf_table_def in_table_def entry_def page0_def aligned_def)
  have l: "load_value ?k 4 (phys_addr tiny_cfg demo_table (R ?k PC_REG)) = Some 12"
    by (simp add: r pa load_value_def load_word_def parts aget_def le_word_def WordToHost_def e)
  show "\<exists>k' t. OneInstruction tiny_cfg h (kernel_handler tiny_cfg demo_drivers 0) demo_trap = Some (t, k')
     \<and> R k' 2 = 0 \<and> files k' = [0 \<mapsto> Seek 2 (tiny_file 10 [5])]"
    using seek_instruction [OF w m mp l r(2), of h demo_drivers 0]
    by (auto simp: r is_file_def search_object_def SearchObject_def parts)
qed

end
