(* ===== verification/Nachos_UserLib.thy ===== *)
theory Nachos_UserLib
  imports Nachos_Prelude
begin

text \<open>
  The library of the user programs (\<open>userlib/libnachos.c\<close>). The memory of the program is one
  array of bytes and a pointer is an index into it, so areas may overlap; \<open>NULL\<close> is 0. An
  access outside of the memory and an \<open>int\<close> that overflows have no value. \<open>char\<close> is signed, as
  the compiler for MIPS has it.
\<close>

subsection \<open>Strings\<close>

function n_strcmp_from :: "byte list \<Rightarrow> int \<Rightarrow> int \<Rightarrow> int option" where
  "n_strcmp_from mem s1 s2 = do {
     a \<leftarrow> aget mem s1;
     b \<leftarrow> aget mem s2;
     if a = 0 \<and> b = 0 then Some 0
     else if sint a < sint b then Some (- 1)
     else if sint a > sint b then Some 1
     else n_strcmp_from mem (s1 + 1) (s2 + 1) }"
  by pat_completeness auto
termination
  by (relation "measure (\<lambda>(mem, s1, s2). nat (int (length mem) - s1))") (auto simp: aget_Some)

definition n_strcmp :: "byte list \<Rightarrow> int \<Rightarrow> int \<Rightarrow> int option" where
  "n_strcmp mem s1 s2 = n_strcmp_from mem s1 s2"

text \<open>The byte is written before the test of the loop: the final zero is copied too.\<close>

function n_strcpy_from :: "int \<Rightarrow> int \<Rightarrow> byte list \<Rightarrow> byte list option" where
  "n_strcpy_from dst src mem = do {
     c \<leftarrow> aget mem src;
     mem' \<leftarrow> aset mem dst c;
     if c = 0 then Some mem' else n_strcpy_from (dst + 1) (src + 1) mem' }"
  by pat_completeness auto
termination
  by (relation "measure (\<lambda>(dst, src, mem). nat (int (length mem) - src))") (auto simp: aget_Some aset_Some)

definition n_strcpy :: "int \<Rightarrow> int \<Rightarrow> byte list \<Rightarrow> (int \<times> byte list) option" where
  "n_strcpy dst src mem =
     (if dst \<noteq> 0 \<and> src \<noteq> 0 then map_option (Pair dst) (n_strcpy_from dst src mem) else Some (0, mem))"

function n_strlen :: "byte list \<Rightarrow> int \<Rightarrow> int option" where
  "n_strlen mem s = do { c \<leftarrow> aget mem s; if c \<noteq> 0 then map_option (\<lambda>i. 1 + i) (n_strlen mem (s + 1)) else Some 0 }"
  by pat_completeness auto
termination
  by (relation "measure (\<lambda>(mem, s). nat (int (length mem) - s))") (auto simp: aget_Some)

declare n_strcmp_from.simps [simp del] n_strcpy_from.simps [simp del] n_strlen.simps [simp del]

definition n_strcat :: "int \<Rightarrow> int \<Rightarrow> byte list \<Rightarrow> (int \<times> byte list) option" where
  "n_strcat dst src mem = do {
     i \<leftarrow> n_strlen mem dst;
     j \<leftarrow> n_strlen mem src;
     mem' \<leftarrow> foldM (\<lambda>k m. do { c \<leftarrow> aget m (src + (k - i)); aset m (dst + k) c }) [i..j + i] mem;
     Some (dst, mem') }"

subsection \<open>Characters and integers\<close>

definition n_toupper :: "int \<Rightarrow> int" where
  "n_toupper c = (if c \<ge> 97 \<and> c \<le> 122 then c + (65 - 97) else c)"

definition n_tolower :: "int \<Rightarrow> int" where
  "n_tolower c = (if c \<le> 90 \<and> c \<ge> 65 then c + (97 - 65) else c)"

definition checked :: "int \<Rightarrow> int option" where
  "checked i = (if int32 i then Some i else None)"

function n_atoi_from :: "byte list \<Rightarrow> int \<Rightarrow> int \<Rightarrow> int option" where
  "n_atoi_from mem s val = do {
     c \<leftarrow> aget mem s;
     if c = 0 \<or> sint c < 48 \<or> sint c > 57 then Some val
     else do {
       v \<leftarrow> checked (val * 10);
       v' \<leftarrow> checked (v + (sint c - 48));
       n_atoi_from mem (s + 1) v' } }"
  by pat_completeness auto
termination
  by (relation "measure (\<lambda>(mem, s, val). nat (int (length mem) - s))") (auto simp: aget_Some)

declare n_atoi_from.simps [simp del]

definition n_atoi :: "byte list \<Rightarrow> int \<Rightarrow> int option" where
  "n_atoi mem str = do {
     c \<leftarrow> aget mem str;
     if c = 45 then do { val \<leftarrow> n_atoi_from mem (str + 1) 0; checked (- val) }
     else n_atoi_from mem str 0 }"

subsection \<open>Memory\<close>

fun n_memcmp :: "byte list \<Rightarrow> int \<Rightarrow> int \<Rightarrow> nat \<Rightarrow> int option" where
  "n_memcmp mem s1 s2 0 = Some 0"
| "n_memcmp mem s1 s2 (Suc n) = do {
     a \<leftarrow> aget mem s1;
     b \<leftarrow> aget mem s2;
     if a < b then Some (- 1) else if a > b then Some 1 else n_memcmp mem (s1 + 1) (s2 + 1) n }"

definition n_memcpy :: "int \<Rightarrow> int \<Rightarrow> nat \<Rightarrow> byte list \<Rightarrow> (int \<times> byte list) option" where
  "n_memcpy s1 s2 n mem =
     (if s1 \<noteq> 0 \<and> s2 \<noteq> 0
      then map_option (Pair s1) (foldM (\<lambda>i m. do { c \<leftarrow> aget m (s2 + int i); aset m (s1 + int i) c }) [0..<n] mem)
      else Some (0, mem))"

definition n_memset :: "int \<Rightarrow> int \<Rightarrow> nat \<Rightarrow> byte list \<Rightarrow> (int \<times> byte list) option" where
  "n_memset s c n mem = map_option (Pair s) (foldM (\<lambda>i m. aset m (s + int i) (word_of_int c)) [0..<n] mem)"

subsection \<open>Formatted output\<close>

text \<open>
  The arguments of a call, and \<open>va_arg\<close>, which has no value when the type is not that of the next
  argument. A string argument is the array it points into, from the pointer on, or \<open>NULL\<close>; so is
  the format.
\<close>

datatype 'd vararg = V_int u32 | V_str "byte list option" | V_double 'd

fun next_int :: "'d vararg list \<Rightarrow> (u32 \<times> 'd vararg list) option" where
  "next_int (V_int i # ap) = Some (i, ap)"
| "next_int ap = None"

fun next_str :: "'d vararg list \<Rightarrow> (byte list option \<times> 'd vararg list) option" where
  "next_str (V_str s # ap) = Some (s, ap)"
| "next_str ap = None"

fun next_double :: "'d vararg list \<Rightarrow> ('d \<times> 'd vararg list) option" where
  "next_double (V_double x # ap) = Some (x, ap)"
| "next_double ap = None"

text \<open>The local variables: the buffer, how far \<open>buff\<close> has moved, and \<open>result\<close>.\<close>

record printer =
  pbuf :: "byte list"
  pnext :: int
  presult :: int

definition PUTCHAR :: "int \<Rightarrow> byte \<Rightarrow> printer \<Rightarrow> printer option" where
  "PUTCHAR len carac st = do {
     st1 \<leftarrow> (if presult st < len - 1
            then do { b \<leftarrow> aset (pbuf st) (pnext st) carac; Some (st\<lparr>pbuf := b, pnext := pnext st + 1\<rparr>) }
            else Some st);
     Some (st1\<lparr>presult := presult st1 + 1\<rparr>) }"

text \<open>The digits of \<open>%d\<close>, the last one first.\<close>

function int_digits :: "int \<Rightarrow> byte list" where
  "int_digits i =
     (let m10 = i smod 10; m = (if m10 < 0 then - m10 else m10); i' = i sdiv 10
      in word_of_int (48 + m) # (if i' \<noteq> 0 then int_digits i' else []))"
  by pat_completeness auto
termination
proof (relation "measure (\<lambda>i. nat \<bar>i\<bar>)")
  fix i m10 m i' :: int
  assume "i' = i sdiv 10" "i' \<noteq> 0"
  then show "(i', i) \<in> measure (\<lambda>i. nat \<bar>i\<bar>)"
    by (cases "i = 0") (auto simp: signed_divide_int_def abs_mult sgn_if)
qed simp

declare int_digits.simps [simp del]

text \<open>\<open>buff_int\<close> has 16 elements.\<close>

definition put_int :: "int \<Rightarrow> u32 \<Rightarrow> printer \<Rightarrow> printer option" where
  "put_int len w st = do {
     let ds = int_digits (sint w);
     st1 \<leftarrow> (if sint w < 0 then PUTCHAR len 45 st else Some st);
     if length ds \<le> 16 then foldM (PUTCHAR len) (rev ds) st1 else None }"

fun put_str :: "int \<Rightarrow> byte list \<Rightarrow> printer \<Rightarrow> printer option" where
  "put_str len [] st = None"
| "put_str len (c # cs) st = (if c = 0 then Some st else do { st' \<leftarrow> PUTCHAR len c st; put_str len cs st' })"

definition null_text :: "byte list" where
  "null_text = map of_char ''(null)'' @ [0]"

text \<open>One of the eight rounds of \<open>%x\<close>, on \<open>had_nonzero\<close> and the state.\<close>

definition put_nibble :: "int \<Rightarrow> u32 \<Rightarrow> nat \<Rightarrow> bool \<times> printer \<Rightarrow> (bool \<times> printer) option" where
  "put_nibble len hexa i s =
     (let (had_nonzero, st) = s; nb = drop_bit 28 (push_bit (i * 4) hexa) AND 0xf in
      if nb = 0 then (if had_nonzero then map_option (Pair True) (PUTCHAR len 48 st) else Some s)
      else map_option (Pair True) (PUTCHAR len (if nb < 10 then 48 + ucast nb else 97 + (ucast nb - 10)) st))"

definition put_hex :: "int \<Rightarrow> u32 \<Rightarrow> printer \<Rightarrow> printer option" where
  "put_hex len w st = do {
     (had_nonzero, st') \<leftarrow> foldM (put_nibble len w) [0..<8] (False, st);
     if \<not> had_nonzero then PUTCHAR len 48 st' else Some st' }"

text \<open>One conversion. What \<open>%f\<close> prints depends on floating point operations: it is the argument \<open>fl\<close>.\<close>

definition put_conversion ::
  "('d \<Rightarrow> byte list) \<Rightarrow> int \<Rightarrow> byte \<Rightarrow> 'd vararg list \<Rightarrow> printer \<Rightarrow> ('d vararg list \<times> printer) option" where
  "put_conversion fl len c ap st =
     (if c = 37 then map_option (Pair ap) (PUTCHAR len 37 st)
      else if c = 105 \<or> c = 100 then do { (i, ap') \<leftarrow> next_int ap; map_option (Pair ap') (put_int len i st) }
      else if c = 99 then do { (i, ap') \<leftarrow> next_int ap; map_option (Pair ap') (PUTCHAR len (ucast i) st) }
      else if c = 115 then do {
        (s, ap') \<leftarrow> next_str ap;
        map_option (Pair ap') (put_str len (case s of Some t \<Rightarrow> t | None \<Rightarrow> null_text) st) }
      else if c = 120 then do { (i, ap') \<leftarrow> next_int ap; map_option (Pair ap') (put_hex len i st) }
      else if c = 102 then do { (x, ap') \<leftarrow> next_double ap; map_option (Pair ap') (foldM (PUTCHAR len) (fl x) st) }
      else do { st1 \<leftarrow> PUTCHAR len 37 st; map_option (Pair ap) (PUTCHAR len c st1) })"

text \<open>A \<open>%\<close> at the end of the format takes the final zero as its conversion: the loop goes on behind it.\<close>

fun format_from ::
  "('d \<Rightarrow> byte list) \<Rightarrow> int \<Rightarrow> byte list \<Rightarrow> 'd vararg list \<Rightarrow> printer \<Rightarrow> printer option" where
  "format_from fl len [] ap st = None"
| "format_from fl len [c] ap st = (if c = 0 then Some st else None)"
| "format_from fl len (c # c' # cs) ap st =
     (if c = 0 then Some st
      else if c = 37 then do { (ap', st') \<leftarrow> put_conversion fl len c' ap st; format_from fl len cs ap' st' }
      else do { st' \<leftarrow> PUTCHAR len c st; format_from fl len (c' # cs) ap st' })"

definition vsnprintf ::
  "('d \<Rightarrow> byte list) \<Rightarrow> byte list option \<Rightarrow> int \<Rightarrow> byte list option \<Rightarrow> 'd vararg list
   \<Rightarrow> (int \<times> byte list option) option" where
  "vsnprintf fl buff len format ap =
     (case (buff, format) of
        (Some b, Some fmt) \<Rightarrow>
          (if len < 0 then Some (- 1, buff)
           else do {
             st \<leftarrow> format_from fl len fmt ap \<lparr>pbuf = b, pnext = 0, presult = 0\<rparr>;
             b' \<leftarrow> aset (pbuf st) (pnext st) 0;
             Some (presult st, Some b') })
      | _ \<Rightarrow> Some (- 1, buff))"

definition n_snprintf ::
  "('d \<Rightarrow> byte list) \<Rightarrow> byte list option \<Rightarrow> int \<Rightarrow> byte list option \<Rightarrow> 'd vararg list
   \<Rightarrow> (int \<times> byte list option) option" where
  "n_snprintf fl buff len format ap = vsnprintf fl buff len format ap"

text \<open>
  The result is what \<open>Write\<close> gets, if it is called. The comparison with \<open>sizeof\<close> is unsigned:
  the \<open>- 1\<close> of an error is not less than 200.
\<close>

definition n_printf :: "config \<Rightarrow> ('d \<Rightarrow> byte list) \<Rightarrow> byte list option \<Rightarrow> 'd vararg list \<Rightarrow> byte list option" where
  "n_printf cfg fl format ap = do {
     (len, buff) \<leftarrow> vsnprintf fl (Some (map (\<lambda>i. word_of_int (fresh cfg i)) [0..<200])) 200 format ap;
     b \<leftarrow> buff;
     let len = (if len \<ge> 200 \<or> len < 0 then 199 else len);
     Some (if len > 0 then take (nat len) b else []) }"

text \<open>\<open>buff\<close> is what \<open>Read\<close> has left in the buffer.\<close>

definition n_read_int :: "byte list \<Rightarrow> int option" where
  "n_read_int buff = n_atoi buff 0"

subsection \<open>Dumps\<close>

definition TOHEX :: "byte \<Rightarrow> byte" where
  "TOHEX x = (if sint x < 10 then x + 48 else 97 + (x - 10))"

definition dump_byte :: "config \<Rightarrow> byte list \<Rightarrow> int \<Rightarrow> int \<Rightarrow> int \<Rightarrow> byte list \<Rightarrow> byte list option" where
  "dump_byte cfg mem addr len i out = do {
     let printf = n_printf cfg (\<lambda>_ :: unit. []);
     o1 \<leftarrow> (if i smod 16 = 0 then printf (Some (map of_char ''%x'' @ [9, 0])) [V_int (word_of_int (addr + i))]
           else if i smod 8 = 0 then printf (Some (map of_char ''   '' @ [0])) []
           else Some []);
     c \<leftarrow> aget mem (addr + i);
     o2 \<leftarrow> printf (Some (map of_char ''%s '' @ [0]))
       [V_str (Some [TOHEX (signed_drop_bit 4 c AND 0xf), TOHEX (c AND 0xf), 0])];
     o3 \<leftarrow> (if (i + 1) smod 16 = 0 \<or> i = len - 1 then printf (Some [10, 0]) [] else Some []);
     Some (out @ o1 @ o2 @ o3) }"

definition n_dumpmem :: "config \<Rightarrow> byte list \<Rightarrow> int \<Rightarrow> int \<Rightarrow> byte list option" where
  "n_dumpmem cfg mem addr len = foldM (dump_byte cfg mem addr len) [0..len - 1] []"

end
