(* ===== verification/Nachos_UserLibProps.thy ===== *)
theory Nachos_UserLibProps
  imports Nachos_UserLib
begin

text \<open>
  Properties of the library of the user programs: strings, and what \<open>snprintf\<close> prints, which
  \<open>atoi\<close> reads back.
\<close>

subsection \<open>Strings in memory\<close>

lemma sint_byte_inject: "sint (x :: byte) = sint y \<longleftrightarrow> x = y"
  by (metis signed_word_eqI)

lemma sint_byte_zero: "sint (x :: byte) = 0 \<longleftrightarrow> x = 0"
  using sint_byte_inject [of x 0] by simp

definition str_at :: "byte list \<Rightarrow> int \<Rightarrow> byte list \<Rightarrow> bool" where
  "str_at mem s xs \<longleftrightarrow> 0 \<le> s \<and> 0 \<notin> set xs \<and> (\<exists>rest. drop (nat s) mem = xs @ 0 # rest)"

lemma str_at_Cons: "str_at mem s (x # xs) \<Longrightarrow> aget mem s = Some x \<and> x \<noteq> 0 \<and> str_at mem (s + 1) xs"
proof -
  assume s: "str_at mem s (x # xs)"
  then obtain rest where r: "0 \<le> s" "drop (nat s) mem = x # xs @ 0 # rest" by (auto simp: str_at_def)
  then have "nat s < length mem" by (metis drop_eq_Nil2 leI list.distinct(1))
  moreover have "drop (nat (s + 1)) mem = xs @ 0 # rest" using r by (simp add: nat_add_distrib drop_Suc [symmetric] del: drop_drop) (metis drop_Suc list.sel(3) tl_drop)
  moreover have "mem ! nat s = x" using r(2) calculation(1) by (metis hd_drop_conv_nth list.sel(1))
  ultimately show ?thesis using s r(1) by (auto simp: aget_Some str_at_def)
qed

lemma str_at_Nil: "str_at mem s [] \<Longrightarrow> aget mem s = Some 0"
  unfolding str_at_def aget_Some by (metis append_Nil drop_eq_Nil2 hd_drop_conv_nth leI list.distinct(1) list.sel(1))

lemma str_atI:
  assumes "0 \<le> s" "0 \<notin> set xs" "nat s + length xs < length mem" "\<And>j. j < length xs \<Longrightarrow> mem ! (nat s + j) = xs ! j"
    "mem ! (nat s + length xs) = 0"
  shows "str_at mem s xs"
proof -
  have "take (length xs) (drop (nat s) mem) = xs" using assms(3,4) by (intro nth_equalityI) auto
  moreover have "drop (length xs) (drop (nat s) mem) = 0 # drop (Suc (nat s + length xs)) mem"
    using assms(3,5) Cons_nth_drop_Suc [of "nat s + length xs" mem] by (simp add: add.commute)
  ultimately have "drop (nat s) mem = xs @ 0 # drop (Suc (nat s + length xs)) mem"
    by (metis append_take_drop_id)
  then show ?thesis using assms(1,2) by (auto simp: str_at_def)
qed

lemma str_at_nth:
  assumes "str_at mem s xs"
  shows "nat s + length xs < length mem" "j < length xs \<Longrightarrow> mem ! (nat s + j) = xs ! j" "mem ! (nat s + length xs) = 0"
    "0 \<le> s" "0 \<notin> set xs"
proof -
  obtain rest where r: "0 \<le> s" "0 \<notin> set xs" "drop (nat s) mem = xs @ 0 # rest" using assms by (auto simp: str_at_def)
  have "length (drop (nat s) mem) = length xs + Suc (length rest)" unfolding r(3) by simp
  then show l: "nat s + length xs < length mem" by simp
  have n: "mem ! (nat s + j) = (xs @ 0 # rest) ! j" if "nat s \<le> length mem" for j using that nth_drop [of "nat s" mem j] r(3) by simp
  show "j < length xs \<Longrightarrow> mem ! (nat s + j) = xs ! j" "mem ! (nat s + length xs) = 0"
    using n l by (simp_all add: nth_append)
qed (use assms in \<open>simp_all add: str_at_def\<close>)

text \<open>The length of a string.\<close>

lemma n_strlen_ok: "str_at mem s xs \<Longrightarrow> n_strlen mem s = Some (int (length xs))"
proof (induction xs arbitrary: s)
  case Nil
  then show ?case using str_at_Nil by (subst n_strlen.simps) simp
next
  case (Cons x xs)
  from str_at_Cons [OF Cons.prems] Cons.IH show ?case by (subst n_strlen.simps) simp
qed

text \<open>
  Comparison of strings. \<open>n_strcmp\<close> returns for every two strings; the result is 0 when they are
  equal, negative when the first one comes first in the lexicographic order of its signed
  characters, a prefix coming first, and changes its sign with the order of the arguments.
\<close>
theorem strcmp_is_lexicographic:
  assumes "str_at mem s1 xs" "str_at mem s2 ys"
  shows "\<exists>r. n_strcmp mem s1 s2 = Some r \<and> n_strcmp mem s2 s1 = Some (- r) \<and> (r = 0 \<longleftrightarrow> xs = ys)
    \<and> (r < 0 \<longleftrightarrow> (map sint (xs @ [0]), map sint (ys @ [0])) \<in> lexord {(a, b :: int). a < b})"
  using assms unfolding n_strcmp_def
proof (induction xs arbitrary: ys s1 s2)
  case Nil
  show ?case
  proof (cases ys)
    case Nil
    then show ?thesis using str_at_Nil [OF Nil.prems(1)] str_at_Nil [of mem s2] \<open>str_at mem s2 ys\<close>
      by (subst (1 2) n_strcmp_from.simps) simp
  next
    case (Cons y ys')
    then have y: "aget mem s2 = Some y" "y \<noteq> 0" using str_at_Cons \<open>str_at mem s2 ys\<close> by blast+
    have "sint y \<noteq> 0" using y(2) by (simp add: sint_byte_zero)
    then show ?thesis using str_at_Nil [OF \<open>str_at mem s1 []\<close>] y Cons
      by (subst (1 2) n_strcmp_from.simps) auto
  qed
next
  case (Cons x xs)
  note x = str_at_Cons [OF Cons.prems(1)]
  have sx: "sint x \<noteq> 0" using x by (simp add: sint_byte_zero)
  show ?case
  proof (cases ys)
    case Nil
    then show ?thesis using str_at_Nil [of mem s2] Cons.prems(2) x sx
      by (subst (1 2) n_strcmp_from.simps) auto
  next
    case (Cons y ys')
    then have y: "aget mem s2 = Some y" "y \<noteq> 0" "str_at mem (s2 + 1) ys'" using str_at_Cons Cons.prems(2) by blast+
    show ?thesis
    proof (cases "x = y")
      case True
      then show ?thesis using Cons.IH [OF _ y(3)] x y Cons by (subst (1 2) n_strcmp_from.simps) auto
    next
      case False
      then have "sint x \<noteq> sint y" by (simp add: sint_byte_inject)
      then show ?thesis using False x y Cons by (subst (1 2) n_strcmp_from.simps) auto
    qed
  qed
qed

subsection \<open>Appending\<close>

text \<open>The loop of \<open>n_strcat\<close> and of \<open>n_memcpy\<close>, between areas that do not overlap.\<close>

lemma append3_nth:
  "length xs = d \<Longrightarrow> length ys = n \<Longrightarrow>
   (xs @ ys @ zs) ! i = (if i < d then xs ! i else if i < d + n then ys ! (i - d) else zs ! (i - (d + n)))"
  by (auto simp: nth_append)

lemma bytes_spliced_nth:
  assumes "d + n \<le> length mem" "s + n \<le> length mem" "i < length mem"
  shows "(take d mem @ take n (drop s mem) @ drop (d + n) mem) ! i
    = (if i < d then mem ! i else if i < d + n then mem ! (s + (i - d)) else mem ! i)"
proof -
  have "length (take d mem) = d" "length (take n (drop s mem)) = n" using assms by simp_all
  note append3_nth [OF this, of "drop (d + n) mem" i]
  then show ?thesis using assms by simp
qed

lemma copy_bytes:
  assumes "0 \<le> d" "0 \<le> s" "nat d + n \<le> length mem" "nat s + n \<le> length mem" "nat s + n \<le> nat d \<or> nat d + n \<le> nat s"
  shows "foldM (\<lambda>i m. do { c \<leftarrow> aget m (s + int i); aset m (d + int i) c }) [0..<n] mem
    = Some (take (nat d) mem @ take n (drop (nat s) mem) @ drop (nat d + n) mem)"
  using assms(3-5)
proof (induction n)
  case 0
  then show ?case by simp
next
  case (Suc n)
  let ?r = "take (nat d) mem @ take n (drop (nat s) mem) @ drop (nat d + n) mem"
  have l: "length ?r = length mem" using Suc.prems by simp
  have at_s: "?r ! (nat s + n) = mem ! (nat s + n)"
    using Suc.prems by (subst bytes_spliced_nth) auto
  have g: "aget ?r (s + int n) = Some (mem ! (nat s + n))"
    unfolding aget_Some l at_s [symmetric] using Suc.prems assms(1,2) by (simp add: nat_add_distrib)
  have "aset ?r (d + int n) (mem ! (nat s + n)) = Some (?r[nat d + n := mem ! (nat s + n)])"
    unfolding aset_Some l using Suc.prems assms(1) by (simp add: nat_add_distrib)
  moreover have "?r[nat d + n := mem ! (nat s + n)] = take (nat d) mem @ take (Suc n) (drop (nat s) mem) @ drop (nat d + Suc n) mem"
    (is "_ = ?r'")
  proof (rule nth_equalityI)
    fix i
    assume "i < length (?r[nat d + n := mem ! (nat s + n)])"
    then have i: "i < length mem" using l by simp
    show "?r[nat d + n := mem ! (nat s + n)] ! i = ?r' ! i"
      using bytes_spliced_nth [of "nat d" n mem "nat s" i] bytes_spliced_nth [of "nat d" "Suc n" mem "nat s" i] i l Suc.prems
      by (cases "i = nat d + n") (simp_all add: nth_list_update)
  qed (use l Suc.prems in simp)
  moreover have "foldM (\<lambda>i m. do { c \<leftarrow> aget m (s + int i); aset m (d + int i) c }) [0..<n] mem = Some ?r"
    by (rule Suc.IH) (use Suc.prems in linarith)+
  ultimately show ?case using g by (simp only: foldM_snoc upt_Suc_append) simp
qed

lemma upto_shift: "0 \<le> m \<Longrightarrow> [i..m + i] = map (\<lambda>j. i + int j) [0..<Suc (nat m)]"
  by (rule nth_equalityI) (simp_all add: nat_add_distrib del: upt_Suc)

lemma foldM_map: "foldM f (map g xs) = foldM (\<lambda>x. f (g x)) xs"
proof (induction xs)
  case (Cons x xs)
  then show ?case by (intro ext) simp
qed simp

text \<open>
  \<open>n_strcat\<close> appends. With a string \<open>xs\<close> at \<open>dst\<close> and a string \<open>ys\<close> at \<open>src\<close> that does not
  overlap the place of the result, and memory behind \<open>dst\<close> for both and a zero, the call
  returns \<open>dst\<close>, the string there is \<open>xs @ ys\<close>, and no byte of the memory but those behind
  \<open>xs\<close> that receive \<open>ys\<close> and its zero has changed.
\<close>
theorem strcat_appends:
  assumes "str_at mem dst xs" "str_at mem src ys" "nat dst + length xs + length ys < length mem"
    and "nat src + length ys < nat dst + length xs \<or> nat dst + length xs + length ys < nat src"
  shows "\<exists>mem'. n_strcat dst src mem = Some (dst, mem') \<and> str_at mem' dst (xs @ ys)
    \<and> length mem' = length mem
    \<and> (\<forall>i < length mem. i < nat dst + length xs \<or> nat dst + length xs + length ys < i \<longrightarrow> mem' ! i = mem ! i)"
proof -
  let ?d = "dst + int (length xs)" and ?n = "Suc (length ys)"
  let ?mem = "take (nat ?d) mem @ take ?n (drop (nat src) mem) @ drop (nat ?d + ?n) mem"
  note x = str_at_nth [OF assms(1)] and y = str_at_nth [OF assms(2)]
  have d: "nat ?d = nat dst + length xs" using x(4) by (simp add: nat_add_distrib)
  have "foldM (\<lambda>k m. do { c \<leftarrow> aget m (src + (k - int (length xs))); aset m (dst + k) c })
      [int (length xs)..int (length ys) + int (length xs)] mem
    = foldM (\<lambda>i m. do { c \<leftarrow> aget m (src + int i); aset m (?d + int i) c }) [0..<?n] mem"
    by (simp only: upto_shift of_nat_0_le_iff foldM_map) (simp add: algebra_simps)
  also have "\<dots> = Some ?mem"
    by (rule copy_bytes) (use x(4) y(1,4) assms(3,4) d in auto)
  finally have c: "n_strcat dst src mem = Some (dst, ?mem)"
    by (simp add: n_strcat_def n_strlen_ok [OF assms(1)] n_strlen_ok [OF assms(2)])
  have n: "?mem ! (nat dst + j) = (if j < length xs then mem ! (nat dst + j)
      else if j < length xs + ?n then mem ! (nat src + (j - length xs)) else mem ! (nat dst + j))"
    if "nat dst + j < length mem" for j
    using bytes_spliced_nth [of "nat ?d" ?n mem "nat src" "nat dst + j"] that assms(3) y(1) by (auto simp: d)
  have "str_at ?mem dst (xs @ ys)"
  proof (rule str_atI)
    show "nat dst + length (xs @ ys) < length ?mem" using assms(3) y(1) d by simp
    show "?mem ! (nat dst + length (xs @ ys)) = 0" using n [of "length (xs @ ys)"] assms(3) y(3) by simp
    show "?mem ! (nat dst + j) = (xs @ ys) ! j" if j: "j < length (xs @ ys)" for j
    proof (cases "j < length xs")
      case True
      then show ?thesis using n [of j] j assms(3) x(2) by (simp add: nth_append)
    next
      case False
      then have "mem ! (nat src + (j - length xs)) = ys ! (j - length xs)" using j by (intro y(2)) simp
      then show ?thesis using n [of j] False j assms(3) by (simp add: nth_append)
    qed
  qed (use x y in auto)
  moreover have "?mem ! i = mem ! i" if "i < length mem" "i < nat dst + length xs \<or> nat dst + length xs + length ys < i" for i
    using bytes_spliced_nth [of "nat ?d" ?n mem "nat src" i] that y(1) assms(3) by (auto simp: d)
  ultimately show ?thesis using c assms(3) y(1) d by (intro exI [of _ ?mem]) simp
qed

subsection \<open>Examples\<close>

text \<open>Three strings: \<open>ab\<close>, \<open>ac\<close> and room, and the bytes behind.\<close>

definition demo_strings :: "byte list" where
  "demo_strings = [9, 97, 98, 0, 97, 99, 0, 97, 0, 7, 7, 7]"

lemma demo_strings_at: "str_at demo_strings 1 [97, 98]" "str_at demo_strings 4 [97, 99]" "str_at demo_strings 7 [97]"
  by (simp_all add: str_at_def demo_strings_def)

theorem strcmp_is_lexicographic_witness:
  "\<exists>r. n_strcmp demo_strings 1 4 = Some r \<and> n_strcmp demo_strings 4 1 = Some (- r) \<and> r < 0"
  using strcmp_is_lexicographic [OF demo_strings_at(1,2)] by auto

theorem strcat_appends_witness:
  "\<exists>mem'. n_strcat 7 1 demo_strings = Some (7, mem') \<and> str_at mem' 7 [97, 97, 98] \<and> mem' ! 11 = 7"
proof -
  have "nat 7 + length [97 :: byte] + length [97 :: byte, 98] < length demo_strings"
    "nat 1 + length [97 :: byte, 98] < nat 7 + length [97 :: byte] \<or> nat 7 + length [97 :: byte] + length [97 :: byte, 98] < nat 1"
    by (simp_all add: demo_strings_def)
  from strcat_appends [OF demo_strings_at(3,1) this] obtain mem' where
    m: "n_strcat 7 1 demo_strings = Some (7, mem')" "str_at mem' 7 ([97] @ [97, 98])"
    "\<forall>i < length demo_strings. i < nat 7 + length [97 :: byte] \<or> nat 7 + length [97 :: byte] + length [97 :: byte, 98] < i
      \<longrightarrow> mem' ! i = demo_strings ! i" by blast
  have "mem' ! 11 = demo_strings ! 11" by (rule m(3) [rule_format]) (simp_all add: demo_strings_def)
  then show ?thesis using m(1,2) by (simp add: demo_strings_def)
qed

end
