(* ===== verification/Nachos_Printf.thy ===== *)
theory Nachos_Printf
  imports Nachos_UserLibProps
begin

text \<open>
  What the formatted output of the library prints: the buffer receives the text that the format
  and its arguments stand for, cut to the size of the buffer, and \<open>atoi\<close> reads numbers back.
\<close>

subsection \<open>The buffer\<close>

text \<open>The state of the printer when \<open>t\<close> has been printed into the buffer \<open>b\<close>.\<close>

definition printed :: "int \<Rightarrow> byte list \<Rightarrow> byte list \<Rightarrow> printer" where
  "printed len b t =
     (let u = take (nat (len - 1)) t
      in \<lparr>pbuf = u @ drop (length u) b, pnext = int (length u), presult = int (length t)\<rparr>)"

lemma PUTCHAR_printed:
  assumes "0 \<le> len" "len \<le> int (length b)"
  shows "PUTCHAR len c (printed len b t) = Some (printed len b (t @ [c]))"
proof (cases "int (length t) < len - 1")
  case True
  then have l: "length t < nat (len - 1)" "length t < length b" using assms by linarith+
  then have "aset (t @ drop (length t) b) (int (length t)) c = Some (t @ [c] @ drop (Suc (length t)) b)"
    by (simp add: aset_def list_update_append Cons_nth_drop_Suc [symmetric])
  then show ?thesis using True l by (simp add: PUTCHAR_def printed_def Let_def)
next
  case False
  then have "nat (len - 1) \<le> length t" by linarith
  then show ?thesis using False by (simp add: PUTCHAR_def printed_def Let_def)
qed

lemma PUTCHARs_printed:
  assumes "0 \<le> len" "len \<le> int (length b)"
  shows "foldM (PUTCHAR len) cs (printed len b t) = Some (printed len b (t @ cs))"
  by (induction cs arbitrary: t) (simp_all add: PUTCHAR_printed [OF assms])

subsection \<open>Decimal numbers\<close>

lemma digits_digit: "d \<in> set (digits n) \<Longrightarrow> 48 \<le> uint d \<and> uint d \<le> 57"
proof (induction n rule: digits.induct)
  case (1 n)
  have "48 \<le> uint (48 + of_nat m :: byte) \<and> uint (48 + of_nat m :: byte) \<le> 57" if "m < 10" for m :: nat
    using that by (simp add: uint_nat unat_word_ariths unat_of_nat)
  then show ?case using 1 by (subst (asm) digits.simps) (auto split: if_splits)
qed

lemma word_of_digit: "word_of_int (48 + int m) = (48 + of_nat m :: byte)"
  by simp

lemma int_digits_nat: "rev (int_digits (int n)) = digits n"
proof (induction n rule: digits.induct)
  case (1 n)
  show ?case
  proof (cases "n < 10")
    case True
    then show ?thesis by (subst int_digits.simps, subst digits.simps) (simp add: cint_simps Let_def)
  next
    case False
    have "int n sdiv 10 = int (n div 10)" "int n smod 10 = int (n mod 10)" by (simp_all add: cint_simps zdiv_int zmod_int)
    moreover have "n div 10 \<noteq> 0" using False by simp
    ultimately show ?thesis using False 1 by (subst int_digits.simps, subst digits.simps) (simp add: Let_def)
  qed
qed

lemma int_digits_neg: "int_digits (- int n) = int_digits (int n)"
proof (induction n rule: less_induct)
  case (less n)
  have s: "(- int n) sdiv 10 = - int (n div 10)" "(- int n) smod 10 = - int (n mod 10)"
    "int n sdiv 10 = int (n div 10)" "int n smod 10 = int (n mod 10)"
    by (auto simp: signed_divide_int_def signed_modulo_int_def sgn_if zdiv_int zmod_int)
  show ?case
    unfolding int_digits.simps [of "- int n"] int_digits.simps [of "int n"] Let_def s
    using less by (cases "n div 10 = 0") auto
qed

lemma int_digits_decimal: "(if i < 0 then [45] else []) @ rev (int_digits i) = decimal i"
proof (cases "i < 0")
  case True
  then show ?thesis using int_digits_neg [of "nat (- i)"] int_digits_nat [of "nat (- i)"] by (simp add: decimal_def)
next
  case False
  then show ?thesis using int_digits_nat [of "nat i"] by (simp add: decimal_def)
qed

lemma digits_length: "n < 10 ^ k \<Longrightarrow> 0 < k \<Longrightarrow> length (digits n) \<le> k"
proof (induction k arbitrary: n)
  case (Suc k)
  show ?case
  proof (cases "n < 10")
    case True
    then show ?thesis by (subst digits.simps) simp
  next
    case False
    then have "n div 10 < 10 ^ k" "0 < k" using Suc.prems by (auto intro: gr0I)
    from Suc.IH [OF this] False show ?thesis by (subst digits.simps) simp
  qed
qed simp

lemma put_int_printed:
  assumes "0 \<le> len" "len \<le> int (length b)"
  shows "put_int len w (printed len b t) = Some (printed len b (t @ decimal (sint w)))"
proof -
  have "\<bar>sint w\<bar> \<le> 2147483648" using int32_sint [of w] by (auto simp: int32_def)
  then have "nat \<bar>sint w\<bar> < 10 ^ 10" by (simp add: nat_less_iff)
  then have "length (digits (nat \<bar>sint w\<bar>)) \<le> 10" by (rule digits_length) simp
  moreover have "length (int_digits (sint w)) = length (digits (nat \<bar>sint w\<bar>))"
    using int_digits_nat [of "nat \<bar>sint w\<bar>"] int_digits_neg [of "nat \<bar>sint w\<bar>"]
    by (cases "sint w < 0") (metis abs_of_neg abs_of_nonneg add.inverse_inverse length_rev nat_0_le neg_0_le_iff_le not_less order_less_imp_le)+
  ultimately have "length (int_digits (sint w)) \<le> 16" by simp
  then show ?thesis
    using int_digits_decimal [of "sint w"] PUTCHAR_printed [OF assms] PUTCHARs_printed [OF assms]
    by (auto simp: put_int_def Let_def split: if_splits)
qed

subsection \<open>Hexadecimal numbers\<close>

definition hex_digit :: "nat \<Rightarrow> byte" where
  "hex_digit n = (if n < 10 then 48 + of_nat n else 87 + of_nat n)"

fun hex :: "nat \<Rightarrow> byte list" where
  "hex n = (if n < 16 then [hex_digit n] else hex (n div 16) @ [hex_digit (n mod 16)])"

declare hex.simps [simp del]

lemma nibble_nat:
  fixes w :: u32
  assumes "i < 8"
  shows "unat (drop_bit 28 (push_bit (i * 4) w) AND 0xf) = unat w div 16 ^ (7 - i) mod 16"
proof -
  have m: "(0xf :: u32) = mask 4" by (simp add: mask_eq_exp_minus_1)
  have "drop_bit 28 (push_bit (i * 4) w) AND 0xf = take_bit 4 (drop_bit (28 - i * 4) w)"
    unfolding m by (rule bit_word_eqI) (use assms in \<open>auto simp: bit_simps\<close>)
  moreover have "(2 :: nat) ^ (28 - i * 4) = 16 ^ (7 - i)"
  proof -
    have "28 - i * 4 = 4 * (7 - i)" by simp
    then show ?thesis by (simp only: power_mult) simp
  qed
  moreover have "unat (take_bit 4 (drop_bit k w)) = unat w div 2 ^ k mod 16" for k
  proof -
    have "unat (take_bit 4 (drop_bit k w)) = take_bit 4 (unat (drop_bit k w))" by (rule unsigned_take_bit_eq)
    also have "unat (drop_bit k w) = unat w div 2 ^ k" unfolding unat_drop_bit_eq by (rule drop_bit_eq_div)
    finally show ?thesis by (simp add: take_bit_eq_mod)
  qed
  ultimately show ?thesis by (simp only:)
qed

lemma put_nibble_printed:
  fixes w :: u32
  assumes "0 \<le> len" "len \<le> int (length b)" "i < 8"
  defines "m \<equiv> \<lambda>i. unat w div 16 ^ (8 - i)"
  shows "put_nibble len w i (m i \<noteq> 0, printed len b (t @ (if m i = 0 then [] else hex (m i))))
    = Some (m (Suc i) \<noteq> 0, printed len b (t @ (if m (Suc i) = 0 then [] else hex (m (Suc i)))))"
proof -
  define nb where "nb = drop_bit 28 (push_bit (i * 4) w) AND 0xf"
  have u: "unat nb = m (Suc i) mod 16" unfolding nb_def m_def using nibble_nat [OF assms(3)] by simp
  have "8 - i = Suc (7 - i)" using assms(3) by simp
  then have "(16 :: nat) ^ (8 - i) = 16 ^ (7 - i) * 16" by simp
  then have d: "m i = m (Suc i) div 16" by (simp add: m_def div_mult2_eq)
  have z: "nb = 0 \<longleftrightarrow> m (Suc i) mod 16 = 0" using u by (metis unat_eq_zero)
  have h: "(if nb < 10 then 48 + ucast nb else 97 + (ucast nb - 10)) = hex_digit (m (Suc i) mod 16)"
  proof -
    have e: "ucast nb = (of_nat (unat nb) :: byte)" by simp
    have l: "nb < 10 \<longleftrightarrow> unat nb < 10" by (simp add: word_less_nat_alt)
    show ?thesis unfolding l e u hex_digit_def by simp
  qed
  have x: "hex (m (Suc i)) = (if m i = 0 then [] else hex (m i)) @ [hex_digit (m (Suc i) mod 16)]"
    unfolding d by (subst hex.simps) auto
  have "m (Suc i) = 0 \<longleftrightarrow> nb = 0 \<and> m i = 0" using z d by presburger
  then show ?thesis
    using PUTCHAR_printed [OF assms(1,2)] x h z
    by (auto simp: put_nibble_def Let_def nb_def [symmetric] hex_digit_def)
qed

lemma put_hex_printed:
  assumes "0 \<le> len" "len \<le> int (length b)"
  shows "put_hex len w (printed len b t) = Some (printed len b (t @ hex (unat w)))"
proof -
  let ?m = "\<lambda>i. unat w div 16 ^ (8 - i)"
  let ?s = "\<lambda>i. (?m i \<noteq> 0, printed len b (t @ (if ?m i = 0 then [] else hex (?m i))))"
  have "unat w < 2 ^ 32" using unsigned_less [of w] by simp
  then have z: "?m 0 = 0" by simp
  have "\<exists>s. foldM (put_nibble len w) [0..<8] (?s 0) = Some s \<and> s = ?s 8"
    by (rule foldM_upt_rule [where I = "\<lambda>i s. s = ?s i"]) (use put_nibble_printed [OF assms, of _ w t] in auto)
  then have "foldM (put_nibble len w) [0..<8] (False, printed len b t) = Some (?s 8)" using z by simp
  moreover have "hex 0 = [48]" by (subst hex.simps) (simp add: hex_digit_def)
  ultimately show ?thesis using PUTCHAR_printed [OF assms] by (simp add: put_hex_def)
qed

subsection \<open>Formats\<close>

text \<open>
  What a caller means: characters to print as they are, and conversions with their arguments.
  \<open>fmt\<close> is how it is written in the format, \<open>arg\<close> in the arguments, and \<open>shown\<close> is the text
  it stands for.
\<close>

datatype 'd piece = Plain byte | Percent | Decimal u32 | Char u32 | String "byte list" | Null | Hexadecimal u32 | Float 'd

primrec piece_ok :: "'d piece \<Rightarrow> bool" where
  "piece_ok (Plain c) \<longleftrightarrow> c \<noteq> 0 \<and> c \<noteq> 37"
| "piece_ok Percent \<longleftrightarrow> True"
| "piece_ok (Decimal w) \<longleftrightarrow> True"
| "piece_ok (Char w) \<longleftrightarrow> True"
| "piece_ok (String s) \<longleftrightarrow> 0 \<notin> set s"
| "piece_ok Null \<longleftrightarrow> True"
| "piece_ok (Hexadecimal w) \<longleftrightarrow> True"
| "piece_ok (Float x) \<longleftrightarrow> True"

primrec fmt :: "'d piece \<Rightarrow> byte list" where
  "fmt (Plain c) = [c]"
| "fmt Percent = [37, 37]"
| "fmt (Decimal w) = [37, 100]"
| "fmt (Char w) = [37, 99]"
| "fmt (String s) = [37, 115]"
| "fmt Null = [37, 115]"
| "fmt (Hexadecimal w) = [37, 120]"
| "fmt (Float x) = [37, 102]"

primrec arg :: "'d piece \<Rightarrow> 'd vararg list" where
  "arg (Plain c) = []"
| "arg Percent = []"
| "arg (Decimal w) = [V_int w]"
| "arg (Char w) = [V_int w]"
| "arg (String s) = [V_str (Some (s @ [0]))]"
| "arg Null = [V_str None]"
| "arg (Hexadecimal w) = [V_int w]"
| "arg (Float x) = [V_double x]"

primrec shown :: "('d \<Rightarrow> byte list) \<Rightarrow> 'd piece \<Rightarrow> byte list" where
  "shown fl (Plain c) = [c]"
| "shown fl Percent = [37]"
| "shown fl (Decimal w) = decimal (sint w)"
| "shown fl (Char w) = [ucast w]"
| "shown fl (String s) = s"
| "shown fl Null = map of_char ''(null)''"
| "shown fl (Hexadecimal w) = hex (unat w)"
| "shown fl (Float x) = fl x"

definition text_of :: "('d \<Rightarrow> byte list) \<Rightarrow> 'd piece list \<Rightarrow> byte list" where
  "text_of fl ps = concat (map (shown fl) ps)"

lemma put_str_printed:
  assumes "0 \<le> len" "len \<le> int (length b)" "0 \<notin> set s"
  shows "put_str len (s @ [0]) (printed len b t) = Some (printed len b (t @ s))"
  using assms(3) by (induction s arbitrary: t) (simp_all add: PUTCHAR_printed [OF assms(1,2)])

lemma format_piece:
  assumes "0 \<le> len" "len \<le> int (length b)" "piece_ok p" "rest \<noteq> []"
  shows "format_from fl len (fmt p @ rest) (arg p @ ap) (printed len b t)
    = format_from fl len rest ap (printed len b (t @ shown fl p))"
proof -
  obtain r rs where r: "rest = r # rs" using assms(4) by (cases rest) auto
  have n: "put_str len null_text (printed len b t) = Some (printed len b (t @ map of_char ''(null)''))"
    unfolding null_text_def by (rule put_str_printed [OF assms(1,2)]) simp
  note put = PUTCHAR_printed [OF assms(1,2)] PUTCHARs_printed [OF assms(1,2)] put_int_printed [OF assms(1,2)]
    put_hex_printed [OF assms(1,2)] put_str_printed [OF assms(1,2)] n
  show ?thesis using assms(3) by (cases p) (simp_all add: r put put_conversion_def del: put_str.simps)
qed

lemma format_pieces:
  assumes "0 \<le> len" "len \<le> int (length b)" "\<forall>p \<in> set ps. piece_ok p"
  shows "format_from fl len (concat (map fmt ps) @ 0 # rest) (concat (map arg ps) @ ap) (printed len b t)
    = Some (printed len b (t @ text_of fl ps))"
  using assms(3)
proof (induction ps arbitrary: t)
  case Nil
  have "format_from fl len (0 # rest) ap st = Some st" for st by (cases rest) simp_all
  then show ?case by (simp add: text_of_def)
next
  case (Cons p ps)
  then show ?case using format_piece [OF assms(1,2), of p "concat (map fmt ps) @ 0 # rest"] by (simp add: text_of_def)
qed

lemma snprintf_text:
  assumes "0 \<le> len" "len \<le> int (length b)" "\<forall>p \<in> set ps. piece_ok p"
  shows "n_snprintf fl (Some b) len (Some (concat (map fmt ps) @ 0 # rest)) (concat (map arg ps) @ ap)
    = (let t = text_of fl ps; u = take (nat (len - 1)) t
       in if b = [] then None else Some (int (length t), Some (u @ 0 # drop (Suc (length u)) b)))"
proof -
  define u where "u = take (nat (len - 1)) (text_of fl ps)"
  have s: "\<lparr>pbuf = b, pnext = 0, presult = 0\<rparr> = printed len b []" by (simp add: printed_def Let_def)
  have p: "printed len b (text_of fl ps) = \<lparr>pbuf = u @ drop (length u) b, pnext = int (length u), presult = int (length (text_of fl ps))\<rparr>"
    by (simp add: printed_def u_def Let_def)
  have l: "length u \<le> nat (len - 1)" by (simp add: u_def)
  have "aset (u @ drop (length u) b) (int (length u)) 0 = (if b = [] then None else Some (u @ 0 # drop (Suc (length u)) b))"
  proof (cases "b = []")
    case True
    then show ?thesis using l assms(2) by (simp add: aset_def)
  next
    case False
    then have "length u < length b" using l assms(1,2) by (cases "len = 0") (auto simp: nat_less_iff)
    then have "drop (length u) b = b ! length u # drop (Suc (length u)) b" by (simp add: Cons_nth_drop_Suc)
    then show ?thesis using False \<open>length u < length b\<close> by (simp add: aset_def list_update_append)
  qed
  then show ?thesis using assms(1)
    by (simp add: n_snprintf_def vsnprintf_def s format_pieces [OF assms(1-3)] p Let_def u_def [symmetric])
qed

text \<open>
  C23. Formatted output. For every format of plain characters and the conversions \<open>%%\<close>, \<open>%d\<close>, \<open>%c\<close>, \<open>%s\<close>,
  \<open>%x\<close> and \<open>%f\<close> with their arguments, \<open>n_snprintf\<close> returns the length of the text that it
  stands for, whatever the size of the buffer, and the buffer holds as much of the text as there is
  place for, then a zero; what is behind is untouched. With the size 0 nothing
  may be written, but the zero is, into the first byte, or past the end of an empty buffer.
\<close>
theorem snprintf_prints:
  assumes "0 \<le> len" "len \<le> int (length b)" "\<forall>p \<in> set ps. piece_ok p"
  shows "n_snprintf fl (Some b) len (Some (concat (map fmt ps) @ 0 # rest)) (concat (map arg ps) @ ap)
    = (let t = text_of fl ps; u = take (nat (len - 1)) t
       in if b = [] then None else Some (int (length t), Some (u @ 0 # drop (Suc (length u)) b)))"
  using assms by (rule snprintf_text)

subsection \<open>Reading numbers back\<close>

definition value_of :: "int \<Rightarrow> byte list \<Rightarrow> int" where
  "value_of v ds = foldl (\<lambda>v d. v * 10 + (uint d - 48)) v ds"

lemma value_of_digits: "value_of 0 (digits n) = int n"
proof (induction n rule: digits.induct)
  case (1 n)
  have d: "uint (48 + of_nat m :: byte) = 48 + int m" if "m < 10" for m :: nat
    using that by (simp add: uint_nat unat_word_ariths unat_of_nat)
  show ?case
  proof (cases "n < 10")
    case True
    then show ?thesis using d [of n] by (subst digits.simps) (simp add: value_of_def)
  next
    case False
    then show ?thesis using 1 d [of "n mod 10"] by (subst digits.simps) (simp add: value_of_def zdiv_int zmod_int)
  qed
qed

lemma value_of_mono: "0 \<le> v \<Longrightarrow> \<forall>d \<in> set ds. 48 \<le> uint d \<Longrightarrow> v \<le> value_of v ds"
proof (induction ds arbitrary: v)
  case (Cons d ds)
  then have "v * 10 + (uint d - 48) \<le> value_of (v * 10 + (uint d - 48)) ds" by (intro Cons.IH) auto
  then show ?case using Cons.prems by (simp add: value_of_def)
qed (simp add: value_of_def)

lemma sint_digit: "48 \<le> uint d \<Longrightarrow> uint d \<le> 57 \<Longrightarrow> sint (d :: byte) = uint d"
  by (simp add: sint_uint signed_take_bit_int_eq_self)

text \<open>
  A run of digits: its value, unless that is too large for an \<open>int\<close>.
\<close>

lemma atoi_digits:
  assumes "\<forall>d \<in> set ds. 48 \<le> uint d \<and> uint d \<le> 57" "mem = pre @ ds @ c # rest" "0 \<le> v" "int32 v"
    and "c = 0 \<or> sint c < 48 \<or> sint c > 57"
  shows "n_atoi_from mem (int (length pre)) v = checked (value_of v ds)"
  using assms(1-4)
proof (induction ds arbitrary: pre v)
  case Nil
  then show ?case using assms(5) by (subst n_atoi_from.simps) (simp add: aget_def value_of_def checked_def)
next
  case (Cons d ds)
  let ?v = "v * 10 + (uint d - 48)"
  have d: "48 \<le> uint d" "uint d \<le> 57" "sint d = uint d" using Cons.prems(1) sint_digit by auto
  then have nz: "d \<noteq> 0" by auto
  have g: "aget mem (int (length pre)) = Some d" unfolding Cons.prems(2) by (simp add: aget_def)
  have v: "value_of v (d # ds) = value_of ?v ds" by (simp add: value_of_def)
  have step: "n_atoi_from mem (int (length pre)) v
      = do { x \<leftarrow> checked (v * 10); y \<leftarrow> checked (x + (uint d - 48)); n_atoi_from mem (int (length pre) + 1) y }"
    by (subst n_atoi_from.simps) (use g d nz in simp)
  show ?case
  proof (cases "int32 ?v")
    case True
    then have "int32 (v * 10)" using Cons.prems(3) d by (simp add: int32_def)
    moreover have "n_atoi_from mem (int (length (pre @ [d]))) ?v = checked (value_of ?v ds)"
      by (rule Cons.IH) (use Cons.prems d True in auto)
    ultimately show ?thesis using True v step by (simp add: checked_def add.commute)
  next
    case False
    have "?v \<le> value_of ?v ds" using Cons.prems(1,3) d by (intro value_of_mono) auto
    then have "\<not> int32 (value_of ?v ds)" using False Cons.prems(3) d by (auto simp: int32_def)
    then show ?thesis using False v step by (auto simp: checked_def)
  qed
qed

lemma atoi_decimal:
  assumes "c = 0 \<or> sint c < 48 \<or> sint c > 57" "int32 i"
  shows "n_atoi (decimal i @ c # rest) 0 = (if i = - (2 ^ 31) then None else Some i)"
proof (cases "i < 0")
  case True
  let ?ds = "digits (nat (- i))"
  have "n_atoi_from ([45] @ ?ds @ c # rest) (int (length [45 :: byte])) 0 = checked (value_of 0 ?ds)"
    by (rule atoi_digits) (use assms(1) digits_digit in \<open>auto simp: int32_def\<close>)
  then have a: "n_atoi_from (45 # ?ds @ c # rest) 1 0 = checked (- i)" using True by (simp add: value_of_digits)
  have "n_atoi (decimal i @ c # rest) 0 = do { val \<leftarrow> checked (- i); checked (- val) }"
    using True a by (simp add: n_atoi_def decimal_def aget_def)
  also have "\<dots> = (if i = - (2 ^ 31) then None else Some i)" using assms(2) True by (auto simp: checked_def int32_def)
  finally show ?thesis .
next
  case False
  let ?ds = "digits (nat i)"
  have "?ds \<noteq> []" by (subst digits.simps) simp
  then obtain d ds where ds: "?ds = d # ds" by (cases ?ds) auto
  then have "48 \<le> uint d" using digits_digit [of d "nat i"] by simp
  then have "d \<noteq> 45" by auto
  moreover have "n_atoi_from ([] @ ?ds @ c # rest) (int (length ([] :: byte list))) 0 = checked (value_of 0 ?ds)"
    by (rule atoi_digits) (use assms(1) digits_digit in \<open>auto simp: int32_def\<close>)
  ultimately have "n_atoi (decimal i @ c # rest) 0 = checked i"
    using False ds value_of_digits [of "nat i"] by (simp add: n_atoi_def decimal_def aget_def)
  then show ?thesis using assms(2) False by (auto simp: checked_def int32_def)
qed

text \<open>
  C24. Numbers come back. Every 32-bit integer that a program prints with \<open>n_snprintf\<close> and \<open>%d\<close> into a
  buffer with place for it is what \<open>n_atoi\<close> reads from the buffer, but for the smallest one: its digits
  are printed, but \<open>n_atoi\<close> negates at the end, and its \<open>int\<close> overflows before.
\<close>
theorem printed_number_read_back:
  assumes "int (length (decimal (sint w))) < len" "len \<le> int (length b)"
  shows "\<exists>b'. n_snprintf fl (Some b) len (Some [37, 100, 0]) [V_int w] = Some (int (length (decimal (sint w))), Some b')
    \<and> n_atoi b' 0 = (if sint w = - (2 ^ 31) then None else Some (sint w))"
proof -
  let ?t = "decimal (sint w)"
  have l: "take (nat (len - 1)) ?t = ?t" "min (length ?t) (nat (len - 1)) = length ?t" using assms(1) by simp_all
  have "n_snprintf fl (Some b) len (Some (concat (map fmt [Decimal w]) @ 0 # [])) (concat (map arg [Decimal w]) @ [])
    = (let t = text_of fl [Decimal w]; u = take (nat (len - 1)) t
       in if b = [] then None else Some (int (length t), Some (u @ 0 # drop (Suc (length u)) b)))"
    using snprintf_text [of len b "[Decimal w]" fl "[]" "[]"] assms by simp
  moreover have "b \<noteq> []" using assms by auto
  ultimately have "n_snprintf fl (Some b) len (Some [37, 100, 0]) [V_int w]
    = Some (int (length ?t), Some (?t @ 0 # drop (Suc (length ?t)) b))" by (simp add: text_of_def l Let_def)
  then show ?thesis using atoi_decimal [of 0 "sint w"] int32_sint [of w] by simp
qed

subsection \<open>Examples\<close>

text \<open>\<open>%d%%\<close> and \<open>- 7\<close>, into a buffer of three bytes: the text is cut.\<close>

theorem snprintf_prints_witness:
  "n_snprintf (\<lambda>_ :: unit. []) (Some [1, 1, 1, 1]) 3 (Some [37, 100, 37, 37, 0]) [V_int (- 7)]
    = Some (3, Some [45, 55, 0, 1])"
proof -
  have "0 \<le> (3 :: int)" "(3 :: int) \<le> int (length [1 :: byte, 1, 1, 1])" "\<forall>p \<in> set [Decimal (- 7), Percent :: unit piece]. piece_ok p"
    by simp_all
  note n = snprintf_prints [OF this, of "\<lambda>_. []" "[]" "[]"]
  have "digits 7 = [55]" by (subst digits.simps) simp
  then have "text_of (\<lambda>_ :: unit. []) [Decimal (- 7), Percent] = [45, 55, 37]" by (simp add: text_of_def decimal_def)
  then show ?thesis using n by (simp add: Let_def)
qed

theorem printed_number_read_back_witness:
  "\<exists>b'. n_snprintf (\<lambda>_ :: unit. []) (Some (replicate 12 0)) 12 (Some [37, 100, 0]) [V_int (- 42)] = Some (3, Some b')
    \<and> n_atoi b' 0 = Some (- 42)"
proof -
  have "digits 42 = [52, 50]" by (subst digits.simps, subst digits.simps) simp
  then have d: "decimal (- 42) = [45, 52, 50]" by (simp add: decimal_def)
  have "int (length (decimal (sint (- 42 :: u32)))) < 12" "12 \<le> int (length (replicate 12 (0 :: byte)))"
    by (simp_all add: d)
  from printed_number_read_back [OF this, of "\<lambda>_. []"] show ?thesis by (simp add: d)
qed

end
