(* ===== verification/Nachos_ACIA.thy ===== *)
theory Nachos_ACIA
  imports Nachos_Interrupt
begin

text \<open>
  The serial line: the device (\<open>machine/ACIA.cc\<close>, \<open>machine/ACIA_sysdep.cc\<close>) and its driver
  (\<open>drivers/drvACIA.cc\<close>), on the interrupt hardware of \<open>Nachos_Interrupt\<close>.

  The socket of the host is \<open>incoming\<close>, what each \<open>ReadFromSocket\<close> finds, and \<open>sent\<close>, what has
  been given to \<open>SendToSocket\<close>. Of the two semaphores of the driver only the values are here: \<open>V\<close>
  adds one, and a call behind a \<open>P\<close> is made when the value is positive; where the thread
  would wait there is no value. Other devices are left out.
\<close>

subsection \<open>The device\<close>

datatype RegStatus = EMPTY | FULL

definition BUSY_WAITING :: u32 where "BUSY_WAITING = 0"
definition REC_INTERRUPT :: u32 where "REC_INTERRUPT = 1"
definition SEND_INTERRUPT :: u32 where "SEND_INTERRUPT = 2"
definition CHECK_TIME :: int where "CHECK_TIME = 1000"
definition SEND_TIME :: int where "SEND_TIME = 1000"
definition BUFFER_SIZE :: int where "BUFFER_SIZE = 256"

datatype acia_irq = DummyInterruptRec | DummyInterruptEm

record ACIA =
  outputRegister :: byte
  inputRegister :: byte
  inputStateRegister :: RegStatus
  outputStateRegister :: RegStatus
  mode :: u32

record serial = "acia_irq interrupts" +
  acia :: ACIA
  incoming :: "byte option list"
  sent :: "byte list"
  send_buffer :: "byte list"
  receive_buffer :: "byte list"
  send_sema :: int
  receive_sema :: int
  ind_send :: int
  ind_rec :: int

type_synonym 'a line_call = "'a serial_scheme \<Rightarrow> 'a serial_scheme option"

definition poll_later :: "config \<Rightarrow> 'a line_call" where
  "poll_later cfg s = Schedule DummyInterruptRec 0 (nano_to_cycles CHECK_TIME (ProcessorFrequency cfg)) ACIA_RECEIVE_INT s"

definition ACIA_new :: "config \<Rightarrow> 'a line_call" where
  "ACIA_new cfg s = poll_later cfg (s\<lparr>acia := \<lparr>outputRegister = 0, inputRegister = 0, inputStateRegister = EMPTY,
     outputStateRegister = EMPTY, mode = BUSY_WAITING\<rparr>\<rparr>)"

definition SetWorkingMode :: "u32 \<Rightarrow> 'a serial_scheme \<Rightarrow> 'a serial_scheme" where
  "SetWorkingMode m s = s\<lparr>acia := (acia s)\<lparr>mode := m\<rparr>\<rparr>"

definition GetWorkingMode :: "'a serial_scheme \<Rightarrow> u32" where
  "GetWorkingMode s = mode (acia s)"

definition Drain :: "'a serial_scheme \<Rightarrow> 'a serial_scheme" where
  "Drain s = s\<lparr>acia := (acia s)\<lparr>inputRegister := 0, inputStateRegister := EMPTY\<rparr>\<rparr>"

definition GetChar :: "'a serial_scheme \<Rightarrow> byte \<times> 'a serial_scheme" where
  "GetChar s = (inputRegister (acia s), Drain s)"

definition SendChar :: "config \<Rightarrow> 'a line_call" where
  "SendChar cfg s = Schedule DummyInterruptEm 0 (nano_to_cycles SEND_TIME (ProcessorFrequency cfg)) ACIA_SEND_INT
     (s\<lparr>acia := (acia s)\<lparr>outputStateRegister := FULL\<rparr>\<rparr>)"

definition PutChar :: "config \<Rightarrow> byte \<Rightarrow> 'a line_call" where
  "PutChar cfg c s = SendChar cfg (s\<lparr>acia := (acia s)\<lparr>outputRegister := c\<rparr>\<rparr>)"

subsection \<open>The interrupt handlers\<close>

definition InterruptSend :: "config \<Rightarrow> 'a line_call" where
  "InterruptSend cfg s = do {
     c \<leftarrow> aget (send_buffer s) (ind_send s);
     s1 \<leftarrow> PutChar cfg c s;
     let s2 = (if c = 0 then s1\<lparr>send_sema := send_sema s1 + 1\<rparr> else s1);
     Some (s2\<lparr>ind_send := ind_send s2 + 1\<rparr>) }"

definition InterruptReceive :: "'a line_call" where
  "InterruptReceive s = do {
     let (c, s1) = GetChar s;
     rb \<leftarrow> aset (receive_buffer s1) (ind_rec s1) c;
     let s2 = s1\<lparr>receive_buffer := rb\<rparr>;
     let s3 = (if c = 0 then (SetWorkingMode (GetWorkingMode s2 XOR REC_INTERRUPT) s2)\<lparr>receive_sema := receive_sema s2 + 1\<rparr> else s2);
     Some (s3\<lparr>ind_rec := ind_rec s3 + 1\<rparr>) }"

definition InterruptRec :: "config \<Rightarrow> 'a line_call" where
  "InterruptRec cfg s = do {
     s1 \<leftarrow> poll_later cfg s;
     (case incoming s1 of
        [] \<Rightarrow> Some s1
      | None # rs \<Rightarrow> Some (s1\<lparr>incoming := rs\<rparr>)
      | Some c # rs \<Rightarrow>
          (let s2 = s1\<lparr>incoming := rs, acia := (acia s1)\<lparr>inputRegister := c, inputStateRegister := FULL\<rparr>\<rparr>
           in if mode (acia s2) AND REC_INTERRUPT \<noteq> 0 then InterruptReceive s2 else Some s2)) }"

definition InterruptEm :: "config \<Rightarrow> 'a line_call" where
  "InterruptEm cfg s =
     (let s1 = s\<lparr>sent := sent s @ [outputRegister (acia s)],
                 acia := (acia s)\<lparr>outputRegister := 0, outputStateRegister := EMPTY\<rparr>\<rparr>
      in if mode (acia s1) AND SEND_INTERRUPT \<noteq> 0 then InterruptSend cfg s1 else Some s1)"

definition serial_call :: "config \<Rightarrow> (acia_irq, 'a serial_ext) device_call" where
  "serial_call cfg h arg s = (case h of DummyInterruptRec \<Rightarrow> InterruptRec cfg s | DummyInterruptEm \<Rightarrow> InterruptEm cfg s)"

subsection \<open>The driver\<close>

text \<open>The registers of state are read behind a tick.\<close>

definition line_tick :: "config \<Rightarrow> 'a line_call" where
  "line_tick cfg s = OneTick (serial_call cfg) (\<lambda>_. None) SYSTEM_TICK s"

definition GetInputStateReg :: "config \<Rightarrow> 'a serial_scheme \<Rightarrow> (RegStatus \<times> 'a serial_scheme) option" where
  "GetInputStateReg cfg s = do { s1 \<leftarrow> line_tick cfg s; Some (inputStateRegister (acia s1), s1) }"

definition GetOutputStateReg :: "config \<Rightarrow> 'a serial_scheme \<Rightarrow> (RegStatus \<times> 'a serial_scheme) option" where
  "GetOutputStateReg cfg s = do { s1 \<leftarrow> line_tick cfg s; Some (outputStateRegister (acia s1), s1) }"

text \<open>The argument is the field \<open>ACIA\<close> of the configuration, 1 or 2. The buffers and \<open>ind_send\<close> stay as they are.\<close>

definition DriverACIA_new :: "nat \<Rightarrow> 'a serial_scheme \<Rightarrow> 'a serial_scheme" where
  "DriverACIA_new acia_config s =
     (let s1 = s\<lparr>send_sema := 1\<rparr> in
      if acia_config = 1 then SetWorkingMode BUSY_WAITING (s1\<lparr>receive_sema := 1\<rparr>)
      else if acia_config = 2
      then (SetWorkingMode (SEND_INTERRUPT OR REC_INTERRUPT) (s1\<lparr>receive_sema := 0\<rparr>))\<lparr>ind_rec := 0\<rparr>
      else s1)"

partial_function (option) wait_output :: "config \<Rightarrow> 'a line_call" where
  "wait_output cfg s = do {
     (st, s1) \<leftarrow> GetOutputStateReg cfg s;
     if st \<noteq> EMPTY then wait_output cfg s1 else Some s1 }"

partial_function (option) wait_input :: "config \<Rightarrow> 'a line_call" where
  "wait_input cfg s = do {
     (st, s1) \<leftarrow> GetInputStateReg cfg s;
     if st = EMPTY then wait_input cfg s1 else Some s1 }"

partial_function (option) send_busy ::
  "config \<Rightarrow> byte list \<Rightarrow> int \<Rightarrow> 'a serial_scheme \<Rightarrow> (int \<times> 'a serial_scheme) option" where
  "send_busy cfg buff i s = do {
     s1 \<leftarrow> wait_output cfg s;
     c \<leftarrow> aget buff i;
     s2 \<leftarrow> PutChar cfg c s1;
     if c \<noteq> 0 then send_busy cfg buff (i + 1) s2 else Some (i + 1, s2) }"

function fill_buffer :: "byte list \<Rightarrow> int \<Rightarrow> byte list \<Rightarrow> (int \<times> byte list) option" where
  "fill_buffer buff i sb = do {
     c \<leftarrow> aget buff i;
     sb' \<leftarrow> aset sb i c;
     if c \<noteq> 0 \<and> i + 1 < BUFFER_SIZE then fill_buffer buff (i + 1) sb' else Some (i + 1, sb') }"
  by pat_completeness auto
termination by (relation "measure (\<lambda>(buff, i, sb). nat (BUFFER_SIZE - i))") auto

declare fill_buffer.simps [simp del]

definition DriverACIA_TtySend :: "config \<Rightarrow> byte list \<Rightarrow> 'a serial_scheme \<Rightarrow> (int \<times> 'a serial_scheme) option" where
  "DriverACIA_TtySend cfg buff s =
     (if send_sema s \<le> 0 then None
      else (let s1 = s\<lparr>send_sema := send_sema s - 1\<rparr> in
        if GetWorkingMode s1 = BUSY_WAITING then do {
          (i, s2) \<leftarrow> send_busy cfg buff 0 s1;
          Some (i, s2\<lparr>send_sema := send_sema s2 + 1\<rparr>) }
        else if GetWorkingMode s1 = REC_INTERRUPT OR SEND_INTERRUPT then do {
          (i, sb) \<leftarrow> fill_buffer buff 0 (send_buffer s1);
          sb' \<leftarrow> aset sb (i - 1) 0;
          let s2 = s1\<lparr>ind_send := 0, send_buffer := sb'\<rparr>;
          c \<leftarrow> aget (send_buffer s2) (ind_send s2);
          s3 \<leftarrow> PutChar cfg c s2;
          Some (i, s3\<lparr>ind_send := ind_send s3 + 1\<rparr>) }
        else None))"

partial_function (option) receive_busy ::
  "config \<Rightarrow> int \<Rightarrow> byte list \<Rightarrow> int \<Rightarrow> 'a serial_scheme \<Rightarrow> (int \<times> byte list \<times> 'a serial_scheme) option" where
  "receive_busy cfg lg buff i s = do {
     s1 \<leftarrow> wait_input cfg s;
     let (c, s2) = GetChar s1;
     buff' \<leftarrow> aset buff i c;
     if c \<noteq> 0 \<and> i + 1 < lg then receive_busy cfg lg buff' (i + 1) s2 else Some (i + 1, buff', s2) }"

function read_buffer :: "byte list \<Rightarrow> int \<Rightarrow> int \<Rightarrow> byte list \<Rightarrow> (int \<times> byte list) option" where
  "read_buffer rb lg i buff = do {
     c \<leftarrow> aget rb i;
     buff' \<leftarrow> aset buff i c;
     if c \<noteq> 0 \<and> i + 1 < lg then read_buffer rb lg (i + 1) buff' else Some (i + 1, buff') }"
  by pat_completeness auto
termination by (relation "measure (\<lambda>(rb, lg, i, buff). nat (lg - i))") auto

declare read_buffer.simps [simp del]

definition DriverACIA_TtyReceive ::
  "config \<Rightarrow> byte list \<Rightarrow> int \<Rightarrow> 'a serial_scheme \<Rightarrow> (int \<times> byte list \<times> 'a serial_scheme) option" where
  "DriverACIA_TtyReceive cfg buff lg s =
     (if lg \<le> 0 then Some (- 1, buff, s)
      else if receive_sema s \<le> 0 then None
      else (let s1 = s\<lparr>receive_sema := receive_sema s - 1\<rparr> in
        if GetWorkingMode s1 = BUSY_WAITING then do {
          (i, buff1, s2) \<leftarrow> receive_busy cfg lg buff 0 s1;
          buff2 \<leftarrow> aset buff1 (i - 1) 0;
          Some (i, buff2, s2\<lparr>receive_sema := receive_sema s2 + 1\<rparr>) }
        else if GetWorkingMode s1 = SEND_INTERRUPT then do {
          (i, buff1) \<leftarrow> read_buffer (receive_buffer s1) lg 0 buff;
          buff2 \<leftarrow> aset buff1 (i - 1) 0;
          Some (i, buff2, SetWorkingMode (SEND_INTERRUPT OR REC_INTERRUPT) (s1\<lparr>ind_rec := 0\<rparr>)) }
        else None))"

end
