(* ===== verification/Nachos_ACIAProps.thy ===== *)
theory Nachos_ACIAProps
  imports Nachos_ACIA
begin

text \<open>
  Messages over the serial line in interrupt mode: what goes out, what comes in, and what the
  driver does when the message has ended.
\<close>

subsection \<open>Single interrupts\<close>

lemma Schedule_ok: "0 < t \<Longrightarrow> \<exists>p. Schedule h a t ty s = Some (s\<lparr>pending := p\<rparr>)"
  by (auto simp: Schedule_def Let_def)

lemma line_times:
  assumes "0 < ProcessorFrequency cfg"
  shows "0 < nano_to_cycles SEND_TIME (ProcessorFrequency cfg)" "0 < nano_to_cycles CHECK_TIME (ProcessorFrequency cfg)"
  using assms by (simp_all add: nano_to_cycles_def SEND_TIME_def CHECK_TIME_def cint_simps)

lemma PutChar_ok:
  assumes "0 < ProcessorFrequency cfg"
  shows "\<exists>p. PutChar cfg c s = Some ((s\<lparr>acia := (acia s)\<lparr>outputRegister := c, outputStateRegister := FULL\<rparr>\<rparr>)\<lparr>pending := p\<rparr>)"
  using Schedule_ok [OF line_times(1) [OF assms]] by (simp add: PutChar_def SendChar_def)

definition emissions :: "config \<Rightarrow> nat \<Rightarrow> 'a line_call" where
  "emissions cfg n = foldM (\<lambda>_. InterruptEm cfg) [0..<n]"

definition receptions :: "config \<Rightarrow> nat \<Rightarrow> 'a line_call" where
  "receptions cfg n = foldM (\<lambda>_. InterruptRec cfg) [0..<n]"

text \<open>After \<open>k\<close> emissions the character \<open>k\<close> of the buffer is in the register.\<close>

definition sending :: "'a serial_scheme \<Rightarrow> nat \<Rightarrow> 'a serial_scheme \<Rightarrow> bool" where
  "sending s0 k s \<longleftrightarrow> send_buffer s = send_buffer s0 \<and> mode (acia s) = mode (acia s0) \<and> ind_send s = int k + 1
     \<and> outputRegister (acia s) = send_buffer s0 ! k \<and> sent s = sent s0 @ take k (send_buffer s0)
     \<and> send_sema s = send_sema s0 + int (count_list (take k (drop 1 (send_buffer s0))) 0)"

lemma emission:
  assumes "0 < ProcessorFrequency cfg" "mode (acia s0) AND SEND_INTERRUPT \<noteq> 0" "sending s0 k s"
  shows "Suc k < length (send_buffer s0) \<Longrightarrow> \<exists>s'. InterruptEm cfg s = Some s' \<and> sending s0 (Suc k) s'"
    and "Suc k = length (send_buffer s0) \<Longrightarrow> InterruptEm cfg s = None"
proof -
  note f = assms(3) [unfolded sending_def]
  let ?s = "s\<lparr>sent := sent s @ [outputRegister (acia s)], acia := (acia s)\<lparr>outputRegister := 0, outputStateRegister := EMPTY\<rparr>\<rparr>"
  have e: "InterruptEm cfg s = InterruptSend cfg ?s" using assms(2) f by (simp add: InterruptEm_def Let_def)
  show "Suc k = length (send_buffer s0) \<Longrightarrow> InterruptEm cfg s = None"
    using f unfolding e by (simp add: InterruptSend_def aget_def)
  assume k: "Suc k < length (send_buffer s0)"
  let ?c = "send_buffer s0 ! Suc k"
  have g: "aget (send_buffer ?s) (ind_send ?s) = Some ?c" using k f by (simp add: aget_def nat_add_distrib)
  obtain p where p: "PutChar cfg ?c ?s = Some ((?s\<lparr>acia := (acia ?s)\<lparr>outputRegister := ?c, outputStateRegister := FULL\<rparr>\<rparr>)\<lparr>pending := p\<rparr>)"
    using PutChar_ok [OF assms(1)] by blast
  have t: "take (Suc k) (drop (Suc 0) (send_buffer s0)) = take k (drop (Suc 0) (send_buffer s0)) @ [?c]"
    "take (Suc k) (send_buffer s0) = take k (send_buffer s0) @ [send_buffer s0 ! k]"
    using k by (simp_all add: take_Suc_conv_app_nth)
  show "\<exists>s'. InterruptEm cfg s = Some s' \<and> sending s0 (Suc k) s'"
    using f unfolding e InterruptSend_def g Option.bind.simps p Let_def
    by (auto simp: sending_def t count_list_append)
qed

lemma emissions_go_on:
  assumes "0 < ProcessorFrequency cfg" "mode (acia s0) AND SEND_INTERRUPT \<noteq> 0" "sending s0 0 s0"
  shows "n < length (send_buffer s0) \<Longrightarrow> \<exists>s. emissions cfg n s0 = Some s \<and> sending s0 n s"
    and "0 < length (send_buffer s0) \<Longrightarrow> emissions cfg (length (send_buffer s0)) s0 = None"
proof -
  show e: "\<exists>s. emissions cfg n s0 = Some s \<and> sending s0 n s" if "n < length (send_buffer s0)" for n
    unfolding emissions_def
    by (rule foldM_upt_rule [where I = "sending s0"]) (use emission(1) [OF assms(1,2)] assms(3) that in auto)
  assume "0 < length (send_buffer s0)"
  then obtain m where m: "length (send_buffer s0) = Suc m" by (cases "length (send_buffer s0)") auto
  obtain s where s: "foldM (\<lambda>_. InterruptEm cfg) [0..<m] s0 = Some s" "sending s0 m s"
    using e [of m] m by (auto simp: emissions_def)
  then show "emissions cfg (length (send_buffer s0)) s0 = None"
    using emission(2) [OF assms(1,2) s(2)] m by (simp add: emissions_def foldM_append)
qed

subsection \<open>The buffers\<close>

lemma fill_is_read: "fill_buffer buff i sb = read_buffer buff BUFFER_SIZE i sb"
proof (induction buff i sb rule: fill_buffer.induct)
  case (1 buff i sb)
  show ?case
  proof (cases "aget buff i")
    case (Some c)
    then show ?thesis using 1 by (cases "aset sb i c") (auto simp: fill_buffer.simps [of buff i] read_buffer.simps [of buff _ i])
  qed (simp add: fill_buffer.simps [of buff i] read_buffer.simps [of buff _ i])
qed

lemma read_message:
  assumes "0 \<notin> set msg" "length msg < length bt" "int (length pre + length msg) < lg"
  shows "read_buffer (pre @ msg @ 0 # rest) lg (int (length pre)) (pre @ bt)
    = Some (int (length pre + length msg) + 1, pre @ msg @ 0 # drop (Suc (length msg)) bt)"
  using assms
proof (induction msg arbitrary: pre bt)
  case Nil
  then obtain x bt' where "bt = x # bt'" by (cases bt) auto
  then show ?case by (subst read_buffer.simps) (simp add: aget_def aset_def)
next
  case (Cons c msg)
  then obtain x bt' where b: "bt = x # bt'" by (cases bt) auto
  have "read_buffer ((pre @ [c]) @ msg @ 0 # rest) lg (int (length (pre @ [c]))) ((pre @ [c]) @ bt')
      = Some (int (length (pre @ [c]) + length msg) + 1, (pre @ [c]) @ msg @ 0 # drop (Suc (length msg)) bt')"
    by (rule Cons.IH) (use Cons.prems b in auto)
  then show ?case using Cons.prems b
    by (subst read_buffer.simps) (simp add: aget_def aset_def add.commute)
qed

lemma mode_both: "REC_INTERRUPT OR SEND_INTERRUPT = (3 :: u32)" "SEND_INTERRUPT OR REC_INTERRUPT = (3 :: u32)"
  by (simp_all add: REC_INTERRUPT_def SEND_INTERRUPT_def)

text \<open>A message is taken over into the buffer, and its first character is on the way.\<close>

lemma TtySend_starts:
  assumes "0 < ProcessorFrequency cfg" "GetWorkingMode s = REC_INTERRUPT OR SEND_INTERRUPT"
    and "length (send_buffer s) = 256" "0 < send_sema s" "0 \<notin> set msg" "length msg < 256"
  shows "\<exists>s0. DriverACIA_TtySend cfg (msg @ 0 # rest) s = Some (int (length msg) + 1, s0) \<and> sending s0 0 s0
    \<and> send_buffer s0 = msg @ 0 # drop (Suc (length msg)) (send_buffer s) \<and> mode (acia s0) = 3
    \<and> sent s0 = sent s \<and> send_sema s0 = send_sema s - 1"
proof -
  let ?sb = "msg @ 0 # drop (Suc (length msg)) (send_buffer s)"
  let ?s2 = "s\<lparr>send_sema := send_sema s - 1, ind_send := 0, send_buffer := ?sb\<rparr>"
  have "read_buffer ([] @ msg @ 0 # rest) BUFFER_SIZE (int (length ([] :: byte list))) ([] @ send_buffer s)
    = Some (int (length ([] :: byte list) + length msg) + 1, [] @ msg @ 0 # drop (Suc (length msg)) (send_buffer s))"
    by (rule read_message) (use assms in \<open>auto simp: BUFFER_SIZE_def\<close>)
  then have fb: "fill_buffer (msg @ 0 # rest) 0 (send_buffer s) = Some (int (length msg) + 1, ?sb)" by (simp add: fill_is_read)
  have z: "aset ?sb (int (length msg) + 1 - 1) 0 = Some ?sb" using assms(3,6) by (simp add: aset_def)
  have m: "GetWorkingMode s = 3" "mode (acia s) = 3" using assms(2) mode_both by (simp_all add: GetWorkingMode_def)
  obtain p where p: "PutChar cfg (?sb ! 0) ?s2 = Some ((?s2\<lparr>acia := (acia ?s2)\<lparr>outputRegister := ?sb ! 0, outputStateRegister := FULL\<rparr>\<rparr>)\<lparr>pending := p\<rparr>)"
    using PutChar_ok [OF assms(1)] by blast
  let ?s3 = "(?s2\<lparr>acia := (acia ?s2)\<lparr>outputRegister := ?sb ! 0, outputStateRegister := FULL\<rparr>\<rparr>)\<lparr>pending := p\<rparr>"
  have g: "aget ?sb 0 = Some (?sb ! 0)" by (simp add: aget_def)
  have "DriverACIA_TtySend cfg (msg @ 0 # rest) s = Some (int (length msg) + 1, ?s3\<lparr>ind_send := ind_send ?s3 + 1\<rparr>)"
    using assms(4) fb z g p m mode_both
    by (simp add: DriverACIA_TtySend_def GetWorkingMode_def BUSY_WAITING_def Let_def)
  then show ?thesis using m(2) by (intro exI [of _ "?s3\<lparr>ind_send := ind_send ?s3 + 1\<rparr>"]) (simp add: sending_def)
qed

text \<open>
  C39. Sending never ends. In interrupt mode \<open>TtySend\<close> takes over a message of less than 256 characters
  and returns its length with the zero. The emission interrupts that follow put the message and
  its zero on the line, in order; but nothing stops the handler there: it goes on with what is left
  in the buffer from earlier messages, releases the semaphore once more for every zero it meets, and after 256
  characters reads past the end of the buffer.
\<close>
theorem sending_never_ends:
  assumes "0 < ProcessorFrequency cfg" "GetWorkingMode s = REC_INTERRUPT OR SEND_INTERRUPT"
    and "length (send_buffer s) = 256" "0 < send_sema s" "0 \<notin> set msg" "length msg < 256"
  shows "let buf = msg @ 0 # drop (Suc (length msg)) (send_buffer s) in
    \<exists>s0. DriverACIA_TtySend cfg (msg @ 0 # rest) s = Some (int (length msg) + 1, s0)
    \<and> (\<forall>k < 256. \<exists>s'. emissions cfg k s0 = Some s' \<and> sent s' = sent s @ take k buf
        \<and> send_sema s' = send_sema s - 1 + int (count_list (take k (drop 1 buf)) 0))
    \<and> emissions cfg 256 s0 = None"
proof -
  obtain s0 where s0: "DriverACIA_TtySend cfg (msg @ 0 # rest) s = Some (int (length msg) + 1, s0)" "sending s0 0 s0"
    "send_buffer s0 = msg @ 0 # drop (Suc (length msg)) (send_buffer s)" "mode (acia s0) = 3" "sent s0 = sent s"
    "send_sema s0 = send_sema s - 1" using TtySend_starts [OF assms] by blast
  have m: "mode (acia s0) AND SEND_INTERRUPT \<noteq> 0" by (simp add: s0(4) SEND_INTERRUPT_def)
  have l: "length (send_buffer s0) = 256" using assms(3,6) by (simp add: s0(3))
  have "\<exists>s'. emissions cfg k s0 = Some s' \<and> sent s' = sent s @ take k (send_buffer s0)
        \<and> send_sema s' = send_sema s - 1 + int (count_list (take k (drop 1 (send_buffer s0))) 0)" if k: "k < 256" for k
    using emissions_go_on(1) [OF assms(1) m s0(2), of k] k l s0(5,6) by (auto simp: sending_def)
  moreover have "emissions cfg 256 s0 = None" using emissions_go_on(2) [OF assms(1) m s0(2)] l by simp
  ultimately show ?thesis using s0(1) unfolding Let_def s0(3) [symmetric] by blast
qed

subsection \<open>Receiving\<close>

definition receiving :: "byte list \<Rightarrow> 'a serial_scheme \<Rightarrow> nat \<Rightarrow> 'a serial_scheme \<Rightarrow> bool" where
  "receiving bytes r0 k r \<longleftrightarrow> receive_buffer r = take k bytes @ drop k (receive_buffer r0) \<and> ind_rec r = int k
     \<and> (\<exists>more. incoming r = map Some (drop k bytes) @ more)
     \<and> (if k < length bytes then mode (acia r) = 3 \<and> receive_sema r = receive_sema r0
        else mode (acia r) = 2 \<and> receive_sema r = receive_sema r0 + 1)"

lemma reception:
  assumes "0 < ProcessorFrequency cfg" "0 \<notin> set msg" "length msg < length (receive_buffer r0)"
    and "receiving (msg @ [0]) r0 k r" "k < Suc (length msg)"
  shows "\<exists>r'. InterruptRec cfg r = Some r' \<and> receiving (msg @ [0]) r0 (Suc k) r'"
proof -
  let ?bytes = "msg @ [0 :: byte]"
  let ?c = "?bytes ! k"
  note f = assms(4) [unfolded receiving_def]
  have kl: "k < length ?bytes" using assms(5) by simp
  have d: "drop k ?bytes = ?c # drop (Suc k) ?bytes" by (rule Cons_nth_drop_Suc [OF kl, symmetric])
  obtain p where p: "poll_later cfg r = Some (r\<lparr>pending := p\<rparr>)"
    unfolding poll_later_def using Schedule_ok [OF line_times(2) [OF assms(1)], of DummyInterruptRec 0 ACIA_RECEIVE_INT r] by blast
  obtain more where i: "incoming r = Some ?c # map Some (drop (Suc k) ?bytes) @ more" using f unfolding d by auto
  have m: "mode (acia r) = 3" "receive_sema r = receive_sema r0" using f kl by auto
  have c: "?c = 0 \<longleftrightarrow> k = length msg" using assms(2,5) by (auto simp: nth_append dest: nth_mem)
  let ?rb = "take (Suc k) ?bytes @ drop (Suc k) (receive_buffer r0)"
  have "length (take k ?bytes) = k" "k < length (receive_buffer r0)" using assms(3,5) by simp_all
  then have "aset (take k ?bytes @ drop k (receive_buffer r0)) (int k) ?c = Some ((take k ?bytes @ [?c]) @ drop (Suc k) (receive_buffer r0))"
    by (simp only: aset_def list_update_append) (simp add: Cons_nth_drop_Suc [symmetric])
  then have "aset (take k ?bytes @ drop k (receive_buffer r0)) (int k) ?c = Some ?rb"
    by (simp only: take_Suc_conv_app_nth [OF kl])
  then have s: "aset (receive_buffer r) (ind_rec r) ?c = Some ?rb" using f by simp
  have x: "(3 :: u32) AND REC_INTERRUPT \<noteq> 0" "3 XOR REC_INTERRUPT = (2 :: u32)" by (simp_all add: REC_INTERRUPT_def)
  show ?thesis
    using p i m s x c assms(5) f
    by (auto simp: InterruptRec_def InterruptReceive_def GetChar_def Drain_def SetWorkingMode_def GetWorkingMode_def Let_def receiving_def)
qed

lemma receptions_ok:
  assumes "0 < ProcessorFrequency cfg" "0 \<notin> set msg" "length msg < length (receive_buffer r0)" "receiving (msg @ [0]) r0 0 r0"
  shows "\<exists>r. receptions cfg (Suc (length msg)) r0 = Some r \<and> receiving (msg @ [0]) r0 (Suc (length msg)) r"
  unfolding receptions_def
  by (rule foldM_upt_rule [where I = "receiving (msg @ [0]) r0"]) (use reception [OF assms(1-3)] assms(4) in auto)

text \<open>
  C21. A message from one machine to another. A machine sends a message of less than 255 characters;
  its interrupts put bytes on the line, one each. When the driver of the other machine, in interrupt mode
  with nothing received, gets these bytes from its socket, one interrupt each, \<open>TtyReceive\<close> with a
  buffer that is large enough returns the message and its zero, and the driver is ready for the next
  one. Until then it can not send: \<open>TtySend\<close> ends the simulator, since receiving is switched off
  and the test of the mode fails.
\<close>
theorem serial_line_roundtrip:
  assumes "0 < ProcessorFrequency cfg" "GetWorkingMode s = REC_INTERRUPT OR SEND_INTERRUPT"
    and "length (send_buffer s) = 256" "0 < send_sema s" "0 \<notin> set msg" "length msg < 255"
    and "GetWorkingMode r = REC_INTERRUPT OR SEND_INTERRUPT" "length (receive_buffer r) = 256" "ind_rec r = 0" "0 \<le> receive_sema r"
    and "int (length msg) < lg" "length msg < length buff"
  shows "\<exists>s0 s1 bytes. DriverACIA_TtySend cfg (msg @ 0 # rest) s = Some (int (length msg) + 1, s0)
    \<and> emissions cfg (Suc (length msg)) s0 = Some s1 \<and> sent s1 = sent s @ bytes
    \<and> (incoming r = map Some bytes @ later \<longrightarrow> (\<exists>r1 r2 buff'. receptions cfg (length bytes) r = Some r1
        \<and> DriverACIA_TtyReceive cfg buff lg r1 = Some (int (length msg) + 1, buff', r2)
        \<and> take (Suc (length msg)) buff' = msg @ [0]
        \<and> GetWorkingMode r2 = REC_INTERRUPT OR SEND_INTERRUPT \<and> ind_rec r2 = 0 \<and> receive_sema r2 = receive_sema r
        \<and> DriverACIA_TtySend cfg text r1 = None))"
proof -
  let ?bytes = "msg @ [0 :: byte]" and ?n = "Suc (length msg)"
  obtain s0 where s0: "DriverACIA_TtySend cfg (msg @ 0 # rest) s = Some (int (length msg) + 1, s0)" "sending s0 0 s0"
    "send_buffer s0 = msg @ 0 # drop ?n (send_buffer s)" "mode (acia s0) = 3" "sent s0 = sent s"
    using TtySend_starts [OF assms(1-5), of rest] assms(6) by auto
  have m: "mode (acia s0) AND SEND_INTERRUPT \<noteq> 0" by (simp add: s0(4) SEND_INTERRUPT_def)
  obtain s1 where s1: "emissions cfg ?n s0 = Some s1" "sent s1 = sent s @ ?bytes"
    using emissions_go_on(1) [OF assms(1) m s0(2), of ?n] assms(3,6) s0(3,5) by (auto simp: sending_def)
  have "\<exists>r1 r2 buff'. receptions cfg (length ?bytes) r = Some r1
      \<and> DriverACIA_TtyReceive cfg buff lg r1 = Some (int (length msg) + 1, buff', r2) \<and> take ?n buff' = ?bytes
      \<and> GetWorkingMode r2 = REC_INTERRUPT OR SEND_INTERRUPT \<and> ind_rec r2 = 0 \<and> receive_sema r2 = receive_sema r
      \<and> DriverACIA_TtySend cfg text r1 = None" if i: "incoming r = map Some ?bytes @ later"
  proof -
    have lr: "length msg < length (receive_buffer r)" using assms(6,8) by simp
    have "receiving ?bytes r 0 r" using i assms(7,9) mode_both by (auto simp: receiving_def GetWorkingMode_def)
    then obtain r1 where r1: "receptions cfg ?n r = Some r1" "receiving ?bytes r ?n r1"
      using receptions_ok [OF assms(1,5) lr] by blast
    note f = r1(2) [unfolded receiving_def]
    have rb: "receive_buffer r1 = [] @ msg @ 0 # drop ?n (receive_buffer r)" using f by simp
    have f2: "mode (acia r1) = 2" "receive_sema r1 = receive_sema r + 1" using f by simp_all
    let ?b = "msg @ 0 # drop ?n buff"
    have rd: "read_buffer (receive_buffer r1) lg 0 buff = Some (int (length msg) + 1, ?b)"
      using read_message [OF assms(5), of buff "[]" lg] assms(11,12) by (simp add: rb)
    have z: "aset ?b (int (length msg) + 1 - 1) 0 = Some ?b" using assms(12) by (simp add: aset_def)
    have n: "(2 :: u32) \<noteq> BUSY_WAITING" "(2 :: u32) = SEND_INTERRUPT" "(2 :: u32) \<noteq> REC_INTERRUPT OR SEND_INTERRUPT"
      unfolding mode_both by (simp_all add: BUSY_WAITING_def SEND_INTERRUPT_def)
    have "DriverACIA_TtyReceive cfg buff lg r1 = Some (int (length msg) + 1, ?b,
        SetWorkingMode (SEND_INTERRUPT OR REC_INTERRUPT) (r1\<lparr>receive_sema := receive_sema r, ind_rec := 0\<rparr>))"
      using assms(10,11) f2 rd z n by (simp add: DriverACIA_TtyReceive_def GetWorkingMode_def Let_def)
    moreover have "DriverACIA_TtySend cfg text r1 = None"
      using f2(1) n by (simp add: DriverACIA_TtySend_def GetWorkingMode_def Let_def)
    ultimately show ?thesis using r1(1) mode_both by (auto simp: SetWorkingMode_def GetWorkingMode_def)
  qed
  then show ?thesis using s0(1) s1 by blast
qed

subsection \<open>An example\<close>

text \<open>Two machines behind the constructors of device and driver, in interrupt mode; \<open>hi\<close> is on its way to the second.\<close>

definition demo_serial :: "byte option list \<Rightarrow> serial" where
  "demo_serial ins = interrupts.extend
     (machine.extend (Machine_new tiny_cfg) (interrupts.fields INTERRUPTS_OFF [] False False))
     (serial.fields \<lparr>outputRegister = 0, inputRegister = 0, inputStateRegister = EMPTY, outputStateRegister = EMPTY, mode = 3\<rparr>
        ins [] (replicate 256 0) (replicate 256 0) 1 0 0 0)"

lemma demo_serial_parts:
  "GetWorkingMode (demo_serial ins) = 3" "length (send_buffer (demo_serial ins)) = 256" "send_sema (demo_serial ins) = 1"
  "length (receive_buffer (demo_serial ins)) = 256" "ind_rec (demo_serial ins) = 0" "receive_sema (demo_serial ins) = 0"
  "incoming (demo_serial ins) = ins" "sent (demo_serial ins) = []" "send_buffer (demo_serial ins) = replicate 256 0"
  by (simp_all add: demo_serial_def GetWorkingMode_def machine.defs interrupts.defs serial.defs)

lemma tiny_frequency: "0 < ProcessorFrequency tiny_cfg"
  by (simp add: tiny_cfg_def)

theorem sending_never_ends_witness:
  "\<exists>s0 s'. DriverACIA_TtySend tiny_cfg [104, 105, 0] (demo_serial []) = Some (3, s0)
     \<and> emissions tiny_cfg 5 s0 = Some s' \<and> sent s' = [104, 105, 0, 0, 0] \<and> send_sema s' = 4"
proof -
  have "GetWorkingMode (demo_serial []) = REC_INTERRUPT OR SEND_INTERRUPT" by (simp only: mode_both demo_serial_parts)
  moreover have "0 < send_sema (demo_serial [])" "(0 :: byte) \<notin> set [104, 105]" "length [104 :: byte, 105] < 256"
    by (simp_all add: demo_serial_parts)
  ultimately obtain s0 where s0: "DriverACIA_TtySend tiny_cfg ([104, 105] @ 0 # []) (demo_serial []) = Some (int (length [104 :: byte, 105]) + 1, s0)"
    "\<forall>k < 256. \<exists>s'. emissions tiny_cfg k s0 = Some s' \<and> sent s' = sent (demo_serial []) @ take k ([104, 105] @ 0 # drop (Suc (length [104 :: byte, 105])) (send_buffer (demo_serial [])))
        \<and> send_sema s' = send_sema (demo_serial []) - 1 + int (count_list (take k (drop 1 ([104, 105] @ 0 # drop (Suc (length [104 :: byte, 105])) (send_buffer (demo_serial []))))) 0)"
    using sending_never_ends [OF tiny_frequency _ demo_serial_parts(2), of "[]" "[104, 105]" "[]"] unfolding Let_def by blast
  have two: "replicate 2 (0 :: byte) = [0, 0]" "replicate 3 (0 :: byte) = [0, 0, 0]" by (simp_all add: eval_nat_numeral)
  have "(5 :: nat) < 256" by simp
  with s0(2) obtain s' where "emissions tiny_cfg 5 s0 = Some s'"
    "sent s' = sent (demo_serial []) @ take 5 ([104, 105] @ 0 # drop (Suc (length [104 :: byte, 105])) (send_buffer (demo_serial [])))"
    "send_sema s' = send_sema (demo_serial []) - 1 + int (count_list (take 5 (drop 1 ([104, 105] @ 0 # drop (Suc (length [104 :: byte, 105])) (send_buffer (demo_serial []))))) 0)"
    by blast
  then have "DriverACIA_TtySend tiny_cfg [104, 105, 0] (demo_serial []) = Some (3, s0) \<and> emissions tiny_cfg 5 s0 = Some s'
      \<and> sent s' = [104, 105, 0, 0, 0] \<and> send_sema s' = 4"
    using s0(1) two by (simp add: demo_serial_parts)
  then show ?thesis by blast
qed

theorem serial_line_roundtrip_witness:
  "\<exists>r1 r2 buff'. receptions tiny_cfg 3 (demo_serial [Some 104, Some 105, Some 0]) = Some r1
     \<and> DriverACIA_TtyReceive tiny_cfg (replicate 9 1) 8 r1 = Some (3, buff', r2) \<and> take 3 buff' = [104, 105, 0]"
proof -
  let ?r = "demo_serial [Some 104, Some 105, Some 0]"
  have m: "GetWorkingMode (demo_serial ins) = REC_INTERRUPT OR SEND_INTERRUPT" for ins by (simp only: mode_both demo_serial_parts)
  have h: "0 < send_sema (demo_serial [])" "(0 :: byte) \<notin> set [104, 105]" "length [104 :: byte, 105] < 255"
    "0 \<le> receive_sema ?r" "int (length [104 :: byte, 105]) < 8" "length [104 :: byte, 105] < length (replicate 9 (1 :: byte))"
    by (simp_all add: demo_serial_parts)
  obtain s0 s1 bytes where s: "emissions tiny_cfg (Suc (length [104 :: byte, 105])) s0 = Some s1" "sent s1 = sent (demo_serial []) @ bytes"
    "DriverACIA_TtySend tiny_cfg ([104, 105] @ 0 # []) (demo_serial []) = Some (int (length [104 :: byte, 105]) + 1, s0)"
    "incoming ?r = map Some bytes @ [] \<longrightarrow> (\<exists>r1 r2 buff'. receptions tiny_cfg (length bytes) ?r = Some r1
        \<and> DriverACIA_TtyReceive tiny_cfg (replicate 9 1) 8 r1 = Some (int (length [104 :: byte, 105]) + 1, buff', r2)
        \<and> take (Suc (length [104 :: byte, 105])) buff' = [104, 105] @ [0]
        \<and> GetWorkingMode r2 = REC_INTERRUPT OR SEND_INTERRUPT \<and> ind_rec r2 = 0 \<and> receive_sema r2 = receive_sema ?r
        \<and> DriverACIA_TtySend tiny_cfg [] r1 = None)"
    using serial_line_roundtrip [OF tiny_frequency m demo_serial_parts(2) h(1-3) m demo_serial_parts(4,5) h(4-6), of "[]" "[]" "[]"]
    by blast
  obtain t0 t1 where t: "DriverACIA_TtySend tiny_cfg ([104, 105] @ 0 # []) (demo_serial []) = Some (int (length [104 :: byte, 105]) + 1, t0)"
    "sending t0 0 t0" "send_buffer t0 = [104, 105] @ 0 # drop 3 (send_buffer (demo_serial []))" "mode (acia t0) = 3" "sent t0 = []"
    using TtySend_starts [OF tiny_frequency m demo_serial_parts(2) h(1,2), of "[]"] h(3) by (auto simp: demo_serial_parts)
  have "bytes = [104, 105, 0]"
    using emissions_go_on(1) [OF tiny_frequency _ t(2), of 3] s(1-3) t by (auto simp: sending_def SEND_INTERRUPT_def demo_serial_parts eval_nat_numeral)
  then show ?thesis using s(4) by (auto simp: demo_serial_parts eval_nat_numeral)
qed

end
