(* ===== verification/Nachos_Console.thy ===== *)
theory Nachos_Console
  imports Nachos_Interrupt
begin

text \<open>
  The console: the device (\<open>machine/console.cc\<close>) and its driver (\<open>drivers/drvConsole.cc\<close>), on
  the interrupt hardware of \<open>Nachos_Interrupt\<close>.

  The files of the host are \<open>keyboard\<close>, what each \<open>PollFile\<close> finds, and \<open>display\<close>, what has been
  given to \<open>WriteFile\<close>. The thread that calls the driver is the only one that can run: while it
  sleeps on a semaphore of the driver the processor is idle, and it gets the processor back as
  soon as it is ready. A lock that is taken thus has no value. Switching to the same
  thread costs no time here. Other devices are left out.
\<close>

subsection \<open>The device\<close>

datatype console_irq = ConsoleReadPoll | ConsoleWriteDone

record Console =
  intState :: bool
  putBusy :: bool
  incoming :: byte

text \<open>The end of file as a \<open>char\<close>. It says that no character is buffered.\<close>

definition EOF :: byte where "EOF = - 1"

datatype side = Get | Put

text \<open>A semaphore, and whether the thread is in its queue.\<close>

record sema =
  svalue :: int
  waits :: bool

record terminal = "console_irq interrupts" +
  console :: Console
  keyboard :: "byte option list"
  display :: "byte list"
  semas :: "side \<Rightarrow> sema"
  mutex_free :: "side \<Rightarrow> bool"

type_synonym 'a tty_call = "'a terminal_scheme \<Rightarrow> 'a terminal_scheme option"

definition Console_new :: "'a terminal_scheme \<Rightarrow> 'a terminal_scheme" where
  "Console_new s = s\<lparr>console := \<lparr>intState = False, putBusy = False, incoming = EOF\<rparr>\<rparr>"

definition console_later :: "config \<Rightarrow> console_irq \<Rightarrow> IntType \<Rightarrow> 'a tty_call" where
  "console_later cfg h ty s = Schedule h 0 (nano_to_cycles CONSOLE_TIME (ProcessorFrequency cfg)) ty s"

text \<open>
  \<open>V\<close> wakes the thread that waits. The handlers call it with interrupts off, so that
  \<open>SetStatus\<close> changes nothing there.
\<close>

definition sema_V :: "side \<Rightarrow> 'a terminal_scheme \<Rightarrow> 'a terminal_scheme" where
  "sema_V x s = s\<lparr>semas := (semas s)(x := \<lparr>svalue = svalue (semas s x) + 1, waits = False\<rparr>)\<rparr>"

definition GetAChar :: "'a terminal_scheme \<Rightarrow> 'a terminal_scheme" where "GetAChar s = sema_V Get s"
definition PutAChar :: "'a terminal_scheme \<Rightarrow> 'a terminal_scheme" where "PutAChar s = sema_V Put s"

definition CheckCharAvail :: "config \<Rightarrow> 'a tty_call" where
  "CheckCharAvail cfg s = do {
     s1 \<leftarrow> (if intState (console s) then console_later cfg ConsoleReadPoll CONSOLE_READ_INT s else Some s);
     if incoming (console s1) \<noteq> EOF then Some s1
     else (case keyboard s1 of
        [] \<Rightarrow> Some s1
      | None # ks \<Rightarrow> Some (s1\<lparr>keyboard := ks\<rparr>)
      | Some c # ks \<Rightarrow> Some (GetAChar (s1\<lparr>keyboard := ks, console := (console s1)\<lparr>incoming := c\<rparr>\<rparr>))) }"

definition WriteDone :: "'a terminal_scheme \<Rightarrow> 'a terminal_scheme" where
  "WriteDone s = PutAChar (s\<lparr>console := (console s)\<lparr>putBusy := False\<rparr>\<rparr>)"

definition console_call :: "config \<Rightarrow> (console_irq, 'a terminal_ext) device_call" where
  "console_call cfg h arg s = (case h of ConsoleReadPoll \<Rightarrow> CheckCharAvail cfg s | ConsoleWriteDone \<Rightarrow> Some (WriteDone s))"

definition Console_GetChar :: "'a terminal_scheme \<Rightarrow> byte \<times> 'a terminal_scheme" where
  "Console_GetChar s = (incoming (console s), s\<lparr>console := (console s)\<lparr>incoming := EOF\<rparr>\<rparr>)"

definition Console_PutChar :: "config \<Rightarrow> byte \<Rightarrow> 'a tty_call" where
  "Console_PutChar cfg ch s =
     (if putBusy (console s) then None
      else console_later cfg ConsoleWriteDone CONSOLE_WRITE_INT
        (s\<lparr>display := display s @ [ch], console := (console s)\<lparr>putBusy := True\<rparr>\<rparr>))"

definition EnableInterrupt :: "config \<Rightarrow> 'a tty_call" where
  "EnableInterrupt cfg s = console_later cfg ConsoleReadPoll CONSOLE_READ_INT (s\<lparr>console := (console s)\<lparr>intState := True\<rparr>\<rparr>)"

definition DisableInterrupt :: "'a terminal_scheme \<Rightarrow> 'a terminal_scheme" where
  "DisableInterrupt s = s\<lparr>console := (console s)\<lparr>intState := False\<rparr>\<rparr>"

subsection \<open>The driver\<close>

definition DriverConsole_new :: "'a terminal_scheme \<Rightarrow> 'a terminal_scheme" where
  "DriverConsole_new s = s\<lparr>semas := (\<lambda>_. \<lparr>svalue = 0, waits = False\<rparr>), mutex_free := (\<lambda>_. True)\<rparr>"

definition tty_level :: "config \<Rightarrow> IntStatus \<Rightarrow> 'a tty_call" where
  "tty_level cfg l s = map_option snd (SetStatus (console_call cfg) (\<lambda>_. None) l s)"

partial_function (option) asleep :: "config \<Rightarrow> side \<Rightarrow> 'a tty_call" where
  "asleep cfg x s =
     (if waits (semas s x) then do { s1 \<leftarrow> Idle (console_call cfg) s; asleep cfg x s1 } else Some s)"

definition sema_P :: "config \<Rightarrow> side \<Rightarrow> 'a tty_call" where
  "sema_P cfg x s = do {
     s1 \<leftarrow> tty_level cfg INTERRUPTS_OFF s;
     s2 \<leftarrow> (if svalue (semas s1 x) \<le> 0
           then asleep cfg x (s1\<lparr>semas := (semas s1)(x := (semas s1 x)\<lparr>waits := True\<rparr>)\<rparr>) else Some s1);
     tty_level cfg (level s) (s2\<lparr>semas := (semas s2)(x := (semas s2 x)\<lparr>svalue := svalue (semas s2 x) - 1\<rparr>)\<rparr>) }"

definition mutex_Acquire :: "config \<Rightarrow> side \<Rightarrow> 'a tty_call" where
  "mutex_Acquire cfg x s = do {
     s1 \<leftarrow> tty_level cfg INTERRUPTS_OFF s;
     if mutex_free s1 x then tty_level cfg (level s) (s1\<lparr>mutex_free := (mutex_free s1)(x := False)\<rparr>) else None }"

definition mutex_Release :: "config \<Rightarrow> side \<Rightarrow> 'a tty_call" where
  "mutex_Release cfg x s = do {
     s1 \<leftarrow> tty_level cfg INTERRUPTS_OFF s;
     tty_level cfg (level s) (s1\<lparr>mutex_free := (mutex_free s1)(x := True)\<rparr>) }"

text \<open>A counter of the process of the current thread.\<close>

definition count_char :: "(ProcessStat \<Rightarrow> ProcessStat) \<Rightarrow> 'a terminal_scheme \<Rightarrow> 'a terminal_scheme" where
  "count_char f s = s\<lparr>process_stat := (process_stat s)(current_process s := f (process_stat s (current_process s)))\<rparr>"

definition put_one :: "config \<Rightarrow> byte list \<Rightarrow> nat \<Rightarrow> 'a tty_call" where
  "put_one cfg buffer i s = do {
     c \<leftarrow> aget buffer (int i);
     s1 \<leftarrow> Console_PutChar cfg c (count_char incrNumCharWritten s);
     sema_P cfg Put s1 }"

definition DriverConsole_PutString :: "config \<Rightarrow> byte list \<Rightarrow> int \<Rightarrow> 'a tty_call" where
  "DriverConsole_PutString cfg buffer nbcar s = do {
     s1 \<leftarrow> mutex_Acquire cfg Put s;
     s2 \<leftarrow> foldM (put_one cfg buffer) [0..<nat nbcar] s1;
     mutex_Release cfg Put s2 }"

text \<open>The loop returns \<open>i\<close>, the buffer and the state; \<open>c\<close> is the last character, 0 at first.\<close>

function get_from ::
  "config \<Rightarrow> int \<Rightarrow> byte \<Rightarrow> int \<Rightarrow> byte list \<Rightarrow> 'a terminal_scheme \<Rightarrow> (int \<times> byte list \<times> 'a terminal_scheme) option" where
  "get_from cfg nbcar c i buffer s =
     (if i < nbcar \<and> c \<noteq> 10
      then do {
        s1 \<leftarrow> sema_P cfg Get (count_char incrNumCharRead s);
        let (c', s2) = Console_GetChar s1;
        buffer' \<leftarrow> aset buffer i c';
        get_from cfg nbcar c' (i + 1) buffer' s2 }
      else Some (i, buffer, s))"
  by pat_completeness auto
termination by (relation "measure (\<lambda>(cfg, nbcar, c, i, buffer, s). nat (nbcar - i))") auto

declare get_from.simps [simp del]

definition DriverConsole_GetString ::
  "config \<Rightarrow> byte list \<Rightarrow> int \<Rightarrow> 'a terminal_scheme \<Rightarrow> (byte list \<times> 'a terminal_scheme) option" where
  "DriverConsole_GetString cfg buffer nbcar s = do {
     s1 \<leftarrow> mutex_Acquire cfg Get s;
     s2 \<leftarrow> EnableInterrupt cfg s1;
     (i, buffer1, s3) \<leftarrow> get_from cfg nbcar 0 0 buffer s2;
     buffer2 \<leftarrow> aset buffer1 i 0;
     s4 \<leftarrow> mutex_Release cfg Get (DisableInterrupt s3);
     Some (buffer2, s4) }"

end
