(* ===== verification/Nachos_ConsoleProps.thy ===== *)
theory Nachos_ConsoleProps
  imports Nachos_Console "HOL-Library.Multiset"
begin

text \<open>
  What goes over the console: \<open>PutString\<close> puts exactly the characters of the buffer on the
  display, and \<open>GetString\<close> takes the next line from what has been typed, losing nothing.
\<close>

subsection \<open>Rounds of interrupts\<close>

text \<open>
  \<open>I\<close> is an invariant of the device with its pending interrupts, which every interrupt keeps,
  and \<open>M\<close> a measure that no interrupt increases; while \<open>busy\<close>, every interrupt decreases
  it. Then waiting in \<open>Idle\<close> ends.
\<close>

locale interrupt_rounds = device_handlers call ok acts
  for call :: "('h, 'z) device_call" and ok :: "('h, 'z) interrupts_scheme \<Rightarrow> bool"
    and acts :: "('h, 'z) interrupts_scheme \<Rightarrow> ('h, 'z) interrupts_scheme \<Rightarrow> bool" +
  fixes I :: "('h, 'z) interrupts_scheme \<Rightarrow> bool"
    and M :: "('h, 'z) interrupts_scheme \<Rightarrow> nat"
    and busy :: "('h, 'z) interrupts_scheme \<Rightarrow> bool"
  assumes I_same: "interrupts.more s = interrupts.more s' \<Longrightarrow> mset (pending s) = mset (pending s') \<Longrightarrow> I s \<Longrightarrow> I s'"
    and M_same: "interrupts.more s = interrupts.more s' \<Longrightarrow> mset (pending s) = mset (pending s') \<Longrightarrow> M s = M s'"
    and busy_same: "interrupts.more s = interrupts.more s' \<Longrightarrow> mset (pending s) = mset (pending s') \<Longrightarrow> busy s = busy s'"
    and handled: "I (s\<lparr>pending := (w, p) # pending s\<rparr>) \<Longrightarrow> call (handler p) (harg p) s = Some s' \<Longrightarrow>
      I s' \<and> M s' \<le> M (s\<lparr>pending := (w, p) # pending s\<rparr>)
      \<and> (busy (s\<lparr>pending := (w, p) # pending s\<rparr>) \<longrightarrow> M s' < M (s\<lparr>pending := (w, p) # pending s\<rparr>))"
    and no_timer: "I s \<Longrightarrow> (w, p) \<in> set (pending s) \<Longrightarrow> itype p \<noteq> TIMER_INT"

lemma mset_sorted_place: "mset (sorted_place w p ps) = mset ((w, p) # ps)"
proof -
  have "mset ps = mset (takeWhile (\<lambda>x. \<not> w < fst x) ps) + mset (dropWhile (\<lambda>x. \<not> w < fst x) ps)"
    by (simp flip: mset_append)
  then show ?thesis by (simp add: sorted_place_def)
qed

context interrupt_rounds
begin

definition goes :: "('h, 'z) interrupts_scheme \<Rightarrow> ('h, 'z) interrupts_scheme \<Rightarrow> bool" where
  "goes s s' \<longleftrightarrow> (I s \<longrightarrow> I s' \<and> M s' \<le> M s)"

lemma goes_same: "interrupts.more s = interrupts.more s' \<Longrightarrow> mset (pending s) = mset (pending s') \<Longrightarrow> goes s s'"
  using I_same [of s s'] M_same [of s s'] by (simp add: goes_def)

lemma goes_trans: "goes s s' \<Longrightarrow> goes s' s'' \<Longrightarrow> goes s s''"
  unfolding goes_def by (meson order_trans)

lemma fire_goes:
  assumes "fire call old p s = Some s'" "I (s\<lparr>pending := (w, p) # pending s\<rparr>)"
  shows "I s' \<and> M s' \<le> M (s\<lparr>pending := (w, p) # pending s\<rparr>)
    \<and> (busy (s\<lparr>pending := (w, p) # pending s\<rparr>) \<longrightarrow> M s' < M (s\<lparr>pending := (w, p) # pending s\<rparr>))"
proof -
  obtain s1 s2 where s: "DelayedLoad 0 0 s = Some s1"
    "call (handler p) (harg p) (s1\<lparr>inHandler := True, status := SYSTEM_MODE\<rparr>) = Some s2"
    "s' = s2\<lparr>status := old, inHandler := False\<rparr>"
    using assms(1) by (auto simp: fire_def split: bind_splits)
  obtain r where r: "s1 = s\<lparr>int_registers := r\<rparr>" using DelayedLoad_result [OF s(1)] by blast
  let ?s = "s1\<lparr>inHandler := True, status := SYSTEM_MODE\<rparr>"
  let ?t = "?s\<lparr>pending := (w, p) # pending ?s\<rparr>" and ?u = "s\<lparr>pending := (w, p) # pending s\<rparr>"
  have u: "interrupts.more ?u = interrupts.more ?t" "mset (pending ?u) = mset (pending ?t)" by (simp_all add: r)
  have v: "interrupts.more s2 = interrupts.more s'" "mset (pending s2) = mset (pending s')" by (simp_all add: s(3))
  from handled [OF I_same [OF u assms(2)] s(2)] show ?thesis
    using I_same [OF v] M_same [OF v] M_same [OF u] busy_same [OF u] by simp
qed

lemma CheckIfDue_goes:
  assumes "CheckIfDue call adv s = Some (b, s')" "I s"
  shows "I s' \<and> M s' \<le> M s \<and> (b \<longrightarrow> busy s \<longrightarrow> M s' < M s)"
proof (cases "pending s")
  case Nil
  then show ?thesis using assms by (auto simp: CheckIfDue_def split: if_splits)
next
  case (Cons x rest)
  obtain w p where x: "x = (w, p)" by (cases x)
  define s2 where "s2 = (if w > now s
     then s\<lparr>pending := rest, g_stats := setTotalTicks w (incrIdleTicks (w - now s) (g_stats s))\<rparr>
     else s\<lparr>pending := rest\<rparr>)"
  have "itype p \<noteq> TIMER_INT" using no_timer [OF assms(2), of w p] Cons x by simp
  then consider "b = False" "s' = s\<lparr>pending := sorted_place w p rest\<rparr>" | "b = True" "fire call (status s) p s2 = Some s'"
    using assms(1) Cons x unfolding s2_def by (auto simp: CheckIfDue_def Let_def split: if_splits)
  then show ?thesis
  proof cases
    case 1
    have "interrupts.more s = interrupts.more s'" "mset (pending s) = mset (pending s')"
      using Cons x by (simp_all add: 1 mset_sorted_place)
    note I_same [OF this assms(2)] M_same [OF this]
    then show ?thesis using 1 by simp
  next
    case 2
    let ?u = "s2\<lparr>pending := (w, p) # pending s2\<rparr>"
    have u: "interrupts.more s = interrupts.more ?u" "mset (pending s) = mset (pending ?u)"
      using Cons x by (simp_all add: s2_def)
    show ?thesis using fire_goes [OF 2(2) I_same [OF u assms(2)]] M_same [OF u] busy_same [OF u] by simp
  qed
qed

lemma check_all_goes:
  assumes "check_all call s = Some s'"
  shows "goes s s'"
proof -
  have "c = call \<longrightarrow> goes s s'" if "check_all c s = Some s'" for c s s'
  proof (rule check_all.raw_induct [where P = "\<lambda>c s s'. c = call \<longrightarrow> goes s s'", OF _ that], intro impI)
    fix rec :: "('h, 'z) device_call \<Rightarrow> ('h, 'z) interrupts_scheme \<Rightarrow> ('h, 'z) interrupts_scheme option"
      and c :: "('h, 'z) device_call" and s s' :: "('h, 'z) interrupts_scheme"
    assume IH: "\<And>c s s'. rec c s = Some s' \<Longrightarrow> c = call \<longrightarrow> goes s s'"
      and st: "Option.bind (CheckIfDue c False s) (\<lambda>(fired, s'). if fired then rec c s' else Some s') = Some s'" "c = call"
    then obtain b s1 where b: "CheckIfDue call False s = Some (b, s1)" "(if b then rec c s1 else Some s1) = Some s'"
      by (auto split: bind_splits)
    have 1: "goes s s1" using CheckIfDue_goes [OF b(1)] by (simp add: goes_def)
    have "goes s1 s'" using b(2) IH [of c s1 s'] st(2) by (cases b) (auto simp: goes_def)
    with 1 show "goes s s'" by (rule goes_trans)
  qed
  then show ?thesis using assms by blast
qed

lemma OneTick_goes:
  assumes "OneTick call yield n s = Some s'" "ok s" "\<not> yieldOnReturn s"
  shows "goes s s'"
proof -
  let ?s = "ChangeLevel INTERRUPTS_OFF (advance n s)"
  obtain s1 where s1: "check_all call ?s = Some s1" and
    e: "(let s2 = ChangeLevel INTERRUPTS_ON s1 in if yieldOnReturn s2
        then do { s3 \<leftarrow> yield (s2\<lparr>yieldOnReturn := False, status := SYSTEM_MODE\<rparr>); Some (s3\<lparr>status := status s\<rparr>) }
        else Some s2) = Some s'"
    using assms(1) by (auto simp: OneTick_def Let_def split: if_splits bind_splits)
  have m: "interrupts.more s = interrupts.more ?s" "mset (pending s) = mset (pending ?s)"
    by (simp_all add: ChangeLevel_def advance_def Let_def split_beta)
  have "\<not> yieldOnReturn s1"
    using check_all_safe [OF s1 ok_more [OF m(1) assms(2)]] assms(3)
    by (simp add: ChangeLevel_def advance_def Let_def split_beta)
  then have s': "s' = ChangeLevel INTERRUPTS_ON s1" using e by (simp add: ChangeLevel_def)
  have "goes s1 s'" by (rule goes_same) (simp_all add: s' ChangeLevel_def)
  then show ?thesis using goes_same [OF m] check_all_goes [OF s1] goes_trans by blast
qed

lemma Idle_goes:
  assumes "I s" "hw_ok s" "ok s" "level s = INTERRUPTS_OFF" "pending s \<noteq> []"
  shows "\<exists>s'. Idle call s = Some s' \<and> I s' \<and> hw_ok s' \<and> M s' \<le> M s \<and> (busy s \<longrightarrow> M s' < M s)
    \<and> level s' = INTERRUPTS_OFF \<and> \<not> yieldOnReturn s' \<and> \<not> inHandler s'"
proof -
  obtain w p rest where p: "pending s = (w, p) # rest" using assms(5) by (metis list.exhaust surj_pair)
  let ?i = "s\<lparr>status := IDLE_MODE\<rparr>"
  define s2 where "s2 = (if w > now s
     then ?i\<lparr>pending := rest, g_stats := setTotalTicks w (incrIdleTicks (w - now s) (g_stats s))\<rparr>
     else ?i\<lparr>pending := rest\<rparr>)"
  have i: "interrupts.more s = interrupts.more ?i" "mset (pending s) = mset (pending ?i)" by simp_all
  have tm: "itype p \<noteq> TIMER_INT" using no_timer [OF assms(1), of w p] p by simp
  have h: "hw_ok s2" using assms(2) p by (auto simp: s2_def hw_ok_def wf_cpu_def R_def)
  have m2: "interrupts.more s = interrupts.more s2" by (simp add: s2_def)
  have l2: "level s2 = INTERRUPTS_OFF" using assms(4) by (simp add: s2_def)
  obtain s1 where s1: "fire call IDLE_MODE p s2 = Some s1" "hw_ok s1"
    using fire_returns [OF h ok_more [OF m2 assms(3)] l2] by blast
  note f = fire_safe [OF s1(1) ok_more [OF m2 assms(3)] l2]
  have "CheckIfDue call True ?i = Some (True, s1)"
    using assms(4) p tm s1(1) unfolding s2_def by (cases "w > now s") (simp_all add: CheckIfDue_def Let_def now_def)
  note c = this CheckIfDue_goes [OF this I_same [OF i assms(1)]]
  obtain s3 where s3: "check_all call s1 = Some s3" "hw_ok s3" using check_all_returns [OF s1(2) f(1,3)] by blast
  let ?s = "s3\<lparr>yieldOnReturn := False, status := SYSTEM_MODE\<rparr>"
  have "goes s3 ?s" by (rule goes_same) simp_all
  then have "goes s1 ?s" using check_all_goes [OF s3(1)] goes_trans by blast
  then have "I ?s \<and> M ?s \<le> M s \<and> (busy s \<longrightarrow> M ?s < M s)"
    using c(2) M_same [OF i] busy_same [OF i] by (auto simp: goes_def)
  moreover have "Idle call s = Some ?s" using c(1) s3(1) by (simp add: Idle_def)
  ultimately show ?thesis using s3(2) check_all_safe [OF s3(1) f(1)] f(7) by auto
qed

end

subsection \<open>The invariant of the console\<close>

fun chars :: "byte option list \<Rightarrow> byte list" where
  "chars [] = []"
| "chars (None # ks) = chars ks"
| "chars (Some c # ks) = c # chars ks"

definition unread :: "'a terminal_scheme \<Rightarrow> byte list" where
  "unread s = (if incoming (console s) = EOF then [] else [incoming (console s)]) @ chars (keyboard s)"

definition writes :: "'a terminal_scheme \<Rightarrow> nat" where
  "writes s = size (filter_mset (\<lambda>x. handler (snd x) = ConsoleWriteDone) (mset (pending s)))"

text \<open>Where the driver is: what it waits for, and what has been read and written.\<close>

record progress =
  polling :: bool
  put_tokens :: int
  get_tokens :: int
  sleeps :: "side option"
  unlocked :: "side \<Rightarrow> bool"
  typed :: "byte list"
  shown :: "byte list"

definition cinv :: "progress \<Rightarrow> 'a terminal_scheme \<Rightarrow> bool" where
  "cinv e s \<longleftrightarrow> (\<forall>x \<in> set (pending s). itype (snd x) \<noteq> TIMER_INT) \<and> intState (console s) = polling e
     \<and> (polling e \<longrightarrow> (\<exists>x \<in> set (pending s). handler (snd x) = ConsoleReadPoll))
     \<and> writes s = of_bool (putBusy (console s))
     \<and> 0 \<le> svalue (semas s Put) \<and> svalue (semas s Put) + of_bool (putBusy (console s)) = put_tokens e
     \<and> waits (semas s Put) = (sleeps e = Some Put \<and> putBusy (console s))
     \<and> 0 \<le> svalue (semas s Get) \<and> svalue (semas s Get) + get_tokens e = of_bool (incoming (console s) \<noteq> EOF)
     \<and> waits (semas s Get) = (sleeps e = Some Get \<and> incoming (console s) = EOF)
     \<and> EOF \<notin> set (chars (keyboard s)) \<and> mutex_free s = unlocked e \<and> unread s = typed e \<and> display s = shown e"

definition rounds :: "'a terminal_scheme \<Rightarrow> nat" where
  "rounds s = (if intState (console s) then length (keyboard s) + of_bool (putBusy (console s)) else length (pending s))"

definition polls :: "'a terminal_scheme \<Rightarrow> bool" where
  "polls s \<longleftrightarrow> (intState (console s) \<longrightarrow> incoming (console s) = EOF \<and> keyboard s \<noteq> [])"

lemma terminal_more:
  assumes "interrupts.more s = interrupts.more s'"
  shows "console s = console s'" "keyboard s = keyboard s'" "display s = display s'" "semas s = semas s'" "mutex_free s = mutex_free s'"
  using assms by (cases s; cases s'; simp)+

lemma console_later_ok:
  assumes "0 < ProcessorFrequency cfg"
  shows "\<exists>w. now s < w \<and> console_later cfg h ty s
    = Some (s\<lparr>pending := sorted_place w \<lparr>handler = h, harg = 0, iwhen = w, itype = ty\<rparr> (pending s)\<rparr>)"
proof -
  have "0 < nano_to_cycles CONSOLE_TIME (ProcessorFrequency cfg)"
    using assms by (simp add: nano_to_cycles_def CONSOLE_TIME_def cint_simps)
  then show ?thesis
    by (intro exI [of _ "nat (int (now s) + nano_to_cycles CONSOLE_TIME (ProcessorFrequency cfg))"])
      (simp add: console_later_def Schedule_def Let_def)
qed

text \<open>A poll schedules the next one, then it may take a character.\<close>

definition hear :: "'a terminal_scheme \<Rightarrow> 'a terminal_scheme" where
  "hear s =
     (if incoming (console s) \<noteq> EOF then s
      else (case keyboard s of
         [] \<Rightarrow> s
       | None # ks \<Rightarrow> s\<lparr>keyboard := ks\<rparr>
       | Some c # ks \<Rightarrow> GetAChar (s\<lparr>keyboard := ks, console := (console s)\<lparr>incoming := c\<rparr>\<rparr>)))"

lemma hear_frame:
  "pending (hear s) = pending s" "level (hear s) = level s" "yieldOnReturn (hear s) = yieldOnReturn s"
  "g_stats (hear s) = g_stats s" "machine.truncate (hear s) = machine.truncate s"
  "intState (console (hear s)) = intState (console s)" "putBusy (console (hear s)) = putBusy (console s)"
  "semas (hear s) Put = semas s Put" "mutex_free (hear s) = mutex_free s" "display (hear s) = display s"
  by (simp_all add: hear_def GetAChar_def sema_V_def machine.defs split: list.split option.split)

lemma CheckCharAvail_hear:
  assumes "0 < ProcessorFrequency cfg"
  obtains ps v i where "CheckCharAvail cfg s = Some (hear (s\<lparr>pending := ps\<rparr>))"
    "mset ps = (if intState (console s) then add_mset (v, i) (mset (pending s)) else mset (pending s))"
    "handler i = ConsoleReadPoll" "itype i = CONSOLE_READ_INT"
    "due (now s) ps = due (now s) (pending s)" "sorted (map fst (pending s)) \<longrightarrow> sorted (map fst ps)"
proof (cases "intState (console s)")
  case True
  obtain w where w: "now s < w" "console_later cfg ConsoleReadPoll CONSOLE_READ_INT s
      = Some (s\<lparr>pending := sorted_place w \<lparr>handler = ConsoleReadPoll, harg = 0, iwhen = w, itype = CONSOLE_READ_INT\<rparr> (pending s)\<rparr>)"
    using console_later_ok [OF assms] by blast
  let ?i = "\<lparr>handler = ConsoleReadPoll, harg = 0, iwhen = w, itype = CONSOLE_READ_INT\<rparr>"
  have "CheckCharAvail cfg s = Some (hear (s\<lparr>pending := sorted_place w ?i (pending s)\<rparr>))"
    using True w(2) by (simp add: CheckCharAvail_def hear_def split: list.split option.split)
  then show ?thesis using True w(1)
    by (intro that [of "sorted_place w ?i (pending s)" w ?i]) (auto simp: mset_sorted_place due_place_late intro: sorted_place_sorted)
next
  case False
  then have "CheckCharAvail cfg s = Some (hear (s\<lparr>pending := pending s\<rparr>))"
    by (simp add: CheckCharAvail_def hear_def split: list.split option.split)
  then show ?thesis using False by (intro that [of "pending s" 0 "\<lparr>handler = ConsoleReadPoll, harg = 0, iwhen = 0, itype = CONSOLE_READ_INT\<rparr>"]) auto
qed

lemma cinv_same:
  assumes "interrupts.more s = interrupts.more s'" "mset (pending s) = mset (pending s')"
  shows "cinv e s = cinv e s'" "rounds s = rounds s'" "polls s = polls s'"
  using mset_eq_setD [OF assms(2)] mset_eq_length [OF assms(2)] assms(2)
  by (simp_all add: cinv_def unread_def writes_def rounds_def polls_def terminal_more [OF assms(1)])

lemma WriteDone_handled:
  assumes "cinv e (s\<lparr>pending := (w, p) # pending s\<rparr>)" "handler p = ConsoleWriteDone"
  shows "cinv e (WriteDone s) \<and> rounds (WriteDone s) < rounds (s\<lparr>pending := (w, p) # pending s\<rparr>)"
proof -
  let ?u = "s\<lparr>pending := (w, p) # pending s\<rparr>"
  note c = assms(1) [unfolded cinv_def]
  have "writes ?u = Suc (writes s)" using assms(2) by (simp add: writes_def)
  then have b: "putBusy (console s)" "writes s = 0" using c by (auto simp: of_bool_def split: if_splits)
  have "writes (WriteDone s) = 0" using b(2) by (simp add: writes_def WriteDone_def PutAChar_def sema_V_def)
  moreover have "unread (WriteDone s) = unread ?u" by (simp add: unread_def WriteDone_def PutAChar_def sema_V_def)
  ultimately show ?thesis using c b(1) assms(2)
    by (auto simp: cinv_def rounds_def WriteDone_def PutAChar_def sema_V_def)
qed

lemma poll_handled:
  assumes "0 < ProcessorFrequency cfg" "cinv e (s\<lparr>pending := (w, p) # pending s\<rparr>)" "handler p = ConsoleReadPoll"
    "CheckCharAvail cfg s = Some s'"
  shows "cinv e s' \<and> rounds s' \<le> rounds (s\<lparr>pending := (w, p) # pending s\<rparr>)
    \<and> (polls (s\<lparr>pending := (w, p) # pending s\<rparr>) \<longrightarrow> rounds s' < rounds (s\<lparr>pending := (w, p) # pending s\<rparr>))"
proof -
  let ?u = "s\<lparr>pending := (w, p) # pending s\<rparr>"
  note c = assms(2) [unfolded cinv_def]
  obtain ps v i where h: "CheckCharAvail cfg s = Some (hear (s\<lparr>pending := ps\<rparr>))"
    "mset ps = (if intState (console s) then add_mset (v, i) (mset (pending s)) else mset (pending s))"
    "handler i = ConsoleReadPoll" "itype i = CONSOLE_READ_INT"
    using CheckCharAvail_hear [OF assms(1)] by metis
  let ?s = "s\<lparr>pending := ps\<rparr>"
  have s': "s' = hear ?s" using h(1) assms(4) by simp
  have st: "set ps = (if intState (console s) then insert (v, i) (set (pending s)) else set (pending s))"
    using arg_cong [OF h(2), of set_mset] by (auto split: if_splits)
  have ln: "length ps = (if intState (console s) then Suc (length (pending s)) else length (pending s))"
    using arg_cong [OF h(2), of size] by (auto split: if_splits)
  have wr: "writes (hear ?s) = writes ?u" using h(2,3) assms(3) by (simp add: writes_def hear_frame)
  have g: "0 \<le> svalue (semas s Get)" "svalue (semas s Get) + get_tokens e = of_bool (incoming (console s) \<noteq> EOF)"
    "waits (semas s Get) = (sleeps e = Some Get \<and> incoming (console s) = EOF)" "EOF \<notin> set (chars (keyboard s))"
    using c by simp_all
  have get: "0 \<le> svalue (semas (hear ?s) Get)" "svalue (semas (hear ?s) Get) + get_tokens e = of_bool (incoming (console (hear ?s)) \<noteq> EOF)"
    "waits (semas (hear ?s) Get) = (sleeps e = Some Get \<and> incoming (console (hear ?s)) = EOF)"
    "EOF \<notin> set (chars (keyboard (hear ?s)))" "unread (hear ?s) = unread ?u"
    using g by (auto simp: hear_def GetAChar_def sema_V_def unread_def split: list.split option.split)
  have tm: "\<forall>x \<in> set ps. itype (snd x) \<noteq> TIMER_INT" using c st h(4) by (auto split: if_splits)
  have "polling e \<Longrightarrow> (v, i) \<in> set ps" using c st by simp
  then have po: "polling e \<Longrightarrow> \<exists>x \<in> set ps. handler (snd x) = ConsoleReadPoll" using h(3) by (metis snd_conv)
  have "cinv e (hear ?s)"
    unfolding cinv_def hear_frame wr using c get tm po by (intro conjI) simp_all
  moreover have "length (keyboard (hear ?s)) \<le> length (keyboard s)"
    "incoming (console s) = EOF \<Longrightarrow> keyboard s \<noteq> [] \<Longrightarrow> length (keyboard (hear ?s)) < length (keyboard s)"
    by (auto simp: hear_def GetAChar_def sema_V_def split: list.split option.split)
  ultimately show ?thesis using ln unfolding s' by (auto simp: rounds_def polls_def hear_frame)
qed

subsection \<open>The driver waits\<close>

lemma console_call_safe:
  assumes "0 < ProcessorFrequency cfg" "console_call cfg h a s = Some s'"
  shows "level s' = level s \<and> yieldOnReturn s' = yieldOnReturn s \<and> g_stats s' = g_stats s
    \<and> due (now s) (pending s') = due (now s) (pending s) \<and> (hw_ok s \<longrightarrow> hw_ok s')"
proof (cases h)
  case ConsoleWriteDone
  then have "s' = WriteDone s" using assms(2) by (simp add: console_call_def)
  then show ?thesis by (simp add: WriteDone_def PutAChar_def sema_V_def hw_ok_def wf_cpu_def R_def)
next
  case ConsoleReadPoll
  obtain ps where ps: "s' = hear (s\<lparr>pending := ps\<rparr>)" "due (now s) ps = due (now s) (pending s)"
    "sorted (map fst (pending s)) \<longrightarrow> sorted (map fst ps)"
    using CheckCharAvail_hear [OF assms(1), of s] assms(2) ConsoleReadPoll by (auto simp: console_call_def)
  have "int_registers (hear t) = int_registers t \<and> float_registers (hear t) = float_registers t" for t :: "'a terminal_scheme"
    by (simp add: hear_def GetAChar_def sema_V_def split: list.split option.split)
  then show ?thesis using ps by (simp add: hear_frame hw_ok_def wf_cpu_def R_def)
qed

interpretation tty: interrupt_rounds "console_call cfg" "\<lambda>_. 0 < ProcessorFrequency cfg" "\<lambda>_ _. True"
  "\<lambda>s. 0 < ProcessorFrequency cfg \<and> cinv e s" rounds polls for cfg e
proof (unfold_locales, goal_cases)
  case (4 h a s s')
  then show ?case using console_call_safe [of cfg h a s s'] by simp
next
  case (5 s h a)
  then show ?case using CheckCharAvail_hear [of cfg s] by (auto simp: console_call_def split: console_irq.split)
next
  case (9 w p s s')
  then show ?case
    using WriteDone_handled [of e w p s] poll_handled [of cfg e w p s s']
    by (cases "handler p") (auto simp: console_call_def)
next
  case (10 s w p)
  then show ?case by (auto simp: cinv_def)
qed (use cinv_same in blast)+

text \<open>Between its waits, the thread of the driver.\<close>

definition calm :: "config \<Rightarrow> progress \<Rightarrow> 'a terminal_scheme \<Rightarrow> bool" where
  "calm cfg e s \<longleftrightarrow> 0 < ProcessorFrequency cfg \<and> cinv e s \<and> hw_ok s \<and> \<not> yieldOnReturn s \<and> \<not> inHandler s"

lemma tty_level_ok:
  assumes "calm cfg e s"
  shows "\<exists>s'. tty_level cfg l s = Some s' \<and> calm cfg e s' \<and> level s' = l"
proof -
  note c = assms [unfolded calm_def]
  let ?s = "ChangeLevel l s"
  have same: "interrupts.more s = interrupts.more ?s" "mset (pending s) = mset (pending ?s)" by (simp_all add: ChangeLevel_def)
  have c': "cinv e ?s" using c cinv_same(1) [OF same] by simp
  have h: "hw_ok ?s" "\<not> yieldOnReturn ?s" "\<not> inHandler ?s" using c by (simp_all add: ChangeLevel_def)
  show ?thesis
  proof (cases "l = INTERRUPTS_ON \<and> level s = INTERRUPTS_OFF")
    case True
    then have l: "level ?s = INTERRUPTS_ON" by (simp add: ChangeLevel_def)
    obtain s' where s': "OneTick (console_call cfg) (\<lambda>_. None) SYSTEM_TICK ?s = Some s'" "hw_ok s'" "level s' = INTERRUPTS_ON"
      using tty.OneTick_returns [OF h(1) conjunct1 [OF c] l h(2)] by blast
    have "cinv e s'" using tty.OneTick_goes [OF s'(1) conjunct1 [OF c] h(2)] c c' unfolding tty.goes_def by blast
    moreover have "\<not> yieldOnReturn s' \<and> \<not> inHandler s'"
      using tty.OneTick_safe [OF s'(1) conjunct1 [OF c] h(2)] h(3) by blast
    moreover have "tty_level cfg l s = Some s'" using True s'(1) h(3) by (simp add: tty_level_def SetStatus_def Let_def ChangeLevel_def)
    ultimately show ?thesis using True s' c by (simp add: calm_def)
  next
    case False
    then have "tty_level cfg l s = Some ?s" using c by (auto simp: tty_level_def SetStatus_def Let_def)
    then show ?thesis using c c' h by (simp add: calm_def ChangeLevel_def)
  qed
qed

lemma asleep_ok:
  assumes "calm cfg e s" "level s = INTERRUPTS_OFF" "sleeps e = Some x"
    and "x = Put \<longrightarrow> \<not> polling e" "x = Get \<longrightarrow> polling e \<and> typed e \<noteq> []"
  shows "\<exists>s'. asleep cfg x s = Some s' \<and> calm cfg e s' \<and> level s' = INTERRUPTS_OFF \<and> \<not> waits (semas s' x)"
  using assms(1,2)
proof (induction "rounds s" arbitrary: s rule: less_induct)
  case less
  note c = less.prems(1) [unfolded calm_def]
  note i = c [unfolded cinv_def]
  show ?case
  proof (cases "waits (semas s x)")
    case False
    then show ?thesis using less.prems by (subst asleep.simps) simp
  next
    case True
    have "pending s \<noteq> [] \<and> polls s"
    proof (cases x)
      case Put
      with True i have "writes s = 1" by simp
      then have "pending s \<noteq> []" by (auto simp: writes_def)
      then show ?thesis using Put assms(4) i by (simp add: polls_def)
    next
      case Get
      with True i have "incoming (console s) = EOF" by simp
      with Get assms(5) i show ?thesis by (cases "keyboard s") (auto simp: polls_def unread_def)
    qed
    then obtain s1 where s1: "Idle (console_call cfg) s = Some s1" "cinv e s1" "hw_ok s1" "rounds s1 < rounds s"
      "level s1 = INTERRUPTS_OFF" "\<not> yieldOnReturn s1" "\<not> inHandler s1"
      using tty.Idle_goes [of cfg e s] c less.prems(2) by blast
    then obtain s' where "asleep cfg x s1 = Some s'" "calm cfg e s'" "level s' = INTERRUPTS_OFF" "\<not> waits (semas s' x)"
      using less.hyps [of s1] c by (auto simp: calm_def)
    then show ?thesis using True s1(1) by (subst asleep.simps) auto
  qed
qed

text \<open>Changes of the driver's own part of the state.\<close>

lemma calm_upd:
  assumes "calm cfg e s" "cinv e' (f s)" "machine.truncate (f s) = machine.truncate s" "pending (f s) = pending s"
    "level (f s) = level s" "inHandler (f s) = inHandler s" "yieldOnReturn (f s) = yieldOnReturn s"
  shows "calm cfg e' (f s)"
proof -
  have "int_registers (f s) = int_registers s" "float_registers (f s) = float_registers s"
    using arg_cong [OF assms(3), of int_registers] arg_cong [OF assms(3), of float_registers] by (simp_all add: machine.defs)
  then show ?thesis using assms by (simp add: calm_def hw_ok_def wf_cpu_def R_def)
qed

lemma sema_P_ok:
  assumes "calm cfg e s" "sleeps e = None"
    and "x = Put \<Longrightarrow> put_tokens e = 1 \<and> \<not> polling e \<and> e' = e\<lparr>put_tokens := 0\<rparr>"
    and "x = Get \<Longrightarrow> get_tokens e = 0 \<and> polling e \<and> typed e \<noteq> [] \<and> e' = e\<lparr>get_tokens := 1\<rparr>"
  shows "\<exists>s'. sema_P cfg x s = Some s' \<and> calm cfg e' s' \<and> level s' = level s"
proof -
  obtain s1 where s1: "tty_level cfg INTERRUPTS_OFF s = Some s1" "calm cfg e s1" "level s1 = INTERRUPTS_OFF"
    using tty_level_ok [OF assms(1)] by blast
  note i = s1(2) [unfolded calm_def cinv_def]
  let ?d = "\<lambda>s. s\<lparr>semas := (semas s)(x := (semas s x)\<lparr>svalue := svalue (semas s x) - 1\<rparr>)\<rparr>"
  have "\<exists>s2. (if svalue (semas s1 x) \<le> 0 then asleep cfg x (s1\<lparr>semas := (semas s1)(x := (semas s1 x)\<lparr>waits := True\<rparr>)\<rparr>) else Some s1) = Some s2
    \<and> calm cfg e' (?d s2)"
  proof (cases "svalue (semas s1 x) \<le> 0")
    case True
    let ?e = "e\<lparr>sleeps := Some x\<rparr>" and ?s = "s1\<lparr>semas := (semas s1)(x := (semas s1 x)\<lparr>waits := True\<rparr>)\<rparr>"
    have "svalue (semas s1 x) = 0" using i True by (cases x) auto
    then have "cinv ?e ?s" using i assms(2-4) by (cases x) (auto simp: cinv_def unread_def writes_def)
    then have "calm cfg ?e ?s" by (rule calm_upd [OF s1(2)]) (simp_all add: machine.defs)
    then obtain s2 where s2: "asleep cfg x ?s = Some s2" "calm cfg ?e s2" "\<not> waits (semas s2 x)"
      using asleep_ok [of cfg ?e ?s x] s1(3) assms(3,4) by (cases x) auto
    have "cinv e' (?d s2)"
      using s2(2,3) assms(2-4) by (cases x) (auto simp: calm_def cinv_def unread_def writes_def)
    then have "calm cfg e' (?d s2)" by (rule calm_upd [OF s2(2)]) (simp_all add: machine.defs)
    then show ?thesis using True s2(1) by simp
  next
    case False
    have "cinv e' (?d s1)"
      using i False assms(2-4) by (cases x) (auto simp: cinv_def unread_def writes_def)
    then have "calm cfg e' (?d s1)" by (rule calm_upd [OF s1(2)]) (simp_all add: machine.defs)
    then show ?thesis using False by simp
  qed
  then obtain s2 where s2: "(if svalue (semas s1 x) \<le> 0 then asleep cfg x (s1\<lparr>semas := (semas s1)(x := (semas s1 x)\<lparr>waits := True\<rparr>)\<rparr>) else Some s1) = Some s2"
    "calm cfg e' (?d s2)" by blast
  then show ?thesis using tty_level_ok [OF s2(2), of "level s"] s1(1) by (auto simp: sema_P_def)
qed

lemma mutex_ok:
  assumes "calm cfg e s"
  shows "unlocked e x \<Longrightarrow> \<exists>s'. mutex_Acquire cfg x s = Some s' \<and> calm cfg (e\<lparr>unlocked := (unlocked e)(x := False)\<rparr>) s' \<and> level s' = level s"
    and "\<exists>s'. mutex_Release cfg x s = Some s' \<and> calm cfg (e\<lparr>unlocked := (unlocked e)(x := True)\<rparr>) s' \<and> level s' = level s"
proof -
  obtain s1 where s1: "tty_level cfg INTERRUPTS_OFF s = Some s1" "calm cfg e s1" using tty_level_ok [OF assms] by blast
  have "calm cfg (e\<lparr>unlocked := (unlocked e)(x := b)\<rparr>) (s1\<lparr>mutex_free := (mutex_free s1)(x := b)\<rparr>)" for b
  proof (rule calm_upd [OF s1(2)])
    show "cinv (e\<lparr>unlocked := (unlocked e)(x := b)\<rparr>) (s1\<lparr>mutex_free := (mutex_free s1)(x := b)\<rparr>)"
      using s1(2) by (auto simp: calm_def cinv_def unread_def writes_def)
  qed (simp_all add: machine.defs)
  then have l: "\<exists>s'. tty_level cfg (level s) (s1\<lparr>mutex_free := (mutex_free s1)(x := b)\<rparr>) = Some s'
      \<and> calm cfg (e\<lparr>unlocked := (unlocked e)(x := b)\<rparr>) s' \<and> level s' = level s" for b
    using tty_level_ok by blast
  have "mutex_free s1 = unlocked e" using s1(2) by (simp add: calm_def cinv_def)
  then show "unlocked e x \<Longrightarrow> \<exists>s'. mutex_Acquire cfg x s = Some s' \<and> calm cfg (e\<lparr>unlocked := (unlocked e)(x := False)\<rparr>) s' \<and> level s' = level s"
    using l [of False] s1(1) by (simp add: mutex_Acquire_def)
  show "\<exists>s'. mutex_Release cfg x s = Some s' \<and> calm cfg (e\<lparr>unlocked := (unlocked e)(x := True)\<rparr>) s' \<and> level s' = level s"
    using l [of True] s1(1) by (simp add: mutex_Release_def)
qed

lemma free_again: "(\<lambda>_. True)(x := True) = (\<lambda>_. True)"
  by auto

lemma count_char_calm: "calm cfg e s \<Longrightarrow> calm cfg e (count_char f s) \<and> level (count_char f s) = level s"
  by (auto simp: calm_def count_char_def cinv_def unread_def writes_def)

subsection \<open>Writing\<close>

lemma put_one_ok:
  assumes "calm cfg e s" "put_tokens e = 0" "sleeps e = None" "\<not> polling e" "i < length buffer"
  shows "\<exists>s'. put_one cfg buffer i s = Some s' \<and> calm cfg (e\<lparr>shown := shown e @ [buffer ! i]\<rparr>) s' \<and> level s' = level s"
proof -
  let ?s = "count_char incrNumCharWritten s"
  have c: "calm cfg e ?s" "level ?s = level s" using count_char_calm [OF assms(1)] by simp_all
  note i = c(1) [unfolded calm_def cinv_def]
  let ?t = "?s\<lparr>display := display ?s @ [buffer ! i], console := (console ?s)\<lparr>putBusy := True\<rparr>\<rparr>"
  obtain w where w: "console_later cfg ConsoleWriteDone CONSOLE_WRITE_INT ?t
      = Some (?t\<lparr>pending := sorted_place w \<lparr>handler = ConsoleWriteDone, harg = 0, iwhen = w, itype = CONSOLE_WRITE_INT\<rparr> (pending ?t)\<rparr>)"
    using console_later_ok i by blast
  let ?u = "?t\<lparr>pending := sorted_place w \<lparr>handler = ConsoleWriteDone, harg = 0, iwhen = w, itype = CONSOLE_WRITE_INT\<rparr> (pending ?t)\<rparr>"
  let ?e = "e\<lparr>shown := shown e @ [buffer ! i], put_tokens := 1\<rparr>"
  have b: "\<not> putBusy (console ?s)" "svalue (semas ?s Put) = 0" "writes ?s = 0"
    using i assms(2) by (auto simp: of_bool_def split: if_splits)
  have st: "set (pending ?u) = insert (w, \<lparr>handler = ConsoleWriteDone, harg = 0, iwhen = w, itype = CONSOLE_WRITE_INT\<rparr>) (set (pending ?t))"
    using arg_cong [OF mset_sorted_place, of set_mset] by simp
  have wr: "writes ?u = 1" using b(3) by (simp add: writes_def mset_sorted_place)
  have ur: "unread ?u = unread ?s" by (simp add: unread_def)
  have "cinv ?e ?u" using i assms(3,4) b(1,2) unfolding cinv_def wr st ur by simp
  moreover have "hw_ok ?u" using i by (simp add: hw_ok_def wf_cpu_def R_def sorted_place_sorted)
  ultimately have u: "calm cfg ?e ?u" using i by (simp add: calm_def)
  have "\<exists>s'. sema_P cfg Put ?u = Some s' \<and> calm cfg (e\<lparr>shown := shown e @ [buffer ! i]\<rparr>) s' \<and> level s' = level ?u"
    by (rule sema_P_ok [OF u]) (use assms(2-4) in simp_all)
  then show ?thesis using w b(1) assms(5) c(2) by (simp add: put_one_def aget_def Console_PutChar_def)
qed

text \<open>Nothing is under way: the driver's locks are free and no interrupt but polls is pending.\<close>

definition tty_ready :: "config \<Rightarrow> 'a terminal_scheme \<Rightarrow> bool" where
  "tty_ready cfg s \<longleftrightarrow> level s = INTERRUPTS_ON
     \<and> calm cfg \<lparr>polling = False, put_tokens = 0, get_tokens = 0, sleeps = None, unlocked = (\<lambda>_. True),
         typed = unread s, shown = display s\<rparr> s"

lemma tty_readyI:
  assumes "calm cfg e s" "level s = INTERRUPTS_ON" "\<not> polling e" "put_tokens e = 0" "get_tokens e = 0" "sleeps e = None" "unlocked e = (\<lambda>_. True)"
  shows "tty_ready cfg s \<and> unread s = typed e \<and> display s = shown e"
  using assms by (simp add: tty_ready_def calm_def cinv_def)

text \<open>
  \<open>PutString\<close> returns, whatever interrupts are pending, when the driver is not in use: the
  display has got the characters of the buffer, each once and in order; nothing that has been
  typed is lost, and the driver is ready for the next call.
\<close>
theorem put_string_shows:
  assumes "tty_ready cfg s" "nbcar \<le> int (length buffer)"
  shows "\<exists>s'. DriverConsole_PutString cfg buffer nbcar s = Some s' \<and> display s' = display s @ take (nat nbcar) buffer
    \<and> unread s' = unread s \<and> tty_ready cfg s'"
proof -
  let ?e = "\<lparr>polling = False, put_tokens = 0, get_tokens = 0, sleeps = None, unlocked = (\<lambda>_. True), typed = unread s, shown = display s\<rparr>"
  let ?f = "?e\<lparr>unlocked := (unlocked ?e)(Put := False)\<rparr>"
  obtain s1 where s1: "mutex_Acquire cfg Put s = Some s1" "calm cfg ?f s1" "level s1 = INTERRUPTS_ON"
    using mutex_ok(1) [of cfg ?e s Put] assms(1) by (auto simp: tty_ready_def)
  have "\<exists>s2. foldM (put_one cfg buffer) [0..<nat nbcar] s1 = Some s2
    \<and> (calm cfg (?f\<lparr>shown := display s @ take (nat nbcar) buffer\<rparr>) s2 \<and> level s2 = INTERRUPTS_ON)"
  proof (rule foldM_upt_rule)
    fix i s'
    assume i: "i < nat nbcar" "calm cfg (?f\<lparr>shown := display s @ take i buffer\<rparr>) s' \<and> level s' = INTERRUPTS_ON"
    then have "i < length buffer" using assms(2) by linarith
    then show "\<exists>s''. put_one cfg buffer i s' = Some s'' \<and> (calm cfg (?f\<lparr>shown := display s @ take (Suc i) buffer\<rparr>) s'' \<and> level s'' = INTERRUPTS_ON)"
      using put_one_ok [of cfg "?f\<lparr>shown := display s @ take i buffer\<rparr>" s' i buffer] i by (simp add: take_Suc_conv_app_nth)
  qed (use s1 in \<open>simp add: fun_upd_def\<close>)
  then obtain s2 where s2: "foldM (put_one cfg buffer) [0..<nat nbcar] s1 = Some s2"
    "calm cfg (?f\<lparr>shown := display s @ take (nat nbcar) buffer\<rparr>) s2" "level s2 = INTERRUPTS_ON" by blast
  obtain s3 where s3: "mutex_Release cfg Put s2 = Some s3" "level s3 = INTERRUPTS_ON"
    "calm cfg (?e\<lparr>shown := display s @ take (nat nbcar) buffer\<rparr>) s3"
    using mutex_ok(2) [OF s2(2), of Put] s2(3) by (auto simp: free_again)
  have "DriverConsole_PutString cfg buffer nbcar s = Some s3" using s1(1) s2(1) s3(1) by (simp add: DriverConsole_PutString_def)
  then show ?thesis using tty_readyI [OF s3(3,2)] by simp
qed

subsection \<open>Reading\<close>

text \<open>What \<open>GetString\<close> takes: at most \<open>n\<close> characters, up to the first newline.\<close>

fun line_of :: "nat \<Rightarrow> byte list \<Rightarrow> byte list" where
  "line_of 0 xs = []"
| "line_of (Suc n) [] = []"
| "line_of (Suc n) (x # xs) = x # (if x = 10 then [] else line_of n xs)"

lemma line_of_length: "length (line_of n xs) \<le> n"
  by (induction n xs rule: line_of.induct) auto

lemma line_of_take: "line_of n xs = take (length (line_of n xs)) xs"
  by (induction n xs rule: line_of.induct) auto

lemma get_one_ok:
  assumes "calm cfg e s" "get_tokens e = 0" "sleeps e = None" "polling e" "typed e = c # xs"
  shows "\<exists>s1 s2. sema_P cfg Get (count_char incrNumCharRead s) = Some s1 \<and> Console_GetChar s1 = (c, s2)
    \<and> calm cfg (e\<lparr>typed := xs\<rparr>) s2 \<and> level s2 = level s"
proof -
  have c: "calm cfg e (count_char incrNumCharRead s)" "level (count_char incrNumCharRead s) = level s"
    using count_char_calm [OF assms(1)] by simp_all
  have "\<exists>s'. sema_P cfg Get (count_char incrNumCharRead s) = Some s' \<and> calm cfg (e\<lparr>get_tokens := 1\<rparr>) s'
      \<and> level s' = level (count_char incrNumCharRead s)"
    by (rule sema_P_ok [OF c(1)]) (use assms in simp_all)
  then obtain s1 where s1: "sema_P cfg Get (count_char incrNumCharRead s) = Some s1" "calm cfg (e\<lparr>get_tokens := 1\<rparr>) s1" "level s1 = level s"
    using c(2) by auto
  note i = s1(2) [unfolded calm_def cinv_def]
  then have inc: "incoming (console s1) \<noteq> EOF" by (auto simp: of_bool_def split: if_splits)
  then have ch: "incoming (console s1) = c" "chars (keyboard s1) = xs" using i assms(5) by (auto simp: unread_def)
  let ?s = "s1\<lparr>console := (console s1)\<lparr>incoming := EOF\<rparr>\<rparr>"
  have "cinv (e\<lparr>typed := xs\<rparr>) ?s" using i ch inc assms(2,3) by (auto simp: cinv_def unread_def writes_def)
  then have "calm cfg (e\<lparr>typed := xs\<rparr>) ?s" by (rule calm_upd [OF s1(2)]) (simp_all add: machine.defs)
  then show ?thesis using s1(1,3) ch(1) by (auto simp: Console_GetChar_def)
qed

lemma get_from_ok:
  assumes "calm cfg e s" "get_tokens e = 0" "sleeps e = None" "polling e" "c \<noteq> 10"
    and "n \<le> length (typed e) \<or> 10 \<in> set (typed e)" "length pre + length (line_of n (typed e)) \<le> length buffer" "length pre \<le> length buffer"
  shows "\<exists>s'. get_from cfg (int (length pre + n)) c (int (length pre)) (pre @ drop (length pre) buffer) s
      = Some (int (length pre + length (line_of n (typed e))),
          pre @ line_of n (typed e) @ drop (length pre + length (line_of n (typed e))) buffer, s')
    \<and> calm cfg (e\<lparr>typed := drop (length (line_of n (typed e))) (typed e)\<rparr>) s' \<and> level s' = level s"
  using assms
proof (induction n arbitrary: e s c pre)
  case 0
  then show ?case by (subst get_from.simps) simp
next
  case (Suc n)
  then obtain x xs where xs: "typed e = x # xs" by (cases "typed e") auto
  obtain s1 s2 where s: "sema_P cfg Get (count_char incrNumCharRead s) = Some s1" "Console_GetChar s1 = (x, s2)"
    "calm cfg (e\<lparr>typed := xs\<rparr>) s2" "level s2 = level s"
    using get_one_ok [OF Suc.prems(1-4) xs] by blast
  let ?p = "pre @ [x]" and ?e = "e\<lparr>typed := xs\<rparr>"
  have l: "length pre < length buffer" using Suc.prems(7) xs by (simp split: if_splits)
  then have a: "aset (pre @ drop (length pre) buffer) (int (length pre)) x = Some (?p @ drop (length ?p) buffer)"
    by (simp add: aset_def list_update_append Cons_nth_drop_Suc [symmetric])
  have st: "get_from cfg (int (length pre + Suc n)) c (int (length pre)) (pre @ drop (length pre) buffer) s
      = get_from cfg (int (length ?p + n)) x (int (length ?p)) (?p @ drop (length ?p) buffer) s2"
    using s(1,2) a Suc.prems(5) by (subst get_from.simps) (simp add: ac_simps)
  show ?case
  proof (cases "x = 10")
    case True
    have "get_from cfg (int (length ?p + n)) x (int (length ?p)) (?p @ drop (length ?p) buffer) s2
        = Some (int (length ?p), ?p @ drop (length ?p) buffer, s2)"
      using True by (subst get_from.simps) simp
    then show ?thesis unfolding st using True xs s(3,4) by simp
  next
    case False
    have "\<exists>s'. get_from cfg (int (length ?p + n)) x (int (length ?p)) (?p @ drop (length ?p) buffer) s2
        = Some (int (length ?p + length (line_of n (typed ?e))),
            ?p @ line_of n (typed ?e) @ drop (length ?p + length (line_of n (typed ?e))) buffer, s')
      \<and> calm cfg (?e\<lparr>typed := drop (length (line_of n (typed ?e))) (typed ?e)\<rparr>) s' \<and> level s' = level s2"
      by (rule Suc.IH) (use Suc.prems(2-7) s(3) xs False l in auto)
    then show ?thesis unfolding st using False xs s(4) by simp
  qed
qed

lemma get_line:
  assumes "tty_ready cfg s" "n \<le> length (unread s) \<or> 10 \<in> set (unread s)" "length (line_of n (unread s)) \<le> length buffer"
  shows "\<exists>s1 s2 s3. mutex_Acquire cfg Get s = Some s1 \<and> EnableInterrupt cfg s1 = Some s2
    \<and> get_from cfg (int n) 0 0 buffer s2 = Some (int (length (line_of n (unread s))),
         line_of n (unread s) @ drop (length (line_of n (unread s))) buffer, s3)
    \<and> level s3 = INTERRUPTS_ON
    \<and> calm cfg \<lparr>polling = True, put_tokens = 0, get_tokens = 0, sleeps = None, unlocked = (\<lambda>_. True)(Get := False),
         typed = drop (length (line_of n (unread s))) (unread s), shown = display s\<rparr> s3"
proof -
  let ?e = "\<lparr>polling = False, put_tokens = 0, get_tokens = 0, sleeps = None, unlocked = (\<lambda>_. True), typed = unread s, shown = display s\<rparr>"
  let ?f = "?e\<lparr>unlocked := (unlocked ?e)(Get := False), polling := True\<rparr>"
  obtain s1 where s1: "mutex_Acquire cfg Get s = Some s1" "calm cfg (?e\<lparr>unlocked := (unlocked ?e)(Get := False)\<rparr>) s1" "level s1 = INTERRUPTS_ON"
    using mutex_ok(1) [of cfg ?e s Get] assms(1) by (auto simp: tty_ready_def)
  note i = s1(2) [unfolded calm_def cinv_def]
  let ?t = "s1\<lparr>console := (console s1)\<lparr>intState := True\<rparr>\<rparr>"
  obtain w where w: "console_later cfg ConsoleReadPoll CONSOLE_READ_INT ?t
      = Some (?t\<lparr>pending := sorted_place w \<lparr>handler = ConsoleReadPoll, harg = 0, iwhen = w, itype = CONSOLE_READ_INT\<rparr> (pending ?t)\<rparr>)"
    using console_later_ok i by blast
  let ?u = "?t\<lparr>pending := sorted_place w \<lparr>handler = ConsoleReadPoll, harg = 0, iwhen = w, itype = CONSOLE_READ_INT\<rparr> (pending ?t)\<rparr>"
  have st: "set (pending ?u) = insert (w, \<lparr>handler = ConsoleReadPoll, harg = 0, iwhen = w, itype = CONSOLE_READ_INT\<rparr>) (set (pending ?t))"
    using arg_cong [OF mset_sorted_place, of set_mset] by simp
  have wr: "writes ?u = writes s1" "unread ?u = unread s1" by (simp_all add: writes_def mset_sorted_place unread_def)
  have "cinv ?f ?u" using i unfolding cinv_def wr st by simp
  moreover have "hw_ok ?u" using i by (simp add: hw_ok_def wf_cpu_def R_def sorted_place_sorted)
  ultimately have u: "calm cfg ?f ?u" using i by (simp add: calm_def)
  have "\<exists>s3. get_from cfg (int (length [] + n)) 0 (int (length [])) ([] @ drop (length []) buffer) ?u
      = Some (int (length [] + length (line_of n (typed ?f))),
          [] @ line_of n (typed ?f) @ drop (length [] + length (line_of n (typed ?f))) buffer, s3)
    \<and> calm cfg (?f\<lparr>typed := drop (length (line_of n (typed ?f))) (typed ?f)\<rparr>) s3 \<and> level s3 = level ?u"
    using get_from_ok [OF u, where c = 0 and n = n and pre = "[]" and buffer = buffer] assms(2,3) by simp
  then show ?thesis using s1(1,3) w by (auto simp: EnableInterrupt_def)
qed

text \<open>
  C22. \<open>GetString\<close> reads a line: when enough has been typed, it returns the next characters up
  to the first newline, at most \<open>nbcar\<close>, with a zero behind them; what it has not taken stays for the next
  call. The zero needs room of its own: with a buffer of exactly \<open>nbcar\<close> bytes and a line that
  fills it, the call writes past the end of the buffer. This is how the system call \<open>Read\<close> calls it.
\<close>
theorem get_string_reads_line:
  assumes "tty_ready cfg s" "n \<le> length (unread s) \<or> 10 \<in> set (unread s)"
  shows "(n < length buffer \<longrightarrow> (\<exists>s'. DriverConsole_GetString cfg buffer (int n) s
        = Some (line_of n (unread s) @ 0 # drop (Suc (length (line_of n (unread s)))) buffer, s')
      \<and> unread s = line_of n (unread s) @ unread s' \<and> display s' = display s \<and> tty_ready cfg s'))
    \<and> (n = length buffer \<longrightarrow> length (line_of n (unread s)) = n \<longrightarrow> DriverConsole_GetString cfg buffer (int n) s = None)"
proof (intro conjI impI)
  let ?l = "line_of n (unread s)"
  let ?rest = "drop (length ?l) (unread s)"
  let ?e = "\<lparr>polling = True, put_tokens = 0, get_tokens = 0, sleeps = None, unlocked = (\<lambda>_. True)(Get := False), typed = ?rest, shown = display s\<rparr>"
  {
    assume n: "n < length buffer"
    then have len: "length ?l < length buffer" using line_of_length [of n "unread s"] by simp
    obtain s1 s2 s3 where s: "mutex_Acquire cfg Get s = Some s1" "EnableInterrupt cfg s1 = Some s2"
      "get_from cfg (int n) 0 0 buffer s2 = Some (int (length ?l), ?l @ drop (length ?l) buffer, s3)"
      "level s3 = INTERRUPTS_ON" "calm cfg ?e s3" using get_line [OF assms, of buffer] len by auto
    let ?s = "DisableInterrupt s3"
    have "cinv (?e\<lparr>polling := False\<rparr>) ?s"
      using s(5) by (auto simp: calm_def cinv_def DisableInterrupt_def unread_def writes_def)
    then have "calm cfg (?e\<lparr>polling := False\<rparr>) ?s"
      by (rule calm_upd [OF s(5)]) (simp_all add: machine.defs DisableInterrupt_def)
    then obtain s4 where s4: "mutex_Release cfg Get ?s = Some s4" "level s4 = INTERRUPTS_ON"
      "calm cfg (?e\<lparr>polling := False, unlocked := (\<lambda>_. True)\<rparr>) s4"
      using mutex_ok(2) [of cfg "?e\<lparr>polling := False\<rparr>" ?s Get] s(4) by (auto simp: free_again DisableInterrupt_def)
    have "aset (?l @ drop (length ?l) buffer) (int (length ?l)) 0 = Some (?l @ 0 # drop (Suc (length ?l)) buffer)"
      using len by (simp add: aset_def list_update_append Cons_nth_drop_Suc [symmetric])
    then have "DriverConsole_GetString cfg buffer (int n) s = Some (?l @ 0 # drop (Suc (length ?l)) buffer, s4)"
      using s(1-3) s4(1) by (simp add: DriverConsole_GetString_def)
    moreover have "unread s = ?l @ ?rest" using line_of_take [of n "unread s"] by (metis append_take_drop_id)
    ultimately show "\<exists>s'. DriverConsole_GetString cfg buffer (int n) s = Some (?l @ 0 # drop (Suc (length ?l)) buffer, s')
        \<and> unread s = ?l @ unread s' \<and> display s' = display s \<and> tty_ready cfg s'"
      using tty_readyI [OF s4(3,2)] by simp
  }
  assume n: "n = length buffer" "length ?l = n"
  obtain s1 s2 s3 where "mutex_Acquire cfg Get s = Some s1" "EnableInterrupt cfg s1 = Some s2"
    "get_from cfg (int n) 0 0 buffer s2 = Some (int (length ?l), ?l @ drop (length ?l) buffer, s3)"
    using get_line [OF assms, of buffer] n by auto
  then show "DriverConsole_GetString cfg buffer (int n) s = None"
    using n by (simp add: DriverConsole_GetString_def aset_def)
qed

subsection \<open>An example\<close>

text \<open>A console behind the constructors of device and driver; \<open>ok\<close>, a newline and \<open>z\<close> are being typed.\<close>

definition demo_keys :: "byte option list" where
  "demo_keys = [None, Some 111, Some 107, None, Some 10, Some 122]"

definition demo_tty :: terminal where
  "demo_tty = DriverConsole_new (Console_new (interrupts.extend
     (machine.extend (Machine_new tiny_cfg) (interrupts.fields INTERRUPTS_ON [] False False))
     (terminal.fields \<lparr>intState = True, putBusy = True, incoming = 0\<rparr> demo_keys [] (\<lambda>_. \<lparr>svalue = 7, waits = True\<rparr>) (\<lambda>_. False))))"

lemma demo_tty_parts: "unread demo_tty = [111, 107, 10, 122]" "display demo_tty = []" "pending demo_tty = []" "tty_ready tiny_cfg demo_tty"
proof -
  show u: "unread demo_tty = [111, 107, 10, 122]" "display demo_tty = []" "pending demo_tty = []"
    by (simp_all add: demo_tty_def demo_keys_def unread_def DriverConsole_new_def Console_new_def machine.defs interrupts.defs terminal.defs)
  have "hw_ok demo_tty"
    by (simp add: hw_ok_def wf_cpu_def R_def demo_tty_def DriverConsole_new_def Console_new_def Machine_new_def machine.defs interrupts.defs terminal.defs)
  then show "tty_ready tiny_cfg demo_tty"
    using u unfolding tty_ready_def calm_def cinv_def
    by (simp add: writes_def demo_tty_def DriverConsole_new_def Console_new_def EOF_def demo_keys_def tiny_cfg_def
        machine.defs interrupts.defs terminal.defs)
qed

theorem put_string_shows_witness:
  "\<exists>s'. DriverConsole_PutString tiny_cfg [104, 105, 33] 2 demo_tty = Some s' \<and> display s' = [104, 105]"
  using put_string_shows [OF demo_tty_parts(4), of 2 "[104, 105, 33]"] by (auto simp: demo_tty_parts)

theorem get_string_reads_line_witness:
  "(\<exists>s'. DriverConsole_GetString tiny_cfg (replicate 9 1) 8 demo_tty = Some ([111, 107, 10, 0, 1, 1, 1, 1, 1], s') \<and> unread s' = [122])
   \<and> DriverConsole_GetString tiny_cfg [1, 1] 2 demo_tty = None"
proof -
  have l: "line_of 8 [111, 107, 10, 122] = [111, 107, 10 :: byte]" "line_of 2 [111, 107, 10, 122] = [111, 107 :: byte]"
    "replicate 9 (1 :: byte) = [1, 1, 1, 1, 1, 1, 1, 1, 1]"
    by code_simp+
  have "(10 :: byte) \<in> set (unread demo_tty)" by (simp add: demo_tty_parts)
  then show ?thesis
    using get_string_reads_line [OF demo_tty_parts(4), of 8 "replicate 9 1"] get_string_reads_line [OF demo_tty_parts(4), of 2 "[1, 1]"]
    by (auto simp: demo_tty_parts l)
qed

end
