(* ===== verification/Nachos_FsMisc.thy ===== *)
theory Nachos_FsMisc
  imports Nachos_FileSys
begin

text \<open>
  The file utilities (\<open>filesys/fsmisc.cc\<close>): a file of the host is copied to the simulated disk
  in small pieces, and a file of the disk is printed. The files of the host are the argument
  \<open>unix\<close>; what is printed is a result, but for the messages of \<open>Copy\<close>.
\<close>

definition TransferSize :: nat where "TransferSize = 10"

function Copy_loop :: "config \<Rightarrow> byte list \<Rightarrow> OpenFile \<Rightarrow> filesystem \<Rightarrow> filesystem option" where
  "Copy_loop cfg rest openFile fs =
     (let buffer = take TransferSize rest in
      if buffer = [] then Some fs
      else do {
        (_, f, fs1) \<leftarrow> Write cfg buffer (int (length buffer)) openFile fs;
        Copy_loop cfg (drop TransferSize rest) f fs1 })"
  by pat_completeness auto
termination
  by (relation "measure (\<lambda>(cfg, rest, f, fs). length rest)") (auto simp: TransferSize_def)

declare Copy_loop.simps [simp del]

text \<open>Without the file of the host, or when it cannot be created, \<open>Copy\<close> ends the simulator.\<close>

definition Copy :: "config \<Rightarrow> (byte list \<Rightarrow> byte list option) \<Rightarrow> byte list \<Rightarrow> byte list \<Rightarrow> filesystem \<Rightarrow> filesystem option" where
  "Copy cfg unix from to fs = do {
     contents \<leftarrow> unix from;
     (err, fs1) \<leftarrow> Create cfg to (int (length contents)) fs;
     if err \<noteq> NoError then None
     else do {
       f \<leftarrow> FileSystem_Open cfg to fs1;
       openFile \<leftarrow> f;
       Copy_loop cfg contents openFile fs1 } }"

text \<open>The conversion \<open>%1x\<close> of a \<open>char\<close>, which is signed and becomes an \<open>int\<close>; and a space.\<close>

definition hex_char :: "nat \<Rightarrow> byte" where
  "hex_char n = (if n < 10 then of_nat (48 + n) else of_nat (87 + n))"

function hex_digits :: "nat \<Rightarrow> byte list" where
  "hex_digits n = (if n < 16 then [hex_char n] else hex_digits (n div 16) @ [hex_char (n mod 16)])"
  by pat_completeness auto
termination by (relation "measure id") auto

declare hex_digits.simps [simp del]

definition print_char :: "byte \<Rightarrow> byte list" where
  "print_char c = hex_digits (unat (scast c :: u32)) @ [32]"

partial_function (option) print_loop :: "config \<Rightarrow> byte list list \<Rightarrow> OpenFile \<Rightarrow> byte list option" where
  "print_loop cfg d openFile = do {
     (buffer, f) \<leftarrow> Read cfg (int TransferSize) openFile d;
     if buffer = [] then Some []
     else do { out \<leftarrow> print_loop cfg d f; Some (concat (map print_char buffer) @ out) } }"

definition Print :: "config \<Rightarrow> byte list \<Rightarrow> filesystem \<Rightarrow> byte list option" where
  "Print cfg name fs = do {
     f \<leftarrow> FileSystem_Open cfg name fs;
     (case f of
        None \<Rightarrow> Some (map of_char ''Print: unable to open Nachos file '' @ name @ [10])
      | Some openFile \<Rightarrow> print_loop cfg (sectors fs) openFile) }"

subsection \<open>The loops\<close>

lemma print_loop_ok:
  assumes "wf_file cfg (hdr f) d" "0 \<le> seekPosition f"
  shows "print_loop cfg d f = Some (concat (map print_char (drop (nat (seekPosition f)) (file_bytes (hdr f) d))))"
  using assms
proof (induction "length (file_bytes (hdr f) d) - nat (seekPosition f)" arbitrary: f rule: less_induct)
  case less
  let ?B = "drop (nat (seekPosition f)) (file_bytes (hdr f) d)"
  let ?b = "take TransferSize ?B"
  have r: "Read cfg (int TransferSize) f d = Some (?b, f\<lparr>seekPosition := seekPosition f + int (length ?b)\<rparr>)"
    using ReadAt_bytes [OF less.prems] by (simp add: Read_def)
  show ?case
  proof (cases "?B = []")
    case True
    then show ?thesis using r by (subst print_loop.simps) simp
  next
    case False
    let ?f = "f\<lparr>seekPosition := seekPosition f + int (length ?b)\<rparr>"
    have b: "?b \<noteq> []" using False by (simp add: TransferSize_def)
    have n: "nat (seekPosition ?f) = nat (seekPosition f) + length ?b" using less.prems(2) by (simp add: nat_add_distrib)
    have "length (file_bytes (hdr f) d) - nat (seekPosition ?f) < length (file_bytes (hdr f) d) - nat (seekPosition f)"
      unfolding n using False b by (simp add: TransferSize_def)
    then have "print_loop cfg d ?f = Some (concat (map print_char (drop (nat (seekPosition ?f)) (file_bytes (hdr f) d))))"
      using less.hyps [of ?f] less.prems by simp
    moreover have "drop (nat (seekPosition ?f)) (file_bytes (hdr f) d) = drop TransferSize ?B"
      unfolding n by (simp add: ac_simps min_def)
    moreover have "concat (map print_char ?b) @ concat (map print_char (drop TransferSize ?B)) = concat (map print_char ?B)"
      by (metis append_take_drop_id concat_append map_append)
    ultimately show ?thesis using r b by (subst print_loop.simps) simp
  qed
qed

text \<open>The pieces replace the bytes of the file from its position on; the header stays as it is.\<close>

lemma Copy_loop_ok:
  assumes "wf_file cfg (hdr f) (sectors fs)" "0 \<le> seekPosition f"
    and "seekPosition f + int (length rest) \<le> numBytes (hdr f)" "numBytes (hdr f) \<le> MAX_FILE_LENGTH cfg"
  shows "\<exists>fs'. Copy_loop cfg rest f fs = Some fs' \<and> fs' = fs\<lparr>sectors := sectors fs'\<rparr> \<and> wf_sectors cfg (sectors fs')
    \<and> file_bytes (hdr f) (sectors fs') = take (nat (seekPosition f)) (file_bytes (hdr f) (sectors fs)) @ rest
        @ drop (nat (seekPosition f) + length rest) (file_bytes (hdr f) (sectors fs))
    \<and> (\<forall>s. s \<notin> nat ` set (data_list (hdr f)) \<longrightarrow> sectors fs' ! s = sectors fs ! s)"
  using assms
proof (induction "length rest" arbitrary: rest f fs rule: less_induct)
  case less
  show ?case
  proof (cases "rest = []")
    case True
    then show ?thesis using less.prems(1) by (subst Copy_loop.simps) (simp add: wf_file_def)
  next
    case False
    let ?b = "take TransferSize rest" and ?h = "hdr f" and ?B = "file_bytes (hdr f) (sectors fs)"
    let ?p = "nat (seekPosition f)"
    have b: "?b \<noteq> []" using False by (simp add: TransferSize_def)
    have lb: "0 < int (length ?b)" "seekPosition f + int (length ?b) \<le> numBytes ?h" using b less.prems(3) by auto
    have mx: "numBytes ?h \<le> MaxFileLength cfg ?h" using less.prems(1) by (simp add: wf_file_def MaxFileLength_def)
    have pre: "seekPosition f \<le> numBytes ?h" "seekPosition f + int (length ?b) \<le> MaxFileLength cfg ?h"
      "seekPosition f + int (length ?b) \<le> MAX_FILE_LENGTH cfg" using lb mx less.prems(4) by linarith+
    obtain f1 fs1 where w: "WriteAt cfg ?b (int (length ?b)) (seekPosition f) f fs = Some (int (length ?b), f1, fs1)"
      "f1 = f\<lparr>hdr := ?h\<lparr>numBytes := max (numBytes ?h) (seekPosition f + int (length ?b))\<rparr>\<rparr>"
      "fs1 = fs\<lparr>sectors := sectors fs1\<rparr>" "wf_file cfg (hdr f1) (sectors fs1)"
      "file_bytes (hdr f1) (sectors fs1) = take ?p ?B @ take (nat (int (length ?b))) ?b @ drop (nat (seekPosition f + int (length ?b))) ?B"
      "\<forall>s. s \<notin> nat ` set (data_list ?h) \<longrightarrow> sectors fs1 ! s = sectors fs ! s"
      using WriteAt_with_in_place [OF less.prems(1,2) pre(1) lb(1) pre(2,3) order_refl, of "grow_file cfg"]
      unfolding WriteAt_def by blast
    have "max (numBytes ?h) (seekPosition f + int (length ?b)) = numBytes ?h" using lb(2) by simp
    then have f1: "f1 = f" using w(2) by simp
    let ?f = "f\<lparr>seekPosition := seekPosition f + int (length ?b)\<rparr>"
    have wr: "Write cfg ?b (int (length ?b)) f fs = Some (int (length ?b), ?f, fs1)" using w(1) f1 by (simp add: Write_def)
    have n: "nat (seekPosition f + int (length ?b)) = ?p + length ?b" using less.prems(2) by (simp add: nat_add_distrib)
    have B1: "file_bytes ?h (sectors fs1) = take ?p ?B @ ?b @ drop (?p + length ?b) ?B" using w(5) unfolding f1 n by (simp only: nat_int take_all [OF order_refl])
    have lr: "length (drop TransferSize rest) < length rest" using False by (simp add: TransferSize_def)
    have eq: "length ?b + length (drop TransferSize rest) = length rest" by simp
    have "int (length ?b) + int (length (drop TransferSize rest)) = int (length rest)" using eq by (metis of_nat_add)
    then have h: "wf_file cfg (hdr ?f) (sectors fs1)" "0 \<le> seekPosition ?f"
      "seekPosition ?f + int (length (drop TransferSize rest)) \<le> numBytes (hdr ?f)" "numBytes (hdr ?f) \<le> MAX_FILE_LENGTH cfg"
      using w(4) f1 less.prems(2-4) by simp_all
    have sp: "nat (seekPosition ?f) = ?p + length ?b" "hdr ?f = ?h" using n by simp_all
    obtain fs2 where i: "Copy_loop cfg (drop TransferSize rest) ?f fs1 = Some fs2" "fs2 = fs1\<lparr>sectors := sectors fs2\<rparr>"
      "wf_sectors cfg (sectors fs2)"
      "file_bytes ?h (sectors fs2) = take (?p + length ?b) (file_bytes ?h (sectors fs1)) @ drop TransferSize rest
        @ drop (?p + length ?b + length (drop TransferSize rest)) (file_bytes ?h (sectors fs1))"
      "\<forall>s. s \<notin> nat ` set (data_list ?h) \<longrightarrow> sectors fs2 ! s = sectors fs1 ! s"
      using less.hyps [OF lr h, unfolded sp] by blast
    have lB: "length ?B = nat (numBytes ?h)" using wf_file_blocks(4) [OF less.prems(1)] by (simp add: file_bytes_def)
    then have lp: "length (take ?p ?B) = ?p" using pre(1) less.prems(2) by simp
    have "length (take ?p ?B @ ?b) = ?p + length ?b" by (simp only: length_append lp)
    then have "take (?p + length ?b) (file_bytes ?h (sectors fs1)) = take ?p ?B @ ?b"
      unfolding B1 by (metis append.assoc append_eq_conv_conj)
    moreover have "drop (?p + length ?b + length (drop TransferSize rest)) (file_bytes ?h (sectors fs1)) = drop (?p + length rest) ?B"
      unfolding B1 using lp eq by (simp add: ac_simps)
    ultimately have "file_bytes ?h (sectors fs2) = take ?p ?B @ rest @ drop (?p + length rest) ?B"
      using i(4) by (metis append.assoc append_take_drop_id)
    moreover have "Copy_loop cfg rest f fs = Some fs2" using wr i(1) b by (subst Copy_loop.simps) (simp add: Let_def)
    moreover have "fs2 = fs\<lparr>sectors := sectors fs2\<rparr>" by (subst i(2), subst w(3)) simp
    ultimately show ?thesis using i(3,5) w(6) by auto
  qed
qed

subsection \<open>Copying and printing\<close>

lemma open_root:
  assumes "sector_ok cfg" "root_open cfg fs r" "stored_dir cfg (sectors fs) 1 r dir" "slash \<notin> set p"
    and "int (length p) < MaxFileNameSize cfg" "stored_file cfg (sectors fs) (Directory_Find dir p) h" "isdir h = 0"
  shows "\<exists>f. FileSystem_Open cfg p fs = Some (Some f) \<and> same_file h (hdr f) \<and> wf_file cfg (hdr f) (sectors fs) \<and> seekPosition f = 0"
proof -
  obtain df where df: "fetch_dir cfg 1 fs = Some (df, dir)" using stored_dir_fetch [OF assms(1,3)] by blast
  obtain f where f: "OpenFile_new cfg (Directory_Find dir p) (sectors fs) = Some f" "same_file h (hdr f)" "wf_file cfg (hdr f) (sectors fs)"
    using stored_file_open [OF assms(1,6)] by blast
  have "length (fname f) = nat (MaxFileNameSize cfg)" using f(1) by (auto simp: OpenFile_new_def split: bind_splits)
  then have "\<exists>b. blit (fname f) 0 (p @ [0]) = Some b" using assms(5) by (simp add: blit_def)
  then obtain f' where f': "SetName cfg p f = Some f'" "hdr f' = hdr f" "seekPosition f' = seekPosition f"
    using assms(5) by (auto simp: SetName_def)
  have "seekPosition f = 0" using f(1) by (auto simp: OpenFile_new_def split: bind_splits)
  moreover have "0 \<le> Directory_Find dir p" using assms(6) by (simp add: stored_file_def)
  moreover have "\<not> OpenFile_IsDir f'" using assms(7) f(2) f'(2) by (simp add: OpenFile_IsDir_def IsDir_def same_file_def)
  ultimately show ?thesis
    using FindDir_root [OF assms(2-4)] df f f' assms(5) by (simp add: FileSystem_Open_def copy_name_def)
qed

text \<open>Sectors that only a new file has may change.\<close>

lemma create_ready_frame:
  assumes "create_ready cfg fs b ds dh dir" "fs' = fs\<lparr>sectors := sectors fs'\<rparr>" "wf_sectors cfg (sectors fs')"
    and "\<And>t. t \<in> file_sectors ds dh \<union> set (data_list (hdr (freeMapFile fs))) \<Longrightarrow> sectors fs' ! nat t = sectors fs ! nat t"
  shows "create_ready cfg fs' b ds dh dir"
proof -
  have c: "stored_map cfg fs b" "stored_dir cfg (sectors fs) ds dh dir" using assms(1) by (simp_all add: create_ready_def)
  have m: "freeMapFile fs' = freeMapFile fs" by (subst assms(2)) simp
  have "stored_map cfg fs' b" by (rule dir_data_frame [OF c(1) assms(2,3)]) (use assms(4) in blast)
  moreover have "stored_dir cfg (sectors fs') ds dh dir"
  proof -
    have "stored_file cfg (sectors fs') ds dh"
      using c(2) assms(4) by (intro stored_file_frame [OF _ assms(3), of "sectors fs"]) (auto simp: stored_dir_def file_sectors_def own_sectors_parts)
    moreover have "file_bytes dh (sectors fs') = file_bytes dh (sectors fs)"
      by (rule file_bytes_frame) (use assms(4) in \<open>auto simp: file_sectors_def own_sectors_parts\<close>)
    ultimately show ?thesis using c(2) unfolding stored_dir_def by metis
  qed
  ultimately show ?thesis using assms(1) by (simp add: create_ready_def m)
qed

lemma copy_ok:
  assumes "create_ready cfg fs b 1 r dir" "\<not> createLock fs" "root_open cfg fs r" "slash \<notin> set p"
    and "int (length p) < MaxFileNameSize cfg" "unix from = Some contents" "int (length contents) \<le> MAX_FILE_LENGTH cfg"
    and "Directory_Find dir p = - 1" "\<exists>e\<in>set dir. \<not> inUse e"
    and "1 + data_count cfg (int (length contents)) + header_count cfg (int (length contents)) \<le> int (card (free_bits b))"
  shows "\<exists>fs' h b' dir'. Copy cfg unix from p fs = Some fs' \<and> stored_file cfg (sectors fs') (Directory_Find dir' p) h \<and> isdir h = 0
    \<and> file_bytes h (sectors fs') = contents \<and> create_ready cfg fs' b' 1 r dir' \<and> \<not> createLock fs' \<and> root_open cfg fs' r
    \<and> (\<forall>nm. key nm \<noteq> key p \<longrightarrow> Directory_Find dir' nm = Directory_Find dir nm)
    \<and> (\<forall>t \<in> marked b - file_sectors 1 r - set (data_list (hdr (freeMapFile fs))). sectors fs' ! nat t = sectors fs ! nat t)"
proof -
  have r: "sector_ok cfg" "stored_dir cfg (sectors fs) 1 r dir" using assms(1) by (simp_all add: create_ready_def)
  let ?n = "int (length contents)"
  have "0 \<le> ?n" by simp
  from create_correct [OF assms(1,2) FindDir_root [OF assms(3) r(2) assms(4)] assms(5) this assms(7-10)]
  obtain fs1 b1 dir1 s h where c: "Create cfg p ?n fs = Some (NoError, fs1)" "create_ready cfg fs1 b1 1 r dir1"
    "\<forall>nm. Directory_Find dir1 nm = (if key nm = key p then s else Directory_Find dir nm)"
    "stored_file cfg (sectors fs1) s h" "numBytes h = ?n" "isdir h = 0" "file_sectors s h \<inter> marked b = {}"
    "\<forall>t \<in> marked b - file_sectors 1 r - set (data_list (hdr (freeMapFile fs))). sectors fs1 ! nat t = sectors fs ! nat t"
    "distinct (s # own_sectors h)" "fs1 = fs\<lparr>sectors := sectors fs1\<rparr>" by blast
  have parts: "freeMapFile fs1 = freeMapFile fs" "directoryFile fs1 = directoryFile fs" "createLock fs1 = createLock fs"
    by (subst c(10), simp)+
  have d1: "stored_dir cfg (sectors fs1) 1 r dir1" using c(2) by (simp add: create_ready_def)
  have w1: "wf_sectors cfg (sectors fs1)" using c(4) by (simp add: stored_file_def wf_file_def)
  have root1: "root_open cfg fs1 r" using assms(3) w1 by (simp add: root_open_def parts wf_file_def)
  have find1: "Directory_Find dir1 p = s" using c(3) by simp
  obtain f where f: "FileSystem_Open cfg p fs1 = Some (Some f)" "same_file h (hdr f)" "wf_file cfg (hdr f) (sectors fs1)" "seekPosition f = 0"
    using open_root [OF r(1) root1 d1 assms(4,5) _ c(6)] c(4) find1 by blast
  have fh: "numBytes (hdr f) = ?n" "data_list (hdr f) = data_list h" using f(2) c(5) by (simp_all add: same_file_def)
  have lB: "length (file_bytes (hdr f) (sectors fs1)) = length contents"
    using wf_file_blocks(4) [OF f(3)] fh(1) by (simp add: file_bytes_def)
  obtain fs2 where l: "Copy_loop cfg contents f fs1 = Some fs2" "fs2 = fs1\<lparr>sectors := sectors fs2\<rparr>" "wf_sectors cfg (sectors fs2)"
    "file_bytes (hdr f) (sectors fs2) = contents" "\<forall>s. s \<notin> nat ` set (data_list h) \<longrightarrow> sectors fs2 ! s = sectors fs1 ! s"
    using Copy_loop_ok [OF f(3), of contents] f(4) fh assms(7) lB by auto
  have parts2: "freeMapFile fs2 = freeMapFile fs1" "directoryFile fs2 = directoryFile fs1" "createLock fs2 = createLock fs1"
    by (subst l(2), simp)+
  have dl: "set (data_list h) \<subseteq> {0..}" using c(4) by (auto simp: stored_file_def wf_file_def)
  have same: "sectors fs2 ! nat t = sectors fs1 ! nat t" if "0 \<le> t" "t \<notin> set (data_list h)" for t
    using that dl by (intro unchanged_outside [OF l(5)])
  have out: "0 \<le> t \<and> t \<notin> set (data_list h)" if "t \<in> marked b" for t
    using that c(7) by (auto simp: file_sectors_def own_sectors_parts marked_def)
  have ready2: "create_ready cfg fs2 b1 1 r dir1"
    using assms(1) out same by (intro create_ready_frame [OF c(2) l(2,3)]) (auto simp: create_ready_def parts)
  have d2: "stored_dir cfg (sectors fs2) 1 r dir1" using ready2 by (simp add: create_ready_def)
  have root2: "root_open cfg fs2 r" using root1 l(3) by (simp add: root_open_def parts2 wf_file_def)
  have hs: "sectors fs2 ! nat t = sectors fs1 ! nat t" if "t \<in> insert s (set (chain h))" for t
  proof (rule same)
    show "0 \<le> t" using that c(4) by (auto simp: stored_file_def)
    show "t \<notin> set (data_list h)" using that c(9) by (auto simp: own_sectors_parts)
  qed
  have st2: "stored_file cfg (sectors fs2) s h"
    by (rule stored_file_frame [OF c(4) l(3)]) (use hs in simp_all)
  have "file_bytes h (sectors fs2) = contents" using same_file_bytes [OF f(2)] l(4) by simp
  moreover have "Copy cfg unix from p fs = Some fs2" using assms(6) c(1) f(1) l(1) by (simp add: Copy_def)
  moreover have "\<forall>t \<in> marked b - file_sectors 1 r - set (data_list (hdr (freeMapFile fs))). sectors fs2 ! nat t = sectors fs ! nat t"
    using c(8) out same by simp
  moreover have "\<not> createLock fs2" using assms(2) parts(3) parts2(3) by simp
  moreover have "\<forall>nm. key nm \<noteq> key p \<longrightarrow> Directory_Find dir1 nm = Directory_Find dir nm" using c(3) by simp
  ultimately show ?thesis using ready2 root2 c(6) st2 find1 by blast
qed



end
