(* ===== verification/Nachos_Config.thy ===== *)
theory Nachos_Config
  imports Nachos_FsMisc
begin

text \<open>
  The configuration file (\<open>utility/config.cc\<close>), and the commands on the file system that
  \<open>main\<close> takes from it (\<open>kernel/main.cc\<close>). \<open>fgets\<close> and \<open>sscanf\<close> of the standard library are modelled
  as far as the parser uses them. The constructor works on the memory of the new object, which
  is the argument \<open>c0\<close>: fields that it does not set are unspecified. \<open>fail\<close> ends the simulator.
\<close>

subsection \<open>The standard library\<close>

text \<open>\<open>fgets\<close> reads at most \<open>n\<close> characters, up to and with the first newline; the last result says that it met the end of the file.\<close>

fun fgets :: "nat \<Rightarrow> byte list \<Rightarrow> byte list \<times> byte list \<times> bool" where
  "fgets 0 inp = ([], inp, False)"
| "fgets (Suc n) [] = ([], [], True)"
| "fgets (Suc n) (c # cs) = (if c = 10 then ([c], cs, False) else let (l, rest, eof) = fgets n cs in (c # l, rest, eof))"

definition isspace :: "byte \<Rightarrow> bool" where
  "isspace c \<longleftrightarrow> c \<in> {9, 10, 11, 12, 13, 32}"

text \<open>The directives of \<open>sscanf\<close>: a space, \<open>=\<close>, \<open>%s\<close> and \<open>%i\<close>. Conversions skip white space.\<close>

definition skip_space :: "byte list \<Rightarrow> byte list" where
  "skip_space s = dropWhile isspace s"

definition scan_word :: "byte list \<Rightarrow> (byte list \<times> byte list) option" where
  "scan_word s =
     (let t = skip_space s; w = takeWhile (\<lambda>c. \<not> isspace c) t
      in if w = [] then None else Some (w, drop (length w) t))"

definition scan_equals :: "byte list \<Rightarrow> byte list option" where
  "scan_equals s = (case skip_space s of c # cs \<Rightarrow> (if c = 61 then Some cs else None) | [] \<Rightarrow> None)"

definition digit_value :: "byte \<Rightarrow> nat" where
  "digit_value c =
     (if 48 \<le> c \<and> c \<le> 57 then unat c - 48 else if 97 \<le> c \<and> c \<le> 122 then unat c - 87
      else if 65 \<le> c \<and> c \<le> 90 then unat c - 55 else 36)"

definition base_digits :: "nat \<Rightarrow> byte list \<Rightarrow> byte list" where
  "base_digits b s = takeWhile (\<lambda>c. digit_value c < b) s"

definition base_value :: "nat \<Rightarrow> byte list \<Rightarrow> nat" where
  "base_value b ds = foldl (\<lambda>v c. v * b + digit_value c) 0 ds"

text \<open>The prefix decides the base: \<open>0x\<close>, \<open>0\<close>, or none.\<close>

definition scan_digits :: "byte list \<Rightarrow> nat option" where
  "scan_digits s =
     (let b = (if take 2 s = [48, 120] \<or> take 2 s = [48, 88] then 16 else if take 1 s = [48] then 8 else 10);
          ds = base_digits b (if b = 16 then drop 2 s else s)
      in if ds = [] then None else Some (base_value b ds))"

text \<open>A number that is no \<open>int\<close> is undefined behaviour, a failed conversion ends the simulator: neither has a value.\<close>

definition scan_int :: "byte list \<Rightarrow> int option" where
  "scan_int s =
     (let t = skip_space s;
          v = (case t of [] \<Rightarrow> None
               | c # cs \<Rightarrow> (if c = 45 then map_option (\<lambda>n. - int n) (scan_digits cs)
                           else if c = 43 then map_option int (scan_digits cs) else map_option int (scan_digits t)))
      in case v of None \<Rightarrow> None | Some i \<Rightarrow> if int32 i then Some i else None)"

subsection \<open>The configuration\<close>

definition ACIA_NONE :: int where "ACIA_NONE = 0"
definition ACIA_BUSY_WAITING :: int where "ACIA_BUSY_WAITING = 1"
definition ACIA_INTERRUPT :: int where "ACIA_INTERRUPT = 2"
definition LINE_LENGTH :: nat where "LINE_LENGTH = 256"
definition COMMAND_LENGTH :: nat where "COMMAND_LENGTH = 80"

text \<open>The switches \<open>Print\<close> and \<open>Remove\<close> are \<open>doPrint\<close> and \<open>doRemove\<close>.\<close>

record Config = config +
  DiskSize :: int
  ACIA :: int
  NumDirect :: int
  NumPortLoc :: int
  NumPortDist :: int
  TargetMachineName :: "byte list"
  MagicNumber :: int
  MagicSize :: int
  NbCopy :: int
  ListDir :: bool
  PrintFileSyst :: bool
  PrintStat :: bool
  FormatDisk :: bool
  doPrint :: bool
  doRemove :: bool
  MakeDir :: bool
  RemoveDir :: bool
  ToCopyUnix :: "byte list list"
  ToCopyNachos :: "byte list list"
  ProgramToRun :: "byte list"
  FileToPrint :: "byte list"
  FileToRemove :: "byte list"
  DirToMake :: "byte list"
  DirToRemove :: "byte list"

definition defaults :: "Config \<Rightarrow> Config" where
  "defaults c = c\<lparr>SectorSize := 128, PageSize := 128, NumPhysPages := 20, MaxVirtPages := 1024, UserStackSize := 8 * 1024,
     ProcessorFrequency := 100, MaxFileNameSize := 256, NbCopy := 0, NumDirEntries := 10, NumPortLoc := 32009,
     NumPortDist := 32009, PrintStat := False, FormatDisk := False, ListDir := False, PrintFileSyst := False,
     doPrint := False, doRemove := False, MakeDir := False, RemoveDir := False, ACIA := ACIA_NONE, ProgramToRun := []\<rparr>"

definition str :: "string \<Rightarrow> byte list" where
  "str s = map of_char s"

definition int_command :: "byte list \<Rightarrow> int \<Rightarrow> Config \<Rightarrow> Config option" where
  "int_command commande v c =
     (if commande = str ''ProcessorFrequency'' then Some (c\<lparr>ProcessorFrequency := v\<rparr>)
      else if commande = str ''NumPhysPages'' then Some (c\<lparr>NumPhysPages := v\<rparr>)
      else if commande = str ''MaxVirtPages'' then Some (c\<lparr>MaxVirtPages := v\<rparr>)
      else if commande = str ''SectorSize'' then Some (c\<lparr>SectorSize := v\<rparr>)
      else if commande = str ''PageSize'' then Some (c\<lparr>PageSize := v\<rparr>)
      else if commande = str ''UserStackSize'' then Some (c\<lparr>UserStackSize := v\<rparr>)
      else if commande = str ''MaxFileNameSize'' then Some (c\<lparr>MaxFileNameSize := v\<rparr>)
      else if commande = str ''PrintStat'' then Some (c\<lparr>PrintStat := (v \<noteq> 0)\<rparr>)
      else if commande = str ''FormatDisk'' then Some (c\<lparr>FormatDisk := (v \<noteq> 0)\<rparr>)
      else if commande = str ''ListDir'' then Some (c\<lparr>ListDir := (v \<noteq> 0)\<rparr>)
      else if commande = str ''PrintFileSyst'' then Some (c\<lparr>PrintFileSyst := (v \<noteq> 0)\<rparr>)
      else if commande = str ''NumDirEntries'' then Some (c\<lparr>NumDirEntries := v\<rparr>)
      else if commande = str ''NumPortLoc'' then Some (c\<lparr>NumPortLoc := v\<rparr>)
      else if commande = str ''NumPortDist'' then Some (c\<lparr>NumPortDist := v\<rparr>)
      else None)"

definition int_names :: "byte list list" where
  "int_names = map str [''ProcessorFrequency'', ''NumPhysPages'', ''MaxVirtPages'', ''SectorSize'', ''PageSize'', ''UserStackSize'',
     ''MaxFileNameSize'', ''PrintStat'', ''FormatDisk'', ''ListDir'', ''PrintFileSyst'', ''NumDirEntries'', ''NumPortLoc'', ''NumPortDist'']"

text \<open>A word goes into an array of \<open>MAXSTRLEN\<close> bytes, without a test of its length.\<close>

definition word_command :: "byte list \<Rightarrow> byte list \<Rightarrow> Config \<Rightarrow> Config option" where
  "word_command commande w c =
     (if commande = str ''UseACIA'' then
        (if w = str ''None'' then Some (c\<lparr>ACIA := ACIA_NONE\<rparr>)
         else if w = str ''BusyWaiting'' then Some (c\<lparr>ACIA := ACIA_BUSY_WAITING\<rparr>)
         else if w = str ''Interrupt'' then Some (c\<lparr>ACIA := ACIA_INTERRUPT\<rparr>)
         else None)
      else if MAXSTRLEN \<le> length w then None
      else if commande = str ''TargetMachineName'' then Some (c\<lparr>TargetMachineName := w\<rparr>)
      else if commande = str ''ProgramToRun'' then Some (c\<lparr>ProgramToRun := w\<rparr>)
      else if commande = str ''FileToPrint'' then Some (c\<lparr>FileToPrint := w, doPrint := True\<rparr>)
      else if commande = str ''FileToRemove'' then Some (c\<lparr>FileToRemove := w, doRemove := True\<rparr>)
      else if commande = str ''DirToMake'' then Some (c\<lparr>DirToMake := w, MakeDir := True\<rparr>)
      else if commande = str ''DirToRemove'' then Some (c\<lparr>DirToRemove := w, RemoveDir := True\<rparr>)
      else None)"

definition word_names :: "byte list list" where
  "word_names = map str [''UseACIA'', ''TargetMachineName'', ''ProgramToRun'', ''FileToPrint'', ''FileToRemove'', ''DirToMake'', ''DirToRemove'']"

definition copy_command :: "byte list \<Rightarrow> byte list \<Rightarrow> Config \<Rightarrow> Config option" where
  "copy_command u n c =
     (if MAXSTRLEN \<le> length u \<or> MAXSTRLEN \<le> length n then None
      else do {
        us \<leftarrow> aset (ToCopyUnix c) (NbCopy c) u;
        ns \<leftarrow> aset (ToCopyNachos c) (NbCopy c) n;
        Some (c\<lparr>ToCopyUnix := us, ToCopyNachos := ns, NbCopy := NbCopy c + 1\<rparr>) })"

text \<open>One line. The first word is the command; the rest of the line is read again with the format of the command.\<close>

definition config_line :: "byte list \<Rightarrow> Config \<Rightarrow> Config option" where
  "config_line ligne c =
     (if ligne = [] \<or> hd ligne = 35 \<or> ligne = [10] then Some c
      else do {
        (commande, rest) \<leftarrow> scan_word ligne;
        if COMMAND_LENGTH \<le> length commande then None
        else if commande \<in> set int_names then do { t \<leftarrow> scan_equals rest; v \<leftarrow> scan_int t; int_command commande v c }
        else if commande \<in> set word_names then do { t \<leftarrow> scan_equals rest; (w, _) \<leftarrow> scan_word t; word_command commande w c }
        else if commande = str ''FileToCopy'' then do {
          t \<leftarrow> scan_equals rest; (u, t1) \<leftarrow> scan_word t; (n, _) \<leftarrow> scan_word t1; copy_command u n c }
        else None })"

text \<open>The loop. When \<open>fgets\<close> finds nothing, the line stays as it was; at first it is unspecified.\<close>

lemma fgets_shorter: "fgets n inp = (l, rest, eof) \<Longrightarrow> length inp = length l + length rest \<and> (l = [] \<longrightarrow> n = 0 \<or> eof)"
  by (induction n inp arbitrary: l rest eof rule: fgets.induct) (auto split: if_splits prod.splits)

function config_loop :: "byte list \<Rightarrow> bool \<Rightarrow> byte list option \<Rightarrow> Config \<Rightarrow> Config option" where
  "config_loop inp feof ligne c =
     (if feof then Some c
      else (case fgets (LINE_LENGTH - 1) inp of (l, rest, eof) \<Rightarrow>
        (case (if l = [] then ligne else Some (cstring l)) of
           None \<Rightarrow> None
         | Some s \<Rightarrow> do { c' \<leftarrow> config_line s c; config_loop rest eof (Some s) c' })))"
  by pat_completeness auto
termination
  by (relation "measure (\<lambda>(inp, feof, ligne, c). length inp + (if feof then 0 else 1))")
    (auto simp: LINE_LENGTH_def dest!: fgets_shorter [OF sym])

declare config_loop.simps [simp del]

text \<open>The end of the constructor. Sizes of the host are unsigned words of 64 bits.\<close>

definition power_of_two :: "int \<Rightarrow> bool" where
  "power_of_two n \<longleftrightarrow> (word_of_int n AND (word_of_int n - 1) :: u32) = 0"

definition to_int :: "64 word \<Rightarrow> int" where
  "to_int w = sint (ucast w :: u32)"

definition config_end :: "Config \<Rightarrow> Config option" where
  "config_end c =
     (let c1 = (if PageSize c \<noteq> SectorSize c then c\<lparr>PageSize := SectorSize c\<rparr> else c) in
      if \<not> power_of_two (SectorSize c1) then None
      else if \<not> int32 (4 + NUM_SECTORS * SectorSize c1) then None
      else Some (c1\<lparr>NumDirect := to_int ((word_of_int (SectorSize c1) - 16) div 4), MagicNumber := 0x456789ab, MagicSize := 4,
        DiskSize := 4 + NUM_SECTORS * SectorSize c1,
        DirectoryFileSize := to_int (of_nat entry_size * word_of_int (NumDirEntries c1))\<rparr>))"

definition Config_new :: "byte list option \<Rightarrow> Config \<Rightarrow> Config option" where
  "Config_new configfile c0 = do {
     inp \<leftarrow> configfile;
     c \<leftarrow> config_loop inp False None (defaults c0);
     config_end c }"

subsection \<open>The commands of \<open>main\<close>\<close>

text \<open>The result has what has been printed by \<open>Print\<close>; the two listings of the file system change nothing and are left out.\<close>

definition copy_files :: "Config \<Rightarrow> (byte list \<Rightarrow> byte list option) \<Rightarrow> filesystem \<Rightarrow> filesystem option" where
  "copy_files c unix = foldM (\<lambda>i fs. do {
     u \<leftarrow> aget (ToCopyUnix c) (int i);
     n \<leftarrow> aget (ToCopyNachos c) (int i);
     if u \<noteq> [] \<and> n \<noteq> [] then Copy (config.truncate c) unix u n fs else Some fs }) [0..<nat (NbCopy c)]"

definition file_commands :: "Config \<Rightarrow> (byte list \<Rightarrow> byte list option) \<Rightarrow> filesystem \<Rightarrow> (byte list \<times> filesystem) option" where
  "file_commands c unix fs = do {
     let cfg = config.truncate c;
     fs1 \<leftarrow> (if doRemove c then map_option snd (FileSystem_Remove cfg (FileToRemove c) fs) else Some fs);
     fs2 \<leftarrow> (if MakeDir c then map_option snd (Mkdir cfg (DirToMake c) fs1) else Some fs1);
     fs3 \<leftarrow> (if RemoveDir c then map_option snd (Rmdir cfg (DirToRemove c) fs2) else Some fs2);
     fs4 \<leftarrow> copy_files c unix fs3;
     out \<leftarrow> (if doPrint c then Print cfg (FileToPrint c) fs4 else Some []);
     Some (out, fs4) }"

end
