(* ===== verification/Nachos_ConfigProps.thy ===== *)
theory Nachos_ConfigProps
  imports Nachos_Config Nachos_Printf
begin

text \<open>
  What a configuration file stands for: files that are written as lines of settings, the last of
  which is read twice; what every accepted configuration satisfies; and what \<open>main\<close> does with a copy in
  the last line.
\<close>

subsection \<open>Lines\<close>

datatype item =
    Number "byte list" int
  | Word_item "byte list" "byte list"
  | Copy_item "byte list" "byte list"
  | Comment "byte list"
  | Blank

fun render :: "item \<Rightarrow> byte list" where
  "render (Number n v) = n @ [32, 61, 32] @ decimal v @ [10]"
| "render (Word_item n w) = n @ [32, 61, 32] @ w @ [10]"
| "render (Copy_item u p) = str ''FileToCopy'' @ [32, 61, 32] @ u @ [32] @ p @ [10]"
| "render (Comment t) = 35 # t @ [10]"
| "render Blank = [10]"

fun meaning :: "item \<Rightarrow> Config \<Rightarrow> Config option" where
  "meaning (Number n v) c = int_command n v c"
| "meaning (Word_item n w) c = word_command n w c"
| "meaning (Copy_item u p) c = copy_command u p c"
| "meaning (Comment t) c = Some c"
| "meaning Blank c = Some c"

definition good_word :: "byte list \<Rightarrow> bool" where
  "good_word w \<longleftrightarrow> w \<noteq> [] \<and> (\<forall>x \<in> set w. \<not> isspace x \<and> x \<noteq> 0)"

fun item_parts_ok :: "item \<Rightarrow> bool" where
  "item_parts_ok (Number n v) = (n \<in> set int_names \<and> int32 v)"
| "item_parts_ok (Word_item n w) = (n \<in> set word_names \<and> good_word w)"
| "item_parts_ok (Copy_item u p) = (good_word u \<and> good_word p)"
| "item_parts_ok (Comment t) = (10 \<notin> set t \<and> 0 \<notin> set t)"
| "item_parts_ok Blank = True"

text \<open>The lines fit into the buffer of \<open>fgets\<close>.\<close>

definition item_ok :: "item \<Rightarrow> bool" where
  "item_ok i \<longleftrightarrow> item_parts_ok i \<and> length (render i) < LINE_LENGTH"

subsection \<open>Scanning\<close>

lemma scan_word_ok:
  assumes "good_word w" "isspace x"
  shows "scan_word (w @ x # t) = Some (w, x # t)" "scan_word (32 # w @ x # t) = Some (w, x # t)"
proof -
  obtain y ys where w: "w = y # ys" "\<not> isspace y" using assms(1) by (cases w) (auto simp: good_word_def)
  have s: "skip_space (w @ x # t) = w @ x # t" using w by (simp add: skip_space_def)
  have t: "takeWhile (\<lambda>c. \<not> isspace c) (w @ x # t) = w"
    using assms by (simp add: good_word_def takeWhile_append2)
  show 1: "scan_word (w @ x # t) = Some (w, x # t)" using assms(1) by (simp add: scan_word_def s t Let_def good_word_def)
  have "skip_space (32 # w @ x # t) = w @ x # t" using s by (simp add: skip_space_def isspace_def)
  then show "scan_word (32 # w @ x # t) = Some (w, x # t)" using 1 by (simp add: scan_word_def s)
qed

lemma scan_equals_ok: "scan_equals (32 # 61 # t) = Some t"
  by (simp add: scan_equals_def skip_space_def isspace_def)

lemma digit_value_digit: "48 \<le> uint x \<Longrightarrow> uint x \<le> 57 \<Longrightarrow> digit_value x = nat (uint x - 48) \<and> digit_value x < 10 \<and> \<not> isspace x \<and> x \<noteq> 0"
proof -
  assume x: "48 \<le> uint x" "uint x \<le> 57"
  have "48 \<le> x \<and> x \<le> 57" using x by (simp add: word_le_def)
  moreover have "int (unat x) = uint x" by simp
  then have "unat x - 48 = nat (uint x - 48)" "nat (uint x - 48) < 10" using x by linarith+
  moreover have "x \<notin> {0, 9, 10, 11, 12, 13, 32}" using x by auto
  ultimately show ?thesis using x unfolding digit_value_def isspace_def by auto
qed

lemma digits_values:
  shows "x \<in> set (digits n) \<Longrightarrow> digit_value x < 10 \<and> \<not> isspace x \<and> x \<noteq> 0" and "base_value 10 (digits n) = n"
proof -
  show "x \<in> set (digits n) \<Longrightarrow> digit_value x < 10 \<and> \<not> isspace x \<and> x \<noteq> 0"
    using digits_digit digit_value_digit by blast
  have "int (foldl (\<lambda>v c. v * 10 + digit_value c) v ds) = foldl (\<lambda>v d. v * 10 + (uint d - 48)) (int v) ds"
    if "\<forall>d \<in> set ds. 48 \<le> uint d \<and> uint d \<le> 57" for v ds
    using that by (induction ds arbitrary: v) (simp_all add: digit_value_digit)
  from this [of "digits n" 0] have "int (base_value 10 (digits n)) = int n"
    using digits_digit value_of_digits [of n] by (auto simp: base_value_def value_of_def)
  then show "base_value 10 (digits n) = n" by simp
qed

lemma digits_hd: "\<exists>d ds. digits n = d # ds \<and> (d = 48 \<longrightarrow> n = 0 \<and> ds = [])"
proof (induction n rule: digits.induct)
  case (1 n)
  show ?case
  proof (cases "n < 10")
    case True
    have "of_nat n = (0 :: byte) \<Longrightarrow> n = 0" using True by (auto simp: word_of_nat_eq_0_iff dest: dvd_imp_le)
    then show ?thesis using True by (subst digits.simps) (simp add: add_eq_self_zero)
  next
    case False
    then obtain d ds where "digits (n div 10) = d # ds" "d = 48 \<longrightarrow> n div 10 = 0" using 1 by blast
    then show ?thesis using False by (subst digits.simps) auto
  qed
qed

lemma scan_digits_ok: "scan_digits (digits n @ [10]) = Some n"
proof -
  obtain d ds where d: "digits n = d # ds" "d = 48 \<longrightarrow> n = 0 \<and> ds = []" using digits_hd by blast
  have e: "digit_value 10 = 36" by (simp add: digit_value_def)
  have t: "base_digits 10 (digits n @ [10]) = digits n"
    unfolding base_digits_def using digits_values(1) e by (subst takeWhile_append2) auto
  show ?thesis
  proof (cases "d = 48")
    case True
    then have "digits n = [48]" "n = 0" using d by auto
    then show ?thesis by (simp add: scan_digits_def Let_def base_digits_def base_value_def digit_value_def)
  next
    case False
    then have "scan_digits (digits n @ [10]) = (if base_digits 10 (digits n @ [10]) = [] then None else Some (base_value 10 (base_digits 10 (digits n @ [10]))))"
      using d(1) by (simp add: scan_digits_def Let_def)
    then show ?thesis unfolding t using d(1) digits_values(2) [of n] by simp
  qed
qed

lemma scan_int_ok:
  assumes "int32 v"
  shows "scan_int (32 # decimal v @ [10]) = Some v"
proof -
  obtain d ds where d: "digits (nat v) = d # ds" using digits_hd by blast
  have "d \<in> set (digits (nat v))" by (simp add: d)
  then have x: "48 \<le> uint d" "uint d \<le> 57" using digits_digit by blast+
  then have "\<not> isspace d" using digit_value_digit by blast
  moreover have "d \<noteq> 45" "d \<noteq> 43" using x by auto
  moreover have "\<not> isspace 45" "isspace 32" by (simp_all add: isspace_def)
  ultimately show ?thesis
    using assms scan_digits_ok [of "nat v"] scan_digits_ok [of "nat (- v)"] d
    by (cases "v < 0") (auto simp: scan_int_def decimal_def skip_space_def Let_def)
qed

lemma names_ok:
  assumes "n \<in> set int_names \<union> set word_names \<union> {str ''FileToCopy''}"
  shows "good_word n" "length n < COMMAND_LENGTH" "hd n \<noteq> 35"
proof -
  have "\<forall>n \<in> set (int_names @ word_names @ [str ''FileToCopy'']). good_word n \<and> length n < COMMAND_LENGTH \<and> hd n \<noteq> 35"
    by code_simp
  then show "good_word n" "length n < COMMAND_LENGTH" "hd n \<noteq> 35" using assms by auto
qed

lemma names_apart:
  "n \<in> set word_names \<Longrightarrow> n \<notin> set int_names" "str ''FileToCopy'' \<notin> set int_names" "str ''FileToCopy'' \<notin> set word_names"
proof -
  have "\<forall>n \<in> set word_names. n \<notin> set int_names" by code_simp
  then show "n \<in> set word_names \<Longrightarrow> n \<notin> set int_names" by blast
  show "str ''FileToCopy'' \<notin> set int_names" "str ''FileToCopy'' \<notin> set word_names" by code_simp+
qed

lemma config_line_ok:
  assumes "item_ok i"
  shows "config_line (render i) c = meaning i c"
proof -
  have sp: "isspace 32" "isspace 10" by (simp_all add: isspace_def)
  have named: "config_line (n @ 32 # t) c = (do {
        (commande, rest) \<leftarrow> Some (n, 32 # t);
        if COMMAND_LENGTH \<le> length commande then None
        else if commande \<in> set int_names then do { t \<leftarrow> scan_equals rest; v \<leftarrow> scan_int t; int_command commande v c }
        else if commande \<in> set word_names then do { t \<leftarrow> scan_equals rest; (w, _) \<leftarrow> scan_word t; word_command commande w c }
        else if commande = str ''FileToCopy'' then do {
          t \<leftarrow> scan_equals rest; (u, t1) \<leftarrow> scan_word t; (n, _) \<leftarrow> scan_word t1; copy_command u n c }
        else None })"
    if n: "n \<in> set int_names \<union> set word_names \<union> {str ''FileToCopy''}" for n t
  proof -
    obtain y ys where y: "n = y # ys" using names_ok(1) [OF n] by (cases n) (auto simp: good_word_def)
    have "y \<noteq> 35" using names_ok(3) [OF n] y by simp
    then show ?thesis
      using y unfolding config_line_def scan_word_ok(1) [OF names_ok(1) [OF n] sp(1)] by auto
  qed
  show ?thesis
  proof (cases i)
    case (Number n v)
    then show ?thesis using assms named [of n "61 # 32 # decimal v @ [10]"] names_ok(2) [of n] scan_int_ok
      by (simp add: item_ok_def scan_equals_ok)
  next
    case (Word_item n w)
    then have n: "n \<in> set word_names" "good_word w" using assms by (simp_all add: item_ok_def)
    then show ?thesis using Word_item named [of n "61 # 32 # w @ [10]"] names_ok(2) [of n] names_apart(1) [OF n(1)] scan_word_ok(2) [OF n(2) sp(2), of "[]"]
      by (simp add: scan_equals_ok)
  next
    case (Copy_item u p)
    then have w: "good_word u" "good_word p" using assms by (simp_all add: item_ok_def)
    then show ?thesis
      using Copy_item named [of "str ''FileToCopy''" "61 # 32 # u @ 32 # p @ [10]"] names_ok(2) [of "str ''FileToCopy''"] names_apart(2,3)
        scan_word_ok(2) [OF w(1) sp(1), of "p @ [10]"] scan_word_ok(2) [OF w(2) sp(2), of "[]"]
      by (simp add: scan_equals_ok)
  qed (simp_all add: config_line_def)
qed

subsection \<open>The file\<close>

lemma decimal_plain: "x \<in> set (decimal v) \<Longrightarrow> x \<noteq> 10 \<and> x \<noteq> 0"
proof -
  assume "x \<in> set (decimal v)"
  then consider "x = 45" | n where "x \<in> set (digits n)" by (auto simp: decimal_def split: if_splits)
  then show ?thesis
  proof cases
    case 2
    then have "\<not> isspace x \<and> x \<noteq> 0" using digits_values(1) by blast
    then show ?thesis by (auto simp: isspace_def)
  qed simp
qed

lemma render_line:
  assumes "item_parts_ok i"
  shows "\<exists>t. render i = t @ [10] \<and> 10 \<notin> set t \<and> 0 \<notin> set t"
proof -
  have w: "10 \<notin> set w \<and> 0 \<notin> set w" if "good_word w" for w using that by (auto simp: good_word_def isspace_def)
  have n: "10 \<notin> set n \<and> 0 \<notin> set n" if "n \<in> set int_names \<union> set word_names \<union> {str ''FileToCopy''}" for n
    using w names_ok(1) [OF that] by blast
  show ?thesis
  proof (cases i)
    case (Number n v)
    then have "10 \<notin> set n \<and> 0 \<notin> set n" using n [of n] assms by simp
    then show ?thesis using Number decimal_plain [of _ v] by (intro exI [of _ "n @ [32, 61, 32] @ decimal v"]) auto
  next
    case (Word_item n v)
    then show ?thesis using n [of n] w [of v] assms by (intro exI [of _ "n @ [32, 61, 32] @ v"]) auto
  next
    case (Copy_item u p)
    then show ?thesis using n [of "str ''FileToCopy''"] w [of u] w [of p] assms
      by (intro exI [of _ "str ''FileToCopy'' @ [32, 61, 32] @ u @ [32] @ p"]) auto
  next
    case (Comment t)
    then show ?thesis using assms by (intro exI [of _ "35 # t"]) auto
  qed simp
qed

lemma fgets_line: "10 \<notin> set t \<Longrightarrow> length t < n \<Longrightarrow> fgets n (t @ 10 # rest) = (t @ [10], rest, False)"
proof (induction t arbitrary: n)
  case Nil
  then show ?case by (cases n) auto
next
  case (Cons x t)
  then show ?case by (cases n) auto
qed

lemma config_loop_item:
  assumes "item_ok i"
  shows "config_loop (render i @ rest) False ligne c = do { c' \<leftarrow> meaning i c; config_loop rest False (Some (render i)) c' }"
proof -
  obtain t where t: "render i = t @ [10]" "10 \<notin> set t" "0 \<notin> set t" using render_line assms by (auto simp: item_ok_def)
  have "fgets (LINE_LENGTH - 1) (render i @ rest) = (render i, rest, False)"
    using fgets_line [OF t(2), of "LINE_LENGTH - 1" rest] assms t(1) by (simp add: item_ok_def less_diff_conv)
  moreover have "cstring (render i) = render i"
    unfolding cstring_def using t(1,3) by (auto simp: takeWhile_eq_all_conv)
  ultimately show ?thesis using t(1) config_line_ok [OF assms] by (subst config_loop.simps) simp
qed

text \<open>At the end of the file \<open>fgets\<close> finds nothing, and the last line is read again.\<close>

lemma config_loop_end: "config_loop [] False (Some s) c = config_line s c"
proof -
  have "LINE_LENGTH - 1 = Suc 254" by (simp add: LINE_LENGTH_def)
  then have "fgets (LINE_LENGTH - 1) [] = ([], [], True)" by (simp only: fgets.simps)
  moreover have "config_loop [] True (Some s) = Some" by (rule ext, subst config_loop.simps) simp
  ultimately show ?thesis by (subst config_loop.simps) simp
qed

lemma config_loop_items:
  assumes "\<forall>i \<in> set is. item_ok i"
  shows "config_loop (concat (map render is)) False (Some s) c
    = do { c' \<leftarrow> foldM meaning is c; config_line (last (s # map render is)) c' }"
  using assms
proof (induction "is" arbitrary: s c)
  case Nil
  then show ?case by (simp add: config_loop_end)
next
  case (Cons i "is")
  then show ?case using config_loop_item [of i "concat (map render is)" "Some s" c] by (simp add: bind_assoc)
qed

text \<open>
  C25. The configuration file. For every file of at least one line, in which each line gives a parameter of the
  parser a value, names a file to copy, is a comment, or is empty, the constructor sets the
  defaults, then what the lines say in their order, and after them what the last line
  says once more; then it checks and completes the result. Lines are up to 255 characters long
  and names up to the size of their arrays; numbers are in decimal.
\<close>
theorem config_file_read:
  assumes "is \<noteq> []" "\<forall>i \<in> set is. item_ok i"
  shows "Config_new (Some (concat (map render is))) c0
    = do { c \<leftarrow> foldM meaning (is @ [last is]) (defaults c0); config_end c }"
proof -
  obtain i ks where i: "is = i # ks" using assms(1) by (cases "is") auto
  have l: "last (render i # map render ks) = render (last is)" using i by (simp add: last_map)
  have ok: "\<forall>i \<in> set ks. item_ok i" "item_ok (last is)" using i assms by simp_all
  then have m: "config_line (render (last is)) = meaning (last is)" "foldM meaning [last is] = meaning (last is)"
    by (intro ext, simp add: config_line_ok)+
  have "config_loop (concat (map render ks)) False (Some (render i)) c = do { c' \<leftarrow> foldM meaning ks c; meaning (last is) c' }" for c
    using config_loop_items [OF ok(1), of "render i" c] by (simp only: l m(1))
  then have "config_loop (concat (map render is)) False None c = foldM meaning (is @ [last is]) c" for c
    unfolding foldM_append m(2) using config_loop_item [of i "concat (map render ks)" None c] i assms(2) by (simp add: bind_assoc)
  then show ?thesis by (simp add: Config_new_def)
qed

subsection \<open>Accepted configurations\<close>

lemma bit_top: "(2 :: int) ^ k \<le> m \<Longrightarrow> m < 2 ^ Suc k \<Longrightarrow> bit m k"
proof -
  assume m: "(2 :: int) ^ k \<le> m" "m < 2 ^ Suc k"
  have "m div 2 ^ k = 1"
    using m by (intro div_pos_geq [THEN trans]) (simp_all add: div_pos_pos_trivial)
  then show ?thesis by (simp add: bit_iff_odd)
qed

lemma power_of_two_only:
  assumes "0 < n" "n < 2 ^ 32" "power_of_two n"
  shows "\<exists>k. n = 2 ^ k"
proof -
  obtain k where k: "2 ^ k \<le> nat n" "nat n < 2 ^ Suc k"
    using ex_power_ivl1 [of 2 "nat n"] assms(1) by (metis One_nat_def Suc_eq_plus1 Suc_leI order_refl zero_less_nat_eq)
  then have n: "2 ^ k \<le> n" "n < 2 ^ Suc k" using assms(1) by (simp_all add: le_nat_iff nat_less_iff)
  have "(2 :: int) ^ k < 2 ^ 32" using n(1) assms(2) by linarith
  then have k32: "k < 32" by (simp only: power_strict_increasing_iff)
  show ?thesis
  proof (rule ccontr)
    assume "\<not> ?thesis"
    then have "n \<noteq> 2 ^ k" by blast
    then have "2 ^ k \<le> n - 1" using n(1) by linarith
    then have b: "bit n k" "bit (n - 1) k" using bit_top n by auto
    have w: "(word_of_int n - 1 :: u32) = word_of_int (n - 1)" by simp
    have "k < LENGTH(32)" using k32 by simp
    then have "bit (word_of_int n AND (word_of_int n - 1) :: u32) k"
      unfolding bit_and_iff w using b by (simp only: bit_word_of_int_iff simp_thms)
    then show False using assms(3) by (simp add: power_of_two_def)
  qed
qed

text \<open>
  C27. What the constructor accepts. Every accepted configuration has pages of the size of sectors, and that size is
  0 or a power of two below \<open>2 ^ 20\<close>; from 32 on, the sectors hold the file headers
  of the file system. The directory file is as long as its entries, when that is an \<open>int\<close>. The size 0 does pass the test of a power of two.
\<close>
theorem accepted_sizes:
  assumes "Config_new configfile c0 = Some c"
  shows "PageSize c = SectorSize c \<and> (SectorSize c = 0 \<or> (\<exists>k < 20. SectorSize c = 2 ^ k))
    \<and> (32 \<le> SectorSize c \<longrightarrow> sector_ok (config.truncate c))
    \<and> (int32 (NumDirEntries c * int entry_size) \<longrightarrow> DirectoryFileSize c = NumDirEntries c * int entry_size)"
proof -
  obtain c1 where c1: "config_end c1 = Some c" using assms by (auto simp: Config_new_def split: bind_splits)
  then have c: "power_of_two (SectorSize c)" "int32 (4 + 2048 * SectorSize c)" "PageSize c = SectorSize c"
    "DirectoryFileSize c = to_int (of_nat entry_size * word_of_int (NumDirEntries c))"
    by (auto simp: config_end_def Let_def split: if_splits)
  have r: "- (2 ^ 20) - 1 < SectorSize c" "SectorSize c < 2 ^ 20" using c(2) by (auto simp: int32_def)
  have pos: "0 \<le> SectorSize c"
  proof (rule ccontr)
    assume neg: "\<not> ?thesis"
    have "word_of_int (SectorSize c + 2 ^ 32) = (word_of_int (SectorSize c) :: u32)"
      by (simp only: word_of_int_eq_iff take_bit_eq_mod) simp
    then have "power_of_two (SectorSize c + 2 ^ 32)" using c(1) by (simp only: power_of_two_def)
    then obtain k where k: "SectorSize c + 2 ^ 32 = 2 ^ k" using power_of_two_only neg r by force
    moreover have "(2 :: int) ^ 31 + 2 ^ 20 + 1 \<le> 2 ^ 32" by simp
    ultimately have "(2 :: int) ^ k < 2 ^ 32" "(2 :: int) ^ 31 < 2 ^ k" using neg r by linarith+
    then show False by (simp only: power_strict_increasing_iff)
  qed
  have two: "SectorSize c = 0 \<or> (\<exists>k < 20. SectorSize c = 2 ^ k)"
  proof (cases "SectorSize c = 0")
    case False
    then obtain k where k: "SectorSize c = 2 ^ k" using power_of_two_only [of "SectorSize c"] c(1) pos r by force
    then have "(2 :: int) ^ k < 2 ^ 20" using r by linarith
    then have "k < 20" by (simp only: power_strict_increasing_iff)
    then show ?thesis using k by blast
  qed simp
  have "sector_ok (config.truncate c)" if big: "32 \<le> SectorSize c"
  proof -
    obtain k where k: "SectorSize c = 2 ^ k" using two big by auto
    then have "2 \<le> k" using big by (cases "k < 2") (auto simp: less_2_cases_iff)
    then have "(2 :: int) ^ 2 dvd 2 ^ k" by (rule le_imp_power_dvd)
    then show ?thesis using big k by (simp add: sector_ok_def config.defs)
  qed
  moreover have "DirectoryFileSize c = NumDirEntries c * int entry_size" if d: "int32 (NumDirEntries c * int entry_size)"
  proof -
    have "of_nat entry_size * word_of_int (NumDirEntries c) = (word_of_int (NumDirEntries c * int entry_size) :: 64 word)"
      by (simp add: mult.commute)
    moreover have "ucast (word_of_int x :: 64 word) = (word_of_int x :: u32)" for x
      by (rule bit_word_eqI) (auto simp: bit_simps)
    ultimately have "to_int (of_nat entry_size * word_of_int (NumDirEntries c)) = sint (word_of_int (NumDirEntries c * int entry_size) :: u32)"
      by (simp only: to_int_def)
    then show ?thesis using c(4) sint_word_of_int32 [OF d] by simp
  qed
  ultimately show ?thesis using c(3) two by blast
qed

subsection \<open>A copy in the last line\<close>

lemma copy_again:
  assumes "create_ready cfg fs b 1 r dir" "\<not> createLock fs" "root_open cfg fs r" "slash \<notin> set p"
    and "int (length p) < MaxFileNameSize cfg" "0 \<le> Directory_Find dir p"
  shows "Copy cfg unix u p fs = None"
proof -
  have r: "sector_ok cfg" "stored_dir cfg (sectors fs) 1 r dir" using assms(1) by (simp_all add: create_ready_def)
  obtain f where "fetch_dir cfg 1 fs = Some (f, dir)" using stored_dir_fetch [OF r] by blast
  then have "\<exists>fs1. Create cfg p n fs = Some (AlreadyInDirectory, fs1)" for n
    using assms(2,5,6) FindDir_root [OF assms(3) r(2) assms(4)]
    by (simp add: Create_def Acquire_create_def copy_name_def FindDir_lock fetch_lock)
  then show ?thesis by (auto simp: Copy_def split: option.split bind_splits) (metis ErrorCode.distinct option.inject prod.inject)
qed

lemma config_end_keeps:
  assumes "config_end c = Some c'"
  shows "NbCopy c' = NbCopy c" "ToCopyUnix c' = ToCopyUnix c" "ToCopyNachos c' = ToCopyNachos c"
    "doRemove c' = doRemove c" "MakeDir c' = MakeDir c" "RemoveDir c' = RemoveDir c"
  using assms by (auto simp: config_end_def Let_def split: if_splits)

text \<open>
  C26. A file to copy in the last line. The line is read twice, so the copy is commanded twice.
  Even if the disk and the host are ready for it, the first copy succeeds and the second, whose
  name is in the directory by then, ends the simulator.
\<close>
theorem copy_in_last_line:
  assumes "\<forall>i \<in> set is. item_ok i" "item_ok (Copy_item u p)" "length u < MAXSTRLEN" "length p < MAXSTRLEN"
    and "foldM meaning is (defaults c0) = Some c1" "NbCopy c1 = 0" "\<not> doRemove c1" "\<not> MakeDir c1" "\<not> RemoveDir c1"
    and "length (ToCopyUnix c1) = 100" "length (ToCopyNachos c1) = 100"
    and "Config_new (Some (concat (map render (is @ [Copy_item u p])))) c0 = Some c" "cfg = config.truncate c"
    and "create_ready cfg fs b 1 r dir" "\<not> createLock fs" "root_open cfg fs r" "slash \<notin> set p"
    and "int (length p) < MaxFileNameSize cfg" "unix u = Some contents" "int (length contents) \<le> MAX_FILE_LENGTH cfg"
    and "Directory_Find dir p = - 1" "\<exists>e\<in>set dir. \<not> inUse e"
    and "1 + data_count cfg (int (length contents)) + header_count cfg (int (length contents)) \<le> int (card (free_bits b))"
  shows "NbCopy c = 2 \<and> (\<exists>fs'. Copy cfg unix u p fs = Some fs') \<and> file_commands c unix fs = None"
proof -
  let ?c2 = "c1\<lparr>ToCopyUnix := (ToCopyUnix c1)[0 := u], ToCopyNachos := (ToCopyNachos c1)[0 := p], NbCopy := 1\<rparr>"
  let ?c3 = "?c2\<lparr>ToCopyUnix := (ToCopyUnix c1)[0 := u, 1 := u], ToCopyNachos := (ToCopyNachos c1)[0 := p, 1 := p], NbCopy := 2\<rparr>"
  have "copy_command u p c1 = Some ?c2" using assms(3,4,6,10,11) by (simp add: copy_command_def aset_def not_le)
  moreover have "copy_command u p ?c2 = Some ?c3" using assms(3,4,10,11) by (simp add: copy_command_def aset_def not_le)
  ultimately have "foldM meaning ((is @ [Copy_item u p]) @ [Copy_item u p]) (defaults c0) = Some ?c3"
    using assms(5) by (simp add: foldM_append)
  then have e: "config_end ?c3 = Some c"
    using config_file_read [of "is @ [Copy_item u p]" c0] assms(1,2,12) by auto
  note k = config_end_keeps [OF e]
  have n: "u \<noteq> []" "p \<noteq> []" using assms(2) by (auto simp: item_ok_def good_word_def)
  obtain fs' h b' dir' where fs': "Copy cfg unix u p fs = Some fs'" "stored_file cfg (sectors fs') (Directory_Find dir' p) h"
    "create_ready cfg fs' b' 1 r dir'" "\<not> createLock fs'" "root_open cfg fs' r"
    using copy_ok [where unix = unix, OF assms(14-23)] by blast
  have "Copy cfg unix u p fs' = None"
    using copy_again [OF fs'(3-5) assms(17,18)] fs'(2) by (simp add: stored_file_def)
  moreover have "[0..<2] = [0, 1 :: nat]" by (simp add: upt_rec)
  ultimately have "copy_files c unix fs = None"
    using k(1-3) n fs'(1) assms(10,11,13) by (simp add: copy_files_def aget_def)
  then show ?thesis using k fs'(1) assms(7-9) by (simp add: file_commands_def Let_def)
qed

subsection \<open>An example\<close>

definition zero_config :: Config where
  "zero_config = config.extend tiny_cfg (Config.fields 0 0 0 0 0 [] 0 0 0 False False False False False False False False
     (replicate 100 []) (replicate 100 []) [] [] [] [] [])"

definition dir_line :: item where "dir_line = Number (str ''NumDirEntries'') 3"
definition copy_line :: item where "copy_line = Copy_item [117] [97]"

lemma demo_lines: "item_ok dir_line" "item_ok copy_line" "render dir_line = str ''NumDirEntries = 3'' @ [10]"
proof -
  have d: "digits 3 = [51]" by (subst digits.simps) simp
  show "render dir_line = str ''NumDirEntries = 3'' @ [10]" by (simp add: dir_line_def decimal_def d str_def)
  then show "item_ok dir_line" by (simp add: item_ok_def dir_line_def int_names_def int32_def str_def LINE_LENGTH_def)
  show "item_ok copy_line" by (simp add: item_ok_def copy_line_def good_word_def isspace_def str_def LINE_LENGTH_def)
qed

definition one_config :: Config where
  "one_config = (defaults zero_config)\<lparr>NumDirEntries := 3\<rparr>"

lemma dir_meaning: "meaning dir_line c = Some (c\<lparr>NumDirEntries := 3\<rparr>)"
  by (simp add: dir_line_def int_command_def str_def)

lemma one_config_parts:
  "foldM meaning [dir_line] (defaults zero_config) = Some one_config" "foldM meaning [dir_line, dir_line] (defaults zero_config) = Some one_config"
  "NbCopy one_config = 0" "\<not> doRemove one_config" "\<not> MakeDir one_config" "\<not> RemoveDir one_config"
  "length (ToCopyUnix one_config) = 100" "length (ToCopyNachos one_config) = 100" "SectorSize one_config = 128" "NumDirEntries one_config = 3"
  "MaxFileNameSize one_config = 256"
  by (simp_all add: one_config_def defaults_def zero_config_def dir_meaning config.defs Config.defs)

lemma config_end_ok:
  assumes "SectorSize c = 128" "NumDirEntries c = 3"
  shows "\<exists>c'. config_end c = Some c' \<and> SectorSize c' = 128 \<and> NumDirEntries c' = 3 \<and> DirectoryFileSize c' = 276
    \<and> MaxFileNameSize c' = MaxFileNameSize c \<and> fresh c' = fresh c"
proof -
  have "power_of_two 128" "to_int (of_nat entry_size * word_of_int 3) = 276" by (simp_all add: power_of_two_def to_int_def entry_size_def)
  then show ?thesis using assms by (simp add: config_end_def Let_def int32_def)
qed

theorem config_file_read_witness:
  "\<exists>c. Config_new (Some (str ''NumDirEntries = 3'' @ [10])) zero_config = Some c \<and> NumDirEntries c = 3 \<and> NbCopy c = 0"
proof -
  obtain c where c: "config_end one_config = Some c" "NumDirEntries c = 3"
    using config_end_ok one_config_parts(9,10) by blast
  have "Config_new (Some (concat (map render [dir_line]))) zero_config
      = do { c \<leftarrow> foldM meaning [dir_line, dir_line] (defaults zero_config); config_end c }"
    using config_file_read [of "[dir_line]" zero_config] demo_lines(1) by (simp del: foldM.simps)
  then have "Config_new (Some (concat (map render [dir_line]))) zero_config = config_end one_config"
    unfolding one_config_parts(2) by simp
  then show ?thesis using c config_end_keeps(1) [OF c(1)] one_config_parts(3) by (simp add: demo_lines(3))
qed

theorem accepted_sizes_witness:
  "\<exists>c. Config_new (Some []) zero_config = None \<and> Config_new (Some [10]) zero_config = Some c \<and> sector_ok (config.truncate c)"
proof -
  have r: "render Blank = [10]" by simp
  have "item_ok Blank" by (simp add: item_ok_def LINE_LENGTH_def)
  then have n: "Config_new (Some [10]) zero_config = config_end (defaults zero_config)"
    using config_file_read [of "[Blank]" zero_config] by simp
  have "power_of_two 128" by (simp add: power_of_two_def)
  then have "\<exists>c. config_end (defaults zero_config) = Some c \<and> SectorSize c = 128"
    by (simp add: defaults_def config_end_def Let_def int32_def)
  then obtain c where c: "Config_new (Some [10]) zero_config = Some c" "SectorSize c = 128" using n by auto
  have "LINE_LENGTH - 1 = Suc 254" by (simp add: LINE_LENGTH_def)
  then have "fgets (LINE_LENGTH - 1) [] = ([], [], True)" by (simp only: fgets.simps)
  then have "Config_new (Some []) zero_config = None" by (simp add: Config_new_def config_loop.simps [of "[]"])
  then show ?thesis using c accepted_sizes [OF c(1)] by auto
qed

text \<open>A disk formatted under the configuration that the file gives.\<close>

lemma read_formatted:
  assumes "SectorSize c = 128" "NumDirEntries c = 3" "DirectoryFileSize c = 276" "fresh c = (\<lambda>_. 0)"
  shows "\<exists>fs b r dir. \<not> createLock fs \<and> create_ready (config.truncate c) fs b 1 r dir \<and> root_open (config.truncate c) fs r
    \<and> Directory_Find dir [97] = - 1 \<and> (\<exists>e\<in>set dir. \<not> inUse e) \<and> 2041 \<le> int (card (free_bits b))"
proof -
  let ?g = "config.truncate c"
  have g: "SectorSize ?g = 128" "NumDirEntries ?g = 3" "DirectoryFileSize ?g = 276" "fresh ?g = (\<lambda>_. 0)"
    using assms by (simp_all add: config.defs)
  have n: "sector_ok ?g" "DatasInFirstSector ?g = 27" "DatasInSector ?g = 31" "MAX_FILE_LENGTH ?g = 126464"
    by (simp_all add: g sector_ok_def DatasInFirstSector_def DatasInSector_def MAX_FILE_LENGTH_def MAX_DATA_SECTORS_def MAX_HEADER_SECTORS_def)
  have i: "ints_ok ?g" by (simp add: ints_ok_def g n int32_def)
  have d: "data_count ?g 256 = 2" "data_count ?g 276 = 3" by (simp_all add: data_count_def divRoundUp_def g cint_simps)
  have h: "header_count ?g 256 = 0" "header_count ?g 276 = 0" unfolding header_count_def d n by (intro divRoundUp_neg; simp)+
  have w: "wf_sectors ?g blank_disk" by (simp add: wf_sectors_def blank_disk_def g)
  have f: "0 < NumDirEntries ?g" "DirectoryFileSize ?g = NumDirEntries ?g * int entry_size" "DirectoryFileSize ?g \<le> MAX_FILE_LENGTH ?g"
    "256 \<le> MAX_FILE_LENGTH ?g" "data_count ?g 256 + header_count ?g 256 + data_count ?g (DirectoryFileSize ?g)
      + header_count ?g (DirectoryFileSize ?g) \<le> 2046" by (simp_all add: g n d h entry_size_def)
  obtain fs b r where fs: "\<not> createLock fs" "create_ready ?g fs b 1 r (Directory_new ?g 3)" "root_open ?g fs r" "2041 \<le> int (card (free_bits b))"
    using format_ok [OF n(1) i w f] by (auto simp: g d h)
  note dn = Directory_new_wf [of ?g 3]
  have "Directory_new ?g 3 ! 0 \<in> set (Directory_new ?g 3)" using dn by (intro nth_mem) simp
  moreover have "\<not> inUse e" if "e \<in> set (Directory_new ?g 3)" for e using that by (auto simp: Directory_new_def)
  ultimately have "\<exists>e\<in>set (Directory_new ?g 3). \<not> inUse e" by blast
  moreover have "Directory_Find (Directory_new ?g 3) [97] = - 1" by (simp add: dir.lookup_spec dn)
  ultimately show ?thesis using fs by blast
qed

theorem copy_in_last_line_witness:
  "\<exists>c fs. Config_new (Some (concat (map render [dir_line, copy_line]))) zero_config = Some c \<and> NbCopy c = 2
     \<and> (\<exists>fs'. Copy (config.truncate c) [[117] \<mapsto> [1, 2, 3]] [117] [97] fs = Some fs')
     \<and> file_commands c [[117] \<mapsto> [1, 2, 3]] fs = None"
proof -
  have ok: "\<forall>i \<in> set [dir_line]. item_ok i" "item_ok (Copy_item [117] [97])" using demo_lines(1,2) by (simp_all add: copy_line_def)
  let ?c = "one_config\<lparr>ToCopyUnix := (ToCopyUnix one_config)[0 := [117], 1 := [117]],
     ToCopyNachos := (ToCopyNachos one_config)[0 := [97], 1 := [97]], NbCopy := 2\<rparr>"
  have m: "foldM meaning [dir_line, copy_line, copy_line] (defaults zero_config) = Some ?c"
    using one_config_parts by (simp add: dir_meaning copy_line_def copy_command_def MAXSTRLEN_def aset_def)
  obtain c where c: "config_end ?c = Some c" "SectorSize c = 128" "NumDirEntries c = 3" "DirectoryFileSize c = 276"
    "MaxFileNameSize c = 256" "fresh c = (\<lambda>_. 0)"
    using config_end_ok [of ?c] one_config_parts(9-11) by (auto simp: one_config_def defaults_def zero_config_def config.defs Config.defs tiny_cfg_def)
  have n: "Config_new (Some (concat (map render ([dir_line] @ [Copy_item [117] [97]])))) zero_config = Some c"
  proof -
    have "Config_new (Some (concat (map render [dir_line, copy_line]))) zero_config
        = do { c \<leftarrow> foldM meaning [dir_line, copy_line, copy_line] (defaults zero_config); config_end c }"
      using config_file_read [of "[dir_line, copy_line]" zero_config] demo_lines(1,2) by (simp del: foldM.simps)
    then show ?thesis unfolding m using c(1) by (simp add: copy_line_def)
  qed
  obtain fs b r dir where f: "\<not> createLock fs" "create_ready (config.truncate c) fs b 1 r dir" "root_open (config.truncate c) fs r"
    "Directory_Find dir [97] = - 1" "\<exists>e\<in>set dir. \<not> inUse e" "2041 \<le> int (card (free_bits b))"
    using read_formatted [OF c(2,3,4,6)] by blast
  have g: "SectorSize (config.truncate c) = 128" using c(2) by (simp add: config.defs)
  have x: "length [117 :: byte] < MAXSTRLEN" "length [97 :: byte] < MAXSTRLEN" "slash \<notin> set [97]"
    "int (length [97 :: byte]) < MaxFileNameSize (config.truncate c)" "[[117 :: byte] \<mapsto> [1 :: byte, 2, 3]] [117] = Some [1, 2, 3]"
    using c(5) by (simp_all add: MAXSTRLEN_def slash_def config.defs)
  have len: "int (length [1 :: byte, 2, 3]) \<le> MAX_FILE_LENGTH (config.truncate c)"
    by (simp add: g DatasInFirstSector_def DatasInSector_def MAX_FILE_LENGTH_def MAX_DATA_SECTORS_def MAX_HEADER_SECTORS_def)
  have d: "data_count (config.truncate c) 3 = 1" by (simp add: data_count_def divRoundUp_def g cint_simps)
  then have "header_count (config.truncate c) 3 = 0"
    unfolding header_count_def d by (intro divRoundUp_neg; simp add: g DatasInFirstSector_def DatasInSector_def)
  then have room: "1 + data_count (config.truncate c) (int (length [1 :: byte, 2, 3])) + header_count (config.truncate c) (int (length [1 :: byte, 2, 3]))
      \<le> int (card (free_bits b))" using d f(6) by simp
  show ?thesis
    using copy_in_last_line [OF ok x(1,2) one_config_parts(1,3-8) n refl f(2,1,3) x(3,4), of "[[117] \<mapsto> [1, 2, 3]]", OF x(5) len f(4,5) room] n
    by (auto simp: copy_line_def)
qed

end
