(* ===== verification/Spec2Isabelle.thy ===== *)
theory Spec2Isabelle
  imports Nachos_BitMap Nachos_MipsProps Nachos_FileSys Nachos_List Nachos_AddrSpace Nachos_KernelProps Nachos_Trap Nachos_Printf Nachos_ACIAProps Nachos_ConsoleProps Nachos_ConfigProps
begin

text \<open>
  NachOS: the simulated MIPS machine, the kernel, the file system and the library of user
  programs, under \<open>src/nachos/\<close>. The code is modelled with \<open>ETUDIANTS_TP\<close> defined, which is
  the version the repository completes; the branches for its absence only print and exit.

  \<^bold>\<open>The parts and how they interact.\<close> The machine (\<open>machine/\<close>) interprets MIPS
  instructions; every memory access goes through the memory management unit and the page
  table it points to; a fault or a system call calls the kernel; after each instruction
  the clock advances and due interrupts call the handlers of the devices. The kernel
  (\<open>kernel/\<close>) keeps threads, a ready list and synchronisation objects, loads ELF
  executables into address spaces, and has the system calls. Virtual memory (\<open>vm/\<close>) keeps
  the frames of the main memory and the swap area. The file system (\<open>filesys/\<close>) keeps files,
  directories, the table of open files and the map of free sectors on the disk, which a
  driver (\<open>drivers/\<close>) reads and writes sector by sector. \<open>utility/\<close> has the bitmap, the
  linked list, the statistics and the identifiers of objects. User programs call the kernel
  through a library (\<open>userlib/\<close>).

  \<^bold>\<open>Theories.\<close> Shared structures:
  \<^item> \<open>Nachos_Prelude\<close>: C arrays with their bounds, truncating division, counted loops,
    bytes and words, strings, and the record \<open>config\<close> for \<open>g_cfg\<close>.
  \<^item> \<open>Nachos_BitMap\<close>: \<open>utility/bitmap.cc\<close>. A well-formed map stands for the set
    \<open>marked\<close>; locale \<open>sector_allocator\<close>, which file headers use.
  \<^item> \<open>Nachos_List\<close>: \<open>utility/list.h\<close> with its elements in a heap, and its refinement of
    sequences; locale \<open>fifo_queue\<close>.
  \<^item> \<open>Nachos_Stats\<close>: \<open>utility/stats.cc\<close>, the clock and the counters of a process.

  The machine:
  \<^item> \<open>Nachos_TranslationTable\<close>, \<open>Nachos_Machine\<close>, \<open>Nachos_MMU\<close>:
    \<open>machine/translationtable.cc\<close>, \<open>machine/machine.cc\<close>, \<open>machine/mmu.cc\<close>. The record
    \<open>machine\<close> is extended by the later theories, as the kernel reaches the machine through
    \<open>g_machine\<close>.
  \<^item> \<open>Nachos_Decode\<close>, \<open>Nachos_Mult\<close>, \<open>Nachos_Mips\<close>, \<open>Nachos_MipsProps\<close>:
    \<open>machine/mipssim.cc\<close>, one group of definitions per group of cases of its \<open>switch\<close>.
  \<^item> \<open>Nachos_Interrupt\<close>: \<open>machine/interrupt.cc\<close>; locale \<open>device_handlers\<close>, what a device
    handler must do for ticks to return.
  \<^item> \<open>Nachos_Disk\<close>: \<open>machine/disk.cc\<close> and \<open>drivers/drvDisk.cc\<close>.
  \<^item> \<open>Nachos_ACIA\<close>, \<open>Nachos_ACIAProps\<close>: the serial line, \<open>machine/ACIA.cc\<close>,
    \<open>machine/ACIA_sysdep.cc\<close> and \<open>drivers/drvACIA.cc\<close>. The socket is what each look at it finds
    and what has been sent.
  \<^item> \<open>Nachos_Console\<close>, \<open>Nachos_ConsoleProps\<close>: \<open>machine/console.cc\<close> and
    \<open>drivers/drvConsole.cc\<close>, with the only thread that can run; locale \<open>interrupt_rounds\<close>, an
    extension of \<open>device_handlers\<close>: invariants and measures through the interrupts of a wait.

  The file system:
  \<^item> \<open>Nachos_FileHdr\<close>, \<open>Nachos_OpenFile\<close>, \<open>Nachos_Directory\<close>, \<open>Nachos_FileSys\<close>: the files
    of the same names under \<open>filesys/\<close>. Sectors are lists of bytes; a file header is its
    table of sectors; the locale \<open>name_table\<close> is what the file system needs of a directory.
  \<^item> \<open>Nachos_FsMisc\<close>: \<open>filesys/fsmisc.cc\<close>, copies from the host and printing.
  \<^item> \<open>Nachos_OFTable\<close>: \<open>filesys/oftable.cc\<close>, above the kernel, as its entries own locks.

  The kernel and virtual memory:
  \<^item> \<open>Nachos_AddrSpace\<close>: \<open>kernel/addrspace.cc\<close> and \<open>kernel/elf32.h\<close>.
  \<^item> \<open>Nachos_Kernel\<close>, \<open>Nachos_KernelProps\<close>: \<open>kernel/thread.cc\<close>, \<open>kernel/scheduler.cc\<close>,
    \<open>kernel/synch.cc\<close>, and the interrupts of the disk drivers. \<open>kstep\<close> is one call or the
    rest of a call of the thread on the processor, \<open>krun\<close> a sequence of them.
  \<^item> \<open>Nachos_VM\<close>: \<open>vm/physMem.cc\<close>, \<open>vm/swapManager.cc\<close>, \<open>vm/pagefaultmanager.cc\<close> and
    \<open>kernel/process.cc\<close>. \<open>Nachos_VMProps\<close> has the invariant \<open>vm_inv\<close>: a frame belongs to one
    valid page, a sector of the swap area to one page that is out. \<open>Nachos_PageFault\<close> and
    \<open>Nachos_ProcessEnd\<close> show that it is kept, \<open>Nachos_VMDemo\<close> has a state for the witnesses.
  \<^item> \<open>Nachos_ObjId\<close>: \<open>utility/objid.h\<close> and \<open>kernel/msgerror.cc\<close>.
  \<^item> \<open>Nachos_Syscalls\<close>: \<open>kernel/exception.cc\<close>, one definition per case of its \<open>switch\<close>, on
    the state \<open>nachos\<close>, which has all of the above. \<open>Nachos_UserMem\<close> is user memory as the
    calls see it, \<open>Nachos_SyscallProps\<close> the properties of the calls, \<open>Nachos_SyscallDemo\<close>
    their witnesses.
  \<^item> \<open>Nachos_Trap\<close>: the interpreter and the exception handler together.

  The configuration and the start:
  \<^item> \<open>Nachos_Config\<close>, \<open>Nachos_ConfigProps\<close>: \<open>utility/config.cc\<close>, and what \<open>main\<close> does to the
    file system.

  User programs:
  \<^item> \<open>Nachos_UserLib\<close>, \<open>Nachos_UserLibProps\<close>, \<open>Nachos_Printf\<close>: \<open>userlib/libnachos.c\<close>.

  \<^bold>\<open>Conventions.\<close> \<open>None\<close> is a failed assertion, \<open>exit\<close>, \<open>Halt\<close>, undefined behaviour or
  a loop that does not return; \<open>Some\<close> is a return. Error codes are ordinary values. C
  integers are words where they are registers or addresses of the simulated machine, and
  integers where the code computes sizes and positions that stay in range; registers are
  32 bits and wrap around. Objects that are shared are named by numbers. A call that gives
  up the processor returns \<open>Switched\<close>, with the rest of the call kept for the thread.

  \<^bold>\<open>What is shown.\<close> The file system: what a created file is, that it leaves all other
  files alone, that failed calls change nothing, path resolution, that writing and reading
  at any offset are operations on one sequence of bytes, and that a file is deleted when its
  last user closes it. The processor: its invariant through every instruction, products,
  overflow traps, delay slots, decoding. The memory: writes and reads through the page table,
  protection; a page fault gives the page what it had, whatever page has to leave the memory,
  and a process that ends gives its frames and sectors back. The kernel: mutual
  exclusion of locks over all runs, one place for every thread, first come first served
  scheduling, ticks that return. The system calls: what a program writes into a file it
  reads back, calls on wrong identifiers fail, identifiers are not used again, and one call
  from the instruction to the register with its result. Messages over the serial line, lines
  from the console. What a configuration file says, and what is copied to the disk at start.
  The library: \<open>snprintf\<close> prints what its format says, cut to the buffer, and \<open>atoi\<close> reads
  printed numbers. Round trips of the structures stored on disk. Several properties state
  errors of the code as they are: a condition nobody leaves, a semaphore that two threads
  pass, a page lost when the swap area is full, a transmitter that never stops, a line that is
  read twice.

  \<^bold>\<open>Loops.\<close> Counted loops are structural (\<open>foldM\<close> over the range). Scans of arrays have a
  measure: \<open>BitMap_Find_from\<close>, \<open>FindDir_loop\<close>, the strings of the library, the buffers of the
  serial line and of the console, \<open>config_loop\<close>. Loops that may run for ever are partial functions and return \<open>None\<close> when they
  do: \<open>check_all\<close>, \<open>next_thread\<close>, \<open>Thread_Join\<close>, the loops of the linked list, the search for
  a frame \<open>clock_loop\<close>, the waits \<open>io_wait\<close> and \<open>sector_wait\<close>, \<open>length_from\<close> of a string in user
  memory, \<open>back_to_user\<close>, \<open>print_loop\<close>, the wait \<open>asleep\<close> of the console driver, and the polling
  loops of the serial line. Where the code relies on
  their return it is a property or part of one. No fuel is used.

  \<^bold>\<open>Not modelled.\<close> \<open>Initialize\<close>, the command line, the timer, which is never created, the
  interface to the host, debugging output, the bounded stacks of the simulator, user
  programs. Parameters of the model: the floating point operations of the
  host, the drivers that system calls use for the console and the serial line, the text of
  a printed floating point number, and what other threads do while one waits in a page fault
  (\<open>others\<close>). Disk requests of the file system and of virtual memory are synchronous: threads that run
  while one waits for the disk are in the model of the kernel. The kernel theory removes a
  process as soon as its last thread is deleted; the frames and sectors that go with it are
  in \<open>Process_delete\<close> of \<open>Nachos_VM\<close>. The tests of \<open>typeId\<close> take the memory of a deleted
  object to be used again by objects of its class only.
\<close>

text \<open>
  C37. On a well-formed bitmap with a clear bit, \<open>Find\<close> returns the number of the
  lowest clear bit and marks that bit and no other.
\<close>
theorem bitmap_find_lowest_free:
  assumes "wf_bitmap b" "\<exists>i. 0 \<le> i \<and> i < numBits b \<and> i \<notin> marked b"
  shows "\<exists>i b'. BitMap_Find b = Some (i, b') \<and> 0 \<le> i \<and> i < numBits b \<and> i \<notin> marked b
    \<and> (\<forall>j. 0 \<le> j \<and> j < i \<longrightarrow> j \<in> marked b) \<and> wf_bitmap b' \<and> marked b' = insert i (marked b)"
proof -
  let ?F = "free_bits b"
  have ne: "?F \<noteq> {}" using assms(2) by (auto simp: free_bits_def)
  then have m: "Min ?F \<in> ?F" by (intro Min_in) simp_all
  have low: "j \<in> marked b" if "0 \<le> j" "j < Min ?F" for j
  proof (rule ccontr)
    assume "j \<notin> marked b"
    with that m have "j \<in> ?F" by (auto simp: free_bits_def)
    then have "Min ?F \<le> j" by (intro Min_le) simp_all
    with that show False by simp
  qed
  obtain b' where "BitMap_Find b = Some (Min ?F, b')" "wf_bitmap b'"
    "marked b' = insert (Min ?F) (marked b)"
    using BitMap_Find_correct [OF assms(1)] ne by auto
  then show ?thesis using m low by (auto simp: free_bits_def)
qed

text \<open>A 40-bit map whose first two bits are marked.\<close>

definition bitmap40 :: bitmap where
  "bitmap40 = \<lparr>numBits = 40, numWords = 2, bits = [3, 0]\<rparr>"

theorem bitmap_find_lowest_free_witness:
  "\<exists>i b'. BitMap_Find bitmap40 = Some (i, b') \<and> i \<notin> marked bitmap40"
proof -
  have w: "wf_bitmap bitmap40"
    by (simp add: wf_bitmap_def bitmap40_def divRoundUp_def BITS_IN_WORD_def cint_simps)
  have "\<exists>i. 0 \<le> i \<and> i < numBits bitmap40 \<and> i \<notin> marked bitmap40"
    by (rule exI [of _ 2]) (simp add: marked_def bitmap40_def)
  from bitmap_find_lowest_free [OF w this] show ?thesis by blast
qed

end
